(* ===== verification/Prelude.thy ===== *)
theory Prelude
  imports Main "HOL-Library.Word" "HOL-Library.Multiset"
begin

text \<open>
  Shared vocabulary of the development: the types Rust values are read as, the SQL
  statements the daemon runs against its SQLite tables, saturating and wrapping 64-bit
  arithmetic, and two interface locales that several components instantiate
  (\<open>transition_system\<close>: a state machine with an inductive invariant;
  \<open>row_store\<close>: insert, look up and delete rows by primary key).

  A table is the list of its rows in rowid order. The statements of the code are its
  \<open>WHERE\<close> clause (a predicate on rows) and its \<open>SET\<close> clause (a function on rows).
\<close>

named_theorems tbl \<open>rewrite rules for the table statements\<close>
named_theorems frame \<open>fields an operation leaves alone\<close>

section \<open>Values\<close>

text \<open>
  \<open>string\<close> is a byte string (ids, nicks, names: everything the code only compares or
  checks against ASCII classes); \<open>utext\<close> is a sequence of Unicode code points (what the
  code walks with \<open>chars()\<close>). An \<open>i64\<close> is an \<open>int\<close>; \<open>wrap64\<close> and the saturating
  operations write the width out where it matters.
\<close>

type_synonym utext = "nat list"
type_synonym u8 = "8 word"

definition of_str :: "string \<Rightarrow> utext" where
  "of_str s = map of_char s"

definition i64_max :: int where "i64_max = 9223372036854775807"
definition i64_min :: int where "i64_min = - 9223372036854775808"

definition wrap64 :: "int \<Rightarrow> int" where
  "wrap64 x = (x + 9223372036854775808) mod 18446744073709551616 - 9223372036854775808"

definition sat64 :: "int \<Rightarrow> int" where
  "sat64 x = max i64_min (min i64_max x)"

lemma wrap64_id: "i64_min \<le> x \<Longrightarrow> x \<le> i64_max \<Longrightarrow> wrap64 x = x"
  by (simp add: wrap64_def i64_min_def i64_max_def)

lemma sat64_id: "i64_min \<le> x \<Longrightarrow> x \<le> i64_max \<Longrightarrow> sat64 x = x"
  by (simp add: sat64_def)

definition is_ascii_digit :: "nat \<Rightarrow> bool" where
  "is_ascii_digit c \<longleftrightarrow> 48 \<le> c \<and> c \<le> 57"

definition is_ascii_alpha :: "nat \<Rightarrow> bool" where
  "is_ascii_alpha c \<longleftrightarrow> 65 \<le> c \<and> c \<le> 90 \<or> 97 \<le> c \<and> c \<le> 122"

definition is_ascii_alnum :: "nat \<Rightarrow> bool" where
  "is_ascii_alnum c \<longleftrightarrow> is_ascii_digit c \<or> is_ascii_alpha c"

text \<open>
  \<open>char::is_alphanumeric\<close>: decided here below 128; above, by the Unicode tables, which are
  the argument \<open>uni\<close>. \<open>char::is_whitespace\<close> (the White_Space property) and
  \<open>char::is_control\<close> (general category Cc) are small enough to write out in full.
\<close>

definition is_alnum :: "(nat \<Rightarrow> bool) \<Rightarrow> nat \<Rightarrow> bool" where
  "is_alnum uni c \<longleftrightarrow> (if c < 128 then is_ascii_alnum c else uni c)"

definition is_white :: "nat \<Rightarrow> bool" where
  "is_white c \<longleftrightarrow> 9 \<le> c \<and> c \<le> 13 \<or> c = 32 \<or> c = 133 \<or> c = 160 \<or> c = 5760
     \<or> 8192 \<le> c \<and> c \<le> 8202 \<or> c = 8232 \<or> c = 8233 \<or> c = 8239 \<or> c = 8287 \<or> c = 12288"

definition is_control :: "nat \<Rightarrow> bool" where
  "is_control c \<longleftrightarrow> c < 32 \<or> 127 \<le> c \<and> c \<le> 159"

text \<open>\<open>str::trim\<close> and \<open>str::split_whitespace\<close>.\<close>

definition trim :: "utext \<Rightarrow> utext" where
  "trim t = rev (dropWhile is_white (rev (dropWhile is_white t)))"

function split_white :: "utext \<Rightarrow> utext list" where
  "split_white [] = []"
| "split_white (c # cs) =
     (if is_white c then split_white cs
      else (c # takeWhile (\<lambda>x. \<not> is_white x) cs) # split_white (dropWhile (\<lambda>x. \<not> is_white x) cs))"
  by pat_completeness auto
termination by (relation "measure length") (auto simp: le_imp_less_Suc length_dropWhile_le)

text \<open>\<open>str::trim_matches\<close> with a predicate.\<close>

definition trim_matches :: "('a \<Rightarrow> bool) \<Rightarrow> 'a list \<Rightarrow> 'a list" where
  "trim_matches p t = rev (dropWhile p (rev (dropWhile p t)))"

text \<open>\<open>[\<dots>].join(sep)\<close>, \<open>str::contains\<close> and \<open>str::strip_prefix\<close>.\<close>

fun join_with :: "'a list \<Rightarrow> 'a list list \<Rightarrow> 'a list" where
  "join_with sep [] = []"
| "join_with sep [x] = x"
| "join_with sep (x # y # ys) = x @ sep @ join_with sep (y # ys)"

fun contains :: "'a list \<Rightarrow> 'a list \<Rightarrow> bool" where
  "contains sub [] = (sub = [])"
| "contains sub (x # xs) = (take (length sub) (x # xs) = sub \<or> contains sub xs)"

definition strip_prefix :: "'a list \<Rightarrow> 'a list \<Rightarrow> 'a list option" where
  "strip_prefix p t = (if take (length p) t = p then Some (drop (length p) t) else None)"

definition given_or :: "'a \<Rightarrow> 'a option \<Rightarrow> 'a" where
  "given_or d x = (case x of None \<Rightarrow> d | Some v \<Rightarrow> v)"

lemma strip_prefix_append [simp]: "strip_prefix p (p @ t) = Some t"
  by (simp add: strip_prefix_def)

lemma contains_append2 [simp]: "contains sub (a @ sub @ b)"
proof (induction a)
  case Nil
  have "contains sub (sub @ b)"
  proof (cases "sub @ b")
    case (Cons x xs)
    then have "take (length sub) (x # xs) = sub" by (metis append_eq_conv_conj)
    then show ?thesis unfolding Cons by simp
  qed simp
  then show ?case by simp
qed simp

lemma contains_iff: "contains sub t \<longleftrightarrow> (\<exists>a b. t = a @ sub @ b)"
proof
  show "contains sub t \<Longrightarrow> \<exists>a b. t = a @ sub @ b"
  proof (induction sub t rule: contains.induct)
    case (2 sub x xs)
    show ?case
    proof (cases "take (length sub) (x # xs) = sub")
      case True
      then have "x # xs = [] @ sub @ drop (length sub) (x # xs)" by (metis append_Nil append_take_drop_id)
      then show ?thesis by blast
    next
      case False
      with 2 obtain a b where "xs = a @ sub @ b" by auto
      then have "x # xs = (x # a) @ sub @ b" by simp
      then show ?thesis by blast
    qed
  qed auto
qed auto

section \<open>SQL statements on a table\<close>

type_synonym 'r rows = "'r list"

definition upd_where :: "('r \<Rightarrow> bool) \<Rightarrow> ('r \<Rightarrow> 'r) \<Rightarrow> 'r rows \<Rightarrow> 'r rows" where
  "upd_where p f t = map (\<lambda>r. if p r then f r else r) t"

definition del_where :: "('r \<Rightarrow> bool) \<Rightarrow> 'r rows \<Rightarrow> 'r rows" where
  "del_where p t = filter (\<lambda>r. \<not> p r) t"

definition count_where :: "('r \<Rightarrow> bool) \<Rightarrow> 'r rows \<Rightarrow> nat" where
  "count_where p t = length (filter p t)"

definition row_of :: "('r \<Rightarrow> 'k) \<Rightarrow> 'k \<Rightarrow> 'r rows \<Rightarrow> 'r option" where
  "row_of key k t = find (\<lambda>r. key r = k) t"

text \<open>\<open>INSERT OR REPLACE\<close>, \<open>INSERT OR IGNORE\<close> and \<open>INSERT \<dots> ON CONFLICT DO UPDATE\<close>.\<close>

definition ins_replace :: "('r \<Rightarrow> 'k) \<Rightarrow> 'r \<Rightarrow> 'r rows \<Rightarrow> 'r rows" where
  "ins_replace key r t = del_where (\<lambda>x. key x = key r) t @ [r]"

definition ins_ignore :: "('r \<Rightarrow> 'k) \<Rightarrow> 'r \<Rightarrow> 'r rows \<Rightarrow> 'r rows" where
  "ins_ignore key r t = (if key r \<in> key ` set t then t else t @ [r])"

definition upsert :: "('r \<Rightarrow> 'k) \<Rightarrow> 'r \<Rightarrow> ('r \<Rightarrow> 'r) \<Rightarrow> 'r rows \<Rightarrow> 'r rows" where
  "upsert key r f t =
     (if key r \<in> key ` set t then upd_where (\<lambda>x. key x = key r) f t else t @ [r])"

definition pk :: "('r \<Rightarrow> 'k) \<Rightarrow> 'r rows \<Rightarrow> bool" where
  "pk key t \<longleftrightarrow> distinct (map key t)"

lemma set_upd_where [tbl]:
  "set (upd_where p f t) = f ` {r \<in> set t. p r} \<union> {r \<in> set t. \<not> p r}"
  by (auto simp: upd_where_def)

lemma ball_upd_where:
  "(\<forall>s \<in> set (upd_where p f t). Q s) \<longleftrightarrow> (\<forall>r \<in> set t. Q (if p r then f r else r))"
  by (induction t) (auto simp: upd_where_def)

lemma set_del_where [tbl]: "set (del_where p t) = {r \<in> set t. \<not> p r}"
  by (auto simp: del_where_def)

lemma upd_where_Nil [simp]: "upd_where p f [] = []"
  by (simp add: upd_where_def)

lemma upd_where_Cons [simp]:
  "upd_where p f (r # t) = (if p r then f r else r) # upd_where p f t"
  by (simp add: upd_where_def)

lemma del_where_Nil [simp]: "del_where p [] = []"
  by (simp add: del_where_def)

lemma del_where_Cons [simp]:
  "del_where p (r # t) = (if p r then del_where p t else r # del_where p t)"
  by (simp add: del_where_def)

lemma upd_where_append [tbl]: "upd_where p f (s @ t) = upd_where p f s @ upd_where p f t"
  by (simp add: upd_where_def)

lemma length_upd_where [simp]: "length (upd_where p f t) = length t"
  by (simp add: upd_where_def)

lemma upd_where_none: "\<forall>r \<in> set t. \<not> p r \<Longrightarrow> upd_where p f t = t"
  by (induction t) auto

lemma keys_upd_where:
  assumes "\<And>r. r \<in> set t \<Longrightarrow> p r \<Longrightarrow> key (f r) = key r"
  shows "map key (upd_where p f t) = map key t"
  using assms by (simp add: upd_where_def)

lemma upd_where_twice:
  assumes "\<And>r. f (f r) = f r" "\<And>r. q (f r) = q r"
  shows "upd_where q f (upd_where p f t) = upd_where (\<lambda>r. p r \<or> q r) f t"
  using assms by (induction t) auto

lemma pk_upd_where:
  assumes "\<And>r. r \<in> set t \<Longrightarrow> p r \<Longrightarrow> key (f r) = key r"
  shows "pk key (upd_where p f t) = pk key t"
  using keys_upd_where [of t p key f] assms by (simp add: pk_def)

lemma pk_del_where: "pk key t \<Longrightarrow> pk key (del_where p t)"
  by (simp add: pk_def del_where_def distinct_map_filter)

lemma pk_snoc: "pk key (t @ [r]) \<longleftrightarrow> pk key t \<and> key r \<notin> key ` set t"
  by (auto simp: pk_def)

lemma pk_ins_replace: "pk key t \<Longrightarrow> pk key (ins_replace key r t)"
  by (auto simp: ins_replace_def pk_snoc pk_del_where set_del_where)

lemma pk_ins_ignore: "pk key t \<Longrightarrow> pk key (ins_ignore key r t)"
  by (simp add: ins_ignore_def pk_snoc)

lemma pk_upsert:
  assumes "pk key t" and "\<And>x. key x = key r \<Longrightarrow> key (f x) = key x"
  shows "pk key (upsert key r f t)"
  using assms pk_upd_where [of t "\<lambda>x. key x = key r" key f] by (simp add: upsert_def pk_snoc)

lemma pk_eq: "pk key t \<Longrightarrow> r \<in> set t \<Longrightarrow> s \<in> set t \<Longrightarrow> key r = key s \<Longrightarrow> r = s"
  by (auto simp: pk_def distinct_map inj_on_def)

lemma find_SomeD: "find P xs = Some x \<Longrightarrow> x \<in> set xs \<and> P x"
  by (induction xs) (auto split: if_splits)

lemma row_of_Some: "row_of key k t = Some r \<Longrightarrow> r \<in> set t \<and> key r = k"
  by (auto simp: row_of_def find_Some_iff)

lemma row_of_None: "row_of key k t = None \<longleftrightarrow> k \<notin> key ` set t"
  by (auto simp: row_of_def find_None_iff)

lemma row_of_pk:
  assumes "pk key t" "r \<in> set t"
  shows "row_of key (key r) t = Some r"
proof (cases "row_of key (key r) t")
  case None
  then show ?thesis using assms by (auto simp: row_of_None)
next
  case (Some s)
  with row_of_Some [OF Some] show ?thesis using pk_eq [OF assms(1)] assms(2) by auto
qed

lemma row_of_Nil [simp]: "row_of key k [] = None"
  by (simp add: row_of_def)

lemma row_of_Cons [simp]:
  "row_of key k (r # t) = (if key r = k then Some r else row_of key k t)"
  by (simp add: row_of_def)

lemma row_of_append [tbl]:
  "row_of key k (s @ t) = (case row_of key k s of None \<Rightarrow> row_of key k t | Some r \<Rightarrow> Some r)"
  by (induction s) auto

lemma row_of_upd_where [tbl]:
  assumes "\<And>r. key (f r) = key r"
  shows "row_of key k (upd_where p f t)
    = map_option (\<lambda>r. if p r then f r else r) (row_of key k t)"
  using assms by (induction t) auto

lemma row_of_upsert:
  assumes "\<And>x. key (f x) = key x"
  shows "row_of key k (upsert key r f t)
    = (if k = key r then Some (case row_of key k t of None \<Rightarrow> r | Some x \<Rightarrow> f x) else row_of key k t)"
proof (cases "key r \<in> key ` set t")
  case True
  then have some: "row_of key (key r) t \<noteq> None" by (simp add: row_of_None)
  show ?thesis using True some
    by (cases "row_of key k t") (auto simp: upsert_def row_of_upd_where assms dest: row_of_Some)
next
  case False
  then have "row_of key (key r) t = None" by (simp add: row_of_None)
  then show ?thesis using False by (auto simp: upsert_def row_of_append split: option.splits)
qed

lemma row_of_del_key [tbl]:
  "row_of key k (del_where (\<lambda>r. key r = k') t) = (if k = k' then None else row_of key k t)"
  by (induction t) auto

lemma row_of_ins_replace [tbl]:
  "row_of key k (ins_replace key r t) = (if k = key r then Some r else row_of key k t)"
  by (auto simp: ins_replace_def tbl split: option.splits)

lemma set_ins_replace [tbl]: "set (ins_replace key r t) = insert r {x \<in> set t. key x \<noteq> key r}"
  by (auto simp: ins_replace_def tbl)

lemma ins_replace_fresh: "key r \<notin> key ` set t \<Longrightarrow> ins_replace key r t = t @ [r]"
  by (auto simp: ins_replace_def del_where_def filter_id_conv image_iff)

text \<open>The row id SQLite gives an \<open>INTEGER PRIMARY KEY\<close> left out of an \<open>INSERT\<close>: one more than the largest.\<close>

definition next_rowid :: "('r \<Rightarrow> int) \<Rightarrow> 'r rows \<Rightarrow> int" where
  "next_rowid key t = (if t = [] then 1 else Max (set (map key t)) + 1)"

lemma next_rowid_gt: "r \<in> set t \<Longrightarrow> key r < next_rowid key t"
proof -
  assume r: "r \<in> set t"
  then have "key r \<le> Max (set (map key t))" by (intro Max_ge) auto
  moreover have "t \<noteq> []" using r by auto
  ultimately show ?thesis by (simp add: next_rowid_def)
qed

lemma next_rowid_fresh: "next_rowid key t \<notin> key ` set t"
  using next_rowid_gt [of _ t key] by force

lemma pk_next: "pk key t \<Longrightarrow> key r = next_rowid key t \<Longrightarrow> pk key (t @ [r])"
  using next_rowid_fresh [of key t] by (simp add: pk_snoc)

text \<open>A (partial) unique index: the rows that satisfy \<open>p\<close> have distinct \<open>k\<close>.\<close>

definition uniq_where :: "('r \<Rightarrow> bool) \<Rightarrow> ('r \<Rightarrow> 'k) \<Rightarrow> 'r rows \<Rightarrow> bool" where
  "uniq_where p k t \<longleftrightarrow> distinct (map k (filter p t))"

lemma uniq_where_iff:
  assumes "pk key t"
  shows "uniq_where p k t \<longleftrightarrow>
    (\<forall>r \<in> set t. \<forall>s \<in> set t. p r \<longrightarrow> p s \<longrightarrow> k r = k s \<longrightarrow> key r = key s)"
proof -
  have d: "distinct t" using assms by (auto simp: pk_def distinct_map)
  then have "uniq_where p k t \<longleftrightarrow> inj_on k (set (filter p t))"
    by (simp add: uniq_where_def distinct_map)
  also have "\<dots> \<longleftrightarrow> (\<forall>r \<in> set t. \<forall>s \<in> set t. p r \<longrightarrow> p s \<longrightarrow> k r = k s \<longrightarrow> r = s)"
    by (auto simp: inj_on_def)
  also have "\<dots> \<longleftrightarrow> (\<forall>r \<in> set t. \<forall>s \<in> set t. p r \<longrightarrow> p s \<longrightarrow> k r = k s \<longrightarrow> key r = key s)"
    using pk_eq [OF assms] by blast
  finally show ?thesis .
qed

lemma uniq_whereD:
  "uniq_where p k t \<Longrightarrow> r \<in> set t \<Longrightarrow> s \<in> set t \<Longrightarrow> p r \<Longrightarrow> p s \<Longrightarrow> k r = k s \<Longrightarrow> r = s"
  by (auto simp: uniq_where_def distinct_map inj_on_def)

text \<open>An update that only takes rows out of the index, or leaves their index key alone.\<close>

lemma uniq_where_shrink:
  assumes "uniq_where p k t" and "\<And>r. q r \<Longrightarrow> p (f r) \<Longrightarrow> p r \<and> k (f r) = k r"
  shows "uniq_where p k (upd_where q f t)"
  using assms(1)
proof (induction t)
  case Nil
  then show ?case by (simp add: uniq_where_def)
next
  case (Cons r t)
  have sub: "set (map k (filter p (upd_where q f t))) \<subseteq> set (map k (filter p t))"
    using assms(2) by (auto simp: tbl)
  with Cons assms(2) [of r] show ?case by (auto simp: uniq_where_def split: if_splits)
qed

text \<open>An update of the one row \<open>i\<close>, whose new index key nobody else has.\<close>

lemma uniq_where_set_one:
  assumes "pk key t" "uniq_where p k t" "\<And>r. key (f r) = key r"
    and "\<And>r. r \<in> set t \<Longrightarrow> key r = i \<Longrightarrow> q r \<Longrightarrow> p (f r) \<Longrightarrow>
      \<forall>s \<in> set t. p s \<longrightarrow> key s \<noteq> i \<longrightarrow> k s \<noteq> k (f r)"
  shows "uniq_where p k (upd_where (\<lambda>r. key r = i \<and> q r) f t)"
proof -
  have pk': "pk key (upd_where (\<lambda>r. key r = i \<and> q r) f t)"
    using assms(1,3) by (simp add: pk_upd_where)
  have old: "p a \<Longrightarrow> p b \<Longrightarrow> k a = k b \<Longrightarrow> key a = key b" if "a \<in> set t" "b \<in> set t" for a b
    using assms(2) that unfolding uniq_where_iff [OF assms(1)] by blast
  have "key r = key s"
    if r: "r \<in> set (upd_where (\<lambda>r. key r = i \<and> q r) f t)" "p r"
      and s: "s \<in> set (upd_where (\<lambda>r. key r = i \<and> q r) f t)" "p s" and eq: "k r = k s" for r s
  proof (rule ccontr)
    assume ne: "key r \<noteq> key s"
    have "\<exists>a \<in> set t. key a = i \<and> q a \<and> x = f a \<or> x = a \<and> \<not> (key a = i \<and> q a)"
      if "x \<in> set (upd_where (\<lambda>r. key r = i \<and> q r) f t)" for x
      using that by (auto simp: tbl)
    from this [OF r(1)] this [OF s(1)] obtain a b where ab: "a \<in> set t" "b \<in> set t"
      and a: "key a = i \<and> q a \<and> r = f a \<or> r = a \<and> \<not> (key a = i \<and> q a)"
      and b: "key b = i \<and> q b \<and> s = f b \<or> s = b \<and> \<not> (key b = i \<and> q b)" by blast
    from a b show False
      using ab ne eq r(2) s(2) old [of a b] assms(3) assms(4) [of a] assms(4) [of b] by (elim disjE) auto
  qed
  then show ?thesis unfolding uniq_where_iff [OF pk'] by blast
qed

section \<open>Decimal numbers\<close>

fun dec :: "nat \<Rightarrow> string" where
  "dec n = (if n < 10 then [char_of (48 + n)] else dec (n div 10) @ [char_of (48 + n mod 10)])"

declare dec.simps [simp del]

definition dec_int :: "int \<Rightarrow> string" where
  "dec_int i = (if i < 0 then CHR ''-'' # dec (nat (- i)) else dec (nat i))"

section \<open>Interfaces\<close>

text \<open>A state machine: what holds at the start and is kept by every step holds always.\<close>

locale transition_system =
  fixes start :: "'s \<Rightarrow> bool" and step :: "'s \<Rightarrow> 's \<Rightarrow> bool" and inv :: "'s \<Rightarrow> bool"
  assumes start_inv: "start s \<Longrightarrow> inv s"
    and step_inv: "step s t \<Longrightarrow> inv s \<Longrightarrow> inv t"
begin

lemma steps_inv: "step\<^sup>*\<^sup>* s t \<Longrightarrow> inv s \<Longrightarrow> inv t"
  by (induction rule: rtranclp_induct) (auto intro: step_inv)

lemma reachable_inv: "start s \<Longrightarrow> step\<^sup>*\<^sup>* s t \<Longrightarrow> inv t"
  using start_inv steps_inv by blast

end

text \<open>
  A keyed table as its callers see it: what a lookup answers after an insert, a delete.
  \<open>row_store_roundtrip\<close> and the other lemmas are what the components' flows rest on.
\<close>

locale row_store =
  fixes ok :: "'db \<Rightarrow> bool" and lookup :: "'db \<Rightarrow> 'k \<Rightarrow> 'v option"
    and put :: "'k \<Rightarrow> 'v \<Rightarrow> 'db \<Rightarrow> 'db" and remove :: "'k \<Rightarrow> 'db \<Rightarrow> 'db"
    and fits :: "'k \<Rightarrow> 'v \<Rightarrow> bool"
  assumes lookup_put: "ok d \<Longrightarrow> fits k v \<Longrightarrow> lookup d k = None \<Longrightarrow>
      lookup (put k v d) k' = (if k' = k then Some v else lookup d k')"
    and lookup_remove: "ok d \<Longrightarrow> lookup (remove k d) k' = (if k' = k then None else lookup d k')"
    and ok_put: "ok d \<Longrightarrow> fits k v \<Longrightarrow> lookup d k = None \<Longrightarrow> ok (put k v d)"
    and ok_remove: "ok d \<Longrightarrow> ok (remove k d)"
begin

lemma put_remove:
  "ok d \<Longrightarrow> fits k v \<Longrightarrow> lookup d k = None \<Longrightarrow> lookup (remove k (put k v d)) = lookup d"
  by (auto simp: fun_eq_iff lookup_put lookup_remove ok_put)

lemma remove_idem: "ok d \<Longrightarrow> lookup (remove k (remove k d)) = lookup (remove k d)"
  by (auto simp: fun_eq_iff lookup_remove ok_remove)

lemma put_frame:
  "ok d \<Longrightarrow> fits k v \<Longrightarrow> lookup d k = None \<Longrightarrow> k' \<noteq> k \<Longrightarrow> lookup (put k v d) k' = lookup d k'"
  by (simp add: lookup_put)

end

end
