(* ===== verification/Registry.thy ===== *)
theory Registry
  imports Prelude
begin

text \<open>
  The agent registry of the daemon (\<open>src/daemon/agent_registry.rs\<close>): one row per
  session that ever registered, its life cycle (alive, orphaned, dead), its nick, the
  Telegram chat routed to it, its session token and its do-not-disturb deadline; and the
  two side tables that outlive a process, the chat bindings by nick and the nick memory.

  Constraints come from the schema in \<open>src/daemon/chat.rs\<close>: the primary key, the two
  partial unique indexes and the \<open>CHECK\<close> on \<open>routing_thread_id\<close>. A statement
  that would break one of them fails and changes nothing.
\<close>

section \<open>Rows and constraints\<close>

datatype agent_state = Alive | Orphaned | Dead

fun state_str :: "agent_state \<Rightarrow> string" where
  "state_str Alive = ''alive''"
| "state_str Orphaned = ''orphaned''"
| "state_str Dead = ''dead''"

definition parse_state :: "string \<Rightarrow> agent_state option" where
  "parse_state s =
     (if s = ''alive'' then Some Alive
      else if s = ''orphaned'' then Some Orphaned
      else if s = ''dead'' then Some Dead else None)"

record agent_row =
  ar_id :: string
  ar_name :: string
  ar_conn :: string
  ar_thread :: "string option"
  ar_spawned :: int
  ar_pinged :: int
  ar_state :: agent_state
  ar_metadata :: "string option"
  ar_rchat :: "int option"
  ar_rthread :: "int option"
  ar_last_user :: "int option"
  ar_host :: "string option"
  ar_cwd :: "string option"
  ar_pid :: "int option"
  ar_token :: "string option"
  ar_project :: "string option"
  ar_branch :: "string option"
  ar_wdir :: "string option"
  ar_feature :: "string option"
  ar_dnd :: "int option"
  ar_session :: "string option"
  ar_terminal :: "string option"

datatype reg_error =
    BadAgentName | NameAliveInThread | NickTaken string | ConstraintFailed
  | NoAliveAgent string | AmbiguousAgent string "string list" | NotAlive string
  | EmptyDnd | BadDndUnit | BadDndNumber | BadDndTime

definition coalesce :: "int option \<Rightarrow> int" where
  "coalesce x = (case x of None \<Rightarrow> -1 | Some n \<Rightarrow> n)"

definition alive :: "agent_row \<Rightarrow> bool" where
  "alive r \<longleftrightarrow> ar_state r = Alive"

definition route_key :: "agent_row \<Rightarrow> int option \<times> int" where
  "route_key r = (ar_rchat r, coalesce (ar_rthread r))"

definition name_idx :: "agent_row rows \<Rightarrow> bool" where
  "name_idx = uniq_where (\<lambda>r. alive r \<and> ar_thread r \<noteq> None) (\<lambda>r. (ar_thread r, ar_name r))"

definition routing_idx :: "agent_row rows \<Rightarrow> bool" where
  "routing_idx = uniq_where (\<lambda>r. alive r \<and> ar_rchat r \<noteq> None) route_key"

definition thread_ok :: "int option \<Rightarrow> bool" where
  "thread_ok x = (case x of None \<Rightarrow> True | Some n \<Rightarrow> 0 < n)"

definition constraints :: "agent_row rows \<Rightarrow> bool" where
  "constraints t \<longleftrightarrow> pk ar_id t \<and> name_idx t \<and> routing_idx t
     \<and> (\<forall>r \<in> set t. thread_ok (ar_rthread r))"

definition exec :: "agent_row rows \<Rightarrow> reg_error + agent_row rows" where
  "exec t = (if constraints t then Inr t else Inl ConstraintFailed)"

section \<open>Names\<close>

definition valid_agent_name :: "string \<Rightarrow> bool" where
  "valid_agent_name name \<longleftrightarrow> name \<noteq> [] \<and> length name \<le> 64
     \<and> list_all (\<lambda>c. is_ascii_alnum (of_char c) \<or> c = CHR ''_'' \<or> c = CHR ''-'') name"

section \<open>Life cycle\<close>

definition fresh_row :: "string \<Rightarrow> string \<Rightarrow> string \<Rightarrow> string option \<Rightarrow> string option \<Rightarrow> int \<Rightarrow> agent_row" where
  "fresh_row aid name conn thread metadata now =
     \<lparr>ar_id = aid, ar_name = name, ar_conn = conn, ar_thread = thread, ar_spawned = now,
      ar_pinged = now, ar_state = Alive, ar_metadata = metadata, ar_rchat = None,
      ar_rthread = None, ar_last_user = None, ar_host = None, ar_cwd = None, ar_pid = None,
      ar_token = None, ar_project = None, ar_branch = None, ar_wdir = None,
      ar_feature = None, ar_dnd = None, ar_session = None, ar_terminal = None\<rparr>"

record register_outcome =
  spawned_at :: int
  effective_name :: string

definition bury_same_slot :: "string \<Rightarrow> string \<Rightarrow> string option \<Rightarrow> agent_row rows \<Rightarrow> agent_row rows" where
  "bury_same_slot conn aid thread =
     upd_where (\<lambda>r. ar_conn r = conn \<and> ar_id r \<noteq> aid \<and> alive r \<and> ar_thread r = thread)
       (\<lambda>r. r\<lparr>ar_state := Dead\<rparr>)"

definition register ::
  "string \<Rightarrow> string \<Rightarrow> string \<Rightarrow> string option \<Rightarrow> string option \<Rightarrow> int \<Rightarrow> agent_row rows
     \<Rightarrow> reg_error + agent_row rows \<times> register_outcome" where
  "register aid name conn thread metadata now t =
     (if \<not> valid_agent_name name then Inl BadAgentName
      else
        let t1 = bury_same_slot conn aid thread t;
            t2 = upsert ar_id (fresh_row aid name conn thread metadata now)
                   (\<lambda>r. r\<lparr>ar_conn := conn, ar_thread := thread, ar_pinged := now,
                          ar_state := Alive, ar_metadata := metadata\<rparr>) t1
        in (case exec t2 of
              Inl _ \<Rightarrow> Inl NameAliveInThread
            | Inr t3 \<Rightarrow>
                Inr (t3, \<lparr>spawned_at = now,
                          effective_name = (case row_of ar_id aid t3 of
                            None \<Rightarrow> name | Some r \<Rightarrow> ar_name r)\<rparr>)))"

definition unregister :: "string \<Rightarrow> agent_row rows \<Rightarrow> agent_row rows \<times> string" where
  "unregister aid t =
     (case row_of ar_id aid t of
        None \<Rightarrow> (t, ''absent'')
      | Some r \<Rightarrow> (upd_where (\<lambda>r. ar_id r = aid) (\<lambda>r. r\<lparr>ar_state := Dead\<rparr>) t, state_str (ar_state r)))"

definition mark_connection_orphaned :: "string \<Rightarrow> agent_row rows \<Rightarrow> agent_row rows \<times> nat" where
  "mark_connection_orphaned conn t =
     (let p = (\<lambda>r. ar_conn r = conn \<and> alive r)
      in (upd_where p (\<lambda>r. r\<lparr>ar_state := Orphaned\<rparr>) t, count_where p t))"

definition reap_on_boot :: "agent_row rows \<Rightarrow> agent_row rows \<times> nat" where
  "reap_on_boot t = (upd_where alive (\<lambda>r. r\<lparr>ar_state := Orphaned\<rparr>) t, count_where alive t)"

record reap_outcome =
  reaped_count :: nat
  remaining_orphaned :: nat

definition reap :: "int option \<Rightarrow> int \<Rightarrow> agent_row rows \<Rightarrow> agent_row rows \<times> reap_outcome" where
  "reap older_than_secs now t =
     (let secs = (case older_than_secs of None \<Rightarrow> 86400 | Some s \<Rightarrow> s);
          cutoff = sat64 (now - sat64 (secs * 1000));
          p = (\<lambda>r. ar_state r = Orphaned \<and> ar_pinged r < cutoff);
          t' = upd_where p (\<lambda>r. r\<lparr>ar_state := Dead\<rparr>) t
      in (t', \<lparr>reaped_count = count_where p t,
               remaining_orphaned = count_where (\<lambda>r. ar_state r = Orphaned) t'\<rparr>))"

section \<open>Columns of one row\<close>

definition or_else :: "'a option \<Rightarrow> 'a option \<Rightarrow> 'a option" where
  "or_else x y = (case x of None \<Rightarrow> y | Some _ \<Rightarrow> x)"

definition capture_identity ::
  "string \<Rightarrow> string option \<Rightarrow> string option \<Rightarrow> string option \<Rightarrow> agent_row rows \<Rightarrow> agent_row rows \<times> nat" where
  "capture_identity aid project branch wdir t =
     (let p = (\<lambda>r. ar_id r = aid \<and> alive r)
      in (upd_where p (\<lambda>r. r\<lparr>ar_project := or_else project (ar_project r),
                             ar_branch := or_else branch (ar_branch r),
                             ar_wdir := or_else wdir (ar_wdir r)\<rparr>) t,
          count_where p t))"

definition describe :: "string \<Rightarrow> string \<Rightarrow> string option \<Rightarrow> agent_row rows \<Rightarrow> agent_row rows \<times> nat" where
  "describe aid feature branch t =
     (let p = (\<lambda>r. ar_id r = aid)
      in (upd_where p (\<lambda>r. r\<lparr>ar_feature := Some feature, ar_branch := or_else branch (ar_branch r)\<rparr>) t,
          count_where p t))"

definition capture_process ::
  "string \<Rightarrow> string option \<Rightarrow> int option \<Rightarrow> string option \<Rightarrow> agent_row rows \<Rightarrow> agent_row rows \<times> nat" where
  "capture_process aid host pid cwd t =
     (let p = (\<lambda>r. ar_id r = aid)
      in (upd_where p (\<lambda>r. r\<lparr>ar_host := or_else host (ar_host r), ar_pid := or_else pid (ar_pid r),
                             ar_cwd := or_else cwd (ar_cwd r)\<rparr>) t,
          count_where p t))"

definition capture_claude_session :: "string \<Rightarrow> string \<Rightarrow> agent_row rows \<Rightarrow> agent_row rows" where
  "capture_claude_session aid sid = upd_where (\<lambda>r. ar_id r = aid) (\<lambda>r. r\<lparr>ar_session := Some sid\<rparr>)"

definition claude_session_of :: "string \<Rightarrow> agent_row rows \<Rightarrow> string option" where
  "claude_session_of aid t = (case row_of ar_id aid t of None \<Rightarrow> None | Some r \<Rightarrow> ar_session r)"

definition capture_terminal :: "string \<Rightarrow> string \<Rightarrow> agent_row rows \<Rightarrow> agent_row rows" where
  "capture_terminal aid terminal = upd_where (\<lambda>r. ar_id r = aid) (\<lambda>r. r\<lparr>ar_terminal := Some terminal\<rparr>)"

definition nick_of :: "string \<Rightarrow> agent_row rows \<Rightarrow> string option" where
  "nick_of aid t = map_option ar_name (row_of ar_id aid t)"

definition rename :: "string \<Rightarrow> string \<Rightarrow> agent_row rows \<Rightarrow> reg_error + agent_row rows \<times> nat" where
  "rename aid new t =
     (if \<not> valid_agent_name new then Inl BadAgentName
      else if find (\<lambda>r. ar_name r = new \<and> ar_id r \<noteq> aid \<and> alive r) t \<noteq> None then Inl (NickTaken new)
      else let p = (\<lambda>r. ar_id r = aid)
           in (case exec (upd_where p (\<lambda>r. r\<lparr>ar_name := new\<rparr>) t) of
                 Inl e \<Rightarrow> Inl e | Inr t' \<Rightarrow> Inr (t', count_where p t)))"

section \<open>Session tokens\<close>

definition set_session_token :: "string \<Rightarrow> string \<Rightarrow> agent_row rows \<Rightarrow> agent_row rows" where
  "set_session_token aid token = upd_where (\<lambda>r. ar_id r = aid) (\<lambda>r. r\<lparr>ar_token := Some token\<rparr>)"

definition resolve_session_token :: "string \<Rightarrow> string \<Rightarrow> agent_row rows \<Rightarrow> bool" where
  "resolve_session_token aid token t =
     (if token = [] then False
      else case find (\<lambda>r. ar_id r = aid \<and> alive r) t of
             None \<Rightarrow> False | Some r \<Rightarrow> ar_token r = Some token)"

section \<open>Resolution\<close>

definition by_ping :: "agent_row rows \<Rightarrow> agent_row rows" where
  "by_ping t = sort_key (\<lambda>r. - ar_pinged r) t"

definition resolve_target :: "string \<Rightarrow> agent_row rows \<Rightarrow> reg_error + string" where
  "resolve_target needle t =
     (case find (\<lambda>r. ar_id r = needle \<and> alive r) t of
        Some r \<Rightarrow> Inr (ar_id r)
      | None \<Rightarrow>
          (case by_ping (filter (\<lambda>r. ar_name r = needle \<and> alive r) t) of
             [] \<Rightarrow> Inl (NoAliveAgent needle)
           | [r] \<Rightarrow> Inr (ar_id r)
           | rs \<Rightarrow> Inl (AmbiguousAgent needle (map ar_id rs))))"

definition first_id :: "agent_row rows \<Rightarrow> string option" where
  "first_id t = (case t of [] \<Rightarrow> None | r # _ \<Rightarrow> Some (ar_id r))"

definition lookup_agent_id_by_connection :: "string \<Rightarrow> agent_row rows \<Rightarrow> string option" where
  "lookup_agent_id_by_connection conn t = first_id (by_ping (filter (\<lambda>r. ar_conn r = conn \<and> alive r) t))"

definition process_is_live :: "(int \<Rightarrow> bool) \<Rightarrow> string option \<Rightarrow> int option \<Rightarrow> string \<Rightarrow> bool" where
  "process_is_live kill0 host pid this_host =
     (case (host, pid) of
        (Some h, Some p) \<Rightarrow> (if h \<noteq> this_host then True else kill0 p)
      | _ \<Rightarrow> True)"

definition row_live :: "(int \<Rightarrow> bool) \<Rightarrow> string \<Rightarrow> agent_row \<Rightarrow> bool" where
  "row_live kill0 this_host r = process_is_live kill0 (ar_host r) (ar_pid r) this_host"

definition list_online :: "(int \<Rightarrow> bool) \<Rightarrow> string \<Rightarrow> agent_row rows \<Rightarrow> agent_row rows" where
  "list_online kill0 this_host t = filter (row_live kill0 this_host) (by_ping (filter alive t))"

definition list_alive :: "string option \<Rightarrow> agent_row rows \<Rightarrow> agent_row rows" where
  "list_alive thread t =
     take 1000 (by_ping (filter (\<lambda>r. alive r \<and> (thread = None \<or> ar_thread r = thread)) t))"

definition supersede_stale_slots ::
  "(int \<Rightarrow> bool) \<Rightarrow> string \<Rightarrow> string \<Rightarrow> string \<Rightarrow> string option \<Rightarrow> agent_row rows \<Rightarrow> agent_row rows \<times> nat" where
  "supersede_stale_slots kill0 this_host keep name cwd t =
     (case cwd of
        None \<Rightarrow> (t, 0)
      | Some d \<Rightarrow>
          let cands = filter (\<lambda>r. ar_name r = name \<and> ar_cwd r = Some d \<and> ar_id r \<noteq> keep
                                 \<and> ar_state r \<noteq> Dead) t
          in fold (\<lambda>c (u, n). if row_live kill0 this_host c then (u, n)
                    else (upd_where (\<lambda>r. ar_id r = ar_id c) (\<lambda>r. r\<lparr>ar_state := Dead\<rparr>) u,
                          n + count_where (\<lambda>r. ar_id r = ar_id c) u))
               cands (t, 0))"

section \<open>Telegram routing\<close>

definition on_route :: "int \<Rightarrow> int option \<Rightarrow> agent_row \<Rightarrow> bool" where
  "on_route chat thread r \<longleftrightarrow> ar_rchat r = Some chat \<and> coalesce (ar_rthread r) = coalesce thread"

definition resolve_routing :: "int \<Rightarrow> int option \<Rightarrow> agent_row rows \<Rightarrow> string option" where
  "resolve_routing chat thread t =
     map_option ar_id (find (\<lambda>r. on_route chat thread r \<and> alive r) t)"

definition topic_owner :: "int \<Rightarrow> int option \<Rightarrow> agent_row rows \<Rightarrow> string option" where
  "topic_owner chat topic t = first_id (by_ping (filter (\<lambda>r. on_route chat topic r \<and> alive r) t))"

definition chat_bound_to :: "int \<Rightarrow> string \<Rightarrow> agent_row rows \<Rightarrow> string option" where
  "chat_bound_to chat aid t =
     map_option ar_id (find (\<lambda>r. ar_rchat r = Some chat \<and> alive r \<and> ar_id r = aid) t)"

definition bound_telegram_threads :: "string \<Rightarrow> agent_row rows \<Rightarrow> string list" where
  "bound_telegram_threads aid t =
     map (\<lambda>r. ''telegram:'' @ dec_int (the (ar_rchat r)))
       (filter (\<lambda>r. ar_id r = aid \<and> ar_rchat r \<noteq> None) t)"

definition list_routings_for :: "int \<Rightarrow> int option \<Rightarrow> agent_row rows \<Rightarrow> agent_row rows" where
  "list_routings_for chat thread t = filter (\<lambda>r. alive r \<and> on_route chat thread r) t"

definition clear_route :: "agent_row \<Rightarrow> agent_row" where
  "clear_route r = r\<lparr>ar_rchat := None, ar_rthread := None\<rparr>"

definition set_route :: "int \<Rightarrow> int option \<Rightarrow> agent_row \<Rightarrow> agent_row" where
  "set_route chat thread r = r\<lparr>ar_rchat := Some chat, ar_rthread := thread\<rparr>"

definition bind_routing_key_in_tx ::
  "string \<Rightarrow> int \<Rightarrow> int option \<Rightarrow> agent_row rows \<Rightarrow> reg_error + agent_row rows" where
  "bind_routing_key_in_tx aid chat thread t =
     (case exec (upd_where (\<lambda>r. alive r \<and> on_route chat thread r \<and> ar_id r \<noteq> aid) clear_route t) of
        Inl e \<Rightarrow> Inl e
      | Inr t1 \<Rightarrow> exec (upd_where (\<lambda>r. ar_id r = aid \<and> alive r) (set_route chat thread) t1))"

text \<open>The transaction: on an error the registry is as it was.\<close>

definition bind_routing_key ::
  "string \<Rightarrow> int \<Rightarrow> int option \<Rightarrow> agent_row rows \<Rightarrow> agent_row rows \<times> bool" where
  "bind_routing_key aid chat thread t =
     (case bind_routing_key_in_tx aid chat thread t of Inl _ \<Rightarrow> (t, False) | Inr t' \<Rightarrow> (t', True))"

definition unbind_routing_key :: "string \<Rightarrow> agent_row rows \<Rightarrow> agent_row rows" where
  "unbind_routing_key aid = upd_where (\<lambda>r. ar_id r = aid) clear_route"

definition stamp_last_user_id :: "string \<Rightarrow> int \<Rightarrow> agent_row rows \<Rightarrow> agent_row rows" where
  "stamp_last_user_id aid user =
     upd_where (\<lambda>r. ar_id r = aid \<and> alive r) (\<lambda>r. r\<lparr>ar_last_user := Some user\<rparr>)"

definition set_dnd :: "string \<Rightarrow> int option \<Rightarrow> agent_row rows \<Rightarrow> agent_row rows \<times> nat" where
  "set_dnd aid till t =
     (let p = (\<lambda>r. ar_id r = aid \<and> alive r)
      in (upd_where p (\<lambda>r. r\<lparr>ar_dnd := till\<rparr>) t, count_where p t))"

section \<open>Chat bindings by nick\<close>

record binding =
  cb_chat :: int
  cb_thread :: int
  cb_name :: string
  cb_at :: int

definition cb_key :: "binding \<Rightarrow> int \<times> int" where
  "cb_key b = (cb_chat b, cb_thread b)"

definition bind_chat_to_name :: "int \<Rightarrow> int option \<Rightarrow> string \<Rightarrow> int \<Rightarrow> binding rows \<Rightarrow> binding rows" where
  "bind_chat_to_name chat thread name now =
     upsert cb_key \<lparr>cb_chat = chat, cb_thread = coalesce thread, cb_name = name, cb_at = now\<rparr>
       (\<lambda>b. b\<lparr>cb_name := name, cb_at := now\<rparr>)"

definition chats_bound_to_name :: "string \<Rightarrow> binding rows \<Rightarrow> (int \<times> int option) list" where
  "chats_bound_to_name name bs =
     map (\<lambda>b. (cb_chat b, if cb_thread b < 0 then None else Some (cb_thread b)))
       (filter (\<lambda>b. cb_name b = name) bs)"

definition migrate_bindings :: "string \<Rightarrow> string \<Rightarrow> binding rows \<Rightarrow> binding rows \<times> nat" where
  "migrate_bindings old new bs =
     (upd_where (\<lambda>b. cb_name b = old) (\<lambda>b. b\<lparr>cb_name := new\<rparr>) bs,
      count_where (\<lambda>b. cb_name b = old) bs)"

fun restore_each ::
  "string \<Rightarrow> (int \<times> int option) list \<Rightarrow> agent_row rows \<Rightarrow> nat \<Rightarrow> agent_row rows \<times> (reg_error + nat)" where
  "restore_each aid [] t n = (t, Inr n)"
| "restore_each aid ((chat, thread) # bs) t n =
     (case exec (upd_where (\<lambda>r. on_route chat thread r \<and> ar_id r \<noteq> aid) clear_route t) of
        Inl e \<Rightarrow> (t, Inl e)
      | Inr t1 \<Rightarrow>
          (case exec (upd_where (\<lambda>r. ar_id r = aid) (set_route chat thread) t1) of
             Inl e \<Rightarrow> (t1, Inl e)
           | Inr t2 \<Rightarrow> restore_each aid bs t2 (Suc n)))"

definition restore_bindings_for ::
  "string \<Rightarrow> string \<Rightarrow> binding rows \<Rightarrow> agent_row rows \<Rightarrow> agent_row rows \<times> (reg_error + nat)" where
  "restore_bindings_for aid name bs t = restore_each aid (chats_bound_to_name name bs) t 0"

section \<open>Constraint preservation\<close>

lemmas reg_upd =
  bury_same_slot_def mark_connection_orphaned_def reap_on_boot_def reap_def capture_identity_def
  describe_def capture_process_def capture_claude_session_def capture_terminal_def
  set_session_token_def set_dnd_def unbind_routing_key_def stamp_last_user_id_def clear_route_def

lemma constraintsD:
  assumes "constraints t"
  shows "pk ar_id t" "name_idx t" "routing_idx t" "\<And>r. r \<in> set t \<Longrightarrow> thread_ok (ar_rthread r)"
  using assms by (auto simp: constraints_def)

text \<open>
  A statement that renames nobody, revives nobody and moves nobody to another chat cannot
  break a constraint: it only takes rows out of the two partial indexes.
\<close>

lemma constraints_shrink:
  assumes "constraints t"
    and "\<And>r. ar_id (f r) = ar_id r" "\<And>r. ar_thread (f r) = ar_thread r"
    and "\<And>r. ar_name (f r) = ar_name r" "\<And>r. alive (f r) \<Longrightarrow> alive r"
    and "\<And>r. ar_rchat (f r) = ar_rchat r \<and> ar_rthread (f r) = ar_rthread r
           \<or> ar_rchat (f r) = None \<and> ar_rthread (f r) = None"
  shows "constraints (upd_where q f t)"
proof -
  have keep: "alive (f r) \<and> ar_rchat (f r) \<noteq> None \<Longrightarrow>
      (alive r \<and> ar_rchat r \<noteq> None) \<and> route_key (f r) = route_key r" for r
    using assms(5,6) [of r] by (auto simp: route_key_def)
  have "thread_ok (ar_rthread (f r))" if "r \<in> set t" for r
    using constraintsD(4) [OF assms(1) that] assms(6) [of r] by (auto simp: thread_ok_def)
  moreover have "name_idx (upd_where q f t)"
    using constraintsD(2) [OF assms(1)] unfolding name_idx_def
    by (rule uniq_where_shrink) (simp add: assms(3,4,5))
  moreover have "routing_idx (upd_where q f t)"
    using constraintsD(3) [OF assms(1)] unfolding routing_idx_def
    by (rule uniq_where_shrink) (rule keep)
  ultimately show ?thesis
    using constraintsD(1,4) [OF assms(1)] assms(2) by (auto simp: constraints_def pk_upd_where tbl)
qed

lemma exec_Inr [simp]: "exec t = Inr t' \<longleftrightarrow> constraints t \<and> t' = t"
  by (auto simp: exec_def)

lemma exec_ok [simp]: "constraints t \<Longrightarrow> exec t = Inr t"
  by (simp add: exec_def)

lemma constraints_dead: "constraints t \<Longrightarrow> constraints (upd_where q (\<lambda>r. r\<lparr>ar_state := Dead\<rparr>) t)"
  by (rule constraints_shrink) (auto simp: alive_def)

lemma constraints_orphan:
  "constraints t \<Longrightarrow> constraints (upd_where q (\<lambda>r. r\<lparr>ar_state := Orphaned\<rparr>) t)"
  by (rule constraints_shrink) (auto simp: alive_def)

lemma constraints_clear: "constraints t \<Longrightarrow> constraints (upd_where q clear_route t)"
  by (rule constraints_shrink) (auto simp: alive_def clear_route_def)

lemma constraints_unregister: "constraints t \<Longrightarrow> constraints (fst (unregister aid t))"
  by (auto simp: unregister_def constraints_dead split: option.splits)

lemma constraints_columns:
  assumes "constraints t"
  shows "constraints (fst (capture_identity aid project branch wdir t))"
    "constraints (fst (describe aid feature branch t))"
    "constraints (fst (capture_process aid host pid cwd t))"
    "constraints (capture_claude_session aid sid t)"
    "constraints (capture_terminal aid trm t)"
    "constraints (set_session_token aid token t)"
    "constraints (unbind_routing_key aid t)"
    "constraints (fst (set_dnd aid till t))"
    "constraints (stamp_last_user_id aid user t)"
  using assms by (auto simp: reg_upd Let_def alive_def intro!: constraints_shrink)

text \<open>The sweep buries row by row; with unique ids that is one statement.\<close>

definition stale_slot ::
  "(int \<Rightarrow> bool) \<Rightarrow> string \<Rightarrow> string \<Rightarrow> string \<Rightarrow> string \<Rightarrow> agent_row \<Rightarrow> bool" where
  "stale_slot kill0 this_host keep name d r \<longleftrightarrow> ar_name r = name \<and> ar_cwd r = Some d
     \<and> ar_id r \<noteq> keep \<and> ar_state r \<noteq> Dead \<and> \<not> row_live kill0 this_host r"

lemma supersede_fold:
  "fst (fold (\<lambda>c (u, n). if live c then (u, n)
      else (upd_where (\<lambda>r. ar_id r = ar_id c) (\<lambda>r. r\<lparr>ar_state := Dead\<rparr>) u,
            n + count_where (\<lambda>r. ar_id r = ar_id c) u)) cs (u, n)) =
   upd_where (\<lambda>r. \<exists>c \<in> set cs. \<not> live c \<and> ar_id r = ar_id c) (\<lambda>r. r\<lparr>ar_state := Dead\<rparr>) u"
proof (induction cs arbitrary: u n)
  case (Cons c cs)
  then show ?case
    by (cases "live c") (simp_all add: upd_where_twice)
qed (simp add: upd_where_def)

lemma supersede_eq:
  assumes "pk ar_id t"
  shows "fst (supersede_stale_slots kill0 this_host keep name cwd t) =
    (case cwd of None \<Rightarrow> t
     | Some d \<Rightarrow> upd_where (stale_slot kill0 this_host keep name d) (\<lambda>r. r\<lparr>ar_state := Dead\<rparr>) t)"
proof (cases cwd)
  case (Some d)
  have "(\<exists>c \<in> set t. (ar_name c = name \<and> ar_cwd c = Some d \<and> ar_id c \<noteq> keep \<and> ar_state c \<noteq> Dead)
      \<and> \<not> row_live kill0 this_host c \<and> ar_id r = ar_id c) \<longleftrightarrow> stale_slot kill0 this_host keep name d r"
    if "r \<in> set t" for r
    using that pk_eq [OF assms that] unfolding stale_slot_def by metis
  then show ?thesis using Some
    by (simp add: supersede_stale_slots_def supersede_fold upd_where_def Bex_def conj_assoc)
qed (simp add: supersede_stale_slots_def)

lemma constraints_supersede:
  "constraints t \<Longrightarrow> constraints (fst (supersede_stale_slots kill0 this_host keep name cwd t))"
  by (auto simp: supersede_eq constraintsD constraints_dead split: option.split)

lemma constraints_register:
  "register aid name conn thread metadata now t = Inr (t', out) \<Longrightarrow> constraints t'"
  by (auto simp: register_def Let_def split: if_splits sum.splits)

lemma constraints_rename: "rename aid new t = Inr (t', n) \<Longrightarrow> constraints t'"
  by (auto simp: rename_def Let_def split: if_splits sum.splits)

lemma constraints_bind: "constraints t \<Longrightarrow> constraints (fst (bind_routing_key aid chat thread t))"
  by (auto simp: bind_routing_key_def bind_routing_key_in_tx_def split: sum.splits)

lemma constraints_restore_each:
  "constraints t \<Longrightarrow> constraints (fst (restore_each aid bs t n))"
  by (induction aid bs t n rule: restore_each.induct)
    (auto split: sum.splits)

section \<open>Routing\<close>

definition agent_alive :: "string \<Rightarrow> agent_row rows \<Rightarrow> bool" where
  "agent_alive aid t \<longleftrightarrow> list_ex (\<lambda>r. ar_id r = aid \<and> alive r) t"

lemma agent_alive_upd:
  assumes "\<And>r. ar_id (f r) = ar_id r" "\<And>r. alive (f r) = alive r"
  shows "agent_alive a (upd_where q f t) = agent_alive a t"
  using assms by (induction t) (simp_all add: agent_alive_def)

lemma alive_simps [simp]:
  "alive (clear_route r) = alive r" "alive (set_route c th r) = alive r"
  "ar_id (clear_route r) = ar_id r" "ar_id (set_route c th r) = ar_id r"
  "\<not> on_route c th (clear_route r)"
  "on_route c' th' (set_route c th r) \<longleftrightarrow> c' = c \<and> coalesce th' = coalesce th"
  by (auto simp: alive_def clear_route_def set_route_def on_route_def)

lemma on_route_key: "on_route c th r \<longleftrightarrow> route_key r = (Some c, coalesce th)"
  by (auto simp: on_route_def route_key_def)

lemma routing_unique:
  assumes "constraints t" "r \<in> set t" "s \<in> set t" "alive r" "alive s"
    and "on_route c th r" "on_route c th s"
  shows "r = s"
proof -
  have "ar_rchat r \<noteq> None" "ar_rchat s \<noteq> None" "route_key r = route_key s"
    using assms(6,7) by (simp_all add: on_route_def route_key_def)
  then show ?thesis
    using uniq_whereD [OF constraintsD(3) [OF assms(1), unfolded routing_idx_def] assms(2,3)]
      assms(4,5) by simp
qed

lemma resolve_routing_Some:
  assumes "constraints t"
  shows "resolve_routing c th t = Some a \<longleftrightarrow>
    (\<exists>r \<in> set t. ar_id r = a \<and> alive r \<and> on_route c th r)"
proof
  assume "resolve_routing c th t = Some a"
  then show "\<exists>r \<in> set t. ar_id r = a \<and> alive r \<and> on_route c th r"
    by (auto simp: resolve_routing_def find_Some_iff)
next
  assume "\<exists>r \<in> set t. ar_id r = a \<and> alive r \<and> on_route c th r"
  then obtain r where r: "r \<in> set t" "ar_id r = a" "alive r" "on_route c th r" by blast
  then obtain s where s: "find (\<lambda>r. on_route c th r \<and> alive r) t = Some s"
    by (cases "find (\<lambda>r. on_route c th r \<and> alive r) t") (auto simp: find_None_iff)
  then have "s \<in> set t" "alive s" "on_route c th s" by (auto simp: find_Some_iff)
  then have "s = r" using routing_unique [OF assms _ r(1)] r by simp
  with r s show "resolve_routing c th t = Some a"
    by (simp add: resolve_routing_def)
qed

lemma resolve_routing_None:
  "resolve_routing c th t = None \<longleftrightarrow> (\<forall>r \<in> set t. \<not> (alive r \<and> on_route c th r))"
  by (auto simp: resolve_routing_def find_None_iff)

text \<open>Both writers of a route: take it from whoever else holds it, then set it on one row.\<close>

definition take_route ::
  "(agent_row \<Rightarrow> bool) \<Rightarrow> (agent_row \<Rightarrow> bool) \<Rightarrow> string \<Rightarrow> int \<Rightarrow> int option \<Rightarrow> agent_row rows \<Rightarrow> agent_row rows" where
  "take_route p q aid chat thread t =
     upd_where (\<lambda>r. ar_id r = aid \<and> q r) (set_route chat thread) (upd_where p clear_route t)"

definition takes :: "(agent_row \<Rightarrow> bool) \<Rightarrow> string \<Rightarrow> int \<Rightarrow> int option \<Rightarrow> bool" where
  "takes p aid chat thread \<longleftrightarrow> (\<forall>r. p r \<longrightarrow> on_route chat thread r \<and> ar_id r \<noteq> aid)
     \<and> (\<forall>r. alive r \<and> on_route chat thread r \<and> ar_id r \<noteq> aid \<longrightarrow> p r)"

lemma takesD:
  assumes "takes p aid chat thread"
  shows "p r \<Longrightarrow> on_route chat thread r" "p r \<Longrightarrow> ar_id r \<noteq> aid"
    "alive r \<Longrightarrow> on_route chat thread r \<Longrightarrow> ar_id r \<noteq> aid \<Longrightarrow> p r"
  using assms unfolding takes_def by blast+

lemma constraints_take_route:
  assumes "constraints t" "thread_ok thread" "takes p aid chat thread"
  shows "constraints (take_route p q aid chat thread t)"
proof -
  let ?t = "upd_where p clear_route t"
  have t: "constraints ?t" using assms(1) by (rule constraints_clear)
  have off: "\<not> on_route chat thread s" if "s \<in> set ?t" "alive s" "ar_id s \<noteq> aid" for s
  proof -
    from that(1) obtain r where r: "s = (if p r then clear_route r else r)"
      unfolding upd_where_def set_map by blast
    with that show ?thesis using takesD(3) [OF assms(3), of r] by (cases "p r") auto
  qed
  have key: "route_key (set_route chat thread r) = (Some chat, coalesce thread)" for r
    by (simp add: route_key_def set_route_def)
  have "routing_idx (upd_where (\<lambda>r. ar_id r = aid \<and> q r) (set_route chat thread) ?t)"
    using constraintsD(1,3) [OF t] unfolding routing_idx_def
  proof (rule uniq_where_set_one)
    show "\<forall>s \<in> set ?t. alive s \<and> ar_rchat s \<noteq> None \<longrightarrow> ar_id s \<noteq> aid \<longrightarrow>
        route_key s \<noteq> route_key (set_route chat thread r)" for r
      using off by (simp add: key on_route_key)
  qed simp
  moreover have "name_idx (upd_where (\<lambda>r. ar_id r = aid \<and> q r) (set_route chat thread) ?t)"
    using constraintsD(2) [OF t] unfolding name_idx_def
    by (rule uniq_where_shrink) (auto simp: set_route_def alive_def)
  ultimately show ?thesis
    using constraintsD(1,4) [OF t] assms(2) unfolding take_route_def
    by (auto simp: constraints_def pk_upd_where set_upd_where set_route_def)
qed

lemma take_route_map:
  assumes "takes p aid chat thread"
  shows "take_route p q aid chat thread t =
    map (\<lambda>r. if ar_id r = aid \<and> q r then set_route chat thread r
             else if p r then clear_route r else r) t"
proof -
  have "\<not> p r" if "ar_id r = aid" for r using takesD(2) [OF assms] that by blast
  then show ?thesis by (auto simp: take_route_def upd_where_def)
qed

text \<open>Who is alive on which route after the route was taken.\<close>

lemma holder_take_route:
  assumes "takes p aid chat thread"
  shows "(\<exists>r \<in> set (take_route p q aid chat thread t). ar_id r = a \<and> alive r \<and> on_route c th r) \<longleftrightarrow>
    (\<exists>r \<in> set t. ar_id r = a \<and> alive r \<and>
       (if a = aid \<and> q r then c = chat \<and> coalesce th = coalesce thread
        else on_route c th r \<and> \<not> p r))"
proof -
  have *: "ar_id r' = a \<and> alive r' \<and> on_route c th r' \<longleftrightarrow> ar_id r = a \<and> alive r \<and>
      (if a = aid \<and> q r then c = chat \<and> coalesce th = coalesce thread else on_route c th r \<and> \<not> p r)"
    if "r' = (if ar_id r = aid \<and> q r then set_route chat thread r else if p r then clear_route r else r)"
    for r r' using that by simp
  show ?thesis unfolding take_route_map [OF assms] set_map bex_simps
    by (intro bex_cong refl *)
qed

lemma resolve_take_route:
  assumes "constraints t" "thread_ok thread" "takes p aid chat thread"
    and "\<And>r. r \<in> set t \<Longrightarrow> ar_id r = aid \<Longrightarrow> alive r \<Longrightarrow> q r"
  shows "resolve_routing c th (take_route p q aid chat thread t) =
    (if c = chat \<and> coalesce th = coalesce thread
     then (if agent_alive aid t then Some aid else None)
     else if resolve_routing c th t = Some aid then None else resolve_routing c th t)"
    (is "resolve_routing c th ?t = ?R")
proof -
  have c': "constraints ?t" using assms(1-3) by (rule constraints_take_route)
  note R = resolve_routing_Some [OF assms(1)] and R' = resolve_routing_Some [OF c']
  note H = holder_take_route [OF assms(3), of q t]
  show ?thesis
  proof (cases "c = chat \<and> coalesce th = coalesce thread")
    case True
    then have on: "on_route c th r = on_route chat thread r" for r by (simp add: on_route_def)
    have no: "on_route chat thread r \<longrightarrow> p r" if "alive r" "ar_id r \<noteq> aid" for r
      using takesD(3) [OF assms(3)] that by blast
    have "resolve_routing c th ?t = Some a \<longleftrightarrow> a = aid \<and> agent_alive aid t" for a
    proof (cases "a = aid")
      case True
      with assms(4) \<open>c = chat \<and> _\<close> show ?thesis
        unfolding R' H agent_alive_def list_ex_iff by (auto intro!: bex_cong)
    next
      case False
      with no show ?thesis unfolding R' H on by (auto split: if_splits)
    qed
    with True show ?thesis by (cases "resolve_routing c th ?t") auto
  next
    case False
    then have off: "\<not> p r" if "on_route c th r" for r
      using takesD(1) [OF assms(3)] False that unfolding on_route_def by fastforce
    have "resolve_routing c th ?t = Some a \<longleftrightarrow> a \<noteq> aid \<and> resolve_routing c th t = Some a" for a
    proof (cases "a = aid")
      case True
      with assms(4) False show ?thesis unfolding R' H by auto
    next
      case False
      with off show ?thesis unfolding R' H R by auto
    qed
    from this [of "the (resolve_routing c th t)"] this [of "the (resolve_routing c th ?t)"]
    show ?thesis using False
      by (cases "resolve_routing c th ?t"; cases "resolve_routing c th t") auto
  qed
qed

lemma bind_routing_key_eq:
  assumes "constraints t" "thread_ok thread"
  shows "bind_routing_key aid chat thread t =
    (take_route (\<lambda>r. alive r \<and> on_route chat thread r \<and> ar_id r \<noteq> aid) alive aid chat thread t, True)"
proof -
  have "takes (\<lambda>r. alive r \<and> on_route chat thread r \<and> ar_id r \<noteq> aid) aid chat thread"
    by (auto simp: takes_def)
  from constraints_take_route [OF assms this, of alive] show ?thesis
    using constraints_clear [OF assms(1)]
    by (simp add: bind_routing_key_def bind_routing_key_in_tx_def take_route_def exec_ok)
qed

section \<open>The registry as a state machine\<close>

text \<open>
  One constructor per call that writes the registry or the bindings, with the values the
  caller passes and, for the calls that ask the operating system whether a process lives,
  its answers. A call that fails leaves the tables alone, except \<open>RestoreBindings\<close>, which
  runs outside a transaction and keeps what it had done.
\<close>

type_synonym reg_db = "agent_row rows \<times> binding rows"

datatype reg_op =
    Register string string string "string option" "string option" int
  | Unregister string
  | ConnectionEof string
  | Boot
  | Reap "int option" int
  | CaptureIdentity string "string option" "string option" "string option"
  | Describe string string "string option"
  | CaptureProcess string "string option" "int option" "string option"
  | CaptureSession string string
  | CaptureTerminal string string
  | Rename string string
  | SetToken string string
  | SetDnd string "int option"
  | Supersede "int \<Rightarrow> bool" string string string "string option"
  | BindRoute string int "int option"
  | UnbindRoute string
  | StampUser string int
  | BindName int "int option" string int
  | MigrateBindings string string
  | RestoreBindings string string

fun reg_run :: "reg_op \<Rightarrow> reg_db \<Rightarrow> reg_db" where
  "reg_run (Register aid name conn thread metadata now) (t, b) =
     (case register aid name conn thread metadata now t of Inl _ \<Rightarrow> (t, b) | Inr (t', _) \<Rightarrow> (t', b))"
| "reg_run (Unregister aid) (t, b) = (fst (unregister aid t), b)"
| "reg_run (ConnectionEof conn) (t, b) = (fst (mark_connection_orphaned conn t), b)"
| "reg_run Boot (t, b) = (fst (reap_on_boot t), b)"
| "reg_run (Reap older now) (t, b) = (fst (reap older now t), b)"
| "reg_run (CaptureIdentity aid project branch wdir) (t, b) =
     (fst (capture_identity aid project branch wdir t), b)"
| "reg_run (Describe aid feature branch) (t, b) = (fst (describe aid feature branch t), b)"
| "reg_run (CaptureProcess aid host pid cwd) (t, b) = (fst (capture_process aid host pid cwd t), b)"
| "reg_run (CaptureSession aid sid) (t, b) = (capture_claude_session aid sid t, b)"
| "reg_run (CaptureTerminal aid trm) (t, b) = (capture_terminal aid trm t, b)"
| "reg_run (Rename aid new) (t, b) =
     (case rename aid new t of Inl _ \<Rightarrow> (t, b) | Inr (t', _) \<Rightarrow> (t', b))"
| "reg_run (SetToken aid token) (t, b) = (set_session_token aid token t, b)"
| "reg_run (SetDnd aid till) (t, b) = (fst (set_dnd aid till t), b)"
| "reg_run (Supersede kill0 this_host keep name cwd) (t, b) =
     (fst (supersede_stale_slots kill0 this_host keep name cwd t), b)"
| "reg_run (BindRoute aid chat thread) (t, b) = (fst (bind_routing_key aid chat thread t), b)"
| "reg_run (UnbindRoute aid) (t, b) = (unbind_routing_key aid t, b)"
| "reg_run (StampUser aid user) (t, b) = (stamp_last_user_id aid user t, b)"
| "reg_run (BindName chat thread name now) (t, b) = (t, bind_chat_to_name chat thread name now b)"
| "reg_run (MigrateBindings old new) (t, b) = (t, fst (migrate_bindings old new b))"
| "reg_run (RestoreBindings aid name) (t, b) = (fst (restore_bindings_for aid name b t), b)"

inductive reg_step :: "reg_db \<Rightarrow> reg_db \<Rightarrow> bool" where
  reg_stepI: "reg_step s (reg_run op s)"

inductive_cases reg_stepE: "reg_step s s'"

definition reg_inv :: "reg_db \<Rightarrow> bool" where
  "reg_inv s \<longleftrightarrow> constraints (fst s) \<and> pk cb_key (snd s)"

lemma pk_bindings:
  assumes "pk cb_key b"
  shows "pk cb_key (bind_chat_to_name chat thread name now b)"
    "pk cb_key (fst (migrate_bindings old new b))"
  using assms by (auto simp: bind_chat_to_name_def migrate_bindings_def cb_key_def
      intro!: pk_upsert pk_upd_where [THEN iffD2])

lemma constraints_lifecycle:
  assumes "constraints t"
  shows "constraints (fst (mark_connection_orphaned conn t))" "constraints (fst (reap_on_boot t))"
    "constraints (fst (reap older now t))"
  using assms by (simp_all add: mark_connection_orphaned_def reap_on_boot_def reap_def Let_def
      constraints_orphan constraints_dead)

lemma reg_run_inv:
  assumes "reg_inv s"
  shows "reg_inv (reg_run op s)"
  using assms
  by (cases s; cases op)
    (auto simp: reg_inv_def constraints_unregister constraints_lifecycle constraints_columns
      constraints_supersede constraints_bind constraints_restore_each restore_bindings_for_def
      pk_bindings dest: constraints_register constraints_rename split: sum.splits)

interpretation reg: transition_system "\<lambda>s. s = ([], [])" reg_step reg_inv
proof
  fix s :: reg_db
  assume "s = ([], [])"
  then show "reg_inv s"
    by (simp add: reg_inv_def constraints_def pk_def name_idx_def routing_idx_def uniq_where_def)
next
  fix s t
  assume "reg_step s t" and "reg_inv s"
  then show "reg_inv t" by (auto elim!: reg_stepE intro: reg_run_inv)
qed

section \<open>What one call may do to a row\<close>

text \<open>
  \<open>tracks P t t'\<close>: no row of \<open>t\<close> is lost, and each is related by \<open>P\<close> to a row of \<open>t'\<close>.
\<close>

definition tracks :: "('r \<Rightarrow> 'r \<Rightarrow> bool) \<Rightarrow> 'r rows \<Rightarrow> 'r rows \<Rightarrow> bool" where
  "tracks P t t' \<longleftrightarrow> (\<forall>r \<in> set t. \<exists>r' \<in> set t'. P r r')"

lemma tracks_refl: "(\<And>r. P r r) \<Longrightarrow> tracks P t t"
  by (auto simp: tracks_def)

lemma tracks_trans: "tracks P t u \<Longrightarrow> tracks P u v \<Longrightarrow> (\<And>a b c. P a b \<Longrightarrow> P b c \<Longrightarrow> P a c) \<Longrightarrow> tracks P t v"
  unfolding tracks_def by meson

lemma tracks_upd: "(\<And>r. q r \<Longrightarrow> P r (f r)) \<Longrightarrow> (\<And>r. P r r) \<Longrightarrow> tracks P t (upd_where q f t)"
  by (induction t) (auto simp: tracks_def)

lemma tracks_upsert:
  "(\<And>r. key r = key n \<Longrightarrow> P r (f r)) \<Longrightarrow> (\<And>r. P r r) \<Longrightarrow> tracks P t (upsert key n f t)"
  by (auto simp: upsert_def tracks_upd) (auto simp: tracks_def)

text \<open>
  The documented life cycle: EOF and reboot orphan an alive row, anything may die, only a
  registration under the row's own id makes it alive; and only a rename changes its nick.
\<close>

definition allowed :: "reg_op \<Rightarrow> agent_row \<Rightarrow> agent_row \<Rightarrow> bool" where
  "allowed op r r' \<longleftrightarrow> ar_id r' = ar_id r \<and> ar_spawned r' = ar_spawned r
     \<and> (ar_name r' = ar_name r \<or> (case op of Rename aid new \<Rightarrow> aid = ar_id r \<and> ar_name r' = new | _ \<Rightarrow> False))
     \<and> (ar_state r' = ar_state r
        \<or> (case op of
             Register aid _ _ _ _ _ \<Rightarrow>
               (if aid = ar_id r then ar_state r' = Alive else ar_state r = Alive \<and> ar_state r' = Dead)
           | Unregister aid \<Rightarrow> aid = ar_id r \<and> ar_state r' = Dead
           | ConnectionEof conn \<Rightarrow> ar_conn r = conn \<and> ar_state r = Alive \<and> ar_state r' = Orphaned
           | Boot \<Rightarrow> ar_state r = Alive \<and> ar_state r' = Orphaned
           | Reap _ _ \<Rightarrow> ar_state r = Orphaned \<and> ar_state r' = Dead
           | Supersede kill0 this_host keep name cwd \<Rightarrow>
               ar_id r \<noteq> keep \<and> ar_name r = name \<and> ar_cwd r = cwd \<and> \<not> row_live kill0 this_host r
               \<and> ar_state r' = Dead
           | _ \<Rightarrow> False))"

lemma allowed_refl: "allowed op r r"
  by (simp add: allowed_def)

lemma allowed_same:
  "ar_id r' = ar_id r \<Longrightarrow> ar_spawned r' = ar_spawned r \<Longrightarrow> ar_name r' = ar_name r \<Longrightarrow>
    ar_state r' = ar_state r \<Longrightarrow> allowed op r r'"
  by (simp add: allowed_def)

lemma allowed_trans:
  "allowed op a b \<Longrightarrow> allowed op b c \<Longrightarrow>
    (case op of ConnectionEof _ \<Rightarrow> False | Supersede _ _ _ _ _ \<Rightarrow> False | _ \<Rightarrow> True) \<Longrightarrow> allowed op a c"
  by (cases op) (auto simp: allowed_def split: if_splits)

lemma tracks_allowed_trans:
  "tracks (allowed op) t u \<Longrightarrow> tracks (allowed op) u v \<Longrightarrow>
    (case op of ConnectionEof _ \<Rightarrow> False | Supersede _ _ _ _ _ \<Rightarrow> False | _ \<Rightarrow> True) \<Longrightarrow>
    tracks (allowed op) t v"
  by (rule tracks_trans) (auto intro: allowed_trans)

lemma allowed_route:
  "tracks (allowed op) u (upd_where q clear_route u)"
  "tracks (allowed op) u (upd_where q (set_route chat thread) u)"
  by (auto intro!: tracks_upd allowed_same simp: allowed_refl clear_route_def set_route_def)

lemma allowed_restore_each:
  "tracks (allowed (RestoreBindings aid name)) t (fst (restore_each aid bs t n))"
proof (induction aid bs t n rule: restore_each.induct)
  case (2 aid chat thread bs t n)
  have step: "tracks (allowed (RestoreBindings aid name)) t (upd_where q' (set_route chat thread)
      (upd_where q clear_route t))" for q q'
    by (rule tracks_allowed_trans [OF allowed_route(1) allowed_route(2)]) simp
  from 2 show ?case
    by (auto simp: allowed_route(1) tracks_refl allowed_refl split: sum.split
        intro: tracks_allowed_trans [OF step])
qed (simp add: tracks_refl allowed_refl)

lemma allowed_bind:
  "tracks (allowed (BindRoute aid chat thread)) t (fst (bind_routing_key aid chat thread t))"
  by (auto simp: bind_routing_key_def bind_routing_key_in_tx_def tracks_refl allowed_refl
      split: sum.split intro: tracks_allowed_trans [OF allowed_route(1) allowed_route(2)])

lemma allowed_register:
  assumes "register aid name conn thread metadata now t = Inr (t', out)"
  shows "tracks (allowed (Register aid name conn thread metadata now)) t t'"
proof -
  let ?op = "Register aid name conn thread metadata now" and ?b = "bury_same_slot conn aid thread t"
  have "t' = upsert ar_id (fresh_row aid name conn thread metadata now)
      (\<lambda>r. r\<lparr>ar_conn := conn, ar_thread := thread, ar_pinged := now, ar_state := Alive,
             ar_metadata := metadata\<rparr>) ?b"
    using assms by (auto simp: register_def Let_def split: if_splits sum.splits)
  moreover have "tracks (allowed ?op) t ?b" unfolding bury_same_slot_def
    by (rule tracks_upd) (auto simp: allowed_def alive_def)
  moreover have "tracks (allowed ?op) ?b (upsert ar_id (fresh_row aid name conn thread metadata now)
      (\<lambda>r. r\<lparr>ar_conn := conn, ar_thread := thread, ar_pinged := now, ar_state := Alive,
             ar_metadata := metadata\<rparr>) ?b)"
    by (rule tracks_upsert) (auto simp: allowed_def fresh_row_def)
  ultimately show ?thesis by (auto intro: tracks_allowed_trans)
qed

lemma allowed_run:
  assumes "pk ar_id (fst s)"
  shows "tracks (allowed op) (fst s) (fst (reg_run op s))"
proof -
  obtain t b where s: "s = (t, b)" by (cases s)
  show ?thesis
  proof (cases op)
    case (Register aid name conn thread metadata now)
    then show ?thesis using s
      by (auto simp: tracks_refl allowed_refl intro: allowed_register split: sum.split)
  next
    case (Supersede kill0 this_host keep name cwd)
    then show ?thesis using s assms
      by (auto simp: supersede_eq tracks_refl allowed_refl split: option.split intro!: tracks_upd)
        (auto simp: allowed_def stale_slot_def)
  next
    case (Rename aid new)
    then show ?thesis using s
      by (auto simp: rename_def Let_def tracks_refl allowed_refl split: sum.split intro!: tracks_upd)
        (auto simp: allowed_def)
  next
    case (Unregister aid)
    then show ?thesis using s
      by (auto simp: unregister_def tracks_refl allowed_refl split: option.split intro!: tracks_upd)
        (auto simp: allowed_def)
  qed (auto simp: s reg_upd Let_def tracks_refl allowed_refl restore_bindings_for_def
      allowed_restore_each allowed_bind intro!: tracks_upd, auto simp: allowed_def alive_def)
qed

section \<open>Names and addresses\<close>

lemma by_ping_set [simp]: "set (by_ping t) = set t" "length (by_ping t) = length t"
  by (simp_all add: by_ping_def)

lemma by_ping_single: "by_ping t = [r] \<longleftrightarrow> t = [r]"
proof
  assume a: "by_ping t = [r]"
  then have "length t = 1" by (metis by_ping_set(2) One_nat_def length_Cons list.size(3))
  then obtain x where "t = [x]" by (auto simp: length_Suc_conv)
  with a show "t = [r]" by (simp add: by_ping_def)
qed (simp add: by_ping_def)

lemma filter_single_pk:
  assumes "pk key t"
  shows "filter p t = [r] \<longleftrightarrow> r \<in> set t \<and> p r \<and> (\<forall>s \<in> set t. p s \<longrightarrow> key s = key r)"
proof -
  have d: "distinct (filter p t)" using assms by (auto simp: pk_def distinct_map)
  have "xs = [r] \<longleftrightarrow> set xs = {r}" if "distinct xs" for xs
    using that by (cases xs; cases "tl xs") auto
  with d have "filter p t = [r] \<longleftrightarrow> set (filter p t) = {r}" by blast
  also have "\<dots> \<longleftrightarrow> r \<in> set t \<and> p r \<and> (\<forall>s \<in> set t. p s \<longrightarrow> key s = key r)"
  proof
    assume "r \<in> set t \<and> p r \<and> (\<forall>s \<in> set t. p s \<longrightarrow> key s = key r)"
    then have "x = r" if "x \<in> set t" "p x" for x using pk_eq [OF assms, of x r] that by blast
    with \<open>r \<in> set t \<and> _\<close> show "set (filter p t) = {r}" by auto
  next
    assume e: "set (filter p t) = {r}"
    have m: "x \<in> set t \<and> p x \<longleftrightarrow> x = r" for x using e by (simp add: set_eq_iff)
    from m show "r \<in> set t \<and> p r \<and> (\<forall>s \<in> set t. p s \<longrightarrow> key s = key r)" by metis
  qed
  finally show ?thesis .
qed

lemma resolve_by_id:
  "constraints t \<Longrightarrow> agent_alive needle t \<Longrightarrow> resolve_target needle t = Inr needle"
  by (auto simp: resolve_target_def agent_alive_def list_ex_iff find_None_iff find_Some_iff
      split: option.split)

lemma resolve_by_name:
  assumes "constraints t" "\<not> agent_alive needle t"
  shows "resolve_target needle t = Inr a \<longleftrightarrow>
    (\<exists>r \<in> set t. ar_id r = a \<and> ar_name r = needle \<and> alive r
       \<and> (\<forall>s \<in> set t. ar_name s = needle \<and> alive s \<longrightarrow> ar_id s = a))"
proof -
  let ?m = "filter (\<lambda>r. ar_name r = needle \<and> alive r) t"
  have "find (\<lambda>r. ar_id r = needle \<and> alive r) t = None"
    using assms(2) by (auto simp: agent_alive_def list_ex_iff find_None_iff)
  then have "resolve_target needle t = Inr a \<longleftrightarrow> (\<exists>r. by_ping ?m = [r] \<and> ar_id r = a)"
    by (auto simp: resolve_target_def split: list.split)
  then show ?thesis
    unfolding by_ping_single filter_single_pk [OF constraintsD(1) [OF assms(1)]] by blast
qed

section \<open>Properties\<close>

definition two_agents :: reg_db where
  "two_agents = fold reg_run
     [Register ''a'' ''x'' ''c1'' None None 1, Register ''b'' ''y'' ''c2'' None None 2] ([], [])"

lemma fold_reach: "reg_step\<^sup>*\<^sup>* s (fold reg_run ops s)"
proof (induction ops arbitrary: s)
  case (Cons op ops)
  show ?case using converse_rtranclp_into_rtranclp [OF reg_stepI Cons.IH] by simp
qed simp

lemma two_agents_reach: "reg_step\<^sup>*\<^sup>* ([], []) two_agents"
  unfolding two_agents_def by (rule fold_reach)

lemma reach_constraints: "reg_step\<^sup>*\<^sup>* ([], []) s \<Longrightarrow> constraints (fst s)"
  using reg.reachable_inv by (auto simp: reg_inv_def)



text \<open>
  binding a Telegram chat to a session never fails, and the second tap wins: afterwards
  the chat and topic resolve to that session if it is alive (to nobody otherwise), the
  session has left any other chat it held, and every other chat resolves as before.
\<close>

theorem bind_second_tap_wins:
  assumes "reg_step\<^sup>*\<^sup>* ([], []) (t, b)" and "thread_ok thread"
  shows "\<exists>t'. bind_routing_key aid chat thread t = (t', True) \<and>
    (\<forall>c th. resolve_routing c th t' =
      (if c = chat \<and> coalesce th = coalesce thread then (if agent_alive aid t then Some aid else None)
       else if resolve_routing c th t = Some aid then None else resolve_routing c th t))"
proof -
  have c: "constraints t" using reach_constraints [OF assms(1)] by simp
  have "takes (\<lambda>r. alive r \<and> on_route chat thread r \<and> ar_id r \<noteq> aid) aid chat thread"
    by (auto simp: takes_def)
  from resolve_take_route [OF c assms(2) this, where q = alive] bind_routing_key_eq [OF c assms(2)]
  show ?thesis by blast
qed

theorem bind_second_tap_wins_witness:
  "\<exists>t'. bind_routing_key ''b'' 7 None (fst (reg_run (BindRoute ''a'' 7 None) two_agents)) = (t', True)
     \<and> resolve_routing 7 None t' = Some ''b''"
proof -
  let ?s = "reg_run (BindRoute ''a'' 7 None) two_agents"
  have r: "reg_step\<^sup>*\<^sup>* ([], []) (fst ?s, snd ?s)"
    using rtranclp.rtrancl_into_rtrancl [OF two_agents_reach reg_stepI] by simp
  have "agent_alive ''b'' (fst ?s)" by code_simp
  with bind_second_tap_wins [OF r, of None "''b''" 7] show ?thesis by (auto simp: thread_ok_def)
qed

text \<open>
  the life cycle. No call ever drops a row; a row keeps its id and spawn time; its nick
  changes only by a rename of that row; it is orphaned only by its connection's EOF or a
  reboot, dies only by an unregistration, a reap, a stale-slot sweep that found its process
  gone or a registration that takes its slot, and comes back to life only when a session
  registers under its own id.
\<close>

theorem registry_life_cycle:
  assumes "reg_step\<^sup>*\<^sup>* ([], []) (t, b)" and "r \<in> set t"
  shows "\<exists>r' \<in> set (fst (reg_run op (t, b))). allowed op r r'
    \<and> (ar_state r' = Alive \<longrightarrow> ar_state r = Alive \<or> (\<exists>name conn thread metadata now.
          op = Register (ar_id r) name conn thread metadata now))
    \<and> (ar_name r' \<noteq> ar_name r \<longrightarrow> (\<exists>new. op = Rename (ar_id r) new))"
proof -
  have "pk ar_id t" using constraintsD(1) [OF reach_constraints [OF assms(1)]] by simp
  then obtain r' where r': "r' \<in> set (fst (reg_run op (t, b)))" "allowed op r r'"
    using allowed_run [of "(t, b)" op] assms(2) by (auto simp: tracks_def)
  have "ar_state r' = Alive \<longrightarrow> ar_state r = Alive \<or> (\<exists>name conn thread metadata now.
      op = Register (ar_id r) name conn thread metadata now)"
    using r'(2) by (cases op) (auto simp: allowed_def split: if_splits)
  moreover have "ar_name r' \<noteq> ar_name r \<longrightarrow> (\<exists>new. op = Rename (ar_id r) new)"
    using r'(2) by (cases op) (auto simp: allowed_def)
  ultimately show ?thesis using r' by blast
qed

theorem registry_life_cycle_witness:
  "\<exists>r' \<in> set (fst (reg_run Boot two_agents)). allowed Boot (hd (fst two_agents)) r'"
proof -
  have "hd (fst two_agents) \<in> set (fst two_agents)" by (rule hd_in_set) code_simp
  with registry_life_cycle [of "fst two_agents" "snd two_agents" _ Boot] two_agents_reach
  show ?thesis by (metis prod.collapse)
qed

text \<open>
  an address resolves to a session or to an error, never to a guess: the target is an
  alive session with exactly that id, or else the only alive session with that nick.
\<close>

theorem resolve_target_exact:
  assumes "constraints t"
  shows "resolve_target needle t = Inr a \<longleftrightarrow>
    (if agent_alive needle t then a = needle
     else \<exists>r \<in> set t. ar_id r = a \<and> ar_name r = needle \<and> alive r
        \<and> (\<forall>s \<in> set t. ar_name s = needle \<and> alive s \<longrightarrow> ar_id s = a))"
  using resolve_by_id [OF assms] resolve_by_name [OF assms] by auto

theorem resolve_target_exact_witness: "resolve_target ''y'' (fst two_agents) = Inr ''b''"
proof -
  have c: "constraints (fst two_agents)" using reach_constraints [OF two_agents_reach] .
  have "\<not> agent_alive ''y'' (fst two_agents)" by code_simp
  moreover have "\<exists>r \<in> set (fst two_agents). ar_id r = ''b'' \<and> ar_name r = ''y'' \<and> alive r
        \<and> (\<forall>s \<in> set (fst two_agents). ar_name s = ''y'' \<and> alive s \<longrightarrow> ar_id s = ''b'')"
    by code_simp
  ultimately show ?thesis using resolve_target_exact [OF c, of "''y''" "''b''"] by simp
qed

text \<open>
  after a successful rename of an alive session, its new nick addresses exactly that
  session (unless the nick is another alive session's id, which always wins), and no other
  session's nick has changed.
\<close>

theorem rename_then_resolve:
  assumes "constraints t" and "rename aid new t = Inr (t', n)"
    and "agent_alive aid t" and "\<not> agent_alive new t"
  shows "valid_agent_name new \<and> resolve_target new t' = Inr aid
    \<and> (\<forall>other. other \<noteq> aid \<longrightarrow> nick_of other t' = nick_of other t)"
proof -
  have ok: "valid_agent_name new" and free: "\<forall>r \<in> set t. \<not> (ar_name r = new \<and> ar_id r \<noteq> aid \<and> alive r)"
    and t': "t' = upd_where (\<lambda>r. ar_id r = aid) (\<lambda>r. r\<lparr>ar_name := new\<rparr>) t" "constraints t'"
    using assms(2) by (auto simp: rename_def Let_def find_None_iff split: if_splits sum.splits)
  obtain r where r: "r \<in> set t" "ar_id r = aid" "alive r"
    using assms(3) by (auto simp: agent_alive_def list_ex_iff)
  have "agent_alive new t' = agent_alive new t"
    unfolding t'(1) by (rule agent_alive_upd) (simp_all add: alive_def)
  then have "\<not> agent_alive new t'" using assms(4) by simp
  moreover have "r\<lparr>ar_name := new\<rparr> \<in> set t'"
    using r by (auto simp: t'(1) upd_where_def image_iff intro!: bexI [of _ r])
  moreover have "\<forall>s \<in> set t'. ar_name s = new \<and> alive s \<longrightarrow> ar_id s = aid"
    using free by (simp add: t'(1) ball_upd_where alive_def) blast
  ultimately have "resolve_target new t' = Inr aid"
    using r by (auto simp: resolve_by_name [OF t'(2)] alive_def intro!: bexI [of _ "r\<lparr>ar_name := new\<rparr>"])
  moreover have "nick_of other t' = nick_of other t" if "other \<noteq> aid" for other
    using that by (cases "row_of ar_id other t") (auto simp: nick_of_def t'(1) tbl dest: row_of_Some)
  ultimately show ?thesis using ok by blast
qed

theorem rename_then_resolve_witness:
  "\<exists>t' n. rename ''a'' ''mira'' (fst two_agents) = Inr (t', n) \<and> resolve_target ''mira'' t' = Inr ''a''"
proof -
  have "case rename ''a'' ''mira'' (fst two_agents) of Inl _ \<Rightarrow> False | Inr _ \<Rightarrow> True" by code_simp
  then obtain t' n where r: "rename ''a'' ''mira'' (fst two_agents) = Inr (t', n)"
    by (auto split: sum.splits)
  have "agent_alive ''a'' (fst two_agents)" "\<not> agent_alive ''mira'' (fst two_agents)" by code_simp+
  from rename_then_resolve [OF reach_constraints [OF two_agents_reach] r this] r
  show ?thesis by blast
qed

section \<open>Two limits of the routing columns\<close>

text \<open>The effect of restoring one binding, and of restoring a list of them.\<close>

definition restored :: "string \<Rightarrow> int \<times> int option \<Rightarrow> agent_row rows \<Rightarrow> agent_row rows" where
  "restored aid k t =
     take_route (\<lambda>r. on_route (fst k) (snd k) r \<and> ar_id r \<noteq> aid) (\<lambda>_. True) aid (fst k) (snd k) t"

lemma restored_ok:
  assumes "constraints t" "thread_ok (snd k)"
  shows "constraints (restored aid k t)" "agent_alive a (restored aid k t) = agent_alive a t"
    and "resolve_routing c th (restored aid k t) =
      (if c = fst k \<and> coalesce th = coalesce (snd k) then (if agent_alive aid t then Some aid else None)
       else if resolve_routing c th t = Some aid then None else resolve_routing c th t)"
proof -
  have *: "takes (\<lambda>r. on_route (fst k) (snd k) r \<and> ar_id r \<noteq> aid) aid (fst k) (snd k)"
    by (simp add: takes_def)
  show "constraints (restored aid k t)"
    unfolding restored_def by (rule constraints_take_route [OF assms *])
  show "agent_alive a (restored aid k t) = agent_alive a t"
    by (simp add: restored_def take_route_def agent_alive_upd)
  show "resolve_routing c th (restored aid k t) =
      (if c = fst k \<and> coalesce th = coalesce (snd k) then (if agent_alive aid t then Some aid else None)
       else if resolve_routing c th t = Some aid then None else resolve_routing c th t)"
    unfolding restored_def by (rule resolve_take_route [OF assms *]) simp
qed

lemma restore_each_fold:
  assumes "constraints t" "\<forall>k \<in> set bs. thread_ok (snd k)"
  shows "restore_each aid bs t n = (fold (restored aid) bs t, Inr (n + length bs))"
    and "constraints (fold (restored aid) bs t)"
    and "agent_alive a (fold (restored aid) bs t) = agent_alive a t"
  using assms
proof (induction bs arbitrary: t n)
  case (Cons k bs)
  case 1
  obtain c th where k: "k = (c, th)" by (cases k)
  have "exec (upd_where (\<lambda>r. on_route c th r \<and> ar_id r \<noteq> aid) clear_route t)
      = Inr (upd_where (\<lambda>r. on_route c th r \<and> ar_id r \<noteq> aid) clear_route t)"
    using 1 by (intro exec_ok constraints_clear)
  moreover have "exec (restored aid k t) = Inr (restored aid k t)"
    using 1 by (intro exec_ok restored_ok) auto
  ultimately show ?case using Cons.IH(1) [of "restored aid k t"] restored_ok(1) [of t k aid] 1
    by (simp add: k restored_def take_route_def)
next
  case (Cons k bs)
  case 2
  then show ?case using Cons.IH(2) [of "restored aid k t"] restored_ok(1) [of t k aid] by simp
next
  case (Cons k bs)
  case 3
  then show ?case using Cons.IH(3) [of "restored aid k t"] restored_ok(1) [of t k aid] restored_ok(2) [of t k a aid] by simp
qed simp_all

lemma resolve_fold_restored:
  assumes "constraints t" "\<forall>k \<in> set bs. thread_ok (snd k)"
    and "resolve_routing c th t \<in> {Some aid, None} \<or> (\<exists>k \<in> set bs. c = fst k \<and> coalesce th = coalesce (snd k))"
  shows "resolve_routing c th (fold (restored aid) bs t) \<in> {Some aid, None}"
  using assms
proof (induction bs arbitrary: t)
  case (Cons k bs)
  have ok: "constraints (restored aid k t)" using Cons.prems by (simp add: restored_ok)
  have "resolve_routing c th (restored aid k t) \<in> {Some aid, None}
      \<or> (\<exists>k \<in> set bs. c = fst k \<and> coalesce th = coalesce (snd k))"
    using Cons.prems restored_ok(3) [OF Cons.prems(1), of k c th aid] by (auto split: if_splits)
  from Cons.IH [OF ok _ this] Cons.prems(2) show ?case by simp
qed simp

text \<open>
  a session that comes back under its nick gets back one chat, not all of them. When
  the nick has several chats bound, the restore reports all of them restored, but the
  session ends up holding only the last; every other one has been taken from whoever held
  it and resolves to nobody.
\<close>

theorem restore_keeps_only_last:
  assumes "constraints t" and "agent_alive aid t"
    and "chats_bound_to_name name b = ks @ [(chat, thread)]"
    and "\<forall>k \<in> set (chats_bound_to_name name b). thread_ok (snd k)"
  shows "\<exists>t'. restore_bindings_for aid name b t = (t', Inr (length ks + 1))
    \<and> resolve_routing chat thread t' = Some aid
    \<and> (\<forall>k \<in> set ks. (fst k, coalesce (snd k)) \<noteq> (chat, coalesce thread)
          \<longrightarrow> resolve_routing (fst k) (snd k) t' = None)"
proof -
  let ?u = "fold (restored aid) ks t" and ?k = "(chat, thread)"
  have ok: "\<forall>k \<in> set ks. thread_ok (snd k)" "thread_ok (snd ?k)" using assms(3,4) by auto
  note u = restore_each_fold [OF assms(1) ok(1), of aid]
  have "restore_bindings_for aid name b t = (restored aid ?k ?u, Inr (length ks + 1))"
    using restore_each_fold(1) [OF assms(1), of "ks @ [?k]" aid 0] ok
    by (simp add: restore_bindings_for_def assms(3))
  moreover have "resolve_routing chat thread (restored aid ?k ?u) = Some aid"
    using restored_ok(3) [OF u(2) ok(2)] u(3) assms(2) by simp
  moreover have "resolve_routing (fst k) (snd k) (restored aid ?k ?u) = None"
    if "k \<in> set ks" "(fst k, coalesce (snd k)) \<noteq> (chat, coalesce thread)" for k
    using restored_ok(3) [OF u(2) ok(2), of "fst k" "snd k" aid] that
      resolve_fold_restored [OF assms(1) ok(1), of "fst k" "snd k" aid] by auto
  ultimately show ?thesis by blast
qed

theorem restore_keeps_only_last_witness:
  "\<exists>t'. restore_bindings_for ''a'' ''x''
       (bind_chat_to_name 8 None ''x'' 2 (bind_chat_to_name 7 None ''x'' 1 [])) (fst two_agents)
       = (t', Inr 2) \<and> resolve_routing 8 None t' = Some ''a'' \<and> resolve_routing 7 None t' = None"
proof -
  let ?b = "bind_chat_to_name 8 None ''x'' 2 (bind_chat_to_name 7 None ''x'' 1 [])"
  have b: "chats_bound_to_name ''x'' ?b = [(7, None)] @ [(8, None)]" by code_simp
  have "agent_alive ''a'' (fst two_agents)" by code_simp
  from restore_keeps_only_last [OF reach_constraints [OF two_agents_reach] this b] b
  show ?thesis by (auto simp: thread_ok_def)
qed

text \<open>
  a session that was orphaned while it held a chat keeps the chat in its row. If another
  session takes the chat meanwhile, the first one can no longer register at all, whatever
  nick it gives: the routing index refuses its row, and the caller is told that its nick is
  taken.
\<close>

theorem register_blocked_by_route:
  assumes "constraints t" and "r \<in> set t" and "\<not> alive r" and "on_route c th r"
    and "s \<in> set t" and "alive s" and "on_route c th s" and "ar_conn s \<noteq> conn"
    and "valid_agent_name name"
  shows "register (ar_id r) name conn thread metadata now t = Inl NameAliveInThread"
proof -
  let ?f = "\<lambda>r. r\<lparr>ar_conn := conn, ar_thread := thread, ar_pinged := now, ar_state := Alive,
                 ar_metadata := metadata\<rparr>"
  let ?b = "bury_same_slot conn (ar_id r) thread t"
  let ?u = "upsert ar_id (fresh_row (ar_id r) name conn thread metadata now) ?f ?b"
  have b: "r \<in> set ?b" "s \<in> set ?b" using assms(2,3,5,8) by (auto simp: bury_same_slot_def tbl)
  have ne: "ar_id s \<noteq> ar_id r"
    using pk_eq [OF constraintsD(1) [OF assms(1)] assms(5,2)] assms(3,6) by auto
  have u: "?u = upd_where (\<lambda>x. ar_id x = ar_id r) ?f ?b"
    using b(1) by (auto simp: upsert_def fresh_row_def)
  have "?f r \<in> set ?u" "s \<in> set ?u" using b ne unfolding u by (auto simp: tbl)
  moreover have "on_route c th (?f r)" "alive (?f r)" using assms(4) by (simp_all add: on_route_def alive_def)
  moreover have "?f r \<noteq> s" using ne by auto
  ultimately have "\<not> constraints ?u" using routing_unique [of ?u "?f r" s c th] assms(6,7) by blast
  then show ?thesis using assms(9) by (simp add: register_def exec_def)
qed

theorem register_blocked_by_route_witness:
  "register ''a'' ''unused'' ''c3'' None None 9
     (fst (fold reg_run [BindRoute ''a'' 7 None, ConnectionEof ''c1'', BindRoute ''b'' 7 None] two_agents))
   = Inl NameAliveInThread"
proof -
  let ?t = "fst (fold reg_run [BindRoute ''a'' 7 None, ConnectionEof ''c1'', BindRoute ''b'' 7 None] two_agents)"
  have c: "constraints ?t"
    by (rule reach_constraints) (rule rtranclp_trans [OF two_agents_reach fold_reach])
  have r: "?t ! 0 \<in> set ?t" "?t ! 1 \<in> set ?t" by (rule nth_mem, code_simp)+
  have "\<not> alive (?t ! 0)" "on_route 7 None (?t ! 0)" "alive (?t ! 1)" "on_route 7 None (?t ! 1)"
    "ar_conn (?t ! 1) \<noteq> ''c3''" "valid_agent_name ''unused''" "ar_id (?t ! 0) = ''a''"
    by code_simp+
  with register_blocked_by_route [OF c r(1) _ _ r(2), of 7 None "''c3''" "''unused''" None None 9]
  show ?thesis by simp
qed

end
