(* ===== verification/PendingAsks.thy ===== *)
theory PendingAsks
  imports Prelude
begin

text \<open>
  Questions to the operator (\<open>src/daemon/pending_asks.rs\<close>, the request side
  \<open>handle_chat_ask\<close> of \<open>src/daemon/server.rs\<close> and the answer side of
  \<open>process_batch_with_pairing\<close> in \<open>src/daemon/telegram.rs\<close>): a row per question
  sent with an inline keyboard, a 64-byte budget for what a button carries, the taps that
  toggle or answer, and the expiry sweep.

  The JSON of the selected values is written by \<open>to_js\<close> and read by \<open>of_js\<close>
  (\<open>serde_json\<close>), arguments of the definitions that use them. What is relied on is that
  \<open>of_js\<close> reads back what \<open>to_js\<close> wrote.
\<close>

section \<open>Rows\<close>

record pending_ask =
  pa_id :: utext
  pa_chat :: int
  pa_thread :: "int option"
  pa_message :: int
  pa_agent :: utext
  pa_question :: utext
  pa_options :: "(utext \<times> utext) list"
  pa_multi :: bool
  pa_selected :: "utext option"
  pa_created :: int
  pa_expires :: int

definition default_ttl_ms :: int where "default_ttl_ms = 24 * 60 * 60 * 1000"

definition ask_thread_ok :: "pending_ask \<Rightarrow> bool" where
  "ask_thread_ok a = (case pa_thread a of None \<Rightarrow> True | Some n \<Rightarrow> 0 < n)"

datatype ask_error = AskConstraint | BudgetExceeded utext nat nat

definition insert_pending :: "pending_ask \<Rightarrow> pending_ask rows \<Rightarrow> ask_error + pending_ask rows" where
  "insert_pending a t =
     (if pa_id a \<in> pa_id ` set t \<or> \<not> ask_thread_ok a then Inl AskConstraint else Inr (t @ [a]))"

definition get_pending :: "pending_ask rows \<Rightarrow> utext \<Rightarrow> pending_ask option" where
  "get_pending t i = row_of pa_id i t"

definition delete_pending :: "utext \<Rightarrow> pending_ask rows \<Rightarrow> pending_ask rows" where
  "delete_pending i t = del_where (\<lambda>r. pa_id r = i) t"

definition update_selected_values ::
  "utext \<Rightarrow> utext \<Rightarrow> pending_ask rows \<Rightarrow> pending_ask rows \<times> utext option" where
  "update_selected_values i new t =
     (upd_where (\<lambda>r. pa_id r = i) (\<lambda>r. r\<lparr>pa_selected := Some new\<rparr>) t,
      case row_of pa_id i t of None \<Rightarrow> None | Some _ \<Rightarrow> Some new)"

definition list_open :: "int \<Rightarrow> utext option \<Rightarrow> int option \<Rightarrow> pending_ask rows \<Rightarrow> pending_ask rows" where
  "list_open now agent chat t =
     sort_key pa_created (filter (\<lambda>r. now < pa_expires r
       \<and> (case agent of None \<Rightarrow> True | Some a \<Rightarrow> pa_agent r = a)
       \<and> (case chat of None \<Rightarrow> True | Some c \<Rightarrow> pa_chat r = c)) t)"

definition gc_expired :: "int \<Rightarrow> pending_ask rows \<Rightarrow> pending_ask rows \<times> nat" where
  "gc_expired now t = (del_where (\<lambda>r. pa_expires r < now) t, count_where (\<lambda>r. pa_expires r < now) t)"

section \<open>What a button carries\<close>

text \<open>\<open>String::len\<close>: the UTF-8 length of a code point and of a text.\<close>

definition utf8_len :: "utext \<Rightarrow> nat" where
  "utf8_len t = sum_list (map (\<lambda>c. if c < 128 then 1 else if c < 2048 then 2
                                else if c < 65536 then 3 else 4) t)"

abbreviation colon :: utext where "colon \<equiv> of_str '':''"
abbreviation toggle_mark :: utext where "toggle_mark \<equiv> of_str '':toggle:''"

fun validate_callback_data_budget ::
  "nat \<Rightarrow> bool \<Rightarrow> (utext \<times> utext) list \<Rightarrow> ask_error + unit" where
  "validate_callback_data_budget n multi [] = Inr ()"
| "validate_callback_data_budget n multi ((label, val) # opts) =
     (let overhead = (if multi then n + utf8_len toggle_mark else n + utf8_len colon);
          total = overhead + utf8_len val
      in if 64 < total then Inl (BudgetExceeded label total (64 - overhead))
         else validate_callback_data_budget n multi opts)"

definition button :: "utext \<Rightarrow> bool \<Rightarrow> utext \<Rightarrow> utext" where
  "button i multi val = (if multi then i @ toggle_mark @ val else i @ colon @ val)"

section \<open>Asking\<close>

datatype ask_refusal =
  EmptyQuestion | OptionsCount | EmptyLabel | EmptyValue | DuplicateValue | Budget ask_error
| NotRegistered | SendFailed | InsertFailed

fun check_options :: "utext list \<Rightarrow> (utext \<times> utext) list \<Rightarrow> ask_refusal + unit" where
  "check_options seen [] = Inr ()"
| "check_options seen ((label, val) # opts) =
     (if label = [] then Inl EmptyLabel
      else if val = [] then Inl EmptyValue
      else if val \<in> set seen then Inl DuplicateValue
      else check_options (val # seen) opts)"

definition new_ask ::
  "utext \<Rightarrow> int \<Rightarrow> int option \<Rightarrow> int \<Rightarrow> utext \<Rightarrow> utext \<Rightarrow> (utext \<times> utext) list \<Rightarrow> bool \<Rightarrow> int \<Rightarrow> pending_ask" where
  "new_ask i chat thread m a question opts multi now =
     \<lparr>pa_id = i, pa_chat = chat, pa_thread = thread, pa_message = m, pa_agent = a,
      pa_question = question, pa_options = opts, pa_multi = multi,
      pa_selected = None, pa_created = now, pa_expires = now + default_ttl_ms\<rparr>"

text \<open>
  \<open>handle_chat_ask\<close> once the thread has been parsed: \<open>i\<close> is the fresh UUID, \<open>agent\<close> the
  session the connection belongs to, \<open>send\<close> what Telegram answers to the keyboard (the id
  of the message it posted).
\<close>

definition chat_ask ::
  "utext \<Rightarrow> utext option \<Rightarrow> ((utext \<times> utext) list \<Rightarrow> int option) \<Rightarrow> int \<Rightarrow> int option \<Rightarrow> utext \<Rightarrow>
     (utext \<times> utext) list \<Rightarrow> bool \<Rightarrow> int \<Rightarrow> pending_ask rows \<Rightarrow> ask_refusal + pending_ask rows" where
  "chat_ask i agent send chat thread question opts multi now t =
     (if trim question = [] then Inl EmptyQuestion
      else if opts = [] \<or> 8 < length opts then Inl OptionsCount
      else case check_options [] opts of Inl e \<Rightarrow> Inl e
      | Inr _ \<Rightarrow>
        (case validate_callback_data_budget (utf8_len i) multi opts of Inl e \<Rightarrow> Inl (Budget e)
         | Inr _ \<Rightarrow>
           (case agent of None \<Rightarrow> Inl NotRegistered
            | Some a \<Rightarrow>
              (case send (map (\<lambda>(l, v). (l, button i multi v)) opts) of None \<Rightarrow> Inl SendFailed
               | Some m \<Rightarrow>
                 (case insert_pending (new_ask i chat thread m a question opts multi now) t of
                    Inl _ \<Rightarrow> Inl InsertFailed | Inr t' \<Rightarrow> Inr t')))))"

section \<open>Answering\<close>

text \<open>\<open>str::split_once(':')\<close>.\<close>

fun split_colon :: "utext \<Rightarrow> (utext \<times> utext) option" where
  "split_colon [] = None"
| "split_colon (c # cs) =
     (if [c] = colon then Some ([], cs)
      else case split_colon cs of None \<Rightarrow> None | Some (a, b) \<Rightarrow> Some (c # a, b))"

definition toggle_value :: "utext \<Rightarrow> utext list \<Rightarrow> utext list" where
  "toggle_value v vs = (if v \<in> set vs then remove1 v vs else vs @ [v])"

definition selected :: "(utext \<Rightarrow> utext list option) \<Rightarrow> pending_ask \<Rightarrow> utext list" where
  "selected of_js a = (case pa_selected a of None \<Rightarrow> []
     | Some s \<Rightarrow> (case of_js s of None \<Rightarrow> [] | Some vs \<Rightarrow> vs))"

datatype tap_outcome =
    Dropped
  | Answered pending_ask "utext list"
  | Toggled pending_ask "(utext \<times> utext \<times> bool) list" utext

text \<open>One tap of an allowed sender, from its \<open>callback_data\<close>.\<close>

definition tap ::
  "(utext list \<Rightarrow> utext) \<Rightarrow> (utext \<Rightarrow> utext list option) \<Rightarrow> utext \<Rightarrow> pending_ask rows
     \<Rightarrow> pending_ask rows \<times> tap_outcome" where
  "tap to_js of_js data t =
     (case split_colon data of None \<Rightarrow> (t, Dropped)
      | Some (i, suffix) \<Rightarrow>
        (case get_pending t i of None \<Rightarrow> (t, Dropped)
         | Some a \<Rightarrow>
           if \<not> pa_multi a then (delete_pending i t, Answered a [suffix])
           else if suffix = of_str ''done'' then (delete_pending i t, Answered a (selected of_js a))
           else case strip_prefix (of_str ''toggle:'') suffix of None \<Rightarrow> (t, Dropped)
           | Some v \<Rightarrow>
             let current = toggle_value v (selected of_js a);
                 (t', written) = update_selected_values i (to_js current) t
             in (case written of None \<Rightarrow> (t', Dropped)
                 | Some _ \<Rightarrow> (t', Toggled a
                     (map (\<lambda>(l, w). (l, pa_id a @ toggle_mark @ w, w \<in> set current)) (pa_options a))
                     (pa_id a @ of_str '':done'')))))"

section \<open>The table as a row store\<close>

definition ask_put :: "utext \<Rightarrow> pending_ask \<Rightarrow> pending_ask rows \<Rightarrow> pending_ask rows" where
  "ask_put i a t = (case insert_pending a t of Inl _ \<Rightarrow> t | Inr t' \<Rightarrow> t')"

lemma get_pending_new:
  assumes "pa_id a \<notin> pa_id ` set t"
  shows "get_pending (t @ [a]) j = (if j = pa_id a then Some a else get_pending t j)"
proof -
  have "row_of pa_id (pa_id a) t = None" using assms by (simp add: row_of_None)
  then show ?thesis by (auto simp: get_pending_def row_of_append split: option.splits)
qed

interpretation asks: row_store "pk pa_id" get_pending ask_put delete_pending
  "\<lambda>i a. pa_id a = i \<and> ask_thread_ok a"
  by unfold_locales
    (auto simp: ask_put_def insert_pending_def get_pending_new delete_pending_def
      get_pending_new [unfolded get_pending_def] row_of_None pk_snoc pk_del_where get_pending_def
      row_of_del_key)

lemma get_pending_pk: "pk pa_id t \<Longrightarrow> a \<in> set t \<Longrightarrow> get_pending t (pa_id a) = Some a"
  by (simp add: get_pending_def row_of_pk)

lemma get_pending_id: "get_pending t i = Some a \<Longrightarrow> pa_id a = i"
  by (auto simp: get_pending_def dest: row_of_Some)

section \<open>Lemmas\<close>

lemma budget_ok:
  "validate_callback_data_budget n multi opts = Inr () \<Longrightarrow> (l, v) \<in> set opts \<Longrightarrow>
    n + utf8_len (if multi then toggle_mark else colon) + utf8_len v \<le> 64"
  by (induction n multi opts rule: validate_callback_data_budget.induct)
    (auto simp: Let_def split: if_splits)

lemma utf8_len_append [simp]: "utf8_len (s @ t) = utf8_len s + utf8_len t"
  by (simp add: utf8_len_def)

lemma split_colon_append: "58 \<notin> set i \<Longrightarrow> split_colon (i @ 58 # s) = Some (i, s)"
  by (induction i) (auto simp: of_str_def)

lemma check_options_ok:
  "check_options seen opts = Inr () \<Longrightarrow> distinct (map snd opts) \<and> set (map snd opts) \<inter> set seen = {}
    \<and> (\<forall>(l, v) \<in> set opts. l \<noteq> [] \<and> v \<noteq> [])"
  by (induction seen opts rule: check_options.induct) (auto split: if_splits)

lemma toggle_distinct: "distinct vs \<Longrightarrow> distinct (toggle_value v vs)"
  by (auto simp: toggle_value_def)

lemma toggle_set:
  "distinct vs \<Longrightarrow> w \<in> set (toggle_value v vs) \<longleftrightarrow> (if w = v then v \<notin> set vs else w \<in> set vs)"
  by (auto simp: toggle_value_def)

text \<open>A run of taps on the toggle buttons of one question.\<close>

fun toggles ::
  "(utext list \<Rightarrow> utext) \<Rightarrow> (utext \<Rightarrow> utext list option) \<Rightarrow> utext \<Rightarrow> utext list \<Rightarrow> pending_ask rows
     \<Rightarrow> pending_ask rows" where
  "toggles to_js of_js i [] t = t"
| "toggles to_js of_js i (v # vs) t = toggles to_js of_js i vs (fst (tap to_js of_js (button i True v) t))"

lemma colon_code: "of_str '':toggle:'' = 58 # of_str ''toggle:''" "of_str '':'' = [58]"
  by (simp_all add: of_str_def)

lemma toggle_not_done: "of_str ''toggle:'' @ v \<noteq> of_str ''done''"
  by (simp add: of_str_def)

lemma tap_toggle:
  assumes "58 \<notin> set i" "get_pending t i = Some a" "pa_multi a"
  shows "fst (tap to_js of_js (button i True v) t) =
    upd_where (\<lambda>r. pa_id r = i) (\<lambda>r. r\<lparr>pa_selected := Some (to_js (toggle_value v (selected of_js a)))\<rparr>) t"
  using assms by (simp add: tap_def button_def colon_code split_colon_append toggle_not_done
      update_selected_values_def get_pending_def Let_def)

lemma get_after_toggle:
  assumes "58 \<notin> set i" "get_pending t i = Some a" "pa_multi a"
  shows "get_pending (fst (tap to_js of_js (button i True v) t)) i =
    Some (a\<lparr>pa_selected := Some (to_js (toggle_value v (selected of_js a)))\<rparr>)"
  using assms get_pending_id [OF assms(2)]
  by (simp add: tap_toggle [OF assms] get_pending_def row_of_upd_where)

lemma toggles_selected:
  assumes "\<And>vs. of_js (to_js vs) = Some vs" "58 \<notin> set i"
  shows "get_pending t i = Some a \<Longrightarrow> pa_multi a \<Longrightarrow> distinct (selected of_js a) \<Longrightarrow>
    \<exists>b. get_pending (toggles to_js of_js i vs t) i = Some b \<and> pa_multi b \<and> distinct (selected of_js b)
      \<and> (\<forall>w. w \<in> set (selected of_js b) \<longleftrightarrow> (w \<in> set (selected of_js a)) \<noteq> odd (count_list vs w))"
proof (induction vs arbitrary: t a)
  case (Cons v vs)
  let ?a = "a\<lparr>pa_selected := Some (to_js (toggle_value v (selected of_js a)))\<rparr>"
  have sel: "selected of_js ?a = toggle_value v (selected of_js a)"
    by (simp add: selected_def [of _ ?a] assms(1))
  have "get_pending (fst (tap to_js of_js (button i True v) t)) i = Some ?a" "pa_multi ?a"
    "distinct (selected of_js ?a)"
    using get_after_toggle [OF assms(2) Cons.prems(1,2)] Cons.prems(2,3) toggle_distinct
    by (simp_all add: sel)
  from Cons.IH [OF this] show ?case
    using toggle_set [OF Cons.prems(3)] by (auto simp: sel)
qed auto

section \<open>Properties\<close>



text \<open>
  on a multiple-choice question the answer is exactly what the operator left ticked:
  after any run of toggle taps, \<open>Done\<close> answers with each value tapped an odd number of
  times, once each, and consumes the row.
\<close>

theorem done_answers_what_is_ticked:
  assumes "\<And>vs. of_js (to_js vs) = Some vs" and "58 \<notin> set i"
    and "get_pending t i = Some a" and "pa_multi a" and "pa_selected a = None"
  shows "\<exists>b ws. tap to_js of_js (i @ of_str '':done'') (toggles to_js of_js i vs t)
      = (delete_pending i (toggles to_js of_js i vs t), Answered b ws)
    \<and> distinct ws \<and> set ws = {w. odd (count_list vs w)}"
proof -
  have "distinct (selected of_js a)" "selected of_js a = []" using assms(5) by (simp_all add: selected_def)
  with toggles_selected [OF assms(1,2,3,4), of vs] obtain b where
    b: "get_pending (toggles to_js of_js i vs t) i = Some b" "pa_multi b" "distinct (selected of_js b)"
      "\<forall>w. w \<in> set (selected of_js b) \<longleftrightarrow> odd (count_list vs w)" by auto
  have "of_str '':done'' = 58 # of_str ''done''" by (simp add: of_str_def)
  with b(1,2) assms(2) have "tap to_js of_js (i @ of_str '':done'') (toggles to_js of_js i vs t)
      = (delete_pending i (toggles to_js of_js i vs t), Answered b (selected of_js b))"
    by (simp add: tap_def split_colon_append)
  then show ?thesis using b(3,4) by blast
qed

text \<open>A concrete encoding of lists of texts, for the witness.\<close>

definition enc_len :: "utext list \<Rightarrow> utext" where
  "enc_len vs = concat (map (\<lambda>v. length v # v) vs)"

function dec_len :: "utext \<Rightarrow> utext list option" where
  "dec_len [] = Some []"
| "dec_len (n # r) = (if n \<le> length r then map_option ((#) (take n r)) (dec_len (drop n r)) else None)"
  by pat_completeness auto
termination by (relation "measure length") auto

lemma dec_enc_len: "dec_len (enc_len vs) = Some vs"
  by (induction vs) (auto simp: enc_len_def)

theorem done_answers_what_is_ticked_witness:
  "\<exists>b ws. snd (tap enc_len dec_len (of_str ''q:done'')
       (toggles enc_len dec_len (of_str ''q'') [of_str ''a'', of_str ''b'', of_str ''a'']
         [\<lparr>pa_id = of_str ''q'', pa_chat = 1, pa_thread = None, pa_message = 2, pa_agent = [],
           pa_question = [], pa_options = [], pa_multi = True, pa_selected = None, pa_created = 0,
           pa_expires = 9\<rparr>])) = Answered b ws \<and> set ws = {w. odd (count_list [of_str ''a'', of_str ''b'', of_str ''a''] w)}"
proof -
  let ?a = "\<lparr>pa_id = of_str ''q'', pa_chat = 1, pa_thread = None, pa_message = 2, pa_agent = [],
           pa_question = [], pa_options = [], pa_multi = True, pa_selected = None, pa_created = 0,
           pa_expires = 9\<rparr>"
  have "of_str ''q:done'' = of_str ''q'' @ of_str '':done''" by (simp add: of_str_def)
  with done_answers_what_is_ticked [OF dec_enc_len, of "of_str ''q''" "[?a]" ?a
      "[of_str ''a'', of_str ''b'', of_str ''a'']"]
  show ?thesis by (auto simp: get_pending_def of_str_def)
qed

text \<open>
  The sweep takes no question away while it is open, takes every one past its expiry,
  and is the same whether it runs once or at every batch: what is listed as open at any
  later time is the same with or without an earlier sweep.
\<close>

theorem gc_keeps_open:
  assumes "swept \<le> now"
  shows "list_open now agent chat (fst (gc_expired swept t)) = list_open now agent chat t
    \<and> fst (gc_expired now (fst (gc_expired swept t))) = fst (gc_expired now t)
    \<and> (\<forall>r \<in> set (fst (gc_expired now t)). now \<le> pa_expires r)
    \<and> length (fst (gc_expired now t)) + snd (gc_expired now t) = length t"
proof -
  have "filter (\<lambda>r. now < pa_expires r \<and> P r) (fst (gc_expired swept t)) =
      filter (\<lambda>r. now < pa_expires r \<and> P r) t" for P
    using assms by (induction t) (auto simp: gc_expired_def)
  moreover have "fst (gc_expired now (fst (gc_expired swept t))) = fst (gc_expired now t)"
    using assms by (induction t) (auto simp: gc_expired_def)
  moreover have "length (fst (gc_expired now t)) + snd (gc_expired now t) = length t"
    by (induction t) (auto simp: gc_expired_def count_where_def)
  ultimately show ?thesis
    by (auto simp: list_open_def gc_expired_def set_del_where)
qed

definition sample_ask :: "utext \<Rightarrow> int \<Rightarrow> pending_ask" where
  "sample_ask i e = \<lparr>pa_id = i, pa_chat = 1, pa_thread = None, pa_message = 2, pa_agent = [],
     pa_question = [], pa_options = [], pa_multi = False, pa_selected = None, pa_created = 0,
     pa_expires = e\<rparr>"

theorem gc_keeps_open_witness:
  "list_open 5 None None (fst (gc_expired 4 [sample_ask [1] 3, sample_ask [2] 9])) = [sample_ask [2] 9]"
proof -
  have "list_open 5 None None [sample_ask [1] 3, sample_ask [2] 9] = [sample_ask [2] 9]" by code_simp
  then show ?thesis using gc_keeps_open [of 4 5 None None "[sample_ask [1] 3, sample_ask [2] 9]"] by simp
qed

end
