(* ===== verification/Access.thy ===== *)
theory Access
  imports Prelude "HOL-Library.List_Lexorder"
begin

text \<open>
  Who may reach the bot (\<open>src/daemon/channel_state.rs\<close>) and the operator's commands that
  change it (\<open>src/access_cli.rs\<close>): the policy, the allowlist, the pairing codes with their
  expiry and reply limit.

  A \<open>BTreeMap\<close> is the list of its entries in key order. The random bytes of a new code,
  the wall clock and the Unicode lowercase table above ASCII are arguments.
\<close>

section \<open>State\<close>

datatype dm_policy = Pairing | Allowlist | Disabled

record pending_entry =
  pe_sender :: utext
  pe_chat :: utext
  pe_created :: int
  pe_expires :: int
  pe_replies :: nat

record group_policy =
  gp_mention :: bool
  gp_allow :: "utext list"

record access =
  ac_policy :: dm_policy
  ac_allow :: "utext list"
  ac_groups :: "(utext \<times> group_policy) list"
  ac_pending :: "(utext \<times> pending_entry) list"
  ac_patterns :: "utext list"

definition default_access :: access where
  "default_access = \<lparr>ac_policy = Pairing, ac_allow = [], ac_groups = [], ac_pending = [], ac_patterns = []\<rparr>"

definition pairing_code_ttl_ms :: int where "pairing_code_ttl_ms = 60 * 60 * 1000"
definition pending_cap :: nat where "pending_cap = 3"
definition max_pairing_replies :: nat where "max_pairing_replies = 2"

text \<open>\<open>BTreeMap::insert\<close> and \<open>remove\<close>.\<close>

fun bt_insert :: "utext \<Rightarrow> 'v \<Rightarrow> (utext \<times> 'v) list \<Rightarrow> (utext \<times> 'v) list" where
  "bt_insert k v [] = [(k, v)]"
| "bt_insert k v ((k', v') # m) =
     (if k < k' then (k, v) # (k', v') # m
      else if k = k' then (k, v) # m
      else (k', v') # bt_insert k v m)"

definition bt_remove :: "utext \<Rightarrow> (utext \<times> 'v) list \<Rightarrow> (utext \<times> 'v) list" where
  "bt_remove k m = filter (\<lambda>(k', _). k' \<noteq> k) m"

text \<open>\<open>str::to_lowercase\<close>; the table above ASCII is \<open>uni\<close>.\<close>

definition lowercase :: "(nat \<Rightarrow> utext) \<Rightarrow> utext \<Rightarrow> utext" where
  "lowercase uni t = concat (map (\<lambda>c. if c < 128 then [if 65 \<le> c \<and> c \<le> 90 then c + 32 else c] else uni c) t)"

section \<open>The gate\<close>

definition prune_expired :: "int \<Rightarrow> access \<Rightarrow> access \<times> bool" where
  "prune_expired now a =
     (let kept = filter (\<lambda>(_, e). now < pe_expires e) (ac_pending a)
      in (a\<lparr>ac_pending := kept\<rparr>, length (ac_pending a) \<noteq> length kept))"

datatype gate_action = Deliver | Drop | Pair utext bool

definition gate_callback :: "access \<Rightarrow> utext \<Rightarrow> bool" where
  "gate_callback a sender \<longleftrightarrow> (if ac_policy a = Disabled then False else sender \<in> set (ac_allow a))"

fun resend :: "utext \<Rightarrow> (utext \<times> pending_entry) list \<Rightarrow> ((utext \<times> pending_entry) list \<times> gate_action) option" where
  "resend sender [] = None"
| "resend sender ((code, p) # ps) =
     (if pe_sender p = sender then
        (if max_pairing_replies \<le> pe_replies p then Some ((code, p) # ps, Drop)
         else Some ((code, p\<lparr>pe_replies := pe_replies p + 1\<rparr>) # ps, Pair code True))
      else case resend sender ps of None \<Rightarrow> None | Some (ps', g) \<Rightarrow> Some ((code, p) # ps', g))"

text \<open>\<open>code\<close> is what \<open>generate_pairing_code\<close> returned, \<open>None\<close> when the random source failed.\<close>

definition gate_dm :: "utext option \<Rightarrow> utext \<Rightarrow> utext \<Rightarrow> int \<Rightarrow> access \<Rightarrow> access \<times> gate_action" where
  "gate_dm code sender chat now a =
     (if ac_policy a = Disabled then (a, Drop)
      else if sender \<in> set (ac_allow a) then (a, Deliver)
      else if ac_policy a = Allowlist then (a, Drop)
      else case resend sender (ac_pending a) of
        Some (ps, g) \<Rightarrow> (a\<lparr>ac_pending := ps\<rparr>, g)
      | None \<Rightarrow>
          if pending_cap \<le> length (ac_pending a) then (a, Drop)
          else (case code of None \<Rightarrow> (a, Drop)
            | Some c \<Rightarrow>
              (a\<lparr>ac_pending := bt_insert c
                   \<lparr>pe_sender = sender, pe_chat = chat, pe_created = now,
                    pe_expires = now + pairing_code_ttl_ms, pe_replies = 1\<rparr> (ac_pending a)\<rparr>,
               Pair c False)))"

definition format_pair_reply :: "utext \<Rightarrow> bool \<Rightarrow> utext" where
  "format_pair_reply code is_resend =
     of_str (if is_resend then ''Still pending'' else ''Pairing required'') @ [32, 8212, 32]
     @ of_str ''run in your terminal:'' @ [10, 10] @ of_str ''claudebase telegram pair '' @ code"

section \<open>The token file\<close>

text \<open>\<open>str::lines\<close> and the affixes.\<close>

fun lines_of :: "utext \<Rightarrow> utext list" where
  "lines_of [] = []"
| "lines_of (c # cs) =
     (if c = 10 then [] # lines_of cs
      else case lines_of cs of [] \<Rightarrow> [[c]] | l # ls \<Rightarrow> (c # l) # ls)"

definition strip_cr :: "utext \<Rightarrow> utext" where
  "strip_cr l = (if l \<noteq> [] \<and> last l = 13 then butlast l else l)"

definition after_prefix :: "utext \<Rightarrow> utext \<Rightarrow> utext option" where
  "after_prefix p t = (if take (length p) t = p then Some (drop (length p) t) else None)"

definition unquote :: "nat \<Rightarrow> utext \<Rightarrow> utext option" where
  "unquote q v = (case v of c # r \<Rightarrow>
      (if c = q \<and> r \<noteq> [] \<and> last r = q then Some (butlast r) else None) | [] \<Rightarrow> None)"

fun token_in :: "utext list \<Rightarrow> utext option" where
  "token_in [] = None"
| "token_in (l # ls) =
     (let l = trim (strip_cr l)
      in if l = [] \<or> hd l = 35 then token_in ls
         else case after_prefix (of_str ''TELEGRAM_BOT_TOKEN='') l of
           None \<Rightarrow> token_in ls
         | Some rest \<Rightarrow>
             let v = trim rest;
                 u = (case unquote 34 v of Some x \<Rightarrow> x
                      | None \<Rightarrow> (case unquote 39 v of Some x \<Rightarrow> x | None \<Rightarrow> v))
             in if u = [] then None else Some u)"

text \<open>The body of the file, \<open>None\<close> when it does not exist.\<close>

definition load_bot_token_from_env :: "utext option \<Rightarrow> utext option" where
  "load_bot_token_from_env body = (case body of None \<Rightarrow> None | Some b \<Rightarrow> token_in (lines_of b))"

section \<open>The operator's commands\<close>

datatype access_error =
  NoCode | MayHaveExpired | NothingPending | NotPending "utext list" | UnknownPolicy
| WouldLockOut | NotNumeric | NotListed

text \<open>
  \<open>pair\<close>: the new access file and the marker \<open>approved/<sender>\<close> with its contents. On an
  error nothing is written.
\<close>

definition pair ::
  "(nat \<Rightarrow> utext) \<Rightarrow> utext \<Rightarrow> int \<Rightarrow> access \<Rightarrow> access_error + access \<times> utext \<times> utext" where
  "pair uni code now a =
     (let code = lowercase uni (dropWhile (\<lambda>c. c = 35) (trim code))
      in if code = [] then Inl NoCode
         else
           let (a1, pruned) = prune_expired now a
           in case find (\<lambda>(k, _). lowercase uni k = code) (ac_pending a1) of
             None \<Rightarrow>
               if pruned then Inl MayHaveExpired
               else if ac_pending a1 = [] then Inl NothingPending
               else Inl (NotPending (map fst (ac_pending a1)))
           | Some (k, e) \<Rightarrow>
               Inr (a1\<lparr>ac_allow := (if pe_sender e \<in> set (ac_allow a1) then ac_allow a1
                                   else ac_allow a1 @ [pe_sender e]),
                       ac_pending := bt_remove k (ac_pending a1)\<rparr>,
                    pe_sender e, pe_chat e))"

definition apply_pair :: "(nat \<Rightarrow> utext) \<Rightarrow> utext \<Rightarrow> int \<Rightarrow> access \<Rightarrow> access \<times> (access_error + utext)" where
  "apply_pair uni code now a =
     (let (a1, _) = prune_expired now a
      in case find (\<lambda>(k, _). lowercase uni k = lowercase uni code) (ac_pending a1) of
        None \<Rightarrow> (a1, Inl (NotPending []))
      | Some (k, e) \<Rightarrow>
          (a1\<lparr>ac_allow := (if pe_sender e \<in> set (ac_allow a1) then ac_allow a1
                          else ac_allow a1 @ [pe_sender e]),
              ac_pending := bt_remove k (ac_pending a1)\<rparr>, Inr (pe_sender e)))"

definition parse_policy :: "(nat \<Rightarrow> utext) \<Rightarrow> utext \<Rightarrow> dm_policy option" where
  "parse_policy uni v =
     (let s = lowercase uni (trim v)
      in if s = of_str ''pairing'' then Some Pairing
         else if s = of_str ''allowlist'' then Some Allowlist
         else if s = of_str ''disabled'' \<or> s = of_str ''off'' then Some Disabled else None)"

definition set_policy :: "(nat \<Rightarrow> utext) \<Rightarrow> utext \<Rightarrow> access \<Rightarrow> access_error + access" where
  "set_policy uni v a =
     (case parse_policy uni v of None \<Rightarrow> Inl UnknownPolicy
      | Some p \<Rightarrow> if p = Allowlist \<and> ac_allow a = [] then Inl WouldLockOut else Inr (a\<lparr>ac_policy := p\<rparr>))"

definition allow :: "utext \<Rightarrow> access \<Rightarrow> access_error + access" where
  "allow sender a =
     (let s = trim sender
      in if s = [] \<or> \<not> list_all is_ascii_digit s then Inl NotNumeric
         else if s \<in> set (ac_allow a) then Inr a
         else Inr (a\<lparr>ac_allow := ac_allow a @ [s]\<rparr>))"

definition revoke :: "utext \<Rightarrow> access \<Rightarrow> access_error + access" where
  "revoke sender a =
     (let s = trim sender; kept = filter (\<lambda>i. i \<noteq> s) (ac_allow a)
      in if length kept = length (ac_allow a) then Inl NotListed else Inr (a\<lparr>ac_allow := kept\<rparr>))"

section \<open>Everything that writes the access file\<close>

datatype access_op =
    Inbound int "(utext option \<times> utext \<times> utext) list"
  | CliPair "nat \<Rightarrow> utext" utext int
  | CliPolicy "nat \<Rightarrow> utext" utext
  | CliAllow utext
  | CliRevoke utext

text \<open>A long-poll batch: prune once, then each message through the gate.\<close>

fun gate_all :: "int \<Rightarrow> (utext option \<times> utext \<times> utext) list \<Rightarrow> access \<Rightarrow> access \<times> gate_action list" where
  "gate_all now [] a = (a, [])"
| "gate_all now ((code, sender, chat) # ms) a =
     (let (a1, g) = gate_dm code sender chat now a; (a2, gs) = gate_all now ms a1 in (a2, g # gs))"

fun access_run :: "access_op \<Rightarrow> access \<Rightarrow> access" where
  "access_run (Inbound now ms) a = fst (gate_all now ms (fst (prune_expired now a)))"
| "access_run (CliPair uni code now) a = (case pair uni code now a of Inl _ \<Rightarrow> a | Inr (a', _) \<Rightarrow> a')"
| "access_run (CliPolicy uni v) a = (case set_policy uni v a of Inl _ \<Rightarrow> a | Inr a' \<Rightarrow> a')"
| "access_run (CliAllow s) a = (case allow s a of Inl _ \<Rightarrow> a | Inr a' \<Rightarrow> a')"
| "access_run (CliRevoke s) a = (case revoke s a of Inl _ \<Rightarrow> a | Inr a' \<Rightarrow> a')"

inductive access_step :: "access \<Rightarrow> access \<Rightarrow> bool" where
  access_stepI: "access_step a (access_run op a)"

inductive_cases access_stepE: "access_step a a'"

definition sender_of :: "utext \<times> pending_entry \<Rightarrow> utext" where
  "sender_of ce = pe_sender (snd ce)"

lemma sender_of_pair [simp]: "sender_of (c, e) = pe_sender e"
  by (simp add: sender_of_def)

definition access_inv :: "access \<Rightarrow> bool" where
  "access_inv a \<longleftrightarrow> length (ac_pending a) \<le> pending_cap \<and> sorted_wrt (<) (map fst (ac_pending a))
     \<and> distinct (map sender_of (ac_pending a)) \<and> distinct (ac_allow a)
     \<and> (\<forall>(_, e) \<in> set (ac_pending a). 1 \<le> pe_replies e \<and> pe_replies e \<le> max_pairing_replies)"

section \<open>Lemmas\<close>

lemma bt_insert_set: "set (bt_insert k v m) \<subseteq> insert (k, v) (set m)"
  by (induction m) (auto split: if_splits)

lemma bt_insert_keys: "fst ` set (bt_insert k v m) = insert k (fst ` set m)"
  by (induction k v m rule: bt_insert.induct) (simp_all add: insert_commute)

lemma bt_insert_length: "length (bt_insert k v m) \<le> Suc (length m)"
  by (induction m) auto

lemma bt_insert_sorted: "sorted_wrt (<) (map fst m) \<Longrightarrow> sorted_wrt (<) (map fst (bt_insert k v m))"
proof (induction m)
  case (Cons kv m)
  obtain k' v' where kv: "kv = (k', v')" by (cases kv)
  show ?case
  proof (cases "k < k' \<or> k = k'")
    case True
    with Cons.prems kv show ?thesis by (auto intro: less_trans)
  next
    case False
    then have "\<forall>x \<in> fst ` set (bt_insert k v m). k' < x"
      using Cons.prems kv unfolding bt_insert_keys by auto
    with False Cons kv show ?thesis by simp
  qed
qed simp

lemma bt_insert_senders:
  "distinct (map sender_of m) \<Longrightarrow> pe_sender v \<notin> sender_of ` set m \<Longrightarrow>
    distinct (map sender_of (bt_insert k v m))"
proof (induction m)
  case (Cons kv m)
  have "sender_of ` set (bt_insert k v m) \<subseteq> insert (pe_sender v) (sender_of ` set m)"
    using bt_insert_set [of k v m] by fastforce
  with Cons show ?case by (cases kv) auto
qed simp

lemma bt_insert_row:
  "k \<notin> fst ` set m \<Longrightarrow> pe_sender v \<notin> sender_of ` set m \<Longrightarrow>
    row_of sender_of s (bt_insert k v m) = (if s = pe_sender v then Some (k, v) else row_of sender_of s m)"
  by (induction m) (auto simp: row_of_None)

lemma resend_None: "resend s ps = None \<longleftrightarrow> row_of sender_of s ps = None"
  by (induction s ps rule: resend.induct) (auto split: option.splits)

lemma resend_Some:
  assumes "resend s ps = Some (ps', g)"
  shows "map fst ps' = map fst ps \<and> map sender_of ps' = map sender_of ps
    \<and> ((\<forall>(_, e) \<in> set ps. 1 \<le> pe_replies e \<and> pe_replies e \<le> max_pairing_replies) \<longrightarrow>
       (\<forall>(_, e) \<in> set ps'. 1 \<le> pe_replies e \<and> pe_replies e \<le> max_pairing_replies))"
  using assms
  by (induction s ps arbitrary: ps' g rule: resend.induct)
    (auto split: if_splits option.splits)

lemma resend_row:
  assumes "resend s ps = Some (ps', g)"
  shows "\<exists>c e. row_of sender_of s ps = Some (c, e) \<and>
    (if max_pairing_replies \<le> pe_replies e then g = Drop \<and> ps' = ps
     else g = Pair c True \<and> row_of sender_of s ps' = Some (c, e\<lparr>pe_replies := pe_replies e + 1\<rparr>))
    \<and> (\<forall>s'. s' \<noteq> s \<longrightarrow> row_of sender_of s' ps' = row_of sender_of s' ps)"
  using assms
proof (induction s ps arbitrary: ps' g rule: resend.induct)
  case (2 s code p ps)
  show ?case
  proof (cases "pe_sender p = s")
    case True
    with 2 show ?thesis by (auto split: if_splits)
  next
    case False
    then obtain qs where "resend s ps = Some (qs, g)" "ps' = (code, p) # qs"
      using 2(2) by (auto split: option.splits)
    moreover from this 2(1) [OF False, of qs g] obtain c e where
      "row_of sender_of s ps = Some (c, e)"
      "if max_pairing_replies \<le> pe_replies e then g = Drop \<and> qs = ps
       else g = Pair c True \<and> row_of sender_of s qs = Some (c, e\<lparr>pe_replies := pe_replies e + 1\<rparr>)"
      "\<forall>s'. s' \<noteq> s \<longrightarrow> row_of sender_of s' qs = row_of sender_of s' ps" by blast
    ultimately show ?thesis using False
      by (intro exI [of _ c] exI [of _ e]) (simp split: if_splits)
  qed
qed simp

lemma gate_allow [frame]: "ac_allow (fst (gate_dm code s c now a)) = ac_allow a"
  "ac_policy (fst (gate_dm code s c now a)) = ac_policy a"
  by (auto simp: gate_dm_def split: option.split)

lemma gate_all_allow [frame]: "ac_allow (fst (gate_all now ms a)) = ac_allow a"
  by (induction ms arbitrary: a) (auto simp: split_beta frame Let_def)

lemma prune_allow [frame]: "ac_allow (fst (prune_expired now a)) = ac_allow a"
  "ac_policy (fst (prune_expired now a)) = ac_policy a"
  by (simp_all add: prune_expired_def Let_def)

section \<open>The invariant\<close>

lemma inv_filter: "access_inv a \<Longrightarrow> access_inv (a\<lparr>ac_pending := filter p (ac_pending a)\<rparr>)"
proof -
  assume a: "access_inv a"
  have "length (filter p (ac_pending a)) \<le> length (ac_pending a)" by (rule length_filter_le)
  moreover have "length (ac_pending a) \<le> pending_cap" using a by (simp add: access_inv_def)
  ultimately have "length (filter p (ac_pending a)) \<le> pending_cap" by (rule le_trans)
  moreover have "sorted_wrt (<) (map fst (filter p (ac_pending a)))"
    using a by (simp add: access_inv_def sorted_wrt_map sorted_wrt_filter)
  moreover have "distinct (map sender_of (filter p (ac_pending a)))"
    using a by (simp add: access_inv_def distinct_map_filter)
  ultimately show ?thesis using a by (auto simp: access_inv_def)
qed

lemma inv_prune: "access_inv a \<Longrightarrow> access_inv (fst (prune_expired now a))"
  using inv_filter [of a] by (simp add: prune_expired_def Let_def)

lemma inv_gate:
  assumes "access_inv a"
  shows "access_inv (fst (gate_dm code s c now a))"
proof -
  have "access_inv (a\<lparr>ac_pending := ps\<rparr>)" if "resend s (ac_pending a) = Some (ps, g)" for ps g
  proof -
    note r = resend_Some [OF that]
    have "length ps = length (ac_pending a)" using r by (metis length_map)
    with r assms show ?thesis unfolding access_inv_def by simp
  qed
  moreover have "access_inv (a\<lparr>ac_pending := bt_insert k v (ac_pending a)\<rparr>)"
    if "resend s (ac_pending a) = None" "pe_sender v = s" "pe_replies v = 1"
      "length (ac_pending a) < pending_cap" for k v
  proof -
    have "pe_sender v \<notin> sender_of ` set (ac_pending a)"
      using that(1,2) by (simp add: resend_None row_of_None)
    moreover have "length (bt_insert k v (ac_pending a)) \<le> pending_cap"
      using bt_insert_length [of k v "ac_pending a"] that(4) by simp
    moreover have "\<forall>(_, e) \<in> set (bt_insert k v (ac_pending a)). 1 \<le> pe_replies e \<and> pe_replies e \<le> max_pairing_replies"
      using assms bt_insert_set [of k v "ac_pending a"] that(3)
      by (fastforce simp: access_inv_def max_pairing_replies_def)
    ultimately show ?thesis
      using assms by (simp add: access_inv_def bt_insert_sorted bt_insert_senders)
  qed
  ultimately show ?thesis using assms unfolding gate_dm_def
    by (simp split: option.split)
qed

lemma inv_gate_all: "access_inv a \<Longrightarrow> access_inv (fst (gate_all now ms a))"
  by (induction ms arbitrary: a) (auto simp: split_beta Let_def inv_gate)

lemma bt_remove_filter:
  "bt_remove k (filter (\<lambda>(_, e). P e) m) = filter (\<lambda>(k', e). P e \<and> k' \<noteq> k) m"
  by (induction m) (auto simp: bt_remove_def)

lemma pair_Inr:
  assumes "pair uni code now a = Inr (a', s, c)"
  shows "\<exists>k e. (k, e) \<in> set (ac_pending a) \<and> now < pe_expires e \<and> pe_sender e = s \<and> pe_chat e = c
    \<and> lowercase uni k = lowercase uni (dropWhile (\<lambda>c. c = 35) (trim code))
    \<and> a' = a\<lparr>ac_allow := (if s \<in> set (ac_allow a) then ac_allow a else ac_allow a @ [s]),
             ac_pending := filter (\<lambda>(k', e). now < pe_expires e \<and> k' \<noteq> k) (ac_pending a)\<rparr>"
proof -
  let ?code = "lowercase uni (dropWhile (\<lambda>c. c = 35) (trim code))"
  let ?kept = "filter (\<lambda>(_, e). now < pe_expires e) (ac_pending a)"
  let ?found = "find (\<lambda>(k, _). lowercase uni k = ?code) ?kept"
  have nonempty: "?code \<noteq> []" using assms by (auto simp: pair_def)
  have "?found \<noteq> None"
  proof
    assume "?found = None"
    with assms nonempty show False by (simp add: pair_def prune_expired_def Let_def split: if_splits)
  qed
  then obtain k e where f: "?found = Some (k, e)" by auto
  have a': "a' = a\<lparr>ac_allow := (if s \<in> set (ac_allow a) then ac_allow a else ac_allow a @ [s]),
                   ac_pending := bt_remove k ?kept\<rparr>" and e: "pe_sender e = s" "pe_chat e = c"
    using assms nonempty f by (auto simp: pair_def prune_expired_def Let_def cong: if_cong)
  from f have "(k, e) \<in> set ?kept" "lowercase uni k = ?code"
    using find_SomeD [OF f] by simp_all
  moreover note a' [unfolded bt_remove_filter]
  ultimately show ?thesis using e by (intro exI [of _ k] exI [of _ e]) simp
qed

lemma inv_pair: "access_inv a \<Longrightarrow> pair uni code now a = Inr (a', s, c) \<Longrightarrow> access_inv a'"
proof -
  assume a: "access_inv a" and "pair uni code now a = Inr (a', s, c)"
  from pair_Inr [OF this(2)] obtain k where a':
    "a' = a\<lparr>ac_allow := (if s \<in> set (ac_allow a) then ac_allow a else ac_allow a @ [s]),
            ac_pending := filter (\<lambda>(k', e). now < pe_expires e \<and> k' \<noteq> k) (ac_pending a)\<rparr>" by blast
  show ?thesis
    using inv_filter [OF a, of "\<lambda>(k', e). now < pe_expires e \<and> k' \<noteq> k"]
    unfolding a' access_inv_def by auto
qed

lemma inv_run: "access_inv a \<Longrightarrow> access_inv (access_run op a)"
proof (cases op)
  case (CliPair uni code now)
  moreover assume "access_inv a"
  ultimately show ?thesis using inv_pair by (auto split: sum.split)
next
  case (Inbound now ms)
  moreover assume "access_inv a"
  ultimately show ?thesis by (simp add: inv_gate_all inv_prune)
qed (auto simp: access_inv_def set_policy_def allow_def revoke_def Let_def split: option.split)

interpretation gatekeeper: transition_system "\<lambda>a. a = default_access" access_step access_inv
proof
  fix a assume "a = default_access"
  then show "access_inv a" by (simp add: access_inv_def default_access_def)
next
  fix a b assume "access_step a b" "access_inv a"
  then show "access_inv b" by (auto elim!: access_stepE intro: inv_run)
qed

section \<open>One stranger's messages\<close>

text \<open>Direct messages one by one, each at its own time: prune, then the gate.\<close>

fun dm_run ::
  "(int \<times> utext option \<times> utext \<times> utext) list \<Rightarrow> access \<Rightarrow> access \<times> (utext \<times> gate_action) list" where
  "dm_run [] a = (a, [])"
| "dm_run ((now, code, sender, chat) # ms) a =
     (let (a1, g) = gate_dm code sender chat now (fst (prune_expired now a));
          (a2, gs) = dm_run ms a1
      in (a2, (sender, g) # gs))"

fun pairs_to :: "utext \<Rightarrow> (utext \<times> gate_action) list \<Rightarrow> nat" where
  "pairs_to s [] = 0"
| "pairs_to s ((s', g) # gs) =
     (if s' = s then (case g of Pair _ _ \<Rightarrow> 1 | _ \<Rightarrow> 0) else 0) + pairs_to s gs"

text \<open>The replies a sender has had on a code that outlives \<open>till\<close>.\<close>

definition used :: "int \<Rightarrow> utext \<Rightarrow> access \<Rightarrow> nat \<Rightarrow> bool" where
  "used till s a n \<longleftrightarrow> (case row_of sender_of s (ac_pending a) of
     None \<Rightarrow> n = 0 | Some (_, e) \<Rightarrow> pe_replies e = n \<and> till \<le> pe_expires e)"

lemma used_prune:
  assumes "used till s a n" "now < till"
  shows "used till s (fst (prune_expired now a)) n"
proof -
  have "row_of sender_of s (filter (\<lambda>(_, e). now < pe_expires e) ps) = row_of sender_of s ps"
    if "case row_of sender_of s ps of None \<Rightarrow> n = 0 | Some (_, e) \<Rightarrow> pe_replies e = n \<and> till \<le> pe_expires e" for ps
    using that assms(2) by (induction ps) (auto split: if_splits)
  from this [of "ac_pending a"] assms(1) show ?thesis
    by (simp add: used_def prune_expired_def Let_def)
qed

text \<open>One message of anybody: only a reply to \<open>s\<close> uses up replies of \<open>s\<close>.\<close>

lemma used_gate:
  assumes "access_inv a" "used till s a n" "till \<le> now + pairing_code_ttl_ms"
    and "\<And>c. code = Some c \<Longrightarrow> c \<notin> fst ` set (ac_pending a)"
  shows "used till s (fst (gate_dm code sender chat now a))
    (n + pairs_to s [(sender, snd (gate_dm code sender chat now a))])"
proof (cases "ac_policy a = Disabled \<or> sender \<in> set (ac_allow a) \<or> ac_policy a = Allowlist")
  case True
  then show ?thesis using assms(2) by (auto simp: gate_dm_def)
next
  case False
  note open_gate = False
  show ?thesis
  proof (cases "resend sender (ac_pending a)")
    case None
    then have fresh: "sender \<notin> sender_of ` set (ac_pending a)"
      by (simp add: resend_None row_of_None)
    show ?thesis
    proof (cases "length (ac_pending a) < pending_cap \<and> code \<noteq> None")
      case True
      then obtain c where c: "code = Some c" by auto
      let ?e = "\<lparr>pe_sender = sender, pe_chat = chat, pe_created = now,
                 pe_expires = now + pairing_code_ttl_ms, pe_replies = 1\<rparr>"
      have "row_of sender_of s (bt_insert c ?e (ac_pending a)) =
          (if s = sender then Some (c, ?e) else row_of sender_of s (ac_pending a))"
        using bt_insert_row [of c "ac_pending a" ?e s] assms(4) [OF c] fresh by simp
      moreover have "gate_dm code sender chat now a =
          (a\<lparr>ac_pending := bt_insert c ?e (ac_pending a)\<rparr>, Pair c False)"
        using True c None open_gate by (auto simp: gate_dm_def)
      moreover have "n = 0" if "s = sender"
        using assms(2) None that by (simp add: used_def resend_None)
      ultimately show ?thesis using assms(2,3) by (auto simp: used_def split: option.splits)
    next
      case False
      then have "gate_dm code sender chat now a = (a, Drop)"
        using None open_gate by (auto simp: gate_dm_def split: option.split)
      then show ?thesis using assms(2) by simp
    qed
  next
    case (Some r)
    then obtain ps g where r: "resend sender (ac_pending a) = Some (ps, g)" by (cases r) auto
    then have g: "gate_dm code sender chat now a = (a\<lparr>ac_pending := ps\<rparr>, g)"
      using open_gate by (auto simp: gate_dm_def)
    from resend_row [OF r] obtain c e where ce: "row_of sender_of sender (ac_pending a) = Some (c, e)"
      "if max_pairing_replies \<le> pe_replies e then g = Drop \<and> ps = ac_pending a
       else g = Pair c True \<and> row_of sender_of sender ps = Some (c, e\<lparr>pe_replies := pe_replies e + 1\<rparr>)"
      "\<forall>s'. s' \<noteq> sender \<longrightarrow> row_of sender_of s' ps = row_of sender_of s' (ac_pending a)" by blast
    show ?thesis
    proof (cases "s = sender")
      case True
      then show ?thesis using ce(1,2) assms(2) by (auto simp: g used_def split: if_splits)
    next
      case False
      then show ?thesis using ce(3) assms(2) by (simp add: g used_def)
    qed
  qed
qed

lemma pairs_to_Cons: "pairs_to s (x # gs) = pairs_to s [x] + pairs_to s gs"
  by (cases x) simp

text \<open>The codes a run draws are new: none is pending when it is drawn.\<close>

fun fresh_codes :: "(int \<times> utext option \<times> utext \<times> utext) list \<Rightarrow> access \<Rightarrow> bool" where
  "fresh_codes [] a = True"
| "fresh_codes ((now, code, sender, chat) # ms) a =
     ((case code of None \<Rightarrow> True | Some c \<Rightarrow> c \<notin> fst ` set (ac_pending (fst (prune_expired now a))))
      \<and> fresh_codes ms (fst (gate_dm code sender chat now (fst (prune_expired now a)))))"

lemma used_dm_run:
  assumes "access_inv a" "used till s a n" "fresh_codes ms a"
    and "\<forall>(now, _) \<in> set ms. now < till \<and> till \<le> now + pairing_code_ttl_ms"
  shows "used till s (fst (dm_run ms a)) (n + pairs_to s (snd (dm_run ms a))) \<and> access_inv (fst (dm_run ms a))"
  using assms
proof (induction ms arbitrary: a n)
  case (Cons m ms)
  obtain now code sender chat where m: "m = (now, code, sender, chat)" by (cases m)
  let ?a = "fst (prune_expired now a)"
  let ?g = "gate_dm code sender chat now ?a"
  have a: "access_inv ?a" "used till s ?a n"
    using Cons.prems m by (simp_all add: inv_prune used_prune)
  have "till \<le> now + pairing_code_ttl_ms" using Cons.prems(4) m by simp
  moreover have "c \<notin> fst ` set (ac_pending ?a)" if "code = Some c" for c
    using Cons.prems(3) m that by simp
  ultimately have "used till s (fst ?g) (n + pairs_to s [(sender, snd ?g)])"
    by (rule used_gate [OF a])
  from Cons.IH [OF inv_gate [OF a(1)] this] Cons.prems(3,4) m show ?case
    by (simp add: split_beta Let_def add.assoc)
qed simp

section \<open>Properties\<close>


definition stranger_asked :: access where
  "stranger_asked = access_run (Inbound 0 [(Some (of_str ''abc123''), of_str ''42'', of_str ''42'')]) default_access"


text \<open>
  the pairing table stays small and sane in every reachable state: at most three codes
  pending, in key order without duplicates, at most one per sender, each with one or two
  replies spent; and the allowlist has no duplicates.
\<close>

theorem pairing_table_bounded:
  assumes "access_step\<^sup>*\<^sup>* default_access a"
  shows "length (ac_pending a) \<le> 3 \<and> sorted_wrt (<) (map fst (ac_pending a))
    \<and> distinct (map sender_of (ac_pending a)) \<and> distinct (ac_allow a)
    \<and> (\<forall>(_, e) \<in> set (ac_pending a). pe_replies e \<in> {1, 2})"
  using gatekeeper.reachable_inv [OF refl assms]
  by (auto simp: access_inv_def pending_cap_def max_pairing_replies_def)

theorem pairing_table_bounded_witness:
  "length (ac_pending stranger_asked) \<le> 3 \<and> ac_pending stranger_asked \<noteq> []"
proof -
  have "access_step\<^sup>*\<^sup>* default_access stranger_asked"
    unfolding stranger_asked_def by (intro r_into_rtranclp access_stepI)
  moreover have "ac_pending stranger_asked \<noteq> []" by code_simp
  ultimately show ?thesis using pairing_table_bounded by blast
qed

text \<open>
  C18: a stranger who is not yet pending can make the bot answer at most twice within the
  hour a code lives, however many messages it sends and whatever the other senders do in
  between (the codes drawn being new ones).
\<close>

theorem stranger_gets_two_replies:
  assumes "access_step\<^sup>*\<^sup>* default_access a" and "s \<notin> sender_of ` set (ac_pending a)"
    and "fresh_codes ms a" and "\<forall>(now, _) \<in> set ms. start \<le> now \<and> now < start + 3600000"
  shows "pairs_to s (snd (dm_run ms a)) \<le> 2"
proof -
  have inv: "access_inv a" using gatekeeper.reachable_inv [OF refl assms(1)] .
  have "used (start + 3600000) s a 0" using assms(2) by (simp add: used_def row_of_None [symmetric])
  moreover have "\<forall>(now, _) \<in> set ms. now < start + 3600000 \<and> start + 3600000 \<le> now + pairing_code_ttl_ms"
    using assms(4) by (auto simp: pairing_code_ttl_ms_def)
  ultimately have r: "used (start + 3600000) s (fst (dm_run ms a)) (pairs_to s (snd (dm_run ms a)))"
    "access_inv (fst (dm_run ms a))" using used_dm_run [OF inv _ assms(3)] by fastforce+
  show ?thesis
  proof (cases "row_of sender_of s (ac_pending (fst (dm_run ms a)))")
    case None
    with r(1) show ?thesis by (simp add: used_def)
  next
    case (Some ce)
    with r row_of_Some [OF Some] show ?thesis
      by (auto simp: used_def access_inv_def max_pairing_replies_def)
  qed
qed

theorem stranger_gets_two_replies_witness:
  "pairs_to (of_str ''42'') (snd (dm_run
     (map (\<lambda>i. (int i, Some [i], of_str ''42'', of_str ''42'')) [10, 11, 12, 13]) default_access)) \<le> 2"
proof (rule stranger_gets_two_replies [where start = 10])
  show "access_step\<^sup>*\<^sup>* default_access default_access" by simp
  show "of_str ''42'' \<notin> sender_of ` set (ac_pending default_access)" by (simp add: default_access_def)
  show "fresh_codes (map (\<lambda>i. (int i, Some [i], of_str ''42'', of_str ''42'')) [10, 11, 12, 13])
    default_access" by code_simp
qed auto

end
