(* ===== verification/Pool.thy ===== *)
theory Pool
  imports Registry Json "HOL-Library.Product_Lexorder"
begin

text \<open>
  The worker pool (\<open>src/daemon/pool.rs\<close>): sessions that joined a pool, the jobs leased to
  them, the files of a job, the sweep that expires leases, retires lost workers and forgets
  old jobs, and the clearing of one worker's context.

  What the code takes from outside is the record \<open>pool_env\<close>: files on the daemon's host,
  base64, \<open>serde_json\<close>, the directory name derived from the SHA-256 of a request id, and
  whether that directory can be written. The sessions are the rows of the agent registry.
\<close>

record pool_env =
  host_file :: "string \<Rightarrow> string option"
  b64 :: "string \<Rightarrow> string"
  unb64 :: "string \<Rightarrow> string option"
  ser_pretty :: "json \<Rightarrow> string"
  ser :: "json \<Rightarrow> string"
  des :: "string \<Rightarrow> json option"
  job_dir :: "string \<Rightarrow> string"
  disk_ok :: "string \<Rightarrow> bool"

definition default_timeout_ms :: int where "default_timeout_ms = 480000"
definition max_timeout_ms :: int where "max_timeout_ms = 900000"
definition keep_after_read_ms :: int where "keep_after_read_ms = 600000"
definition keep_unread_ms :: int where "keep_unread_ms = 86400000"
definition lost_grace_ms :: int where "lost_grace_ms = 15000"
definition offline_shown_ms :: int where "offline_shown_ms = 3600000"
definition clear_timeout_ms :: int where "clear_timeout_ms = 60000"

text \<open>\<open>CLAUDEBASE_POOL_SUSPECT_COOLDOWN_MS\<close>, parsed, or the default.\<close>

definition suspect_cooldown_ms :: "int option \<Rightarrow> int" where
  "suspect_cooldown_ms env = (case env of Some v \<Rightarrow> if 0 \<le> v then v else 480000 | None \<Rightarrow> 480000)"

section \<open>Tables\<close>

record member =
  pm_agent :: string
  pm_pool :: string
  pm_capacity :: int
  pm_suspect :: int
  pm_joined :: int
  pm_assigned :: "int option"
  pm_suspect_since :: "int option"
  pm_clearing :: "int option"

record job =
  pj_id :: string
  pj_pool :: string
  pj_worker :: string
  pj_call :: "string option"
  pj_state :: string
  pj_dir :: string
  pj_created :: int
  pj_expires :: int
  pj_finished :: "int option"
  pj_read :: "int option"
  pj_gone :: "int option"
  pj_result :: "string option"
  pj_error :: "string option"
  pj_message :: "string option"
  pj_attempts :: int

record pool_db =
  members :: "member rows"
  jobs :: "job rows"
  files :: "string \<rightharpoonup> (string \<times> string) list"

datatype pool_error =
    BadPool | BadReqId | NoReqId | NoPayload | BadTimeout | BadImage nat | DiskError | NoSuchJob
  | OtherSession | NothingToDo string | NotAWorker | NotYours | NoSession | NoResult | UnknownTool string

section \<open>Names\<close>

definition check_name :: "string \<Rightarrow> nat \<Rightarrow> string \<Rightarrow> bool" where
  "check_name s mx extra \<longleftrightarrow> s \<noteq> [] \<and> length s \<le> mx
     \<and> list_all (\<lambda>c. is_ascii_alnum (of_char c) \<or> c = CHR ''-'' \<or> c = CHR ''_'' \<or> c \<in> set extra) s"

definition check_pool :: "string \<Rightarrow> bool" where "check_pool p = check_name p 64 []"

definition check_req_id :: "string \<Rightarrow> bool" where "check_req_id r = check_name r 128 ''.:''"

section \<open>Members and workers\<close>

definition join :: "string \<Rightarrow> string \<Rightarrow> int \<Rightarrow> int \<Rightarrow> pool_db \<Rightarrow> pool_error + pool_db" where
  "join aid pool capacity now d =
     (if \<not> check_pool pool then Inl BadPool
      else let cap = max 1 (min 16 capacity)
           in Inr (d\<lparr>members := upsert pm_agent
                \<lparr>pm_agent = aid, pm_pool = pool, pm_capacity = cap, pm_suspect = 0, pm_joined = now,
                 pm_assigned = None, pm_suspect_since = None, pm_clearing = None\<rparr>
                (\<lambda>m. m\<lparr>pm_pool := pool, pm_capacity := cap\<rparr>) (members d)\<rparr>))"

definition pool_of :: "string \<Rightarrow> pool_db \<Rightarrow> string option" where
  "pool_of aid d = map_option pm_pool (row_of pm_agent aid (members d))"

record worker =
  w_agent :: string
  w_nick :: string
  w_alive :: bool
  w_capacity :: int
  w_suspect :: bool
  w_clearing :: int
  w_seen :: int
  w_assigned :: int
  w_leased :: "string list"

definition worker_state :: "int \<Rightarrow> worker \<Rightarrow> string" where
  "worker_state now w =
     (if \<not> w_alive w then ''offline''
      else if w_suspect w then ''suspect''
      else if now < w_clearing w then ''clearing''
      else if w_capacity w \<le> int (length (w_leased w)) then ''busy'' else ''free'')"

definition or_zero :: "int option \<Rightarrow> int" where
  "or_zero x = (case x of None \<Rightarrow> 0 | Some n \<Rightarrow> n)"

definition leased_to :: "string \<Rightarrow> job rows \<Rightarrow> string list" where
  "leased_to aid js = map pj_id (sort_key pj_created (filter (\<lambda>j. pj_worker j = aid \<and> pj_state j = ''leased'') js))"

definition worker_of :: "agent_row rows \<Rightarrow> job rows \<Rightarrow> member \<Rightarrow> worker" where
  "worker_of reg js m =
     (let r = row_of ar_id (pm_agent m) reg in
      \<lparr>w_agent = pm_agent m,
       w_nick = (case r of None \<Rightarrow> pm_agent m | Some a \<Rightarrow> ar_name a),
       w_alive = (case r of None \<Rightarrow> False | Some a \<Rightarrow> alive a),
       w_capacity = pm_capacity m, w_suspect = (pm_suspect m \<noteq> 0),
       w_clearing = or_zero (pm_clearing m),
       w_seen = (case r of None \<Rightarrow> 0 | Some a \<Rightarrow> ar_pinged a),
       w_assigned = or_zero (pm_assigned m),
       w_leased = leased_to (pm_agent m) js\<rparr>)"

definition workers :: "agent_row rows \<Rightarrow> string \<Rightarrow> pool_db \<Rightarrow> worker list" where
  "workers reg pool d = map (worker_of reg (jobs d)) (filter (\<lambda>m. pm_pool m = pool) (members d))"

definition workers_json :: "agent_row rows \<Rightarrow> string \<Rightarrow> int \<Rightarrow> pool_db \<Rightarrow> json option" where
  "workers_json reg pool now d =
     (let ws = workers reg pool d in
      if ws = [] then None
      else let shown = filter (\<lambda>w. w_alive w \<or> now - w_seen w < offline_shown_ms) ws;
               free = length (filter (\<lambda>w. worker_state now w = ''free'') shown)
           in Some (JObj [(''pool'', JStr pool), (''free'', JNum (int free)),
                (''workers'', JArr (map (\<lambda>w. JObj [(''nick'', JStr (w_nick w)),
                   (''agent_id'', JStr (w_agent w)), (''state'', JStr (worker_state now w)),
                   (''capacity'', JNum (w_capacity w)), (''in_flight'', JNum (int (length (w_leased w)))),
                   (''req_ids'', JArr (map JStr (w_leased w))),
                   (''last_seen_ms'', JNum (w_seen w))]) shown))]))"

section \<open>Jobs\<close>

definition retryable :: "string \<Rightarrow> string option \<Rightarrow> bool" where
  "retryable state err \<longleftrightarrow> state = ''expired'' \<or> state = ''failed'' \<and> err = Some ''worker_lost''"

definition is_final :: "string \<Rightarrow> bool" where
  "is_final s \<longleftrightarrow> s = ''done'' \<or> s = ''failed'' \<or> s = ''expired'' \<or> s = ''cancelled''"

definition job_value :: "pool_env \<Rightarrow> agent_row rows \<Rightarrow> job \<Rightarrow> json" where
  "job_value env reg j = JObj (
     [(''req_id'', JStr (pj_id j)), (''state'', JStr (pj_state j)),
      (''worker'', JStr (case row_of ar_id (pj_worker j) reg of None \<Rightarrow> pj_worker j | Some a \<Rightarrow> ar_name a)),
      (''worker_id'', JStr (pj_worker j)), (''expires_at_ms'', JNum (pj_expires j)),
      (''call_type'', jopt JStr (pj_call j)), (''attempts'', JNum (pj_attempts j)),
      (''retryable'', JBool (retryable (pj_state j) (pj_error j)))]
     @ (case pj_finished j of None \<Rightarrow> [] | Some f \<Rightarrow> [(''duration_ms'', JNum (f - pj_created j))])
     @ (case pj_result j of None \<Rightarrow> [] | Some r \<Rightarrow>
         [(''result'', case des env r of None \<Rightarrow> JStr r | Some v \<Rightarrow> v)])
     @ (case pj_error j of None \<Rightarrow> [] | Some e \<Rightarrow> [(''error'', JStr e)])
     @ (case pj_message j of None \<Rightarrow> [] | Some m \<Rightarrow> [(''message'', JStr m)]))"

definition job_json :: "pool_env \<Rightarrow> agent_row rows \<Rightarrow> string \<Rightarrow> pool_db \<Rightarrow> json option" where
  "job_json env reg rid d = map_option (job_value env reg) (row_of pj_id rid (jobs d))"

section \<open>Images\<close>

record image =
  im_ext :: string
  im_mime :: string
  im_bytes :: string

definition ext_for :: "string \<Rightarrow> string" where
  "ext_for m =
     (if m = ''image/jpeg'' \<or> m = ''image/jpg'' then ''jpg''
      else if m = ''image/png'' then ''png''
      else if m = ''image/webp'' then ''webp''
      else if m = ''image/gif'' then ''gif'' else ''bin'')"

definition mime_for :: "string \<Rightarrow> string" where
  "mime_for path =
     (let l = ascii_lower path in
      if ends_with l ''.jpg'' \<or> ends_with l ''.jpeg'' then ''image/jpeg''
      else if ends_with l ''.png'' then ''image/png''
      else if ends_with l ''.webp'' then ''image/webp''
      else if ends_with l ''.gif'' then ''image/gif''
      else ''application/octet-stream'')"

definition read_image :: "pool_env \<Rightarrow> json \<Rightarrow> (string \<times> string) option" where
  "read_image env img =
     (case get_str img ''path'' of
        Some path \<Rightarrow>
          (case host_file env path of None \<Rightarrow> None
           | Some b \<Rightarrow> Some (case get_str img ''mime'' of Some m \<Rightarrow> m | None \<Rightarrow> mime_for path, b))
      | None \<Rightarrow>
          (case get_str img ''base64'' of
             Some t \<Rightarrow>
               (case unb64 env t of None \<Rightarrow> None
                | Some b \<Rightarrow> Some (case get_str img ''mime'' of Some m \<Rightarrow> m | None \<Rightarrow> ''image/jpeg'', b))
           | None \<Rightarrow> None))"

fun read_images :: "pool_env \<Rightarrow> nat \<Rightarrow> json list \<Rightarrow> pool_error + image list" where
  "read_images env i [] = Inr []"
| "read_images env i (v # vs) =
     (case read_image env v of None \<Rightarrow> Inl (BadImage i)
      | Some (mime, b) \<Rightarrow>
          if \<not> starts_with mime ''image/'' then Inl (BadImage i)
          else case read_images env (Suc i) vs of Inl e \<Rightarrow> Inl e
               | Inr is \<Rightarrow> Inr (\<lparr>im_ext = ext_for mime, im_mime = mime, im_bytes = b\<rparr> # is))"

definition pad2 :: "nat \<Rightarrow> string" where
  "pad2 n = (if n < 10 then CHR ''0'' # dec n else dec n)"

definition image_name :: "nat \<Rightarrow> image \<Rightarrow> string" where
  "image_name i im = ''image-'' @ pad2 (i + 1) @ ''.'' @ im_ext im"

definition image_list :: "image list \<Rightarrow> json" where
  "image_list imgs = JArr (map (\<lambda>(i, im).
     JObj [(''file'', JStr (image_name i im)), (''mime'', JStr (im_mime im))]) (enumerate 0 imgs))"

definition job_files :: "pool_env \<Rightarrow> json \<Rightarrow> image list \<Rightarrow> (string \<times> string) list" where
  "job_files env payload imgs =
     map (\<lambda>(i, im). (image_name i im, im_bytes im)) (enumerate 0 imgs)
     @ [(''payload.json'', ser_pretty env payload),
        (''images.json'', ser env (image_list imgs))]"

section \<open>Dispatch\<close>

datatype dispatch_result =
    Leased json string string
  | Existing json
  | NoFreeWorker nat nat
  | WorkerBusy string "string list"
  | WorkerUnavailable string
  | NoSuchPool

text \<open>\<open>Iterator::min_by_key\<close>: the first of the least.\<close>

fun min_by :: "('a \<Rightarrow> 'k::linorder) \<Rightarrow> 'a list \<Rightarrow> 'a option" where
  "min_by f [] = None"
| "min_by f (x # xs) = (case min_by f xs of None \<Rightarrow> Some x | Some y \<Rightarrow> if f x \<le> f y then Some x else Some y)"

definition pick :: "int \<Rightarrow> string option \<Rightarrow> worker list \<Rightarrow> dispatch_result + worker" where
  "pick now target ws =
     (case target of
        Some i \<Rightarrow>
          (case find (\<lambda>w. w_agent w = i) ws of
             None \<Rightarrow> Inl (WorkerUnavailable ''unknown'')
           | Some w \<Rightarrow>
               let s = worker_state now w
               in if s = ''free'' then Inr w
                  else if s = ''busy'' \<or> s = ''clearing'' then Inl (WorkerBusy s (w_leased w))
                  else Inl (WorkerUnavailable s))
      | None \<Rightarrow>
          (case min_by (\<lambda>w. (length (w_leased w), w_assigned w))
                  (filter (\<lambda>w. worker_state now w = ''free'') ws) of
             Some w \<Rightarrow> Inr w
           | None \<Rightarrow> Inl (NoFreeWorker 0 (length (filter (\<lambda>w. worker_state now w \<in> {''busy'', ''suspect'', ''clearing''}) ws)))))"

definition job_line :: "string \<Rightarrow> nat \<Rightarrow> string" where
  "job_line rid n =
     ''claudebase pool job '' @ rid @ '' -- the payload and '' @ dec n
     @ '' image(s); answer with: claudebase pool reply '' @ rid
     @ '' (JSON on stdin), or claudebase pool fail '' @ rid @ '' \"<reason>\"''"

definition new_job ::
  "pool_env \<Rightarrow> string \<Rightarrow> string \<Rightarrow> string \<Rightarrow> string option \<Rightarrow> int \<Rightarrow> int \<Rightarrow> int \<Rightarrow> job" where
  "new_job env rid pool wid call now timeout attempts =
     \<lparr>pj_id = rid, pj_pool = pool, pj_worker = wid, pj_call = call, pj_state = ''leased'',
      pj_dir = job_dir env rid, pj_created = now, pj_expires = now + timeout, pj_finished = None,
      pj_read = None, pj_gone = None, pj_result = None, pj_error = None, pj_message = None,
      pj_attempts = attempts\<rparr>"

text \<open>The checks a dispatch passes before it looks for a worker.\<close>

definition dispatch_timeout :: "json \<Rightarrow> pool_error + int" where
  "dispatch_timeout body =
     (let t = (case get_i64 body ''timeout_ms'' of Some v \<Rightarrow> v | None \<Rightarrow> default_timeout_ms)
      in if 1000 \<le> t \<and> t \<le> max_timeout_ms then Inr t else Inl BadTimeout)"

definition call_type :: "json \<Rightarrow> string option" where
  "call_type payload =
     (case Option.bind (pointer [''meta'', ''callType''] payload) as_str of
        Some c \<Rightarrow> if check_name c 64 [] then Some c else None | None \<Rightarrow> None)"

definition images_of :: "json \<Rightarrow> json list" where
  "images_of body = (case Option.bind (jget body ''images'') as_array of Some xs \<Rightarrow> xs | None \<Rightarrow> [])"

definition target_of :: "json \<Rightarrow> string option" where
  "target_of body = (case get_str body ''worker_id'' of Some s \<Rightarrow> if s = [] then None else Some s | None \<Rightarrow> None)"

definition lease ::
  "pool_env \<Rightarrow> agent_row rows \<Rightarrow> string \<Rightarrow> string \<Rightarrow> worker \<Rightarrow> json \<Rightarrow> image list \<Rightarrow> int \<Rightarrow> int \<Rightarrow> int
     \<Rightarrow> pool_db \<Rightarrow> pool_db \<times> (pool_error + dispatch_result)" where
  "lease env reg rid pool w payload imgs timeout attempts now d =
     (let dir = job_dir env rid; d0 = d\<lparr>files := (files d)(dir := None)\<rparr> in
      if \<not> disk_ok env dir then (d0, Inl DiskError)
      else
        let j = new_job env rid pool (w_agent w) (call_type payload) now timeout attempts;
            d1 = d0\<lparr>files := (files d0)(dir \<mapsto> job_files env payload imgs),
                    jobs := ins_replace pj_id j (jobs d0),
                    members := upd_where (\<lambda>m. pm_agent m = w_agent w) (\<lambda>m. m\<lparr>pm_assigned := Some now\<rparr>) (members d0)\<rparr>
        in (d1, Inr (Leased (job_value env reg j) (w_agent w) (job_line rid (length imgs)))))"

definition dispatch_new ::
  "pool_env \<Rightarrow> agent_row rows \<Rightarrow> string \<Rightarrow> string \<Rightarrow> json \<Rightarrow> int \<Rightarrow> int \<Rightarrow> pool_db
     \<Rightarrow> pool_db \<times> (pool_error + dispatch_result)" where
  "dispatch_new env reg pool rid body attempts now d =
     (case jget body ''payload'' of None \<Rightarrow> (d, Inl NoPayload)
      | Some payload \<Rightarrow>
        (case dispatch_timeout body of Inl e \<Rightarrow> (d, Inl e)
         | Inr timeout \<Rightarrow>
           (case read_images env 0 (images_of body) of Inl e \<Rightarrow> (d, Inl e)
            | Inr imgs \<Rightarrow>
              let ws = workers reg pool d in
              if ws = [] then (d, Inr NoSuchPool)
              else case pick now (target_of body) ws of Inl r \<Rightarrow> (d, Inr r)
                | Inr w \<Rightarrow> lease env reg rid pool w payload imgs timeout attempts now d)))"

definition dispatch ::
  "pool_env \<Rightarrow> agent_row rows \<Rightarrow> string \<Rightarrow> json \<Rightarrow> int \<Rightarrow> pool_db \<Rightarrow> pool_db \<times> (pool_error + dispatch_result)" where
  "dispatch env reg pool body now d =
     (if \<not> check_pool pool then (d, Inl BadPool)
      else case get_str body ''req_id'' of None \<Rightarrow> (d, Inl NoReqId)
      | Some rid \<Rightarrow>
        if \<not> check_req_id rid then (d, Inl BadReqId)
        else case job_json env reg rid d of
          None \<Rightarrow> dispatch_new env reg pool rid body 1 now d
        | Some existing \<Rightarrow>
            if get_bool existing ''retryable'' \<noteq> Some True then (d, Inr (Existing existing))
            else dispatch_new env reg pool rid body
              ((case get_i64 existing ''attempts'' of Some a \<Rightarrow> a | None \<Rightarrow> 1) + 1) now d)"

section \<open>The gateway's side\<close>

definition set_job :: "string \<Rightarrow> (job \<Rightarrow> job) \<Rightarrow> pool_db \<Rightarrow> pool_db" where
  "set_job rid f d = d\<lparr>jobs := upd_where (\<lambda>j. pj_id j = rid) f (jobs d)\<rparr>"

definition read_job :: "pool_env \<Rightarrow> agent_row rows \<Rightarrow> string \<Rightarrow> int \<Rightarrow> pool_db \<Rightarrow> pool_db \<times> json option" where
  "read_job env reg rid now d =
     (let v = job_json env reg rid d in
      case v of None \<Rightarrow> (d, None)
      | Some j \<Rightarrow>
          ((if is_final (case get_str j ''state'' of Some s \<Rightarrow> s | None \<Rightarrow> [])
            then d\<lparr>jobs := upd_where (\<lambda>j. pj_id j = rid \<and> pj_read j = None) (\<lambda>j. j\<lparr>pj_read := Some now\<rparr>) (jobs d)\<rparr>
            else d), v))"

definition cancel ::
  "pool_env \<Rightarrow> agent_row rows \<Rightarrow> string \<Rightarrow> int \<Rightarrow> pool_db \<Rightarrow> pool_db \<times> (string \<times> string \<times> json) option" where
  "cancel env reg rid now d =
     (case find (\<lambda>j. pj_id j = rid \<and> pj_state j = ''leased'') (jobs d) of
        None \<Rightarrow> (d, None)
      | Some j \<Rightarrow>
          let d' = set_job rid (\<lambda>j. j\<lparr>pj_state := ''cancelled'', pj_finished := Some now\<rparr>) d
          in (d', map_option (\<lambda>v. (pj_worker j, pj_pool j, v)) (job_json env reg rid d')))"

section \<open>The worker's side\<close>

definition owned_job :: "string \<Rightarrow> string \<Rightarrow> pool_db \<Rightarrow> pool_error + string \<times> string" where
  "owned_job aid rid d =
     (case row_of pj_id rid (jobs d) of None \<Rightarrow> Inl NoSuchJob
      | Some j \<Rightarrow> if pj_worker j \<noteq> aid then Inl OtherSession else Inr (pj_state j, pj_dir j))"

definition read_file :: "pool_db \<Rightarrow> string \<Rightarrow> string \<Rightarrow> string option" where
  "read_file d dir name = Option.bind (files d dir) (\<lambda>fs. map_of fs name)"

fun load_images :: "pool_env \<Rightarrow> pool_db \<Rightarrow> string \<Rightarrow> json list \<Rightarrow> pool_error + json list" where
  "load_images env d dir [] = Inr []"
| "load_images env d dir (m # ms) =
     (let file = (case get_str m ''file'' of Some f \<Rightarrow> f | None \<Rightarrow> []) in
      case read_file d dir file of None \<Rightarrow> Inl DiskError
      | Some b \<Rightarrow>
          (case load_images env d dir ms of Inl e \<Rightarrow> Inl e
           | Inr vs \<Rightarrow> Inr (JObj [(''file'', JStr file), (''mime'', jindex m ''mime''),
                                (''base64'', JStr (b64 env b))] # vs)))"

definition worker_job :: "pool_env \<Rightarrow> string \<Rightarrow> string \<Rightarrow> pool_db \<Rightarrow> pool_error + json" where
  "worker_job env aid rid d =
     (case owned_job aid rid d of Inl e \<Rightarrow> Inl e
      | Inr (state, dir) \<Rightarrow>
        if state \<noteq> ''leased'' then Inl (NothingToDo state)
        else case Option.bind (read_file d dir ''payload.json'') (des env) of None \<Rightarrow> Inl DiskError
        | Some payload \<Rightarrow>
          (case Option.bind (Option.bind (read_file d dir ''images.json'') (des env)) as_array of
             None \<Rightarrow> Inl DiskError
           | Some manifest \<Rightarrow>
             (case load_images env d dir manifest of Inl e \<Rightarrow> Inl e
              | Inr images \<Rightarrow>
                  Inr (JObj [(''req_id'', JStr rid),
                    (''call_type'', jopt JStr (Option.bind (row_of pj_id rid (jobs d)) pj_call)),
                    (''payload'', payload), (''images'', JArr images)]))))"

definition trust :: "string \<Rightarrow> pool_db \<Rightarrow> pool_db" where
  "trust aid d = d\<lparr>members := upd_where (\<lambda>m. pm_agent m = aid)
     (\<lambda>m. m\<lparr>pm_suspect := 0, pm_suspect_since := None\<rparr>) (members d)\<rparr>"

definition worker_reply :: "pool_env \<Rightarrow> string \<Rightarrow> string \<Rightarrow> json \<Rightarrow> int \<Rightarrow> pool_db \<Rightarrow> pool_db \<times> (pool_error + json)" where
  "worker_reply env aid rid result now d =
     (case owned_job aid rid d of Inl e \<Rightarrow> (d, Inl e)
      | Inr (state, _) \<Rightarrow>
        let d1 = trust aid d in
        if state = ''leased''
        then (set_job rid (\<lambda>j. j\<lparr>pj_state := ''done'', pj_result := Some (ser env result), pj_finished := Some now\<rparr>) d1,
              Inr (JObj [(''accepted'', JBool True), (''req_id'', JStr rid)]))
        else (d1, Inr (JObj [(''accepted'', JBool False), (''req_id'', JStr rid), (''state'', JStr state),
               (''note'', JStr ''too late: the job is no longer yours to answer; you are free for the next one'')])))"

definition worker_fail :: "string \<Rightarrow> string \<Rightarrow> string \<Rightarrow> int \<Rightarrow> pool_db \<Rightarrow> pool_db \<times> (pool_error + json)" where
  "worker_fail aid rid reason now d =
     (case owned_job aid rid d of Inl e \<Rightarrow> (d, Inl e)
      | Inr (state, _) \<Rightarrow>
        let d1 = trust aid d in
        (if state = ''leased''
         then set_job rid (\<lambda>j. j\<lparr>pj_state := ''failed'', pj_error := Some ''worker_failed'',
                pj_message := Some (take_chars 2000 reason), pj_finished := Some now\<rparr>) d1
         else d1,
         Inr (JObj [(''req_id'', JStr rid), (''failed'', JBool (state = ''leased'')),
           (''state'', JStr (if state = ''leased'' then ''failed'' else state))])))"

definition worker_ready :: "string \<Rightarrow> pool_db \<Rightarrow> pool_db \<times> (pool_error + json)" where
  "worker_ready aid d =
     (if aid \<in> pm_agent ` set (members d) then (trust aid d, Inr (JObj [(''ready'', JBool True)]))
      else (trust aid d, Inl NotAWorker))"

section \<open>Clearing a worker's context\<close>

datatype clear_start = Begin string | ClearBusy string "string list" | ClearUnavailable string | ClearNoPool

text \<open>\<open>seq\<close> is the process-wide counter.\<close>

definition begin_clear ::
  "agent_row rows \<Rightarrow> string \<Rightarrow> string \<Rightarrow> int \<Rightarrow> nat \<Rightarrow> pool_db \<Rightarrow> pool_db \<times> (pool_error + clear_start)" where
  "begin_clear reg pool wid now seq d =
     (if \<not> check_pool pool then (d, Inl BadPool)
      else let ws = workers reg pool d in
        if ws = [] then (d, Inr ClearNoPool)
        else case find (\<lambda>w. w_agent w = wid) ws of
          None \<Rightarrow> (d, Inr (ClearUnavailable ''unknown''))
        | Some w \<Rightarrow>
            let s = worker_state now w in
            if s = ''free'' \<and> w_leased w = [] then
              (d\<lparr>members := upd_where (\<lambda>m. pm_agent m = wid)
                   (\<lambda>m. m\<lparr>pm_clearing := Some (now + clear_timeout_ms + 5000)\<rparr>) (members d)\<rparr>,
               Inr (Begin (''clr_'' @ dec_int now @ ''_'' @ dec seq)))
            else if s = ''free'' \<or> s = ''busy'' then (d, Inr (ClearBusy ''busy'' (w_leased w)))
            else if s = ''clearing'' then (d, Inr (ClearBusy ''clearing'' []))
            else (d, Inr (ClearUnavailable s)))"

definition end_clear :: "string \<Rightarrow> pool_db \<Rightarrow> pool_db" where
  "end_clear wid d = d\<lparr>members := upd_where (\<lambda>m. pm_agent m = wid) (\<lambda>m. m\<lparr>pm_clearing := None\<rparr>) (members d)\<rparr>"

text \<open>The clears somebody waits for: \<open>clear_id\<close> to the worker asked.\<close>

definition worker_cleared ::
  "string \<Rightarrow> string \<Rightarrow> (string \<rightharpoonup> string) \<Rightarrow> (string \<rightharpoonup> string) \<times> (pool_error + bool)" where
  "worker_cleared aid cid clears =
     (case clears cid of
        None \<Rightarrow> (clears, Inr False)
      | Some w \<Rightarrow> if w = aid then (clears(cid := None), Inr True) else (clears, Inl NotYours))"

section \<open>The sweep\<close>

text \<open>
  The code reads the rows of each phase first and then updates them one by one by key; as
  the keys are unique, each phase is one statement here.
\<close>

definition sweep_expire :: "int \<Rightarrow> pool_db \<Rightarrow> pool_db \<times> bool" where
  "sweep_expire now d =
     (let p = (\<lambda>j. pj_state j = ''leased'' \<and> pj_expires j \<le> now);
          ws = set (map pj_worker (filter p (jobs d)))
      in (d\<lparr>jobs := upd_where p (\<lambda>j. j\<lparr>pj_state := ''expired'', pj_finished := Some now\<rparr>) (jobs d),
            members := upd_where (\<lambda>m. pm_agent m \<in> ws)
              (\<lambda>m. m\<lparr>pm_suspect := 1, pm_suspect_since := Some now\<rparr>) (members d)\<rparr>,
          list_ex p (jobs d)))"

definition sweep_cooldown :: "int option \<Rightarrow> int \<Rightarrow> pool_db \<Rightarrow> pool_db \<times> bool" where
  "sweep_cooldown cool now d =
     (let p = (\<lambda>m. pm_suspect m = 1 \<and> or_zero (pm_suspect_since m) \<le> now - suspect_cooldown_ms cool)
      in (d\<lparr>members := upd_where p (\<lambda>m. m\<lparr>pm_suspect := 0, pm_suspect_since := None\<rparr>) (members d)\<rparr>,
          0 < count_where p (members d)))"

definition agent_is_alive :: "agent_row rows \<Rightarrow> string \<Rightarrow> bool" where
  "agent_is_alive reg aid = (case row_of ar_id aid reg of None \<Rightarrow> False | Some a \<Rightarrow> alive a)"

definition lost_step :: "agent_row rows \<Rightarrow> int \<Rightarrow> job \<Rightarrow> job" where
  "lost_step reg now j =
     (if pj_state j \<noteq> ''leased'' then j
      else case (agent_is_alive reg (pj_worker j), pj_gone j) of
        (True, Some _) \<Rightarrow> j\<lparr>pj_gone := None\<rparr>
      | (False, None) \<Rightarrow> j\<lparr>pj_gone := Some now\<rparr>
      | (False, Some t) \<Rightarrow>
          if lost_grace_ms \<le> now - t
          then j\<lparr>pj_state := ''failed'', pj_error := Some ''worker_lost'', pj_finished := Some now\<rparr> else j
      | _ \<Rightarrow> j)"

definition sweep_lost :: "agent_row rows \<Rightarrow> int \<Rightarrow> pool_db \<Rightarrow> pool_db \<times> bool" where
  "sweep_lost reg now d =
     (d\<lparr>jobs := map (lost_step reg now) (jobs d)\<rparr>,
      list_ex (\<lambda>j. pj_state j = ''leased'' \<and> pj_state (lost_step reg now j) = ''failed'') (jobs d))"

definition forgotten :: "int \<Rightarrow> job \<Rightarrow> bool" where
  "forgotten now j \<longleftrightarrow> pj_state j \<noteq> ''leased'' \<and>
     ((case pj_read j of None \<Rightarrow> False | Some t \<Rightarrow> t \<le> now - keep_after_read_ms)
      \<or> (case pj_finished j of None \<Rightarrow> False | Some t \<Rightarrow> t \<le> now - keep_unread_ms))"

definition sweep_forget :: "int \<Rightarrow> pool_db \<Rightarrow> pool_db" where
  "sweep_forget now d =
     (let dirs = set (map pj_dir (filter (forgotten now) (jobs d)))
      in d\<lparr>jobs := del_where (forgotten now) (jobs d),
           files := (\<lambda>x. if x \<in> dirs then None else files d x)\<rparr>)"

definition sweep :: "agent_row rows \<Rightarrow> int option \<Rightarrow> int \<Rightarrow> pool_db \<Rightarrow> pool_db \<times> bool" where
  "sweep reg cool now d =
     (let (d1, c1) = sweep_expire now d;
          (d2, c2) = sweep_cooldown cool now d1;
          (d3, c3) = sweep_lost reg now d2
      in (sweep_forget now d3, c1 \<or> c2 \<or> c3))"

section \<open>The tools of the worker's command line\<close>

definition arg_str :: "json \<Rightarrow> string \<Rightarrow> string" where
  "arg_str args k = (case get_str args k of Some s \<Rightarrow> s | None \<Rightarrow> [])"

definition handle_tool ::
  "pool_env \<Rightarrow> agent_row rows \<Rightarrow> string \<Rightarrow> json \<Rightarrow> int \<Rightarrow> pool_db \<times> (string \<rightharpoonup> string)
     \<Rightarrow> (pool_db \<times> (string \<rightharpoonup> string)) \<times> (pool_error + json)" where
  "handle_tool env reg tool args now s =
     (let d = fst s; aid = arg_str args ''agent_id''; rid = arg_str args ''req_id'' in
      if aid = [] \<or> \<not> resolve_session_token aid (arg_str args ''session_token'') reg then (s, Inl NoSession)
      else if tool = ''pool_job'' then
        (s, if check_req_id rid then worker_job env aid rid d else Inl BadReqId)
      else if tool = ''pool_reply'' then
        (if \<not> check_req_id rid then (s, Inl BadReqId)
         else case jget args ''result'' of None \<Rightarrow> (s, Inl NoResult)
         | Some v \<Rightarrow> (let (d', r) = worker_reply env aid rid v now d in ((d', snd s), r)))
      else if tool = ''pool_fail'' then
        (if \<not> check_req_id rid then (s, Inl BadReqId)
         else let (d', r) = worker_fail aid rid (arg_str args ''reason'') now d in ((d', snd s), r))
      else if tool = ''pool_ready'' then
        (let (d', r) = worker_ready aid d in ((d', snd s), r))
      else if tool = ''pool_cleared'' then
        (let (c', r) = worker_cleared aid (arg_str args ''clear_id'') (snd s)
         in ((d, c'), case r of Inl e \<Rightarrow> Inl e
              | Inr True \<Rightarrow> Inr (JObj [(''ok'', JBool True)])
              | Inr False \<Rightarrow> Inr (JObj [(''ok'', JBool True),
                  (''note'', JStr ''nobody is waiting for this clear any more'')])))
      else (s, Inl (UnknownTool tool)))"

section \<open>Lemmas\<close>

lemma job_value_fields:
  "get_bool (job_value env reg j) ''retryable'' = Some (retryable (pj_state j) (pj_error j))"
  "get_str (job_value env reg j) ''state'' = Some (pj_state j)"
  "get_str (job_value env reg j) ''worker_id'' = Some (pj_worker j)"
  "jget (job_value env reg j) ''attempts'' = Some (JNum (pj_attempts j))"
  by (simp_all add: job_value_def get_bool_def)

lemma job_value_result:
  "pj_result j = Some r \<Longrightarrow> jindex (job_value env reg j) ''result'' = (case des env r of None \<Rightarrow> JStr r | Some v \<Rightarrow> v)"
  by (cases "pj_finished j") (simp_all add: job_value_def)

lemma min_by_None [simp]: "min_by f xs = None \<longleftrightarrow> xs = []"
  by (cases xs) (auto split: option.splits)

lemma min_by_in: "min_by f xs = Some x \<Longrightarrow> x \<in> set xs \<and> (\<forall>y \<in> set xs. f x \<le> f y)"
proof (induction xs arbitrary: x)
  case (Cons a xs)
  then show ?case
    by (cases "min_by f xs") (auto split: if_splits option.splits intro: order_trans)
qed simp

lemma pick_worker:
  assumes "pick now target ws = Inr w"
  shows "w \<in> set ws \<and> worker_state now w = ''free'' \<and> (\<forall>i. target = Some i \<longrightarrow> w_agent w = i)
    \<and> (target = None \<longrightarrow> (\<forall>v \<in> set ws. worker_state now v = ''free'' \<longrightarrow>
         (length (w_leased w), w_assigned w) \<le> (length (w_leased v), w_assigned v)))"
proof (cases target)
  case None
  with assms have "min_by (\<lambda>w. (length (w_leased w), w_assigned w))
      (filter (\<lambda>w. worker_state now w = ''free'') ws) = Some w"
    by (auto simp: pick_def split: option.splits)
  from min_by_in [OF this] None show ?thesis by auto
next
  case (Some i)
  with assms have "find (\<lambda>w. w_agent w = i) ws = Some w" "worker_state now w = ''free''"
    by (auto simp: pick_def Let_def split: option.splits if_splits)
  with find_SomeD [OF this(1)] Some show ?thesis by simp
qed

lemma free_worker:
  "worker_state now w = ''free'' \<longleftrightarrow>
    w_alive w \<and> \<not> w_suspect w \<and> w_clearing w \<le> now \<and> int (length (w_leased w)) < w_capacity w"
  by (auto simp: worker_state_def)

lemma filter_ins_replace:
  "(\<And>x. x \<in> set t \<Longrightarrow> key x = key r \<Longrightarrow> \<not> P x) \<Longrightarrow>
    filter P (ins_replace key r t) = filter P t @ (if P r then [r] else [])"
  by (induction t) (auto simp: ins_replace_def del_where_def)

lemma length_leased: "length (leased_to aid js) = length (filter (\<lambda>j. pj_worker j = aid \<and> pj_state j = ''leased'') js)"
  by (simp add: leased_to_def)

lemma lease_ok:
  assumes "lease env reg rid pool w payload imgs timeout attempts now d = (d', Inr r)"
  shows "r = Leased (job_value env reg (new_job env rid pool (w_agent w) (call_type payload) now timeout attempts))
      (w_agent w) (job_line rid (length imgs))
    \<and> jobs d' = ins_replace pj_id (new_job env rid pool (w_agent w) (call_type payload) now timeout attempts) (jobs d)
    \<and> members d' = upd_where (\<lambda>m. pm_agent m = w_agent w) (\<lambda>m. m\<lparr>pm_assigned := Some now\<rparr>) (members d)
    \<and> files d' = (files d)(job_dir env rid \<mapsto> job_files env payload imgs)"
  using assms by (auto simp: lease_def Let_def split: if_splits)

lemma dispatch_new_leased:
  assumes "dispatch_new env reg pool rid body attempts now d = (d', Inr (Leased v wid line))"
  shows "\<exists>payload timeout imgs w. jget body ''payload'' = Some payload \<and> dispatch_timeout body = Inr timeout
    \<and> read_images env 0 (images_of body) = Inr imgs \<and> pick now (target_of body) (workers reg pool d) = Inr w
    \<and> lease env reg rid pool w payload imgs timeout attempts now d = (d', Inr (Leased v wid line))"
  using assms
  by (auto simp: dispatch_new_def Let_def pick_def
      split: option.splits sum.splits if_splits)

lemma dispatch_leased:
  assumes "dispatch env reg pool body now d = (d', Inr (Leased v wid line))"
  shows "\<exists>rid attempts. get_str body ''req_id'' = Some rid \<and> check_req_id rid \<and> check_pool pool
    \<and> (\<forall>j. row_of pj_id rid (jobs d) = Some j \<longrightarrow> retryable (pj_state j) (pj_error j))
    \<and> (attempts = (case row_of pj_id rid (jobs d) of None \<Rightarrow> 1
         | Some j \<Rightarrow> (case as_i64 (JNum (pj_attempts j)) of Some a \<Rightarrow> a | None \<Rightarrow> 1) + 1))
    \<and> dispatch_new env reg pool rid body attempts now d = (d', Inr (Leased v wid line))"
proof -
  obtain rid where rid: "get_str body ''req_id'' = Some rid" "check_req_id rid" "check_pool pool"
    using assms by (auto simp: dispatch_def split: if_splits option.splits)
  show ?thesis
  proof (cases "row_of pj_id rid (jobs d)")
    case None
    with rid assms show ?thesis by (simp add: dispatch_def job_json_def)
  next
    case (Some j)
    then have jj: "job_json env reg rid d = Some (job_value env reg j)" by (simp add: job_json_def)
    have re: "retryable (pj_state j) (pj_error j)"
      using assms rid jj by (auto simp: dispatch_def job_value_fields split: if_splits)
    have "get_i64 (job_value env reg j) ''attempts'' = as_i64 (JNum (pj_attempts j))"
      by (simp only: get_i64_def job_value_fields bind.simps)
    with re rid jj assms Some show ?thesis
      by (auto simp: dispatch_def job_value_fields)
  qed
qed

lemma not_leased_if_retryable: "retryable s e \<Longrightarrow> s \<noteq> ''leased''"
  by (auto simp: retryable_def)

section \<open>The pool as a state machine\<close>

datatype pool_op =
    PJoin string string int int
  | PDispatch "agent_row rows" string json int
  | PRead "agent_row rows" string int
  | PCancel "agent_row rows" string int
  | PReply string string json int
  | PFail string string string int
  | PReady string
  | PBeginClear "agent_row rows" string string int nat
  | PEndClear string
  | PSweep "agent_row rows" "int option" int

fun pool_run :: "pool_env \<Rightarrow> pool_op \<Rightarrow> pool_db \<Rightarrow> pool_db" where
  "pool_run env (PJoin aid pool cap now) d = (case join aid pool cap now d of Inl _ \<Rightarrow> d | Inr d' \<Rightarrow> d')"
| "pool_run env (PDispatch reg pool body now) d = fst (dispatch env reg pool body now d)"
| "pool_run env (PRead reg rid now) d = fst (read_job env reg rid now d)"
| "pool_run env (PCancel reg rid now) d = fst (cancel env reg rid now d)"
| "pool_run env (PReply aid rid v now) d = fst (worker_reply env aid rid v now d)"
| "pool_run env (PFail aid rid reason now) d = fst (worker_fail aid rid reason now d)"
| "pool_run env (PReady aid) d = fst (worker_ready aid d)"
| "pool_run env (PBeginClear reg pool wid now seq) d = fst (begin_clear reg pool wid now seq d)"
| "pool_run env (PEndClear wid) d = end_clear wid d"
| "pool_run env (PSweep reg cool now) d = fst (sweep reg cool now d)"

inductive pool_step :: "pool_env \<Rightarrow> pool_db \<Rightarrow> pool_db \<Rightarrow> bool" for env where
  pool_stepI: "pool_step env d (pool_run env op d)"

inductive_cases pool_stepE: "pool_step env d d'"

definition empty_pool :: pool_db where
  "empty_pool = \<lparr>members = [], jobs = [], files = Map.empty\<rparr>"

text \<open>A job that is out has no outcome; one that has an answer is done.\<close>

definition job_ok :: "job \<Rightarrow> bool" where
  "job_ok j \<longleftrightarrow> pj_state j \<in> {''leased'', ''done'', ''failed'', ''expired'', ''cancelled''}
     \<and> (pj_state j = ''leased'' \<longleftrightarrow> pj_finished j = None)
     \<and> (pj_state j = ''leased'' \<longrightarrow> pj_read j = None)
     \<and> (pj_state j = ''done'' \<longleftrightarrow> pj_result j \<noteq> None)
     \<and> (pj_state j = ''failed'' \<longleftrightarrow> pj_error j \<noteq> None)"

definition pool_inv :: "pool_db \<Rightarrow> bool" where
  "pool_inv d \<longleftrightarrow> pk pj_id (jobs d) \<and> pk pm_agent (members d) \<and> (\<forall>j \<in> set (jobs d). job_ok j)
     \<and> (\<forall>m \<in> set (members d). 1 \<le> pm_capacity m \<and> pm_capacity m \<le> 16)
     \<and> (\<forall>aid. length (leased_to aid (jobs d)) \<le> 16)"

text \<open>Dropping jobs, or moving jobs out of the lease, keeps the load bound.\<close>

lemma load_map:
  assumes "\<And>j. pj_state (f j) = ''leased'' \<Longrightarrow> pj_state j = ''leased''" "\<And>j. pj_worker (f j) = pj_worker j"
  shows "length (leased_to aid (map f js)) \<le> length (leased_to aid js)"
  using assms by (induction js) (auto simp: length_leased)

lemma load_upd:
  assumes "\<And>j. pj_state (f j) = ''leased'' \<Longrightarrow> pj_state j = ''leased''" "\<And>j. pj_worker (f j) = pj_worker j"
  shows "length (leased_to aid (upd_where p f js)) \<le> length (leased_to aid js)"
  unfolding upd_where_def by (rule load_map) (auto simp: assms split: if_splits)

lemma load_del: "length (leased_to aid (del_where p js)) \<le> length (leased_to aid js)"
  by (induction js) (auto simp: length_leased)

lemma inv_load: "pool_inv d \<Longrightarrow> length (leased_to aid (jobs d)) \<le> 16"
  unfolding pool_inv_def by blast

lemma inv_jobs_upd:
  assumes "pool_inv d" "\<And>j. j \<in> set (jobs d) \<Longrightarrow> p j \<Longrightarrow> job_ok j \<Longrightarrow> job_ok (f j)"
    and "\<And>j. pj_id (f j) = pj_id j" "\<And>j. pj_worker (f j) = pj_worker j"
    and "\<And>j. pj_state (f j) = ''leased'' \<Longrightarrow> pj_state j = ''leased''"
  shows "pool_inv (d\<lparr>jobs := upd_where p f (jobs d)\<rparr>)"
proof -
  have "length (leased_to aid (upd_where p f (jobs d))) \<le> 16" for aid
    using inv_load [OF assms(1)] order_trans [OF load_upd [OF assms(5,4)]] by blast
  then show ?thesis using assms(1,2,3)
    by (auto simp: pool_inv_def pk_upd_where ball_upd_where)
qed

lemma inv_members_upd:
  assumes "pool_inv d" "\<And>m. pm_agent (f m) = pm_agent m" "\<And>m. pm_capacity (f m) = pm_capacity m"
  shows "pool_inv (d\<lparr>members := upd_where p f (members d)\<rparr>)"
  using assms by (auto simp: pool_inv_def pk_upd_where ball_upd_where)

lemma inv_trust: "pool_inv d \<Longrightarrow> pool_inv (trust aid d)"
  unfolding trust_def by (rule inv_members_upd) simp_all

lemma inv_files [simp]: "pool_inv (d\<lparr>files := f\<rparr>) = pool_inv d"
  by (simp add: pool_inv_def)

lemma inv_join:
  assumes "pool_inv d" "join aid pool cap now d = Inr d'"
  shows "pool_inv d'"
proof -
  let ?c = "max 1 (min 16 cap)"
  have c: "1 \<le> ?c \<and> ?c \<le> 16" by auto
  show ?thesis
  proof (cases "aid \<in> pm_agent ` set (members d)")
    case True
    then have "d' = d\<lparr>members := upd_where (\<lambda>m. pm_agent m = aid)
        (\<lambda>m. m\<lparr>pm_pool := pool, pm_capacity := ?c\<rparr>) (members d)\<rparr>"
      using assms(2) by (simp add: join_def upsert_def Let_def split: if_splits)
    then show ?thesis using assms(1) c by (simp add: pool_inv_def pk_upd_where ball_upd_where)
  next
    case False
    then have "\<exists>m. d' = d\<lparr>members := members d @ [m]\<rparr> \<and> pm_agent m = aid \<and> pm_capacity m = ?c"
      using assms(2) by (auto simp: join_def upsert_def Let_def split: if_splits)
    then show ?thesis using assms(1) False c by (auto simp: pool_inv_def pk_snoc)
  qed
qed

lemma inv_set_job:
  assumes "pool_inv d" "\<And>j. job_ok j \<Longrightarrow> row_of pj_id rid (jobs d) = Some j \<Longrightarrow> job_ok (f j)"
    and "\<And>j. pj_id (f j) = pj_id j" "\<And>j. pj_worker (f j) = pj_worker j"
    and "\<And>j. pj_state (f j) \<noteq> ''leased''"
  shows "pool_inv (set_job rid f d)"
  unfolding set_job_def
proof (rule inv_jobs_upd [OF assms(1)])
  fix j assume "j \<in> set (jobs d)" "pj_id j = rid" "job_ok j"
  then show "job_ok (f j)" using assms(1,2) by (auto simp: pool_inv_def row_of_pk)
qed (use assms in auto)

lemma inv_cancel: "pool_inv d \<Longrightarrow> pool_inv (fst (cancel env reg rid now d))"
proof (cases "find (\<lambda>j. pj_id j = rid \<and> pj_state j = ''leased'') (jobs d)")
  case (Some j0)
  assume inv: "pool_inv d"
  from find_SomeD [OF Some] have j0: "row_of pj_id rid (jobs d) = Some j0" "pj_state j0 = ''leased''"
    using inv row_of_pk [of pj_id "jobs d" j0] by (auto simp: pool_inv_def)
  have "pool_inv (set_job rid (\<lambda>j. j\<lparr>pj_state := ''cancelled'', pj_finished := Some now\<rparr>) d)"
    by (rule inv_set_job [OF inv]) (use j0 in \<open>auto simp: job_ok_def\<close>)
  with Some show ?thesis by (simp add: cancel_def Let_def)
qed (simp add: cancel_def)

lemma owned_Inr: "owned_job aid rid d = Inr (state, dir) \<longleftrightarrow>
    (\<exists>j. row_of pj_id rid (jobs d) = Some j \<and> pj_worker j = aid \<and> pj_state j = state \<and> pj_dir j = dir)"
  by (auto simp: owned_job_def split: option.split)

lemma jobs_trust [simp]: "jobs (trust aid d) = jobs d" "files (trust aid d) = files d"
  by (simp_all add: trust_def)

lemma inv_reply: "pool_inv d \<Longrightarrow> pool_inv (fst (worker_reply env aid rid v now d))"
  and inv_fail: "pool_inv d \<Longrightarrow> pool_inv (fst (worker_fail aid rid reason now d))"
  by (auto simp: worker_reply_def worker_fail_def Let_def inv_trust owned_Inr job_ok_def
      split: sum.split intro!: inv_set_job)

lemma inv_dispatch: 
  assumes "pool_inv d"
  shows "pool_inv (fst (dispatch env reg pool body now d))"
proof -
  have lease: "pool_inv (fst (lease env reg rid pool w payload imgs timeout attempts now d))"
    if "w \<in> set (workers reg pool d)" "worker_state now w = ''free''"
      and notl: "\<And>j. row_of pj_id rid (jobs d) = Some j \<Longrightarrow> pj_state j \<noteq> ''leased''"
    for rid w payload imgs timeout attempts
  proof -
    let ?j = "new_job env rid pool (w_agent w) (call_type payload) now timeout attempts"
    have "job_ok ?j" by (simp add: new_job_def job_ok_def)
    moreover have old: "\<not> pj_state x = ''leased''" if "x \<in> set (jobs d)" "pj_id x = pj_id ?j" for x
    proof -
      have "row_of pj_id rid (jobs d) = Some x"
        using that assms row_of_pk [of pj_id "jobs d" x] by (simp add: pool_inv_def new_job_def)
      then show ?thesis by (rule notl)
    qed
    moreover have "length (leased_to aid (ins_replace pj_id ?j (jobs d))) \<le> 16" for aid
    proof (cases "aid = w_agent w")
      case True
      from that(1) obtain m where "m \<in> set (members d)" "w = worker_of reg (jobs d) m"
        by (auto simp: workers_def)
      with that(2) assms True have "int (length (leased_to aid (jobs d))) < 16"
        by (auto simp: free_worker worker_of_def Let_def pool_inv_def)
      then show ?thesis using old by (simp add: length_leased filter_ins_replace)
    next
      case False
      then show ?thesis using old assms
        by (simp add: length_leased filter_ins_replace pool_inv_def new_job_def)
    qed
    ultimately show ?thesis using assms
      by (auto simp: lease_def Let_def pool_inv_def pk_upd_where ball_upd_where pk_ins_replace
          set_ins_replace)
  qed
  have new: "pool_inv (fst (dispatch_new env reg pool rid body attempts now d))"
    if "\<And>j. row_of pj_id rid (jobs d) = Some j \<Longrightarrow> pj_state j \<noteq> ''leased''" for rid attempts
    using assms that by (auto simp: dispatch_new_def Let_def split: option.split sum.split
        intro!: lease dest: pick_worker)
  show ?thesis
  proof (cases "get_str body ''req_id''")
    case (Some rid)
    have "pj_state j \<noteq> ''leased''" if "row_of pj_id rid (jobs d) = Some j" "retryable (pj_state j) (pj_error j)" for j
      using that(2) by (rule not_leased_if_retryable)
    then show ?thesis using Some assms
      by (auto simp: dispatch_def job_json_def job_value_fields split: option.split intro!: new)
  qed (simp add: dispatch_def assms)
qed

lemma inv_lost: "job_ok j \<Longrightarrow> job_ok (lost_step reg now j)"
  by (auto simp: lost_step_def job_ok_def split: bool.split option.split)

lemma lost_fields: "pj_id (lost_step reg now j) = pj_id j" "pj_worker (lost_step reg now j) = pj_worker j"
  "pj_state (lost_step reg now j) = ''leased'' \<Longrightarrow> pj_state j = ''leased''"
  by (auto simp: lost_step_def split: bool.splits option.splits if_splits)

lemma inv_sweep: 
  assumes "pool_inv d"
  shows "pool_inv (fst (sweep reg cool now d))"
proof -
  have 1: "pool_inv (fst (sweep_expire now d))" if "pool_inv d" for d
  proof -
    have "pool_inv (d\<lparr>jobs := upd_where (\<lambda>j. pj_state j = ''leased'' \<and> pj_expires j \<le> now)
        (\<lambda>j. j\<lparr>pj_state := ''expired'', pj_finished := Some now\<rparr>) (jobs d)\<rparr>)"
      by (rule inv_jobs_upd [OF that]) (auto simp: job_ok_def)
    from inv_members_upd [OF this, of "\<lambda>m. m\<lparr>pm_suspect := 1, pm_suspect_since := Some now\<rparr>"]
    show ?thesis by (simp add: sweep_expire_def Let_def)
  qed
  have 2: "pool_inv (fst (sweep_cooldown cool now d))" if "pool_inv d" for d
    using inv_members_upd [OF that] by (simp add: sweep_cooldown_def Let_def)
  have 3: "pool_inv (fst (sweep_lost reg now d))" if "pool_inv d" for d
  proof -
    have "map (lost_step reg now) (jobs d) = upd_where (\<lambda>_. True) (lost_step reg now) (jobs d)"
      by (simp add: upd_where_def)
    then show ?thesis
      using inv_jobs_upd [OF that, of "\<lambda>_. True" "lost_step reg now"] lost_fields
      by (simp add: sweep_lost_def inv_lost)
  qed
  have 4: "pool_inv (sweep_forget now d)" if "pool_inv d" for d
    using that order_trans [OF load_del]
    by (auto simp: sweep_forget_def Let_def pool_inv_def pk_del_where set_del_where)
  show ?thesis using 4 [OF 3 [OF 2 [OF 1 [OF assms]]]]
    by (simp add: sweep_def Let_def split_beta)
qed

lemma inv_pool_run: "pool_inv d \<Longrightarrow> pool_inv (pool_run env op d)"
proof (cases op)
  case (PRead reg rid now)
  assume inv: "pool_inv d"
  have stamp: "pool_inv (d\<lparr>jobs := upd_where (\<lambda>j. pj_id j = rid \<and> pj_read j = None)
      (\<lambda>j. j\<lparr>pj_read := Some now\<rparr>) (jobs d)\<rparr>)"
    if "row_of pj_id rid (jobs d) = Some i" "is_final (pj_state i)" for i
  proof (rule inv_jobs_upd [OF inv])
    fix j assume "j \<in> set (jobs d)" "pj_id j = rid \<and> pj_read j = None" "job_ok j"
    moreover from this have "j = i" using that(1) inv row_of_pk [of pj_id "jobs d" j] by (auto simp: pool_inv_def)
    ultimately show "job_ok (j\<lparr>pj_read := Some now\<rparr>)" using that(2) by (auto simp: job_ok_def is_final_def)
  qed simp_all
  show ?thesis using PRead inv stamp
    by (auto simp: read_job_def Let_def job_json_def job_value_fields split: option.split)
qed (auto simp: inv_dispatch inv_cancel inv_reply inv_fail inv_trust inv_sweep worker_ready_def
    begin_clear_def end_clear_def Let_def split: option.split sum.split intro: inv_join inv_members_upd)

interpretation pool: transition_system "\<lambda>d. d = empty_pool" "pool_step env" pool_inv for env
proof
  fix d assume "d = empty_pool"
  then show "pool_inv d" by (simp add: pool_inv_def empty_pool_def pk_def leased_to_def)
next
  fix d d' assume "pool_step env d d'" "pool_inv d"
  then show "pool_inv d'" by (auto elim!: pool_stepE intro: inv_pool_run)
qed

section \<open>Properties\<close>

lemma worker_row:
  "pool_inv d \<Longrightarrow> w \<in> set (workers reg pool d) \<Longrightarrow>
    \<exists>m \<in> set (members d). pm_agent m = w_agent w \<and> pm_pool m = pool \<and> w = worker_of reg (jobs d) m"
  by (auto simp: workers_def worker_of_def Let_def)

lemma worker_of_fields:
  "w_agent (worker_of reg js m) = pm_agent m" "w_alive (worker_of reg js m) = agent_is_alive reg (pm_agent m)"
  "w_capacity (worker_of reg js m) = pm_capacity m" "w_suspect (worker_of reg js m) = (pm_suspect m \<noteq> 0)"
  "w_clearing (worker_of reg js m) = or_zero (pm_clearing m)" "w_leased (worker_of reg js m) = leased_to (pm_agent m) js"
  by (simp_all add: worker_of_def Let_def agent_is_alive_def)

lemma leased_after_lease:
  assumes "pool_inv d" "\<forall>j. row_of pj_id (pj_id n) (jobs d) = Some j \<longrightarrow> pj_state j \<noteq> ''leased''"
    and "pj_state n = ''leased''"
  shows "filter (\<lambda>j. pj_worker j = aid \<and> pj_state j = ''leased'') (ins_replace pj_id n (jobs d)) =
    filter (\<lambda>j. pj_worker j = aid \<and> pj_state j = ''leased'') (jobs d) @ (if pj_worker n = aid then [n] else [])"
proof -
  have "\<not> (pj_worker x = aid \<and> pj_state x = ''leased'')" if "x \<in> set (jobs d)" "pj_id x = pj_id n" for x
    using that assms(1,2) row_of_pk [of pj_id "jobs d" x] by (auto simp: pool_inv_def)
  from filter_ins_replace [of "jobs d" pj_id n, OF this] assms(3) show ?thesis by auto
qed

text \<open>
  C20: a job is leased only to a worker that can take it: a member of that pool, alive,
  trusted, not being cleared, with a free slot (and the pinned one, if the gateway named
  one; else one of the least loaded). Exactly one lease is added, to that worker; no
  other worker's leases change and nobody ends above its capacity because of it.
\<close>

theorem dispatch_takes_one_free_slot:
  assumes "(pool_step env)\<^sup>*\<^sup>* empty_pool d"
    and "dispatch env reg pool body now d = (d', Inr (Leased v wid line))"
  shows "\<exists>m \<in> set (members d). pm_agent m = wid \<and> pm_pool m = pool \<and> agent_is_alive reg wid
      \<and> pm_suspect m = 0 \<and> or_zero (pm_clearing m) \<le> now
      \<and> int (length (leased_to wid (jobs d'))) \<le> pm_capacity m
      \<and> length (leased_to wid (jobs d')) = length (leased_to wid (jobs d)) + 1
      \<and> (\<forall>aid. aid \<noteq> wid \<longrightarrow> leased_to aid (jobs d') = leased_to aid (jobs d))
      \<and> (\<forall>i. target_of body = Some i \<longrightarrow> wid = i)
      \<and> (target_of body = None \<longrightarrow> (\<forall>u \<in> set (workers reg pool d). worker_state now u = ''free'' \<longrightarrow>
            length (leased_to wid (jobs d)) \<le> length (w_leased u)))"
proof -
  have inv: "pool_inv d" using pool.reachable_inv [OF refl assms(1)] .
  from dispatch_leased [OF assms(2)] obtain rid attempts where
    re: "\<forall>j. row_of pj_id rid (jobs d) = Some j \<longrightarrow> retryable (pj_state j) (pj_error j)"
    and new: "dispatch_new env reg pool rid body attempts now d = (d', Inr (Leased v wid line))" by blast
  from dispatch_new_leased [OF new] obtain payload timeout imgs w where
    p: "pick now (target_of body) (workers reg pool d) = Inr w"
    and l: "lease env reg rid pool w payload imgs timeout attempts now d = (d', Inr (Leased v wid line))" by blast
  let ?n = "new_job env rid pool (w_agent w) (call_type payload) now timeout attempts"
  have d': "jobs d' = ins_replace pj_id ?n (jobs d)" and wid: "wid = w_agent w" using lease_ok [OF l] by auto
  from pick_worker [OF p] worker_row [OF inv] obtain m where
    m: "m \<in> set (members d)" "pm_agent m = wid" "pm_pool m = pool" "w = worker_of reg (jobs d) m"
    by (metis wid)
  have free: "worker_state now w = ''free''" using pick_worker [OF p] by blast
  have nl: "\<forall>j. row_of pj_id (pj_id ?n) (jobs d) = Some j \<longrightarrow> pj_state j \<noteq> ''leased''"
    using re not_leased_if_retryable by (auto simp: new_job_def)
  have F: "filter (\<lambda>j. pj_worker j = aid \<and> pj_state j = ''leased'') (jobs d') =
      filter (\<lambda>j. pj_worker j = aid \<and> pj_state j = ''leased'') (jobs d) @ (if wid = aid then [?n] else [])" for aid
    using leased_after_lease [OF inv nl, of aid] by (simp add: d' wid new_job_def)
  have one: "length (leased_to wid (jobs d')) = length (leased_to wid (jobs d)) + 1"
    by (simp add: length_leased F)
  moreover have "leased_to aid (jobs d') = leased_to aid (jobs d)" if "aid \<noteq> wid" for aid
    using that by (simp add: leased_to_def F)
  moreover have "agent_is_alive reg wid" "pm_suspect m = 0" "or_zero (pm_clearing m) \<le> now"
      "int (length (leased_to wid (jobs d))) < pm_capacity m"
    using free m by (auto simp: free_worker worker_of_fields)
  moreover have "length (leased_to wid (jobs d)) \<le> length (w_leased u)"
    if "target_of body = None" "u \<in> set (workers reg pool d)" "worker_state now u = ''free''" for u
    using pick_worker [OF p] that m by (auto simp: worker_of_fields less_eq_prod_def)
  moreover have "\<forall>i. target_of body = Some i \<longrightarrow> wid = i" using pick_worker [OF p] wid by blast
  ultimately show ?thesis using m(1,2,3) by (intro bexI [of _ m]) auto
qed

text \<open>A concrete world: one alive session, JSON kept as the printed integer, no images.\<close>

definition toy_ser :: "json \<Rightarrow> string" where
  "toy_ser v = (case v of JNum i \<Rightarrow> ''n'' @ dec_int i | JArr [] \<Rightarrow> ''[]'' | JArr _ \<Rightarrow> ''m'' | _ \<Rightarrow> ''?'')"

definition toy_des :: "string \<Rightarrow> json option" where
  "toy_des s = (if s = ''n7'' then Some (JNum 7) else if s = ''[]'' then Some (JArr [])
     else if s = ''m'' then Some (JArr [JObj [(''file'', JStr ''image-01.png''), (''mime'', JStr ''image/png'')]])
     else None)"

definition toy_env :: pool_env where
  "toy_env = \<lparr>host_file = (\<lambda>_. None), b64 = id, unb64 = Some, ser_pretty = toy_ser, ser = toy_ser,
     des = toy_des, job_dir = id, disk_ok = (\<lambda>_. True)\<rparr>"

definition toy_body :: json where
  "toy_body = JObj [(''req_id'', JStr ''r1''), (''payload'', JNum 7)]"

definition toy_reg :: "agent_row rows" where "toy_reg = fst two_agents"

definition joined :: pool_db where "joined = pool_run toy_env (PJoin ''a'' ''p'' 1 0) empty_pool"

definition leased_db :: pool_db where "leased_db = pool_run toy_env (PDispatch toy_reg ''p'' toy_body 5) joined"

lemma joined_reach: "(pool_step toy_env)\<^sup>*\<^sup>* empty_pool joined"
  unfolding joined_def by (intro r_into_rtranclp pool_stepI)

lemma leased_reach: "(pool_step toy_env)\<^sup>*\<^sup>* empty_pool leased_db"
  unfolding leased_db_def by (rule rtranclp.rtrancl_into_rtrancl [OF joined_reach pool_stepI])

lemma toy_lease: "\<exists>v line. dispatch toy_env toy_reg ''p'' toy_body 5 joined = (leased_db, Inr (Leased v ''a'' line))"
proof -
  have "case snd (dispatch toy_env toy_reg ''p'' toy_body 5 joined) of
      Inr (Leased v w line) \<Rightarrow> w = ''a'' | _ \<Rightarrow> False" by code_simp
  then show ?thesis by (auto simp: leased_db_def prod_eq_iff split: sum.splits dispatch_result.splits)
qed

theorem dispatch_takes_one_free_slot_witness:
  "\<exists>m \<in> set (members joined). pm_agent m = ''a'' \<and> int (length (leased_to ''a'' (jobs leased_db))) \<le> pm_capacity m"
  using toy_lease dispatch_takes_one_free_slot [OF joined_reach] by blast

text \<open>What a dispatch does to the jobs of other request ids, leased or refused.\<close>

lemma dispatch_jobs:
  assumes "pool_inv d" "j \<in> set (jobs d)" "\<not> retryable (pj_state j) (pj_error j)"
  shows "j \<in> set (jobs (fst (dispatch env reg pool body now d)))"
proof -
  have lease: "j \<in> set (jobs (fst (lease env reg rid pool w payload imgs timeout attempts now d)))"
    if "\<forall>i. row_of pj_id rid (jobs d) = Some i \<longrightarrow> retryable (pj_state i) (pj_error i)"
    for rid w payload imgs timeout attempts
  proof -
    have "pj_id j \<noteq> rid"
      using that assms row_of_pk [of pj_id "jobs d" j] by (auto simp: pool_inv_def)
    then show ?thesis using assms(2) by (auto simp: lease_def Let_def set_ins_replace new_job_def)
  qed
  have new: "j \<in> set (jobs (fst (dispatch_new env reg pool rid body attempts now d)))"
    if "\<forall>i. row_of pj_id rid (jobs d) = Some i \<longrightarrow> retryable (pj_state i) (pj_error i)" for rid attempts
    using lease [OF that] assms(2) by (auto simp: dispatch_new_def Let_def split: option.split sum.split)
  show ?thesis using assms(2)
    by (auto simp: dispatch_def job_json_def job_value_fields intro!: new split: option.split)
qed

lemma set_job_other:
  "j \<in> set (jobs d) \<Longrightarrow> pj_id j \<noteq> rid \<Longrightarrow> j \<in> set (jobs (set_job rid f d))"
  by (auto simp: set_job_def set_upd_where)

text \<open>
  C21: an outcome is final. A job that was answered, cancelled or refused by its worker is
  never changed again by any call, dispatching the same request id included: only the time
  of its first reading may be stamped. It disappears only in a sweep, ten minutes after that
  reading or a day after it ended.
\<close>

theorem outcomes_are_final:
  assumes "(pool_step env)\<^sup>*\<^sup>* empty_pool d" and "j \<in> set (jobs d)"
    and "pj_state j \<noteq> ''leased''" and "\<not> retryable (pj_state j) (pj_error j)"
  shows "(\<exists>t. j\<lparr>pj_read := t\<rparr> \<in> set (jobs (pool_run env op d)) \<and> (pj_read j \<noteq> None \<longrightarrow> t = pj_read j))
    \<or> (\<exists>reg cool now. op = PSweep reg cool now \<and>
         ((\<exists>t. pj_read j = Some t \<and> t + 600000 \<le> now) \<or> (\<exists>t. pj_finished j = Some t \<and> t + 86400000 \<le> now)))"
proof -
  have inv: "pool_inv d" using pool.reachable_inv [OF refl assms(1)] .
  have row: "row_of pj_id (pj_id j) (jobs d) = Some j"
    using inv assms(2) by (simp add: pool_inv_def row_of_pk)
  have same: "j\<lparr>pj_read := pj_read j\<rparr> = j" by simp
  have keep: ?thesis if "j \<in> set (jobs (pool_run env op d))"
    using that same by metis
  show ?thesis
  proof (cases op)
    case (PDispatch reg pool body now)
    then show ?thesis using dispatch_jobs [OF inv assms(2,4)] keep by simp
  next
    case (PRead reg rid now)
    show ?thesis
    proof (cases "pj_id j = rid \<and> pj_read j = None")
      case True
      then have "is_final (pj_state j) \<longrightarrow> j\<lparr>pj_read := Some now\<rparr> \<in> set (jobs (pool_run env op d))"
        using PRead row assms(2)
        by (auto simp: read_job_def Let_def job_json_def job_value_fields set_upd_where)
      moreover have "is_final (pj_state j)"
        using inv assms(2,3) by (auto simp: pool_inv_def job_ok_def is_final_def)
      ultimately show ?thesis using True by blast
    next
      case False
      then have "j \<in> set (jobs (pool_run env op d))" using PRead assms(2)
        by (auto simp: read_job_def Let_def set_upd_where split: option.split)
      then show ?thesis by (rule keep)
    qed
  next
    case (PCancel reg rid now)
    have "pj_id j \<noteq> rid" if "find (\<lambda>j. pj_id j = rid \<and> pj_state j = ''leased'') (jobs d) \<noteq> None"
    proof -
      from that obtain i where "find (\<lambda>j. pj_id j = rid \<and> pj_state j = ''leased'') (jobs d) = Some i" by auto
      note f = find_SomeD [OF this]
      have "pk pj_id (jobs d)" using inv by (simp add: pool_inv_def)
      show ?thesis
      proof
        assume "pj_id j = rid"
        with f have "i = j" by (intro pk_eq [OF \<open>pk pj_id (jobs d)\<close> _ assms(2)]) simp_all
        with f assms(3) show False by simp
      qed
    qed
    then have "j \<in> set (jobs (pool_run env op d))" using PCancel assms(2)
      by (auto simp: cancel_def Let_def set_job_other split: option.split)
    then show ?thesis by (rule keep)
  next
    case (PReply aid rid v now)
    then have "j \<in> set (jobs (pool_run env op d))" using assms(2,3) row
      by (auto simp: worker_reply_def Let_def owned_Inr split: sum.split intro!: set_job_other)
    then show ?thesis by (rule keep)
  next
    case (PFail aid rid reason now)
    then have "j \<in> set (jobs (pool_run env op d))" using assms(2,3) row
      by (auto simp: worker_fail_def Let_def owned_Inr split: sum.split intro!: set_job_other)
    then show ?thesis by (rule keep)
  next
    case (PSweep reg cool now)
    let ?d3 = "fst (sweep_lost reg now (fst (sweep_cooldown cool now (fst (sweep_expire now d)))))"
    have "j \<in> set (jobs (fst (sweep_expire now d)))" using assms(2,3)
      by (auto simp: sweep_expire_def Let_def set_upd_where)
    then have "j \<in> set (jobs ?d3)" using assms(3)
      by (force simp: sweep_lost_def sweep_cooldown_def Let_def lost_step_def)
    then have "j \<in> set (jobs (pool_run env op d)) \<or> forgotten now j"
      using PSweep by (auto simp: sweep_def Let_def split_beta sweep_forget_def set_del_where)
    then show ?thesis using keep PSweep
      by (auto simp: forgotten_def keep_after_read_ms_def keep_unread_ms_def split: option.splits)
  qed (use assms(2) keep in \<open>auto simp: join_def worker_ready_def begin_clear_def end_clear_def trust_def Let_def
        split: option.split sum.split\<close>)
qed

definition answered_db :: pool_db where
  "answered_db = pool_run toy_env (PReply ''a'' ''r1'' (JNum 7) 9) leased_db"

lemma answered_reach: "(pool_step toy_env)\<^sup>*\<^sup>* empty_pool answered_db"
  unfolding answered_db_def by (rule rtranclp.rtrancl_into_rtrancl [OF leased_reach pool_stepI])

theorem outcomes_are_final_witness:
  "\<exists>t. (hd (jobs answered_db))\<lparr>pj_read := t\<rparr> \<in> set (jobs (pool_run toy_env (PDispatch toy_reg ''p'' toy_body 11) answered_db))"
proof -
  have "hd (jobs answered_db) \<in> set (jobs answered_db)" by (rule hd_in_set) code_simp
  moreover have "pj_state (hd (jobs answered_db)) \<noteq> ''leased''"
    "\<not> retryable (pj_state (hd (jobs answered_db))) (pj_error (hd (jobs answered_db)))" by code_simp+
  ultimately show ?thesis
    using outcomes_are_final [OF answered_reach, of _ "PDispatch toy_reg ''p'' toy_body 11"] by blast
qed

text \<open>
  Dispatching a request id again while its job is out, or after it was answered,
  changes nothing and answers with the job as it stands: a gateway that retries a request
  after a lost response never gets a second worker on it.
\<close>

theorem dispatch_is_idempotent:
  assumes "(pool_step env)\<^sup>*\<^sup>* empty_pool d"
    and "dispatch env reg pool body now d = (d', Inr (Leased v wid line))"
  shows "\<exists>j \<in> set (jobs d'). get_str body ''req_id'' = Some (pj_id j) \<and> pj_worker j = wid
    \<and> dispatch env reg' pool body later d' = (d', Inr (Existing (job_value env reg' j)))"
proof -
  from dispatch_leased [OF assms(2)] obtain rid attempts where
    rid: "get_str body ''req_id'' = Some rid" "check_req_id rid" "check_pool pool"
    and new: "dispatch_new env reg pool rid body attempts now d = (d', Inr (Leased v wid line))" by blast
  from dispatch_new_leased [OF new] obtain payload timeout imgs w where
    l: "lease env reg rid pool w payload imgs timeout attempts now d = (d', Inr (Leased v wid line))" by blast
  let ?n = "new_job env rid pool (w_agent w) (call_type payload) now timeout attempts"
  from lease_ok [OF l] have d': "jobs d' = ins_replace pj_id ?n (jobs d)" "wid = w_agent w" by auto
  have n: "pj_id ?n = rid" "pj_state ?n = ''leased''" "pj_error ?n = None" "pj_worker ?n = wid"
    using d'(2) by (simp_all add: new_job_def)
  have "row_of pj_id rid (jobs d') = Some ?n" by (simp add: d' row_of_ins_replace n(1))
  then have "job_json env reg' rid d' = Some (job_value env reg' ?n)" by (simp add: job_json_def)
  moreover have "\<not> retryable (pj_state ?n) (pj_error ?n)" by (simp add: n retryable_def)
  ultimately have "dispatch env reg' pool body later d' = (d', Inr (Existing (job_value env reg' ?n)))"
    using rid by (simp add: dispatch_def job_value_fields)
  moreover have "?n \<in> set (jobs d')" by (simp add: d' set_ins_replace)
  ultimately show ?thesis using rid(1) n(1,4) by (intro bexI [of _ ?n]) auto
qed

theorem dispatch_is_idempotent_witness:
  "\<exists>j. dispatch toy_env toy_reg ''p'' toy_body 6 leased_db = (leased_db, Inr (Existing (job_value toy_env toy_reg j)))"
  using toy_lease dispatch_is_idempotent [OF joined_reach] by blast

text \<open>
  a sweep leaves no lease past its expiry: each such job is expired, so the gateway may
  dispatch it again, and (with a cooldown) its worker is suspect, so the next job goes
  elsewhere. Jobs still within their time stay leased to the same worker while it lives.
\<close>

theorem sweep_expires_leases:
  assumes "pool_inv d" and "0 < suspect_cooldown_ms cool"
  shows "(\<forall>j \<in> set (jobs (fst (sweep reg cool now d))). pj_state j = ''leased'' \<longrightarrow> now < pj_expires j)
    \<and> (\<forall>j \<in> set (jobs d). pj_state j = ''leased'' \<and> pj_expires j \<le> now \<longrightarrow>
        (\<exists>j' \<in> set (jobs (fst (sweep reg cool now d))). pj_id j' = pj_id j \<and> retryable (pj_state j') (pj_error j'))
        \<and> (\<forall>m \<in> set (members (fst (sweep reg cool now d))). pm_agent m = pj_worker j \<longrightarrow> pm_suspect m = 1))
    \<and> (\<forall>j \<in> set (jobs d). pj_state j = ''leased'' \<and> now < pj_expires j \<and> agent_is_alive reg (pj_worker j) \<longrightarrow>
        j\<lparr>pj_gone := None\<rparr> \<in> set (jobs (fst (sweep reg cool now d))))"
proof -
  let ?p = "\<lambda>j. pj_state j = ''leased'' \<and> pj_expires j \<le> now"
  let ?e = "\<lambda>j. j\<lparr>pj_state := ''expired'', pj_finished := Some now\<rparr>"
  let ?d = "fst (sweep reg cool now d)"
  have J: "jobs ?d = del_where (forgotten now) (map (lost_step reg now) (upd_where ?p ?e (jobs d)))"
    by (simp add: sweep_def sweep_expire_def sweep_cooldown_def sweep_lost_def sweep_forget_def Let_def)
  have M: "members ?d = upd_where (\<lambda>m. pm_suspect m = 1 \<and> or_zero (pm_suspect_since m) \<le> now - suspect_cooldown_ms cool)
      (\<lambda>m. m\<lparr>pm_suspect := 0, pm_suspect_since := None\<rparr>)
      (upd_where (\<lambda>m. pm_agent m \<in> set (map pj_worker (filter ?p (jobs d))))
        (\<lambda>m. m\<lparr>pm_suspect := 1, pm_suspect_since := Some now\<rparr>) (members d))"
    by (simp add: sweep_def sweep_expire_def sweep_cooldown_def sweep_lost_def sweep_forget_def Let_def)
  have ex: "pj_expires (lost_step reg now j) = pj_expires j" for j
    by (auto simp: lost_step_def split: bool.split option.split)
  have 1: "now < pj_expires j" if "j \<in> set (jobs ?d)" "pj_state j = ''leased''" for j
  proof -
    from that(1) obtain i where i: "i \<in> set (jobs d)" "j = lost_step reg now (if ?p i then ?e i else i)"
      by (auto simp: J set_del_where upd_where_def)
    with that(2) have "\<not> ?p i" "pj_state i = ''leased''"
      using lost_fields(3) [of reg now "if ?p i then ?e i else i"] by (auto split: if_splits)
    then show ?thesis using i by (simp add: ex)
  qed
  have 2: "?e j \<in> set (jobs ?d)" if "j \<in> set (jobs d)" "?p j" "job_ok j" for j
  proof -
    have "?e j \<in> set (upd_where ?p ?e (jobs d))" using that by (auto simp: set_upd_where)
    moreover have "lost_step reg now (?e j) = ?e j" by (simp add: lost_step_def)
    ultimately have "?e j \<in> set (map (lost_step reg now) (upd_where ?p ?e (jobs d)))"
      using imageI [of "?e j" "set (upd_where ?p ?e (jobs d))" "lost_step reg now"] by simp
    moreover have "\<not> forgotten now (?e j)"
      using that by (auto simp: forgotten_def keep_unread_ms_def job_ok_def)
    ultimately show ?thesis by (simp add: J set_del_where)
  qed
  have 3: "pm_suspect m = 1" if "m \<in> set (members ?d)" "pm_agent m = pj_worker j" "j \<in> set (jobs d)" "?p j" for m j
  proof -
    have "pj_worker j \<in> set (map pj_worker (filter ?p (jobs d)))" using that(3,4) by auto
    then show ?thesis using that(1,2) assms(2) by (auto simp: M upd_where_def or_zero_def split: if_splits)
  qed
  have 4: "j\<lparr>pj_gone := None\<rparr> \<in> set (jobs ?d)"
    if "j \<in> set (jobs d)" "pj_state j = ''leased''" "now < pj_expires j" "agent_is_alive reg (pj_worker j)" for j
  proof -
    have "j \<in> set (upd_where ?p ?e (jobs d))" using that by (auto simp: set_upd_where)
    moreover have "lost_step reg now j = j\<lparr>pj_gone := None\<rparr>"
      using that(2,4) by (cases "pj_gone j") (simp_all add: lost_step_def)
    ultimately have "j\<lparr>pj_gone := None\<rparr> \<in> set (map (lost_step reg now) (upd_where ?p ?e (jobs d)))"
      using imageI [of j "set (upd_where ?p ?e (jobs d))" "lost_step reg now"] by simp
    then show ?thesis using that(2) by (simp add: J set_del_where forgotten_def)
  qed
  have ok: "job_ok j" if "j \<in> set (jobs d)" for j using assms(1) that by (simp add: pool_inv_def)
  have 5: "\<exists>j' \<in> set (jobs ?d). pj_id j' = pj_id j \<and> retryable (pj_state j') (pj_error j')"
    if "j \<in> set (jobs d)" "?p j" for j
    using 2 [OF that ok [OF that(1)]] by (intro bexI [of _ "?e j"]) (simp_all add: retryable_def)
  show ?thesis using 1 3 4 5 by blast
qed

theorem sweep_expires_leases_witness:
  "\<exists>j' \<in> set (jobs (fst (sweep toy_reg None 900000 leased_db))). pj_id j' = ''r1'' \<and> retryable (pj_state j') (pj_error j')"
proof -
  have inv: "pool_inv leased_db" using pool.reachable_inv [OF refl leased_reach] .
  have j: "hd (jobs leased_db) \<in> set (jobs leased_db)" by (rule hd_in_set) code_simp
  have "pj_state (hd (jobs leased_db)) = ''leased''" "pj_expires (hd (jobs leased_db)) \<le> 900000"
    "pj_id (hd (jobs leased_db)) = ''r1''" by code_simp+
  moreover have "0 < suspect_cooldown_ms None" by code_simp
  ultimately have "\<exists>j' \<in> set (jobs (fst (sweep toy_reg None 900000 leased_db))).
      pj_id j' = pj_id (hd (jobs leased_db)) \<and> retryable (pj_state j') (pj_error j')"
    using sweep_expires_leases [OF inv, where cool = None and now = 900000 and reg = toy_reg] j by blast
  with \<open>pj_id (hd (jobs leased_db)) = ''r1''\<close> show ?thesis by simp
qed

text \<open>File names of distinct images are distinct.\<close>

definition undec :: "string \<Rightarrow> nat" where
  "undec s = foldl (\<lambda>a c. a * 10 + (of_char c - 48)) 0 s"

lemma undec_dec: "undec (dec n) = n"
proof (induction n rule: dec.induct)
  case (1 n)
  then show ?case by (subst dec.simps) (auto simp: undec_def)
qed

lemma dec_digits: "c \<in> set (dec n) \<Longrightarrow> 48 \<le> (of_char c :: nat) \<and> (of_char c :: nat) \<le> 57"
proof (induction n rule: dec.induct)
  case (1 n)
  then show ?case by (subst (asm) dec.simps) (auto split: if_splits)
qed

lemma undec_pad2: "undec (pad2 n) = n"
  using undec_dec [of n] by (simp add: pad2_def undec_def)

lemma pad2_no_dot: "CHR ''.'' \<notin> set (pad2 n)"
  using dec_digits [of "CHR ''.''" n] by (auto simp: pad2_def)

lemma image_name_inj: "image_name i im = image_name k im' \<Longrightarrow> i = k"
proof -
  assume "image_name i im = image_name k im'"
  then have "takeWhile (\<lambda>c. c \<noteq> CHR ''.'') (pad2 (i + 1) @ ''.'' @ im_ext im)
      = takeWhile (\<lambda>c. c \<noteq> CHR ''.'') (pad2 (k + 1) @ ''.'' @ im_ext im')"
    by (simp add: image_name_def)
  moreover have "takeWhile (\<lambda>c. c \<noteq> CHR ''.'') (pad2 n @ CHR ''.'' # r) = pad2 n" for n r
    using pad2_no_dot [of n] by (subst takeWhile_append2) auto
  ultimately have "pad2 (i + 1) = pad2 (k + 1)" by simp
  then show "i = k" using undec_pad2 [of "i + 1"] undec_pad2 [of "k + 1"] by simp
qed

lemma image_file:
  assumes "(i, im) \<in> set (enumerate 0 imgs)"
  shows "map_of (job_files env payload imgs) (image_name i im) = Some (im_bytes im)"
proof -
  let ?m = "map (\<lambda>(i, im). (image_name i im, im_bytes im)) (enumerate 0 imgs)"
  have "inj_on (\<lambda>(i, im). image_name i im) (set (enumerate 0 imgs))"
    using image_name_inj by (auto simp: inj_on_def in_set_enumerate_eq) blast
  moreover have "fst \<circ> (\<lambda>(i, im). (image_name i im, im_bytes im)) = (\<lambda>(i, im). image_name i im)"
    by (auto simp: fun_eq_iff)
  ultimately have "distinct (map fst ?m)" by (simp add: distinct_map)
  moreover have "(image_name i im, im_bytes im) \<in> set ?m" using assms by force
  ultimately have "map_of ?m (image_name i im) = Some (im_bytes im)" by (rule map_of_is_SomeI)
  then show ?thesis by (simp add: job_files_def map_add_Some_iff)
qed

lemma meta_files:
  "map_of (job_files env payload imgs) ''payload.json'' = Some (ser_pretty env payload)"
  "map_of (job_files env payload imgs) ''images.json'' = Some (ser env (image_list imgs))"
proof -
  let ?m = "map (\<lambda>(i, im). (image_name i im, im_bytes im)) (enumerate 0 imgs)"
  have "map_of ?m ''payload.json'' = None" "map_of ?m ''images.json'' = None"
    by (auto simp: map_of_eq_None_iff image_name_def)
  then show "map_of (job_files env payload imgs) ''payload.json'' = Some (ser_pretty env payload)"
    "map_of (job_files env payload imgs) ''images.json'' = Some (ser env (image_list imgs))"
    by (simp_all add: job_files_def map_add_def)
qed

lemma load_images_ok:
  assumes "files d dir = Some (job_files env payload imgs)" "set is \<subseteq> set (enumerate 0 imgs)"
  shows "load_images env d dir (map (\<lambda>(i, im).
      JObj [(''file'', JStr (image_name i im)), (''mime'', JStr (im_mime im))]) is) =
    Inr (map (\<lambda>(i, im). JObj [(''file'', JStr (image_name i im)), (''mime'', JStr (im_mime im)),
      (''base64'', JStr (b64 env (im_bytes im)))]) is)"
  using assms(2)
proof (induction "is")
  case (Cons x "is")
  obtain i im where x: "x = (i, im)" by (cases x)
  have "read_file d dir (image_name i im) = Some (im_bytes im)"
    using image_file [of i im imgs env payload] Cons.prems x by (simp add: read_file_def assms(1))
  with Cons x show ?case by simp
qed simp

text \<open>
  a worker is given exactly what the gateway sent. Straight after a dispatch, the leased
  worker reads back the payload of the request and one entry per image, in order, with the
  MIME type it was sent under and the base64 of its bytes (given that \<open>serde_json\<close> reads
  back this payload and this image list); any other session is refused.
\<close>

theorem worker_reads_what_was_sent:
  assumes "dispatch env reg pool body now d = (d', Inr (Leased v wid line))"
    and "get_str body ''req_id'' = Some rid" and "jget body ''payload'' = Some payload"
    and "read_images env 0 (images_of body) = Inr imgs"
    and "des env (ser_pretty env payload) = Some payload"
    and "des env (ser env (image_list imgs)) = Some (image_list imgs)"
  shows "worker_job env wid rid d' = Inr (JObj [(''req_id'', JStr rid),
        (''call_type'', jopt JStr (call_type payload)), (''payload'', payload),
        (''images'', JArr (map (\<lambda>(i, im). JObj [(''file'', JStr (image_name i im)),
            (''mime'', JStr (im_mime im)), (''base64'', JStr (b64 env (im_bytes im)))]) (enumerate 0 imgs)))])
    \<and> (\<forall>other. other \<noteq> wid \<longrightarrow> worker_job env other rid d' = Inl OtherSession)"
proof -
  from dispatch_leased [OF assms(1)] assms(2) obtain attempts where
    new: "dispatch_new env reg pool rid body attempts now d = (d', Inr (Leased v wid line))" by auto
  from dispatch_new_leased [OF new] assms(3,4) obtain timeout w where
    l: "lease env reg rid pool w payload imgs timeout attempts now d = (d', Inr (Leased v wid line))" by auto
  let ?n = "new_job env rid pool (w_agent w) (call_type payload) now timeout attempts"
  from lease_ok [OF l] have d': "jobs d' = ins_replace pj_id ?n (jobs d)" "wid = w_agent w"
    "files d' (job_dir env rid) = Some (job_files env payload imgs)" by auto
  have row: "row_of pj_id rid (jobs d') = Some ?n" by (simp add: d'(1) row_of_ins_replace new_job_def)
  have n: "pj_worker ?n = wid" "pj_state ?n = ''leased''" "pj_dir ?n = job_dir env rid" "pj_call ?n = call_type payload"
    using d'(2) by (simp_all add: new_job_def)
  have "read_file d' (job_dir env rid) ''payload.json'' = Some (ser_pretty env payload)"
    "read_file d' (job_dir env rid) ''images.json'' = Some (ser env (image_list imgs))"
    by (simp_all add: read_file_def d'(3) meta_files)
  moreover have "as_array (image_list imgs) = Some (map (\<lambda>(i, im).
      JObj [(''file'', JStr (image_name i im)), (''mime'', JStr (im_mime im))]) (enumerate 0 imgs))"
    by (simp add: image_list_def)
  ultimately show ?thesis
    using row n load_images_ok [OF d'(3) subset_refl] assms(5,6)
    by (simp add: worker_job_def owned_job_def)
qed

definition picture_body :: json where
  "picture_body = JObj [(''req_id'', JStr ''r2''), (''payload'', JNum 7),
     (''images'', JArr [JObj [(''base64'', JStr ''xyz''), (''mime'', JStr ''image/png'')]])]"

theorem worker_reads_what_was_sent_witness:
  "\<exists>imgs. worker_job toy_env ''a'' ''r2'' (pool_run toy_env (PDispatch toy_reg ''p'' picture_body 5) joined)
     = Inr (JObj [(''req_id'', JStr ''r2''), (''call_type'', JNull), (''payload'', JNum 7), (''images'', imgs)])
     \<and> imgs = JArr [JObj [(''file'', JStr ''image-01.png''), (''mime'', JStr ''image/png''), (''base64'', JStr ''xyz'')]]"
proof -
  let ?im = "\<lparr>im_ext = ''png'', im_mime = ''image/png'', im_bytes = ''xyz''\<rparr>"
  let ?r = "dispatch toy_env toy_reg ''p'' picture_body 5 joined"
  have "case snd ?r of Inr (Leased v w line) \<Rightarrow> w = ''a'' | _ \<Rightarrow> False" by code_simp
  then obtain v line where r: "?r = (fst ?r, Inr (Leased v ''a'' line))"
    by (auto simp: prod_eq_iff split: sum.splits dispatch_result.splits)
  have "get_str picture_body ''req_id'' = Some ''r2''" "jget picture_body ''payload'' = Some (JNum 7)"
    "read_images toy_env 0 (images_of picture_body) = Inr [?im]"
    "des toy_env (ser_pretty toy_env (JNum 7)) = Some (JNum 7)"
    "des toy_env (ser toy_env (image_list [?im])) = Some (image_list [?im])"
    by code_simp+
  note t = worker_reads_what_was_sent [OF r this]
  have "call_type (JNum 7) = None" "image_name 0 ?im = ''image-01.png''" "b64 toy_env ''xyz'' = ''xyz''"
    by code_simp+
  with t show ?thesis by simp
qed

text \<open>What the worker's own calls leave alone.\<close>

lemma own_calls_frame:
  assumes "pk pj_id (jobs d)" "j \<in> set (jobs d)" "pj_worker j \<noteq> aid"
  shows "j \<in> set (jobs (fst (worker_reply env aid rid v now d)))"
    and "j \<in> set (jobs (fst (worker_fail aid rid reason now d)))"
    and "j \<in> set (jobs (fst (worker_ready aid d)))"
proof -
  have "pj_id j \<noteq> rid" if "owned_job aid rid d = Inr x" for x
    using that assms(2,3) row_of_pk [OF assms(1,2)] by (cases x) (auto simp: owned_Inr)
  then show "j \<in> set (jobs (fst (worker_reply env aid rid v now d)))"
    "j \<in> set (jobs (fst (worker_fail aid rid reason now d)))"
    "j \<in> set (jobs (fst (worker_ready aid d)))"
    using assms(2) by (auto simp: worker_reply_def worker_fail_def worker_ready_def Let_def
        intro!: set_job_other split: sum.split)
qed

lemma own_calls_members:
  assumes "m \<in> set (members d)" "pm_agent m \<noteq> aid"
  shows "m \<in> set (members (fst (worker_reply env aid rid v now d)))"
    and "m \<in> set (members (fst (worker_fail aid rid reason now d)))"
    and "m \<in> set (members (fst (worker_ready aid d)))"
  using assms by (auto simp: worker_reply_def worker_fail_def worker_ready_def trust_def Let_def
      set_job_def set_upd_where split: sum.split)

lemma cleared_frame: "clears c = Some w \<Longrightarrow> w \<noteq> aid \<Longrightarrow> fst (worker_cleared aid cid clears) c = Some w"
  by (auto simp: worker_cleared_def split: option.split)

text \<open>
  the worker's tools act only for the session that proves itself, and only on its own
  jobs: without the session's token nothing changes; with it, no job leased to another
  session and no other session's trust changes.
\<close>

theorem tools_act_on_own_jobs:
  assumes "pk pj_id (jobs d)" and "handle_tool env reg tool args now (d, clears) = ((d', clears'), r)"
  shows "(\<not> resolve_session_token (arg_str args ''agent_id'') (arg_str args ''session_token'') reg
      \<longrightarrow> r = Inl NoSession \<and> d' = d \<and> clears' = clears)
    \<and> (\<forall>j \<in> set (jobs d). pj_worker j \<noteq> arg_str args ''agent_id'' \<longrightarrow> j \<in> set (jobs d'))
    \<and> (\<forall>m \<in> set (members d). pm_agent m \<noteq> arg_str args ''agent_id'' \<longrightarrow> m \<in> set (members d'))
    \<and> (\<forall>c w. clears c = Some w \<and> w \<noteq> arg_str args ''agent_id'' \<longrightarrow> clears' c = Some w)"
proof -
  define aid where "aid = arg_str args ''agent_id''"
  define rid where "rid = arg_str args ''req_id''"
  note H = assms(2) [unfolded handle_tool_def Let_def, folded aid_def rid_def]
  consider "d' = d" "clears' = clears"
    | v where "d' = fst (worker_reply env aid rid v now d)" "clears' = clears"
    | reason where "d' = fst (worker_fail aid rid reason now d)" "clears' = clears"
    | "d' = fst (worker_ready aid d)" "clears' = clears"
    | cid where "d' = d" "clears' = fst (worker_cleared aid cid clears)"
    using H by (auto simp: split_beta split: if_splits option.splits)
  then have "(\<forall>j \<in> set (jobs d). pj_worker j \<noteq> aid \<longrightarrow> j \<in> set (jobs d'))
    \<and> (\<forall>m \<in> set (members d). pm_agent m \<noteq> aid \<longrightarrow> m \<in> set (members d'))
    \<and> (\<forall>c w. clears c = Some w \<and> w \<noteq> aid \<longrightarrow> clears' c = Some w)"
    by cases (simp_all add: own_calls_frame [OF assms(1)] own_calls_members cleared_frame)
  moreover have "r = Inl NoSession \<and> d' = d \<and> clears' = clears"
    if "\<not> resolve_session_token aid (arg_str args ''session_token'') reg"
    using H that by simp
  ultimately show ?thesis unfolding aid_def by blast
qed

definition toy_args :: json where
  "toy_args = JObj [(''agent_id'', JStr ''b''), (''session_token'', JStr ''no''), (''req_id'', JStr ''r1''),
     (''result'', JNum 7)]"

theorem tools_act_on_own_jobs_witness:
  "handle_tool toy_env toy_reg ''pool_reply'' toy_args 6 (leased_db, Map.empty) = ((leased_db, Map.empty), Inl NoSession)"
proof -
  obtain d' c' r where h: "handle_tool toy_env toy_reg ''pool_reply'' toy_args 6 (leased_db, Map.empty) = ((d', c'), r)"
    by (metis prod.collapse)
  have "pk pj_id (jobs leased_db)" by code_simp
  moreover have "\<not> resolve_session_token (arg_str toy_args ''agent_id'') (arg_str toy_args ''session_token'') toy_reg"
    by code_simp
  ultimately show ?thesis using tools_act_on_own_jobs [OF _ h] h by simp
qed

text \<open>
  an answer that comes after the job went to another worker does not restore trust in
  the worker that gives it: the reply is refused as somebody else's job and nothing
  changes, so that worker stays suspect. (A late answer to a job nobody else has taken does
  restore it.)
\<close>

theorem late_reply_after_retry:
  assumes "row_of pj_id rid (jobs d) = Some j" and "pj_worker j \<noteq> aid"
  shows "worker_reply env aid rid v now d = (d, Inl OtherSession)
    \<and> worker_fail aid rid reason now d = (d, Inl OtherSession)
    \<and> (pj_state j \<noteq> ''leased'' \<longrightarrow>
        (\<forall>m \<in> set (members (fst (worker_reply env (pj_worker j) rid v now d))).
           pm_agent m = pj_worker j \<longrightarrow> pm_suspect m = 0))"
  using assms by (auto simp: worker_reply_def worker_fail_def owned_job_def Let_def trust_def ball_upd_where)

theorem late_reply_after_retry_witness:
  "worker_reply toy_env ''b'' ''r1'' (JNum 7) 6 leased_db = (leased_db, Inl OtherSession)"
proof -
  have "case row_of pj_id ''r1'' (jobs leased_db) of None \<Rightarrow> False | Some j \<Rightarrow> pj_worker j \<noteq> ''b''" by code_simp
  then obtain j where "row_of pj_id ''r1'' (jobs leased_db) = Some j" "pj_worker j \<noteq> ''b''"
    by (auto split: option.splits)
  then show ?thesis by (rule conjunct1 [OF late_reply_after_retry])
qed

end
