(* ===== verification/Strings.thy ===== *)
theory Strings
  imports Prelude
begin

text \<open>
  Functions of the standard library on text that several components use: splitting, trimming one
  character, decimal numbers. Text is a list of code points, or of bytes where the code works on bytes.
\<close>

section \<open>Splitting\<close>

text \<open>\<open>str::split\<close>, \<open>split_once\<close>, \<open>rsplit_once\<close>, \<open>strip_suffix\<close>, \<open>trim_start_matches\<close> and \<open>trim_end_matches\<close> with one character.\<close>

fun split_by :: "('a \<Rightarrow> bool) \<Rightarrow> 'a list \<Rightarrow> 'a list list" where
  "split_by p [] = [[]]"
| "split_by p (c # cs) = (if p c then [] # split_by p cs else (case split_by p cs of w # ws \<Rightarrow> (c # w) # ws | [] \<Rightarrow> [[c]]))"

definition split_once :: "'a \<Rightarrow> 'a list \<Rightarrow> ('a list \<times> 'a list) option" where
  "split_once c t = (if c \<in> set t then Some (takeWhile (\<lambda>x. x \<noteq> c) t, tl (dropWhile (\<lambda>x. x \<noteq> c) t)) else None)"

definition rsplit_once :: "'a \<Rightarrow> 'a list \<Rightarrow> ('a list \<times> 'a list) option" where
  "rsplit_once c t = map_option (\<lambda>(a, b). (rev b, rev a)) (split_once c (rev t))"

definition strip_suffix :: "'a list \<Rightarrow> 'a list \<Rightarrow> 'a list option" where
  "strip_suffix e t = map_option rev (strip_prefix (rev e) (rev t))"

definition trim_end :: "'a \<Rightarrow> 'a list \<Rightarrow> 'a list" where
  "trim_end c t = rev (dropWhile (\<lambda>x. x = c) (rev t))"

definition trim_start :: "'a \<Rightarrow> 'a list \<Rightarrow> 'a list" where
  "trim_start c t = dropWhile (\<lambda>x. x = c) t"

text \<open>\<open>str::split_once\<close> with a text.\<close>

fun split_str :: "'a list \<Rightarrow> 'a list \<Rightarrow> ('a list \<times> 'a list) option" where
  "split_str p [] = (if p = [] then Some ([], []) else None)"
| "split_str p (c # cs) =
     (case strip_prefix p (c # cs) of Some r \<Rightarrow> Some ([], r)
      | None \<Rightarrow> map_option (\<lambda>(a, b). (c # a, b)) (split_str p cs))"

lemma split_str_none: "split_str p t = None \<longleftrightarrow> \<not> contains p t"
  by (induction p t rule: split_str.induct) (auto simp: strip_prefix_def split: option.splits)

lemma split_once_here [simp]: "c \<notin> set a \<Longrightarrow> split_once c (a @ c # b) = Some (a, b)"
  by (induction a) (auto simp: split_once_def)

lemma split_once_none [simp]: "c \<notin> set t \<Longrightarrow> split_once c t = None"
  by (simp add: split_once_def)

lemma rsplit_once_here [simp]: "c \<notin> set b \<Longrightarrow> rsplit_once c (a @ c # b) = Some (a, b)"
  by (simp add: rsplit_once_def)

lemma rsplit_once_none [simp]: "c \<notin> set t \<Longrightarrow> rsplit_once c t = None"
  by (simp add: rsplit_once_def)

lemma strip_prefix_iff: "strip_prefix p t = Some r \<longleftrightarrow> t = p @ r"
  by (auto simp: strip_prefix_def) (metis append_take_drop_id)

lemma strip_suffix_append [simp]: "strip_suffix e (t @ e) = Some t"
  by (simp add: strip_suffix_def)

lemma strip_suffix_iff: "strip_suffix e t = Some r \<longleftrightarrow> t = r @ e"
  by (auto simp: strip_suffix_def strip_prefix_iff) (metis rev_append rev_rev_ident)

lemma trim_end_id: "t = [] \<or> last t \<noteq> c \<Longrightarrow> trim_end c t = t"
  by (cases t rule: rev_cases) (auto simp: trim_end_def)

lemma trim_start_id: "t = [] \<or> hd t \<noteq> c \<Longrightarrow> trim_start c t = t"
  by (cases t) (auto simp: trim_start_def)

lemma trim_end_last: "trim_end c t = [] \<or> last (trim_end c t) \<noteq> c"
  using hd_dropWhile [of "\<lambda>x. x = c" "rev t"] by (auto simp: trim_end_def last_rev)

lemma split_by_plain: "\<forall>c \<in> set a. \<not> p c \<Longrightarrow> split_by p a = [a]"
  by (induction a) auto

lemma split_by_here: "\<forall>c \<in> set a. \<not> p c \<Longrightarrow> p x \<Longrightarrow> split_by p (a @ x # b) = a # split_by p b"
  by (induction a) auto

section \<open>Decimal numbers\<close>

text \<open>\<open>u64::from_str\<close>: an optional plus sign, digits, no overflow.\<close>

fun digits_val :: "nat \<Rightarrow> utext \<Rightarrow> nat option" where
  "digits_val acc [] = Some acc"
| "digits_val acc (c # cs) = (if is_ascii_digit c then digits_val (acc * 10 + (c - 48)) cs else None)"

definition parse_u64 :: "utext \<Rightarrow> nat option" where
  "parse_u64 t =
     (let ds = (case t of c # r \<Rightarrow> if c = 43 then r else t | [] \<Rightarrow> [])
      in if ds = [] then None
         else case digits_val 0 ds of None \<Rightarrow> None
           | Some n \<Rightarrow> if n < 18446744073709551616 then Some n else None)"

text \<open>\<open>str::parse::<i64>\<close>.\<close>

definition int_digits :: "string \<Rightarrow> int option" where
  "int_digits s =
     (if s \<noteq> [] \<and> list_all (\<lambda>c. is_ascii_digit (of_char c)) s
      then Some (foldl (\<lambda>n c. 10 * n + (int (of_char c) - 48)) 0 s) else None)"

definition parse_i64 :: "string \<Rightarrow> int option" where
  "parse_i64 s =
     (let v = (case s of [] \<Rightarrow> None
               | c # cs \<Rightarrow> if c = CHR ''-'' then map_option uminus (int_digits cs)
                           else if c = CHR ''+'' then int_digits cs else int_digits s)
      in case v of Some n \<Rightarrow> if i64_min \<le> n \<and> n \<le> i64_max then Some n else None | None \<Rightarrow> None)"

lemma of_str_append: "of_str (a @ b) = of_str a @ of_str b"
  by (simp add: of_str_def)

lemma of_str_Cons: "of_str (c # b) = of_char c # of_str b"
  by (simp add: of_str_def)

lemma of_str_Nil: "of_str [] = []"
  by (simp add: of_str_def)

lemmas of_str_simps = of_str_append of_str_Cons of_str_Nil

lemma of_char_digit: "n < 10 \<Longrightarrow> (of_char (char_of (48 + n)) :: nat) = 48 + n" for n :: nat
  by (simp add: of_char_of)

lemma digits_val_append:
  "digits_val a (x @ y) = (case digits_val a x of None \<Rightarrow> None | Some b \<Rightarrow> digits_val b y)"
  by (induction x arbitrary: a) auto

lemma digits_dec: "digits_val a (of_str (dec n)) = Some (a * 10 ^ length (dec n) + n)"
proof (induction n arbitrary: a rule: dec.induct)
  case (1 n)
  show ?case
  proof (cases "n < 10")
    case True
    then show ?thesis using of_char_digit [of n] by (simp add: dec.simps [of n] is_ascii_digit_def of_str_simps)
  next
    case False
    have "digits_val b [of_char (char_of (48 + n mod 10))] = Some (b * 10 + n mod 10)" for b
      using of_char_digit [of "n mod 10"] by (simp add: is_ascii_digit_def)
    then show ?thesis using False 1 by (simp add: dec.simps [of n] digits_val_append algebra_simps of_str_simps)
  qed
qed

lemma dec_codes: "c \<in> set (of_str (dec n)) \<Longrightarrow> 48 \<le> c \<and> c \<le> 57"
proof (induction n rule: dec.induct)
  case (1 n)
  then show ?case using of_char_digit [of n] of_char_digit [of "n mod 10"]
    by (auto simp: dec.simps [of n] of_str_simps split: if_splits)
qed

lemma dec_nonempty: "dec n \<noteq> []"
  by (subst dec.simps) simp

lemma dec_hd: "48 \<le> hd (of_str (dec n)) \<and> hd (of_str (dec n)) \<le> 57"
proof (rule dec_codes)
  have "of_str (dec n) \<noteq> []" using dec_nonempty by (simp add: of_str_def)
  then show "hd (of_str (dec n)) \<in> set (of_str (dec n))" by simp
qed

lemma int_digits_dec: "int_digits (dec n) = Some (int n)"
proof -
  have d: "list_all (\<lambda>c. is_ascii_digit (of_char c)) (dec n)"
    using dec_codes [of _ n] by (auto simp: list_all_iff is_ascii_digit_def of_str_def)
  have "foldl (\<lambda>n c. 10 * n + (int (of_char c) - 48)) 0 (dec n) = int n"
  proof (induction n rule: dec.induct)
    case (1 n)
    show ?case
    proof (cases "n < 10")
      case True
      then show ?thesis using of_char_digit [of n] by (simp add: dec.simps [of n])
    next
      case False
      then have "foldl (\<lambda>n c. 10 * n + (int (of_char c) - 48)) 0 (dec (n div 10)) = int (n div 10)" by (rule 1)
      then show ?thesis using False of_char_digit [of "n mod 10"] by (simp add: dec.simps [of n] zdiv_int zmod_int)
    qed
  qed
  then show ?thesis using d dec_nonempty by (simp add: int_digits_def)
qed

lemma dec_head: "dec n = c # cs \<Longrightarrow> c \<noteq> CHR ''-'' \<and> c \<noteq> CHR ''+''"
  using dec_codes [of "of_char c" n] by (auto simp: of_str_def)

lemma parse_i64_dec_int: "i64_min \<le> i \<Longrightarrow> i \<le> i64_max \<Longrightarrow> parse_i64 (dec_int i) = Some i"
proof (cases "i < 0")
  case True
  assume "i64_min \<le> i" "i \<le> i64_max"
  then show ?thesis using True by (simp add: parse_i64_def dec_int_def int_digits_dec)
next
  case False
  assume a: "i64_min \<le> i" "i \<le> i64_max"
  obtain c cs where c: "dec (nat i) = c # cs" using dec_nonempty [of "nat i"] by (cases "dec (nat i)") auto
  have "int_digits (c # cs) = Some i" using int_digits_dec [of "nat i"] c False by simp
  then show ?thesis using a False dec_head [OF c] by (simp add: parse_i64_def dec_int_def c)
qed
lemma trim_plain: "\<forall>c \<in> set t. \<not> is_white c \<Longrightarrow> trim t = t"
proof -
  assume *: "\<forall>c \<in> set t. \<not> is_white c"
  have d: "dropWhile is_white xs = xs" if "set xs \<subseteq> set t" for xs
    using * that by (cases xs) auto
  show ?thesis unfolding trim_def by (simp add: d)
qed

lemma trim_dec: "trim (of_str (dec n)) = of_str (dec n)"
  using dec_codes by (intro trim_plain) (force simp: is_white_def)

lemma parse_u64_dec: "n < 2 ^ 64 \<Longrightarrow> parse_u64 (of_str (dec n)) = Some n"
proof -
  assume "n < 2 ^ 64"
  moreover have "of_str (dec n) \<noteq> []" using dec_nonempty by (simp add: of_str_def)
  moreover have "hd (of_str (dec n)) \<noteq> 43"
    using dec_hd [of n] by auto
  ultimately show ?thesis using digits_dec [of 0 n]
    by (cases "of_str (dec n)") (auto simp: parse_u64_def Let_def simp del: digits_val.simps)
qed

end
