(* ===== verification/Chat.thy ===== *)
theory Chat
  imports Registry Strings "HOL-Library.Char_ord" "HOL-Library.List_Lexorder" "HOL-Library.Product_Lexorder"
begin

text \<open>
  The message store (\<open>src/daemon/chat.rs\<close>: threads, messages, the backlog a subscriber
  drains) and messages between sessions with their do-not-disturb handling
  (\<open>send_message\<close>, \<open>parse_dnd_state\<close>, \<open>drain_dnd_tick\<close> and their neighbours in
  \<open>src/daemon/agent_registry.rs\<close>).

  Fresh UUIDs and the clock are arguments; so is the test whether a text is a UUID and what
  \<open>chrono\<close> makes of \<open>until HH:MM\<close>.
\<close>

section \<open>Messages\<close>

record message =
  cm_id :: string
  cm_thread :: string
  cm_from :: string
  cm_content :: string
  cm_reply :: "string option"
  cm_created :: int
  cm_delivered :: "int option"
  cm_voice :: bool
  cm_topic :: "int option"

record chat_db =
  threads :: "(string \<times> int) rows"
  messages :: "message rows"

definition insert_message ::
  "string \<Rightarrow> string \<Rightarrow> string \<Rightarrow> string \<Rightarrow> string option \<Rightarrow> int \<Rightarrow> chat_db \<Rightarrow> (chat_db \<times> message) option" where
  "insert_message i thread sender content reply now d =
     (if i \<in> cm_id ` set (messages d) then None
      else let m = \<lparr>cm_id = i, cm_thread = thread, cm_from = sender, cm_content = content, cm_reply = reply,
                    cm_created = now, cm_delivered = None, cm_voice = False, cm_topic = None\<rparr>
           in Some (d\<lparr>threads := ins_ignore fst (thread, now) (threads d), messages := messages d @ [m]\<rparr>, m))"

definition resolve_reply_to :: "(string \<Rightarrow> bool) \<Rightarrow> string option \<Rightarrow> string option" where
  "resolve_reply_to is_uuid reply =
     (case reply of None \<Rightarrow> None | Some rt \<Rightarrow> if is_uuid rt then Some rt else None)"

definition by_time :: "message rows \<Rightarrow> message rows" where
  "by_time = sort_key (\<lambda>m. (cm_created m, cm_id m))"

definition undelivered :: "string \<Rightarrow> message \<Rightarrow> bool" where
  "undelivered thread m \<longleftrightarrow> cm_thread m = thread \<and> cm_delivered m = None"

definition drain_backlog :: "string \<Rightarrow> int \<Rightarrow> chat_db \<Rightarrow> chat_db \<times> message list" where
  "drain_backlog thread now d =
     (let out = by_time (filter (undelivered thread) (messages d))
      in (d\<lparr>messages := fold (\<lambda>m. upd_where (\<lambda>r. cm_id r = cm_id m) (\<lambda>r. r\<lparr>cm_delivered := Some now\<rparr>))
               out (messages d)\<rparr>, out))"

text \<open>A negative \<open>LIMIT\<close> is no limit.\<close>

definition limit :: "int option \<Rightarrow> 'a list \<Rightarrow> 'a list" where
  "limit l xs = (case l of None \<Rightarrow> xs | Some n \<Rightarrow> if n < 0 then xs else take (nat n) xs)"

definition list_messages :: "string \<Rightarrow> int option \<Rightarrow> int option \<Rightarrow> chat_db \<Rightarrow> message list" where
  "list_messages thread since lim d =
     limit lim (by_time (filter (\<lambda>m. cm_thread m = thread
       \<and> (case since of None \<Rightarrow> True | Some s \<Rightarrow> s < cm_created m)) (messages d)))"

definition max_created :: "message list \<Rightarrow> int option" where
  "max_created ms = (if ms = [] then None else Some (Max (set (map cm_created ms))))"

definition list_threads :: "chat_db \<Rightarrow> (string \<times> nat \<times> int option) list" where
  "list_threads d =
     map (\<lambda>(t, _). let ms = filter (\<lambda>m. cm_thread m = t) (messages d) in (t, length ms, max_created ms))
       (sort_key (\<lambda>(t, c). (c, t)) (threads d))"

definition mark_delivered :: "string \<Rightarrow> int \<Rightarrow> chat_db \<Rightarrow> chat_db \<times> nat" where
  "mark_delivered i now d =
     (let p = (\<lambda>m. cm_id m = i \<and> cm_delivered m = None)
      in (d\<lparr>messages := upd_where p (\<lambda>m. m\<lparr>cm_delivered := Some now\<rparr>) (messages d)\<rparr>,
          count_where p (messages d)))"

section \<open>Session to session\<close>

definition indefinite_dnd :: int where "indefinite_dnd = i64_max"

datatype send_decision = Deliver | Queue int

definition agent_thread :: "string \<Rightarrow> string" where "agent_thread aid = ''agent:'' @ aid"

definition send_message ::
  "string \<Rightarrow> string \<Rightarrow> string \<Rightarrow> string \<Rightarrow> int \<Rightarrow> agent_row rows \<Rightarrow> chat_db
     \<Rightarrow> reg_error + chat_db \<times> string \<times> send_decision" where
  "send_message i sender target content now reg d =
     (case row_of ar_id target reg of None \<Rightarrow> Inl (NotAlive target)
      | Some r \<Rightarrow>
        if ar_state r \<noteq> Alive then Inl (NotAlive target)
        else
          let decision = (case ar_dnd r of Some ts \<Rightarrow> if now < ts then Queue ts else Deliver | None \<Rightarrow> Deliver);
              m = \<lparr>cm_id = i, cm_thread = agent_thread target, cm_from = sender, cm_content = content,
                   cm_reply = None, cm_created = now, cm_delivered = None, cm_voice = False, cm_topic = None\<rparr>
          in if i \<in> cm_id ` set (messages d) then Inl ConstraintFailed
             else Inr (d\<lparr>messages := messages d @ [m]\<rparr>, i, decision))"

section \<open>Do not disturb\<close>

text \<open>\<open>n as i64\<close>.\<close>

definition as_int64 :: "nat \<Rightarrow> int" where "as_int64 n = wrap64 (int n)"

definition day_ms :: int where "day_ms = 24 * 3600000"

text \<open>
  The text is already lowercase. \<open>today hhmm now\<close> is the time today at which the local clock
  shows \<open>hhmm\<close>, \<open>None\<close> when \<open>chrono\<close> does not parse it or there is no such time. The
  additions and the multiplication are the release build's, which wrap.
\<close>

definition parse_dnd_lower :: "(utext \<Rightarrow> int \<Rightarrow> int option) \<Rightarrow> utext \<Rightarrow> int \<Rightarrow> reg_error + int option" where
  "parse_dnd_lower today s now =
     (if s = of_str ''on'' then Inr (Some indefinite_dnd)
      else if s = of_str ''off'' then Inr None
      else if take 6 s = of_str ''until '' then
        (case today (trim (drop 6 s)) now of None \<Rightarrow> Inl BadDndTime
         | Some t \<Rightarrow> Inr (Some (if t \<le> now then t + day_ms else t)))
      else if s \<noteq> [] \<and> last s = 109 then
        (case parse_u64 (trim (butlast s)) of None \<Rightarrow> Inl BadDndNumber
         | Some n \<Rightarrow> Inr (Some (wrap64 (now + wrap64 (as_int64 n * 60000)))))
      else if s \<noteq> [] \<and> last s = 104 then
        (case parse_u64 (trim (butlast s)) of None \<Rightarrow> Inl BadDndNumber
         | Some n \<Rightarrow> Inr (Some (wrap64 (now + wrap64 (as_int64 n * 3600000)))))
      else Inl BadDndUnit)"

definition parse_dnd_state ::
  "(utext \<Rightarrow> utext) \<Rightarrow> (utext \<Rightarrow> int \<Rightarrow> int option) \<Rightarrow> utext \<Rightarrow> int \<Rightarrow> reg_error + int option" where
  "parse_dnd_state lower today s now =
     (let t = trim s in if t = [] then Inl EmptyDnd else parse_dnd_lower today (lower t) now)"

definition drain_agent_inbox :: "string \<Rightarrow> nat \<Rightarrow> chat_db \<Rightarrow> message list" where
  "drain_agent_inbox aid rate d =
     take rate (sort_key cm_created (filter (undelivered (agent_thread aid)) (messages d)))"

definition expired_dnd :: "int \<Rightarrow> agent_row \<Rightarrow> bool" where
  "expired_dnd now r = (case ar_dnd r of None \<Rightarrow> False | Some ts \<Rightarrow> ts < now)"

fun drain_each :: "string list \<Rightarrow> nat \<Rightarrow> agent_row rows \<Rightarrow> chat_db \<Rightarrow> agent_row rows \<times> message list" where
  "drain_each [] rate reg d = (reg, [])"
| "drain_each (a # as) rate reg d =
     (let reg' = upd_where (\<lambda>r. ar_id r = a) (\<lambda>r. r\<lparr>ar_dnd := None\<rparr>) reg;
          (reg'', out) = drain_each as rate reg' d
      in (reg'', drain_agent_inbox a rate d @ out))"

definition drain_dnd_tick :: "int \<Rightarrow> nat \<Rightarrow> agent_row rows \<Rightarrow> chat_db \<Rightarrow> agent_row rows \<times> nat \<times> message list" where
  "drain_dnd_tick now rate reg d =
     (let expired = map ar_id (filter (expired_dnd now) reg);
          (reg', out) = drain_each expired rate reg d
      in (reg', length expired, out))"

text \<open>
  One tick of the background task: each message drained is published and stamped delivered
  if the thread had a subscriber (\<open>subs\<close> counts them).
\<close>

definition dnd_drain_tick ::
  "int \<Rightarrow> nat \<Rightarrow> (string \<Rightarrow> nat) \<Rightarrow> agent_row rows \<times> chat_db \<Rightarrow> (agent_row rows \<times> chat_db) \<times> message list" where
  "dnd_drain_tick now rate subs s =
     (let (reg', n, out) = drain_dnd_tick now rate (fst s) (snd s)
      in ((reg', fold (\<lambda>m d. if 1 \<le> subs (cm_thread m) then fst (mark_delivered (cm_id m) now d) else d) out (snd s)),
          out))"

section \<open>Lemmas\<close>

lemma by_time_mset: "mset (by_time ms) = mset ms"
  by (simp add: by_time_def)

lemma by_time_set [simp]: "set (by_time ms) = set ms"
  by (simp add: by_time_def)

lemma stamp_fold:
  "fold (\<lambda>m. upd_where (\<lambda>r. cm_id r = cm_id m) (\<lambda>r. r\<lparr>cm_delivered := Some now\<rparr>)) out ms =
    upd_where (\<lambda>r. cm_id r \<in> cm_id ` set out) (\<lambda>r. r\<lparr>cm_delivered := Some now\<rparr>) ms"
proof (induction out arbitrary: ms)
  case (Cons m out)
  then show ?case by (simp add: upd_where_twice)
qed (simp add: upd_where_def)

lemma drain_backlog_eq:
  assumes "pk cm_id (messages d)"
  shows "drain_backlog thread now d =
    (d\<lparr>messages := upd_where (undelivered thread) (\<lambda>r. r\<lparr>cm_delivered := Some now\<rparr>) (messages d)\<rparr>,
     by_time (filter (undelivered thread) (messages d)))"
proof -
  have "cm_id r \<in> cm_id ` set (by_time (filter (undelivered thread) (messages d))) \<longleftrightarrow> undelivered thread r"
    if "r \<in> set (messages d)" for r
    using that pk_eq [OF assms that] by (auto simp: image_iff)
  then show ?thesis
    unfolding drain_backlog_def Let_def stamp_fold by (simp add: upd_where_def cong: map_cong)
qed

lemma filter_upd_out:
  "(\<And>r. q (f r) = c r) \<Longrightarrow> filter q (upd_where p f t) = map (\<lambda>r. if p r then f r else r)
    (filter (\<lambda>r. if p r then c r else q r) t)"
  by (induction t) auto

section \<open>Posting and draining\<close>

datatype chat_op =
    Post string string string string "string option" int
  | Send string string string string int "agent_row rows"
  | Drain string int

fun chat_run :: "chat_op list \<Rightarrow> chat_db \<Rightarrow> chat_db \<times> message list" where
  "chat_run [] d = (d, [])"
| "chat_run (Post i thread sender content reply now # ops) d =
     (case insert_message i thread sender content reply now d of None \<Rightarrow> chat_run ops d
      | Some (d', _) \<Rightarrow> chat_run ops d')"
| "chat_run (Send i sender target content now reg # ops) d =
     (case send_message i sender target content now reg d of Inl _ \<Rightarrow> chat_run ops d
      | Inr (d', _) \<Rightarrow> chat_run ops d')"
| "chat_run (Drain thread now # ops) d =
     (let (d1, out) = drain_backlog thread now d; (d2, log) = chat_run ops d1 in (d2, out @ log))"

definition stamped :: "chat_db \<Rightarrow> message list" where
  "stamped d = filter (\<lambda>m. cm_delivered m \<noteq> None) (messages d)"

lemma stamped_append [simp]:
  "stamped (d\<lparr>threads := x, messages := messages d @ [m]\<rparr>) = stamped d @ (if cm_delivered m = None then [] else [m])"
  "stamped (d\<lparr>messages := messages d @ [m]\<rparr>) = stamped d @ (if cm_delivered m = None then [] else [m])"
  by (simp_all add: stamped_def)

definition erase :: "message \<Rightarrow> message" where
  "erase m = m\<lparr>cm_delivered := None\<rparr>"

lemma erase_id [simp]: "cm_id (erase m) = cm_id m"
  by (simp add: erase_def)

lemma erase_undelivered: "undelivered t m \<Longrightarrow> erase m = m"
  by (simp add: erase_def undelivered_def)

lemma stamp_rows:
  "mset (map erase (filter (\<lambda>m. cm_delivered m \<noteq> None)
      (upd_where (undelivered thread) (\<lambda>r. r\<lparr>cm_delivered := Some now\<rparr>) ms))) =
    mset (map erase (filter (\<lambda>m. cm_delivered m \<noteq> None) ms)) + mset (filter (undelivered thread) ms)"
  by (induction ms) (auto simp: undelivered_def erase_def)

lemma messages_upd [simp]: "messages (d\<lparr>messages := x\<rparr>) = x"
  by simp

lemma drain_rows:
  assumes "pk cm_id (messages d)"
  shows "mset (map erase (stamped (fst (drain_backlog thread now d)))) =
      mset (map erase (stamped d)) + mset (snd (drain_backlog thread now d))"
    and "pk cm_id (messages (fst (drain_backlog thread now d)))"
    and "map cm_id (messages (fst (drain_backlog thread now d))) = map cm_id (messages d)"
proof -
  show "mset (map erase (stamped (fst (drain_backlog thread now d)))) =
      mset (map erase (stamped d)) + mset (snd (drain_backlog thread now d))"
    unfolding drain_backlog_eq [OF assms] stamped_def fst_conv snd_conv by_time_mset messages_upd
    by (rule stamp_rows)
  show "pk cm_id (messages (fst (drain_backlog thread now d)))"
    "map cm_id (messages (fst (drain_backlog thread now d))) = map cm_id (messages d)"
    using assms by (simp_all add: drain_backlog_eq pk_upd_where keys_upd_where)
qed

lemma chat_run_rows:
  "pk cm_id (messages d) \<Longrightarrow> pk cm_id (messages (fst (chat_run ops d)))
    \<and> mset (map erase (stamped (fst (chat_run ops d)))) = mset (map erase (stamped d)) + mset (snd (chat_run ops d))"
proof (induction ops d rule: chat_run.induct)
  case (2 i thread sender content reply now ops d)
  then show ?case by (auto simp: insert_message_def Let_def pk_snoc split: option.split)
next
  case (3 i sender target content now reg ops d)
  then show ?case by (auto simp: send_message_def Let_def pk_snoc split: option.split sum.split)
next
  case (4 thread now ops d)
  let ?d = "fst (drain_backlog thread now d)"
  have "pk cm_id (messages ?d)" using drain_rows(2) [OF 4(2)] .
  with 4(1) [of _ ?d "snd (drain_backlog thread now d)"] drain_rows(1) [OF 4(2), of thread now]
  show ?case by (simp add: split_beta)
qed simp

lemma chat_run_append:
  "chat_run (xs @ ys) d = (fst (chat_run ys (fst (chat_run xs d))), snd (chat_run xs d) @ snd (chat_run ys (fst (chat_run xs d))))"
proof (induction xs d rule: chat_run.induct)
  case (4 thread now ops d)
  then show ?case by (cases "drain_backlog thread now d") (simp add: split_beta)
qed (auto split: option.split sum.split)

lemma drain_empties:
  assumes "pk cm_id (messages d)" "m \<in> set (messages (fst (drain_backlog t now d)))" "cm_thread m = t"
  shows "cm_delivered m \<noteq> None"
proof -
  have "m \<in> set (upd_where (undelivered t) (\<lambda>r. r\<lparr>cm_delivered := Some now\<rparr>) (messages d))"
    using assms(2) by (simp add: drain_backlog_eq [OF assms(1)])
  then consider r where "m = r\<lparr>cm_delivered := Some now\<rparr>" | "\<not> undelivered t m"
    unfolding set_upd_where by blast
  then show ?thesis using assms(3) by cases (simp_all add: undelivered_def)
qed

text \<open>Whatever is posted, sent between sessions and drained, in any order, no message is handed out
  twice, and what has been handed out is what the table has stamped, row for row; one more drain of a
  thread hands out, oldest first, the rest of it, so that the whole thread has been handed out once.\<close>

theorem backlog_exactly_once:
  assumes "pk cm_id (messages d)" "stamped d = []"
  shows "let (d', log) = chat_run (ops @ [Drain t now]) d in
    distinct (map cm_id log) \<and> mset log = mset (map erase (stamped d'))
    \<and> (\<forall>m \<in> set (messages d'). cm_thread m = t \<longrightarrow> erase m \<in> set log)
    \<and> sorted (map (\<lambda>m. (cm_created m, cm_id m)) (snd (drain_backlog t now (fst (chat_run ops d)))))"
proof -
  let ?r = "chat_run (ops @ [Drain t now]) d" and ?m = "fst (chat_run ops d)"
  have p: "pk cm_id (messages (fst ?r))" and e: "mset (snd ?r) = mset (map erase (stamped (fst ?r)))"
    using chat_run_rows [OF assms(1), of "ops @ [Drain t now]"] assms(2) by simp_all
  have "distinct (map cm_id (stamped (fst ?r)))"
    using p by (simp add: pk_def stamped_def distinct_map_filter)
  then have "distinct (map cm_id (map erase (stamped (fst ?r))))" by (simp add: comp_def)
  moreover have "mset (map cm_id (snd ?r)) = mset (map cm_id (map erase (stamped (fst ?r))))"
    by (simp only: mset_map [of cm_id] e)
  ultimately have d: "distinct (map cm_id (snd ?r))" using mset_eq_imp_distinct_iff by blast
  have pm: "pk cm_id (messages ?m)" using chat_run_rows [OF assms(1)] by blast
  have fr: "fst ?r = fst (drain_backlog t now ?m)" by (simp add: chat_run_append split_beta)
  have "erase m \<in> set (snd ?r)" if "m \<in> set (messages (fst ?r))" "cm_thread m = t" for m
  proof -
    have "cm_delivered m \<noteq> None"
      using drain_empties [OF pm] that unfolding fr by blast
    with that have "erase m \<in> set (map erase (stamped (fst ?r)))" by (auto simp: stamped_def)
    then show ?thesis using e by (metis set_mset_mset)
  qed
  with d e show ?thesis by (simp add: case_prod_beta drain_backlog_eq [OF pm] by_time_def)
qed

theorem backlog_exactly_once_witness:
  "mset (snd (chat_run ([Post ''m1'' ''t'' ''u'' ''hi'' None 5, Drain ''t'' 6, Post ''m2'' ''t'' ''u'' ''yo'' None 7] @ [Drain ''t'' 8])
      \<lparr>threads = [], messages = []\<rparr>)) =
   mset (map erase (stamped (fst (chat_run ([Post ''m1'' ''t'' ''u'' ''hi'' None 5, Drain ''t'' 6, Post ''m2'' ''t'' ''u'' ''yo'' None 7] @ [Drain ''t'' 8])
      \<lparr>threads = [], messages = []\<rparr>))))"
  using backlog_exactly_once [of "\<lparr>threads = [], messages = []\<rparr>"
      "[Post ''m1'' ''t'' ''u'' ''hi'' None 5, Drain ''t'' 6, Post ''m2'' ''t'' ''u'' ''yo'' None 7]" "''t''" 8]
  by (simp only: case_prod_beta Let_def pk_def stamped_def chat_db.simps list.map filter.simps distinct.simps simp_thms)

section \<open>Sending to a session\<close>

fun drains :: "string \<Rightarrow> chat_op \<Rightarrow> bool" where
  "drains t (Drain s now) = (s = t)"
| "drains t _ = False"

lemma chat_run_keeps:
  "pk cm_id (messages d) \<Longrightarrow> \<forall>op \<in> set ops. \<not> drains t op \<Longrightarrow> m \<in> set (messages d) \<Longrightarrow> undelivered t m \<Longrightarrow>
    m \<in> set (messages (fst (chat_run ops d)))"
proof (induction ops d rule: chat_run.induct)
  case (2 i thread sender content reply now ops d)
  then show ?case by (auto simp: insert_message_def Let_def pk_snoc split: option.split)
next
  case (3 i sender target content now reg ops d)
  then show ?case by (auto simp: send_message_def Let_def pk_snoc split: option.split sum.split)
next
  case (4 thread now ops d)
  have "\<not> undelivered thread m" using 4(3,5) by (auto simp: undelivered_def)
  with 4(4) have "m \<in> set (messages (fst (drain_backlog thread now d)))"
    by (auto simp: drain_backlog_eq [OF 4(2)] tbl)
  with 4(1) [of _ "fst (drain_backlog thread now d)" "snd (drain_backlog thread now d)"] 4(3,5)
    drain_rows(2) [OF 4(2), of thread now]
  show ?case by (simp add: split_beta)
qed simp

text \<open>A message to a session is accepted exactly when the session's row is alive and the id is new; it
  is announced at once unless the session is in do-not-disturb, and either way the next time the
  session's thread is drained, whatever happened in between, the message is handed out unchanged.\<close>

theorem send_never_lost:
  assumes "pk cm_id (messages d)" "i \<notin> cm_id ` set (messages d)"
  shows "case send_message i sender t content now reg d of
      Inl e \<Rightarrow> e = NotAlive t \<and> \<not> (\<exists>r. row_of ar_id t reg = Some r \<and> ar_state r = Alive)
    | Inr (d', i', dcn) \<Rightarrow> i' = i
        \<and> (\<exists>r. row_of ar_id t reg = Some r \<and> ar_state r = Alive
             \<and> (\<forall>ts. dcn = Queue ts \<longleftrightarrow> ar_dnd r = Some ts \<and> now < ts))
        \<and> (\<forall>ops now'. (\<forall>op \<in> set ops. \<not> drains (agent_thread t) op) \<longrightarrow>
             (\<exists>m \<in> set (snd (drain_backlog (agent_thread t) now' (fst (chat_run ops d')))).
                cm_id m = i \<and> cm_from m = sender \<and> cm_content m = content \<and> cm_created m = now))"
proof (cases "send_message i sender t content now reg d")
  case (Inl e)
  then show ?thesis using assms(2)
    by (auto simp: send_message_def Let_def split: option.splits if_splits)
next
  case (Inr r)
  obtain d' i' dcn where r: "r = (d', i', dcn)" by (cases r) auto
  define m where "m = \<lparr>cm_id = i, cm_thread = agent_thread t, cm_from = sender, cm_content = content,
                   cm_reply = None, cm_created = now, cm_delivered = None, cm_voice = False, cm_topic = None\<rparr>"
  have d': "d' = d\<lparr>messages := messages d @ [m]\<rparr>" and i': "i' = i"
    using Inr r by (auto simp: send_message_def Let_def m_def split: option.splits if_splits)
  have dcn: "\<exists>r. row_of ar_id t reg = Some r \<and> ar_state r = Alive
             \<and> (\<forall>ts. dcn = Queue ts \<longleftrightarrow> ar_dnd r = Some ts \<and> now < ts)"
    using Inr r by (auto simp: send_message_def Let_def split: option.splits if_splits)
  have pk: "pk cm_id (messages d')" using assms by (simp add: d' pk_snoc m_def)
  have u: "undelivered (agent_thread t) m" by (simp add: undelivered_def m_def)
  have "m \<in> set (snd (drain_backlog (agent_thread t) now' (fst (chat_run ops d'))))"
    if "\<forall>op \<in> set ops. \<not> drains (agent_thread t) op" for ops now'
    using chat_run_keeps [OF pk that _ u] u chat_run_rows [OF pk, of ops] by (simp add: drain_backlog_eq d')
  moreover have "cm_id m = i" "cm_from m = sender" "cm_content m = content" "cm_created m = now"
    by (simp_all add: m_def)
  ultimately show ?thesis using dcn i' Inr r by (simp only: sum.case case_prod_conv) blast
qed

definition quiet_b :: "agent_row rows" where
  "quiet_b = upd_where (\<lambda>r. ar_id r = ''b'') (\<lambda>r. r\<lparr>ar_dnd := Some 200\<rparr>) (fst two_agents)"

definition two_waiting :: chat_db where
  "two_waiting = fst (chat_run [Send ''m1'' ''a'' ''b'' ''hi'' 100 quiet_b, Send ''m2'' ''a'' ''b'' ''yo'' 101 quiet_b]
     \<lparr>threads = [], messages = []\<rparr>)"

theorem send_never_lost_witness:
  "case send_message ''m3'' ''a'' ''b'' ''ok'' 102 quiet_b two_waiting of
      Inl e \<Rightarrow> e = NotAlive ''b'' \<and> \<not> (\<exists>r. row_of ar_id ''b'' quiet_b = Some r \<and> ar_state r = Alive)
    | Inr (d', i', dcn) \<Rightarrow> i' = ''m3''
        \<and> (\<exists>r. row_of ar_id ''b'' quiet_b = Some r \<and> ar_state r = Alive
             \<and> (\<forall>ts. dcn = Queue ts \<longleftrightarrow> ar_dnd r = Some ts \<and> 102 < ts))
        \<and> (\<forall>ops now'. (\<forall>op \<in> set ops. \<not> drains (agent_thread ''b'') op) \<longrightarrow>
             (\<exists>m \<in> set (snd (drain_backlog (agent_thread ''b'') now' (fst (chat_run ops d')))).
                cm_id m = ''m3'' \<and> cm_from m = ''a'' \<and> cm_content m = ''ok'' \<and> cm_created m = 102))"
proof (rule send_never_lost)
  show "pk cm_id (messages two_waiting)" unfolding two_waiting_def
    by (rule conjunct1 [OF chat_run_rows]) (simp add: pk_def)
  show "''m3'' \<notin> cm_id ` set (messages two_waiting)" by code_simp
qed

section \<open>The do-not-disturb tick\<close>

lemma drain_each_eq:
  "drain_each as rate reg d = (upd_where (\<lambda>r. ar_id r \<in> set as) (\<lambda>r. r\<lparr>ar_dnd := None\<rparr>) reg,
     concat (map (\<lambda>a. drain_agent_inbox a rate d) as))"
proof (induction as arbitrary: reg)
  case (Cons a as)
  then show ?case by (simp add: upd_where_twice)
qed (simp add: upd_where_def)

fun ticks :: "(int \<times> nat \<times> (string \<Rightarrow> nat)) list \<Rightarrow> agent_row rows \<times> chat_db \<Rightarrow> (agent_row rows \<times> chat_db) \<times> message list" where
  "ticks [] s = (s, [])"
| "ticks ((now, rate, subs) # ts) s =
     (let (s1, out) = dnd_drain_tick now rate subs s; (s2, log) = ticks ts s1 in (s2, out @ log))"

lemma inbox_mem: "m \<in> set (drain_agent_inbox b rate d) \<Longrightarrow> m \<in> set (messages d) \<and> undelivered (agent_thread b) m"
  unfolding drain_agent_inbox_def by (drule in_set_takeD) simp

lemma inbox_thread: "m \<in> set (drain_agent_inbox b rate d) \<Longrightarrow> cm_thread m = agent_thread b"
  using inbox_mem by (simp add: undelivered_def)

lemma inbox_filter:
  "filter (\<lambda>m. cm_thread m = agent_thread a) (drain_agent_inbox b rate d) = (if a = b then drain_agent_inbox a rate d else [])"
proof -
  have "cm_thread m = agent_thread b" if "m \<in> set (drain_agent_inbox b rate d)" for m
    by (rule inbox_thread [OF that])
  then have "filter (\<lambda>m. cm_thread m = agent_thread a) (drain_agent_inbox b rate d) =
      filter (\<lambda>m. a = b) (drain_agent_inbox b rate d)"
    by (intro filter_cong) (auto simp: agent_thread_def)
  then show ?thesis by simp
qed

lemma inboxes_filter:
  "distinct as \<Longrightarrow> filter (\<lambda>m. cm_thread m = agent_thread a) (concat (map (\<lambda>b. drain_agent_inbox b rate d) as)) =
    (if a \<in> set as then drain_agent_inbox a rate d else [])"
  by (induction as) (auto simp: inbox_filter)

lemma mark_fold_keeps:
  "x \<in> set (messages d) \<Longrightarrow> cm_id x \<notin> cm_id ` set out \<Longrightarrow>
    x \<in> set (messages (fold (\<lambda>m d. if p m then fst (mark_delivered (cm_id m) now d) else d) out d))"
  by (induction out arbitrary: d) (auto simp: mark_delivered_def Let_def tbl)

lemma tick_eqs:
  "snd (dnd_drain_tick now rate subs (reg, d)) =
     concat (map (\<lambda>a. drain_agent_inbox a rate d) (map ar_id (filter (expired_dnd now) reg)))"
  "fst (fst (dnd_drain_tick now rate subs (reg, d))) =
     upd_where (\<lambda>r. ar_id r \<in> set (map ar_id (filter (expired_dnd now) reg))) (\<lambda>r. r\<lparr>ar_dnd := None\<rparr>) reg"
  by (simp_all only: dnd_drain_tick_def drain_dnd_tick_def drain_each_eq Let_def case_prod_conv fst_conv snd_conv)

lemma tick_dnd_off:
  assumes "\<forall>r \<in> set reg. ar_id r = a \<longrightarrow> ar_dnd r = None" "pk ar_id reg"
  shows "(\<forall>r \<in> set (fst (fst (dnd_drain_tick now rate subs (reg, d)))). ar_id r = a \<longrightarrow> ar_dnd r = None)
    \<and> pk ar_id (fst (fst (dnd_drain_tick now rate subs (reg, d))))
    \<and> filter (\<lambda>m. cm_thread m = agent_thread a) (snd (dnd_drain_tick now rate subs (reg, d))) = []"
proof -
  have "distinct (map ar_id (filter (expired_dnd now) reg))"
    using assms(2) by (simp add: pk_def distinct_map_filter)
  moreover have "a \<notin> set (map ar_id (filter (expired_dnd now) reg))"
    using assms(1) by (auto simp: expired_dnd_def)
  ultimately show ?thesis unfolding tick_eqs using assms
    by (simp only: inboxes_filter) (simp add: pk_upd_where ball_upd_where)
qed

lemma ticks_dnd_off:
  "\<forall>r \<in> set (fst s). ar_id r = a \<longrightarrow> ar_dnd r = None \<Longrightarrow> pk ar_id (fst s) \<Longrightarrow>
    filter (\<lambda>m. cm_thread m = agent_thread a) (snd (ticks ts s)) = []"
proof (induction ts arbitrary: s)
  case (Cons t ts)
  obtain now rate subs where t: "t = (now, rate, subs)" by (cases t) auto
  have *: "(\<forall>r \<in> set (fst (fst (dnd_drain_tick now rate subs s))). ar_id r = a \<longrightarrow> ar_dnd r = None)
    \<and> pk ar_id (fst (fst (dnd_drain_tick now rate subs s)))
    \<and> filter (\<lambda>m. cm_thread m = agent_thread a) (snd (dnd_drain_tick now rate subs s)) = []"
    using tick_dnd_off [of "fst s" a now rate subs "snd s"] Cons.prems by simp
  with Cons.IH [of "fst (dnd_drain_tick now rate subs s)"] show ?case by (simp add: t split_beta)
qed simp

lemma some_left:
  assumes "pk cm_id ms" "length xs < count_where p ms"
  shows "\<exists>m \<in> set ms. p m \<and> cm_id m \<notin> cm_id ` set xs"
proof (rule ccontr)
  assume "\<not> ?thesis"
  then have "cm_id ` set (filter p ms) \<subseteq> cm_id ` set xs" by auto
  then have "card (cm_id ` set (filter p ms)) \<le> length xs"
    by (meson List.finite_set card_image_le card_length card_mono finite_imageI le_trans)
  moreover have "card (set (map cm_id (filter p ms))) = length (map cm_id (filter p ms))"
    using assms(1) by (intro distinct_card) (simp add: pk_def distinct_map_filter)
  ultimately show False using assms(2) by (simp add: count_where_def)
qed

text \<open>When a do-not-disturb period has run out, the background task hands out at most its per-tick
  quota of the session's queue and clears the flag; since later ticks look at the flag only, they
  never return to the rest: unless the session drains its thread itself, those messages stay.\<close>

theorem dnd_remainder_stranded:
  assumes "pk ar_id reg" "pk cm_id (messages d)" "r \<in> set reg" "expired_dnd now r"
    and "rate < count_where (undelivered (agent_thread (ar_id r))) (messages d)"
  shows "let (s', out) = dnd_drain_tick now rate subs (reg, d) in
     length (filter (\<lambda>m. cm_thread m = agent_thread (ar_id r)) out) = rate
   \<and> (\<exists>m \<in> set (messages (snd s')). undelivered (agent_thread (ar_id r)) m)
   \<and> (\<forall>ts. filter (\<lambda>m. cm_thread m = agent_thread (ar_id r)) (snd (ticks ts s')) = [])"
proof -
  let ?a = "ar_id r" and ?t = "agent_thread (ar_id r)" and ?s = "dnd_drain_tick now rate subs (reg, d)"
  let ?e = "map ar_id (filter (expired_dnd now) reg)"
  have dist: "distinct ?e" using assms(1) by (simp add: pk_def distinct_map_filter)
  have a: "?a \<in> set ?e" using assms(3,4) by auto
  have out: "snd ?s = concat (map (\<lambda>a. drain_agent_inbox a rate d) ?e)"
    and reg: "fst (fst ?s) = upd_where (\<lambda>r. ar_id r \<in> set ?e) (\<lambda>r. r\<lparr>ar_dnd := None\<rparr>) reg"
    by (rule tick_eqs)+
  have f: "filter (\<lambda>m. cm_thread m = ?t) (snd ?s) = drain_agent_inbox ?a rate d"
    unfolding out using inboxes_filter [OF dist] a by simp
  have l: "length (drain_agent_inbox ?a rate d) = rate"
    using assms(5) by (simp add: drain_agent_inbox_def count_where_def)
  obtain m where m: "m \<in> set (messages d)" "undelivered ?t m" "cm_id m \<notin> cm_id ` set (drain_agent_inbox ?a rate d)"
    using some_left [OF assms(2), of "drain_agent_inbox ?a rate d" "undelivered ?t"] l assms(5) by auto
  have "cm_id m \<notin> cm_id ` set (snd ?s)"
  proof
    assume "cm_id m \<in> cm_id ` set (snd ?s)"
    then obtain x where x: "x \<in> set (snd ?s)" "cm_id x = cm_id m" by auto
    have "x \<in> set (messages d)"
      using x(1) inbox_mem [of x] unfolding out set_concat by auto
    then have "x = m" using pk_eq [OF assms(2)] x(2) m(1) by auto
    then have "x \<in> set (filter (\<lambda>m. cm_thread m = ?t) (snd ?s))" using x m(2) by (simp add: undelivered_def)
    then show False using f m(3) x(2) by (metis imageI)
  qed
  then have keep: "m \<in> set (messages (snd (fst ?s)))"
    using mark_fold_keeps [OF m(1), of "snd ?s" "\<lambda>m. 1 \<le> subs (cm_thread m)" now]
    by (simp add: dnd_drain_tick_def split_beta)
  have "\<forall>x \<in> set (fst (fst ?s)). ar_id x = ?a \<longrightarrow> ar_dnd x = None" "pk ar_id (fst (fst ?s))"
    unfolding reg using a assms(1) by (auto simp: ball_upd_where pk_upd_where)
  with ticks_dnd_off have "\<forall>ts. filter (\<lambda>m. cm_thread m = ?t) (snd (ticks ts (fst ?s))) = []" by blast
  with f l keep m(2) show ?thesis by (auto simp: case_prod_beta)
qed

theorem dnd_remainder_stranded_witness:
  "let (s', out) = dnd_drain_tick 201 1 (\<lambda>_. 1) (quiet_b, two_waiting) in
     length (filter (\<lambda>m. cm_thread m = agent_thread (ar_id (quiet_b ! 1))) out) = 1
   \<and> (\<exists>m \<in> set (messages (snd s')). undelivered (agent_thread (ar_id (quiet_b ! 1))) m)
   \<and> (\<forall>ts. filter (\<lambda>m. cm_thread m = agent_thread (ar_id (quiet_b ! 1))) (snd (ticks ts s')) = [])"
proof (rule dnd_remainder_stranded)
  show "pk ar_id quiet_b" by code_simp
  show "pk cm_id (messages two_waiting)" unfolding two_waiting_def
    by (rule conjunct1 [OF chat_run_rows]) (simp add: pk_def)
  have "length quiet_b = 2" by code_simp
  then show "quiet_b ! 1 \<in> set quiet_b" by simp
  show "expired_dnd 201 (quiet_b ! 1)" by code_simp
  show "1 < count_where (undelivered (agent_thread (ar_id (quiet_b ! 1)))) (messages two_waiting)" by code_simp
qed

section \<open>Reading a do-not-disturb setting\<close>

declare of_str_simps [simp]

text \<open>\<open><n>m\<close> and \<open><n>h\<close> set do-not-disturb until exactly that long from now as long as the sum fits
  an \<open>i64\<close>, and every count that fits a \<open>u64\<close> is accepted: when the product does not fit, it wraps.\<close>

theorem dnd_duration:
  assumes "n < 2 ^ 64" "\<forall>t. (\<forall>c \<in> set t. c < 128 \<and> \<not> (65 \<le> c \<and> c \<le> 90)) \<longrightarrow> lower t = t" "0 \<le> now"
    and "u = CHR ''m'' \<and> ms = 60000 \<or> u = CHR ''h'' \<and> ms = 3600000"
  shows "parse_dnd_state lower today (of_str (dec n @ [u])) now = Inr (Some (wrap64 (now + wrap64 (as_int64 n * ms))))
    \<and> (now + int n * ms \<le> i64_max \<longrightarrow>
        parse_dnd_state lower today (of_str (dec n @ [u])) now = Inr (Some (now + int n * ms)))"
proof -
  let ?t = "of_str (dec n @ [u])"
  have u: "of_char u = (109::nat) \<or> of_char u = (104::nat)" using assms(4) by auto
  have cs: "\<forall>c \<in> set ?t. (48 \<le> c \<and> c \<le> 57) \<or> c = 109 \<or> c = 104"
    using dec_codes u by auto
  have tr: "trim ?t = ?t" using cs by (intro trim_plain) (auto simp: is_white_def)
  have lo: "lower ?t = ?t" using cs assms(2) by fastforce
  have h: "hd ?t \<ge> 48 \<and> hd ?t \<le> 57" "?t \<noteq> []"
    using dec_hd [of n] dec_nonempty [of n] by (simp_all add: of_str_def hd_append)
  have ne: "?t \<noteq> of_str ''on'' \<and> ?t \<noteq> of_str ''off'' \<and> take 6 ?t \<noteq> of_str ''until ''"
    using h by (cases ?t) (auto simp: of_str_def)
  have p: "parse_u64 (trim (butlast ?t)) = Some n" using parse_u64_dec [OF assms(1)] by (simp add: trim_dec)
  have e: "parse_dnd_state lower today ?t now = Inr (Some (wrap64 (now + wrap64 (as_int64 n * ms))))"
    using ne p assms(4) unfolding parse_dnd_state_def parse_dnd_lower_def tr lo Let_def by auto
  have "now + int n * ms \<le> i64_max \<Longrightarrow> wrap64 (now + wrap64 (as_int64 n * ms)) = now + int n * ms"
  proof -
    assume le: "now + int n * ms \<le> i64_max"
    have ms: "1 \<le> ms" using assms(4) by auto
    then have "int n \<le> int n * ms" using mult_left_mono [of 1 ms "int n"] by simp
    then have "as_int64 n = int n" unfolding as_int64_def using le assms(3)
      by (intro wrap64_id) (auto simp: i64_min_def)
    moreover have "0 \<le> int n * ms" using ms by simp
    ultimately show ?thesis using le assms(3) by (simp add: wrap64_id i64_min_def)
  qed
  with e show ?thesis by simp
qed

definition ascii_lower_text :: "utext \<Rightarrow> utext" where
  "ascii_lower_text = map (\<lambda>c. if 65 \<le> c \<and> c \<le> 90 then c + 32 else c)"

theorem dnd_duration_witness:
  "parse_dnd_state ascii_lower_text (\<lambda>_ _. None) (of_str (dec 153722867280913 @ ''m'')) 1000 =
     Inr (Some (wrap64 (1000 + wrap64 (as_int64 153722867280913 * 60000))))
   \<and> wrap64 (1000 + wrap64 (as_int64 153722867280913 * 60000)) < 0"
proof
  show "parse_dnd_state ascii_lower_text (\<lambda>_ _. None) (of_str (dec 153722867280913 @ ''m'')) 1000 =
     Inr (Some (wrap64 (1000 + wrap64 (as_int64 153722867280913 * 60000))))"
    by (rule dnd_duration [THEN conjunct1]) (auto simp: ascii_lower_text_def intro!: map_idI)
  show "wrap64 (1000 + wrap64 (as_int64 153722867280913 * 60000)) < 0"
    by (simp add: wrap64_def as_int64_def)
qed

end
