(* ===== verification/Draft.thy ===== *)
theory Draft
  imports Prelude
begin

text \<open>
  The operator's input line as the supervisor believes it to be
  (\<open>src/supervisor/draft.rs\<close>): every byte the operator types is counted before it is
  forwarded, and an inbound message is only injected while the line is believed empty.

  A byte is a \<open>nat\<close> below 256. \<open>observe_operator_input\<close> is one read of the terminal. Two
  reference models follow: \<open>key\<close> is what the operator does and \<open>encode\<close> the bytes the
  terminal sends for it; \<open>edits\<close> is what a key does to the line of the program behind the
  terminal.
\<close>

section \<open>The tracker\<close>

record draft =
  pending :: nat
  recalled :: bool
  last_dirty :: string

definition new_draft :: draft where
  "new_draft = \<lparr>pending = 0, recalled = False, last_dirty = []\<rparr>"

definition is_clean :: "draft \<Rightarrow> bool" where
  "is_clean d \<longleftrightarrow> pending d = 0 \<and> \<not> recalled d"

definition clear :: "draft \<Rightarrow> draft" where
  "clear d = d\<lparr>pending := 0, recalled := False\<rparr>"

definition hex_digit :: "nat \<Rightarrow> char" where
  "hex_digit n = (if n < 10 then char_of (48 + n) else char_of (87 + n))"

definition show_byte :: "nat \<Rightarrow> string" where
  "show_byte b =
     (if b = 27 then ''<ESC>''
      else if 32 \<le> b \<and> b \<le> 126 then [char_of b]
      else ''<0x'' @ [hex_digit (b div 16), hex_digit (b mod 16)] @ ''>'')"

definition remember :: "nat list \<Rightarrow> draft \<Rightarrow> draft" where
  "remember bytes d = d\<lparr>last_dirty := take 60 (concat (map show_byte bytes))\<rparr>"

definition why_dirty :: "draft \<Rightarrow> string" where
  "why_dirty d = ''chars='' @ dec (pending d) @ '' recalled='' @ (if recalled d then ''true'' else ''false'')
     @ '' last_dirty_input='' @ last_dirty d"

datatype esc_effect = PutsTextOnLine | Inert

definition csi_final :: "nat \<Rightarrow> bool" where
  "csi_final b \<longleftrightarrow> 64 \<le> b \<and> b \<le> 126"

text \<open>\<open>bytes\<close> starts with ESC; the answer is the length of the sequence and its effect.\<close>

definition classify_escape_sequence :: "nat list \<Rightarrow> nat \<times> esc_effect" where
  "classify_escape_sequence bytes =
     (if length bytes < 2 then (1, Inert)
      else if bytes ! 1 = 91 then
        (if 3 \<le> length bytes \<and> bytes ! 2 = 77 then (min 6 (length bytes), Inert)
         else let params = takeWhile (\<lambda>b. \<not> csi_final b) (drop 2 bytes);
                  i = 2 + length params;
                  final = (if i < length bytes then bytes ! i else 0)
              in (min (i + 1) (length bytes),
                  if final = 65 \<or> final = 66 then PutsTextOnLine
                  else if final = 126 \<and> params = [50, 48, 48] then PutsTextOnLine else Inert))
      else if bytes ! 1 = 79 then
        (min 3 (length bytes),
         if 3 \<le> length bytes \<and> (bytes ! 2 = 65 \<or> bytes ! 2 = 66) then PutsTextOnLine else Inert)
      else (2, Inert))"

lemma classify_pos: "1 \<le> fst (classify_escape_sequence bytes)"
  by (auto simp: classify_escape_sequence_def Let_def)

text \<open>One byte that does not open an escape sequence; \<open>all\<close> is the whole read.\<close>

definition plain_byte :: "nat list \<Rightarrow> nat \<Rightarrow> draft \<Rightarrow> draft" where
  "plain_byte all b d =
     (if b = 13 \<or> b = 10 then clear d
      else if b = 3 \<or> b = 21 then clear d
      else if b = 23 then d\<lparr>pending := max (pending d) 1\<rparr>
      else if b = 127 \<or> b = 8 then d\<lparr>pending := pending d - 1\<rparr>
      else if b \<le> 31 then d
      else if 128 \<le> b \<and> b \<le> 191 then d
      else remember all (d\<lparr>pending := pending d + 1\<rparr>))"

function observe :: "nat list \<Rightarrow> nat list \<Rightarrow> draft \<Rightarrow> draft" where
  "observe all [] d = d"
| "observe all (b # bs) d =
     (if b = 27 then
        (let (n, e) = classify_escape_sequence (b # bs);
             d' = (case e of PutsTextOnLine \<Rightarrow> remember (take n (b # bs)) (d\<lparr>recalled := True\<rparr>) | Inert \<Rightarrow> d)
         in observe all (drop n (b # bs)) d')
      else observe all bs (plain_byte all b d))"
  by pat_completeness auto
termination
proof (relation "measure (\<lambda>(_, bs, _). length bs)", goal_cases)
  case (2 all b bs d x n e d')
  have "0 < n" using classify_pos [of "b # bs"] 2(2) 2(3) by (metis One_nat_def Suc_le_lessD fst_conv)
  then show ?case by simp
qed auto

definition observe_operator_input :: "nat list \<Rightarrow> draft \<Rightarrow> draft" where
  "observe_operator_input bytes d = observe bytes bytes d"

section \<open>What the operator does\<close>

text \<open>
  \<open>Character\<close> is the UTF-8 encoding of one printable character: its first byte and the
  continuation bytes. \<open>Report\<close> is a control sequence with parameters and a final byte that
  is neither Up, Down nor the old mouse report (\<open>X10\<close>): focus, mouse, cursor and function keys.
\<close>

datatype key =
    Character nat "nat list"
  | Backspace | Enter | KillLine | WordErase | Up | Down | PasteOpen
  | Report "nat list" nat | X10 nat nat nat

fun encode :: "key \<Rightarrow> nat list" where
  "encode (Character b cs) = b # cs"
| "encode Backspace = [127]"
| "encode Enter = [13]"
| "encode KillLine = [21]"
| "encode WordErase = [23]"
| "encode Up = [27, 91, 65]"
| "encode Down = [27, 79, 66]"
| "encode PasteOpen = [27, 91, 50, 48, 48, 126]"
| "encode (Report ps f) = 27 # 91 # ps @ [f]"
| "encode (X10 x y z) = [27, 91, 77, x, y, z]"

fun real_key :: "key \<Rightarrow> bool" where
  "real_key (Character b cs) \<longleftrightarrow> (32 \<le> b \<and> b \<le> 126 \<or> 192 \<le> b \<and> b \<le> 255)
     \<and> list_all (\<lambda>c. 128 \<le> c \<and> c \<le> 191) cs"
| "real_key (Report ps f) \<longleftrightarrow> list_all (\<lambda>p. \<not> csi_final p) ps \<and> csi_final f
     \<and> f \<noteq> 65 \<and> f \<noteq> 66 \<and> \<not> (f = 126 \<and> ps = [50, 48, 48]) \<and> \<not> (f = 77 \<and> ps = [])"
| "real_key _ \<longleftrightarrow> True"

text \<open>What the tracker makes of one key.\<close>

fun track :: "key \<Rightarrow> nat \<times> bool \<Rightarrow> nat \<times> bool" where
  "track (Character b cs) (n, r) = (n + 1, r)"
| "track Backspace (n, r) = (n - 1, r)"
| "track Enter s = (0, False)"
| "track KillLine s = (0, False)"
| "track WordErase (n, r) = (max n 1, r)"
| "track Up (n, r) = (n, True)"
| "track Down (n, r) = (n, True)"
| "track PasteOpen (n, r) = (n, True)"
| "track (Report ps f) s = s"
| "track (X10 x y z) s = s"

section \<open>Lemmas\<close>

abbreviation view :: "draft \<Rightarrow> nat \<times> bool" where
  "view d \<equiv> (pending d, recalled d)"

lemma view_remember [simp]: "pending (remember b d) = pending d" "recalled (remember b d) = recalled d"
  by (simp_all add: remember_def)

lemma observe_continuation:
  "list_all (\<lambda>c. 128 \<le> c \<and> c \<le> 191) cs \<Longrightarrow> observe all (cs @ rest) d = observe all rest d"
  by (induction cs) (auto simp: plain_byte_def)

lemma classify_report:
  assumes "list_all (\<lambda>p. \<not> csi_final p) ps" "csi_final f" "\<not> (f = 77 \<and> ps = [])"
  shows "classify_escape_sequence (27 # 91 # ps @ f # rest) =
    (length ps + 3, if f = 65 \<or> f = 66 \<or> f = 126 \<and> ps = [50, 48, 48] then PutsTextOnLine else Inert)"
proof -
  have ne: "(ps @ f # rest) ! 0 \<noteq> 77"
    using assms by (cases ps) (auto simp: csi_final_def)
  have tw: "takeWhile (\<lambda>b. \<not> csi_final b) (ps @ f # rest) = ps"
    using assms by (auto simp: takeWhile_append list_all_iff)
  show ?thesis using ne tw by (auto simp: classify_escape_sequence_def Let_def nth_append)
qed

lemma observe_key:
  assumes "real_key k"
  shows "\<exists>d'. observe all (encode k @ rest) d = observe all rest d' \<and> view d' = track k (view d)"
proof (cases k)
  case (Character b cs)
  then have "observe all (encode k @ rest) d = observe all rest (plain_byte all b d)"
    using assms observe_continuation [of cs all rest] by auto
  moreover have "view (plain_byte all b d) = track k (view d)"
    using assms Character by (auto simp: plain_byte_def)
  ultimately show ?thesis by blast
next
  case (Report ps f)
  have d: "drop (length ps + 3) (27 # 91 # ps @ f # rest) = rest" by (simp add: numeral_3_eq_3)
  show ?thesis using assms Report classify_report [of ps f rest] d by (intro exI [of _ d]) auto
next
  case (X10 x y z)
  then show ?thesis by (intro exI [of _ d]) (simp add: classify_escape_sequence_def)
next
  case Up
  then show ?thesis using classify_report [of "[]" 65 rest] by (auto simp: csi_final_def)
next
  case Down
  then show ?thesis by (auto simp: classify_escape_sequence_def)
next
  case PasteOpen
  then show ?thesis using classify_report [of "[50, 48, 48]" 126 rest] by (auto simp: csi_final_def)
qed (rule exI [of _ "plain_byte all (hd (encode k)) d"]; simp add: plain_byte_def clear_def)+

lemma observe_keys:
  "list_all real_key ks \<Longrightarrow>
    \<exists>d'. observe all (concat (map encode ks) @ rest) d = observe all rest d' \<and> view d' = fold track ks (view d)"
proof (induction ks arbitrary: d)
  case (Cons k ks)
  from observe_key [of k all "concat (map encode ks) @ rest" d] Cons.prems obtain d1
    where "observe all (encode k @ concat (map encode ks) @ rest) d = observe all (concat (map encode ks) @ rest) d1"
      "view d1 = track k (view d)" by auto
  with Cons.IH [of d1] Cons.prems show ?case by auto
qed (rule exI, simp)

lemma observe_input_keys:
  assumes "list_all real_key ks"
  shows "view (observe_operator_input (concat (map encode ks)) d) = fold track ks (view d)"
  using observe_keys [OF assms, of "concat (map encode ks)" "[]" d] by (auto simp: observe_operator_input_def)


section \<open>The line behind the terminal\<close>

text \<open>
  What is left of the cursor, what is right of it, and whether a bracketed paste is open: then
  Enter is a line break of the pasted text. What Up, Down and a word-erase do to the line is
  not fixed. Focus and mouse reports leave it alone; the other reports may move the cursor.
\<close>

record line =
  before :: "nat list list"
  after :: "nat list list"
  pasting :: bool

definition quiet_final :: "nat \<Rightarrow> bool" where
  "quiet_final f \<longleftrightarrow> f = 73 \<or> f = 79 \<or> f = 77 \<or> f = 109"

fun edits :: "key \<Rightarrow> line \<Rightarrow> line \<Rightarrow> bool" where
  "edits (Character b cs) l l' \<longleftrightarrow> l' = l\<lparr>before := before l @ [b # cs]\<rparr>"
| "edits Backspace l l' \<longleftrightarrow> l' = l\<lparr>before := butlast (before l)\<rparr>"
| "edits Enter l l' \<longleftrightarrow> (if pasting l then l' = l\<lparr>before := before l @ [[13]]\<rparr> else l' = l\<lparr>before := [], after := []\<rparr>)"
| "edits KillLine l l' \<longleftrightarrow> l' = l\<lparr>before := [], after := []\<rparr>"
| "edits WordErase l l' \<longleftrightarrow> (\<exists>n. l' = l\<lparr>before := take n (before l)\<rparr>)"
| "edits Up l l' \<longleftrightarrow> pasting l' = pasting l"
| "edits Down l l' \<longleftrightarrow> pasting l' = pasting l"
| "edits PasteOpen l l' \<longleftrightarrow> l' = l\<lparr>pasting := True\<rparr>"
| "edits (Report ps f) l l' \<longleftrightarrow>
     (if ps = [50, 48, 49] \<and> f = 126 then l' = l\<lparr>pasting := False\<rparr>
      else if quiet_final f then l' = l
      else before l' @ after l' = before l @ after l \<and> pasting l' = pasting l)"
| "edits (X10 x y z) l l' \<longleftrightarrow> l' = l"

inductive edit_run :: "key list \<Rightarrow> line \<Rightarrow> line \<Rightarrow> bool" where
  "edit_run [] l l"
| "edits k l l1 \<Longrightarrow> edit_run ks l1 l2 \<Longrightarrow> edit_run (k # ks) l l2"

inductive_cases edit_run_NilE: "edit_run [] l l'"
inductive_cases edit_run_ConsE: "edit_run (k # ks) l l'"

fun keeps_cursor :: "key \<Rightarrow> bool" where
  "keeps_cursor (Report ps f) \<longleftrightarrow> ps = [50, 48, 49] \<and> f = 126 \<or> quiet_final f"
| "keeps_cursor _ \<longleftrightarrow> True"

text \<open>No Enter while a paste is open.\<close>

fun plain_pastes :: "bool \<Rightarrow> key list \<Rightarrow> bool" where
  "plain_pastes p [] \<longleftrightarrow> True"
| "plain_pastes p (PasteOpen # ks) \<longleftrightarrow> plain_pastes True ks"
| "plain_pastes p (Enter # ks) \<longleftrightarrow> \<not> p \<and> plain_pastes p ks"
| "plain_pastes p (KillLine # ks) \<longleftrightarrow> \<not> p \<and> plain_pastes p ks"
| "plain_pastes p (Report ps f # ks) \<longleftrightarrow> plain_pastes (p \<and> \<not> (ps = [50, 48, 49] \<and> f = 126)) ks"
| "plain_pastes p (k # ks) \<longleftrightarrow> plain_pastes p ks"

definition empty_line :: line where
  "empty_line = \<lparr>before = [], after = [], pasting = False\<rparr>"

definition covered :: "nat \<times> bool \<Rightarrow> line \<Rightarrow> bool" where
  "covered v l \<longleftrightarrow> \<not> snd v \<longrightarrow> after l = [] \<and> length (before l) \<le> fst v \<and> \<not> pasting l"

lemma covered_step:
  assumes "covered v l" "edits k l l'" "keeps_cursor k" "plain_pastes (pasting l) (k # ks)"
  shows "covered (track k v) l' \<and> plain_pastes (pasting l') ks"
proof (cases v)
  case (Pair n r)
  then show ?thesis using assms by (cases k) (auto simp: covered_def split: if_splits)
qed

lemma covered_run:
  "edit_run ks l l' \<Longrightarrow> covered v l \<Longrightarrow> list_all keeps_cursor ks \<Longrightarrow> plain_pastes (pasting l) ks \<Longrightarrow>
    covered (fold track ks v) l'"
proof (induction arbitrary: v rule: edit_run.induct)
  case (2 k l l1 ks l2)
  with covered_step [of v l k l1 ks] show ?case by simp
qed simp

text \<open>C24: Typing, erasing, submitting, recalling history, pasting text without a line break, moving the
  mouse and switching windows: when the tracker says the line is clean, the line is empty.\<close>

theorem clean_means_empty:
  assumes "list_all real_key ks" "list_all keeps_cursor ks" "plain_pastes False ks"
    and "edit_run ks empty_line l" "is_clean (observe_operator_input (concat (map encode ks)) new_draft)"
  shows "before l = [] \<and> after l = []"
proof -
  have "covered (fold track ks (view new_draft)) l"
    using covered_run [OF assms(4), of "view new_draft"] assms(2,3)
    by (simp add: covered_def empty_line_def new_draft_def)
  then show ?thesis
    using assms(5) observe_input_keys [OF assms(1), of new_draft, symmetric] by (simp add: covered_def is_clean_def)
qed

theorem clean_means_empty_witness:
  "\<exists>l. edit_run [Character 104 [], WordErase, Up, Report [] 73, KillLine] empty_line l \<and> before l = [] \<and> after l = []"
proof -
  let ?ks = "[Character 104 [], WordErase, Up, Report [] 73, KillLine]"
  have r: "edit_run ?ks empty_line empty_line"
    by (rule edit_run.intros(2) [of _ _ "empty_line\<lparr>before := [[104]]\<rparr>"], simp add: empty_line_def)
      (rule edit_run.intros(2) [of _ _ "empty_line"], simp add: empty_line_def exI [of _ 0],
       intro edit_run.intros(2) [of _ _ "empty_line"] edit_run.intros(1); simp add: empty_line_def quiet_final_def)
  have "before empty_line = [] \<and> after empty_line = []"
    by (rule clean_means_empty [OF _ _ _ r]) (simp_all add: csi_final_def quiet_final_def, code_simp)
  with r show ?thesis by blast
qed

lemma fold_track_chars:
  "list_all (\<lambda>k. \<exists>b cs. k = Character b cs) ks \<Longrightarrow> fold track ks (n, r) = (n + length ks, r)"
  by (induction ks arbitrary: n) auto

lemma track_erase: "(track Backspace ^^ m) (n, r) = (n - m, r)"
  by (induction m) auto

lemma edit_run_append: "edit_run ks l l1 \<Longrightarrow> edit_run js l1 l2 \<Longrightarrow> edit_run (ks @ js) l l2"
  by (induction rule: edit_run.induct) (auto intro: edit_run.intros)

lemma edit_run_one: "edits k l l' \<Longrightarrow> edit_run [k] l l'"
  by (blast intro: edit_run.intros)

lemma edit_run_typed:
  "list_all (\<lambda>k. real_key k \<and> (\<exists>b cs. k = Character b cs)) ks \<Longrightarrow>
    edit_run ks l (l\<lparr>before := before l @ map encode ks\<rparr>)"
proof (induction ks arbitrary: l)
  case (Cons k ks)
  have "edits k l (l\<lparr>before := before l @ [encode k]\<rparr>)" using Cons.prems by auto
  moreover have "edit_run ks (l\<lparr>before := before l @ [encode k]\<rparr>) (l\<lparr>before := before l @ map encode (k # ks)\<rparr>)"
    using Cons.IH [of "l\<lparr>before := before l @ [encode k]\<rparr>"] Cons.prems by simp
  ultimately show ?case by (rule edit_run.intros(2))
qed (simp add: edit_run.intros)

lemma edit_run_no_erase: "before l = [] \<Longrightarrow> edit_run (replicate m Backspace) l l"
proof (induction m)
  case (Suc m)
  have "edits Backspace l l" using Suc.prems by (cases l) simp
  from edit_run.intros(2) [OF this Suc.IH [OF Suc.prems]] show ?case by simp
qed (simp add: edit_run.intros)

text \<open>Two ways to leave text on a line the tracker calls clean: paste text that ends in a line break
  (the break is taken for a submit), or move the cursor to the start and press Backspace as often as
  there are characters (none of them is erased).\<close>

theorem clean_but_not_empty:
  assumes "list_all (\<lambda>k. real_key k \<and> (\<exists>b cs. k = Character b cs)) ks" "ks \<noteq> []"
  shows "(\<exists>l. edit_run (PasteOpen # ks @ [Enter, Report [50, 48, 49] 126]) empty_line l \<and> before l \<noteq> []
      \<and> is_clean (observe_operator_input (concat (map encode (PasteOpen # ks @ [Enter, Report [50, 48, 49] 126]))) new_draft))
   \<and> (\<exists>l. edit_run (ks @ [Report [] 72] @ replicate (length ks) Backspace) empty_line l \<and> after l \<noteq> []
      \<and> is_clean (observe_operator_input (concat (map encode (ks @ [Report [] 72] @ replicate (length ks) Backspace))) new_draft))"
proof
  let ?fin = "[Enter, Report [50, 48, 49] 126]"
  let ?ks = "PasteOpen # ks @ ?fin" and ?js = "ks @ [Report [] 72] @ replicate (length ks) Backspace"
  have real: "list_all real_key ks" using assms(1) by (auto simp: list_all_iff)
  have fold: "fold track ks (n, r) = (n + length ks, r)" for n r
    using assms(1) by (intro fold_track_chars) (auto simp: list_all_iff)
  let ?l = "\<lparr>before = map encode ks @ [[13]], after = [], pasting = True\<rparr>"
  have "edit_run ks (empty_line\<lparr>pasting := True\<rparr>) \<lparr>before = map encode ks, after = [], pasting = True\<rparr>"
    using edit_run_typed [OF assms(1), of "empty_line\<lparr>pasting := True\<rparr>"] by (simp add: empty_line_def)
  moreover have "edit_run ?fin \<lparr>before = map encode ks, after = [], pasting = True\<rparr> (?l\<lparr>pasting := False\<rparr>)"
    by (rule edit_run.intros(2) [of _ _ ?l]) (auto intro!: edit_run_one)
  ultimately have "edit_run (ks @ ?fin) (empty_line\<lparr>pasting := True\<rparr>) (?l\<lparr>pasting := False\<rparr>)"
    by (rule edit_run_append)
  then have "edit_run ?ks empty_line (?l\<lparr>pasting := False\<rparr>)"
    by (rule edit_run.intros(2) [rotated]) simp
  moreover have "is_clean (observe_operator_input (concat (map encode ?ks)) new_draft)"
  proof -
    have "list_all real_key ?ks" using real by (simp add: csi_final_def)
    from observe_input_keys [OF this, of new_draft] show ?thesis
      by (simp add: fold is_clean_def new_draft_def)
  qed
  ultimately show "\<exists>l. edit_run ?ks empty_line l \<and> before l \<noteq> []
      \<and> is_clean (observe_operator_input (concat (map encode ?ks)) new_draft)" by (intro exI conjI) auto
  let ?h = "\<lparr>before = [], after = map encode ks, pasting = False\<rparr>"
  have "edit_run ks empty_line \<lparr>before = map encode ks, after = [], pasting = False\<rparr>"
    using edit_run_typed [OF assms(1), of empty_line] by (simp add: empty_line_def)
  moreover have "edit_run ([Report [] 72] @ replicate (length ks) Backspace)
      \<lparr>before = map encode ks, after = [], pasting = False\<rparr> ?h"
    by (rule edit_run_append [OF edit_run_one edit_run_no_erase]) (simp_all add: quiet_final_def)
  ultimately have "edit_run ?js empty_line ?h" by (rule edit_run_append)
  moreover have "is_clean (observe_operator_input (concat (map encode ?js)) new_draft)"
  proof -
    have "list_all real_key ?js" using real by (auto simp: csi_final_def list_all_iff set_replicate_conv_if)
    from observe_input_keys [OF this, of new_draft] show ?thesis
      by (simp add: fold track_erase is_clean_def new_draft_def)
  qed
  ultimately show "\<exists>l. edit_run ?js empty_line l \<and> after l \<noteq> []
      \<and> is_clean (observe_operator_input (concat (map encode ?js)) new_draft)"
    using assms(2) by (intro exI conjI) auto
qed

theorem clean_but_not_empty_witness:
  "\<exists>l. edit_run (PasteOpen # [Character 104 []] @ [Enter, Report [50, 48, 49] 126]) empty_line l \<and> before l \<noteq> []
      \<and> is_clean (observe_operator_input (concat (map encode (PasteOpen # [Character 104 []] @ [Enter, Report [50, 48, 49] 126]))) new_draft)"
  by (rule clean_but_not_empty [THEN conjunct1]) simp_all

text \<open>Enter always reopens the gate, whatever was typed before it, and an idle terminal (mouse, focus,
  function keys) keeps it open. The reports must arrive whole: the same report cut after its first
  byte by the end of a read counts its remaining bytes as typed characters.\<close>

theorem enter_reopens_gate:
  assumes "list_all real_key (ks @ idle)" "list_all (\<lambda>k. (\<exists>ps f. k = Report ps f) \<or> (\<exists>x y z. k = X10 x y z)) idle"
  shows "is_clean (observe_operator_input (concat (map encode (ks @ Enter # idle))) d)
    \<and> (is_clean d \<longrightarrow> is_clean (observe_operator_input (concat (map encode idle)) d))
    \<and> (\<forall>f. quiet_final f \<longrightarrow> pending (observe_operator_input [91, f] (observe_operator_input [27] d)) = pending d + 2)"
proof -
  have idle: "fold track idle s = s" for s
    using assms(2) by (induction idle arbitrary: s) auto
  have "list_all real_key (ks @ Enter # idle)" "list_all real_key idle" using assms(1) by auto
  note * = this [THEN observe_input_keys, of d]
  have "is_clean (observe_operator_input (concat (map encode (ks @ Enter # idle))) d)"
    using *(1) by (simp add: idle is_clean_def)
  moreover have "is_clean d \<longrightarrow> is_clean (observe_operator_input (concat (map encode idle)) d)"
    using *(2) by (simp add: idle is_clean_def)
  moreover have "pending (observe_operator_input [91, f] (observe_operator_input [27] d)) = pending d + 2"
    if "quiet_final f" for f
    using that by (auto simp: quiet_final_def observe_operator_input_def plain_byte_def classify_escape_sequence_def)
  ultimately show ?thesis by blast
qed

theorem enter_reopens_gate_witness:
  "is_clean (observe_operator_input (concat (map encode ([Character 104 [], Up] @ Enter # [Report [] 73, X10 32 40 40]))) new_draft)"
  by (rule enter_reopens_gate [THEN conjunct1]) (simp_all add: csi_final_def)

end
