(* ===== verification/Screen.thy ===== *)
theory Screen
  imports Prelude
begin

text \<open>
  What the supervisor reads off the child's screen (\<open>src/supervisor/screen.rs\<close>): whether a
  dialog is up, which known dialog it is, what the input box holds, and whether the session
  has just been cleared.

  A screen is the list of its rows as the terminal emulator (\<open>vt100\<close>, not under \<open>src/\<close>)
  renders them, \<open>None\<close> when the lock on it is poisoned. \<open>lower\<close> is \<open>char::to_lowercase\<close>.
\<close>

type_synonym screen = "utext list option"

definition modal_signatures :: "utext list" where
  "modal_signatures =
     [of_str ''enter to confirm'', of_str ''esc to cancel'', of_str ''enter to continue'', of_str ''esc to keep'',
      of_str ''do you want to proceed'', of_str ''yes, and don'' @ [39] @ of_str ''t ask again'',
      10095 # of_str '' 1.'']"

definition bottom_rows :: nat where "bottom_rows = 8"

section \<open>Normalising\<close>

definition skip_past :: "('a \<Rightarrow> bool) \<Rightarrow> 'a list \<Rightarrow> 'a list" where
  "skip_past p t = tl (dropWhile (\<lambda>c. \<not> p c) t)"

lemma skip_past_length: "length (skip_past p t) \<le> length t"
  using length_dropWhile_le [of "\<lambda>c. \<not> p c" t] by (simp add: skip_past_def)

text \<open>\<open>sp\<close>: the last character written was a space.\<close>

function norm_from :: "(nat \<Rightarrow> utext) \<Rightarrow> bool \<Rightarrow> utext \<Rightarrow> utext" where
  "norm_from lower sp [] = []"
| "norm_from lower sp (c # cs) =
     (if c = 27 then
        (case cs of [] \<Rightarrow> []
         | k # r \<Rightarrow>
           if k = 91 \<or> k = 63 then norm_from lower sp (skip_past (\<lambda>x. 64 \<le> x \<and> x \<le> 126) r)
           else if k = 93 then norm_from lower sp (skip_past (\<lambda>x. x = 7 \<or> x = 27) r)
           else norm_from lower sp r)
      else if is_control c \<or> is_white c then
        (if sp then norm_from lower True cs else 32 # norm_from lower True cs)
      else lower c @ norm_from lower False cs)"
  by pat_completeness auto
termination
  by (relation "measure (\<lambda>(_, _, t). length t)") (auto simp: le_imp_less_Suc skip_past_length le_SucI)

definition normalize :: "(nat \<Rightarrow> utext) \<Rightarrow> utext \<Rightarrow> utext" where
  "normalize lower t = norm_from lower False t"

definition blank :: "utext \<Rightarrow> bool" where "blank r \<longleftrightarrow> trim r = []"

definition bottom :: "utext list \<Rightarrow> utext list" where
  "bottom rows = rev (take bottom_rows (filter (\<lambda>r. \<not> blank r) (rev rows)))"

definition modal_is_up :: "(nat \<Rightarrow> utext) \<Rightarrow> screen \<Rightarrow> bool" where
  "modal_is_up lower scr =
     (case scr of None \<Rightarrow> True
      | Some rows \<Rightarrow> list_ex (\<lambda>sig. contains sig (normalize lower (join_with [10] (bottom rows)))) modal_signatures)"

definition bottom_text :: "(nat \<Rightarrow> utext) \<Rightarrow> screen \<Rightarrow> utext" where
  "bottom_text lower scr =
     (case scr of None \<Rightarrow> [] | Some rows \<Rightarrow> normalize lower (join_with (of_str '' | '') (bottom rows)))"

datatype known_dialog = FolderTrust bool

definition find_dialog :: "(nat \<Rightarrow> utext) \<Rightarrow> screen \<Rightarrow> known_dialog option" where
  "find_dialog lower scr =
     (case scr of None \<Rightarrow> None
      | Some rs \<Rightarrow>
          let rows = map (normalize lower) rs; whole = join_with [10] rows
          in if contains (of_str ''quick safety check'') whole \<and> contains (of_str ''yes, i trust this folder'') whole
             then Some (FolderTrust (list_ex (\<lambda>r. 10095 \<in> set r \<and> contains (of_str ''yes, i trust this folder'') r) rows))
             else None)"

section \<open>The input box\<close>

definition is_rule :: "utext \<Rightarrow> bool" where
  "is_rule row = (let t = trim row in 8 \<le> length t \<and> list_all (\<lambda>c. c = 9472 \<or> c = 9473 \<or> c = 45) t)"

definition prompt_text :: "utext \<Rightarrow> utext option" where
  "prompt_text row =
     (case dropWhile is_white row of [] \<Rightarrow> None
      | c # rest \<Rightarrow> if c = 10095 \<or> c = 62 then Some (trim rest) else None)"

definition rule_rows :: "utext list \<Rightarrow> nat list" where
  "rule_rows rows = map fst (filter (\<lambda>(i, r). is_rule r) (enumerate 0 rows))"

definition box_text :: "utext list \<Rightarrow> utext" where
  "box_text inside =
     (case inside of [] \<Rightarrow> []
      | first # more \<Rightarrow>
          (case prompt_text first of None \<Rightarrow> trim first | Some t \<Rightarrow> t)
          @ concat (map (\<lambda>r. 32 # trim r) more))"

definition input_box :: "utext list \<Rightarrow> (nat \<times> utext) option" where
  "input_box rows =
     (let rules = rule_rows rows in
      if length rules < 2 then None
      else let i = rules ! (length rules - 2); j = last rules;
               inside = filter (\<lambda>r. \<not> blank r) (take (j - (i + 1)) (drop (i + 1) rows))
           in Some (i, box_text inside))"

definition rows_of :: "screen \<Rightarrow> utext list" where
  "rows_of scr = (case scr of None \<Rightarrow> [] | Some rs \<Rightarrow> rs)"

definition input_text :: "screen \<Rightarrow> utext option" where
  "input_text scr = map_option snd (input_box (rows_of scr))"

definition shows_cleared_session :: "screen \<Rightarrow> bool" where
  "shows_cleared_session scr =
     (let rows = rows_of scr in
      case input_box rows of None \<Rightarrow> False
      | Some (i, text) \<Rightarrow>
        if text \<noteq> [] then False
        else let upper = filter (\<lambda>r. \<not> blank r) (take i rows)
             in List.map_filter prompt_text upper = [of_str ''/clear'']
              \<and> (upper \<noteq> [] \<and> prompt_text (last upper) = Some (of_str ''/clear''))
              \<and> \<not> list_ex (\<lambda>r. 9679 \<in> set r) upper)"

section \<open>Lemmas\<close>

lemma bottom_append:
  assumes "bottom_rows \<le> length (filter (\<lambda>r. \<not> blank r) rows)"
  shows "bottom (upper @ rows) = bottom rows"
proof -
  have "length (filter (\<lambda>r. \<not> blank r) (rev rows)) = length (filter (\<lambda>r. \<not> blank r) rows)"
    by (simp flip: rev_filter)
  with assms show ?thesis by (simp add: bottom_def)
qed

text \<open>The state of \<open>sp\<close> after a text without escapes.\<close>

definition ends_space :: "bool \<Rightarrow> utext \<Rightarrow> bool" where
  "ends_space sp t = (if t = [] then sp else is_control (last t) \<or> is_white (last t))"

lemma norm_append:
  "27 \<notin> set a \<Longrightarrow> norm_from lower sp (a @ b) = norm_from lower sp a @ norm_from lower (ends_space sp a) b"
proof (induction a arbitrary: sp)
  case (Cons c a)
  then show ?case by (cases a) (auto simp: ends_space_def)
qed (simp add: ends_space_def)

definition plain :: "nat \<Rightarrow> bool" where
  "plain c \<longleftrightarrow> c \<noteq> 27 \<and> \<not> is_control c \<and> \<not> is_white c"

text \<open>Words separated by single spaces.\<close>

fun spaced :: "utext \<Rightarrow> bool" where
  "spaced [] \<longleftrightarrow> True"
| "spaced [c] \<longleftrightarrow> plain c"
| "spaced (c # d # t) \<longleftrightarrow> plain c \<and> (if d = 32 then t \<noteq> [] \<and> spaced t else spaced (d # t))"

lemma spaced_no_escape: "spaced t \<Longrightarrow> 27 \<notin> set t"
  by (induction t rule: spaced.induct) (auto simp: plain_def split: if_splits)

lemma norm_spaced:
  "spaced t \<Longrightarrow> norm_from lower sp t = concat (map (\<lambda>c. if c = 32 then [32] else lower c) t)"
proof (induction t arbitrary: sp rule: spaced.induct)
  case (3 c d t)
  then show ?case
  proof (cases "d = 32")
    case True
    with 3 show ?thesis by (cases t) (auto simp: plain_def is_white_def)
  next
    case False
    with 3 show ?thesis by (auto simp: plain_def is_white_def)
  qed
qed (auto simp: plain_def is_white_def)

lemma join_with_split: "r \<in> set rows \<Longrightarrow> \<exists>a b. join_with sep rows = a @ r @ b"
proof (induction sep rows rule: join_with.induct)
  case (3 sep x y ys)
  show ?case
  proof (cases "r = x")
    case True
    then have "join_with sep (x # y # ys) = [] @ r @ (sep @ join_with sep (y # ys))" by simp
    then show ?thesis by blast
  next
    case False
    with 3 obtain a b where "join_with sep (y # ys) = a @ r @ b" by auto
    then have "join_with sep (x # y # ys) = (x @ sep @ a) @ r @ b" by simp
    then show ?thesis by blast
  qed
qed (auto intro: exI [of _ "[]"])

lemma join_with_set: "set (join_with sep rows) \<subseteq> set sep \<union> (\<Union> (set ` set rows))"
  by (induction sep rows rule: join_with.induct) auto

text \<open>A dialog line among the last eight non-blank rows closes the gate, in any capitalisation and
  wherever it stands in its row; rows above those eight never matter.\<close>

theorem dialogs_seen_at_the_bottom:
  assumes "\<forall>r \<in> set rows. 27 \<notin> set r"
  shows "(sig \<in> set modal_signatures \<and> row \<in> set (bottom rows) \<and> row = a @ s @ b \<and> spaced s
        \<and> concat (map (\<lambda>c. if c = 32 then [32] else lower c) s) = sig \<longrightarrow> modal_is_up lower (Some rows))
    \<and> (bottom_rows \<le> length (filter (\<lambda>r. \<not> blank r) rows) \<longrightarrow>
         modal_is_up lower (Some (upper @ rows)) = modal_is_up lower (Some rows))"
proof (intro conjI impI)
  assume *: "sig \<in> set modal_signatures \<and> row \<in> set (bottom rows) \<and> row = a @ s @ b \<and> spaced s
        \<and> concat (map (\<lambda>c. if c = 32 then [32] else lower c) s) = sig"
  have sub: "set (bottom rows) \<subseteq> set rows" by (auto simp: bottom_def dest: in_set_takeD)
  let ?t = "join_with [10] (bottom rows)"
  obtain x y where t: "?t = x @ row @ y" using join_with_split [of row "bottom rows" "[10]"] * by blast
  have "27 \<notin> set ?t" using join_with_set [of "[10]" "bottom rows"] sub assms by fastforce
  then have ne: "27 \<notin> set (x @ a)" using t * by auto
  have "?t = (x @ a) @ s @ (b @ y)" using t * by simp
  then have "normalize lower ?t = norm_from lower False (x @ a) @ sig
      @ norm_from lower (ends_space (ends_space False (x @ a)) s) (b @ y)"
    unfolding normalize_def using * norm_append [OF ne] norm_append [OF spaced_no_escape] norm_spaced by metis
  then show "modal_is_up lower (Some rows)" using * by (auto simp: modal_is_up_def list_ex_iff intro!: bexI [of _ sig])
next
  assume "bottom_rows \<le> length (filter (\<lambda>r. \<not> blank r) rows)"
  then show "modal_is_up lower (Some (upper @ rows)) = modal_is_up lower (Some rows)"
    by (simp add: modal_is_up_def bottom_append)
qed


definition sample_rows :: "utext list" where
  "sample_rows = [of_str ''an answer'', [], of_str ''  Enter to confirm  '']"

theorem dialogs_seen_at_the_bottom_witness:
  "modal_is_up (\<lambda>c. if 65 \<le> c \<and> c \<le> 90 then [c + 32] else [c]) (Some sample_rows)"
proof (rule dialogs_seen_at_the_bottom [THEN conjunct1, THEN mp])
  show "\<forall>r \<in> set sample_rows. 27 \<notin> set r" by (simp add: sample_rows_def of_str_def)
  have "of_str ''enter to confirm'' \<in> set modal_signatures" by (simp add: modal_signatures_def)
  moreover have "of_str ''  Enter to confirm  '' \<in> set (bottom sample_rows)"
    by (simp add: bottom_def sample_rows_def blank_def bottom_rows_def trim_def of_str_def is_white_def)
  moreover have "spaced (of_str ''Enter to confirm'')" by (simp add: of_str_def plain_def is_control_def is_white_def)
  moreover have "concat (map (\<lambda>c. if c = 32 then [32] else if 65 \<le> c \<and> c \<le> 90 then [c + 32] else [c]) (of_str ''Enter to confirm''))
        = of_str ''enter to confirm''" by (simp add: of_str_def)
  ultimately show "of_str ''enter to confirm'' \<in> set modal_signatures \<and> of_str ''  Enter to confirm  '' \<in> set (bottom sample_rows)
      \<and> of_str ''  Enter to confirm  '' = of_str ''  '' @ of_str ''Enter to confirm'' @ of_str ''  ''
      \<and> spaced (of_str ''Enter to confirm'')
      \<and> concat (map (\<lambda>c. if c = 32 then [32] else if 65 \<le> c \<and> c \<le> 90 then [c + 32] else [c]) (of_str ''Enter to confirm''))
        = of_str ''enter to confirm''" by (simp add: of_str_def)
qed

lemma rule_rows_append:
  "rule_rows (xs @ ys) = rule_rows xs @ map ((+) (length xs)) (rule_rows ys)"
proof -
  have *: "map fst (filter (\<lambda>(i, r). is_rule r) (enumerate n ys)) = map ((+) n) (rule_rows ys)" for n
  proof -
    have "enumerate n ys = map (\<lambda>(i, r). (n + i, r)) (enumerate 0 ys)"
      by (rule nth_equalityI) (auto simp: nth_enumerate_eq)
    then show ?thesis by (simp add: rule_rows_def filter_map comp_def case_prod_unfold)
  qed
  show ?thesis using * [of "length xs"] by (simp add: rule_rows_def enumerate_append_eq)
qed

lemma rule_rows_none: "\<forall>r \<in> set rows. \<not> is_rule r \<Longrightarrow> rule_rows rows = []"
  by (auto simp: rule_rows_def filter_empty_conv in_set_enumerate_eq)

lemma rule_rows_one: "is_rule r \<Longrightarrow> rule_rows [r] = [0]"
  by (simp add: rule_rows_def)

lemma input_box_drawn:
  assumes "is_rule r1" "is_rule r2" "\<forall>r \<in> set (inside @ lower_part). \<not> is_rule r"
  shows "input_box (upper @ [r1] @ inside @ [r2] @ lower_part) =
    Some (length upper, box_text (filter (\<lambda>r. \<not> blank r) inside))"
proof -
  have "rule_rows (upper @ [r1] @ inside @ [r2] @ lower_part) =
      rule_rows upper @ [length upper, length upper + 1 + length inside]"
    unfolding rule_rows_append rule_rows_one [OF assms(1)] rule_rows_one [OF assms(2)] using assms(3)
    by (simp add: rule_rows_none)
  then show ?thesis by (simp add: input_box_def Let_def nth_append)
qed

text \<open>Reading back the drawn screen: with the two rules of the input box and a prompt row between them,
  the text in the box is what follows the prompt; and the screen counts as a cleared session exactly
  when that text is empty and the conversation above consists of the one prompt \<open>/clear\<close>, last,
  with no answer mark.\<close>

theorem input_box_read_back:
  assumes "is_rule r1" "is_rule r2" "\<forall>r \<in> set lower_part. \<not> is_rule r"
    and "prompt = pre @ [p] @ t" "\<forall>c \<in> set pre. is_white c" "p = 10095 \<or> p = 62"
  shows "input_text (Some (upper @ [r1, prompt, r2] @ lower_part)) = Some (trim t)
   \<and> (shows_cleared_session (Some (upper @ [r1, prompt, r2] @ lower_part)) \<longleftrightarrow>
        trim t = [] \<and> (\<exists>rest row. filter (\<lambda>r. \<not> blank r) upper = rest @ [row] \<and> prompt_text row = Some (of_str ''/clear'')
          \<and> List.map_filter prompt_text rest = [] \<and> (\<forall>r \<in> set (rest @ [row]). 9679 \<notin> set r)))"
proof -
  have w: "\<not> is_white p" using assms(6) by (auto simp: is_white_def)
  have dw: "dropWhile is_white prompt = p # t"
    unfolding assms(4) using assms(5) w by (simp add: dropWhile_append2)
  have pt: "prompt_text prompt = Some (trim t)" using dw assms(6) by (auto simp: prompt_text_def)
  have nb: "\<not> blank prompt" using dw w
    by (auto simp: blank_def trim_def dropWhile_eq_Nil_conv)
  have "is_rule prompt = False"
  proof -
    obtain u where "trim prompt = p # u"
    proof -
      have "dropWhile is_white (rev (p # t)) = dropWhile is_white (rev t) @ [p]"
        using w by (cases "dropWhile is_white (rev t) = []")
          (auto simp: dropWhile_append dropWhile_eq_Nil_conv dest: set_dropWhileD)
      then show thesis using that [of "rev (dropWhile is_white (rev t))"] unfolding trim_def dw by simp
    qed
    then show ?thesis using assms(6) by (auto simp: is_rule_def Let_def)
  qed
  then have box: "input_box (upper @ [r1, prompt, r2] @ lower_part) = Some (length upper, trim t)"
    using input_box_drawn [OF assms(1,2), of "[prompt]" lower_part upper] assms(3) nb pt by (simp add: box_text_def)
  let ?u = "filter (\<lambda>r. \<not> blank r) upper"
  have "List.map_filter prompt_text ?u = [of_str ''/clear''] \<and> (?u \<noteq> [] \<and> prompt_text (last ?u) = Some (of_str ''/clear''))
      \<and> \<not> list_ex (\<lambda>r. 9679 \<in> set r) ?u \<longleftrightarrow>
    (\<exists>rest row. ?u = rest @ [row] \<and> prompt_text row = Some (of_str ''/clear'')
          \<and> List.map_filter prompt_text rest = [] \<and> (\<forall>r \<in> set (rest @ [row]). 9679 \<notin> set r))"
  proof (cases ?u rule: rev_cases)
    case (snoc rest row)
    then show ?thesis unfolding snoc by (auto simp: map_filter_simps list_ex_iff List.map_filter_def)
  qed simp
  then show ?thesis using box by (simp add: input_text_def rows_of_def shows_cleared_session_def)
qed

definition rule8 :: utext where
  "rule8 = [9472, 9472, 9472, 9472, 9472, 9472, 9472, 9472]"

definition cleared_rows :: "utext list" where
  "cleared_rows = [of_str ''Claude Code'', [], 10095 # of_str '' /clear'', []]
     @ [rule8, [10095, 32], rule8] @ [of_str ''  ? for shortcuts'']"

theorem input_box_read_back_witness:
  "input_text (Some cleared_rows) = Some (trim [32])"
  unfolding cleared_rows_def
proof (rule input_box_read_back [of _ _ _ _ "[]" 10095, THEN conjunct1])
  show "is_rule rule8" "is_rule rule8" by (simp_all add: rule8_def is_rule_def trim_def is_white_def)
  show "\<forall>r \<in> set [of_str ''  ? for shortcuts'']. \<not> is_rule r"
    by (simp add: is_rule_def trim_def of_str_def is_white_def)
qed simp_all

end
