(* ===== verification/Inject.thy ===== *)
theory Inject
  imports Draft Screen
begin

text \<open>
  The injector (\<open>src/supervisor/inject.rs\<close>): the one thread that writes inbound messages into
  the terminal, gated on the screen (\<open>Screen\<close>) and on the operator's line (\<open>Draft\<close>), and the
  prefixes it renders.

  One iteration of \<open>Injector::run\<close> is \<open>inj_step\<close>; what the iteration finds is a \<open>tick\<close>: what the
  channel had, what the operator typed meanwhile, the screens it looked at and which writes
  succeeded. \<open>trace\<close> is what has been written to the terminal and reported to the daemon. The
  polling loops of \<open>clear_session\<close> look at the screens sampled before their deadline.
\<close>

section \<open>Rendering\<close>

datatype source =
    Telegram | TelegramVoice
  | Agent utext
  | Callback "utext option"
  | PoolJob utext utext "utext option"
  | Reminder utext

definition sanitize_nick :: "(nat \<Rightarrow> bool) \<Rightarrow> utext \<Rightarrow> utext" where
  "sanitize_nick uni n =
     (let cleaned = take 48 (filter (\<lambda>c. is_alnum uni c \<or> c = 45 \<or> c = 95 \<or> c = 46) n)
      in if cleaned = [] then of_str ''unknown'' else cleaned)"

fun render_prefix :: "(nat \<Rightarrow> bool) \<Rightarrow> source \<Rightarrow> utext" where
  "render_prefix uni Telegram = of_str ''[telegram_message]''"
| "render_prefix uni TelegramVoice = of_str ''[telegram_voice_message]''"
| "render_prefix uni (Agent n) = of_str ''[agent-to-agent:'' @ sanitize_nick uni n @ of_str '']''"
| "render_prefix uni (Callback None) = of_str ''[callback]''"
| "render_prefix uni (Callback (Some l)) = of_str ''[callback:'' @ sanitize_nick uni l @ of_str '']''"
| "render_prefix uni (Reminder e) = of_str ''[reminder #'' @ sanitize_nick uni e @ of_str '']''"
| "render_prefix uni (PoolJob p r ct) =
     of_str ''[pool-job:'' @ sanitize_nick uni p @ of_str '' '' @ sanitize_nick uni r
     @ (case ct of None \<Rightarrow> [] | Some c \<Rightarrow> of_str '' '' @ sanitize_nick uni c) @ of_str '']''"

definition render :: "(nat \<Rightarrow> bool) \<Rightarrow> source \<Rightarrow> utext \<Rightarrow> utext" where
  "render uni src content = render_prefix uni src @ of_str '': '' @ content"

section \<open>The injector's loop\<close>

record inbound =
  in_id :: string
  in_body :: utext

datatype recv = Msg inbound | Timeout | Disconnected

datatype clear_error = WriteFailed | NotShown utext | DialogUp | NotCleared utext

datatype event =
    Paste "inbound list" | Submit | TypeClear | Erase
  | Reported string "clear_error option"

record injector =
  queue :: "inbound list"
  seen :: "string list"
  clears :: "string list"
  drf :: draft
  running :: bool
  trace :: "event list"

record tick =
  t_done :: bool
  t_recv :: recv
  t_clears :: "string list"
  t_typed :: "nat list list"
  t_screen :: screen
  t_paste_ok :: bool
  t_delay :: "nat list list"
  t_screen2 :: screen
  t_enter_ok :: bool
  t_shown :: "screen list"
  t_erase_ok :: bool
  t_after :: "screen list"

definition new_injector :: injector where
  "new_injector = \<lparr>queue = [], seen = [], clears = [], drf = new_draft, running = True, trace = []\<rparr>"

definition seen_window :: nat where "seen_window = 512"

text \<open>The bytes of a pasted block, without the paste brackets.\<close>

definition block :: "inbound list \<Rightarrow> utext" where
  "block ms = join_with [10, 10] (map in_body ms)"

definition operator_reads :: "nat list list \<Rightarrow> draft \<Rightarrow> draft" where
  "operator_reads rs d = fold observe_operator_input rs d"

definition gate_open :: "(nat \<Rightarrow> utext) \<Rightarrow> screen \<Rightarrow> draft \<Rightarrow> bool" where
  "gate_open lower scr d \<longleftrightarrow> \<not> modal_is_up lower scr \<and> is_clean d"

definition receive :: "recv \<Rightarrow> injector \<Rightarrow> injector" where
  "receive r s =
     (case r of
        Msg m \<Rightarrow>
          if in_id m \<in> set (seen s) then s
          else let sn = seen s @ [in_id m]
               in s\<lparr>seen := if seen_window < length sn then tl sn else sn, queue := queue s @ [m]\<rparr>
      | Timeout \<Rightarrow> s
      | Disconnected \<Rightarrow> if queue s = [] then s\<lparr>running := False\<rparr> else s)"

definition write_block :: "(nat \<Rightarrow> utext) \<Rightarrow> tick \<Rightarrow> injector \<Rightarrow> injector \<times> bool" where
  "write_block lower t s =
     (if \<not> t_paste_ok t then (s, False)
      else let s1 = s\<lparr>trace := trace s @ [Paste (queue s)], drf := operator_reads (t_delay t) (drf s)\<rparr> in
        if modal_is_up lower (t_screen2 t) then (s1, True)
        else if \<not> t_enter_ok t then (s1, False)
        else (s1\<lparr>trace := trace s1 @ [Submit], drf := clear (drf s1)\<rparr>, True))"

definition clear_session :: "(nat \<Rightarrow> utext) \<Rightarrow> tick \<Rightarrow> injector \<Rightarrow> injector \<times> clear_error option" where
  "clear_session lower t s =
     (let erased = (\<lambda>s. if t_erase_ok t then s\<lparr>trace := trace s @ [Erase]\<rparr> else s);
          failed = (\<lambda>e. if t_erase_ok t then e else WriteFailed) in
      if \<not> t_paste_ok t then (s, Some WriteFailed)
      else let s1 = s\<lparr>trace := trace s @ [TypeClear], drf := operator_reads (t_delay t) (drf s)\<rparr> in
        if \<not> list_ex (\<lambda>scr. input_text scr = Some (of_str ''/clear'')) (t_shown t)
        then (erased s1, Some (failed (NotShown (bottom_text lower (last (None # t_shown t))))))
        else if modal_is_up lower (t_screen2 t) then (erased s1, Some (failed DialogUp))
        else if \<not> t_enter_ok t then (s1, Some WriteFailed)
        else let s2 = s1\<lparr>trace := trace s1 @ [Submit], drf := clear (drf s1)\<rparr> in
          if \<not> list_ex shows_cleared_session (t_after t)
          then (s2, Some (NotCleared (bottom_text lower (last (None # t_after t)))))
          else (s2, None))"

definition inj_step :: "(nat \<Rightarrow> utext) \<Rightarrow> tick \<Rightarrow> injector \<Rightarrow> injector" where
  "inj_step lower t s =
     (if t_done t then s\<lparr>running := False\<rparr>
      else let s1 = receive (t_recv t) s in
        if \<not> running s1 then s1
        else let s2 = s1\<lparr>clears := clears s1 @ t_clears t, drf := operator_reads (t_typed t) (drf s1)\<rparr> in
          if queue s2 = [] then
            (case clears s2 of [] \<Rightarrow> s2
             | c # cs \<Rightarrow>
               if gate_open lower (t_screen t) (drf s2) then
                 (let (s3, err) = clear_session lower t (s2\<lparr>clears := cs\<rparr>)
                  in s3\<lparr>trace := trace s3 @ [Reported c err]\<rparr>)
               else s2)
          else if \<not> gate_open lower (t_screen t) (drf s2) then s2
          else let (s3, ok) = write_block lower t s2
               in if ok then s3\<lparr>queue := []\<rparr> else s3\<lparr>running := False\<rparr>)"

fun inj_run :: "(nat \<Rightarrow> utext) \<Rightarrow> tick list \<Rightarrow> injector \<Rightarrow> injector" where
  "inj_run lower [] s = s"
| "inj_run lower (t # ts) s = (if running s then inj_run lower ts (inj_step lower t s) else s)"

section \<open>Every message once\<close>

definition arrived :: "tick \<Rightarrow> inbound list" where
  "arrived t = (if t_done t then [] else case t_recv t of Msg m \<Rightarrow> [m] | _ \<Rightarrow> [])"

text \<open>What the loop took from the channel, and the first message of each id.\<close>

fun taken :: "(nat \<Rightarrow> utext) \<Rightarrow> tick list \<Rightarrow> injector \<Rightarrow> inbound list" where
  "taken lower [] s = []"
| "taken lower (t # ts) s = (if running s then arrived t @ taken lower ts (inj_step lower t s) else [])"

fun firsts :: "string list \<Rightarrow> inbound list \<Rightarrow> inbound list" where
  "firsts sn [] = []"
| "firsts sn (m # ms) = (if in_id m \<in> set sn then firsts sn ms else m # firsts (sn @ [in_id m]) ms)"

definition pasted :: "event list \<Rightarrow> inbound list" where
  "pasted es = concat (map (\<lambda>e. case e of Paste ms \<Rightarrow> ms | _ \<Rightarrow> []) es)"

lemma pasted_simps [simp]:
  "pasted [] = []" "pasted (es @ fs) = pasted es @ pasted fs" "pasted (Paste ms # es) = ms @ pasted es"
  "pasted (Submit # es) = pasted es" "pasted (TypeClear # es) = pasted es" "pasted (Erase # es) = pasted es"
  "pasted (Reported c e # es) = pasted es"
  by (simp_all add: pasted_def)

lemma clear_session_frame:
  "clear_session lower t s = (s', e) \<Longrightarrow>
    pasted (trace s') = pasted (trace s) \<and> queue s' = queue s \<and> seen s' = seen s \<and> running s' = running s"
  by (auto simp: clear_session_def Let_def split: if_splits)

lemma write_block_frame:
  "write_block lower t s = (s', ok) \<Longrightarrow> queue s' = queue s \<and> seen s' = seen s \<and> running s' = running s
    \<and> pasted (trace s') = pasted (trace s) @ (if t_paste_ok t then queue s else []) \<and> (ok \<longrightarrow> t_paste_ok t)"
  by (auto simp: write_block_def Let_def split: if_splits)

lemma receive_queue:
  assumes "length (seen s) + length (firsts (seen s) (arrived t)) \<le> seen_window" "\<not> t_done t"
  shows "queue (receive (t_recv t) s) = queue s @ firsts (seen s) (arrived t)
    \<and> seen (receive (t_recv t) s) = seen s @ map in_id (firsts (seen s) (arrived t))
    \<and> trace (receive (t_recv t) s) = trace s"
  using assms by (auto simp: receive_def arrived_def Let_def split: recv.splits)

lemma inj_step_once:
  assumes "length (seen s) + length (firsts (seen s) (arrived t)) \<le> seen_window"
  shows "seen (inj_step lower t s) = seen s @ map in_id (firsts (seen s) (arrived t))
    \<and> (\<exists>xs rest. pasted (trace (inj_step lower t s)) = pasted (trace s) @ xs
        \<and> queue s @ firsts (seen s) (arrived t) = xs @ rest
        \<and> (running (inj_step lower t s) \<longrightarrow> rest = queue (inj_step lower t s)))"
proof (cases "t_done t")
  case True
  then show ?thesis by (auto simp: inj_step_def arrived_def)
next
  case False
  define s1 where "s1 = receive (t_recv t) s"
  note r = receive_queue [OF assms False, folded s1_def]
  define s2 where "s2 = s1\<lparr>clears := clears s1 @ t_clears t, drf := operator_reads (t_typed t) (drf s1)\<rparr>"
  have s2: "queue s2 = queue s1" "seen s2 = seen s1" "trace s2 = trace s1" "running s2 = running s1"
    by (simp_all add: s2_def)
  consider (stop) "\<not> running s1" | (idle) "running s1" "inj_step lower t s = s2"
    | (cl) c cs where "running s1" "inj_step lower t s = (let (s3, err) = clear_session lower t (s2\<lparr>clears := cs\<rparr>)
                  in s3\<lparr>trace := trace s3 @ [Reported c err]\<rparr>)"
    | (wr) "running s1" "inj_step lower t s = (let (s3, ok) = write_block lower t s2
               in if ok then s3\<lparr>queue := []\<rparr> else s3\<lparr>running := False\<rparr>)"
    using False by (cases "running s1"; cases "queue s2 = []"; cases "clears s2"; cases "gate_open lower (t_screen t) (drf s2)")
      (auto simp: inj_step_def s1_def [symmetric] s2_def [symmetric] Let_def)
  then show ?thesis
  proof cases
    case stop
    then have "inj_step lower t s = s1" using False by (simp add: inj_step_def s1_def Let_def)
    with stop r show ?thesis by simp
  next
    case idle
    with r s2 show ?thesis by simp
  next
    case cl
    obtain s3 e where c: "clear_session lower t (s2\<lparr>clears := cs\<rparr>) = (s3, e)" by fastforce
    with cl clear_session_frame [OF c] r s2 show ?thesis by simp
  next
    case wr
    obtain s3 ok where w: "write_block lower t s2 = (s3, ok)" by fastforce
    with wr write_block_frame [OF w] r s2 show ?thesis by (auto split: if_splits)
  qed
qed

lemma firsts_append: "firsts sn (xs @ ys) = firsts sn xs @ firsts (sn @ map in_id (firsts sn xs)) ys"
  by (induction xs arbitrary: sn) auto

lemma inj_run_once:
  "running s \<Longrightarrow> length (seen s) + length (firsts (seen s) (taken lower ts s)) \<le> seen_window \<Longrightarrow>
    \<exists>xs rest. pasted (trace (inj_run lower ts s)) = pasted (trace s) @ xs
      \<and> queue s @ firsts (seen s) (taken lower ts s) = xs @ rest
      \<and> (running (inj_run lower ts s) \<longrightarrow> rest = queue (inj_run lower ts s))"
proof (induction ts arbitrary: s)
  case (Cons t ts)
  let ?s = "inj_step lower t s"
  have b: "length (seen s) + length (firsts (seen s) (arrived t)) \<le> seen_window"
    using Cons.prems by (simp add: firsts_append)
  from inj_step_once [OF b, of lower] obtain xs rest where
    sn: "seen ?s = seen s @ map in_id (firsts (seen s) (arrived t))" and
    st: "pasted (trace ?s) = pasted (trace s) @ xs" "queue s @ firsts (seen s) (arrived t) = xs @ rest"
      "running ?s \<longrightarrow> rest = queue ?s" by blast
  show ?case
  proof (cases "running ?s")
    case True
    have "length (seen ?s) + length (firsts (seen ?s) (taken lower ts ?s)) \<le> seen_window"
      using Cons.prems by (simp add: firsts_append sn)
    from Cons.IH [OF True this] obtain ys rest' where
      "pasted (trace (inj_run lower ts ?s)) = pasted (trace ?s) @ ys"
      "queue ?s @ firsts (seen ?s) (taken lower ts ?s) = ys @ rest'"
      "running (inj_run lower ts ?s) \<longrightarrow> rest' = queue (inj_run lower ts ?s)" by blast
    note ih = this
    have eq: "firsts (seen s) (taken lower (t # ts) s) = firsts (seen s) (arrived t) @ firsts (seen ?s) (taken lower ts ?s)"
      using Cons.prems(1) by (simp add: firsts_append sn)
    have "queue s @ firsts (seen s) (taken lower (t # ts) s) = (xs @ rest) @ firsts (seen ?s) (taken lower ts ?s)"
      unfolding eq using st(2) by (metis append_assoc)
    also have "\<dots> = (xs @ ys) @ rest'" using ih(2) st(3) True by simp
    finally have q: "queue s @ firsts (seen s) (taken lower (t # ts) s) = (xs @ ys) @ rest'" .
    have r: "inj_run lower (t # ts) s = inj_run lower ts ?s" using Cons.prems(1) by simp
    have p: "pasted (trace (inj_run lower ts ?s)) = pasted (trace s) @ (xs @ ys)" unfolding ih(1) st(1) by simp
    show ?thesis unfolding r by (rule exI [of _ "xs @ ys"], rule exI [of _ rest'], intro conjI p q ih(3))
  next
    case False
    then have "inj_run lower ts ?s = ?s" "taken lower ts ?s = []" by (cases ts; simp)+
    with st False Cons.prems(1) show ?thesis by auto
  qed
qed simp

lemma firsts_distinct: "set (map in_id (firsts sn ms)) \<inter> set sn = {} \<and> distinct (map in_id (firsts sn ms))
    \<and> set (firsts sn ms) \<subseteq> set ms"
proof (induction ms arbitrary: sn)
  case (Cons m ms)
  show ?case
  proof (cases "in_id m \<in> set sn")
    case True
    with Cons.IH [of sn] show ?thesis by auto
  next
    case False
    with Cons.IH [of "sn @ [in_id m]"] show ?thesis by simp blast
  qed
qed simp

text \<open>C23: As long as no more than 512 different message ids arrive, the loop pastes exactly the first
  message of each id, in the order of arrival: what it has pasted followed by what still waits is
  that list, and if a write fails what was pasted is a prefix of it.\<close>

theorem inject_exactly_once:
  assumes "card (in_id ` set (taken lower ts new_injector)) \<le> seen_window"
  shows "\<exists>rest. firsts [] (taken lower ts new_injector) = pasted (trace (inj_run lower ts new_injector)) @ rest
    \<and> (running (inj_run lower ts new_injector) \<longrightarrow> rest = queue (inj_run lower ts new_injector))"
proof -
  let ?f = "firsts [] (taken lower ts new_injector)"
  have "length ?f = card (in_id ` set ?f)"
    using distinct_card [of "map in_id ?f"] firsts_distinct [of "[]"] by simp
  also have "\<dots> \<le> seen_window"
    using firsts_distinct [of "[]" "taken lower ts new_injector"] assms
    by (meson List.finite_set card_mono finite_imageI image_mono le_trans)
  finally show ?thesis using inj_run_once [of new_injector lower ts] by (simp add: new_injector_def)
qed

lemma card_taken: "card (in_id ` set (taken lower ts s)) \<le> length ts"
proof -
  have "length (taken lower ts s) \<le> length ts"
  proof (induction ts arbitrary: s)
    case (Cons t ts)
    have "length (arrived t) \<le> 1" by (simp add: arrived_def split: recv.split)
    with Cons [of "inj_step lower t s"] show ?case by simp
  qed simp
  then show ?thesis by (meson List.finite_set card_image_le card_length le_trans)
qed

definition open_screen :: screen where "open_screen = Some []"

definition quick :: "inbound \<Rightarrow> tick" where
  "quick m = \<lparr>t_done = False, t_recv = Msg m, t_clears = [], t_typed = [], t_screen = open_screen, t_paste_ok = True,
     t_delay = [], t_screen2 = open_screen, t_enter_ok = True, t_shown = [], t_erase_ok = True, t_after = []\<rparr>"

abbreviation m_hi :: inbound where "m_hi \<equiv> \<lparr>in_id = ''1'', in_body = [104, 105]\<rparr>"
abbreviation m_yo :: inbound where "m_yo \<equiv> \<lparr>in_id = ''2'', in_body = [121, 111]\<rparr>"

theorem inject_exactly_once_witness:
  "\<exists>rest. firsts [] (taken (\<lambda>c. [c]) [quick m_hi, quick m_hi, quick m_yo] new_injector) =
     pasted (trace (inj_run (\<lambda>c. [c]) [quick m_hi, quick m_hi, quick m_yo] new_injector)) @ rest
    \<and> (running (inj_run (\<lambda>c. [c]) [quick m_hi, quick m_hi, quick m_yo] new_injector) \<longrightarrow>
        rest = queue (inj_run (\<lambda>c. [c]) [quick m_hi, quick m_hi, quick m_yo] new_injector))"
proof (rule inject_exactly_once)
  show "card (in_id ` set (taken (\<lambda>c. [c]) [quick m_hi, quick m_hi, quick m_yo] new_injector)) \<le> seen_window"
    by (rule le_trans [OF card_taken]) (simp add: seen_window_def)
qed

section \<open>When it writes\<close>

lemma trace_receive [simp]: "trace (receive r s) = trace s" "drf (receive r s) = drf s" "clears (receive r s) = clears s"
  by (auto simp: receive_def Let_def split: recv.split)

lemma write_block_trace:
  "trace (fst (write_block lower t s)) = trace s @
    (if \<not> t_paste_ok t then [] else Paste (queue s) #
      (if modal_is_up lower (t_screen2 t) \<or> \<not> t_enter_ok t then [] else [Submit]))"
  by (simp add: write_block_def Let_def)

lemma clear_session_trace:
  "\<exists>es. trace (fst (clear_session lower t s)) = trace s @ es
    \<and> (Submit \<in> set es \<longrightarrow> \<not> modal_is_up lower (t_screen2 t)) \<and> (\<forall>ms. Paste ms \<notin> set es)"
  by (simp add: clear_session_def Let_def)

text \<open>One iteration writes nothing while a dialog is on the screen or the operator's line is not clean,
  presses Enter only if no dialog has come up since, and never types \<open>/clear\<close> while a message waits;
  with the gate open, the writes working and no dialog coming up, everything that waits is pasted as
  one block, submitted, and the queue is empty.\<close>

theorem inject_only_when_safe:
  "let s' = inj_step lower t s; s1 = receive (t_recv t) s in
   \<exists>es. trace s' = trace s @ es
    \<and> (es \<noteq> [] \<longrightarrow> \<not> modal_is_up lower (t_screen t) \<and> is_clean (operator_reads (t_typed t) (drf s)))
    \<and> (Submit \<in> set es \<longrightarrow> \<not> modal_is_up lower (t_screen2 t))
    \<and> (TypeClear \<in> set es \<longrightarrow> queue s1 = [])
    \<and> (gate_open lower (t_screen t) (operator_reads (t_typed t) (drf s)) \<and> \<not> t_done t \<and> running s1 \<and> queue s1 \<noteq> []
        \<and> t_paste_ok t \<and> \<not> modal_is_up lower (t_screen2 t) \<and> t_enter_ok t \<longrightarrow>
          es = [Paste (queue s1), Submit] \<and> queue s' = [] \<and> running s')"
proof -
  define s' where "s' = inj_step lower t s"
  define s1 where "s1 = receive (t_recv t) s"
  define s2 where "s2 = s1\<lparr>clears := clears s1 @ t_clears t, drf := operator_reads (t_typed t) (drf s1)\<rparr>"
  have s2: "queue s2 = queue s1" "trace s2 = trace s" "drf s2 = operator_reads (t_typed t) (drf s)" "running s2 = running s1"
    by (simp_all add: s2_def s1_def)
  consider (none) "trace s' = trace s" "t_done t \<or> \<not> running s1 \<or> queue s1 = [] \<or> \<not> gate_open lower (t_screen t) (drf s2)"
    | (cl) c cs where "queue s1 = []" "gate_open lower (t_screen t) (drf s2)"
        "trace s' = trace (fst (clear_session lower t (s2\<lparr>clears := cs\<rparr>))) @ [Reported c (snd (clear_session lower t (s2\<lparr>clears := cs\<rparr>)))]"
    | (wr) "queue s1 \<noteq> []" "gate_open lower (t_screen t) (drf s2)" "running s1"
        "s' = (let (s3, ok) = write_block lower t s2 in if ok then s3\<lparr>queue := []\<rparr> else s3\<lparr>running := False\<rparr>)"
    unfolding s'_def inj_step_def s1_def [symmetric] s2_def [symmetric] Let_def using s2
    by (cases "t_done t"; cases "running s1"; cases "queue s1 = []"; cases "clears s2";
        cases "gate_open lower (t_screen t) (drf s2)") (auto simp: split_beta s1_def)
  then have "\<exists>es. trace s' = trace s @ es
    \<and> (es \<noteq> [] \<longrightarrow> \<not> modal_is_up lower (t_screen t) \<and> is_clean (operator_reads (t_typed t) (drf s)))
    \<and> (Submit \<in> set es \<longrightarrow> \<not> modal_is_up lower (t_screen2 t))
    \<and> (TypeClear \<in> set es \<longrightarrow> queue s1 = [])
    \<and> (gate_open lower (t_screen t) (operator_reads (t_typed t) (drf s)) \<and> \<not> t_done t \<and> running s1 \<and> queue s1 \<noteq> []
        \<and> t_paste_ok t \<and> \<not> modal_is_up lower (t_screen2 t) \<and> t_enter_ok t \<longrightarrow>
          es = [Paste (queue s1), Submit] \<and> queue s' = [] \<and> running s')"
  proof cases
    case none
    then show ?thesis using s2 by (intro exI [of _ "[]"]) auto
  next
    case cl
    obtain es where es: "trace (fst (clear_session lower t (s2\<lparr>clears := cs\<rparr>))) = trace s @ es"
      "Submit \<in> set es \<longrightarrow> \<not> modal_is_up lower (t_screen2 t)"
      using clear_session_trace [of lower t "s2\<lparr>clears := cs\<rparr>"] s2 by auto
    show ?thesis using cl es s2
      by (intro exI [of _ "es @ [Reported c (snd (clear_session lower t (s2\<lparr>clears := cs\<rparr>)))]"]) (simp add: gate_open_def)
  next
    case wr
    have ok: "snd (write_block lower t s2) \<longleftrightarrow> t_paste_ok t \<and> (modal_is_up lower (t_screen2 t) \<or> t_enter_ok t)"
      by (simp add: write_block_def Let_def)
    have q: "running (fst (write_block lower t s2)) = running s1"
      using write_block_frame [of lower t s2 "fst (write_block lower t s2)" "snd (write_block lower t s2)"] s2 by simp
    have tr: "trace s' = trace (fst (write_block lower t s2))" by (simp add: wr(4) split_beta)
    show ?thesis unfolding tr write_block_trace s2(2) append_same_eq
      using wr s2 ok q by (simp add: gate_open_def split_beta)
  qed
  then show ?thesis unfolding Let_def s'_def s1_def .
qed

lemma open_screen_clear: "\<not> modal_is_up (\<lambda>c. [c]) open_screen"
  by (simp add: modal_is_up_def open_screen_def bottom_def normalize_def modal_signatures_def of_str_def)

theorem inject_only_when_safe_witness:
  "trace (inj_step (\<lambda>c. [c]) (quick m_hi) new_injector) = [Paste [m_hi], Submit]"
proof -
  have "receive (t_recv (quick m_hi)) new_injector = new_injector\<lparr>seen := [''1''], queue := [m_hi]\<rparr>"
    by (simp add: receive_def quick_def new_injector_def seen_window_def)
  moreover have "\<not> t_done (quick m_hi)" "t_screen (quick m_hi) = open_screen" "t_typed (quick m_hi) = []"
    "t_screen2 (quick m_hi) = open_screen" "t_paste_ok (quick m_hi)" "t_enter_ok (quick m_hi)" by (simp_all add: quick_def)
  moreover have "is_clean (drf new_injector)" "running new_injector" "trace new_injector = []"
    by (simp_all add: new_injector_def is_clean_def new_draft_def)
  ultimately show ?thesis
    using inject_only_when_safe [of "\<lambda>c. [c]" "quick m_hi" new_injector] open_screen_clear
    by (simp add: Let_def gate_open_def operator_reads_def)
qed

text \<open>A dialog that comes up between the paste and Enter leaves the pasted text in the input box, and
  the loop counts it as delivered: the next block is pasted behind it, and both are submitted as one.\<close>

theorem dialog_between_merges:
  assumes "modal_is_up lower scr" "\<not> modal_is_up lower open_screen" "in_id m1 \<noteq> in_id m2"
  shows "let s = inj_run lower [(quick m1)\<lparr>t_screen2 := scr\<rparr>, quick m2] new_injector in
     trace s = [Paste [m1], Paste [m2], Submit] \<and> queue s = []"
  using assms by (simp add: quick_def inj_step_def receive_def new_injector_def write_block_def gate_open_def
      operator_reads_def is_clean_def new_draft_def seen_window_def Let_def clear_def)

theorem dialog_between_merges_witness:
  "let s = inj_run (\<lambda>c. [c]) [(quick m_hi)\<lparr>t_screen2 := None\<rparr>, quick m_yo] new_injector in
     trace s = [Paste [m_hi], Paste [m_yo], Submit] \<and> queue s = []"
  by (rule dialog_between_merges) (simp_all add: open_screen_clear, simp add: modal_is_up_def)

section \<open>The injector and the operator on one line\<close>

text \<open>
  The injector's events on the line of the program behind the terminal, with the prompts the
  injector's Enter submits. A pasted block stands on the line one character per cell.
\<close>

fun on_line :: "event \<Rightarrow> line \<times> utext list \<Rightarrow> line \<times> utext list" where
  "on_line (Paste ms) (l, ps) = (l\<lparr>before := before l @ map (\<lambda>c. [c]) (block ms)\<rparr>, ps)"
| "on_line Submit (l, ps) = (l\<lparr>before := [], after := []\<rparr>, ps @ [concat (before l @ after l)])"
| "on_line _ (l, ps) = (l, ps)"

definition new_events :: "injector \<Rightarrow> injector \<Rightarrow> event list" where
  "new_events s s' = drop (length (trace s)) (trace s')"

text \<open>
  The operator uses the keyboard as in \<open>Draft\<close>; the injector's thread runs an iteration, nobody
  typing and no dialog coming up between its paste and its Enter, with no clear requested.
\<close>

type_synonym terminal = "injector \<times> line \<times> utext list"

inductive term_step :: "(nat \<Rightarrow> utext) \<Rightarrow> terminal \<Rightarrow> terminal \<Rightarrow> bool" for lower where
  operator: "list_all real_key ks \<Longrightarrow> list_all keeps_cursor ks \<Longrightarrow> plain_pastes (pasting l) ks \<Longrightarrow> edit_run ks l l' \<Longrightarrow>
    term_step lower (s, l, ps) (s\<lparr>drf := observe_operator_input (concat (map encode ks)) (drf s)\<rparr>, l', ps)"
| injector: "t_typed t = [] \<Longrightarrow> t_delay t = [] \<Longrightarrow> \<not> modal_is_up lower (t_screen2 t) \<Longrightarrow> t_enter_ok t \<Longrightarrow>
    clears s @ t_clears t = [] \<Longrightarrow>
    term_step lower (s, l, ps) (inj_step lower t s, fold on_line (new_events s (inj_step lower t s)) (l, ps))"

inductive_cases term_stepE: "term_step lower (s, l, ps) x"

definition fresh_terminal :: "terminal \<Rightarrow> bool" where
  "fresh_terminal x \<longleftrightarrow> x = (new_injector, empty_line, [])"

definition blocks :: "event list \<Rightarrow> utext list" where
  "blocks es = List.map_filter (\<lambda>e. case e of Paste ms \<Rightarrow> Some (block ms) | _ \<Rightarrow> None) es"

definition term_inv :: "terminal \<Rightarrow> bool" where
  "term_inv = (\<lambda>(s, l, ps). covered (view (drf s)) l \<and> ps = blocks (trace s))"

lemma blocks_append [simp]: "blocks (a @ b) = blocks a @ blocks b"
  by (simp add: blocks_def map_filter_def)

lemma blocks_pair [simp]: "blocks [Paste ms, Submit] = [block ms]"
  by (simp add: blocks_def map_filter_simps)

lemma blocks_Nil [simp]: "blocks [] = []"
  by (simp add: blocks_def map_filter_simps)

lemma inj_step_quiet:
  assumes "t_typed t = []" "t_delay t = []" "\<not> modal_is_up lower (t_screen2 t)" "t_enter_ok t" "clears s @ t_clears t = []"
  shows "trace (inj_step lower t s) = trace s \<and> drf (inj_step lower t s) = drf s
    \<or> (\<exists>ms. trace (inj_step lower t s) = trace s @ [Paste ms, Submit] \<and> is_clean (drf s)
          \<and> drf (inj_step lower t s) = clear (drf s))"
proof -
  have c: "clears s = []" "t_clears t = []" using assms(5) by simp_all
  show ?thesis
    by (simp add: inj_step_def Let_def c assms operator_reads_def write_block_def gate_open_def split_beta)
qed

lemma covered_clean: "covered (view d) l \<Longrightarrow> is_clean d \<Longrightarrow> before l = [] \<and> after l = [] \<and> \<not> pasting l"
  by (simp add: covered_def is_clean_def)

lemma term_step_inv:
  assumes "term_step lower x y" "term_inv x"
  shows "term_inv y"
  using assms
proof (induction rule: term_step.induct)
  case (operator ks l l' s ps)
  have "covered (fold track ks (view (drf s))) l'"
    using covered_run [OF operator(4)] operator(2,3,5) by (simp add: term_inv_def)
  then have "covered (view (observe_operator_input (concat (map encode ks)) (drf s))) l'"
    unfolding observe_input_keys [OF operator(1)] .
  with operator(5) show ?case by (simp add: term_inv_def)
next
  case (injector t s l ps)
  then have inv: "covered (view (drf s)) l" "ps = blocks (trace s)" by (simp_all add: term_inv_def)
  from inj_step_quiet [OF injector(1-5)] show ?case
  proof (elim disjE exE conjE)
    assume "trace (inj_step lower t s) = trace s" "drf (inj_step lower t s) = drf s"
    then show ?thesis using inv by (simp add: term_inv_def new_events_def)
  next
    fix ms assume st: "trace (inj_step lower t s) = trace s @ [Paste ms, Submit]" "is_clean (drf s)"
      "drf (inj_step lower t s) = clear (drf s)"
    have e: "before l = [] \<and> after l = [] \<and> \<not> pasting l" using covered_clean [OF inv(1) st(2)] .
    then show ?thesis using inv st
      by (simp add: term_inv_def new_events_def covered_def clear_def comp_def)
  qed
qed

interpretation terminal: transition_system fresh_terminal "term_step lower" term_inv for lower
proof
  show "fresh_terminal s \<Longrightarrow> term_inv s" for s
    by (simp add: fresh_terminal_def term_inv_def covered_def new_injector_def new_draft_def empty_line_def)
  show "term_step lower s t \<Longrightarrow> term_inv s \<Longrightarrow> term_inv t" for s t
    by (rule term_step_inv)
qed



section \<open>Who speaks\<close>

fun tag_of :: "source \<Rightarrow> utext" where
  "tag_of Telegram = of_str ''[telegram_message''"
| "tag_of TelegramVoice = of_str ''[telegram_voice_message''"
| "tag_of (Agent n) = of_str ''[agent-to-agent''"
| "tag_of (Callback l) = of_str ''[callback''"
| "tag_of (PoolJob p r c) = of_str ''[pool-job''"
| "tag_of (Reminder e) = of_str ''[reminder''"

definition ends_tag :: "nat \<Rightarrow> bool" where
  "ends_tag c \<longleftrightarrow> c = 93 \<or> c = 58 \<or> c = 32"

lemma sanitized:
  "sanitize_nick uni n \<noteq> [] \<and> length (sanitize_nick uni n) \<le> 48
    \<and> (\<forall>c \<in> set (sanitize_nick uni n). is_alnum uni c \<or> c = 45 \<or> c = 95 \<or> c = 46)"
  by (auto simp: sanitize_nick_def Let_def of_str_def is_alnum_def is_ascii_alnum_def is_ascii_alpha_def
      dest: in_set_takeD)

lemma tag_read: "takeWhile (\<lambda>c. \<not> ends_tag c) (render uni src content) = tag_of src"
proof (cases src)
  case (Callback l)
  then show ?thesis by (cases l) (simp_all add: render_def of_str_def ends_tag_def)
qed (simp_all add: render_def of_str_def ends_tag_def)

text \<open>What stands before the first bracket, colon or space of a rendered message names its source, and
  no nick, label or id can change that: inside the brackets it is at most 48 letters, digits, dots,
  dashes and underscores. The content is not protected: an agent's message that contains a blank
  line and a rendered operator message pastes exactly as two messages, one from the operator.\<close>

theorem prefix_names_the_source:
  "(tag_of a \<noteq> tag_of b \<longrightarrow> render uni a c1 \<noteq> render uni b c2)
   \<and> (\<exists>nick. render uni (Agent n) c1 = of_str ''[agent-to-agent:'' @ nick @ of_str '']: '' @ c1 \<and> nick \<noteq> [] \<and> length nick \<le> 48
        \<and> (\<forall>c \<in> set nick. is_alnum uni c \<or> c = 45 \<or> c = 95 \<or> c = 46))
   \<and> block [\<lparr>in_id = i, in_body = render uni (Agent n) (c1 @ [10, 10] @ render uni Telegram c2)\<rparr>] =
       block [\<lparr>in_id = j, in_body = render uni (Agent n) c1\<rparr>, \<lparr>in_id = k, in_body = render uni Telegram c2\<rparr>]"
proof (intro conjI impI)
  show "tag_of a \<noteq> tag_of b \<Longrightarrow> render uni a c1 \<noteq> render uni b c2" using tag_read by metis
  show "\<exists>nick. render uni (Agent n) c1 = of_str ''[agent-to-agent:'' @ nick @ of_str '']: '' @ c1 \<and> nick \<noteq> [] \<and> length nick \<le> 48
        \<and> (\<forall>c \<in> set nick. is_alnum uni c \<or> c = 45 \<or> c = 95 \<or> c = 46)"
    using sanitized by (intro exI [of _ "sanitize_nick uni n"]) (simp add: render_def of_str_def)
  show "block [\<lparr>in_id = i, in_body = render uni (Agent n) (c1 @ [10, 10] @ render uni Telegram c2)\<rparr>] =
       block [\<lparr>in_id = j, in_body = render uni (Agent n) c1\<rparr>, \<lparr>in_id = k, in_body = render uni Telegram c2\<rparr>]"
    by (simp add: block_def render_def)
qed

theorem prefix_names_the_source_witness:
  "render (\<lambda>_. False) (Agent (of_str ''x]: [telegram_message'')) [104] \<noteq> render (\<lambda>_. False) Telegram [104]"
  using prefix_names_the_source [of "Agent (of_str ''x]: [telegram_message'')" Telegram "\<lambda>_. False" "[104]" "[104]"]
  by (simp add: of_str_def)

end
