(* ===== verification/Journal.thy ===== *)
theory Journal
  imports Prelude "HOL-Library.Product_Lexorder"
begin

text \<open>
  The work journal of a project (\<open>src/journal.rs\<close>): entries with tags, flags, links, proofs
  and reminders; the gate that lets a todo or a hypothesis close only on evidence; the branch
  of work that hangs from a todo; retention.

  From outside come \<open>char::is_alphanumeric\<close> above ASCII (\<open>uni\<close>), \<open>str::to_lowercase\<close> (\<open>lower\<close>) and the
  SHA-256 of a text (\<open>sha\<close>). Foreign keys cascade on delete. Vectors and the full-text index
  are left out; the order of the rows a statement without \<open>ORDER BY\<close> returns is the table's.
\<close>

record text_env =
  uni :: "nat \<Rightarrow> bool"
  lower :: "utext \<Rightarrow> utext"
  sha :: "utext \<Rightarrow> string"

definition medium_ttl_secs :: int where "medium_ttl_secs = 365 * 86400"
definition low_ttl_secs :: int where "low_ttl_secs = 90 * 86400"
definition dedup_window_secs :: int where "dedup_window_secs = 30 * 86400"
definition max_body_chars :: nat where "max_body_chars = 20000"
definition min_remind_secs :: int where "min_remind_secs = 60"
definition min_evidence_chars :: nat where "min_evidence_chars = 40"
definition branch_limit :: nat where "branch_limit = 200"

section \<open>Tables\<close>

record entry =
  je_id :: int
  je_created :: int
  je_category :: utext
  je_body :: utext
  je_sha :: string
  je_salience :: string
  je_agent :: "utext option"
  je_agent_id :: "utext option"
  je_session :: "utext option"
  je_feature :: "utext option"
  je_artifact :: "utext option"

record flag_row =
  jf_entry :: int
  jf_flag :: string
  jf_set :: int
  jf_closed :: "int option"
  jf_by :: "utext option"
  jf_resolution :: "utext option"

record reminder_row =
  jr_entry :: int
  jr_every :: int
  jr_next :: int
  jr_nick :: utext
  jr_host :: "utext option"

text \<open>A link is \<open>(from, to, kind)\<close>.\<close>

record journal =
  entries :: "entry rows"
  tags :: "(int \<times> utext) rows"
  flags :: "flag_row rows"
  links :: "(int \<times> int \<times> string) rows"
  reminders :: "reminder_row rows"
  proofs :: "(int \<times> utext) rows"
  evidence_first :: bool

definition empty_journal :: journal where
  "empty_journal = \<lparr>entries = [], tags = [], flags = [], links = [], reminders = [], proofs = [], evidence_first = False\<rparr>"

definition set_evidence_first :: "bool \<Rightarrow> journal \<Rightarrow> journal" where
  "set_evidence_first on j = j\<lparr>evidence_first := on\<rparr>"

datatype gap = Deprecated int | TooLittle int nat | NoProof int | NoRow int

datatype journal_error =
    EmptyEntry | TooLong | UnknownFlag utext | RemindTooOften | RemindNobody | NoCategory | NoTag | BadSalience utext
  | NoEntry int | NoFlagNamed | BadLinkKind string | SelfLink | IsMark string | NotOpen string | NothingOpen
  | StaysUnverified "gap list" | AbandonNeedsReason | NoVerifiedEntry | NotClosed string | NothingClosed

section \<open>Names\<close>

definition all_flags :: "string list" where
  "all_flags = [''todo'', ''question'', ''problem'', ''bugreport'', ''reminder'', ''unverified'', ''disputed'',
     ''ai-feedback'', ''specification'', ''constraint'', ''invariant'', ''important'', ''idea'', ''concept'',
     ''comment'', ''verified'', ''deprecated'']"

definition marks :: "string list" where
  "marks = [''specification'', ''constraint'', ''invariant'', ''important'', ''idea'', ''concept'', ''comment'',
     ''verified'', ''deprecated'']"

definition passive_flags :: "string list" where
  "passive_flags = [''idea'', ''concept'', ''comment'', ''verified'', ''deprecated'']"

definition closable :: "string \<Rightarrow> bool" where
  "closable f \<longleftrightarrow> f \<notin> set marks"

definition flag_word :: "text_env \<Rightarrow> utext \<Rightarrow> utext" where
  "flag_word env raw = lower env (dropWhile (\<lambda>c. c = 35) (trim raw))"

definition normalize_flags :: "text_env \<Rightarrow> utext list \<Rightarrow> journal_error + string list" where
  "normalize_flags env raw =
     (let ws = map (flag_word env) raw in
      case find (\<lambda>w. w \<notin> of_str ` set all_flags) ws of
        Some w \<Rightarrow> Inl (UnknownFlag w)
      | None \<Rightarrow> Inr (filter (\<lambda>f. of_str f \<in> set ws) all_flags))"

definition normalize_label :: "text_env \<Rightarrow> utext \<Rightarrow> utext option" where
  "normalize_label env raw =
     (let s = trim raw;
          s1 = lower env (trim (case strip_prefix [35] s of None \<Rightarrow> s | Some r \<Rightarrow> r));
          s2 = join_with [45] (split_white s1)
      in if s2 = [] then None else Some s2)"

fun dedup :: "'a list \<Rightarrow> 'a list \<Rightarrow> 'a list" where
  "dedup seen [] = []"
| "dedup seen (x # xs) = (if x \<in> set seen then dedup seen xs else x # dedup (x # seen) xs)"

definition normalize_tags :: "text_env \<Rightarrow> utext list \<Rightarrow> utext list" where
  "normalize_tags env raw = dedup [] (List.map_filter (normalize_label env) raw)"

definition normalize_salience :: "text_env \<Rightarrow> utext option \<Rightarrow> journal_error + string" where
  "normalize_salience env raw =
     (case map_option (\<lambda>s. lower env (trim s)) raw of
        None \<Rightarrow> Inr ''medium''
      | Some s \<Rightarrow>
          if s = [] then Inr ''medium''
          else if s = of_str ''high'' then Inr ''high''
          else if s = of_str ''medium'' then Inr ''medium''
          else if s = of_str ''low'' then Inr ''low''
          else Inl (BadSalience s))"

definition journal_clean :: "utext option \<Rightarrow> utext option" where
  "journal_clean v = (case map_option trim v of None \<Rightarrow> None | Some s \<Rightarrow> if s = [] then None else Some s)"

section \<open>References in a text\<close>

definition mark_text :: utext where "mark_text = of_str ''journal#''"

definition find_from :: "utext \<Rightarrow> utext \<Rightarrow> nat \<Rightarrow> nat option" where
  "find_from pat t from =
     find (\<lambda>i. take (length pat) (drop i t) = pat) [from..<length t]"

definition said_kind :: "text_env \<Rightarrow> utext \<Rightarrow> string" where
  "said_kind env before =
     (let clause = rev (takeWhile (\<lambda>c. c \<notin> {46, 59, 10, 40}) (rev before));
          ws = map (trim_matches (\<lambda>c. \<not> is_alnum (uni env) c)) (take 3 (rev (split_white clause)));
          said = (\<lambda>vs. list_ex (\<lambda>w. w \<in> of_str ` set vs) ws)
      in if said [''replaces'', ''supersedes'', ''corrects'', ''reverses''] then ''replaces''
         else if said [''fixes''] then ''fixes''
         else if said [''implements''] then ''implements''
         else if said [''verifies''] then ''verifies''
         else ''cites'')"

definition digits_value :: "utext \<Rightarrow> nat" where
  "digits_value ds = foldl (\<lambda>a c. a * 10 + (c - 48)) 0 ds"

definition add_ref :: "utext \<Rightarrow> string \<Rightarrow> (int \<times> string) list \<Rightarrow> (int \<times> string) list" where
  "add_ref ds kind out =
     (let v = int (digits_value ds) in
      if ds = [] \<or> i64_max < v \<or> (v, kind) \<in> set out then out else out @ [(v, kind)])"

definition skip_sep :: "utext \<Rightarrow> nat \<Rightarrow> nat" where
  "skip_sep t i =
     (let j = i + length (takeWhile (\<lambda>c. c = 47 \<or> c = 44 \<or> c = 32) (drop i t))
      in if take 4 (drop j t) = of_str ''and '' then j + 4 else j)"

function ref_run :: "utext \<Rightarrow> nat \<Rightarrow> string \<Rightarrow> (int \<times> string) list \<Rightarrow> (int \<times> string) list \<times> nat" where
  "ref_run t start kind out =
     (let ds = takeWhile is_ascii_digit (drop start t);
          i = start + length ds;
          out1 = add_ref ds kind out;
          j = skip_sep t i
      in if j + 1 < length t \<and> t ! j = 35 \<and> is_ascii_digit (t ! (j + 1)) then ref_run t (j + 1) kind out1
         else (out1, i))"
  by pat_completeness auto
termination
  by (relation "measure (\<lambda>(t, start, _, _). length t - start)") (auto simp: skip_sep_def Let_def split: if_splits)

declare ref_run.simps [simp del]

function refs_from :: "text_env \<Rightarrow> utext \<Rightarrow> nat \<Rightarrow> (int \<times> string) list \<Rightarrow> (int \<times> string) list" where
  "refs_from env t from out =
     (case find_from mark_text t from of None \<Rightarrow> out
      | Some i \<Rightarrow>
          let (out1, e) = ref_run t (i + 8) (said_kind env (take i t)) out
          in refs_from env t (max e (i + 8)) out1)"
  by pat_completeness auto
termination
  by (relation "measure (\<lambda>(_, t, from, _). length t - from)")
    (auto simp: find_from_def find_Some_iff2 find_Some_iff)

declare refs_from.simps [simp del]

definition parse_refs :: "text_env \<Rightarrow> utext \<Rightarrow> (int \<times> string) list" where
  "parse_refs env body = refs_from env (lower env body) 0 []"

section \<open>Reading\<close>

definition exists_entry :: "int \<Rightarrow> journal \<Rightarrow> bool" where
  "exists_entry i j \<longleftrightarrow> i \<in> je_id ` set (entries j)"

definition flag_open :: "int \<Rightarrow> string \<Rightarrow> flag_row \<Rightarrow> bool" where
  "flag_open i f r \<longleftrightarrow> jf_entry r = i \<and> jf_flag r = f \<and> jf_closed r = None"

definition has_open_flag :: "journal \<Rightarrow> int \<Rightarrow> string \<Rightarrow> bool" where
  "has_open_flag j i f \<longleftrightarrow> list_ex (flag_open i f) (flags j)"

definition open_work_items :: "journal \<Rightarrow> int \<Rightarrow> string list" where
  "open_work_items j i =
     filter closable (map jf_flag (filter (\<lambda>r. jf_entry r = i \<and> jf_closed r = None) (flags j)))"

definition proofs_of :: "journal \<Rightarrow> int \<Rightarrow> utext list" where
  "proofs_of j i = map snd (filter (\<lambda>p. fst p = i) (proofs j))"

definition is_todo :: "journal \<Rightarrow> int \<Rightarrow> bool" where
  "is_todo j i \<longleftrightarrow> list_ex (\<lambda>r. jf_entry r = i \<and> jf_flag r = ''todo'') (flags j)"

section \<open>Evidence\<close>

text \<open>\<open>str::replace\<close> with a non-empty pattern.\<close>

function remove_all :: "'a list \<Rightarrow> 'a list \<Rightarrow> 'a list" where
  "remove_all pat t =
     (case t of [] \<Rightarrow> []
      | c # cs \<Rightarrow> if pat \<noteq> [] \<and> take (length pat) t = pat then remove_all pat (drop (length pat) t)
                 else c # remove_all pat cs)"
  by pat_completeness auto
termination by (relation "measure (\<lambda>(_, t). length t)") auto

declare remove_all.simps [simp del]

definition own_words :: "text_env \<Rightarrow> utext \<Rightarrow> utext" where
  "own_words env body =
     join_with [32] (split_white (fold (\<lambda>(i, _) t.
        remove_all (35 # of_str (dec_int i)) (remove_all (mark_text @ of_str (dec_int i)) t))
      (parse_refs env body) (lower env body)))"

definition evidence_gap :: "text_env \<Rightarrow> journal \<Rightarrow> int \<Rightarrow> gap option" where
  "evidence_gap env j e =
     (if has_open_flag j e ''deprecated'' then Some (Deprecated e)
      else case row_of je_id e (entries j) of None \<Rightarrow> Some (NoRow e)
      | Some r \<Rightarrow>
          let n = length (own_words env (je_body r)) in
          if n < min_evidence_chars then Some (TooLittle e n)
          else if evidence_first j \<and> proofs_of j e = [] then Some (NoProof e) else None)"

definition verifiers :: "journal \<Rightarrow> int \<Rightarrow> int list" where
  "verifiers j i = sort (map fst (filter (\<lambda>(f, t, k). t = i \<and> k = ''verifies'' \<and> f \<noteq> i) (links j)))"

fun first_proof :: "text_env \<Rightarrow> journal \<Rightarrow> int list \<Rightarrow> gap list \<Rightarrow> gap list + int" where
  "first_proof env j [] gaps = Inl gaps"
| "first_proof env j (c # cs) gaps =
     (case evidence_gap env j c of None \<Rightarrow> Inr c | Some g \<Rightarrow> first_proof env j cs (gaps @ [g]))"

definition proof_of :: "text_env \<Rightarrow> journal \<Rightarrow> int \<Rightarrow> gap list + int" where
  "proof_of env j i = first_proof env j (verifiers j i) []"

definition require_proof :: "text_env \<Rightarrow> journal \<Rightarrow> int \<Rightarrow> journal_error + int" where
  "require_proof env j i = (case proof_of env j i of Inl gs \<Rightarrow> Inl (StaysUnverified gs) | Inr e \<Rightarrow> Inr e)"

section \<open>Branches\<close>

definition structural :: "string \<Rightarrow> bool" where
  "structural k \<longleftrightarrow> k = ''implements'' \<or> k = ''verifies'' \<or> k = ''fixes''"

definition children :: "journal \<Rightarrow> int \<Rightarrow> int list" where
  "children j i = sort (map fst (filter (\<lambda>(f, t, k). t = i \<and> structural k) (links j)))"

definition parents :: "journal \<Rightarrow> int \<Rightarrow> int list" where
  "parents j i = rev (sort (map (\<lambda>(f, t, k). t) (filter (\<lambda>(f, t, k). f = i \<and> structural k) (links j))))"

text \<open>The body of both walks: the new neighbours join the visited ones and the queue.\<close>

fun visit :: "(int \<Rightarrow> bool) \<Rightarrow> int list \<Rightarrow> int list \<times> int list \<Rightarrow> int list \<times> int list" where
  "visit ok [] s = s"
| "visit ok (c # cs) (seen, q) =
     (if c \<in> set seen \<or> branch_limit \<le> length seen \<or> \<not> ok c then visit ok cs (seen, q)
      else visit ok cs (seen @ [c], q @ [c]))"

lemma visit_measure:
  "2 * (branch_limit - length (fst (visit ok cs s))) + length (snd (visit ok cs s))
    \<le> 2 * (branch_limit - length (fst s)) + length (snd s)"
proof (induction ok cs s rule: visit.induct)
  case (2 ok c cs seen q)
  then show ?case by (cases "c \<in> set seen \<or> branch_limit \<le> length seen \<or> \<not> ok c") auto
qed simp

function root_walk :: "journal \<Rightarrow> int list \<Rightarrow> int list \<Rightarrow> int option" where
  "root_walk j seen [] = None"
| "root_walk j seen (i # q) =
     (if is_todo j i then Some i
      else let s = visit (\<lambda>_. True) (parents j i) (seen, q) in root_walk j (fst s) (snd s))"
  by pat_completeness auto
termination
proof (relation "measure (\<lambda>(j, seen, q). 2 * (branch_limit - length seen) + length q)", goal_cases)
  case (2 j seen i q s)
  then show ?case using visit_measure [of "\<lambda>_. True" "parents j i" "(seen, q)"] by (simp add: case_prod_beta)
qed simp

definition branch_root :: "journal \<Rightarrow> int \<Rightarrow> int option" where
  "branch_root j i = root_walk j [i] [i]"

function branch_walk :: "journal \<Rightarrow> int \<Rightarrow> int list \<Rightarrow> int list \<Rightarrow> int list" where
  "branch_walk j root seen [] = seen"
| "branch_walk j root seen (i # q) =
     (let s = visit (\<lambda>c. \<not> is_todo j c \<and> branch_root j c = Some root) (children j i) (seen, q)
      in branch_walk j root (fst s) (snd s))"
  by pat_completeness auto
termination
proof (relation "measure (\<lambda>(j, root, seen, q). 2 * (branch_limit - length seen) + length q)", goal_cases)
  case (2 j root seen i q s)
  then show ?case
    using visit_measure [of "\<lambda>c. \<not> is_todo j c \<and> branch_root j c = Some root" "children j i" "(seen, q)"] by (simp add: case_prod_beta)
qed simp

definition branch_ids :: "journal \<Rightarrow> int \<Rightarrow> int list" where
  "branch_ids j root = branch_walk j root [root] [root]"

section \<open>Writing an entry\<close>

record new_entry =
  ne_body :: utext
  ne_category :: utext
  ne_tags :: "utext list"
  ne_salience :: utext
  ne_agent :: "utext option"
  ne_agent_id :: "utext option"
  ne_session :: "utext option"
  ne_feature :: "utext option"
  ne_artifact :: "utext option"
  ne_flags :: "utext list"
  ne_proofs :: "utext list"
  ne_every :: "int option"
  ne_remind_to :: "(utext \<times> utext option) option"
  ne_foreign :: bool

datatype add_status = Written | Deduped

definition new_flag :: "int \<Rightarrow> string \<Rightarrow> int \<Rightarrow> flag_row" where
  "new_flag i f now = \<lparr>jf_entry = i, jf_flag = f, jf_set = now, jf_closed = None, jf_by = None, jf_resolution = None\<rparr>"

definition flag_key :: "flag_row \<Rightarrow> int \<times> string" where
  "flag_key r = (jf_entry r, jf_flag r)"

definition insert_flags :: "int \<Rightarrow> string list \<Rightarrow> int \<Rightarrow> journal \<Rightarrow> journal" where
  "insert_flags i fs now j = j\<lparr>flags := fold (\<lambda>f. ins_ignore flag_key (new_flag i f now)) fs (flags j)\<rparr>"

definition insert_tags :: "int \<Rightarrow> utext list \<Rightarrow> journal \<Rightarrow> journal" where
  "insert_tags i ts j = j\<lparr>tags := fold (\<lambda>t. ins_ignore id (i, t)) ts (tags j)\<rparr>"

definition insert_proofs :: "int \<Rightarrow> utext list \<Rightarrow> journal \<Rightarrow> journal" where
  "insert_proofs i ps j =
     j\<lparr>proofs := fold (\<lambda>p. ins_ignore id (i, p)) (filter (\<lambda>p. p \<noteq> []) (map trim ps)) (proofs j)\<rparr>"

definition insert_reminder :: "int \<Rightarrow> new_entry \<Rightarrow> int \<Rightarrow> journal \<Rightarrow> journal" where
  "insert_reminder i e now j =
     (case (ne_every e, ne_remind_to e) of
        (Some every, Some (nick, host)) \<Rightarrow>
          j\<lparr>reminders := ins_replace jr_entry
             \<lparr>jr_entry = i, jr_every = every, jr_next = now + every, jr_nick = nick, jr_host = host\<rparr> (reminders j)\<rparr>
      | _ \<Rightarrow> j)"

definition insert_links :: "text_env \<Rightarrow> int \<Rightarrow> utext \<Rightarrow> journal \<Rightarrow> journal" where
  "insert_links env i body j =
     j\<lparr>links := fold (\<lambda>(t, k). ins_ignore id (i, t, k))
        (filter (\<lambda>(t, k). t \<noteq> i \<and> exists_entry t j) (parse_refs env body)) (links j)\<rparr>"

text \<open>The flags of a new entry: the ones named, and \<open>reminder\<close> when it is to come back.\<close>

definition entry_flags :: "text_env \<Rightarrow> new_entry \<Rightarrow> journal_error + string list" where
  "entry_flags env e =
     (case normalize_flags env (ne_flags e) of Inl x \<Rightarrow> Inl x
      | Inr fs \<Rightarrow>
        (case ne_every e of None \<Rightarrow> Inr fs
         | Some every \<Rightarrow>
           if every < min_remind_secs then Inl RemindTooOften
           else if ne_remind_to e = None then Inl RemindNobody
           else if ''reminder'' \<in> set fs then Inr fs
           else Inr (filter (\<lambda>f. f \<in> set fs \<or> f = ''reminder'') all_flags)))"

definition entry_category :: "text_env \<Rightarrow> new_entry \<Rightarrow> string list \<Rightarrow> utext option" where
  "entry_category env e fs =
     (case normalize_label env (ne_category e) of Some c \<Rightarrow> Some c
      | None \<Rightarrow> (case fs of [] \<Rightarrow> None | f # _ \<Rightarrow> Some (if f = ''bugreport'' then of_str ''bug'' else of_str f)))"

definition known_entry :: "text_env \<Rightarrow> utext \<Rightarrow> utext \<Rightarrow> int \<Rightarrow> journal \<Rightarrow> int option" where
  "known_entry env body cat now j =
     (let ids = map je_id (filter (\<lambda>r. je_sha r = sha env body \<and> je_category r = cat
                  \<and> now - dedup_window_secs \<le> je_created r) (entries j))
      in if ids = [] then None else Some (Max (set ids)))"

definition annotate :: "int \<Rightarrow> utext list \<Rightarrow> string list \<Rightarrow> new_entry \<Rightarrow> int \<Rightarrow> journal \<Rightarrow> journal" where
  "annotate i ts fs e now j =
     insert_reminder i e now (insert_proofs i (ne_proofs e) (insert_flags i fs now (insert_tags i ts j)))"

definition add_entry :: "text_env \<Rightarrow> new_entry \<Rightarrow> int \<Rightarrow> journal \<Rightarrow> journal_error + journal \<times> add_status \<times> int" where
  "add_entry env e now j =
     (let body = trim (ne_body e) in
      if body = [] then Inl EmptyEntry
      else if max_body_chars < length body then Inl TooLong
      else case entry_flags env e of Inl x \<Rightarrow> Inl x
      | Inr fs \<Rightarrow>
        (case entry_category env e fs of None \<Rightarrow> Inl NoCategory
         | Some cat \<Rightarrow>
           let ts = normalize_tags env (ne_tags e) in
           if ts = [] then Inl NoTag
           else case normalize_salience env (Some (ne_salience e)) of Inl x \<Rightarrow> Inl x
           | Inr sal \<Rightarrow>
             (case known_entry env body cat now j of
                Some i \<Rightarrow> Inr (annotate i ts fs e now j, Deduped, i)
              | None \<Rightarrow>
                let i = next_rowid je_id (entries j);
                    r = \<lparr>je_id = i, je_created = now, je_category = cat, je_body = body, je_sha = sha env body,
                         je_salience = sal, je_agent = journal_clean (ne_agent e), je_agent_id = journal_clean (ne_agent_id e),
                         je_session = journal_clean (ne_session e), je_feature = journal_clean (ne_feature e),
                         je_artifact = journal_clean (ne_artifact e)\<rparr>;
                    j1 = annotate i ts fs e now (j\<lparr>entries := entries j @ [r]\<rparr>)
                in Inr (if ne_foreign e then j1 else insert_links env i body j1, Written, i))))"

section \<open>Links and flags\<close>

definition link_kinds :: "string list" where
  "link_kinds = [''cites'', ''replaces'', ''fixes'', ''implements'', ''verifies'']"

definition link_entries :: "int \<Rightarrow> int \<Rightarrow> string \<Rightarrow> journal \<Rightarrow> journal_error + journal \<times> bool" where
  "link_entries f t k j =
     (if k \<notin> set link_kinds then Inl (BadLinkKind k)
      else if f = t then Inl SelfLink
      else if \<not> exists_entry f j then Inl (NoEntry f)
      else if \<not> exists_entry t j then Inl (NoEntry t)
      else Inr (j\<lparr>links := ins_ignore id (f, t, k) (links j)\<rparr>, (f, t, k) \<notin> set (links j)))"

definition unlink_entries :: "int \<Rightarrow> int \<Rightarrow> string option \<Rightarrow> journal \<Rightarrow> journal \<times> nat" where
  "unlink_entries f t k j =
     (let p = (\<lambda>(f', t', k'). f' = f \<and> t' = t \<and> (k = None \<or> k = Some k'))
      in (j\<lparr>links := del_where p (links j)\<rparr>, count_where p (links j)))"

definition mark :: "text_env \<Rightarrow> int \<Rightarrow> utext list \<Rightarrow> int \<Rightarrow> journal \<Rightarrow> journal_error + journal \<times> string list" where
  "mark env i raw now j =
     (case normalize_flags env raw of Inl x \<Rightarrow> Inl x
      | Inr fs \<Rightarrow>
        if fs = [] then Inl NoFlagNamed
        else if \<not> exists_entry i j then Inl (NoEntry i)
        else Inr (insert_flags i fs now j, filter (\<lambda>f. (i, f) \<notin> flag_key ` set (flags j)) fs))"

definition unmark :: "text_env \<Rightarrow> int \<Rightarrow> utext list \<Rightarrow> journal \<Rightarrow> journal_error + journal \<times> string list" where
  "unmark env i raw j =
     (case normalize_flags env raw of Inl x \<Rightarrow> Inl x
      | Inr fs \<Rightarrow>
        if fs = [] then Inl NoFlagNamed
        else if \<not> exists_entry i j then Inl (NoEntry i)
        else let r = (if ''unverified'' \<in> set fs \<and> has_open_flag j i ''unverified'' then require_proof env j i else Inr 0)
          in case r of Inl x \<Rightarrow> Inl x
          | Inr _ \<Rightarrow>
            Inr (j\<lparr>flags := del_where (\<lambda>r. jf_entry r = i \<and> jf_flag r \<in> set fs) (flags j)\<rparr>,
                 filter (\<lambda>f. (i, f) \<in> flag_key ` set (flags j)) fs))"

section \<open>Closing\<close>

datatype close_mode = Checked | Abandon | Restore

definition close_flag :: "int \<Rightarrow> string \<Rightarrow> utext option \<Rightarrow> utext option \<Rightarrow> int \<Rightarrow> journal \<Rightarrow> journal" where
  "close_flag i f by_whom res now j =
     j\<lparr>flags := upd_where (\<lambda>r. jf_entry r = i \<and> jf_flag r = f)
        (\<lambda>r. r\<lparr>jf_closed := Some now, jf_by := by_whom, jf_resolution := res\<rparr>) (flags j)\<rparr>"

definition verified_by :: "int \<Rightarrow> utext" where
  "verified_by e = of_str ''verified: journal#'' @ of_str (dec_int e)"

definition abandoned :: "utext \<Rightarrow> utext" where
  "abandoned r = of_str ''abandoned: '' @ r"

text \<open>The gate on a hypothesis, and the resolution it leads to.\<close>

definition gate_unverified ::
  "text_env \<Rightarrow> journal \<Rightarrow> int \<Rightarrow> string list \<Rightarrow> utext option \<Rightarrow> close_mode \<Rightarrow> journal_error + utext option" where
  "gate_unverified env j i targets res mode =
     (if ''unverified'' \<notin> set targets then Inr res
      else case mode of
        Checked \<Rightarrow>
          (case require_proof env j i of Inl x \<Rightarrow> Inl x
           | Inr e \<Rightarrow> Inr (if res = None then Some (verified_by e) else res))
      | Abandon \<Rightarrow>
          (case res of None \<Rightarrow> Inl AbandonNeedsReason
           | Some r \<Rightarrow> Inr (if ''todo'' \<in> set targets then res else Some (abandoned r)))
      | Restore \<Rightarrow> Inr res)"

text \<open>The gate on a todo: the resolution, and the rest of its branch.\<close>

definition branch_evidence :: "text_env \<Rightarrow> journal \<Rightarrow> int \<Rightarrow> int option" where
  "branch_evidence env j i =
     find (\<lambda>e. e \<noteq> i \<and> has_open_flag j e ''verified'' \<and> evidence_gap env j e = None) (branch_ids j i)"

definition gate_todo ::
  "text_env \<Rightarrow> journal \<Rightarrow> int \<Rightarrow> string list \<Rightarrow> utext option \<Rightarrow> close_mode \<Rightarrow> journal_error + utext option \<times> int list" where
  "gate_todo env j i targets res mode =
     (if ''todo'' \<notin> set targets \<or> mode = Restore then Inr (res, [])
      else let rest = filter (\<lambda>e. e \<noteq> i) (branch_ids j i) in
        if mode = Checked then
          (case branch_evidence env j i of None \<Rightarrow> Inl NoVerifiedEntry
           | Some v \<Rightarrow> Inr (if res = None then Some (verified_by v) else res, rest))
        else (case res of None \<Rightarrow> Inl AbandonNeedsReason | Some r \<Rightarrow> Inr (Some (abandoned r), rest)))"

fun close_each :: "int \<Rightarrow> string list \<Rightarrow> utext option \<Rightarrow> utext option \<Rightarrow> int \<Rightarrow> journal \<Rightarrow> journal" where
  "close_each i [] by_whom res now j = j"
| "close_each i (f # fs) by_whom res now j = close_each i fs by_whom res now (close_flag i f by_whom res now j)"

text \<open>The work items of a branch entry that close with its todo.\<close>

definition closing_items :: "text_env \<Rightarrow> close_mode \<Rightarrow> journal \<Rightarrow> int \<Rightarrow> string list" where
  "closing_items env mode j e =
     filter (\<lambda>f. \<not> (f = ''unverified'' \<and> mode = Checked \<and> (case proof_of env j e of Inl _ \<Rightarrow> True | Inr _ \<Rightarrow> False)))
       (open_work_items j e)"

fun close_branch ::
  "text_env \<Rightarrow> close_mode \<Rightarrow> int list \<Rightarrow> utext option \<Rightarrow> utext option \<Rightarrow> int \<Rightarrow> journal \<Rightarrow> journal \<times> (int \<times> string) list" where
  "close_branch env mode [] by_whom res now j = (j, [])"
| "close_branch env mode (e # es) by_whom res now j =
     (let fs = closing_items env mode j e;
          (j', out) = close_branch env mode es by_whom res now (close_each e fs by_whom res now j)
      in (j', map (Pair e) fs @ out))"

definition close_with ::
  "text_env \<Rightarrow> int \<Rightarrow> utext list \<Rightarrow> utext option \<Rightarrow> utext option \<Rightarrow> int \<Rightarrow> close_mode \<Rightarrow> journal
     \<Rightarrow> journal_error + journal \<times> (int \<times> string) list" where
  "close_with env i raw by_whom resolution now mode j =
     (case normalize_flags env raw of Inl x \<Rightarrow> Inl x
      | Inr named \<Rightarrow>
        case find (\<lambda>f. \<not> closable f) named of Some f \<Rightarrow> Inl (IsMark f)
        | None \<Rightarrow>
          let res = journal_clean resolution; who = journal_clean by_whom; opn = open_work_items j i;
              targets = (if named = [] then opn else named) in
          if \<not> exists_entry i j then Inl (NoEntry i)
          else case find (\<lambda>f. f \<notin> set opn) targets of Some f \<Rightarrow> Inl (NotOpen f)
          | None \<Rightarrow>
            if targets = [] then Inl NothingOpen
            else case gate_unverified env j i targets res mode of Inl x \<Rightarrow> Inl x
            | Inr res1 \<Rightarrow>
              (case gate_todo env j i targets res1 mode of Inl x \<Rightarrow> Inl x
               | Inr (res2, rest) \<Rightarrow>
                 let (j', out) = close_branch env mode rest who res2 now (close_each i targets who res2 now j)
                 in Inr (j', map (Pair i) targets @ out)))"

definition reopen :: "text_env \<Rightarrow> int \<Rightarrow> utext list \<Rightarrow> journal \<Rightarrow> journal_error + journal \<times> string list" where
  "reopen env i raw j =
     (case normalize_flags env raw of Inl x \<Rightarrow> Inl x
      | Inr named \<Rightarrow>
        if \<not> exists_entry i j then Inl (NoEntry i)
        else let closed = map jf_flag (filter (\<lambda>r. jf_entry r = i \<and> jf_closed r \<noteq> None) (flags j));
                 targets = (if named = [] then closed else named)
          in case find (\<lambda>f. f \<notin> set closed) targets of Some f \<Rightarrow> Inl (NotClosed f)
          | None \<Rightarrow>
            if targets = [] then Inl NothingClosed
            else Inr (j\<lparr>flags := upd_where (\<lambda>r. jf_entry r = i \<and> jf_flag r \<in> set targets)
                    (\<lambda>r. r\<lparr>jf_closed := None, jf_by := None, jf_resolution := None\<rparr>) (flags j)\<rparr>, targets))"

section \<open>Deleting, retention, reminders\<close>

text \<open>Deleting entries takes everything that refers to them.\<close>

definition delete_where :: "(entry \<Rightarrow> bool) \<Rightarrow> journal \<Rightarrow> journal" where
  "delete_where p j =
     (let gone = je_id ` set (filter p (entries j)) in
      j\<lparr>entries := del_where p (entries j), tags := del_where (\<lambda>t. fst t \<in> gone) (tags j),
        flags := del_where (\<lambda>r. jf_entry r \<in> gone) (flags j),
        links := del_where (\<lambda>(f, t, k). f \<in> gone \<or> t \<in> gone) (links j),
        reminders := del_where (\<lambda>r. jr_entry r \<in> gone) (reminders j),
        proofs := del_where (\<lambda>x. fst x \<in> gone) (proofs j)\<rparr>)"

definition delete_entry :: "int \<Rightarrow> journal \<Rightarrow> journal \<times> bool" where
  "delete_entry i j = (delete_where (\<lambda>r. je_id r = i) j, exists_entry i j)"

definition kept_open :: "journal \<Rightarrow> int \<Rightarrow> bool" where
  "kept_open j i \<longleftrightarrow> list_ex (\<lambda>r. jf_entry r = i \<and> jf_closed r = None
     \<and> jf_flag r \<notin> {''idea'', ''concept'', ''comment'', ''deprecated'', ''verified''}) (flags j)"

definition past_retention :: "int \<Rightarrow> entry \<Rightarrow> bool" where
  "past_retention now r \<longleftrightarrow> je_salience r = ''medium'' \<and> je_created r < now - medium_ttl_secs
     \<or> je_salience r = ''low'' \<and> je_created r < now - low_ttl_secs"

definition gc_entries :: "int \<Rightarrow> bool \<Rightarrow> journal \<Rightarrow> journal \<times> nat \<times> nat" where
  "gc_entries now dry j =
     (let n = (\<lambda>s ttl. count_where (\<lambda>r. je_salience r = s \<and> je_created r < now - ttl \<and> \<not> kept_open j (je_id r)) (entries j));
          m = n ''medium'' medium_ttl_secs; l = n ''low'' low_ttl_secs
      in (if dry \<or> m + l = 0 then j
          else delete_where (\<lambda>r. past_retention now r \<and> \<not> kept_open j (je_id r)) j, m, l))"

definition due_reminders :: "int \<Rightarrow> journal \<Rightarrow> (reminder_row \<times> utext) list" where
  "due_reminders now j =
     List.map_filter (\<lambda>r. map_option (\<lambda>e. (r, je_body e)) (row_of je_id (jr_entry r) (entries j)))
       (sort_key jr_next (filter (\<lambda>r. jr_next r \<le> now \<and> has_open_flag j (jr_entry r) ''reminder'') (reminders j)))"

definition reminder_sent :: "int \<Rightarrow> int \<Rightarrow> journal \<Rightarrow> journal" where
  "reminder_sent i now j =
     j\<lparr>reminders := upd_where (\<lambda>r. jr_entry r = i) (\<lambda>r. r\<lparr>jr_next := now + jr_every r\<rparr>) (reminders j)\<rparr>"

section \<open>Walking the branches\<close>

text \<open>\<open>(c, p)\<close>: \<open>c\<close> links to \<open>p\<close> in a way that makes it part of its branch.\<close>

definition hangs :: "journal \<Rightarrow> (int \<times> int) set" where
  "hangs j = {(c, p). \<exists>k. (c, p, k) \<in> set (links j) \<and> structural k}"

lemma visit_props:
  assumes "distinct seen" "length seen \<le> branch_limit"
  shows "distinct (fst (visit ok cs (seen, q))) \<and> length (fst (visit ok cs (seen, q))) \<le> branch_limit
    \<and> set seen \<subseteq> set (fst (visit ok cs (seen, q)))
    \<and> set (fst (visit ok cs (seen, q))) \<subseteq> set seen \<union> {c \<in> set cs. ok c}
    \<and> set (snd (visit ok cs (seen, q))) \<subseteq> set q \<union> {c \<in> set cs. ok c}"
  using assms
proof (induction cs arbitrary: seen q)
  case (Cons c cs)
  show ?case
  proof (cases "c \<in> set seen \<or> branch_limit \<le> length seen \<or> \<not> ok c")
    case True
    with Cons.IH [OF Cons.prems, of q] show ?thesis by auto
  next
    case False
    with Cons.IH [of "seen @ [c]" "q @ [c]"] Cons.prems show ?thesis by auto
  qed
qed simp

lemma children_hang: "c \<in> set (children j i) \<Longrightarrow> (c, i) \<in> hangs j"
  by (auto simp: children_def hangs_def)

lemma branch_walk_props:
  assumes "distinct seen" "length seen \<le> branch_limit"
    and "\<forall>x \<in> set seen \<union> set q. (x, root) \<in> (hangs j)\<^sup>*"
    and "\<forall>x \<in> set seen. x = root \<or> \<not> is_todo j x \<and> branch_root j x = Some root" "root \<in> set seen"
  shows "distinct (branch_walk j root seen q) \<and> length (branch_walk j root seen q) \<le> branch_limit
    \<and> root \<in> set (branch_walk j root seen q)
    \<and> (\<forall>x \<in> set (branch_walk j root seen q). (x, root) \<in> (hangs j)\<^sup>*
        \<and> (x = root \<or> \<not> is_todo j x \<and> branch_root j x = Some root))"
  using assms
proof (induction j root seen q rule: branch_walk.induct)
  case (2 j root seen i q)
  let ?ok = "\<lambda>c. \<not> is_todo j c \<and> branch_root j c = Some root"
  let ?s = "visit ?ok (children j i) (seen, q)"
  note v = visit_props [OF 2(2,3), of ?ok "children j i" q]
  have "(c, root) \<in> (hangs j)\<^sup>*" if "c \<in> set (children j i)" for c
    using children_hang [OF that] 2(4) by (auto intro: converse_rtrancl_into_rtrancl)
  then have "\<forall>x \<in> set (fst ?s) \<union> set (snd ?s). (x, root) \<in> (hangs j)\<^sup>*" using v 2(4) by auto
  moreover have "\<forall>x \<in> set (fst ?s). x = root \<or> ?ok x" using v 2(5) by blast
  moreover have "distinct (fst ?s)" "length (fst ?s) \<le> branch_limit" "root \<in> set (fst ?s)"
    using v 2(6) by auto
  ultimately show ?case using 2(1) [OF refl] by (simp add: Let_def)
qed simp

lemma branch_ids_props:
  "distinct (branch_ids j a) \<and> length (branch_ids j a) \<le> branch_limit \<and> a \<in> set (branch_ids j a)
    \<and> (\<forall>x \<in> set (branch_ids j a). (x, a) \<in> (hangs j)\<^sup>* \<and> (x = a \<or> \<not> is_todo j x \<and> branch_root j x = Some a))"
  unfolding branch_ids_def using branch_walk_props [of "[a]" "[a]" a j] by (simp add: branch_limit_def)

section \<open>What a close changes\<close>

definition close_row :: "utext option \<Rightarrow> utext option \<Rightarrow> int \<Rightarrow> flag_row \<Rightarrow> flag_row" where
  "close_row who res now r = r\<lparr>jf_closed := Some now, jf_by := who, jf_resolution := res\<rparr>"

definition close_set :: "(int \<times> string) list \<Rightarrow> utext option \<Rightarrow> utext option \<Rightarrow> int \<Rightarrow> journal \<Rightarrow> journal" where
  "close_set ps who res now j = j\<lparr>flags := upd_where (\<lambda>r. flag_key r \<in> set ps) (close_row who res now) (flags j)\<rparr>"

lemma close_row_key [simp]: "flag_key (close_row who res now r) = flag_key r"
  by (simp add: close_row_def flag_key_def)

lemma close_set_append: "close_set qs who res now (close_set ps who res now j) = close_set (ps @ qs) who res now j"
  by (simp add: close_set_def upd_where_twice [of "close_row who res now"] close_row_def flag_key_def)

lemma close_set_Nil [simp]: "close_set [] who res now j = j"
  by (simp add: close_set_def upd_where_def)

lemma close_each_set: "close_each i fs who res now j = close_set (map (Pair i) fs) who res now j"
proof (induction fs arbitrary: j)
  case (Cons f fs)
  have "close_flag i f who res now j = close_set [(i, f)] who res now j"
    by (auto simp: close_flag_def close_set_def flag_key_def close_row_def [abs_def])
  then show ?case using Cons by (simp add: close_set_append)
qed simp

text \<open>Closing work items does not change which entries are evidence, nor the branches.\<close>

lemma close_set_frame:
  "entries (close_set ps who res now j) = entries j" "links (close_set ps who res now j) = links j"
  "proofs (close_set ps who res now j) = proofs j" "evidence_first (close_set ps who res now j) = evidence_first j"
  by (simp_all add: close_set_def)

lemma has_open_close_set:
  "has_open_flag (close_set ps who res now j) e f \<longleftrightarrow> has_open_flag j e f \<and> (e, f) \<notin> set ps"
  by (auto simp: has_open_flag_def close_set_def list_ex_iff tbl flag_open_def close_row_def flag_key_def)

lemma evidence_close_set:
  assumes "\<forall>p \<in> set ps. closable (snd p)"
  shows "evidence_gap env (close_set ps who res now j) e = evidence_gap env j e"
proof -
  have "(e, ''deprecated'') \<notin> set ps" using assms by (auto simp: closable_def marks_def)
  moreover have "proofs_of (close_set ps who res now j) e = proofs_of j e" by (simp add: proofs_of_def close_set_frame)
  ultimately show ?thesis unfolding evidence_gap_def close_set_frame has_open_close_set
    by (cases "row_of je_id e (entries j)") (auto simp: Let_def)
qed

lemma proof_close_set:
  assumes "\<forall>p \<in> set ps. closable (snd p)"
  shows "proof_of env (close_set ps who res now j) e = proof_of env j e"
proof -
  have "first_proof env (close_set ps who res now j) cs gs = first_proof env j cs gs" for cs gs
    by (induction cs arbitrary: gs) (auto simp: evidence_close_set [OF assms] split: option.split)
  then show ?thesis by (simp add: proof_of_def verifiers_def close_set_frame)
qed

lemma open_items_close_set:
  "e \<notin> fst ` set ps \<Longrightarrow> open_work_items (close_set ps who res now j) e = open_work_items j e"
proof -
  assume a: "e \<notin> fst ` set ps"
  have "filter (\<lambda>r. jf_entry r = e \<and> jf_closed r = None) (upd_where (\<lambda>r. flag_key r \<in> set ps) (close_row who res now) t)
      = filter (\<lambda>r. jf_entry r = e \<and> jf_closed r = None) t" for t
    using a by (induction t) (force simp: close_row_def flag_key_def)+
  then show ?thesis by (simp add: open_work_items_def close_set_def)
qed

lemma closable_items: "f \<in> set (closing_items env mode j e) \<Longrightarrow> closable f"
  by (simp add: closing_items_def open_work_items_def)

lemma closing_items_close_set:
  "\<forall>p \<in> set ps. closable (snd p) \<Longrightarrow> e \<notin> fst ` set ps \<Longrightarrow>
    closing_items env mode (close_set ps who res now j) e = closing_items env mode j e"
  by (simp add: closing_items_def open_items_close_set proof_close_set)

lemma close_branch_set:
  "distinct es \<Longrightarrow> close_branch env mode es who res now j =
    (let ps = concat (map (\<lambda>e. map (Pair e) (closing_items env mode j e)) es) in (close_set ps who res now j, ps))"
proof (induction es arbitrary: j)
  case (Cons e es)
  let ?ps = "map (Pair e) (closing_items env mode j e)"
  have "closing_items env mode (close_set ?ps who res now j) x = closing_items env mode j x" if "x \<in> set es" for x
    using that Cons.prems by (intro closing_items_close_set) (auto dest: closable_items)
  then have "map (\<lambda>e'. map (Pair e') (closing_items env mode (close_set ?ps who res now j) e')) es =
      map (\<lambda>e'. map (Pair e') (closing_items env mode j e')) es" by simp
  note eq = arg_cong [OF this, of concat]
  show ?case using Cons.IH [of "close_set ?ps who res now j"] Cons.prems
    by (simp only: close_branch.simps close_each_set Let_def eq case_prod_conv close_set_append distinct.simps
        simp_thms list.map concat.simps)
qed simp

lemma find_None_all: "find p xs = None \<Longrightarrow> x \<in> set xs \<Longrightarrow> \<not> p x"
  by (auto simp: find_None_iff)

text \<open>A close that succeeds, taken apart.\<close>

lemma close_with_cases:
  assumes "close_with env i raw by_whom resolution now mode j = Inr (j', out)"
  obtains named targets res1 res2 rest where
    "normalize_flags env raw = Inr named" "targets = (if named = [] then open_work_items j i else named)"
    "exists_entry i j" "set targets \<subseteq> set (open_work_items j i)" "targets \<noteq> []"
    "gate_unverified env j i targets (journal_clean resolution) mode = Inr res1"
    "gate_todo env j i targets res1 mode = Inr (res2, rest)"
    "distinct rest" "set rest \<subseteq> set (branch_ids j i) - {i}"
    "out = map (Pair i) targets @ concat (map (\<lambda>e. map (Pair e) (closing_items env mode j e)) rest)"
    "j' = close_set out (journal_clean by_whom) res2 now j"
    "\<forall>p \<in> set out. closable (snd p) \<and> snd p \<in> set (open_work_items j (fst p))"
proof -
  from assms obtain named where n: "normalize_flags env raw = Inr named" "find (\<lambda>f. \<not> closable f) named = None"
    by (auto simp: close_with_def split: sum.splits option.splits)
  define targets where "targets = (if named = [] then open_work_items j i else named)"
  from assms n obtain res1 res2 rest where
    g: "exists_entry i j" "find (\<lambda>f. f \<notin> set (open_work_items j i)) targets = None" "targets \<noteq> []"
      "gate_unverified env j i targets (journal_clean resolution) mode = Inr res1"
      "gate_todo env j i targets res1 mode = Inr (res2, rest)"
    and r: "j' = fst (close_branch env mode rest (journal_clean by_whom) res2 now (close_each i targets (journal_clean by_whom) res2 now j))"
      "out = map (Pair i) targets @ snd (close_branch env mode rest (journal_clean by_whom) res2 now
         (close_each i targets (journal_clean by_whom) res2 now j))"
    unfolding close_with_def targets_def
    by (auto simp: Let_def split_beta split: sum.splits option.splits if_splits)
  have sub: "set targets \<subseteq> set (open_work_items j i)" using find_None_all [OF g(2)] by blast
  have ct: "\<forall>f \<in> set targets. closable f" using sub by (auto simp: open_work_items_def)
  have rest: "distinct rest" "set rest \<subseteq> set (branch_ids j i) - {i}"
    using g(5) branch_ids_props [of j i]
    by (auto simp: gate_todo_def Let_def split: if_splits option.splits)
  let ?t = "map (Pair i) targets"
  have items: "closing_items env mode (close_set ?t who res now j) e = closing_items env mode j e" if "e \<in> set rest" for e who res now
    using that rest(2) ct by (intro closing_items_close_set) auto
  then have m: "map (\<lambda>e. map (Pair e) (closing_items env mode (close_set ?t (journal_clean by_whom) res2 now j) e)) rest =
      map (\<lambda>e. map (Pair e) (closing_items env mode j e)) rest" by simp
  have out: "out = ?t @ concat (map (\<lambda>e. map (Pair e) (closing_items env mode j e)) rest)"
    and j': "j' = close_set out (journal_clean by_whom) res2 now j"
    using r by (simp_all add: close_each_set close_branch_set [OF rest(1)] m Let_def close_set_append)
  have "\<forall>p \<in> set out. closable (snd p) \<and> snd p \<in> set (open_work_items j (fst p))"
    unfolding out using ct sub by (auto simp: closing_items_def open_work_items_def)
  then show thesis using that [OF n(1) targets_def g(1) sub g(3,4,5) rest out j'] by simp
qed

lemma closing_item_iff:
  "f \<in> set (closing_items env Checked j e) \<longleftrightarrow>
    f \<in> set (open_work_items j e) \<and> (f = ''unverified'' \<longrightarrow> (\<exists>v. proof_of env j e = Inr v))"
  by (cases "proof_of env j e") (auto simp: closing_items_def)


text \<open>The branches of two todos never share an entry, and a branch has at most 200, each of them linked
  down to the todo; so closing one todo, in whatever mode, leaves every flag of another todo's branch
  as it was.\<close>

theorem closing_stays_in_its_branch:
  assumes "is_todo j a" "is_todo j b" "a \<noteq> b"
  shows "set (branch_ids j a) \<inter> set (branch_ids j b) = {}
    \<and> distinct (branch_ids j a) \<and> length (branch_ids j a) \<le> branch_limit
    \<and> (\<forall>x \<in> set (branch_ids j a). (x, a) \<in> (hangs j)\<^sup>*)
    \<and> (\<forall>raw who res now mode j' out. close_with env a raw who res now mode j = Inr (j', out) \<longrightarrow>
        (\<forall>x \<in> set (branch_ids j b). filter (\<lambda>r. jf_entry r = x) (flags j') = filter (\<lambda>r. jf_entry r = x) (flags j)))"
proof -
  have disj: "set (branch_ids j a) \<inter> set (branch_ids j b) = {}"
    using branch_ids_props [of j a] branch_ids_props [of j b] assms by fastforce
  have "filter (\<lambda>r. jf_entry r = x) (flags j') = filter (\<lambda>r. jf_entry r = x) (flags j)"
    if c: "close_with env a raw who res now mode j = Inr (j', out)" and x: "x \<in> set (branch_ids j b)"
    for raw who res now mode j' out x
  proof -
    from c obtain named targets res1 res2 rest where
      r: "set rest \<subseteq> set (branch_ids j a) - {a}"
      "out = map (Pair a) targets @ concat (map (\<lambda>e. map (Pair e) (closing_items env mode j e)) rest)"
      "j' = close_set out (journal_clean who) res2 now j" by (rule close_with_cases) blast
    have "fst ` set out \<subseteq> set (branch_ids j a)" using r(1) branch_ids_props [of j a] unfolding r(2) by auto
    with disj x have nx: "x \<notin> fst ` set out" by blast
    have "filter (\<lambda>r. jf_entry r = x) (upd_where (\<lambda>r. flag_key r \<in> set out) (close_row (journal_clean who) res2 now) t)
        = filter (\<lambda>r. jf_entry r = x) t" for t
      using nx by (induction t) (force simp: close_row_def flag_key_def)+
    then show ?thesis by (simp add: r(3) close_set_def)
  qed
  with disj branch_ids_props [of j a] show ?thesis by blast
qed

section \<open>Hypotheses\<close>

datatype journal_op =
    Add new_entry int | Link int int string | Unlink int int "string option" | Mark int "utext list" int
  | Unmark int "utext list" | Close int "utext list" "utext option" "utext option" int close_mode
  | Reopen int "utext list" | Delete int | Gc int bool | Policy bool | Sent int int

definition or_same :: "journal \<Rightarrow> 'e + journal \<times> 'a \<Rightarrow> journal" where
  "or_same j r = (case r of Inl _ \<Rightarrow> j | Inr p \<Rightarrow> fst p)"

fun journal_run :: "text_env \<Rightarrow> journal_op \<Rightarrow> journal \<Rightarrow> journal" where
  "journal_run env (Add e now) j = or_same j (add_entry env e now j)"
| "journal_run env (Link f t k) j = or_same j (link_entries f t k j)"
| "journal_run env (Unlink f t k) j = fst (unlink_entries f t k j)"
| "journal_run env (Mark i fs now) j = or_same j (mark env i fs now j)"
| "journal_run env (Unmark i fs) j = or_same j (unmark env i fs j)"
| "journal_run env (Close i fs who res now mode) j = or_same j (close_with env i fs who res now mode j)"
| "journal_run env (Reopen i fs) j = or_same j (reopen env i fs j)"
| "journal_run env (Delete i) j = fst (delete_entry i j)"
| "journal_run env (Gc now dry) j = fst (gc_entries now dry j)"
| "journal_run env (Policy on) j = set_evidence_first on j"
| "journal_run env (Sent i now) j = reminder_sent i now j"

text \<open>The two ways to let go of a hypothesis without checking it, and deleting the entry.\<close>

fun waives :: "int \<Rightarrow> journal_op \<Rightarrow> bool" where
  "waives i (Close k fs who res now mode) \<longleftrightarrow> mode \<noteq> Checked"
| "waives i (Delete k) \<longleftrightarrow> k = i"
| "waives i _ \<longleftrightarrow> False"

definition proved :: "text_env \<Rightarrow> journal \<Rightarrow> int \<Rightarrow> bool" where
  "proved env j i \<longleftrightarrow> (\<exists>e. e \<noteq> i \<and> (e, i, ''verifies'') \<in> set (links j) \<and> evidence_gap env j e = None)"

lemma proof_of_proved: "proof_of env j i = Inr e \<Longrightarrow> proved env j i"
proof -
  have "first_proof env j cs gs = Inr e \<Longrightarrow> e \<in> set cs \<and> evidence_gap env j e = None" for cs gs
    by (induction cs arbitrary: gs) (auto split: option.splits)
  then show "proof_of env j i = Inr e \<Longrightarrow> proved env j i"
    unfolding proof_of_def proved_def by (fastforce simp: verifiers_def)
qed

lemma open_flag_row: "has_open_flag j i f \<longleftrightarrow> (\<exists>r \<in> set (flags j). flag_open i f r)"
  by (simp add: has_open_flag_def list_ex_iff)

lemma ins_ignore_sub: "set t \<subseteq> set (ins_ignore k r t)"
  by (auto simp: ins_ignore_def)

lemma fold_ins_ignore_sub: "set t \<subseteq> set (fold (\<lambda>x. ins_ignore k (g x)) xs t)"
proof (induction xs arbitrary: t)
  case (Cons x xs)
  then show ?case using ins_ignore_sub [of t k "g x"] by fastforce
qed simp

lemma insert_flags_keeps: "has_open_flag j i f \<Longrightarrow> has_open_flag (insert_flags k fs now j) i f"
  using fold_ins_ignore_sub [of "flags j" flag_key "\<lambda>f. new_flag k f now" fs] by (auto simp: open_flag_row insert_flags_def)

lemma annotate_flags: "flags (annotate i ts fs e now j) = flags (insert_flags i fs now j)"
  by (auto simp: annotate_def insert_reminder_def insert_proofs_def insert_tags_def insert_flags_def split: option.split)

lemma add_keeps:
  assumes "has_open_flag j i f"
  shows "has_open_flag (or_same j (add_entry env e now j)) i f"
proof -
  have a: "has_open_flag (annotate k ts fs e now j') i f" if "flags j' = flags j" for k ts fs j'
    using insert_flags_keeps [of j' i f k fs now] assms that by (simp add: has_open_flag_def annotate_flags)
  moreover have "has_open_flag (insert_links env k b j') i f = has_open_flag j' i f" for k b j'
    by (simp add: insert_links_def has_open_flag_def)
  ultimately show ?thesis using assms
    by (auto simp: or_same_def add_entry_def Let_def split: sum.split option.split)
qed

lemma unmark_keeps:
  assumes "has_open_flag j i ''unverified''" "\<not> has_open_flag (or_same j (unmark env k fs j)) i ''unverified''"
  shows "proved env j i"
proof (cases "unmark env k fs j")
  case (Inr p)
  then obtain ns where ns: "normalize_flags env fs = Inr ns"
    "fst p = j\<lparr>flags := del_where (\<lambda>r. jf_entry r = k \<and> jf_flag r \<in> set ns) (flags j)\<rparr>"
    "''unverified'' \<in> set ns \<and> has_open_flag j k ''unverified'' \<longrightarrow> (\<exists>e. require_proof env j k = Inr e)"
    by (cases p) (auto simp: unmark_def Let_def split: sum.splits if_splits)
  from assms(1) obtain r where r: "r \<in> set (flags j)" "flag_open i ''unverified'' r" by (auto simp: open_flag_row)
  have "k = i \<and> ''unverified'' \<in> set ns"
    using assms(2) r Inr by (auto simp: or_same_def ns(2) open_flag_row tbl flag_open_def)
  then obtain e where "require_proof env j i = Inr e" using ns(3) assms(1) by auto
  then show ?thesis using proof_of_proved by (auto simp: require_proof_def split: sum.splits)
qed (use assms in \<open>simp add: or_same_def\<close>)

lemma close_keeps:
  assumes "has_open_flag j i ''unverified''" "\<not> has_open_flag (or_same j (close_with env k fs who res now Checked j)) i ''unverified''"
  shows "proved env j i"
proof (cases "close_with env k fs who res now Checked j")
  case (Inr p)
  obtain j' out where p: "p = (j', out)" by (cases p) auto
  from Inr p obtain targets res1 res2 rest where c:
    "gate_unverified env j k targets (journal_clean res) Checked = Inr res1"
    "out = map (Pair k) targets @ concat (map (\<lambda>e. map (Pair e) (closing_items env Checked j e)) rest)"
    "j' = close_set out (journal_clean who) res2 now j" by (auto elim: close_with_cases)
  have "(i, ''unverified'') \<in> set out"
    using assms Inr p unfolding c(3) by (auto simp: or_same_def has_open_close_set)
  then consider "i = k" "''unverified'' \<in> set targets" | v where "proof_of env j i = Inr v"
    unfolding c(2) by (auto simp: closing_item_iff)
  then show ?thesis
    using c(1) proof_of_proved by cases (auto simp: gate_unverified_def require_proof_def split: sum.splits)
qed (use assms in \<open>simp add: or_same_def\<close>)

lemma delete_keeps:
  assumes "has_open_flag j i f" "\<And>r. r \<in> set (entries j) \<Longrightarrow> je_id r = i \<Longrightarrow> \<not> p r"
  shows "has_open_flag (delete_where p j) i f"
  using assms by (auto simp: open_flag_row delete_where_def Let_def tbl flag_open_def)

lemma upd_keeps_open:
  assumes "has_open_flag j i f" "\<And>r. flag_open i f r \<Longrightarrow> flag_open i f (g r)"
  shows "has_open_flag (j\<lparr>flags := upd_where p g (flags j)\<rparr>) i f"
proof -
  obtain r where "r \<in> set (flags j)" "flag_open i f r" using assms(1) by (auto simp: open_flag_row)
  then have "(if p r then g r else r) \<in> set (upd_where p g (flags j))" "flag_open i f (if p r then g r else r)"
    using assms(2) by (auto simp: upd_where_def)
  then show ?thesis unfolding open_flag_row by auto
qed

lemma reopen_keeps:
  assumes "has_open_flag j i f"
  shows "has_open_flag (or_same j (reopen env k fs j)) i f"
proof -
  have "has_open_flag (j\<lparr>flags := upd_where p (\<lambda>r. r\<lparr>jf_closed := None, jf_by := None, jf_resolution := None\<rparr>) (flags j)\<rparr>) i f" for p
    using assms by (rule upd_keeps_open) (simp add: flag_open_def)
  then show ?thesis using assms by (simp add: or_same_def reopen_def Let_def split: sum.split option.split)
qed


section \<open>A small journal\<close>

text \<open>Entry 1 is a todo, 2 implements it and is still a hypothesis, 3 verifies 2 and says enough; 4 is another todo.\<close>

definition plain_env :: text_env where
  "plain_env = \<lparr>uni = (\<lambda>_. False), lower = (\<lambda>t. t), sha = map char_of\<rparr>"

definition sample :: "int \<Rightarrow> utext \<Rightarrow> entry" where
  "sample i body = \<lparr>je_id = i, je_created = i, je_category = of_str ''finding'', je_body = body, je_sha = map char_of body,
     je_salience = ''medium'', je_agent = None, je_agent_id = None, je_session = None, je_feature = None, je_artifact = None\<rparr>"

definition work :: journal where
  "work = \<lparr>entries = [sample 1 [120], sample 2 [120], sample 3 (replicate 45 120), sample 4 [120]], tags = [],
     flags = [new_flag 1 ''todo'' 1, new_flag 2 ''unverified'' 2, new_flag 3 ''verified'' 3, new_flag 4 ''todo'' 4],
     links = [(2, 1, ''implements''), (3, 2, ''verifies'')], reminders = [], proofs = [], evidence_first = False\<rparr>"

lemma parse_refs_none: "35 \<notin> set (lower env body) \<Longrightarrow> parse_refs env body = []"
proof -
  assume a: "35 \<notin> set (lower env body)"
  have "find_from mark_text (lower env body) k = None" for k
  proof (rule ccontr)
    assume "find_from mark_text (lower env body) k \<noteq> None"
    then obtain i where "take (length mark_text) (drop i (lower env body)) = mark_text"
      using find_SomeD unfolding find_from_def by fastforce
    moreover have "35 \<in> set mark_text" by (simp add: mark_text_def of_str_def)
    ultimately have "35 \<in> set (take (length mark_text) (drop i (lower env body)))" by simp
    with a show False by (meson in_set_dropD in_set_takeD)
  qed
  then show ?thesis by (simp add: parse_refs_def refs_from.simps)
qed

lemma split_white_word: "t \<noteq> [] \<Longrightarrow> \<forall>c \<in> set t. \<not> is_white c \<Longrightarrow> split_white t = [t]"
proof (cases t)
  case (Cons c cs)
  assume "\<forall>c \<in> set t. \<not> is_white c"
  then have "takeWhile (\<lambda>x. \<not> is_white x) cs = cs" "dropWhile (\<lambda>x. \<not> is_white x) cs = []" "\<not> is_white c"
    using Cons by auto
  then show ?thesis unfolding Cons by (simp only: split_white.simps if_False)
qed simp

lemma work_evidence: "evidence_gap plain_env work 3 = None"
proof -
  have "own_words plain_env (replicate 45 120) = replicate 45 120"
  proof -
    have "parse_refs plain_env (replicate 45 120) = []"
      by (rule parse_refs_none) (simp add: plain_env_def)
    moreover have "split_white (replicate 45 120) = [replicate 45 120]"
      by (rule split_white_word) (simp_all add: is_white_def)
    ultimately show ?thesis by (simp add: own_words_def plain_env_def)
  qed
  then show ?thesis
    by (simp add: evidence_gap_def work_def has_open_flag_def flag_open_def new_flag_def sample_def min_evidence_chars_def)
qed

lemma work_todos: "is_todo work 1" "is_todo work 4" "\<not> is_todo work 2" "\<not> is_todo work 3"
  by (simp_all add: is_todo_def work_def new_flag_def)

lemma work_branch: "branch_ids work 1 = [1, 2, 3]"
proof -
  have c: "children work 1 = [2]" "children work 2 = [3]" "children work 3 = []"
    by (simp_all add: children_def work_def structural_def)
  have "parents work 2 = [1]" "parents work 3 = [2]"
    by (simp_all add: parents_def work_def structural_def)
  then have "branch_root work 2 = Some 1" "branch_root work 3 = Some 1"
    by (simp_all add: branch_root_def work_todos branch_limit_def Let_def)
  then show ?thesis by (simp add: branch_ids_def c work_todos branch_limit_def Let_def)
qed

lemma work_proof: "proof_of plain_env work 2 = Inr 3"
  by (simp add: proof_of_def verifiers_def work_evidence work_def [THEN arg_cong, of links])

lemma work_items: "open_work_items work 1 = [''todo'']" "open_work_items work 2 = [''unverified'']" "open_work_items work 3 = []"
  by (simp_all add: open_work_items_def work_def new_flag_def closable_def marks_def)

lemma work_close:
  "close_with plain_env 1 [] None None 9 Checked work =
     Inr (close_set [(1, ''todo''), (2, ''unverified'')] None (Some (verified_by 3)) 9 work, [(1, ''todo''), (2, ''unverified'')])"
proof -
  have "normalize_flags plain_env [] = Inr []" by (simp add: normalize_flags_def)
  moreover have "exists_entry 1 work" by (simp add: exists_entry_def work_def sample_def)
  moreover have "branch_evidence plain_env work 1 = Some 3"
    by (simp add: branch_evidence_def work_branch work_evidence) (simp add: has_open_flag_def work_def flag_open_def new_flag_def)
  ultimately show ?thesis
    by (simp add: close_with_def work_items gate_unverified_def gate_todo_def work_branch journal_clean_def Let_def
        close_each_set close_branch_set closing_items_close_set closable_def marks_def close_set_append
        closing_items_def work_proof open_items_close_set proof_close_set del: close_branch.simps close_each.simps)
qed


theorem closing_stays_in_its_branch_witness:
  "set (branch_ids work 1) \<inter> set (branch_ids work 4) = {}"
  by (rule closing_stays_in_its_branch [THEN conjunct1]) (simp_all add: work_todos)


end
