(* ===== verification/Mindmap.thy ===== *)
theory Mindmap
  imports Journal
begin

text \<open>
  Mind maps and flowcharts, as \<open>mindmap.rs\<close> stores them in a project's journal file: the
  seven tables (\<open>mm_db\<close>, next to the journal they refer to), every operation that reads or
  changes them, and the walks over the node tree. A row's \<open>ON DELETE CASCADE\<close> is written out
  where the row is deleted. The \<open>view_token\<close> drawn by \<open>uuid\<close> is an argument.
\<close>

section \<open>Tables\<close>

record map_row =
  mp_id :: int
  mp_title :: utext
  mp_nick :: utext
  mp_host :: "utext option"
  mp_state :: string
  mp_token :: string
  mp_created :: int
  mp_updated :: int
  mp_shared :: bool
  mp_layout :: string
  mp_direction :: string

record node_row =
  nd_id :: int
  nd_map :: int
  nd_parent :: "int option"
  nd_kind :: string
  nd_text :: utext
  nd_state :: string
  nd_ord :: int
  nd_created :: int
  nd_author :: "utext option"

record edge_row =
  ed_id :: int
  ed_map :: int
  ed_from :: int
  ed_to :: int
  ed_label :: utext

text \<open>A reference of a node or a link to an entry; \<open>rf_id\<close> is the implicit rowid.\<close>

record ref_row =
  rf_id :: int
  rf_on :: int
  rf_entry :: int

record chain_row =
  ch_id :: int
  ch_map :: int
  ch_name :: utext
  ch_sig :: string
  ch_created :: int

record step_row =
  st_id :: int
  st_chain :: int
  st_pos :: int
  st_entry :: int

record mm_db =
  mm_maps :: "map_row rows"
  mm_nodes :: "node_row rows"
  mm_edges :: "edge_row rows"
  mm_node_refs :: "ref_row rows"
  mm_edge_refs :: "ref_row rows"
  mm_chains :: "chain_row rows"
  mm_steps :: "step_row rows"
  mm_journal :: journal

definition empty_mm :: "journal \<Rightarrow> mm_db" where
  "empty_mm j = \<lparr>mm_maps = [], mm_nodes = [], mm_edges = [], mm_node_refs = [], mm_edge_refs = [],
     mm_chains = [], mm_steps = [], mm_journal = j\<rparr>"

datatype mm_error =
    TextEmpty string | TextTooLong string nat | UnknownKind string utext | UnknownLayout utext | NoNick
  | UnknownDirection utext | NoMap int | NotOwner int utext | NotShared int utext | NotInMap int | LinkNotInMap int
  | EntryMissing int | MapClosed int | NoRoot | TopicKind | NotATree | NotAFlowchart | MapFull | RootMoves
  | MakesCycle int int | UnknownState string | RootHasNoState | RootStays | SelfLoop | LabelTooLong
  | NoEntries | ChainTooShort | ChainTooLong | TwiceInChain int | ChainNamed utext | ChainIs utext | NoChain utext
  | Constraint

section \<open>Names\<close>

definition layouts :: "string list" where "layouts = [''mindmap'', ''flowchart'']"
definition directions :: "string list" where "directions = [''down'', ''right'']"

definition node_kinds :: "string list" where
  "node_kinds = [''topic'', ''goal'', ''fact'', ''hypothesis'', ''question'', ''decision'', ''idea'', ''task'',
     ''dead-end'', ''note'']"

definition gates :: "string list" where
  "gates = [''and'', ''or'', ''not'', ''nand'', ''nor'', ''xor'', ''xnor'']"

definition flow_kinds :: "string list" where
  "flow_kinds = [''start'', ''end'', ''process'', ''decision'', ''io'', ''subprocess'', ''document'', ''data'',
     ''manual'', ''prep'', ''connector'', ''delay'', ''note'', ''and'', ''or'', ''not'', ''nand'', ''nor'', ''xor'', ''xnor'']"

definition node_states :: "string list" where "node_states = [''open'', ''done'', ''dropped'']"
definition max_text_chars :: nat where "max_text_chars = 2000"
definition max_title_chars :: nat where "max_title_chars = 200"
definition max_nodes :: nat where "max_nodes = 2000"
definition max_chain_steps :: nat where "max_chain_steps = 200"

record owner =
  ow_nick :: utext
  ow_host :: "utext option"

definition clean_text :: "utext \<Rightarrow> nat \<Rightarrow> string \<Rightarrow> mm_error + utext" where
  "clean_text raw mx what =
     (let t = trim raw in
      if t = [] then Inl (TextEmpty what) else if mx < length t then Inl (TextTooLong what mx) else Inr t)"

text \<open>\<open>to_ascii_lowercase\<close>, and the aliases of \<open>normalize_kind\<close> and \<open>normalize_layout\<close>.\<close>

definition ascii_lower :: "utext \<Rightarrow> utext" where
  "ascii_lower t = map (\<lambda>c. if 65 \<le> c \<and> c \<le> 90 then c + 32 else c) t"

definition unalias :: "(string list \<times> string) list \<Rightarrow> utext \<Rightarrow> utext" where
  "unalias tab w =
     (case find (\<lambda>(ws, _). w \<in> of_str ` set ws) tab of None \<Rightarrow> w | Some (_, s) \<Rightarrow> of_str s)"

definition kind_aliases :: "(string list \<times> string) list" where
  "kind_aliases =
     [([''deadend''], ''dead-end''), ([''terminator'', ''begin''], ''start''), ([''stop'', ''finish''], ''end''),
      ([''input'', ''output'', ''input-output'', ''i/o''], ''io''),
      ([''predefined'', ''predefined-process''], ''subprocess''), ([''database'', ''storage'', ''stored-data''], ''data''),
      ([''manual-input''], ''manual''), ([''preparation''], ''prep'')]"

definition kinds_of :: "string \<Rightarrow> string list" where
  "kinds_of layout = (if layout = ''flowchart'' then flow_kinds else node_kinds)"

definition normalize_kind :: "utext \<Rightarrow> string \<Rightarrow> mm_error + string" where
  "normalize_kind raw layout =
     (let k = unalias kind_aliases (map (\<lambda>c. if c = 95 \<or> c = 32 then 45 else c) (ascii_lower (trim raw)))
      in case find (\<lambda>s. of_str s = k) (kinds_of layout) of
           None \<Rightarrow> Inl (UnknownKind layout raw) | Some s \<Rightarrow> Inr s)"

definition layout_aliases :: "(string list \<times> string) list" where
  "layout_aliases =
     [([''mind-map'', ''tree'', ''classic''], ''mindmap''), ([''flow'', ''flow-chart'', ''block'', ''diagram''], ''flowchart'')]"

definition normalize_layout :: "utext \<Rightarrow> mm_error + string" where
  "normalize_layout raw =
     (case find (\<lambda>s. of_str s = unalias layout_aliases (ascii_lower (trim raw))) layouts of
        None \<Rightarrow> Inl (UnknownLayout raw) | Some s \<Rightarrow> Inr s)"

definition same_owner :: "utext \<Rightarrow> utext option \<Rightarrow> owner \<Rightarrow> bool" where
  "same_owner nick host who \<longleftrightarrow> nick = ow_nick who
     \<and> (case (host, ow_host who) of (Some a, Some b) \<Rightarrow> a = b | _ \<Rightarrow> True)"

section \<open>Maps\<close>

record new_map =
  nm_title :: utext
  nm_layout :: utext
  nm_direction :: utext
  nm_shared :: bool

definition mindmap_spec :: "utext \<Rightarrow> new_map" where
  "mindmap_spec title = \<lparr>nm_title = title, nm_layout = of_str ''mindmap'', nm_direction = of_str ''down'', nm_shared = False\<rparr>"

definition create_map :: "new_map \<Rightarrow> owner \<Rightarrow> string \<Rightarrow> int \<Rightarrow> mm_db \<Rightarrow> mm_error + mm_db \<times> int \<times> int" where
  "create_map spec who tok now d =
     (case clean_text (nm_title spec) max_title_chars ''the title'' of Inl e \<Rightarrow> Inl e
      | Inr title \<Rightarrow>
        if trim (ow_nick who) = [] then Inl NoNick
        else case normalize_layout (nm_layout spec) of Inl e \<Rightarrow> Inl e
        | Inr layout \<Rightarrow>
          (case find (\<lambda>s. of_str s = ascii_lower (trim (nm_direction spec))) directions of
             None \<Rightarrow> Inl (UnknownDirection (nm_direction spec))
           | Some dir \<Rightarrow>
             let m = next_rowid mp_id (mm_maps d);
                 root = next_rowid nd_id (mm_nodes d)
             in Inr (d\<lparr>mm_maps := mm_maps d @ [\<lparr>mp_id = m, mp_title = title, mp_nick = ow_nick who, mp_host = ow_host who,
                         mp_state = ''open'', mp_token = tok, mp_created = now, mp_updated = now,
                         mp_shared = nm_shared spec, mp_layout = layout, mp_direction = dir\<rparr>],
                       mm_nodes := mm_nodes d @ [\<lparr>nd_id = root, nd_map = m, nd_parent = None, nd_kind = ''topic'',
                         nd_text = title, nd_state = ''open'', nd_ord = 0, nd_created = now, nd_author = None\<rparr>]\<rparr>, m, root)))"

definition create :: "utext \<Rightarrow> owner \<Rightarrow> string \<Rightarrow> int \<Rightarrow> mm_db \<Rightarrow> mm_error + mm_db \<times> int \<times> int" where
  "create title who tok now d = create_map (mindmap_spec title) who tok now d"

record map_summary =
  su_id :: int
  su_title :: utext
  su_nick :: utext
  su_host :: "utext option"
  su_state :: utext
  su_shared :: bool
  su_layout :: utext
  su_direction :: utext
  su_nodes :: nat
  su_open :: nat
  su_created :: int
  su_updated :: int

definition summary_row :: "mm_db \<Rightarrow> map_row \<Rightarrow> map_summary" where
  "summary_row d m =
     \<lparr>su_id = mp_id m, su_title = mp_title m, su_nick = mp_nick m, su_host = mp_host m, su_state = of_str (mp_state m),
      su_shared = mp_shared m, su_layout = of_str (mp_layout m), su_direction = of_str (mp_direction m),
      su_nodes = count_where (\<lambda>n. nd_map n = mp_id m) (mm_nodes d),
      su_open = count_where (\<lambda>n. nd_map n = mp_id m \<and> nd_state n = ''open'' \<and> nd_parent n \<noteq> None) (mm_nodes d),
      su_created = mp_created m, su_updated = mp_updated m\<rparr>"

definition owned_by :: "map_summary \<Rightarrow> owner \<Rightarrow> bool" where
  "owned_by s who = same_owner (su_nick s) (su_host s) who"

definition list_maps :: "owner option \<Rightarrow> bool \<Rightarrow> mm_db \<Rightarrow> map_summary list" where
  "list_maps viewer closed_too d =
     (let all = map (summary_row d)
        (sort_key (\<lambda>m. - mp_updated m) (sort_key (\<lambda>m. - mp_id m)
          (filter (\<lambda>m. closed_too \<or> mp_state m = ''open'') (mm_maps d))))
      in case viewer of Some v \<Rightarrow> filter (\<lambda>m. su_shared m \<or> owned_by m v) all | None \<Rightarrow> all)"

definition map_of_id :: "int \<Rightarrow> mm_db \<Rightarrow> map_row option" where
  "map_of_id m d = row_of mp_id m (mm_maps d)"

definition map_summary_of :: "int \<Rightarrow> mm_db \<Rightarrow> map_summary option" where
  "map_summary_of m d = map_option (summary_row d) (map_of_id m d)"

definition view_token_of :: "int \<Rightarrow> mm_db \<Rightarrow> string option" where
  "view_token_of m d = map_option mp_token (map_of_id m d)"

definition check_owner :: "int \<Rightarrow> owner \<Rightarrow> mm_db \<Rightarrow> mm_error + unit" where
  "check_owner m who d =
     (case map_of_id m d of None \<Rightarrow> Inl (NoMap m)
      | Some r \<Rightarrow> if same_owner (mp_nick r) (mp_host r) who then Inr () else Inl (NotOwner m (mp_nick r)))"

definition check_write :: "int \<Rightarrow> owner \<Rightarrow> mm_db \<Rightarrow> mm_error + unit" where
  "check_write m who d =
     (case map_of_id m d of None \<Rightarrow> Inl (NoMap m)
      | Some r \<Rightarrow> if mp_shared r \<or> same_owner (mp_nick r) (mp_host r) who then Inr () else Inl (NotShared m (mp_nick r)))"

definition set_map :: "int \<Rightarrow> (map_row \<Rightarrow> map_row) \<Rightarrow> mm_db \<Rightarrow> mm_db" where
  "set_map m f d = d\<lparr>mm_maps := upd_where (\<lambda>r. mp_id r = m) f (mm_maps d)\<rparr>"

definition set_shared :: "int \<Rightarrow> bool \<Rightarrow> int \<Rightarrow> mm_db \<Rightarrow> mm_error + mm_db" where
  "set_shared m shared now d =
     (if map_of_id m d = None then Inl (NoMap m)
      else Inr (set_map m (\<lambda>r. r\<lparr>mp_shared := shared, mp_updated := now\<rparr>) d))"

definition set_map_state :: "int \<Rightarrow> bool \<Rightarrow> int \<Rightarrow> mm_db \<Rightarrow> mm_error + mm_db" where
  "set_map_state m opn now d =
     (if map_of_id m d = None then Inl (NoMap m)
      else Inr (set_map m (\<lambda>r. r\<lparr>mp_state := (if opn then ''open'' else ''closed''), mp_updated := now\<rparr>) d))"

definition layout_of :: "int \<Rightarrow> mm_db \<Rightarrow> mm_error + string" where
  "layout_of m d = (case map_of_id m d of None \<Rightarrow> Inl (NoMap m) | Some r \<Rightarrow> Inr (mp_layout r))"

definition touch :: "int \<Rightarrow> int \<Rightarrow> mm_db \<Rightarrow> mm_db" where
  "touch m now d = set_map m (\<lambda>r. r\<lparr>mp_updated := now\<rparr>) d"

section \<open>Reading a map\<close>

record mnode =
  mn_id :: int
  mn_parent :: "int option"
  mn_kind :: utext
  mn_text :: utext
  mn_state :: utext
  mn_refs :: "int list"
  mn_author :: "utext option"

record medge =
  me_id :: int
  me_from :: int
  me_to :: int
  me_label :: utext
  me_refs :: "int list"

record mchain =
  mc_id :: int
  mc_name :: utext
  mc_entries :: "int list"

record mmap =
  mm_summary :: map_summary
  mm_root :: int
  mmap_nodes :: "mnode list"
  mmap_edges :: "medge list"
  mmap_chains :: "mchain list"

definition refs_of :: "int \<Rightarrow> ref_row rows \<Rightarrow> int list" where
  "refs_of i t = sort (map rf_entry (filter (\<lambda>r. rf_on r = i) t))"

definition steps_of :: "int \<Rightarrow> mm_db \<Rightarrow> int list" where
  "steps_of c d = map st_entry (sort_key st_pos (filter (\<lambda>s. st_chain s = c) (mm_steps d)))"

definition node_view :: "mm_db \<Rightarrow> node_row \<Rightarrow> mnode" where
  "node_view d n = \<lparr>mn_id = nd_id n, mn_parent = nd_parent n, mn_kind = of_str (nd_kind n), mn_text = nd_text n,
     mn_state = of_str (nd_state n), mn_refs = refs_of (nd_id n) (mm_node_refs d), mn_author = nd_author n\<rparr>"

definition edge_view :: "mm_db \<Rightarrow> edge_row \<Rightarrow> medge" where
  "edge_view d e = \<lparr>me_id = ed_id e, me_from = ed_from e, me_to = ed_to e, me_label = ed_label e,
     me_refs = refs_of (ed_id e) (mm_edge_refs d)\<rparr>"

definition chain_view :: "mm_db \<Rightarrow> chain_row \<Rightarrow> mchain" where
  "chain_view d c = \<lparr>mc_id = ch_id c, mc_name = ch_name c, mc_entries = steps_of (ch_id c) d\<rparr>"

text \<open>
  The stack of levels of \<open>load\<close>, top first: take the first node of the top level, and put its
  children (taken out of \<open>by_parent\<close>, here the nodes not placed yet) on top.
\<close>

function tree_order :: "mnode list \<Rightarrow> mnode list list \<Rightarrow> mnode list \<Rightarrow> mnode list" where
  "tree_order by_parent [] out = out"
| "tree_order by_parent ([] # st) out = tree_order by_parent st out"
| "tree_order by_parent ((n # ns) # st) out =
     tree_order (filter (\<lambda>k. mn_parent k \<noteq> Some (mn_id n)) by_parent)
       (filter (\<lambda>k. mn_parent k = Some (mn_id n)) by_parent # ns # st) (out @ [n])"
  by pat_completeness auto
termination
proof (relation "measure (\<lambda>(by_parent, st, _). 2 * (length by_parent + sum_list (map length st)) + length st)", goal_cases)
  case (3 by_parent n ns st out)
  show ?case
    using sum_length_filter_compl [of "\<lambda>k. mn_parent k = Some (mn_id n)" by_parent] by simp
qed auto

definition raw_nodes :: "int \<Rightarrow> mm_db \<Rightarrow> mnode list" where
  "raw_nodes m d = map (node_view d) (sort_key nd_ord (sort_key nd_id (filter (\<lambda>n. nd_map n = m) (mm_nodes d))))"

definition load :: "int \<Rightarrow> mm_db \<Rightarrow> mm_error + mmap option" where
  "load m d =
     (case map_summary_of m d of None \<Rightarrow> Inr None
      | Some s \<Rightarrow>
        let raw = raw_nodes m d in
        case find (\<lambda>n. mn_parent n = None) raw of None \<Rightarrow> Inl NoRoot
        | Some r \<Rightarrow>
          Inr (Some \<lparr>mm_summary = s, mm_root = mn_id r,
            mmap_nodes = tree_order (filter (\<lambda>n. mn_parent n \<noteq> None) raw) [filter (\<lambda>n. mn_parent n = None) raw] [],
            mmap_edges = map (edge_view d) (sort_key ed_id (filter (\<lambda>e. ed_map e = m) (mm_edges d))),
            mmap_chains = map (chain_view d) (sort_key ch_id (filter (\<lambda>c. ch_map c = m) (mm_chains d)))\<rparr>))"

fun load_each :: "int list \<Rightarrow> mm_db \<Rightarrow> mm_error + mmap list" where
  "load_each [] d = Inr []"
| "load_each (i # is) d =
     (case load i d of Inl e \<Rightarrow> Inl e
      | Inr m \<Rightarrow> (case load_each is d of Inl e \<Rightarrow> Inl e
                 | Inr ms \<Rightarrow> Inr (case m of None \<Rightarrow> ms | Some x \<Rightarrow> x # ms)))"

definition export_all :: "mm_db \<Rightarrow> mm_error + mmap list" where
  "export_all d = load_each (sort (map mp_id (mm_maps d))) d"

section \<open>Guards\<close>

definition root_of :: "int \<Rightarrow> mm_db \<Rightarrow> mm_error + int" where
  "root_of m d =
     (case find (\<lambda>n. nd_map n = m \<and> nd_parent n = None) (mm_nodes d) of None \<Rightarrow> Inl NoRoot | Some n \<Rightarrow> Inr (nd_id n))"

definition node_in :: "int \<Rightarrow> int \<Rightarrow> mm_db \<Rightarrow> bool" where
  "node_in m n d = (case row_of nd_id n (mm_nodes d) of Some r \<Rightarrow> nd_map r = m | None \<Rightarrow> False)"

definition edge_in :: "int \<Rightarrow> int \<Rightarrow> mm_db \<Rightarrow> bool" where
  "edge_in m e d = (case row_of ed_id e (mm_edges d) of Some r \<Rightarrow> ed_map r = m | None \<Rightarrow> False)"

definition missing_entry :: "int list \<Rightarrow> mm_db \<Rightarrow> int option" where
  "missing_entry es d = find (\<lambda>e. \<not> exists_entry e (mm_journal d)) es"

definition is_open :: "int \<Rightarrow> mm_db \<Rightarrow> mm_error option" where
  "is_open m d =
     (case map_of_id m d of None \<Rightarrow> Some (NoMap m)
      | Some r \<Rightarrow> if mp_state r \<noteq> ''open'' then Some (MapClosed m) else None)"

text \<open>\<open>INSERT OR IGNORE\<close> into one of the reference tables, and its row count.\<close>

definition ins_ref :: "int \<Rightarrow> int \<Rightarrow> ref_row rows \<Rightarrow> ref_row rows" where
  "ins_ref i e t =
     ins_ignore (\<lambda>r. (rf_on r, rf_entry r)) \<lparr>rf_id = next_rowid rf_id t, rf_on = i, rf_entry = e\<rparr> t"

definition ins_refs :: "int \<Rightarrow> int list \<Rightarrow> ref_row rows \<Rightarrow> ref_row rows" where
  "ins_refs i es t = fold (ins_ref i) es t"

datatype target = Node int | Link int

fun insert_refs :: "target \<Rightarrow> int list \<Rightarrow> mm_db \<Rightarrow> mm_db \<times> nat" where
  "insert_refs (Node i) es d =
     (let t = ins_refs i es (mm_node_refs d) in (d\<lparr>mm_node_refs := t\<rparr>, length t - length (mm_node_refs d)))"
| "insert_refs (Link i) es d =
     (let t = ins_refs i es (mm_edge_refs d) in (d\<lparr>mm_edge_refs := t\<rparr>, length t - length (mm_edge_refs d)))"

section \<open>Changing a map\<close>

record new_node =
  nn_parent :: "int option"
  nn_after :: "int option"
  nn_label :: utext
  nn_kind :: utext
  nn_text :: utext
  nn_refs :: "int list"
  nn_author :: "utext option"

definition new_kind :: "utext \<Rightarrow> string \<Rightarrow> mm_error + string" where
  "new_kind raw layout =
     (if trim raw = [] then Inr (if layout = ''flowchart'' then ''process'' else ''note'')
      else normalize_kind (trim raw) layout)"

definition next_ord :: "int \<Rightarrow> mm_db \<Rightarrow> int" where
  "next_ord p d = (let os = map nd_ord (filter (\<lambda>n. nd_parent n = Some p) (mm_nodes d))
     in if os = [] then 0 else Max (set os) + 1)"

definition edge_key :: "edge_row \<Rightarrow> int \<times> int \<times> utext" where
  "edge_key e = (ed_from e, ed_to e, ed_label e)"

definition new_edge :: "int \<Rightarrow> int \<Rightarrow> int \<Rightarrow> utext \<Rightarrow> edge_row rows \<Rightarrow> edge_row" where
  "new_edge m f t l es = \<lparr>ed_id = next_rowid ed_id es, ed_map = m, ed_from = f, ed_to = t, ed_label = l\<rparr>"

text \<open>The arrow of a flowchart's new node: a plain \<open>INSERT\<close>, refused by the unique index.\<close>

definition draw_arrow :: "int \<Rightarrow> int option \<Rightarrow> int \<Rightarrow> utext \<Rightarrow> mm_db \<Rightarrow> mm_error + mm_db" where
  "draw_arrow m after i label d =
     (case after of None \<Rightarrow> Inr d
      | Some a \<Rightarrow>
        let e = new_edge m a i label (mm_edges d) in
        if edge_key e \<in> edge_key ` set (mm_edges d) then Inl Constraint else Inr (d\<lparr>mm_edges := mm_edges d @ [e]\<rparr>))"

definition add_under :: "int \<Rightarrow> int \<Rightarrow> new_node \<Rightarrow> string \<Rightarrow> utext \<Rightarrow> int \<Rightarrow> mm_db \<Rightarrow> mm_error + mm_db \<times> int" where
  "add_under m p spec kind txt now d =
     (let i = next_rowid nd_id (mm_nodes d);
          n = \<lparr>nd_id = i, nd_map = m, nd_parent = Some p, nd_kind = kind, nd_text = txt, nd_state = ''open'',
               nd_ord = next_ord p d, nd_created = now, nd_author = nn_author spec\<rparr>;
          d1 = fst (insert_refs (Node i) (nn_refs spec) (d\<lparr>mm_nodes := mm_nodes d @ [n]\<rparr>))
      in case draw_arrow m (nn_after spec) i (trim (nn_label spec)) d1 of Inl e \<Rightarrow> Inl e
         | Inr d2 \<Rightarrow> Inr (touch m now d2, i))"

definition place_of :: "int \<Rightarrow> new_node \<Rightarrow> mm_db \<Rightarrow> mm_error + int" where
  "place_of m spec d =
     (case nn_parent spec of Some p \<Rightarrow> (if node_in m p d then Inr p else Inl (NotInMap p)) | None \<Rightarrow> root_of m d)"

definition add_node :: "int \<Rightarrow> new_node \<Rightarrow> int \<Rightarrow> mm_db \<Rightarrow> mm_error + mm_db \<times> int" where
  "add_node m spec now d =
     (case layout_of m d of Inl e \<Rightarrow> Inl e
      | Inr layout \<Rightarrow>
      (case new_kind (nn_kind spec) layout of Inl e \<Rightarrow> Inl e
      | Inr kind \<Rightarrow>
        if kind = ''topic'' then Inl TopicKind
        else case clean_text (nn_text spec) max_text_chars ''the node text'' of Inl e \<Rightarrow> Inl e
        | Inr txt \<Rightarrow>
          if layout = ''flowchart'' \<and> nn_parent spec \<noteq> None then Inl NotATree
          else if layout \<noteq> ''flowchart'' \<and> nn_after spec \<noteq> None then Inl NotAFlowchart
          else case is_open m d of Some e \<Rightarrow> Inl e
          | None \<Rightarrow>
            case place_of m spec d of Inl e \<Rightarrow> Inl e
            | Inr p \<Rightarrow>
              if \<not> (case nn_after spec of Some a \<Rightarrow> node_in m a d | None \<Rightarrow> True) then Inl (NotInMap (the (nn_after spec)))
              else if max_nodes \<le> count_where (\<lambda>n. nd_map n = m) (mm_nodes d) then Inl MapFull
              else case missing_entry (nn_refs spec) d of Some e \<Rightarrow> Inl (EntryMissing e)
              | None \<Rightarrow> add_under m p spec kind txt now d))"

definition set_node :: "int \<Rightarrow> (node_row \<Rightarrow> node_row) \<Rightarrow> mm_db \<Rightarrow> mm_db" where
  "set_node n f d = d\<lparr>mm_nodes := upd_where (\<lambda>r. nd_id r = n) f (mm_nodes d)\<rparr>"

text \<open>What every change of one node asks first.\<close>

definition on_node :: "int \<Rightarrow> int \<Rightarrow> (int \<Rightarrow> mm_error + 'a) \<Rightarrow> mm_db \<Rightarrow> mm_error + 'a" where
  "on_node m n act d =
     (case is_open m d of Some e \<Rightarrow> Inl e
      | None \<Rightarrow> if \<not> node_in m n d then Inl (NotInMap n)
        else case root_of m d of Inl e \<Rightarrow> Inl e | Inr root \<Rightarrow> act root)"

definition edit_kind :: "int \<Rightarrow> int \<Rightarrow> int \<Rightarrow> utext option \<Rightarrow> mm_db \<Rightarrow> mm_error + mm_db" where
  "edit_kind m n root kind d =
     (case kind of None \<Rightarrow> Inr d
      | Some raw \<Rightarrow>
        if n = root then
          (if trim raw = of_str ''topic'' then Inr (set_node n (\<lambda>r. r\<lparr>nd_kind := ''topic''\<rparr>) d) else Inl TopicKind)
        else case layout_of m d of Inl e \<Rightarrow> Inl e
        | Inr layout \<Rightarrow>
          (case normalize_kind raw layout of Inl e \<Rightarrow> Inl e
           | Inr k \<Rightarrow> if k = ''topic'' then Inl TopicKind else Inr (set_node n (\<lambda>r. r\<lparr>nd_kind := k\<rparr>) d)))"

definition edit_text :: "int \<Rightarrow> int \<Rightarrow> int \<Rightarrow> utext option \<Rightarrow> mm_db \<Rightarrow> mm_error + mm_db" where
  "edit_text m n root txt d =
     (case txt of None \<Rightarrow> Inr d
      | Some raw \<Rightarrow>
        (case clean_text raw (if n = root then max_title_chars else max_text_chars) ''the node text'' of Inl e \<Rightarrow> Inl e
         | Inr t \<Rightarrow>
           let d1 = set_node n (\<lambda>r. r\<lparr>nd_text := t\<rparr>) d in
           Inr (if n = root then set_map m (\<lambda>r. r\<lparr>mp_title := t\<rparr>) d1 else d1)))"

definition edit_node :: "int \<Rightarrow> int \<Rightarrow> utext option \<Rightarrow> utext option \<Rightarrow> int \<Rightarrow> mm_db \<Rightarrow> mm_error + mm_db" where
  "edit_node m n txt kind now d =
     on_node m n (\<lambda>root.
       case edit_kind m n root kind d of Inl e \<Rightarrow> Inl e
       | Inr d1 \<Rightarrow> (case edit_text m n root txt d1 of Inl e \<Rightarrow> Inl e | Inr d2 \<Rightarrow> Inr (touch m now d2))) d"

text \<open>
  The loop of \<open>move_node\<close> up the parents of \<open>c\<close>: whether it meets \<open>n\<close>; no value where it
  would not end.
\<close>

partial_function (option) meets :: "node_row rows \<Rightarrow> int \<Rightarrow> int \<Rightarrow> (mm_error + bool) option" where
  "meets t n c =
     (if c = n then Some (Inr True)
      else case row_of nd_id c t of None \<Rightarrow> Some (Inl NoRoot)
      | Some r \<Rightarrow> (case nd_parent r of None \<Rightarrow> Some (Inr False) | Some p \<Rightarrow> meets t n p))"

definition move_node :: "int \<Rightarrow> int \<Rightarrow> int \<Rightarrow> int \<Rightarrow> mm_db \<Rightarrow> (mm_error + mm_db) option" where
  "move_node m n p now d =
     (case is_open m d of Some e \<Rightarrow> Some (Inl e)
      | None \<Rightarrow>
        if \<not> node_in m n d then Some (Inl (NotInMap n))
        else if \<not> node_in m p d then Some (Inl (NotInMap p))
        else case layout_of m d of Inl e \<Rightarrow> Some (Inl e)
        | Inr layout \<Rightarrow>
          if layout = ''flowchart'' then Some (Inl NotATree)
          else case root_of m d of Inl e \<Rightarrow> Some (Inl e)
          | Inr root \<Rightarrow>
            if n = root then Some (Inl RootMoves)
            else case meets (mm_nodes d) n p of None \<Rightarrow> None
            | Some (Inl e) \<Rightarrow> Some (Inl e)
            | Some (Inr True) \<Rightarrow> Some (Inl (MakesCycle p n))
            | Some (Inr False) \<Rightarrow>
              Some (Inr (touch m now (set_node n (\<lambda>r. r\<lparr>nd_parent := Some p, nd_ord := next_ord p d\<rparr>) d))))"

definition set_node_state :: "int \<Rightarrow> int \<Rightarrow> string \<Rightarrow> int \<Rightarrow> mm_db \<Rightarrow> mm_error + mm_db" where
  "set_node_state m n st now d =
     (if st \<notin> set node_states then Inl (UnknownState st)
      else on_node m n (\<lambda>root. if n = root then Inl RootHasNoState
             else Inr (touch m now (set_node n (\<lambda>r. r\<lparr>nd_state := st\<rparr>) d))) d)"

text \<open>
  Deleting a node takes its whole subtree (\<open>parent_id \<dots> ON DELETE CASCADE\<close>), their references,
  their links and the references of those.
\<close>

definition below :: "node_row rows \<Rightarrow> int \<Rightarrow> int \<Rightarrow> bool" where
  "below t n c \<longleftrightarrow> meets t n c = Some (Inr True)"

definition delete_edges :: "(edge_row \<Rightarrow> bool) \<Rightarrow> mm_db \<Rightarrow> mm_db" where
  "delete_edges p d =
     d\<lparr>mm_edges := del_where p (mm_edges d),
       mm_edge_refs := del_where (\<lambda>r. rf_on r \<in> ed_id ` set (filter p (mm_edges d))) (mm_edge_refs d)\<rparr>"

definition delete_nodes :: "(int \<Rightarrow> bool) \<Rightarrow> mm_db \<Rightarrow> mm_db" where
  "delete_nodes gone d =
     delete_edges (\<lambda>e. gone (ed_from e) \<or> gone (ed_to e))
       (d\<lparr>mm_nodes := del_where (\<lambda>n. gone (nd_id n)) (mm_nodes d),
          mm_node_refs := del_where (\<lambda>r. gone (rf_on r)) (mm_node_refs d)\<rparr>)"

definition remove_node :: "int \<Rightarrow> int \<Rightarrow> int \<Rightarrow> mm_db \<Rightarrow> mm_error + mm_db \<times> nat" where
  "remove_node m n now d =
     on_node m n (\<lambda>root. if n = root then Inl RootStays
       else let d1 = delete_nodes (below (mm_nodes d) n) d;
                count = (\<lambda>x. count_where (\<lambda>r. nd_map r = m) (mm_nodes x))
            in Inr (touch m now d1, count d - count d1)) d"

definition add_edge :: "int \<Rightarrow> int \<Rightarrow> int \<Rightarrow> utext \<Rightarrow> int list \<Rightarrow> int \<Rightarrow> mm_db \<Rightarrow> mm_error + mm_db \<times> int" where
  "add_edge m f t raw refs now d =
     (if f = t then Inl SelfLoop
      else let label = trim raw in
        if max_title_chars < length label then Inl LabelTooLong
        else case is_open m d of Some e \<Rightarrow> Inl e
        | None \<Rightarrow>
          if \<not> node_in m f d then Inl (NotInMap f)
          else if \<not> node_in m t d then Inl (NotInMap t)
          else case missing_entry refs d of Some e \<Rightarrow> Inl (EntryMissing e)
          | None \<Rightarrow>
            let d1 = d\<lparr>mm_edges := ins_ignore edge_key (new_edge m f t label (mm_edges d)) (mm_edges d)\<rparr> in
            case row_of edge_key (f, t, label) (mm_edges d1) of None \<Rightarrow> Inl Constraint
            | Some e \<Rightarrow> Inr (touch m now (fst (insert_refs (Link (ed_id e)) refs d1)), ed_id e))"

definition remove_edge :: "int \<Rightarrow> int \<Rightarrow> int \<Rightarrow> mm_db \<Rightarrow> mm_error + mm_db" where
  "remove_edge m i now d =
     (case is_open m d of Some e \<Rightarrow> Inl e
      | None \<Rightarrow> if \<not> edge_in m i d then Inl (LinkNotInMap i)
        else Inr (touch m now (delete_edges (\<lambda>e. ed_id e = i) d)))"

fun target_in :: "int \<Rightarrow> target \<Rightarrow> mm_db \<Rightarrow> mm_error option" where
  "target_in m (Node n) d = (if node_in m n d then None else Some (NotInMap n))"
| "target_in m (Link e) d = (if edge_in m e d then None else Some (LinkNotInMap e))"

definition add_refs :: "int \<Rightarrow> target \<Rightarrow> int list \<Rightarrow> int \<Rightarrow> mm_db \<Rightarrow> mm_error + mm_db \<times> nat" where
  "add_refs m tg es now d =
     (if es = [] then Inl NoEntries
      else case is_open m d of Some e \<Rightarrow> Inl e
      | None \<Rightarrow> (case target_in m tg d of Some e \<Rightarrow> Inl e
        | None \<Rightarrow> (case missing_entry es d of Some e \<Rightarrow> Inl (EntryMissing e)
          | None \<Rightarrow> let (d1, n) = insert_refs tg es d in Inr (touch m now d1, n))))"

fun drop_refs :: "target \<Rightarrow> int list \<Rightarrow> mm_db \<Rightarrow> mm_db \<times> nat" where
  "drop_refs (Node i) es d =
     (let p = (\<lambda>r. rf_on r = i \<and> rf_entry r \<in> set es)
      in (d\<lparr>mm_node_refs := del_where p (mm_node_refs d)\<rparr>, count_where p (mm_node_refs d)))"
| "drop_refs (Link i) es d =
     (let p = (\<lambda>r. rf_on r = i \<and> rf_entry r \<in> set es)
      in (d\<lparr>mm_edge_refs := del_where p (mm_edge_refs d)\<rparr>, count_where p (mm_edge_refs d)))"

definition remove_refs :: "int \<Rightarrow> target \<Rightarrow> int list \<Rightarrow> int \<Rightarrow> mm_db \<Rightarrow> mm_error + mm_db \<times> nat" where
  "remove_refs m tg es now d =
     (case is_open m d of Some e \<Rightarrow> Inl e
      | None \<Rightarrow> (case target_in m tg d of Some e \<Rightarrow> Inl e
        | None \<Rightarrow> let (d1, n) = drop_refs tg es d in Inr (touch m now d1, n)))"

section \<open>Chains\<close>

definition signature :: "int list \<Rightarrow> string" where
  "signature es = join_with '','' (map dec_int es)"

fun first_twice :: "int list \<Rightarrow> int list \<Rightarrow> int option" where
  "first_twice seen [] = None"
| "first_twice seen (e # es) = (if e \<in> set seen then Some e else first_twice (e # seen) es)"

text \<open>One step per position; \<open>INSERT\<close> and \<open>INSERT OR IGNORE\<close> agree on a chain without steps.\<close>

definition step_key :: "step_row \<Rightarrow> int \<times> int" where
  "step_key s = (st_chain s, st_pos s)"

definition ins_step :: "int \<Rightarrow> int \<times> int \<Rightarrow> mm_db \<Rightarrow> mm_error + mm_db" where
  "ins_step c pe d =
     (let s = \<lparr>st_id = next_rowid st_id (mm_steps d), st_chain = c, st_pos = fst pe, st_entry = snd pe\<rparr> in
      if step_key s \<in> step_key ` set (mm_steps d) then Inr d
      else if c \<notin> ch_id ` set (mm_chains d) \<or> \<not> exists_entry (snd pe) (mm_journal d) then Inl Constraint
      else Inr (d\<lparr>mm_steps := mm_steps d @ [s]\<rparr>))"

fun fold_res :: "('a \<Rightarrow> 's \<Rightarrow> mm_error + 's) \<Rightarrow> 'a list \<Rightarrow> 's \<Rightarrow> mm_error + 's" where
  "fold_res f [] s = Inr s"
| "fold_res f (x # xs) s = (case f x s of Inl e \<Rightarrow> Inl e | Inr s' \<Rightarrow> fold_res f xs s')"

definition bind_res :: "mm_error + 'a \<Rightarrow> ('a \<Rightarrow> mm_error + 'b) \<Rightarrow> mm_error + 'b" where
  "bind_res r f = (case r of Inl e \<Rightarrow> Inl e | Inr x \<Rightarrow> f x)"

lemma bind_res_Inr [simp]: "bind_res r f = Inr y \<longleftrightarrow> (\<exists>x. r = Inr x \<and> f x = Inr y)"
  by (auto simp: bind_res_def split: sum.splits)

lemma bind_res_simps [simp]: "bind_res (Inr x) f = f x" "bind_res (Inl e) f = Inl e"
  by (simp_all add: bind_res_def)

definition ins_steps :: "int \<Rightarrow> int list \<Rightarrow> mm_db \<Rightarrow> mm_error + mm_db" where
  "ins_steps c es d = fold_res (ins_step c) (zip (map int [0..<length es]) es) d"

definition new_chain :: "int \<Rightarrow> utext \<Rightarrow> string \<Rightarrow> int \<Rightarrow> mm_db \<Rightarrow> chain_row" where
  "new_chain m name sig now d =
     \<lparr>ch_id = next_rowid ch_id (mm_chains d), ch_map = m, ch_name = name, ch_sig = sig, ch_created = now\<rparr>"

definition add_chain :: "int \<Rightarrow> utext \<Rightarrow> int list \<Rightarrow> int \<Rightarrow> mm_db \<Rightarrow> mm_error + mm_db \<times> int" where
  "add_chain m raw es now d =
     (case clean_text raw max_title_chars ''the chain name'' of Inl e \<Rightarrow> Inl e
      | Inr name \<Rightarrow>
        if length es < 2 then Inl ChainTooShort
        else if max_chain_steps < length es then Inl ChainTooLong
        else case first_twice [] es of Some e \<Rightarrow> Inl (TwiceInChain e)
        | None \<Rightarrow>
          case is_open m d of Some e \<Rightarrow> Inl e
          | None \<Rightarrow>
            case missing_entry es d of Some e \<Rightarrow> Inl (EntryMissing e)
            | None \<Rightarrow>
              if find (\<lambda>c. ch_map c = m \<and> ch_name c = name) (mm_chains d) \<noteq> None then Inl (ChainNamed name)
              else case find (\<lambda>c. ch_map c = m \<and> ch_sig c = signature es) (mm_chains d) of Some c \<Rightarrow> Inl (ChainIs (ch_name c))
              | None \<Rightarrow>
                let c = new_chain m name (signature es) now d in
                case ins_steps (ch_id c) es (d\<lparr>mm_chains := mm_chains d @ [c]\<rparr>) of Inl e \<Rightarrow> Inl e
                | Inr d1 \<Rightarrow> Inr (touch m now d1, ch_id c))"

definition delete_chains :: "(chain_row \<Rightarrow> bool) \<Rightarrow> mm_db \<Rightarrow> mm_db" where
  "delete_chains p d =
     d\<lparr>mm_chains := del_where p (mm_chains d),
       mm_steps := del_where (\<lambda>s. st_chain s \<in> ch_id ` set (filter p (mm_chains d))) (mm_steps d)\<rparr>"

definition remove_chain :: "int \<Rightarrow> utext \<Rightarrow> int \<Rightarrow> mm_db \<Rightarrow> mm_error + mm_db" where
  "remove_chain m raw now d =
     (case is_open m d of Some e \<Rightarrow> Inl e
      | None \<Rightarrow>
        let p = (\<lambda>c. ch_map c = m \<and> ch_name c = trim raw) in
        if count_where p (mm_chains d) = 0 then Inl (NoChain (trim raw))
        else Inr (touch m now (delete_chains p d)))"

section \<open>Deleting\<close>

definition delete_map :: "int \<Rightarrow> mm_db \<Rightarrow> mm_error + mm_db" where
  "delete_map m d =
     (if map_of_id m d = None then Inl (NoMap m)
      else let gone = nd_id ` set (filter (\<lambda>n. nd_map n = m) (mm_nodes d));
               d1 = delete_chains (\<lambda>c. ch_map c = m)
                 (delete_edges (\<lambda>e. ed_map e = m) (delete_nodes (\<lambda>i. i \<in> gone) d))
           in Inr (d1\<lparr>mm_maps := del_where (\<lambda>r. mp_id r = m) (mm_maps d1)\<rparr>))"

text \<open>Deleting journal entries takes the references and chain steps that point at them.\<close>

definition forget_entries :: "(entry \<Rightarrow> bool) \<Rightarrow> mm_db \<Rightarrow> mm_db" where
  "forget_entries p d =
     (let gone = je_id ` set (filter p (entries (mm_journal d))) in
      d\<lparr>mm_journal := delete_where p (mm_journal d),
        mm_node_refs := del_where (\<lambda>r. rf_entry r \<in> gone) (mm_node_refs d),
        mm_edge_refs := del_where (\<lambda>r. rf_entry r \<in> gone) (mm_edge_refs d),
        mm_steps := del_where (\<lambda>s. st_entry s \<in> gone) (mm_steps d)\<rparr>)"

section \<open>Copying maps between journals\<close>

text \<open>
  \<open>last_insert_rowid()\<close> after the \<open>INSERT OR IGNORE\<close>s that turned a table \<open>t\<close> into \<open>t'\<close>: an
  ignored row leaves it where it was.
\<close>

definition last_rowid :: "('r \<Rightarrow> int) \<Rightarrow> 'r rows \<Rightarrow> 'r rows \<Rightarrow> int \<Rightarrow> int" where
  "last_rowid key t t' l = (if length t < length t' then key (last t') else l)"

record copying =
  cp_db :: mm_db
  cp_last :: int
  cp_nodes :: "int \<Rightarrow> int option"

definition copy_node :: "node_row \<Rightarrow> int \<Rightarrow> copying \<Rightarrow> copying" where
  "copy_node n old s =
     (let d = cp_db s; i = next_rowid nd_id (mm_nodes d)
      in s\<lparr>cp_db := d\<lparr>mm_nodes := mm_nodes d @ [n\<lparr>nd_id := i\<rparr>]\<rparr>, cp_last := i, cp_nodes := (cp_nodes s)(old \<mapsto> i)\<rparr>)"

text \<open>A reference whose target is gone is refused by the foreign key; a known one is ignored.\<close>

definition copy_node_ref :: "int \<times> int \<Rightarrow> copying \<Rightarrow> mm_error + copying" where
  "copy_node_ref ne s =
     (let d = cp_db s; t = ins_ref (fst ne) (snd ne) (mm_node_refs d) in
      if t \<noteq> mm_node_refs d \<and> (fst ne \<notin> nd_id ` set (mm_nodes d) \<or> \<not> exists_entry (snd ne) (mm_journal d)) then Inl Constraint
      else Inr (s\<lparr>cp_db := d\<lparr>mm_node_refs := t\<rparr>, cp_last := last_rowid rf_id (mm_node_refs d) t (cp_last s)\<rparr>))"

definition copy_edge_ref :: "int \<Rightarrow> int \<Rightarrow> copying \<Rightarrow> mm_error + copying" where
  "copy_edge_ref i e s =
     (let d = cp_db s; t = ins_ref i e (mm_edge_refs d) in
      if t \<noteq> mm_edge_refs d \<and> (i \<notin> ed_id ` set (mm_edges d) \<or> \<not> exists_entry e (mm_journal d)) then Inl Constraint
      else Inr (s\<lparr>cp_db := d\<lparr>mm_edge_refs := t\<rparr>, cp_last := last_rowid rf_id (mm_edge_refs d) t (cp_last s)\<rparr>))"

definition copy_edge :: "int \<Rightarrow> int \<Rightarrow> int \<Rightarrow> utext \<Rightarrow> copying \<Rightarrow> copying" where
  "copy_edge m f t l s =
     (let d = cp_db s; es = ins_ignore edge_key (new_edge m f t l (mm_edges d)) (mm_edges d)
      in s\<lparr>cp_db := d\<lparr>mm_edges := es\<rparr>, cp_last := last_rowid ed_id (mm_edges d) es (cp_last s)\<rparr>)"

text \<open>
  A chain: its row is ignored when the map has one of that name or signature, and its steps go
  to whatever chain has the number \<open>last_insert_rowid()\<close> then answers.
\<close>

definition copy_step :: "int \<Rightarrow> int \<times> int \<Rightarrow> copying \<Rightarrow> mm_error + copying" where
  "copy_step c pe s =
     (case ins_step c pe (cp_db s) of Inl e \<Rightarrow> Inl e
      | Inr d \<Rightarrow> Inr (s\<lparr>cp_db := d, cp_last := last_rowid st_id (mm_steps (cp_db s)) (mm_steps d) (cp_last s)\<rparr>))"

definition copy_chain :: "int \<Rightarrow> utext \<Rightarrow> int list \<Rightarrow> int \<Rightarrow> copying \<Rightarrow> mm_error + copying" where
  "copy_chain m name es created s =
     (let d = cp_db s;
          clash = list_ex (\<lambda>c. ch_map c = m \<and> (ch_name c = name \<or> ch_sig c = signature es)) (mm_chains d);
          cs = (if clash then mm_chains d else mm_chains d @ [new_chain m name (signature es) created d]);
          c = last_rowid ch_id (mm_chains d) cs (cp_last s)
      in fold_res (copy_step c) (zip (map int [0..<length es]) es) (s\<lparr>cp_db := d\<lparr>mm_chains := cs\<rparr>, cp_last := c\<rparr>))"

definition import_parent :: "mnode \<Rightarrow> copying \<Rightarrow> int option option" where
  "import_parent n s = (case mn_parent n of None \<Rightarrow> Some None | Some p \<Rightarrow> map_option Some (cp_nodes s p))"

definition import_kind :: "mnode \<Rightarrow> string \<Rightarrow> mm_error + string" where
  "import_kind n layout = (if mn_parent n = None then Inr ''topic'' else normalize_kind (mn_kind n) layout)"

definition import_node_row :: "int \<Rightarrow> int option \<Rightarrow> string \<Rightarrow> int \<Rightarrow> int \<times> mnode \<Rightarrow> node_row" where
  "import_node_row m parent kind created on =
     \<lparr>nd_id = 0, nd_map = m, nd_parent = parent, nd_kind = kind, nd_text = mn_text (snd on),
      nd_state = (case find (\<lambda>x. of_str x = mn_state (snd on)) node_states of Some x \<Rightarrow> x | None \<Rightarrow> ''open''),
      nd_ord = fst on, nd_created = created, nd_author = mn_author (snd on)\<rparr>"

definition import_node :: "int \<Rightarrow> string \<Rightarrow> int \<Rightarrow> int \<times> mnode \<Rightarrow> copying \<Rightarrow> mm_error + copying" where
  "import_node m layout created on s =
     (let n = snd on in
      case import_parent n s of None \<Rightarrow> Inr s
      | Some parent \<Rightarrow>
        bind_res (import_kind n layout) (\<lambda>kind.
          let s1 = copy_node (import_node_row m parent kind created on) (mn_id n) s
          in fold_res copy_node_ref
               (map (Pair (cp_last s1)) (filter (\<lambda>e. exists_entry e (mm_journal (cp_db s))) (mn_refs n))) s1))"

definition import_edge :: "int \<Rightarrow> medge \<Rightarrow> copying \<Rightarrow> mm_error + copying" where
  "import_edge m e s =
     (case (cp_nodes s (me_from e), cp_nodes s (me_to e)) of
        (Some f, Some t) \<Rightarrow>
          let s1 = copy_edge m f t (me_label e) s in
          (case row_of edge_key (f, t, me_label e) (mm_edges (cp_db s1)) of None \<Rightarrow> Inl Constraint
           | Some r \<Rightarrow> fold_res (copy_edge_ref (ed_id r))
               (filter (\<lambda>x. exists_entry x (mm_journal (cp_db s))) (me_refs e)) s1)
      | _ \<Rightarrow> Inr s)"

definition import_chain :: "int \<Rightarrow> int \<Rightarrow> mchain \<Rightarrow> copying \<Rightarrow> mm_error + copying" where
  "import_chain m created c s =
     (if length (mc_entries c) < 2 \<or> \<not> list_all (\<lambda>e. exists_entry e (mm_journal (cp_db s))) (mc_entries c) then Inr s
      else copy_chain m (mc_name c) (mc_entries c) created s)"

definition known_map :: "mmap \<Rightarrow> mm_db \<Rightarrow> bool" where
  "known_map x d \<longleftrightarrow> list_ex (\<lambda>r. mp_title r = su_title (mm_summary x) \<and> mp_nick r = su_nick (mm_summary x)
     \<and> mp_created r = su_created (mm_summary x)) (mm_maps d)"

definition import_row :: "mmap \<Rightarrow> utext option \<Rightarrow> string \<Rightarrow> string \<Rightarrow> int \<Rightarrow> mm_db \<Rightarrow> map_row" where
  "import_row x host tok layout now d =
     (let su = mm_summary x in
      \<lparr>mp_id = next_rowid mp_id (mm_maps d), mp_title = su_title su, mp_nick = su_nick su,
       mp_host = (case host of Some h \<Rightarrow> Some h | None \<Rightarrow> su_host su),
       mp_state = (if su_state su = of_str ''closed'' then ''closed'' else ''open''), mp_token = tok,
       mp_created = su_created su, mp_updated = min (su_updated su) now, mp_shared = su_shared su, mp_layout = layout,
       mp_direction = (case find (\<lambda>s. of_str s = su_direction su) directions of Some s \<Rightarrow> s | None \<Rightarrow> ''down'')\<rparr>)"

definition start_copy :: "map_row \<Rightarrow> mm_db \<Rightarrow> copying" where
  "start_copy row d = \<lparr>cp_db = d\<lparr>mm_maps := mm_maps d @ [row]\<rparr>, cp_last = mp_id row, cp_nodes = Map.empty\<rparr>"

definition import_parts :: "mmap \<Rightarrow> int \<Rightarrow> string \<Rightarrow> copying \<Rightarrow> mm_error + copying" where
  "import_parts x m layout s =
     (let created = su_created (mm_summary x) in
      bind_res (fold_res (import_node m layout created) (zip (map int [0..<length (mmap_nodes x)]) (mmap_nodes x)) s) (\<lambda>s1.
      bind_res (fold_res (import_edge m) (mmap_edges x) s1) (\<lambda>s2.
      fold_res (import_chain m created) (mmap_chains x) s2)))"

definition import_map :: "mmap \<Rightarrow> utext option \<Rightarrow> string \<Rightarrow> int \<Rightarrow> mm_db \<Rightarrow> mm_error + mm_db \<times> int option" where
  "import_map x host tok now d =
     bind_res (normalize_layout (su_layout (mm_summary x))) (\<lambda>layout.
       if known_map x d then Inr (d, None)
       else let row = import_row x host tok layout now d in
         bind_res (import_parts x (mp_id row) layout (start_copy row d)) (\<lambda>s. Inr (cp_db s, Some (mp_id row))))"

definition renumber :: "(int \<Rightarrow> int option) \<Rightarrow> mmap \<Rightarrow> mmap" where
  "renumber ents x =
     x\<lparr>mmap_nodes := map (\<lambda>n. n\<lparr>mn_refs := List.map_filter ents (mn_refs n)\<rparr>) (mmap_nodes x),
       mmap_edges := map (\<lambda>e. e\<lparr>me_refs := List.map_filter ents (me_refs e)\<rparr>) (mmap_edges x),
       mmap_chains := map (\<lambda>c. c\<lparr>mc_entries := List.map_filter ents (mc_entries c)\<rparr>)
         (filter (\<lambda>c. length (List.map_filter ents (mc_entries c)) = length (mc_entries c)) (mmap_chains x))\<rparr>"

text \<open>
  \<open>journal share\<close>: the nodes of a map go over in passes, each taking those whose parent went
  before, until a pass takes none.
\<close>

fun merge_pass :: "int \<Rightarrow> node_row list \<Rightarrow> copying \<Rightarrow> node_row list \<times> copying" where
  "merge_pass m [] s = ([], s)"
| "merge_pass m (n # ns) s =
     (case (case nd_parent n of None \<Rightarrow> Some None | Some p \<Rightarrow> map_option Some (cp_nodes s p)) of
        None \<Rightarrow> (let (rest, s') = merge_pass m ns s in (n # rest, s'))
      | Some parent \<Rightarrow> merge_pass m ns (copy_node (n\<lparr>nd_map := m, nd_parent := parent\<rparr>) (nd_id n) s))"

lemma merge_pass_length: "length (fst (merge_pass m ns s)) \<le> length ns"
  by (induction m ns s rule: merge_pass.induct) (auto split: option.splits prod.splits)

function merge_nodes :: "int \<Rightarrow> node_row list \<Rightarrow> copying \<Rightarrow> copying" where
  "merge_nodes m pending s =
     (if pending = [] then s
      else let (rest, s') = merge_pass m pending s in
        if length rest = length pending then s' else merge_nodes m rest s')"
  by pat_completeness auto
termination
proof (relation "measure (\<lambda>(_, pending, _). length pending)", goal_cases)
  case (2 m pending s x rest s')
  then show ?case using merge_pass_length [of m pending s] by (metis case_prod_conv fst_conv in_measure le_neq_implies_less)
qed simp

declare merge_nodes.simps [simp del]

definition merge_node_ref :: "(int \<Rightarrow> int option) \<Rightarrow> ref_row \<Rightarrow> copying \<Rightarrow> mm_error + copying" where
  "merge_node_ref ents r s =
     (case (cp_nodes s (rf_on r), ents (rf_entry r)) of (Some n, Some e) \<Rightarrow> copy_node_ref (n, e) s | _ \<Rightarrow> Inr s)"

definition merge_edge :: "mm_db \<Rightarrow> (int \<Rightarrow> int option) \<Rightarrow> int \<Rightarrow> edge_row \<Rightarrow> copying \<Rightarrow> mm_error + copying" where
  "merge_edge src ents m e s =
     (case (cp_nodes s (ed_from e), cp_nodes s (ed_to e)) of
        (Some f, Some t) \<Rightarrow>
          let s1 = copy_edge m f t (ed_label e) s
          in fold_res (copy_edge_ref (cp_last s1))
               (List.map_filter ents (map rf_entry (filter (\<lambda>r. rf_on r = ed_id e) (mm_edge_refs src)))) s1
      | _ \<Rightarrow> Inr s)"

definition merge_chain :: "mm_db \<Rightarrow> (int \<Rightarrow> int option) \<Rightarrow> int \<Rightarrow> chain_row \<Rightarrow> copying \<Rightarrow> mm_error + copying" where
  "merge_chain src ents m c s =
     (let steps = steps_of (ch_id c) src; mapped = List.map_filter ents steps in
      if length mapped \<noteq> length steps then Inr s
      else copy_chain m (ch_name c) mapped (ch_created c) s)"

definition merge_map :: "mm_db \<Rightarrow> (int \<Rightarrow> int option) \<Rightarrow> string \<Rightarrow> map_row \<Rightarrow> mm_db \<Rightarrow> mm_error + mm_db" where
  "merge_map src ents tok r d =
     (let m = next_rowid mp_id (mm_maps d);
          ns = filter (\<lambda>n. nd_map n = mp_id r) (mm_nodes src);
          s1 = merge_nodes m ns (start_copy (r\<lparr>mp_id := m, mp_token := tok\<rparr>) d)
      in bind_res (fold_res (merge_node_ref ents) (filter (\<lambda>x. rf_on x \<in> nd_id ` set ns) (mm_node_refs src)) s1) (\<lambda>s2.
         bind_res (fold_res (merge_edge src ents m) (filter (\<lambda>e. ed_map e = mp_id r) (mm_edges src)) s2) (\<lambda>s3.
         bind_res (fold_res (merge_chain src ents m) (sort_key ch_id (filter (\<lambda>c. ch_map c = mp_id r) (mm_chains src))) s3) (\<lambda>s4.
         Inr (cp_db s4)))))"

definition merge_maps :: "mm_db \<Rightarrow> (int \<Rightarrow> int option) \<Rightarrow> (int \<Rightarrow> string) \<Rightarrow> mm_db \<Rightarrow> mm_error + mm_db \<times> nat" where
  "merge_maps src ents tok d =
     (case fold_res (\<lambda>r. merge_map src ents (tok (mp_id r)) r) (sort_key mp_id (mm_maps src)) d of Inl e \<Rightarrow> Inl e
      | Inr d1 \<Rightarrow> Inr (d1, length (mm_maps src)))"

section \<open>The outline\<close>

definition num :: "int \<Rightarrow> utext" where "num i = of_str (dec_int i)"
definition journal_ref :: "int \<Rightarrow> utext" where "journal_ref i = mark_text @ num i"
definition arrow :: utext where "arrow = [32, 8594, 32]"

definition refs_text :: "int list \<Rightarrow> utext" where
  "refs_text es = (if es = [] then [] else [32] @ arrow @ join_with [32] (map journal_ref es))"

definition outline_head :: "mmap \<Rightarrow> utext" where
  "outline_head x =
     (let s = mm_summary x in
      of_str (if su_layout s = of_str ''flowchart'' then ''flowchart'' else ''mind map'') @ of_str '' #'' @ num (su_id s)
      @ [32, 34] @ su_title s @ [34, 32, 8212, 32] @ su_state s
      @ (if su_shared s then of_str '', shared with every session of the project'' else [])
      @ of_str '', owner '' @ su_nick s @ of_str '', '' @ num (int (su_nodes s - 1)) @ of_str '' nodes (''
      @ num (int (su_open s)) @ of_str '' open)'' @ [10])"

definition outline_node :: "mmap \<Rightarrow> nat \<Rightarrow> mnode \<Rightarrow> utext" where
  "outline_node x d n =
     (let s = mm_summary x; flow = (su_layout s = of_str ''flowchart'');
          state_mark = (if mn_state n = of_str ''done'' then of_str '' [done]''
                  else if mn_state n = of_str ''dropped'' then of_str '' [dropped]'' else []);
          by_whom = (case mn_author n of Some a \<Rightarrow> if a \<noteq> su_nick s then of_str ''  (by '' @ a @ [41] else [] | None \<Rightarrow> [])
      in (if flow then [] else concat (replicate d [32, 32])) @ of_str ''- n'' @ num (mn_id n) @ of_str '' (''
         @ mn_kind n @ of_str '') '' @ map (\<lambda>c. if c = 10 then 32 else c) (mn_text n) @ state_mark
         @ refs_text (mn_refs n) @ by_whom @ [10])"

text \<open>Depths are looked up as the loop goes: one below the parent's, or the left margin.\<close>

fun outline_nodes :: "mmap \<Rightarrow> mnode list \<Rightarrow> (int \<Rightarrow> nat option) \<Rightarrow> utext" where
  "outline_nodes x [] depth = []"
| "outline_nodes x (n # ns) depth =
     (if su_layout (mm_summary x) = of_str ''flowchart'' \<and> mn_id n = mm_root x then outline_nodes x ns depth
      else let d = (case Option.bind (mn_parent n) depth of Some k \<Rightarrow> k + 1 | None \<Rightarrow> 0)
           in outline_node x d n @ outline_nodes x ns (depth(mn_id n \<mapsto> d)))"

definition outline_edge :: "medge \<Rightarrow> utext" where
  "outline_edge e = of_str ''- l'' @ num (me_id e) @ of_str '': n'' @ num (me_from e) @ arrow @ of_str ''n'' @ num (me_to e)
     @ (if me_label e = [] then [] else [32, 34] @ me_label e @ [34]) @ refs_text (me_refs e) @ [10]"

definition outline_chain :: "mchain \<Rightarrow> utext" where
  "outline_chain c = of_str ''- '' @ mc_name c @ of_str '': '' @ join_with arrow (map journal_ref (mc_entries c)) @ [10]"

definition outline :: "mmap \<Rightarrow> utext" where
  "outline x =
     outline_head x @ outline_nodes x (mmap_nodes x) Map.empty
     @ (if mmap_edges x = [] then []
        else of_str (if su_layout (mm_summary x) = of_str ''flowchart'' then ''arrows:'' else ''links:'') @ [10]
          @ concat (map outline_edge (mmap_edges x)))
     @ (if mmap_chains x = [] then [] else of_str ''chains:'' @ [10] @ concat (map outline_chain (mmap_chains x)))"

end
