(* ===== verification/MindmapTrees.thy ===== *)
theory MindmapTrees
  imports Mindmap
begin

text \<open>
  What the operations of \<open>Mindmap\<close> keep true.

  Whatever is done to it, every map stays one tree with one topic at its root
  (so the parent walk of \<open>move_node\<close> ends and \<open>load\<close> lists each node once, parents first), and
  kinds, states and layouts stay among the ones the code knows. A chain whose sequence another
  chain of the same copied map already has stops the copy: \<open>INSERT OR IGNORE\<close> skips its row, and
  its steps are then filed under the previous \<open>last_insert_rowid()\<close>.
\<close>

section \<open>Every map is a tree\<close>

text \<open>\<open>climbs t c\<close>: from node \<open>c\<close> the parents lead to a root.\<close>

inductive climbs :: "node_row rows \<Rightarrow> int \<Rightarrow> bool" for t where
  at_root: "row_of nd_id c t = Some r \<Longrightarrow> nd_parent r = None \<Longrightarrow> climbs t c"
| up: "row_of nd_id c t = Some r \<Longrightarrow> nd_parent r = Some p \<Longrightarrow> climbs t p \<Longrightarrow> climbs t c"

inductive_cases climbsE: "climbs t c"

lemma climbs_meets: "climbs t c \<Longrightarrow> \<exists>b. meets t n c = Some (Inr b)"
proof (induction rule: climbs.induct)
  case (at_root c r)
  then show ?case by (subst meets.simps) (cases "c = n", auto)
next
  case (up c r p)
  then show ?case by (subst meets.simps) (cases "c = n", auto)
qed

lemma meets_self: "meets t n n = Some (Inr True)"
  by (subst meets.simps) simp

lemma meets_step:
  "c \<noteq> n \<Longrightarrow> row_of nd_id c t = Some r \<Longrightarrow> nd_parent r = Some p \<Longrightarrow> meets t n c = meets t n p"
  by (subst meets.simps) simp

text \<open>An update that keeps ids and parents; the rows may grow with fresh ids.\<close>

lemma climbs_mono:
  assumes "climbs t c"
    and "\<And>c r. row_of nd_id c t = Some r \<Longrightarrow> \<exists>r'. row_of nd_id c t' = Some r' \<and> nd_parent r' = nd_parent r"
  shows "climbs t' c"
  using assms(1)
proof (induction rule: climbs.induct)
  case (at_root c r)
  with assms(2) [of c r] show ?case by (metis climbs.at_root)
next
  case (up c r p)
  with assms(2) [of c r] show ?case by (metis climbs.up)
qed

lemma climbs_append: "climbs t c \<Longrightarrow> climbs (t @ [n]) c"
  by (rule climbs_mono) (auto simp: row_of_append)

lemma climbs_upd:
  assumes "climbs t c" and "\<And>r. nd_id (f r) = nd_id r" "\<And>r. nd_parent (f r) = nd_parent r"
  shows "climbs (upd_where p f t) c"
  using assms(1) by (rule climbs_mono) (auto simp: row_of_upd_where assms)

text \<open>Moving \<open>n\<close> under \<open>p\<close>, whose way up avoids \<open>n\<close>.\<close>

definition reparent :: "int \<Rightarrow> int \<Rightarrow> int \<Rightarrow> node_row rows \<Rightarrow> node_row rows" where
  "reparent n p o' t = upd_where (\<lambda>r. nd_id r = n) (\<lambda>r. r\<lparr>nd_parent := Some p, nd_ord := o'\<rparr>) t"

lemma row_of_reparent:
  "row_of nd_id c (reparent n p o' t)
     = (if c = n then map_option (\<lambda>r. r\<lparr>nd_parent := Some p, nd_ord := o'\<rparr>) (row_of nd_id n t) else row_of nd_id c t)"
  by (induction t) (auto simp: reparent_def)

lemma climbs_avoiding:
  "climbs t c \<Longrightarrow> meets t n c = Some (Inr False) \<Longrightarrow> climbs (reparent n p o' t) c"
proof (induction rule: climbs.induct)
  case (at_root c r)
  have "c \<noteq> n" using at_root(3) by (auto simp: meets_self)
  with at_root show ?case by (intro climbs.at_root) (auto simp: row_of_reparent)
next
  case (up c r q)
  have "c \<noteq> n" using up by (auto simp: meets_self)
  with up have "row_of nd_id c (reparent n p o' t) = Some r" by (simp add: row_of_reparent)
  moreover have "climbs (reparent n p o' t) q" using up meets_step [OF \<open>c \<noteq> n\<close>] by simp
  ultimately show ?case using up(2) by (blast intro: climbs.up)
qed

lemma climbs_reparent:
  assumes "climbs t c" "climbs t p" "meets t n p = Some (Inr False)"
  shows "climbs (reparent n p o' t) c"
  using assms(1)
proof (induction rule: climbs.induct)
  case (at_root c r)
  show ?case
  proof (cases "c = n")
    case True
    with at_root have "row_of nd_id c (reparent n p o' t) = Some (r\<lparr>nd_parent := Some p, nd_ord := o'\<rparr>)"
      by (simp add: row_of_reparent)
    then show ?thesis by (rule climbs.up [OF _ _ climbs_avoiding [OF assms(2,3)]]) simp
  next
    case False
    with at_root show ?thesis by (intro climbs.at_root [of _ _ r]) (simp_all add: row_of_reparent)
  qed
next
  case (up c r q)
  show ?case
  proof (cases "c = n")
    case True
    with up have "row_of nd_id c (reparent n p o' t) = Some (r\<lparr>nd_parent := Some p, nd_ord := o'\<rparr>)"
      by (simp add: row_of_reparent)
    then show ?thesis by (rule climbs.up [OF _ _ climbs_avoiding [OF assms(2,3)]]) simp
  next
    case False
    with up have "row_of nd_id c (reparent n p o' t) = Some r" by (simp add: row_of_reparent)
    then show ?thesis by (rule climbs.up) (rule up)+
  qed
qed

lemma row_of_del_where:
  "row_of key c (del_where (\<lambda>r. g (key r)) t) = (if g c then None else row_of key c t)"
  by (induction t) auto

lemma climbs_remove:
  "climbs t c \<Longrightarrow> \<not> below t n c \<Longrightarrow> climbs (del_where (\<lambda>r. below t n (nd_id r)) t) c"
proof (induction rule: climbs.induct)
  case (at_root c r)
  then show ?case by (intro climbs.at_root) (auto simp: row_of_del_where)
next
  case (up c r q)
  have "c \<noteq> n" using up by (auto simp: below_def meets_self)
  with up meets_step [of c n t r q] have "\<not> below t n q" by (simp add: below_def)
  moreover have "row_of nd_id c (del_where (\<lambda>r. below t n (nd_id r)) t) = Some r"
    using up by (simp add: row_of_del_where)
  ultimately show ?case using up by (blast intro: climbs.up)
qed

definition same_map_parent :: "node_row rows \<Rightarrow> node_row \<Rightarrow> bool" where
  "same_map_parent t n \<longleftrightarrow>
     (case nd_parent n of None \<Rightarrow> True | Some p \<Rightarrow> (\<exists>r \<in> set t. nd_id r = p \<and> nd_map r = nd_map n))"

definition grove :: "int list \<Rightarrow> node_row rows \<Rightarrow> bool" where
  "grove ms t \<longleftrightarrow> pk nd_id t
     \<and> (\<forall>n \<in> set t. nd_map n \<in> set ms \<and> climbs t (nd_id n) \<and> (nd_kind n = ''topic'' \<longleftrightarrow> nd_parent n = None)
          \<and> same_map_parent t n)"

definition roots :: "int \<Rightarrow> node_row rows \<Rightarrow> nat" where
  "roots m t = count_where (\<lambda>n. nd_map n = m \<and> nd_parent n = None) t"

definition forest :: "int list \<Rightarrow> node_row rows \<Rightarrow> bool" where
  "forest ms t \<longleftrightarrow> distinct ms \<and> grove ms t \<and> (\<forall>m \<in> set ms. roots m t = 1)"

definition trees :: "mm_db \<Rightarrow> bool" where
  "trees d \<longleftrightarrow> forest (map mp_id (mm_maps d)) (mm_nodes d)"

lemma groveD:
  assumes "grove ms t" "n \<in> set t"
  shows "nd_map n \<in> set ms" "climbs t (nd_id n)" "nd_kind n = ''topic'' \<longleftrightarrow> nd_parent n = None" "same_map_parent t n"
  using assms by (auto simp: grove_def)

lemma groveI:
  assumes "pk nd_id t"
    and "\<And>n. n \<in> set t \<Longrightarrow> nd_map n \<in> set ms \<and> climbs t (nd_id n) \<and> (nd_kind n = ''topic'' \<longleftrightarrow> nd_parent n = None)
          \<and> same_map_parent t n"
  shows "grove ms t"
  using assms by (auto simp: grove_def)

lemma same_map_parent_mono:
  "same_map_parent t n \<Longrightarrow> (\<And>r. r \<in> set t \<Longrightarrow> \<exists>s \<in> set t'. nd_id s = nd_id r \<and> nd_map s = nd_map r)
    \<Longrightarrow> same_map_parent t' n"
  by (fastforce simp: same_map_parent_def split: option.splits)

lemma grove_snoc:
  assumes g: "grove ms t" and n: "nd_id n \<notin> nd_id ` set t" "nd_map n \<in> set ms"
    "nd_kind n = ''topic'' \<longleftrightarrow> nd_parent n = None" "same_map_parent t n"
  shows "grove ms (t @ [n])"
proof (rule groveI)
  show "pk nd_id (t @ [n])" using g n by (simp add: grove_def pk_snoc)
next
  fix x assume "x \<in> set (t @ [n])"
  moreover have ext: "same_map_parent (t @ [n]) y" if "same_map_parent t y" for y
    using that by (rule same_map_parent_mono) auto
  moreover have "climbs (t @ [n]) (nd_id n)"
  proof -
    have row: "row_of nd_id (nd_id n) (t @ [n]) = Some n"
      using n(1) by (auto simp: row_of_append row_of_None [symmetric])
    show ?thesis
    proof (cases "nd_parent n")
      case None
      with row show ?thesis by (rule climbs.at_root)
    next
      case (Some p)
      with n(4) obtain r where "r \<in> set t" "nd_id r = p" by (auto simp: same_map_parent_def)
      then have "climbs (t @ [n]) p" using climbs_append [OF groveD(2) [OF g]] by auto
      with row Some show ?thesis by (rule climbs.up)
    qed
  qed
  ultimately show "nd_map x \<in> set ms \<and> climbs (t @ [n]) (nd_id x) \<and> (nd_kind x = ''topic'' \<longleftrightarrow> nd_parent x = None)
      \<and> same_map_parent (t @ [n]) x"
    using groveD [OF g] climbs_append n by auto
qed

lemma roots_snoc [simp]:
  "roots m (t @ [n]) = roots m t + (if nd_map n = m \<and> nd_parent n = None then 1 else 0)"
  by (simp add: roots_def count_where_def)

lemma grove_more: "grove ms t \<Longrightarrow> set ms \<subseteq> set ms' \<Longrightarrow> grove ms' t"
  by (auto simp: grove_def)

lemma roots_none: "\<forall>n \<in> set t. nd_map n \<noteq> m \<Longrightarrow> roots m t = 0"
  by (auto simp: roots_def count_where_def filter_empty_conv)

lemma forest_new:
  assumes "forest ms t" "m \<notin> set ms" "nd_id n \<notin> nd_id ` set t" "nd_map n = m" "nd_parent n = None" "nd_kind n = ''topic''"
  shows "forest (ms @ [m]) (t @ [n])"
proof -
  have g: "grove ms t" using assms by (simp add: forest_def)
  then have "grove (ms @ [m]) (t @ [n])"
    by (intro grove_snoc grove_more [OF g]) (use assms in \<open>auto simp: same_map_parent_def\<close>)
  moreover have "roots m t = 0" using groveD(1) [OF g] assms(2) by (intro roots_none) auto
  ultimately show ?thesis using assms by (auto simp: forest_def)
qed

lemma forest_add:
  assumes "forest ms t" "nd_id n \<notin> nd_id ` set t" "nd_parent n = Some p"
    "r \<in> set t" "nd_id r = p" "nd_map r = nd_map n" "nd_kind n \<noteq> ''topic''"
  shows "forest ms (t @ [n])"
proof -
  have g: "grove ms t" using assms by (simp add: forest_def)
  then have "nd_map n \<in> set ms" using groveD(1) [OF g assms(4)] assms by simp
  then have "grove ms (t @ [n])"
    by (intro grove_snoc [OF g]) (use assms in \<open>auto simp: same_map_parent_def\<close>)
  then show ?thesis using assms by (auto simp: forest_def)
qed

lemma upd_where_in: "r \<in> set t \<Longrightarrow> (if p r then f r else r) \<in> set (upd_where p f t)"
  by (auto simp: upd_where_def)

lemma same_map_parent_upd:
  assumes "same_map_parent t n" "\<And>r. nd_id (f r) = nd_id r" "\<And>r. nd_map (f r) = nd_map r"
  shows "same_map_parent (upd_where p f t) n"
  using assms(1)
proof (rule same_map_parent_mono)
  fix r assume "r \<in> set t"
  then have "(if p r then f r else r) \<in> set (upd_where p f t)" by (rule upd_where_in)
  then show "\<exists>s \<in> set (upd_where p f t). nd_id s = nd_id r \<and> nd_map s = nd_map r"
    by (rule bexI [rotated]) (simp add: assms)
qed

lemma roots_upd:
  assumes "\<And>r. r \<in> set t \<Longrightarrow> p r \<Longrightarrow> nd_map (f r) = nd_map r \<and> (nd_parent (f r) = None \<longleftrightarrow> nd_parent r = None)"
  shows "roots m (upd_where p f t) = roots m t"
  unfolding roots_def count_where_def upd_where_def filter_map length_map o_def
  by (rule arg_cong [of _ _ length], rule filter_cong) (use assms in auto)

lemma forest_upd:
  assumes F: "forest ms t"
    and f: "\<And>r. nd_id (f r) = nd_id r" "\<And>r. nd_map (f r) = nd_map r" "\<And>r. nd_parent (f r) = nd_parent r"
    and k: "\<And>r. r \<in> set t \<Longrightarrow> p r \<Longrightarrow> nd_kind (f r) = ''topic'' \<longleftrightarrow> nd_kind r = ''topic''"
  shows "forest ms (upd_where p f t)"
proof -
  have g: "grove ms t" using F by (simp add: forest_def)
  let ?t = "upd_where p f t"
  have "grove ms ?t"
  proof (rule groveI)
    show "pk nd_id ?t" using g f by (simp add: grove_def pk_upd_where)
  next
    fix x assume "x \<in> set ?t"
    then obtain r where r: "r \<in> set t" "x = (if p r then f r else r)" by (auto simp: upd_where_def)
    have "same_map_parent ?t y" if "same_map_parent t y" for y
      using that f(1,2) by (rule same_map_parent_upd)
    moreover have "same_map_parent t x" using groveD(4) [OF g r(1)] r(2) f by (simp add: same_map_parent_def split: option.splits)
    moreover have "climbs ?t (nd_id r)" using groveD(2) [OF g r(1)] f by (intro climbs_upd)
    ultimately show "nd_map x \<in> set ms \<and> climbs ?t (nd_id x) \<and> (nd_kind x = ''topic'' \<longleftrightarrow> nd_parent x = None)
        \<and> same_map_parent ?t x"
      using groveD [OF g r(1)] r k [of r] f by simp
  qed
  then show ?thesis using F f by (simp add: forest_def roots_upd)
qed

lemma reparent_in:
  "x \<in> set (reparent n p o' t) \<Longrightarrow> \<exists>r \<in> set t. nd_id r = nd_id x \<and> nd_map r = nd_map x \<and> nd_kind r = nd_kind x
     \<and> nd_parent x = (if nd_id r = n then Some p else nd_parent r)"
  by (auto simp: reparent_def upd_where_def)

lemma forest_reparent:
  assumes F: "forest ms t" and r: "r \<in> set t" "nd_id r = n" "nd_parent r \<noteq> None"
    and q: "q \<in> set t" "nd_id q = p" "nd_map q = nd_map r" and m: "meets t n p = Some (Inr False)"
  shows "forest ms (reparent n p o' t)"
proof -
  have g: "grove ms t" using F by (simp add: forest_def)
  let ?t = "reparent n p o' t"
  have keep: "same_map_parent ?t y" if "same_map_parent t y" for y
    unfolding reparent_def by (rule same_map_parent_upd [OF that]) simp_all
  have one: "s = r" if "s \<in> set t" "nd_id s = n" for s
    using pk_eq [of nd_id t s r] g that r by (simp add: grove_def)
  have "grove ms ?t"
  proof (rule groveI)
    show "pk nd_id ?t" using g by (simp add: grove_def reparent_def pk_upd_where)
  next
    fix x assume "x \<in> set ?t"
    then obtain s where s: "s \<in> set t" "nd_id s = nd_id x" "nd_map s = nd_map x" "nd_kind s = nd_kind x"
      "nd_parent x = (if nd_id s = n then Some p else nd_parent s)" by (blast dest: reparent_in)
    have "climbs ?t (nd_id s)"
      using climbs_reparent [OF groveD(2) [OF g s(1)] _ m] groveD(2) [OF g q(1)] q(2) by simp
    moreover have "same_map_parent ?t x"
    proof (cases "nd_id s = n")
      case True
      then have "same_map_parent t x" using s one [OF s(1)] q by (auto simp: same_map_parent_def)
      then show ?thesis by (rule keep)
    next
      case False
      then have "same_map_parent t x" using groveD(4) [OF g s(1)] s by (simp add: same_map_parent_def split: option.splits)
      then show ?thesis by (rule keep)
    qed
    moreover have "nd_kind x = ''topic'' \<longleftrightarrow> nd_parent x = None"
      using groveD(3) [OF g s(1)] s r one [OF s(1)] by (cases "nd_id s = n") auto
    ultimately show "nd_map x \<in> set ms \<and> climbs ?t (nd_id x) \<and> (nd_kind x = ''topic'' \<longleftrightarrow> nd_parent x = None)
        \<and> same_map_parent ?t x"
      using groveD(1) [OF g s(1)] s by simp
  qed
  moreover have "roots k ?t = roots k t" for k
    unfolding reparent_def by (rule roots_upd) (use one r(3) in auto)
  ultimately show ?thesis using F by (simp add: forest_def)
qed

text \<open>Deleting a set of nodes closed under children, and the roots of the maps that go with it.\<close>

lemma climbs_del:
  assumes "climbs t c" "\<not> gone c"
    and "\<And>r p. r \<in> set t \<Longrightarrow> nd_parent r = Some p \<Longrightarrow> gone p \<Longrightarrow> gone (nd_id r)"
  shows "climbs (del_where (\<lambda>r. gone (nd_id r)) t) c"
  using assms(1,2)
proof (induction rule: climbs.induct)
  case (at_root c r)
  then show ?case by (intro climbs.at_root [of _ _ r]) (simp_all add: row_of_del_where)
next
  case (up c r q)
  have "\<not> gone q" using assms(3) [of r q] up row_of_Some [OF up(1)] by auto
  with up have "climbs (del_where (\<lambda>r. gone (nd_id r)) t) q" "row_of nd_id c (del_where (\<lambda>r. gone (nd_id r)) t) = Some r"
    by (simp_all add: row_of_del_where)
  with up(2) show ?case by (blast intro: climbs.up)
qed

lemma grove_del:
  assumes g: "grove ms t"
    and closed: "\<And>r p. r \<in> set t \<Longrightarrow> nd_parent r = Some p \<Longrightarrow> gone p \<Longrightarrow> gone (nd_id r)"
  shows "grove ms (del_where (\<lambda>r. gone (nd_id r)) t)"
proof (rule groveI)
  show "pk nd_id (del_where (\<lambda>r. gone (nd_id r)) t)" using g by (simp add: grove_def pk_del_where)
next
  fix x assume "x \<in> set (del_where (\<lambda>r. gone (nd_id r)) t)"
  then have x: "x \<in> set t" "\<not> gone (nd_id x)" by (auto simp: set_del_where)
  have "same_map_parent (del_where (\<lambda>r. gone (nd_id r)) t) x"
    using groveD(4) [OF g x(1)] closed [OF x(1)] x(2) by (auto simp: same_map_parent_def set_del_where split: option.splits)
  then show "nd_map x \<in> set ms \<and> climbs (del_where (\<lambda>r. gone (nd_id r)) t) (nd_id x)
      \<and> (nd_kind x = ''topic'' \<longleftrightarrow> nd_parent x = None) \<and> same_map_parent (del_where (\<lambda>r. gone (nd_id r)) t) x"
    using groveD [OF g x(1)] x climbs_del [of t "nd_id x" gone] closed by blast
qed

lemma below_closed:
  assumes "pk nd_id t" "r \<in> set t" "nd_parent r = Some p" "below t n p"
  shows "below t n (nd_id r)"
  using assms meets_step [of "nd_id r" n t r p] row_of_pk [OF assms(1,2)]
  by (cases "nd_id r = n") (auto simp: below_def meets_self)

lemma roots_del:
  "(\<And>r. r \<in> set t \<Longrightarrow> nd_map r = m \<Longrightarrow> nd_parent r = None \<Longrightarrow> \<not> p r) \<Longrightarrow> roots m (del_where p t) = roots m t"
  by (induction t) (auto simp: roots_def count_where_def)

lemma forest_remove:
  assumes F: "forest ms t" and n: "r \<in> set t" "nd_id r = n" "nd_parent r \<noteq> None"
  shows "forest ms (del_where (\<lambda>x. below t n (nd_id x)) t)"
proof -
  have g: "grove ms t" using F by (simp add: forest_def)
  have pk: "pk nd_id t" using g by (simp add: grove_def)
  have "\<not> below t n (nd_id x)" if "x \<in> set t" "nd_parent x = None" for x
  proof -
    have "nd_id x \<noteq> n" using pk_eq [OF pk that(1) n(1)] that n by auto
    then show ?thesis using row_of_pk [OF pk that(1)] that by (subst below_def, subst meets.simps) simp
  qed
  then show ?thesis using F grove_del [of ms t "below t n"] g below_closed [OF pk] by (simp add: forest_def roots_del)
qed

lemma forest_drop_map:
  assumes F: "forest ms t" and ids: "gone = nd_id ` set (filter (\<lambda>n. nd_map n = m) t)"
  shows "forest (filter (\<lambda>k. k \<noteq> m) ms) (del_where (\<lambda>x. nd_id x \<in> gone) t)"
proof -
  have g: "grove ms t" using F by (simp add: forest_def)
  have pk: "pk nd_id t" using g by (simp add: grove_def)
  have gone: "nd_id x \<in> gone \<longleftrightarrow> nd_map x = m" if "x \<in> set t" for x
    using pk_eq [OF pk _ that] that by (auto simp: ids)
  have closed: "nd_id r \<in> gone" if r: "r \<in> set t" "nd_parent r = Some p" "p \<in> gone" for r p
  proof -
    obtain q where "q \<in> set t" "nd_id q = p" "nd_map q = nd_map r"
      using groveD(4) [OF g r(1)] r(2) by (auto simp: same_map_parent_def)
    then show ?thesis using gone r by metis
  qed
  let ?t = "del_where (\<lambda>x. nd_id x \<in> gone) t"
  have "grove ms ?t" using grove_del [of ms t "\<lambda>i. i \<in> gone"] g closed by blast
  moreover have "\<forall>x \<in> set ?t. nd_map x \<noteq> m" using gone by (auto simp: set_del_where)
  ultimately have "grove (filter (\<lambda>k. k \<noteq> m) ms) ?t" by (auto simp: grove_def)
  moreover have "roots k ?t = 1" if "k \<in> set ms" "k \<noteq> m" for k
    using F that gone roots_del [of t k "\<lambda>x. nd_id x \<in> gone"] by (auto simp: forest_def)
  ultimately show ?thesis using F by (auto simp: forest_def)
qed

text \<open>What the operations leave alone.\<close>

lemma set_map_trees [frame]:
  assumes "\<And>r. mp_id (f r) = mp_id r"
  shows "trees (set_map m f d) = trees d"
  using keys_upd_where [of "mm_maps d" "\<lambda>r. mp_id r = m" mp_id f] assms by (simp add: trees_def set_map_def)

lemma touch_trees [frame]: "trees (touch m now d) = trees d"
  by (simp add: touch_def set_map_trees)

lemma insert_refs_tables [frame]:
  "mm_nodes (fst (insert_refs tg es d)) = mm_nodes d" "mm_maps (fst (insert_refs tg es d)) = mm_maps d"
  "mm_edges (fst (insert_refs tg es d)) = mm_edges d" "mm_journal (fst (insert_refs tg es d)) = mm_journal d"
  by (cases tg; simp add: Let_def)+

lemma drop_refs_tables [frame]:
  "mm_nodes (fst (drop_refs tg es d)) = mm_nodes d" "mm_maps (fst (drop_refs tg es d)) = mm_maps d"
  by (cases tg; simp add: Let_def)+

lemma draw_arrow_tables:
  "draw_arrow m a i l d = Inr d' \<Longrightarrow> mm_nodes d' = mm_nodes d \<and> mm_maps d' = mm_maps d"
  by (auto simp: draw_arrow_def Let_def split: option.splits if_splits)

lemma ins_step_tables:
  "ins_step c pe d = Inr d' \<Longrightarrow> mm_nodes d' = mm_nodes d \<and> mm_maps d' = mm_maps d"
  by (auto simp: ins_step_def Let_def split: if_splits)

lemma fold_res_keeps:
  assumes "fold_res f xs s = Inr s'" "P s" "\<And>x s s'. x \<in> set xs \<Longrightarrow> P s \<Longrightarrow> f x s = Inr s' \<Longrightarrow> P s'"
  shows "P s'"
  using assms
proof (induction xs arbitrary: s)
  case (Cons x xs)
  then obtain s1 where s1: "f x s = Inr s1" "fold_res f xs s1 = Inr s'" by (auto split: sum.splits)
  have "P s1" using Cons.prems(3) [of x s s1] Cons.prems(2) s1(1) by simp
  with s1 Cons.prems(3) show ?case by (intro Cons.IH [of s1]) auto
qed simp

lemma ins_steps_tables:
  assumes "ins_steps c es d = Inr d'"
  shows "mm_nodes d' = mm_nodes d \<and> mm_maps d' = mm_maps d"
  using assms unfolding ins_steps_def
  by (rule fold_res_keeps [where P = "\<lambda>x. mm_nodes x = mm_nodes d \<and> mm_maps x = mm_maps d"]) (auto dest: ins_step_tables)

lemma deletes_tables [frame]:
  "mm_nodes (delete_edges p d) = mm_nodes d" "mm_maps (delete_edges p d) = mm_maps d"
  "mm_nodes (delete_chains q d) = mm_nodes d" "mm_maps (delete_chains q d) = mm_maps d"
  "mm_nodes (delete_nodes gone d) = del_where (\<lambda>n. gone (nd_id n)) (mm_nodes d)" "mm_maps (delete_nodes gone d) = mm_maps d"
  "mm_nodes (forget_entries r d) = mm_nodes d" "mm_maps (forget_entries r d) = mm_maps d"
  by (simp_all add: delete_edges_def delete_chains_def delete_nodes_def forget_entries_def Let_def)

lemma trees_eq: "mm_nodes d' = mm_nodes d \<Longrightarrow> mm_maps d' = mm_maps d \<Longrightarrow> trees d' = trees d"
  by (simp add: trees_def)

lemma node_in_row: "node_in m n d \<Longrightarrow> \<exists>r \<in> set (mm_nodes d). nd_id r = n \<and> nd_map r = m"
  by (auto simp: node_in_def dest!: row_of_Some split: option.splits)

lemma root_of_row: "root_of m d = Inr n \<Longrightarrow> \<exists>r \<in> set (mm_nodes d). nd_id r = n \<and> nd_map r = m \<and> nd_parent r = None"
  by (auto simp: root_of_def dest!: find_SomeD split: option.splits)

lemma the_root:
  assumes "trees d" "root_of m d = Inr n" "r \<in> set (mm_nodes d)" "nd_map r = m" "nd_parent r = None"
  shows "nd_id r = n"
proof -
  obtain s where s: "s \<in> set (mm_nodes d)" "nd_id s = n" "nd_map s = m" "nd_parent s = None"
    using root_of_row [OF assms(2)] by blast
  have "m \<in> set (map mp_id (mm_maps d))"
    using assms groveD(1) [of "map mp_id (mm_maps d)" "mm_nodes d" r] unfolding trees_def forest_def by simp
  then have "length (filter (\<lambda>n. nd_map n = m \<and> nd_parent n = None) (mm_nodes d)) = 1"
    using assms(1) by (auto simp: trees_def forest_def roots_def count_where_def)
  then obtain y where y: "filter (\<lambda>n. nd_map n = m \<and> nd_parent n = None) (mm_nodes d) = [y]"
    by (auto simp: length_Suc_conv)
  have "x = y" if "x \<in> set (mm_nodes d)" "nd_map x = m" "nd_parent x = None" for x
  proof -
    have "x \<in> set (filter (\<lambda>n. nd_map n = m \<and> nd_parent n = None) (mm_nodes d))" using that by simp
    then show ?thesis by (simp add: y)
  qed
  then show ?thesis using s assms(3-5) by blast
qed

lemma not_root:
  assumes "trees d" "root_of m d = Inr root" "n \<noteq> root" "r \<in> set (mm_nodes d)" "nd_id r = n" "nd_map r = m"
  shows "nd_parent r \<noteq> None"
  using the_root [OF assms(1,2,4,6)] assms(3,5) by blast

section \<open>The operations keep the trees\<close>

lemma create_trees:
  assumes "trees d" "create_map spec who tok now d = Inr (d', m, root)"
  shows "trees d'"
proof -
  have "next_rowid mp_id (mm_maps d) \<notin> set (map mp_id (mm_maps d))" "next_rowid nd_id (mm_nodes d) \<notin> nd_id ` set (mm_nodes d)"
    using next_rowid_fresh [of mp_id "mm_maps d"] next_rowid_fresh [of nd_id "mm_nodes d"] by auto
  with assms show ?thesis
    by (auto simp: create_map_def Let_def trees_def intro!: forest_new split: sum.splits option.splits if_splits)
qed

lemma place_of_row:
  "place_of m spec d = Inr p \<Longrightarrow> \<exists>r \<in> set (mm_nodes d). nd_id r = p \<and> nd_map r = m"
  by (auto simp: place_of_def dest: node_in_row root_of_row split: option.splits if_splits)

lemma add_under_trees:
  assumes "trees d" "add_under m p spec kind txt now d = Inr (d', i)" "kind \<noteq> ''topic''"
    and r: "r \<in> set (mm_nodes d)" "nd_id r = p" "nd_map r = m"
  shows "trees d'"
proof -
  let ?n = "\<lparr>nd_id = next_rowid nd_id (mm_nodes d), nd_map = m, nd_parent = Some p, nd_kind = kind, nd_text = txt,
    nd_state = ''open'', nd_ord = next_ord p d, nd_created = now, nd_author = nn_author spec\<rparr>"
  have F: "forest (map mp_id (mm_maps d)) (mm_nodes d @ [?n])"
    using assms next_rowid_fresh [of nd_id "mm_nodes d"] by (intro forest_add [of _ _ _ p r]) (simp_all add: trees_def)
  then show ?thesis using assms(2)
    by (auto simp: add_under_def Let_def trees_def frame touch_trees [unfolded trees_def] dest!: draw_arrow_tables split: sum.splits)
qed

lemma add_trees:
  assumes "trees d" "add_node m spec now d = Inr (d', i)"
  shows "trees d'"
  using assms(2) place_of_row [of m spec d] add_under_trees [OF assms(1), of m _ spec]
  by (auto simp: add_node_def split: sum.splits option.splits if_splits)

lemma set_node_trees:
  assumes "trees d" "\<And>r. nd_id (f r) = nd_id r" "\<And>r. nd_map (f r) = nd_map r" "\<And>r. nd_parent (f r) = nd_parent r"
    and "\<And>r. r \<in> set (mm_nodes d) \<Longrightarrow> nd_id r = n \<Longrightarrow> nd_kind (f r) = ''topic'' \<longleftrightarrow> nd_kind r = ''topic''"
  shows "trees (set_node n f d)"
  using assms by (auto simp: trees_def set_node_def intro: forest_upd)

lemma set_node_maps [frame]: "mm_maps (set_node n f d) = mm_maps d"
  by (simp add: set_node_def)

lemma edit_kind_trees:
  assumes T: "trees d" and root: "root_of m d = Inr root" and n: "node_in m n d" and e: "edit_kind m n root kind d = Inr d'"
  shows "trees d' \<and> mm_maps d' = mm_maps d"
proof (cases kind)
  case None
  then show ?thesis using T e by (simp add: edit_kind_def)
next
  case (Some raw)
  obtain s where s: "s \<in> set (mm_nodes d)" "nd_id s = n" "nd_map s = m" using node_in_row [OF n] by blast
  have g: "grove (map mp_id (mm_maps d)) (mm_nodes d)" using T by (simp add: trees_def forest_def)
  have one: "r = s" if "r \<in> set (mm_nodes d)" "nd_id r = n" for r
    using pk_eq [of nd_id "mm_nodes d" r s] g that s by (simp add: grove_def)
  have kind: "nd_kind s = ''topic'' \<longleftrightarrow> n = root"
  proof (cases "n = root")
    case True
    then show ?thesis using groveD(3) [OF g s(1)] root_of_row [OF root] one by auto
  next
    case False
    then show ?thesis using groveD(3) [OF g s(1)] not_root [OF T root False s] by simp
  qed
  have set: "trees (set_node n (\<lambda>r. r\<lparr>nd_kind := k\<rparr>) d)" if "k = ''topic'' \<longleftrightarrow> n = root" for k
    using T by (rule set_node_trees) (use that kind one in auto)
  show ?thesis using Some e set
    by (auto simp: edit_kind_def set_node_maps split: if_splits sum.splits)
qed

lemma edit_text_trees:
  "trees d \<Longrightarrow> edit_text m n root txt d = Inr d' \<Longrightarrow> trees d'"
  by (auto simp: edit_text_def Let_def set_map_trees set_node_trees split: option.splits sum.splits if_splits)

lemma on_node_Inr:
  "on_node m n act d = Inr x \<Longrightarrow> \<exists>root. root_of m d = Inr root \<and> node_in m n d \<and> act root = Inr x"
  by (auto simp: on_node_def split: option.splits if_splits sum.splits)

lemma edit_trees:
  assumes "trees d" "edit_node m n txt kind now d = Inr d'"
  shows "trees d'"
proof -
  obtain root d1 d2 where "root_of m d = Inr root" "node_in m n d" and k: "edit_kind m n root kind d = Inr d1"
    and t: "edit_text m n root txt d1 = Inr d2" and d': "d' = touch m now d2"
    using on_node_Inr [OF assms(2) [unfolded edit_node_def]] by (elim exE conjE) (auto split: sum.splits)
  then have "trees d1" using edit_kind_trees [OF assms(1) _ _ k] by blast
  then show ?thesis using edit_text_trees [OF _ t] by (simp add: d' touch_trees)
qed

lemma move_trees:
  assumes T: "trees d" and mv: "move_node m n p now d = Some (Inr d')"
  shows "trees d'"
proof -
  obtain root where root: "root_of m d = Inr root" "node_in m n d" "node_in m p d" "n \<noteq> root"
    "meets (mm_nodes d) n p = Some (Inr False)"
    and d': "d' = touch m now (set_node n (\<lambda>r. r\<lparr>nd_parent := Some p, nd_ord := next_ord p d\<rparr>) d)"
    using mv by (auto simp: move_node_def split: option.splits sum.splits if_splits bool.splits)
  obtain r where r: "r \<in> set (mm_nodes d)" "nd_id r = n" "nd_map r = m" using node_in_row [OF root(2)] by blast
  obtain q where q: "q \<in> set (mm_nodes d)" "nd_id q = p" "nd_map q = m" using node_in_row [OF root(3)] by blast
  have "forest (map mp_id (mm_maps d)) (reparent n p (next_ord p d) (mm_nodes d))"
    by (rule forest_reparent [OF _ r(1,2) _ q(1,2)])
      (use T r q root not_root [OF T root(1,4) r] in \<open>simp_all add: trees_def\<close>)
  then show ?thesis unfolding d' touch_trees by (simp add: trees_def set_node_def reparent_def)
qed

lemma state_trees: "trees d \<Longrightarrow> set_node_state m n st now d = Inr d' \<Longrightarrow> trees d'"
  by (auto simp: set_node_state_def touch_trees set_node_trees dest!: on_node_Inr split: if_splits)

lemma remove_trees:
  assumes T: "trees d" and rm: "remove_node m n now d = Inr (d', k)"
  shows "trees d'"
proof -
  obtain root where root: "root_of m d = Inr root" "node_in m n d" "n \<noteq> root"
    and d': "d' = touch m now (delete_nodes (below (mm_nodes d) n) d)"
    using on_node_Inr [OF rm [unfolded remove_node_def]] by (auto simp: Let_def split: if_splits)
  obtain r where r: "r \<in> set (mm_nodes d)" "nd_id r = n" "nd_map r = m" using node_in_row [OF root(2)] by blast
  have "forest (map mp_id (mm_maps d)) (del_where (\<lambda>x. below (mm_nodes d) n (nd_id x)) (mm_nodes d))"
    by (rule forest_remove [OF _ r(1,2)]) (use T not_root [OF T root(1,3) r] in \<open>auto simp: trees_def\<close>)
  then show ?thesis unfolding d' touch_trees by (simp add: trees_def frame)
qed

lemma edges_trees:
  "trees d \<Longrightarrow> add_edge m f t l es now d = Inr (d', i) \<Longrightarrow> trees d'"
  "trees d \<Longrightarrow> remove_edge m i now d = Inr d' \<Longrightarrow> trees d'"
  "trees d \<Longrightarrow> add_refs m tg es now d = Inr (d', k) \<Longrightarrow> trees d'"
  "trees d \<Longrightarrow> remove_refs m tg es now d = Inr (d', k) \<Longrightarrow> trees d'"
  subgoal by (auto simp: add_edge_def Let_def touch_trees split: option.splits if_splits)
      (simp add: trees_def frame del: insert_refs.simps)
  subgoal by (auto simp: remove_edge_def touch_trees split: option.splits if_splits) (simp add: trees_def frame)
  subgoal by (auto simp: add_refs_def touch_trees case_prod_beta split: option.splits if_splits)
      (simp add: trees_def frame del: insert_refs.simps)
  subgoal by (auto simp: remove_refs_def touch_trees case_prod_beta split: option.splits)
      (simp add: trees_def frame del: drop_refs.simps)
  done

lemma chains_trees:
  "trees d \<Longrightarrow> add_chain m nm es now d = Inr (d', i) \<Longrightarrow> trees d'"
  "trees d \<Longrightarrow> remove_chain m nm now d = Inr d' \<Longrightarrow> trees d'"
  subgoal by (auto simp: add_chain_def Let_def touch_trees dest!: ins_steps_tables split: sum.splits option.splits if_splits)
      (simp add: trees_def)
  subgoal by (auto simp: remove_chain_def Let_def touch_trees split: option.splits if_splits) (simp add: trees_def frame)
  done

lemma maps_trees:
  "trees d \<Longrightarrow> set_shared m on now d = Inr d' \<Longrightarrow> trees d'"
  "trees d \<Longrightarrow> set_map_state m on now d = Inr d' \<Longrightarrow> trees d'"
  by (auto simp: set_shared_def set_map_state_def set_map_trees split: if_splits)

lemma delete_trees:
  assumes "trees d" "delete_map m d = Inr d'"
  shows "trees d'"
proof -
  have "map mp_id (del_where (\<lambda>r. mp_id r = m) (mm_maps d)) = filter (\<lambda>k. k \<noteq> m) (map mp_id (mm_maps d))"
    by (simp add: del_where_def filter_map o_def)
  with assms forest_drop_map [OF _ refl, of "map mp_id (mm_maps d)" "mm_nodes d" m] show ?thesis
    by (auto simp: delete_map_def Let_def trees_def frame split: if_splits)
qed

section \<open>Copies are trees\<close>

text \<open>A map \<open>m\<close> half copied into \<open>d0\<close>, with \<open>k\<close> roots so far.\<close>

definition half_tree :: "mm_db \<Rightarrow> int \<Rightarrow> nat \<Rightarrow> copying \<Rightarrow> bool" where
  "half_tree d0 m k s \<longleftrightarrow>
     map mp_id (mm_maps (cp_db s)) = map mp_id (mm_maps d0) @ [m]
     \<and> grove (map mp_id (mm_maps d0) @ [m]) (mm_nodes (cp_db s))
     \<and> roots m (mm_nodes (cp_db s)) = k
     \<and> (\<forall>x. x \<noteq> m \<longrightarrow> roots x (mm_nodes (cp_db s)) = roots x (mm_nodes d0))
     \<and> (\<forall>old i. cp_nodes s old = Some i \<longrightarrow> (\<exists>r \<in> set (mm_nodes (cp_db s)). nd_id r = i \<and> nd_map r = m))"

definition copy_frame :: "copying \<Rightarrow> copying \<Rightarrow> bool" where
  "copy_frame s s' \<longleftrightarrow> mm_nodes (cp_db s') = mm_nodes (cp_db s) \<and> mm_maps (cp_db s') = mm_maps (cp_db s)
     \<and> cp_nodes s' = cp_nodes s \<and> mm_journal (cp_db s') = mm_journal (cp_db s)"

lemma half_tree_frame: "copy_frame s s' \<Longrightarrow> half_tree d0 m k s' \<longleftrightarrow> half_tree d0 m k s"
  by (simp add: copy_frame_def half_tree_def)

lemma copy_frame_refl [simp]: "copy_frame s s"
  by (simp add: copy_frame_def)

lemma copy_frame_trans: "copy_frame s s' \<Longrightarrow> copy_frame s' s'' \<Longrightarrow> copy_frame s s''"
  by (simp add: copy_frame_def)

lemma fold_res_frame:
  "fold_res f xs s = Inr s' \<Longrightarrow> (\<And>x a b. x \<in> set xs \<Longrightarrow> f x a = Inr b \<Longrightarrow> copy_frame a b) \<Longrightarrow> copy_frame s s'"
proof (induction xs arbitrary: s)
  case Nil
  then show ?case by (simp add: copy_frame_def)
next
  case (Cons x xs)
  then obtain a where "f x s = Inr a" "fold_res f xs a = Inr s'" by (auto split: sum.splits)
  moreover from this have "copy_frame s a" using Cons.prems(2) [of x s a] by simp
  moreover have "copy_frame a s'" using \<open>fold_res f xs a = Inr s'\<close> by (rule Cons.IH) (erule Cons.prems(2) [rotated], simp)
  ultimately have "copy_frame a s'" "copy_frame s a" by simp_all
  then show ?case using copy_frame_trans by blast
qed

lemma copy_refs_frame:
  "copy_node_ref ne s = Inr s' \<Longrightarrow> copy_frame s s'"
  "copy_edge_ref i e s = Inr s' \<Longrightarrow> copy_frame s s'"
  "copy_frame s (copy_edge m f t l s)"
  by (auto simp: copy_node_ref_def copy_edge_ref_def copy_edge_def copy_frame_def Let_def split: if_splits)

lemma copy_step_frame: "copy_step c pe s = Inr s' \<Longrightarrow> copy_frame s s'"
  by (auto simp: copy_step_def copy_frame_def ins_step_def Let_def split: sum.splits if_splits)

lemma copy_chain_frame: "copy_chain m nm es cr s = Inr s' \<Longrightarrow> copy_frame s s'"
  unfolding copy_chain_def Let_def by (drule fold_res_frame, erule copy_step_frame) (simp add: copy_frame_def)

lemma half_tree_copy:
  assumes H: "half_tree d0 m k s" and n: "nd_map n = m" "nd_kind n = ''topic'' \<longleftrightarrow> nd_parent n = None"
    and p: "\<And>p. nd_parent n = Some p \<Longrightarrow> \<exists>old. cp_nodes s old = Some p"
  shows "half_tree d0 m (k + (if nd_parent n = None then 1 else 0)) (copy_node n old s)"
proof -
  let ?d = "cp_db s" let ?n = "n\<lparr>nd_id := next_rowid nd_id (mm_nodes ?d)\<rparr>"
  have g: "grove (map mp_id (mm_maps d0) @ [m]) (mm_nodes ?d)" using H by (simp add: half_tree_def)
  have "same_map_parent (mm_nodes ?d) ?n"
  proof (cases "nd_parent n")
    case (Some q)
    with p obtain x where "cp_nodes s x = Some q" by blast
    with H Some n(1) show ?thesis by (simp add: same_map_parent_def half_tree_def)
  qed (simp add: same_map_parent_def)
  then have "grove (map mp_id (mm_maps d0) @ [m]) (mm_nodes ?d @ [?n])"
    using n next_rowid_fresh [of nd_id "mm_nodes ?d"] by (intro grove_snoc [OF g]) simp_all
  then show ?thesis using H n(1) by (auto simp: half_tree_def copy_node_def Let_def)
qed

lemma half_tree_start:
  assumes "trees d" "mp_id row = next_rowid mp_id (mm_maps d)"
  shows "half_tree d (mp_id row) 0 (start_copy row d)"
proof -
  have g: "grove (map mp_id (mm_maps d)) (mm_nodes d)" using assms(1) by (simp add: trees_def forest_def)
  have m: "mp_id row \<notin> set (map mp_id (mm_maps d))" using next_rowid_fresh [of mp_id "mm_maps d"] assms(2) by auto
  have "roots (mp_id row) (mm_nodes d) = 0" by (rule roots_none) (use groveD(1) [OF g] m in metis)
  then show ?thesis using grove_more [OF g, of "map mp_id (mm_maps d) @ [mp_id row]"] by (auto simp: half_tree_def start_copy_def)
qed

lemma half_tree_done:
  assumes "trees d" "half_tree d m 1 s" "m = next_rowid mp_id (mm_maps d)"
  shows "trees (cp_db s)"
proof -
  have "m \<notin> set (map mp_id (mm_maps d))" using next_rowid_fresh [of mp_id "mm_maps d"] assms(3) by auto
  with assms(1,2) show ?thesis by (auto simp: trees_def forest_def half_tree_def)
qed

lemma import_node_tree:
  assumes H: "half_tree d0 m k s" and i: "import_node m layout cr on s = Inr s'"
    and kind: "mn_parent (snd on) \<noteq> None \<Longrightarrow> normalize_kind (mn_kind (snd on)) layout \<noteq> Inr ''topic''"
  shows "half_tree d0 m (k + (if mn_parent (snd on) = None then 1 else 0)) s'"
proof (cases "import_parent (snd on) s")
  case None
  then have "mn_parent (snd on) \<noteq> None" "s' = s"
    using i by (auto simp: import_node_def import_parent_def split: option.splits)
  then show ?thesis using H by auto
next
  case (Some parent)
  let ?s1 = "\<lambda>kind. copy_node (import_node_row m parent kind cr on) (mn_id (snd on)) s"
  obtain kind es where k: "import_kind (snd on) layout = Inr kind" and f: "fold_res copy_node_ref es (?s1 kind) = Inr s'"
    using i Some by (auto simp: import_node_def Let_def)
  have par: "parent = None \<longleftrightarrow> mn_parent (snd on) = None" "\<And>p. parent = Some p \<Longrightarrow> \<exists>old. cp_nodes s old = Some p"
    using Some by (auto simp: import_parent_def split: option.splits)
  have "kind = ''topic'' \<longleftrightarrow> parent = None" using k assms(3) par by (auto simp: import_kind_def split: if_splits)
  then have "half_tree d0 m (k + (if parent = None then 1 else 0)) (?s1 kind)"
    using half_tree_copy [OF H, of "import_node_row m parent kind cr on" "mn_id (snd on)"] par
    by (simp add: import_node_row_def)
  moreover have "copy_frame (?s1 kind) s'" by (rule fold_res_frame [OF f]) (erule copy_refs_frame)
  ultimately show ?thesis using par by (simp add: half_tree_frame)
qed

text \<open>What \<open>load\<close> hands to an archive: the root first, and no other topic.\<close>

definition whole_map :: "mmap \<Rightarrow> bool" where
  "whole_map x \<longleftrightarrow>
     (case mmap_nodes x of [] \<Rightarrow> False
      | n # ns \<Rightarrow> mn_parent n = None
         \<and> (\<forall>k \<in> set ns. mn_parent k \<noteq> None \<and> (\<forall>layout. normalize_kind (mn_kind k) layout \<noteq> Inr ''topic'')))"

lemma import_edge_frame:
  assumes "import_edge m e s = Inr s'"
  shows "copy_frame s s'"
proof (cases "cp_nodes s (me_from e)")
  case (Some f)
  show ?thesis
  proof (cases "cp_nodes s (me_to e)")
    case to: (Some t)
    obtain r es where "fold_res (copy_edge_ref r) es (copy_edge m f t (me_label e) s) = Inr s'"
      using assms Some to by (auto simp: import_edge_def Let_def split: option.splits)
    then have "copy_frame (copy_edge m f t (me_label e) s) s'" by (rule fold_res_frame) (erule copy_refs_frame)
    then show ?thesis by (rule copy_frame_trans [OF copy_refs_frame(3)])
  qed (use assms Some in \<open>simp add: import_edge_def\<close>)
qed (use assms in \<open>simp add: import_edge_def\<close>)

lemma import_chain_frame: "import_chain m cr c s = Inr s' \<Longrightarrow> copy_frame s s'"
  by (auto simp: import_chain_def copy_chain_frame split: if_splits)

lemma import_parts_tree:
  assumes h0: "half_tree d m 0 s0" and x: "whole_map x" and i: "import_parts x m layout s0 = Inr s3"
  shows "half_tree d m 1 s3"
proof -
  obtain n ns where ns: "mmap_nodes x = n # ns" "mn_parent n = None"
    "\<And>k layout. k \<in> set ns \<Longrightarrow> mn_parent k \<noteq> None \<and> normalize_kind (mn_kind k) layout \<noteq> Inr ''topic''"
    using x by (auto simp: whole_map_def split: list.splits)
  let ?f = "import_node m layout (su_created (mm_summary x))"
  obtain s1 s2 where f1: "fold_res ?f (zip (map int [0..<length (mmap_nodes x)]) (mmap_nodes x)) s0 = Inr s1"
    and f2: "fold_res (import_edge m) (mmap_edges x) s1 = Inr s2"
    and f3: "fold_res (import_chain m (su_created (mm_summary x))) (mmap_chains x) s2 = Inr s3"
    using i by (auto simp: import_parts_def Let_def)
  obtain s01 where h1: "?f (0, n) s0 = Inr s01"
    and h2: "fold_res ?f (zip (map int [1..<length (mmap_nodes x)]) ns) s01 = Inr s1"
    using f1 unfolding ns(1) by (auto simp: upt_conv_Cons split: sum.splits simp del: upt_Suc)
  have "half_tree d m 1 s01" using import_node_tree [OF h0 h1] ns(2) by simp
  then have "half_tree d m 1 s1"
  proof (rule fold_res_keeps [OF h2])
    fix y a b assume y: "y \<in> set (zip (map int [1..<length (mmap_nodes x)]) ns)" "half_tree d m 1 a" and b: "?f y a = Inr b"
    have "snd y \<in> set ns" using y(1) by (metis in_set_zipE snd_conv surj_pair)
    then show "half_tree d m 1 b" using import_node_tree [OF y(2) b] ns(3) by simp
  qed
  moreover have "copy_frame s1 s2" by (rule fold_res_frame [OF f2]) (erule import_edge_frame)
  moreover have "copy_frame s2 s3" by (rule fold_res_frame [OF f3]) (erule import_chain_frame)
  ultimately show ?thesis by (simp add: half_tree_frame)
qed

lemma import_trees:
  assumes T: "trees d" and x: "whole_map x" and i: "import_map x host tok now d = Inr (d', r)"
  shows "trees d'"
proof (cases r)
  case None
  then show ?thesis using T i by (auto simp: import_map_def Let_def split: if_splits)
next
  case (Some m)
  then obtain layout s where
      s: "import_parts x (mp_id (import_row x host tok layout now d)) layout (start_copy (import_row x host tok layout now d) d) = Inr s"
      "d' = cp_db s"
    using i by (auto simp: import_map_def Let_def split: if_splits)
  have row: "mp_id (import_row x host tok layout now d) = next_rowid mp_id (mm_maps d)" by (simp add: import_row_def Let_def)
  show ?thesis unfolding s(2)
    by (rule half_tree_done [OF T import_parts_tree [OF half_tree_start [OF T row] x s(1)] row])
qed

text \<open>Merging: the passes take over all the nodes whose way up is among them, the root in the first.\<close>

lemma merge_pass_tree:
  assumes "half_tree d0 m k s" "\<forall>n \<in> set ns. nd_kind n = ''topic'' \<longleftrightarrow> nd_parent n = None"
  shows "half_tree d0 m (k + count_where (\<lambda>n. nd_parent n = None) ns) (snd (merge_pass m ns s))
    \<and> set (fst (merge_pass m ns s)) \<subseteq> {n \<in> set ns. nd_parent n \<noteq> None}"
  using assms
proof (induction m ns s arbitrary: k rule: merge_pass.induct)
  case (1 m s)
  then show ?case by (simp add: count_where_def)
next
  case (2 m n ns s)
  show ?case
  proof (cases "nd_parent n")
    case None
    have "half_tree d0 m (k + 1) (copy_node (n\<lparr>nd_map := m, nd_parent := None\<rparr>) (nd_id n) s)"
      using half_tree_copy [OF 2(3), of "n\<lparr>nd_map := m, nd_parent := None\<rparr>" "nd_id n"] 2(4) None by simp
    from 2(2) [OF _ this] None 2(4) show ?thesis by (auto simp: count_where_def)
  next
    case (Some p)
    show ?thesis
    proof (cases "cp_nodes s p")
      case None
      from 2(1) [OF _ 2(3)] None Some 2(4) show ?thesis by (auto simp: count_where_def case_prod_beta)
    next
      case to: (Some q)
      have "half_tree d0 m k (copy_node (n\<lparr>nd_map := m, nd_parent := Some q\<rparr>) (nd_id n) s)"
        using half_tree_copy [OF 2(3), of "n\<lparr>nd_map := m, nd_parent := Some q\<rparr>" "nd_id n"] 2(4) Some to by auto
      from 2(2) [OF _ this] Some to 2(4) show ?thesis by (auto simp: count_where_def)
    qed
  qed
qed

lemma merge_nodes_more:
  assumes "half_tree d0 m k s" "\<forall>n \<in> set ns. nd_parent n \<noteq> None \<and> nd_kind n \<noteq> ''topic''"
  shows "half_tree d0 m k (merge_nodes m ns s)"
  using assms
proof (induction m ns s rule: merge_nodes.induct)
  case (1 m ns s)
  have "count_where (\<lambda>n. nd_parent n = None) ns = 0" using 1(3) by (auto simp: count_where_def filter_empty_conv)
  then have p: "half_tree d0 m k (snd (merge_pass m ns s))" "set (fst (merge_pass m ns s)) \<subseteq> set ns"
    using merge_pass_tree [OF 1(2), of ns] 1(3) by auto
  show ?case
  proof (cases "ns = [] \<or> length (fst (merge_pass m ns s)) = length ns")
    case True
    then show ?thesis using 1(2) p by (subst merge_nodes.simps) (auto simp: case_prod_beta Let_def)
  next
    case False
    have "half_tree d0 m k (merge_nodes m (fst (merge_pass m ns s)) (snd (merge_pass m ns s)))"
      using False p 1(3) by (intro 1(1)) (auto simp: prod_eq_iff)
    then show ?thesis using False by (subst merge_nodes.simps) (simp add: case_prod_beta Let_def)
  qed
qed

lemma merge_nodes_tree:
  assumes "half_tree d0 m 0 s" "\<forall>n \<in> set ns. nd_kind n = ''topic'' \<longleftrightarrow> nd_parent n = None"
    and one: "count_where (\<lambda>n. nd_parent n = None) ns = 1"
  shows "half_tree d0 m 1 (merge_nodes m ns s)"
proof -
  have p: "half_tree d0 m 1 (snd (merge_pass m ns s))"
    "set (fst (merge_pass m ns s)) \<subseteq> {n \<in> set ns. nd_parent n \<noteq> None}"
    using merge_pass_tree [OF assms(1,2)] one by auto
  then have "half_tree d0 m 1 (merge_nodes m (fst (merge_pass m ns s)) (snd (merge_pass m ns s)))"
    using assms(2) by (intro merge_nodes_more) auto
  moreover have "ns \<noteq> []" using one by (auto simp: count_where_def)
  ultimately show ?thesis using p by (subst merge_nodes.simps) (simp add: case_prod_beta Let_def)
qed

lemma merge_edge_frame:
  assumes "merge_edge src ents m e s = Inr s'"
  shows "copy_frame s s'"
proof (cases "cp_nodes s (ed_from e)")
  case (Some f)
  show ?thesis
  proof (cases "cp_nodes s (ed_to e)")
    case to: (Some t)
    obtain r es where "fold_res (copy_edge_ref r) es (copy_edge m f t (ed_label e) s) = Inr s'"
      using assms Some to by (auto simp: merge_edge_def Let_def)
    then have "copy_frame (copy_edge m f t (ed_label e) s) s'" by (rule fold_res_frame) (erule copy_refs_frame)
    then show ?thesis by (rule copy_frame_trans [OF copy_refs_frame(3)])
  qed (use assms Some in \<open>simp add: merge_edge_def\<close>)
qed (use assms in \<open>simp add: merge_edge_def\<close>)

lemma merge_refs_frame:
  "merge_node_ref ents r s = Inr s' \<Longrightarrow> copy_frame s s'"
  "merge_chain src ents m c s = Inr s' \<Longrightarrow> copy_frame s s'"
  by (auto simp: merge_node_ref_def merge_chain_def Let_def copy_refs_frame copy_chain_frame split: option.splits if_splits)

lemma merge_map_trees:
  assumes T: "trees d" and S: "trees src" and r: "r \<in> set (mm_maps src)" and mg: "merge_map src ents tok r d = Inr d'"
  shows "trees d'"
proof -
  let ?m = "next_rowid mp_id (mm_maps d)" let ?row = "r\<lparr>mp_id := ?m, mp_token := tok\<rparr>"
  let ?ns = "filter (\<lambda>n. nd_map n = mp_id r) (mm_nodes src)"
  obtain s2 s3 s4 xs ys zs where f: "fold_res (merge_node_ref ents) xs (merge_nodes ?m ?ns (start_copy ?row d)) = Inr s2"
    "fold_res (merge_edge src ents ?m) ys s2 = Inr s3" "fold_res (merge_chain src ents ?m) zs s3 = Inr s4" "d' = cp_db s4"
    using mg by (auto simp: merge_map_def Let_def)
  have g: "grove (map mp_id (mm_maps src)) (mm_nodes src)" using S by (simp add: trees_def forest_def)
  have "half_tree d ?m 1 (merge_nodes ?m ?ns (start_copy ?row d))"
  proof (rule merge_nodes_tree)
    show "half_tree d ?m 0 (start_copy ?row d)" using half_tree_start [OF T, of ?row] by simp
    show "\<forall>n \<in> set ?ns. nd_kind n = ''topic'' \<longleftrightarrow> nd_parent n = None" using groveD(3) [OF g] by auto
    show "count_where (\<lambda>n. nd_parent n = None) ?ns = 1"
      using S r by (auto simp: trees_def forest_def roots_def count_where_def conj_commute)
  qed
  moreover have "copy_frame (merge_nodes ?m ?ns (start_copy ?row d)) s2" by (rule fold_res_frame [OF f(1)]) (erule merge_refs_frame)
  moreover have "copy_frame s2 s3" by (rule fold_res_frame [OF f(2)]) (erule merge_edge_frame)
  moreover have "copy_frame s3 s4" by (rule fold_res_frame [OF f(3)]) (erule merge_refs_frame)
  ultimately have "half_tree d ?m 1 s4" by (simp add: half_tree_frame)
  then show ?thesis unfolding f(4) by (rule half_tree_done [OF T]) simp
qed

lemma merge_trees:
  assumes "trees d" "trees src" "merge_maps src ents tok d = Inr (d', k)"
  shows "trees d'"
proof -
  have f: "fold_res (\<lambda>r. merge_map src ents (tok (mp_id r)) r) (sort_key mp_id (mm_maps src)) d = Inr d'"
    using assms(3) by (auto simp: merge_maps_def split: sum.splits)
  show ?thesis using f assms(1) by (rule fold_res_keeps) (use merge_map_trees [OF _ assms(2)] in auto)
qed

section \<open>Stored values\<close>

definition map_ok :: "map_row \<Rightarrow> bool" where
  "map_ok r \<longleftrightarrow> mp_layout r \<in> set layouts \<and> mp_direction r \<in> set directions \<and> mp_state r \<in> {''open'', ''closed''}"

definition node_ok :: "string \<Rightarrow> node_row \<Rightarrow> bool" where
  "node_ok layout n \<longleftrightarrow> nd_state n \<in> set node_states \<and> (nd_kind n = ''topic'' \<or> nd_kind n \<in> set (kinds_of layout))"

definition typed_nodes :: "map_row rows \<Rightarrow> node_row rows \<Rightarrow> bool" where
  "typed_nodes ms t \<longleftrightarrow> (\<forall>n \<in> set t. \<exists>r \<in> set ms. mp_id r = nd_map n \<and> node_ok (mp_layout r) n)"

definition typed :: "mm_db \<Rightarrow> bool" where
  "typed d \<longleftrightarrow> (\<forall>r \<in> set (mm_maps d). map_ok r) \<and> typed_nodes (mm_maps d) (mm_nodes d)"

lemma typed_tables: "mm_nodes d' = mm_nodes d \<Longrightarrow> mm_maps d' = mm_maps d \<Longrightarrow> typed d \<Longrightarrow> typed d'"
  by (simp add: typed_def)

lemma typed_set_map [frame]:
  assumes "typed d" "\<And>r. mp_id (f r) = mp_id r" "\<And>r. mp_layout (f r) = mp_layout r" "\<And>r. map_ok r \<Longrightarrow> map_ok (f r)"
  shows "typed (set_map m f d)"
proof -
  have "\<exists>s \<in> set (upd_where (\<lambda>r. mp_id r = m) f (mm_maps d)). mp_id s = mp_id r \<and> mp_layout s = mp_layout r"
    if "r \<in> set (mm_maps d)" for r
    by (rule bexI [OF _ upd_where_in [OF that]]) (simp add: assms)
  then have "typed_nodes (upd_where (\<lambda>r. mp_id r = m) f (mm_maps d)) (mm_nodes d)"
    using assms(1) unfolding typed_def typed_nodes_def by metis
  then show ?thesis using assms by (simp add: typed_def set_map_def ball_upd_where)
qed

lemma typed_touch [frame]: "typed d \<Longrightarrow> typed (touch m now d)"
  unfolding touch_def by (rule typed_set_map) (simp_all add: map_ok_def)

lemma typed_nodes_more: "typed_nodes ms t \<Longrightarrow> set t' \<subseteq> set t \<Longrightarrow> set ms \<subseteq> set ms' \<Longrightarrow> typed_nodes ms' t'"
  by (auto simp: typed_nodes_def) (meson subsetD)

lemma typed_nodes_snoc:
  "typed_nodes ms (t @ [n]) \<longleftrightarrow> typed_nodes ms t \<and> (\<exists>r \<in> set ms. mp_id r = nd_map n \<and> node_ok (mp_layout r) n)"
  by (auto simp: typed_nodes_def)

lemma typed_set_node:
  assumes "typed d" "\<And>r. nd_map (f r) = nd_map r"
    and "\<And>r layout. r \<in> set (mm_nodes d) \<Longrightarrow> nd_id r = n \<Longrightarrow>
      \<exists>m \<in> set (mm_maps d). mp_id m = nd_map r \<and> node_ok (mp_layout m) (f r)"
  shows "typed (set_node n f d)"
  using assms by (auto simp: typed_def typed_nodes_def set_node_def ball_upd_where)

lemma typed_set_node_keep:
  assumes "typed d" "\<And>r. nd_map (f r) = nd_map r" "\<And>r l. node_ok l r \<Longrightarrow> node_ok l (f r)"
  shows "typed (set_node n f d)"
proof (rule typed_set_node [OF assms(1,2)])
  fix r assume "r \<in> set (mm_nodes d)"
  with assms(1) obtain m where "m \<in> set (mm_maps d)" "mp_id m = nd_map r" "node_ok (mp_layout m) r"
    by (auto simp: typed_def typed_nodes_def)
  then show "\<exists>m \<in> set (mm_maps d). mp_id m = nd_map r \<and> node_ok (mp_layout m) (f r)" using assms(3) by blast
qed

lemma find_in: "find P xs = Some x \<Longrightarrow> x \<in> set xs"
  by (auto dest: find_SomeD)

lemma normalize_kind_in: "normalize_kind raw layout = Inr k \<Longrightarrow> k \<in> set (kinds_of layout)"
  by (auto simp: normalize_kind_def Let_def dest: find_in split: option.splits)

lemma plain_kinds: "''process'' \<in> set (kinds_of ''flowchart'')" "layout \<noteq> ''flowchart'' \<Longrightarrow> ''note'' \<in> set (kinds_of layout)"
  by (simp_all add: kinds_of_def flow_kinds_def node_kinds_def)

lemma new_kind_in: "new_kind raw layout = Inr k \<Longrightarrow> k \<in> set (kinds_of layout)"
  by (auto simp: new_kind_def plain_kinds dest: normalize_kind_in split: if_splits)

lemma normalize_layout_in: "normalize_layout raw = Inr l \<Longrightarrow> l \<in> set layouts"
  by (auto simp: normalize_layout_def dest: find_in split: option.splits)

lemma layout_of_row: "layout_of m d = Inr l \<Longrightarrow> \<exists>r \<in> set (mm_maps d). mp_id r = m \<and> mp_layout r = l"
  by (auto simp: layout_of_def map_of_id_def dest!: row_of_Some split: option.splits)

lemma node_ok_kind: "k \<in> set (kinds_of l) \<Longrightarrow> nd_state n \<in> set node_states \<Longrightarrow> nd_kind n = k \<Longrightarrow> node_ok l n"
  by (simp add: node_ok_def)

lemma open_state [simp]: "''open'' \<in> set node_states"
  by (simp add: node_states_def)

lemma typed_new_map: "typed d \<Longrightarrow> typed_nodes (mm_maps d @ rs) (mm_nodes d)"
  by (rule typed_nodes_more [of "mm_maps d" "mm_nodes d"]) (auto simp: typed_def)

lemma typed_create: "typed d \<Longrightarrow> create_map spec who tok now d = Inr (d', m, root) \<Longrightarrow> typed d'"
  using typed_new_map [of d]
  by (auto simp: create_map_def Let_def typed_def map_ok_def typed_nodes_snoc node_ok_def
      split: sum.splits option.splits if_splits) (blast dest: normalize_layout_in find_in)+

lemma typed_add:
  assumes "typed d" "add_node m spec now d = Inr (d', i)"
  shows "typed d'"
proof -
  obtain layout kind p body where l: "layout_of m d = Inr layout" and k: "new_kind (nn_kind spec) layout = Inr kind"
    and a: "add_under m p spec kind body now d = Inr (d', i)"
    using assms(2) by (auto simp: add_node_def split: sum.splits option.splits if_splits)
  obtain r where r: "r \<in> set (mm_maps d)" "mp_id r = m" "mp_layout r = layout" using layout_of_row [OF l] by blast
  have kind: "kind \<in> set (kinds_of layout)" using new_kind_in [OF k] .
  obtain d2 n where d': "d' = touch m now d2" and "mm_maps d2 = mm_maps d" "mm_nodes d2 = mm_nodes d @ [n]"
    and "nd_map n = m" "nd_kind n = kind" "nd_state n = ''open''"
    using a by (auto simp: add_under_def Let_def frame dest!: draw_arrow_tables split: sum.splits simp del: insert_refs.simps)
  then have "typed d2" using assms(1) r kind by (auto simp: typed_def typed_nodes_snoc node_ok_def)
  then show ?thesis unfolding d' by (rule typed_touch)
qed

lemma typed_edit:
  assumes "typed d" "trees d" "edit_node m n txt kind now d = Inr d'"
  shows "typed d'"
proof -
  obtain root d1 d2 where n: "node_in m n d" and k: "edit_kind m n root kind d = Inr d1"
    and t: "edit_text m n root txt d1 = Inr d2" and d': "d' = touch m now d2"
    using on_node_Inr [OF assms(3) [unfolded edit_node_def]] by (elim exE conjE) (auto split: sum.splits)
  have upd: "typed (set_node n (\<lambda>r. r\<lparr>nd_kind := k\<rparr>) d)"
    if "\<exists>r \<in> set (mm_maps d). mp_id r = m \<and> k \<in> insert ''topic'' (set (kinds_of (mp_layout r)))" for k
  proof (rule typed_set_node [OF assms(1)])
    fix r assume r: "r \<in> set (mm_nodes d)" "nd_id r = n"
    obtain s where s: "s \<in> set (mm_nodes d)" "nd_id s = n" "nd_map s = m" using node_in_row [OF n] by blast
    have "r = s" using pk_eq [of nd_id "mm_nodes d" r s] assms(2) r s by (simp add: trees_def forest_def grove_def)
    moreover obtain q where "q \<in> set (mm_maps d)" "mp_id q = nd_map r" "node_ok (mp_layout q) r"
      using assms(1) r(1) by (auto simp: typed_def typed_nodes_def)
    ultimately show "\<exists>q \<in> set (mm_maps d). mp_id q = nd_map r \<and> node_ok (mp_layout q) (r\<lparr>nd_kind := k\<rparr>)"
      using that s by (auto simp: node_ok_def)
  qed simp
  have "typed d1"
  proof (cases kind)
    case (Some raw)
    obtain s where s: "s \<in> set (mm_nodes d)" "nd_map s = m" using node_in_row [OF n] by blast
    then obtain q where q: "q \<in> set (mm_maps d)" "mp_id q = m" using assms(1) by (auto simp: typed_def typed_nodes_def)
    show ?thesis using k Some upd q
      by (auto simp: edit_kind_def dest!: layout_of_row normalize_kind_in split: if_splits sum.splits)
  qed (use k assms(1) in \<open>simp add: edit_kind_def\<close>)
  then have "typed d2" using t
    by (auto simp: edit_text_def Let_def node_ok_def map_ok_def intro!: typed_set_map typed_set_node_keep
        split: option.splits sum.splits if_splits)
  then show ?thesis unfolding d' by (rule typed_touch)
qed

lemma typed_move: "typed d \<Longrightarrow> move_node m n p now d = Some (Inr d') \<Longrightarrow> typed d'"
  by (auto simp: move_node_def node_ok_def intro!: typed_touch typed_set_node_keep
      split: option.splits sum.splits if_splits bool.splits)

lemma typed_state: "typed d \<Longrightarrow> set_node_state m n st now d = Inr d' \<Longrightarrow> typed d'"
  by (auto simp: set_node_state_def node_ok_def intro!: typed_touch typed_set_node_keep dest!: on_node_Inr split: if_splits)

lemma typed_fewer:
  "typed d \<Longrightarrow> mm_maps d' = mm_maps d \<Longrightarrow> set (mm_nodes d') \<subseteq> set (mm_nodes d) \<Longrightarrow> typed d'"
  by (auto simp: typed_def elim: typed_nodes_more)

lemma typed_remove:
  assumes "typed d" "remove_node m n now d = Inr (d', k)"
  shows "typed d'"
proof -
  have "d' = touch m now (delete_nodes (below (mm_nodes d) n) d)"
    using on_node_Inr [OF assms(2) [unfolded remove_node_def]] by (auto simp: Let_def split: if_splits)
  moreover have "typed (delete_nodes (below (mm_nodes d) n) d)"
    using assms(1) by (rule typed_fewer) (auto simp: frame set_del_where)
  ultimately show ?thesis by (simp add: typed_touch)
qed

lemma typed_edges:
  "typed d \<Longrightarrow> add_edge m f t l es now d = Inr (d', i) \<Longrightarrow> typed d'"
  "typed d \<Longrightarrow> remove_edge m i now d = Inr d' \<Longrightarrow> typed d'"
  "typed d \<Longrightarrow> add_refs m tg es now d = Inr (d', k) \<Longrightarrow> typed d'"
  "typed d \<Longrightarrow> remove_refs m tg es now d = Inr (d', k) \<Longrightarrow> typed d'"
  subgoal by (auto simp: add_edge_def Let_def split: option.splits if_splits intro!: typed_touch)
      (erule typed_fewer; simp add: frame del: insert_refs.simps)
  subgoal by (auto simp: remove_edge_def split: option.splits if_splits intro!: typed_touch) (erule typed_fewer; simp add: frame)
  subgoal by (auto simp: add_refs_def case_prod_beta split: option.splits if_splits intro!: typed_touch)
      (erule typed_fewer; simp add: frame del: insert_refs.simps)
  subgoal by (auto simp: remove_refs_def case_prod_beta split: option.splits intro!: typed_touch)
      (erule typed_fewer; simp add: frame del: drop_refs.simps)
  done

lemma typed_chains:
  "typed d \<Longrightarrow> add_chain m nm es now d = Inr (d', i) \<Longrightarrow> typed d'"
  "typed d \<Longrightarrow> remove_chain m nm now d = Inr d' \<Longrightarrow> typed d'"
  subgoal by (auto simp: add_chain_def Let_def intro!: typed_touch dest!: ins_steps_tables split: sum.splits option.splits if_splits)
      (erule typed_fewer; simp)
  subgoal by (auto simp: remove_chain_def Let_def intro!: typed_touch split: option.splits if_splits) (erule typed_fewer; simp add: frame)
  done

lemma typed_maps:
  "typed d \<Longrightarrow> set_shared m on now d = Inr d' \<Longrightarrow> typed d'"
  "typed d \<Longrightarrow> set_map_state m on now d = Inr d' \<Longrightarrow> typed d'"
  by (auto simp: set_shared_def set_map_state_def map_ok_def intro!: typed_set_map split: if_splits)

lemma typed_delete:
  assumes "typed d" "delete_map m d = Inr d'"
  shows "typed d'"
proof -
  have ms: "mm_maps d' = del_where (\<lambda>r. mp_id r = m) (mm_maps d)"
    and ns: "mm_nodes d' = del_where (\<lambda>n. nd_id n \<in> nd_id ` set (filter (\<lambda>n. nd_map n = m) (mm_nodes d))) (mm_nodes d)"
    using assms(2) by (auto simp: delete_map_def Let_def frame split: if_splits)
  have "\<exists>r \<in> set (mm_maps d'). mp_id r = nd_map n \<and> node_ok (mp_layout r) n" if n: "n \<in> set (mm_nodes d')" for n
  proof -
    have n': "n \<in> set (mm_nodes d)" "nd_map n \<noteq> m" using n by (auto simp: ns set_del_where)
    then obtain r where "r \<in> set (mm_maps d)" "mp_id r = nd_map n" "node_ok (mp_layout r) n"
      using assms(1) by (auto simp: typed_def typed_nodes_def)
    then show ?thesis using n'(2) by (auto simp: ms set_del_where)
  qed
  then show ?thesis using assms(1) by (auto simp: typed_def typed_nodes_def ms set_del_where)
qed

text \<open>Copies: the half-copied map has the layout the nodes' kinds were checked against.\<close>

definition typed_copy :: "map_row rows \<Rightarrow> copying \<Rightarrow> bool" where
  "typed_copy ms s \<longleftrightarrow> mm_maps (cp_db s) = ms \<and> typed_nodes ms (mm_nodes (cp_db s))"

lemma typed_copy_frame: "copy_frame s s' \<Longrightarrow> typed_copy ms s' \<longleftrightarrow> typed_copy ms s"
  by (simp add: copy_frame_def typed_copy_def)

lemma typed_copy_node:
  assumes "typed_copy ms s" "row \<in> set ms" "mp_id row = nd_map n" "node_ok (mp_layout row) n"
  shows "typed_copy ms (copy_node n old s)"
  using assms by (auto simp: typed_copy_def copy_node_def Let_def typed_nodes_snoc node_ok_def)

lemma import_node_typed:
  assumes c: "typed_copy ms s" "row \<in> set ms" "mp_id row = m" "mp_layout row = layout"
    and i: "import_node m layout cr on s = Inr s'"
  shows "typed_copy ms s'"
proof (cases "import_parent (snd on) s")
  case None
  then show ?thesis using i c by (simp add: import_node_def)
next
  case (Some parent)
  let ?s1 = "\<lambda>kind. copy_node (import_node_row m parent kind cr on) (mn_id (snd on)) s"
  obtain kind es where k: "import_kind (snd on) layout = Inr kind" and f: "fold_res copy_node_ref es (?s1 kind) = Inr s'"
    using i Some by (auto simp: import_node_def Let_def)
  have "(case find (\<lambda>x. of_str x = mn_state (snd on)) node_states of Some x \<Rightarrow> x | None \<Rightarrow> ''open'') \<in> set node_states"
    by (auto dest: find_in split: option.splits)
  then have "node_ok (mp_layout row) (import_node_row m parent kind cr on)"
    using k c(4) by (auto simp: node_ok_def import_node_row_def import_kind_def dest: normalize_kind_in split: if_splits)
  then have "typed_copy ms (?s1 kind)" using typed_copy_node [OF c(1,2)] c(3) by (simp add: import_node_row_def)
  moreover have "copy_frame (?s1 kind) s'" by (rule fold_res_frame [OF f]) (erule copy_refs_frame)
  ultimately show ?thesis by (simp add: typed_copy_frame)
qed

lemma typed_import:
  assumes T: "typed d" and i: "import_map x host tok now d = Inr (d', r)"
  shows "typed d'"
proof (cases "d' = d")
  case False
  then obtain layout s1 s2 s3 where l: "normalize_layout (su_layout (mm_summary x)) = Inr layout" and
      f: "fold_res (import_node (mp_id (import_row x host tok layout now d)) layout (su_created (mm_summary x)))
            (zip (map int [0..<length (mmap_nodes x)]) (mmap_nodes x)) (start_copy (import_row x host tok layout now d) d) = Inr s1"
        "fold_res (import_edge (mp_id (import_row x host tok layout now d))) (mmap_edges x) s1 = Inr s2"
        "fold_res (import_chain (mp_id (import_row x host tok layout now d)) (su_created (mm_summary x))) (mmap_chains x) s2 = Inr s3"
    and d': "d' = cp_db s3"
    using i by (auto simp: import_map_def import_parts_def Let_def split: if_splits)
  let ?row = "import_row x host tok layout now d" let ?ms = "mm_maps d @ [?row]"
  have "(case find (\<lambda>s. of_str s = su_direction (mm_summary x)) directions of Some s \<Rightarrow> s | None \<Rightarrow> ''down'') \<in> set directions"
    by (auto simp: directions_def dest: find_in split: option.splits)
  then have row: "map_ok ?row" "mp_layout ?row = layout"
    using normalize_layout_in [OF l] by (auto simp: map_ok_def import_row_def Let_def)
  have "typed_copy ?ms (start_copy ?row d)" using typed_new_map [OF T] by (simp add: typed_copy_def start_copy_def)
  then have "typed_copy ?ms s1"
    by (rule fold_res_keeps [OF f(1)]) (erule import_node_typed [OF _ _ refl row(2)], simp, assumption)
  moreover have "copy_frame s1 s2" by (rule fold_res_frame [OF f(2)]) (erule import_edge_frame)
  moreover have "copy_frame s2 s3" by (rule fold_res_frame [OF f(3)]) (erule import_chain_frame)
  ultimately have "typed_copy ?ms s3" by (simp add: typed_copy_frame)
  then show ?thesis using T row(1) by (auto simp: typed_def typed_copy_def d')
qed (use T in simp)

lemma merge_pass_typed:
  assumes "typed_copy ms s" "row \<in> set ms" "mp_id row = m" "\<forall>n \<in> set ns. node_ok (mp_layout row) n"
  shows "typed_copy ms (snd (merge_pass m ns s)) \<and> set (fst (merge_pass m ns s)) \<subseteq> set ns"
  using assms
proof (induction m ns s rule: merge_pass.induct)
  case (2 m n ns s)
  define par where "par = (case nd_parent n of None \<Rightarrow> Some None | Some p \<Rightarrow> map_option Some (cp_nodes s p))"
  show ?case
  proof (cases par)
    case None
    then show ?thesis using 2(1) [OF None [unfolded par_def] 2(3,4)] 2(5,6) by (auto simp: par_def [symmetric] case_prod_beta)
  next
    case (Some parent)
    have "typed_copy ms (copy_node (n\<lparr>nd_map := m, nd_parent := parent\<rparr>) (nd_id n) s)"
      by (rule typed_copy_node [OF 2(3,4)]) (use 2(5,6) in \<open>auto simp: node_ok_def\<close>)
    then show ?thesis using 2(2) [OF Some [unfolded par_def] _ 2(4)] 2(5,6) Some by (auto simp: par_def [symmetric])
  qed
qed simp

lemma merge_nodes_typed:
  assumes "typed_copy ms s" "row \<in> set ms" "mp_id row = m" "\<forall>n \<in> set ns. node_ok (mp_layout row) n"
  shows "typed_copy ms (merge_nodes m ns s)"
  using assms
proof (induction m ns s rule: merge_nodes.induct)
  case (1 m ns s)
  note p = merge_pass_typed [OF 1(2-5)]
  show ?case
  proof (cases "ns = [] \<or> length (fst (merge_pass m ns s)) = length ns")
    case True
    then show ?thesis using 1(2) p by (subst merge_nodes.simps) (auto simp: case_prod_beta Let_def)
  next
    case False
    have "typed_copy ms (merge_nodes m (fst (merge_pass m ns s)) (snd (merge_pass m ns s)))"
      using False p 1(3-5) by (intro 1(1)) (auto simp: prod_eq_iff)
    then show ?thesis using False by (subst merge_nodes.simps) (simp add: case_prod_beta Let_def)
  qed
qed

lemma typed_merge_map:
  assumes T: "typed d" and S: "typed src" "trees src" and r: "r \<in> set (mm_maps src)" and mg: "merge_map src ents tok r d = Inr d'"
  shows "typed d'"
proof -
  let ?m = "next_rowid mp_id (mm_maps d)" let ?row = "r\<lparr>mp_id := ?m, mp_token := tok\<rparr>"
  let ?ns = "filter (\<lambda>n. nd_map n = mp_id r) (mm_nodes src)" let ?ms = "mm_maps d @ [?row]"
  obtain s2 s3 s4 xs ys zs where f: "fold_res (merge_node_ref ents) xs (merge_nodes ?m ?ns (start_copy ?row d)) = Inr s2"
    "fold_res (merge_edge src ents ?m) ys s2 = Inr s3" "fold_res (merge_chain src ents ?m) zs s3 = Inr s4" "d' = cp_db s4"
    using mg by (auto simp: merge_map_def Let_def)
  have one: "q = r" if "q \<in> set (mm_maps src)" "mp_id q = mp_id r" for q
    using S(2) that r by (auto simp: trees_def forest_def distinct_map inj_on_def)
  have ns: "\<forall>n \<in> set ?ns. node_ok (mp_layout ?row) n"
    using S(1) one by (fastforce simp: typed_def typed_nodes_def)
  have "typed_copy ?ms (start_copy ?row d)" using typed_new_map [OF T] by (simp add: typed_copy_def start_copy_def)
  then have "typed_copy ?ms (merge_nodes ?m ?ns (start_copy ?row d))"
    by (rule merge_nodes_typed [OF _ _ _ ns]) simp_all
  moreover have "copy_frame (merge_nodes ?m ?ns (start_copy ?row d)) s2" by (rule fold_res_frame [OF f(1)]) (erule merge_refs_frame)
  moreover have "copy_frame s2 s3" by (rule fold_res_frame [OF f(2)]) (erule merge_edge_frame)
  moreover have "copy_frame s3 s4" by (rule fold_res_frame [OF f(3)]) (erule merge_refs_frame)
  ultimately have "typed_copy ?ms s4" by (simp add: typed_copy_frame)
  moreover have "map_ok ?row" using S(1) r by (auto simp: typed_def map_ok_def)
  ultimately show ?thesis using T by (auto simp: typed_def typed_copy_def f(4))
qed

lemma typed_merge:
  assumes "typed d" "typed src" "trees src" "merge_maps src ents tok d = Inr (d', k)"
  shows "typed d'"
proof -
  have f: "fold_res (\<lambda>r. merge_map src ents (tok (mp_id r)) r) (sort_key mp_id (mm_maps src)) d = Inr d'"
    using assms(4) by (auto simp: merge_maps_def split: sum.splits)
  show ?thesis using f assms(1) by (rule fold_res_keeps) (use typed_merge_map [OF _ assms(2,3)] in auto)
qed

section \<open>Loading\<close>

lemma of_str_inj: "of_str s = of_str t \<Longrightarrow> s = t"
  unfolding of_str_def by (rule map_injective [of of_char]) (auto intro: injI)

text \<open>No stored kind other than \<open>topic\<close> reads as \<open>topic\<close>.\<close>

definition word_of :: "utext \<Rightarrow> utext" where
  "word_of raw = unalias kind_aliases (map (\<lambda>c. if c = 95 \<or> c = 32 then 45 else c) (ascii_lower (trim raw)))"

lemma normalize_kind_word: "normalize_kind raw layout = Inr k \<Longrightarrow> word_of raw = of_str k"
  by (auto simp: normalize_kind_def word_of_def Let_def dest!: find_SomeD split: option.splits)

lemma word_of_plain:
  assumes "\<forall>c \<in> set t. 97 \<le> c \<and> c \<le> 122 \<or> c = 45" "\<forall>(ws, _) \<in> set kind_aliases. t \<notin> of_str ` set ws"
  shows "word_of t = t"
proof -
  have w: "\<not> is_white c" if "c \<in> set t" for c using assms(1) that by (fastforce simp: is_white_def)
  have "dropWhile is_white xs = xs" if "set xs \<subseteq> set t" for xs using w that by (cases xs) auto
  then have "trim t = t" by (simp add: trim_def)
  moreover have "map (\<lambda>c. if c = 95 \<or> c = 32 then 45 else c) (ascii_lower t) = t"
    unfolding ascii_lower_def map_map by (rule map_idI) (use assms(1) in fastforce)
  moreover have "find (\<lambda>(ws, _). t \<in> of_str ` set ws) kind_aliases = None"
    using assms(2) by (auto simp: find_None_iff)
  ultimately show ?thesis by (simp add: word_of_def unalias_def)
qed

lemma kind_words: "list_all (\<lambda>k. word_of (of_str k) = of_str k) (node_kinds @ flow_kinds)"
  unfolding node_kinds_def flow_kinds_def append.simps
  by (simp only: list.pred_inject, intro conjI TrueI; rule word_of_plain; simp add: of_str_def kind_aliases_def)

lemma kinds_not_topic:
  assumes "k \<in> set (kinds_of l)" "k \<noteq> ''topic''"
  shows "normalize_kind (of_str k) layout \<noteq> Inr ''topic''"
proof
  assume "normalize_kind (of_str k) layout = Inr ''topic''"
  then have "word_of (of_str k) = of_str ''topic''" by (rule normalize_kind_word)
  moreover have "word_of (of_str k) = of_str k"
    using kind_words assms(1) by (auto simp: list_all_iff kinds_of_def split: if_splits)
  ultimately show False using of_str_inj assms(2) by metis
qed

text \<open>Among nodes where parents lead to a root, no set of nodes has all its parents in itself.\<close>

lemma climbs_out:
  "climbs t c \<Longrightarrow> (\<And>c. c \<in> S \<Longrightarrow> \<exists>r p. row_of nd_id c t = Some r \<and> nd_parent r = Some p \<and> p \<in> S) \<Longrightarrow> c \<notin> S"
proof (induction rule: climbs.induct)
  case (at_root c r)
  show ?case using at_root(1,2) at_root(3) [of c] by auto
next
  case (up c r p)
  show ?case using up(1,2) up(4) [OF up(5)] up(5) [of c] by auto
qed

definition rooted :: "mnode list \<Rightarrow> bool" where
  "rooted xs \<longleftrightarrow> (\<forall>S. S \<subseteq> set xs \<longrightarrow> (\<forall>x \<in> S. \<exists>p \<in> mn_id ` S. mn_parent x = Some p) \<longrightarrow> S = {})"

lemma rooted_sub: "rooted xs \<Longrightarrow> set ys \<subseteq> set xs \<Longrightarrow> rooted ys"
  by (simp add: rooted_def)

definition hangs_in :: "mnode list \<Rightarrow> mnode list list \<Rightarrow> bool" where
  "hangs_in by_parent st \<longleftrightarrow>
     (\<forall>x \<in> set by_parent. \<exists>p. mn_parent x = Some p \<and> p \<in> mn_id ` (set by_parent \<union> set (concat st)))"

lemma tree_order_mset:
  "rooted by_parent \<Longrightarrow> hangs_in by_parent st \<Longrightarrow>
     mset (tree_order by_parent st out) = mset out + mset (concat st) + mset by_parent"
proof (induction by_parent st out rule: tree_order.induct)
  case (1 by_parent out)
  then have "set by_parent = {}" unfolding rooted_def hangs_in_def by fastforce
  then show ?case by simp
next
  case (3 by_parent n ns st out)
  let ?r = "filter (\<lambda>k. mn_parent k \<noteq> Some (mn_id n)) by_parent"
  let ?k = "filter (\<lambda>k. mn_parent k = Some (mn_id n)) by_parent"
  have "hangs_in ?r (?k # ns # st)"
    unfolding hangs_in_def
  proof
    fix x assume x: "x \<in> set ?r"
    then obtain p where p: "mn_parent x = Some p" "p \<in> mn_id ` (set by_parent \<union> set (concat ((n # ns) # st)))" "p \<noteq> mn_id n"
      using 3(3) unfolding hangs_in_def by fastforce
    then obtain y where y: "y \<in> set by_parent \<union> set (concat ((n # ns) # st))" "p = mn_id y" "y \<noteq> n" by auto
    then have "y \<in> set ?r \<union> set (concat (?k # ns # st))" by auto
    then show "\<exists>p. mn_parent x = Some p \<and> p \<in> mn_id ` (set ?r \<union> set (concat (?k # ns # st)))"
      using p(1) y(2) by blast
  qed
  moreover have "rooted ?r" using 3(2) by (rule rooted_sub) auto
  ultimately have "mset (tree_order ?r (?k # ns # st) (out @ [n])) = mset (out @ [n]) + mset (concat (?k # ns # st)) + mset ?r"
    using 3(1) by blast
  moreover have "mset ?k + mset ?r = mset by_parent" by simp
  ultimately show ?case by (simp add: add.commute add.left_commute)
qed (simp add: hangs_in_def)

definition parents_first :: "mnode list \<Rightarrow> bool" where
  "parents_first xs \<longleftrightarrow> (\<forall>i < length xs. \<forall>p. mn_parent (xs ! i) = Some p \<longrightarrow> p \<in> mn_id ` set (take i xs))"

lemma parents_first_snoc:
  "parents_first xs \<Longrightarrow> (\<And>p. mn_parent x = Some p \<Longrightarrow> p \<in> mn_id ` set xs) \<Longrightarrow> parents_first (xs @ [x])"
  by (auto simp: parents_first_def nth_append less_Suc_eq)

lemma tree_order_first:
  "parents_first out \<Longrightarrow> (\<And>x p. x \<in> set (concat st) \<Longrightarrow> mn_parent x = Some p \<Longrightarrow> p \<in> mn_id ` set out)
    \<Longrightarrow> parents_first (tree_order by_parent st out)"
proof (induction by_parent st out rule: tree_order.induct)
  case (3 by_parent n ns st out)
  have "parents_first (out @ [n])" using 3(2) 3(3) [of n] by (intro parents_first_snoc) auto
  then show ?case using 3(1) 3(3) by simp (rule 3(1), auto)
qed auto

lemma tree_order_prefix: "\<exists>ys. tree_order by_parent st out = out @ ys"
  by (induction by_parent st out rule: tree_order.induct) auto

lemma root_view:
  assumes "trees d" "map_of_id m d = Some r"
  obtains y where "filter (\<lambda>n. mn_parent n = None) (raw_nodes m d) = [y]"
proof -
  have "r \<in> set (mm_maps d) \<and> mp_id r = m" using assms(2) unfolding map_of_id_def by (rule row_of_Some)
  then have "roots m (mm_nodes d) = 1" using assms(1) by (auto simp: trees_def forest_def)
  moreover have "length (filter (\<lambda>n. mn_parent n = None) (raw_nodes m d))
      = length (filter (\<lambda>n. nd_parent n = None) (sort_key nd_ord (sort_key nd_id (filter (\<lambda>n. nd_map n = m) (mm_nodes d)))))"
    by (simp add: raw_nodes_def filter_map o_def node_view_def)
  moreover have "mset (filter (\<lambda>n. nd_parent n = None) (sort_key nd_ord (sort_key nd_id (filter (\<lambda>n. nd_map n = m) (mm_nodes d)))))
      = mset (filter (\<lambda>n. nd_map n = m \<and> nd_parent n = None) (mm_nodes d))"
    by (simp add: filter_filter_mset)
  from mset_eq_length [OF this]
  have "length (filter (\<lambda>n. nd_parent n = None) (sort_key nd_ord (sort_key nd_id (filter (\<lambda>n. nd_map n = m) (mm_nodes d)))))
      = roots m (mm_nodes d)" by (simp add: roots_def count_where_def)
  ultimately have "length (filter (\<lambda>n. mn_parent n = None) (raw_nodes m d)) = 1" by simp
  then show ?thesis using that by (auto simp: length_Suc_conv)
qed

lemma raw_nodes_set: "set (raw_nodes m d) = node_view d ` {n \<in> set (mm_nodes d). nd_map n = m}"
  by (auto simp: raw_nodes_def)

lemma node_view_simps [simp]:
  "mn_id (node_view d n) = nd_id n" "mn_parent (node_view d n) = nd_parent n" "mn_kind (node_view d n) = of_str (nd_kind n)"
  by (simp_all add: node_view_def)

lemma raw_rooted:
  assumes "trees d"
  shows "rooted (raw_nodes m d)"
  unfolding rooted_def
proof (intro allI impI)
  fix S assume S: "S \<subseteq> set (raw_nodes m d)" "\<forall>x \<in> S. \<exists>p \<in> mn_id ` S. mn_parent x = Some p"
  have g: "grove (map mp_id (mm_maps d)) (mm_nodes d)" using assms by (simp add: trees_def forest_def)
  have step: "\<exists>r p. row_of nd_id c (mm_nodes d) = Some r \<and> nd_parent r = Some p \<and> p \<in> mn_id ` S" if c: "c \<in> mn_id ` S" for c
  proof -
    obtain x n where x: "x \<in> S" "x = node_view d n" "n \<in> set (mm_nodes d)" "c = nd_id n"
      using c S(1) by (auto simp: raw_nodes_set)
    then have "row_of nd_id c (mm_nodes d) = Some n" using row_of_pk [of nd_id "mm_nodes d" n] g by (simp add: grove_def)
    then show ?thesis using S(2) x(1,2) by fastforce
  qed
  show "S = {}"
  proof (rule ccontr)
    assume "S \<noteq> {}"
    then obtain x where x: "x \<in> S" by blast
    moreover obtain n where "x = node_view d n" "n \<in> set (mm_nodes d)" using S(1) x by (auto simp: raw_nodes_set)
    ultimately have "x \<in> S" "x = node_view d n" "n \<in> set (mm_nodes d)" by simp_all
    then have "climbs (mm_nodes d) (mn_id x)" using groveD(2) [OF g] by auto
    moreover have "mn_id x \<in> mn_id ` S" using x by (rule imageI)
    ultimately have "climbs (mm_nodes d) (mn_id x)" "mn_id x \<in> mn_id ` S" .
    with climbs_out [of "mm_nodes d" "mn_id x" "mn_id ` S"] step show False by blast
  qed
qed

lemma load_loaded:
  assumes T: "trees d" and m: "map_of_id m d = Some r"
  obtains x y where "load m d = Inr (Some x)" "mset (mmap_nodes x) = mset (raw_nodes m d)" "parents_first (mmap_nodes x)"
    "mm_root x = mn_id y" "mn_parent y = None" "\<exists>ns. mmap_nodes x = y # ns \<and> (\<forall>n \<in> set ns. mn_parent n \<noteq> None)"
proof -
  let ?raw = "raw_nodes m d" let ?by = "filter (\<lambda>n. mn_parent n \<noteq> None) ?raw"
  obtain y where y: "filter (\<lambda>n. mn_parent n = None) ?raw = [y]" using root_view [OF T m] .
  have yr: "y \<in> set ?raw" "mn_parent y = None" using arg_cong [OF y, of set] by auto
  have "find (\<lambda>n. mn_parent n = None) ?raw \<noteq> None" unfolding find_None_iff using yr by blast
  then obtain z where z: "find (\<lambda>n. mn_parent n = None) ?raw = Some z" by blast
  have "z \<in> set (filter (\<lambda>n. mn_parent n = None) ?raw)" using find_SomeD [OF z] by simp
  then have zy: "z = y" unfolding y by simp
  have g: "grove (map mp_id (mm_maps d)) (mm_nodes d)" using T by (simp add: trees_def forest_def)
  have in_raw: "p \<in> mn_id ` set ?raw" if x: "x \<in> set ?raw" "mn_parent x = Some p" for x p
  proof -
    obtain n where n: "x = node_view d n" "n \<in> set (mm_nodes d)" "nd_map n = m" using x(1) by (auto simp: raw_nodes_set)
    then obtain q where "q \<in> set (mm_nodes d)" "nd_id q = p" "nd_map q = m"
      using groveD(4) [OF g n(2)] x(2) by (auto simp: same_map_parent_def)
    then show ?thesis by (force simp: raw_nodes_set)
  qed
  have split: "set ?raw = set ?by \<union> {y}" using arg_cong [OF y, of set] by auto
  have h: "hangs_in ?by [[y]]" unfolding hangs_in_def
  proof
    fix x assume "x \<in> set ?by"
    then obtain p where p: "x \<in> set ?raw" "mn_parent x = Some p" by auto
    have "p \<in> mn_id ` (set ?by \<union> {y})" using in_raw [OF p] unfolding split .
    then show "\<exists>p. mn_parent x = Some p \<and> p \<in> mn_id ` (set ?by \<union> set (concat [[y]]))" using p(2) by simp
  qed
  let ?o = "tree_order ?by [[y]] []"
  have "mset ?o = mset [y] + mset ?by"
    using tree_order_mset [OF rooted_sub [OF raw_rooted [OF T], of ?by m] h, of "[]"] by auto
  also have "\<dots> = mset ?raw" unfolding y [symmetric] mset_filter by (rule multiset_partition [symmetric])
  finally have ms: "mset ?o = mset ?raw" .
  have pf: "parents_first ?o" by (rule tree_order_first) (use yr in \<open>auto simp: parents_first_def\<close>)
  obtain ns where ns: "?o = y # ns"
    using tree_order_prefix [of _ _ "[y]"] by (metis append.left_neutral append_Cons tree_order.simps(3))
  have "mset ns = mset ?by" using \<open>mset ?o = mset [y] + mset ?by\<close> unfolding ns by simp
  then have "set ns = set ?by" by (rule mset_eq_setD)
  then have "\<forall>n \<in> set ns. mn_parent n \<noteq> None" by simp
  with ms pf ns yr z zy m y that show ?thesis by (auto simp: load_def map_summary_of_def Let_def)
qed

lemma renumber_whole:
  assumes "trees d" "typed d" "load m d = Inr (Some x)"
  shows "whole_map (renumber f x)"
proof -
  obtain r where r: "map_of_id m d = Some r" using assms(3) by (auto simp: load_def map_summary_of_def split: option.splits)
  obtain y ns where ns: "mset (mmap_nodes x) = mset (raw_nodes m d)" "mmap_nodes x = y # ns" "mn_parent y = None"
    "\<forall>n \<in> set ns. mn_parent n \<noteq> None"
    by (rule load_loaded [OF assms(1) r]) (use assms(3) in auto)
  have g: "grove (map mp_id (mm_maps d)) (mm_nodes d)" using assms(1) by (simp add: trees_def forest_def)
  have "normalize_kind (mn_kind k) layout \<noteq> Inr ''topic''" if k: "k \<in> set ns" for k layout
  proof -
    have "k \<in> set (raw_nodes m d)" using k mset_eq_setD [OF ns(1)] ns(2) by auto
    then obtain n where n: "k = node_view d n" "n \<in> set (mm_nodes d)" by (auto simp: raw_nodes_set)
    obtain q :: map_row where "node_ok (mp_layout q) n" using assms(2) n(2) unfolding typed_def typed_nodes_def by blast
    then have "nd_kind n = ''topic'' \<or> nd_kind n \<in> set (kinds_of (mp_layout q))" by (simp add: node_ok_def)
    moreover have "nd_kind n \<noteq> ''topic''" using groveD(3) [OF g n(2)] ns(4) k n(1) by auto
    ultimately show ?thesis using kinds_not_topic n(1) by simp
  qed
  then show ?thesis using ns by (auto simp: whole_map_def renumber_def)
qed

section \<open>Everything that happens to a journal's maps\<close>

text \<open>
  One step: a tool call, a map taken from an archive (exported from a journal of the same
  history), the maps of another journal shared into this one, a change of the journal's own
  tables that drops no entry, and the deletion of entries.
\<close>

inductive mm_call :: "mm_db \<Rightarrow> mm_db \<Rightarrow> bool" where
  c_create: "create_map spec who tok now d = Inr (d', m, root) \<Longrightarrow> mm_call d d'"
| c_share: "set_shared m on now d = Inr d' \<Longrightarrow> mm_call d d'"
| c_state: "set_map_state m on now d = Inr d' \<Longrightarrow> mm_call d d'"
| c_add: "add_node m spec now d = Inr (d', i) \<Longrightarrow> mm_call d d'"
| c_edit: "edit_node m n t k now d = Inr d' \<Longrightarrow> mm_call d d'"
| c_move: "move_node m n p now d = Some (Inr d') \<Longrightarrow> mm_call d d'"
| c_node_state: "set_node_state m n st now d = Inr d' \<Longrightarrow> mm_call d d'"
| c_remove: "remove_node m n now d = Inr (d', k) \<Longrightarrow> mm_call d d'"
| c_link: "add_edge m f t l es now d = Inr (d', i) \<Longrightarrow> mm_call d d'"
| c_unlink: "remove_edge m i now d = Inr d' \<Longrightarrow> mm_call d d'"
| c_refs: "add_refs m tg es now d = Inr (d', k) \<Longrightarrow> mm_call d d'"
| c_unref: "remove_refs m tg es now d = Inr (d', k) \<Longrightarrow> mm_call d d'"
| c_chain: "add_chain m nm es now d = Inr (d', i) \<Longrightarrow> mm_call d d'"
| c_unchain: "remove_chain m nm now d = Inr d' \<Longrightarrow> mm_call d d'"
| c_delete: "delete_map m d = Inr d' \<Longrightarrow> mm_call d d'"
| c_journal: "\<forall>e. exists_entry e (mm_journal d) \<longrightarrow> exists_entry e j \<Longrightarrow> mm_call d (d\<lparr>mm_journal := j\<rparr>)"
| c_forget: "mm_call d (forget_entries p d)"

inductive mm_reach :: "mm_db \<Rightarrow> bool" where
  fresh: "mm_reach (empty_mm j)"
| called: "mm_reach d \<Longrightarrow> mm_call d d' \<Longrightarrow> mm_reach d'"
| imported: "mm_reach d \<Longrightarrow> mm_reach src \<Longrightarrow> load m src = Inr (Some x) \<Longrightarrow>
    import_map (renumber f x) host tok now d = Inr (d', r) \<Longrightarrow> mm_reach d'"
| merged: "mm_reach d \<Longrightarrow> mm_reach src \<Longrightarrow> merge_maps src ents toks d = Inr (d', k) \<Longrightarrow> mm_reach d'"

lemmas trees_steps = create_trees [rotated] maps_trees [rotated] add_trees [rotated] edit_trees [rotated] move_trees [rotated]
  state_trees [rotated] remove_trees [rotated] edges_trees [rotated] chains_trees [rotated] delete_trees [rotated]

lemmas typed_steps = typed_create [rotated] typed_maps [rotated] typed_add [rotated] typed_move [rotated] typed_state [rotated]
  typed_remove [rotated] typed_edges [rotated] typed_chains [rotated] typed_delete [rotated]

lemma call_trees: "mm_call d d' \<Longrightarrow> trees d \<Longrightarrow> trees d'"
  by (erule mm_call.cases) (blast dest: trees_steps | simp add: trees_def frame)+

lemma call_typed: "mm_call d d' \<Longrightarrow> trees d \<Longrightarrow> typed d \<Longrightarrow> typed d'"
  by (erule mm_call.cases) (blast dest: typed_steps typed_edit [rotated 2] | simp add: typed_def frame)+

lemma reach_inv: "mm_reach d \<Longrightarrow> trees d \<and> typed d"
proof (induction rule: mm_reach.induct)
  case (fresh j)
  then show ?case by (simp add: trees_def forest_def grove_def typed_def typed_nodes_def empty_mm_def pk_def)
next
  case (called d d')
  then show ?case using call_trees call_typed by blast
next
  case (imported d src m x f host tok now d' r)
  then show ?case using import_trees [OF _ renumber_whole] typed_import by blast
next
  case (merged d src ents toks d' k)
  then show ?case using merge_trees typed_merge by blast
qed

section \<open>Properties\<close>

definition parent_of :: "node_row rows \<Rightarrow> (int \<times> int) set" where
  "parent_of t = {(nd_id n, p) | n p. n \<in> set t \<and> nd_parent n = Some p}"

lemma parent_of_row: "pk nd_id t \<Longrightarrow> (c, p) \<in> parent_of t \<longleftrightarrow> (\<exists>r. row_of nd_id c t = Some r \<and> nd_parent r = Some p)"
  by (auto simp: parent_of_def dest: row_of_Some intro: row_of_pk)

lemma climbs_acyclic:
  assumes "pk nd_id t" "climbs t c"
  shows "(c, c) \<notin> (parent_of t)\<^sup>+"
proof -
  let ?S = "{x. (x, x) \<in> (parent_of t)\<^sup>+}"
  have "\<exists>r p. row_of nd_id x t = Some r \<and> nd_parent r = Some p \<and> p \<in> ?S" if x: "x \<in> ?S" for x
  proof -
    obtain p where p: "(x, p) \<in> parent_of t" "(p, x) \<in> (parent_of t)\<^sup>*" using x by (auto dest: tranclD)
    then have "p \<in> ?S" by (auto intro: rtrancl_into_trancl1)
    then show ?thesis using p(1) parent_of_row [OF assms(1)] by blast
  qed
  from climbs_out [OF assms(2) this] show ?thesis by simp
qed

lemma grove_acyclic:
  assumes "grove ms t"
  shows "acyclic (parent_of t)"
  unfolding acyclic_def
proof (intro allI notI)
  fix c assume c: "(c, c) \<in> (parent_of t)\<^sup>+"
  then obtain p where "(c, p) \<in> parent_of t" by (auto dest: tranclD)
  then have "climbs t c" using groveD(2) [OF assms] by (auto simp: parent_of_def)
  with c climbs_acyclic [of t c] assms show False by (simp add: grove_def)
qed

lemma climbs_to_root:
  assumes g: "grove ms t" and "climbs t c" and "row_of nd_id c t = Some n"
    and root: "\<And>r. r \<in> set t \<Longrightarrow> nd_map r = nd_map n \<Longrightarrow> nd_parent r = None \<Longrightarrow> r = root"
  shows "(c, nd_id root) \<in> (parent_of t)\<^sup>*"
  using assms(2-)
proof (induction arbitrary: n rule: climbs.induct)
  case (at_root c r)
  then have "n \<in> set t" "nd_id n = c" "nd_parent n = None" by (auto dest: row_of_Some)
  with at_root(4) [of n] show ?case by auto
next
  case (up c r p)
  have n: "n \<in> set t" "nd_id n = c" "nd_parent n = Some p" using up by (auto dest: row_of_Some)
  obtain q where q: "q \<in> set t" "nd_id q = p" "nd_map q = nd_map n"
    using groveD(4) [OF g n(1)] n(3) by (auto simp: same_map_parent_def)
  then have "row_of nd_id p t = Some q" using row_of_pk [of nd_id t q] g by (simp add: grove_def)
  then have "(p, nd_id root) \<in> (parent_of t)\<^sup>*" using up(4) up(6) q by auto
  moreover have "(c, p) \<in> parent_of t" using n by (auto simp: parent_of_def)
  ultimately show ?case by (meson converse_rtrancl_into_rtrancl)
qed

lemma meets_reaches: "climbs t c \<Longrightarrow> pk nd_id t \<Longrightarrow> meets t n c = Some (Inr b) \<Longrightarrow> b \<longleftrightarrow> (c, n) \<in> (parent_of t)\<^sup>*"
proof (induction rule: climbs.induct)
  case (at_root c r)
  then show ?case
  proof (cases "c = n")
    case False
    have "\<not> (\<exists>p. (c, p) \<in> parent_of t)" using at_root parent_of_row [of t c] by auto
    then have "(c, n) \<notin> (parent_of t)\<^sup>*" using False by (auto elim: converse_rtranclE)
    moreover have "\<not> b" using at_root False by (subst (asm) meets.simps) simp
    ultimately show ?thesis by simp
  qed (simp add: meets_self)
next
  case (up c r p)
  show ?case
  proof (cases "c = n")
    case False
    have only: "q = p" if "(c, q) \<in> parent_of t" for q using that up(1,2,5) parent_of_row [OF up(5)] by auto
    have "(c, n) \<in> (parent_of t)\<^sup>* \<longleftrightarrow> (p, n) \<in> (parent_of t)\<^sup>*"
    proof
      assume "(c, n) \<in> (parent_of t)\<^sup>*"
      then show "(p, n) \<in> (parent_of t)\<^sup>*" using False only by (auto elim: converse_rtranclE)
    next
      assume "(p, n) \<in> (parent_of t)\<^sup>*"
      moreover have "(c, p) \<in> parent_of t" using up(1,2) parent_of_row [OF up(5)] by blast
      ultimately show "(c, n) \<in> (parent_of t)\<^sup>*" by (meson converse_rtrancl_into_rtrancl)
    qed
    then show ?thesis using up(4) [OF up(5)] up(6) meets_step [OF False up(1,2)] by simp
  qed (use up in \<open>simp add: meets_self\<close>)
qed

lemma reach_grove: "mm_reach d \<Longrightarrow> grove (map mp_id (mm_maps d)) (mm_nodes d)"
  using reach_inv by (auto simp: trees_def forest_def)


text \<open>
  C36: Moving a node always comes to an answer. It is refused as a cycle only when the new parent
  sits under the node, and it is done only when it does not.
\<close>

theorem move_node_answers:
  assumes "mm_reach d"
  shows "\<exists>res. move_node m n p now d = Some res
    \<and> (res = Inl (MakesCycle p n) \<longrightarrow> (p, n) \<in> (parent_of (mm_nodes d))\<^sup>*)
    \<and> (\<forall>d'. res = Inr d' \<longrightarrow> (p, n) \<notin> (parent_of (mm_nodes d))\<^sup>*)"
proof (cases "node_in m p d")
  case False
  then show ?thesis by (auto simp: move_node_def is_open_def split: option.splits)
next
  case True
  note g = reach_grove [OF assms]
  then obtain q where "q \<in> set (mm_nodes d)" "nd_id q = p" using node_in_row [OF True] by blast
  then have c: "climbs (mm_nodes d) p" using groveD(2) [OF g] by blast
  then obtain b where b: "meets (mm_nodes d) n p = Some (Inr b)" using climbs_meets by blast
  have "b \<longleftrightarrow> (p, n) \<in> (parent_of (mm_nodes d))\<^sup>*" using meets_reaches [OF c _ b] g by (simp add: grove_def)
  then show ?thesis using b
    by (auto simp: move_node_def is_open_def layout_of_def root_of_def split: option.splits if_splits bool.splits)
qed

text \<open>
  Reading a map never fails: \<open>load\<close> finds the root, lists every node of the map exactly once,
  and lists each node after its parent, the root first.
\<close>

theorem load_lists_every_node:
  assumes "mm_reach d" "map_of_id m d = Some r"
  shows "\<exists>x. load m d = Inr (Some x)
    \<and> mset (map mn_id (mmap_nodes x)) = mset (map nd_id (filter (\<lambda>n. nd_map n = m) (mm_nodes d)))
    \<and> parents_first (mmap_nodes x) \<and> mn_id (hd (mmap_nodes x)) = mm_root x"
proof -
  have T: "trees d" using reach_inv [OF assms(1)] by simp
  obtain x y where x: "load m d = Inr (Some x)" "mset (mmap_nodes x) = mset (raw_nodes m d)" "parents_first (mmap_nodes x)"
    "mm_root x = mn_id y" "\<exists>ns. mmap_nodes x = y # ns"
    by (rule load_loaded [OF T assms(2)]) blast
  have "mset (map mn_id (mmap_nodes x)) = mset (map mn_id (raw_nodes m d))" using x(2) by simp
  also have "\<dots> = mset (map nd_id (filter (\<lambda>n. nd_map n = m) (mm_nodes d)))" by (simp add: raw_nodes_def o_def)
  finally show ?thesis using x by auto
qed


text \<open>
  Copying the chains of a map stops at a chain whose renumbered sequence an earlier chain of
  the map already has: its own row is ignored, and unless the number of the last step written
  happens to be a chain, its steps break the foreign key, and with it the whole copy.
\<close>

theorem equal_chains_stop_the_copy:
  assumes "copy_chain m n1 es cr s = Inr s1" "es \<noteq> []"
    and "\<forall>c \<in> set (mm_chains (cp_db s)). ch_map c \<noteq> m"
    and "\<forall>st \<in> set (mm_steps (cp_db s1)). st_chain st \<in> ch_id ` set (mm_chains (cp_db s1))"
    and "cp_last s1 \<notin> ch_id ` set (mm_chains (cp_db s1))"
  shows "copy_chain m n2 es cr' s1 = Inl Constraint"
proof -
  obtain e rest where es: "es = e # rest" using assms(2) by (cases es) auto
  have keep: "mm_chains (cp_db b) = mm_chains (cp_db a)" if "copy_step c pe a = Inr b" for c pe a b
    using that by (auto simp: copy_step_def ins_step_def Let_def split: sum.splits if_splits)
  have fresh: "\<not> list_ex (\<lambda>c. ch_map c = m \<and> (ch_name c = n1 \<or> ch_sig c = signature es)) (mm_chains (cp_db s))"
    using assms(3) by (auto simp: list_ex_iff)
  let ?s = "s\<lparr>cp_db := (cp_db s)\<lparr>mm_chains := mm_chains (cp_db s) @ [new_chain m n1 (signature es) cr (cp_db s)]\<rparr>,
      cp_last := last_rowid ch_id (mm_chains (cp_db s))
        (mm_chains (cp_db s) @ [new_chain m n1 (signature es) cr (cp_db s)]) (cp_last s)\<rparr>"
  obtain c where f: "fold_res (copy_step c) (zip (map int [0..<length es]) es) ?s = Inr s1"
    using assms(1) fresh by (auto simp: copy_chain_def Let_def)
  have "mm_chains (cp_db s1) = mm_chains (cp_db ?s)"
    by (rule fold_res_keeps [OF f, where P = "\<lambda>x. mm_chains (cp_db x) = mm_chains (cp_db ?s)"]) (auto dest: keep)
  then have clash: "list_ex (\<lambda>c. ch_map c = m \<and> (ch_name c = n2 \<or> ch_sig c = signature es)) (mm_chains (cp_db s1))"
    by (simp add: new_chain_def)
  have "(cp_last s1, 0) \<notin> step_key ` set (mm_steps (cp_db s1))" using assms(4,5) by (auto simp: step_key_def)
  then have "ins_step (cp_last s1) (0, e) (cp_db s1) = Inl Constraint"
    using assms(5) by (simp add: ins_step_def Let_def step_key_def)
  then show ?thesis using clash [unfolded es]
    by (simp add: copy_chain_def Let_def es last_rowid_def copy_step_def upt_conv_Cons del: upt_Suc)
qed

section \<open>An example\<close>

definition ann :: owner where "ann = \<lparr>ow_nick = of_str ''ann'', ow_host = None\<rparr>"

definition leaf :: "int \<Rightarrow> string \<Rightarrow> new_node" where
  "leaf p s = \<lparr>nn_parent = Some p, nn_after = None, nn_label = [], nn_kind = [], nn_text = of_str s, nn_refs = [], nn_author = None\<rparr>"

definition plan_row :: "int \<Rightarrow> int \<Rightarrow> string \<Rightarrow> node_row" where
  "plan_row i p s = \<lparr>nd_id = i, nd_map = 1, nd_parent = Some p, nd_kind = ''note'', nd_text = of_str s, nd_state = ''open'',
     nd_ord = 0, nd_created = 5, nd_author = None\<rparr>"

definition plan_root :: node_row where
  "plan_root = \<lparr>nd_id = 1, nd_map = 1, nd_parent = None, nd_kind = ''topic'', nd_text = of_str ''Plan'', nd_state = ''open'',
     nd_ord = 0, nd_created = 5, nd_author = None\<rparr>"

definition plan_db :: "node_row rows \<Rightarrow> mm_db" where
  "plan_db t = (empty_mm empty_journal)\<lparr>mm_maps := [\<lparr>mp_id = 1, mp_title = of_str ''Plan'', mp_nick = of_str ''ann'', mp_host = None,
     mp_state = ''open'', mp_token = ''t'', mp_created = 5, mp_updated = 5, mp_shared = False, mp_layout = ''mindmap'',
     mp_direction = ''down''\<rparr>], mm_nodes := t\<rparr>"

lemmas plan_defs = plan_db_def plan_row_def plan_root_def leaf_def ann_def empty_mm_def of_str_def

lemma plan_created: "create (of_str ''Plan'') ann ''t'' 5 (empty_mm empty_journal) = Inr (plan_db [plan_root], 1, 1)"
  by (simp add: create_def create_map_def mindmap_spec_def clean_text_def trim_def is_white_def max_title_chars_def
      normalize_layout_def unalias_def layout_aliases_def ascii_lower_def layouts_def directions_def next_rowid_def plan_defs)

lemma plan_add:
  assumes "t \<noteq> []" "length t < 10" "\<forall>n \<in> set t. nd_map n = 1" "\<forall>n \<in> set t. nd_parent n \<noteq> Some p" "p \<in> nd_id ` set t"
  shows "add_node 1 (leaf p ''x'') 5 (plan_db t) = Inr (plan_db (t @ [plan_row (next_rowid nd_id t) p ''x'']), next_rowid nd_id t)"
proof -
  obtain r where "row_of nd_id p t = Some r" using assms(5) row_of_None [of nd_id p t] by (cases "row_of nd_id p t") auto
  moreover from this have "nd_map r = 1" using assms(3) by (auto dest: row_of_Some)
  ultimately have n: "node_in 1 p (plan_db t)" by (simp add: node_in_def plan_db_def)
  have l: "layout_of 1 (plan_db t) = Inr ''mindmap''" "is_open 1 (plan_db t) = None"
    by (simp_all add: layout_of_def is_open_def map_of_id_def plan_db_def)
  have c: "\<not> max_nodes \<le> count_where (\<lambda>n. nd_map n = 1) t"
    using le_less_trans [OF length_filter_le assms(2), of "\<lambda>n. nd_map n = 1"] unfolding max_nodes_def count_where_def by simp
  have o': "next_ord p (plan_db t) = 0" using assms(4) by (simp add: next_ord_def plan_db_def filter_empty_conv)
  have touch: "touch 1 5 (plan_db t') = plan_db t'" for t' by (simp add: touch_def set_map_def plan_db_def)
  have "add_under 1 p (leaf p ''x'') ''note'' (of_str ''x'') 5 (plan_db t)
      = Inr (touch 1 5 (plan_db (t @ [plan_row (next_rowid nd_id t) p ''x''])), next_rowid nd_id t)"
    using o' by (simp add: add_under_def draw_arrow_def ins_refs_def Let_def plan_defs)
  moreover have "new_kind (nn_kind (leaf p ''x'')) ''mindmap'' = Inr ''note''"
    "clean_text (nn_text (leaf p ''x'')) max_text_chars w = Inr (of_str ''x'')" for w
    by (simp_all add: new_kind_def clean_text_def trim_def is_white_def max_text_chars_def leaf_def of_str_def)
  moreover have "nn_parent (leaf p ''x'') = Some p" "nn_after (leaf p ''x'') = None" "nn_refs (leaf p ''x'') = []"
    "mm_nodes (plan_db t) = t" by (simp_all add: leaf_def plan_db_def)
  ultimately show ?thesis using n l c by (simp add: add_node_def place_of_def missing_entry_def touch)
qed

definition plan :: mm_db where "plan = plan_db [plan_root, plan_row 2 1 ''x'', plan_row 3 2 ''x'']"

lemma plan_reach: "mm_reach plan"
proof -
  have "mm_reach (plan_db [plan_root])"
    using plan_created mm_reach.called [OF mm_reach.fresh mm_call.c_create] unfolding create_def by blast
  moreover have "add_node 1 (leaf 1 ''x'') 5 (plan_db [plan_root]) = Inr (plan_db ([plan_root] @ [plan_row 2 1 ''x'']), 2)"
    by (subst plan_add) (simp_all add: plan_root_def next_rowid_def)
  moreover have "add_node 1 (leaf 2 ''x'') 5 (plan_db ([plan_root] @ [plan_row 2 1 ''x'']))
      = Inr (plan_db (([plan_root] @ [plan_row 2 1 ''x'']) @ [plan_row 3 2 ''x'']), 3)"
    by (subst plan_add) (simp_all add: plan_root_def plan_row_def next_rowid_def)
  ultimately show ?thesis unfolding plan_def append.simps by (meson mm_call.c_add mm_reach.called)
qed


lemma move_node_answers_witness:
  "move_node 1 2 3 9 plan = Some (Inl (MakesCycle 3 2)) \<and> (3, 2) \<in> (parent_of (mm_nodes plan))\<^sup>*"
proof -
  obtain res where res: "move_node 1 2 3 9 plan = Some res"
    "res = Inl (MakesCycle 3 2) \<longrightarrow> (3, 2) \<in> (parent_of (mm_nodes plan))\<^sup>*"
    using move_node_answers [OF plan_reach, of 1 2 3 9] by blast
  have "meets (mm_nodes plan) 2 3 = Some (Inr True)"
    by (subst meets.simps) (simp add: plan_def plan_db_def plan_row_def plan_root_def meets_self)
  moreover have "is_open 1 plan = None" "layout_of 1 plan = Inr ''mindmap''" "root_of 1 plan = Inr 1" "node_in 1 2 plan"
    "node_in 1 3 plan"
    by (simp_all add: is_open_def map_of_id_def layout_of_def root_of_def node_in_def plan_def plan_db_def plan_row_def plan_root_def)
  ultimately have "move_node 1 2 3 9 plan = Some (Inl (MakesCycle 3 2))" by (simp add: move_node_def)
  with res show ?thesis by auto
qed

lemma load_lists_every_node_witness:
  "\<exists>x. load 1 plan = Inr (Some x) \<and> mset (map mn_id (mmap_nodes x)) = {#1, 2, 3#} \<and> mm_root x = mn_id (hd (mmap_nodes x))"
proof -
  obtain r where "map_of_id 1 plan = Some r" by (simp add: map_of_id_def plan_def plan_db_def)
  from load_lists_every_node [OF plan_reach this] show ?thesis
    by (simp add: plan_def plan_db_def plan_row_def plan_root_def) metis
qed


definition note_at :: "int \<Rightarrow> entry" where
  "note_at i = \<lparr>je_id = i, je_created = 0, je_category = [], je_body = [], je_sha = [], je_salience = [], je_agent = None,
     je_agent_id = None, je_session = None, je_feature = None, je_artifact = None\<rparr>"

definition half_copied :: copying where
  "half_copied = \<lparr>cp_db = (plan_db [])\<lparr>mm_journal := empty_journal\<lparr>entries := [note_at 10, note_at 11]\<rparr>\<rparr>,
     cp_last = 1, cp_nodes = Map.empty\<rparr>"

lemma two_numbers: "[0..<2] = [0, Suc 0]"
  by (simp add: upt_rec)

lemma copied_chain:
  "copy_chain 1 (of_str ''A'') [10, 11] 5 half_copied = Inr (half_copied\<lparr>cp_last := 2,
     cp_db := (cp_db half_copied)\<lparr>mm_chains := [\<lparr>ch_id = 1, ch_map = 1, ch_name = of_str ''A'', ch_sig = signature [10, 11], ch_created = 5\<rparr>],
       mm_steps := [\<lparr>st_id = 1, st_chain = 1, st_pos = 0, st_entry = 10\<rparr>, \<lparr>st_id = 2, st_chain = 1, st_pos = 1, st_entry = 11\<rparr>]\<rparr>\<rparr>)"
  by (simp add: copy_chain_def half_copied_def plan_db_def empty_mm_def new_chain_def last_rowid_def next_rowid_def
      copy_step_def ins_step_def step_key_def exists_entry_def note_at_def empty_journal_def two_numbers Let_def)

lemma equal_chains_stop_the_copy_witness:
  "\<exists>s1. copy_chain 1 (of_str ''A'') [10, 11] 5 half_copied = Inr s1
    \<and> copy_chain 1 (of_str ''B'') [10, 11] 6 s1 = Inl Constraint"
proof -
  obtain s1 where s1: "copy_chain 1 (of_str ''A'') [10, 11] 5 half_copied = Inr s1" using copied_chain by blast
  have "copy_chain 1 (of_str ''B'') [10, 11] 6 s1 = Inl Constraint"
    by (rule equal_chains_stop_the_copy [OF s1])
      (use s1 copied_chain in \<open>auto simp: half_copied_def plan_db_def empty_mm_def\<close>)
  with s1 show ?thesis by blast
qed

end
