(* ===== verification/JournalRead.thy ===== *)
theory JournalRead
  imports Journal Strings Complex_Main "HOL-Library.Product_Lexorder" "HOL-Library.List_Lexorder"
begin

text \<open>
  Reading the work journal (\<open>journal.rs\<close>): filters and pages, an entry with what hangs on it, the
  agenda, branches, tag and category counts, the search and its fusion, and the vectors kept
  beside the entries.

  The full-text table holds every entry's body (its triggers are the table's own); what FTS5 and
  the vector table answer, and the printed form of a time, are arguments or left out.
\<close>

section \<open>Filters\<close>

record jfilter =
  fi_category :: "utext option"
  fi_tags :: "utext list"
  fi_agent :: "utext option"
  fi_salience :: "string option"
  fi_feature :: "utext option"
  fi_since :: "int option"
  fi_flags :: "utext list"
  fi_open :: "bool option"

definition no_filter :: jfilter where
  "no_filter = \<lparr>fi_category = None, fi_tags = [], fi_agent = None, fi_salience = None, fi_feature = None,
     fi_since = None, fi_flags = [], fi_open = None\<rparr>"

definition eq_filter :: "'a option \<Rightarrow> 'a option \<Rightarrow> bool" where
  "eq_filter wanted v = (case wanted of None \<Rightarrow> True | Some w \<Rightarrow> v = Some w)"

text \<open>An unknown flag is the empty list here: it is refused where the filter is built.\<close>

definition filter_flags :: "text_env \<Rightarrow> jfilter \<Rightarrow> string list" where
  "filter_flags env f = (case normalize_flags env (fi_flags f) of Inr fs \<Rightarrow> fs | Inl e \<Rightarrow> [])"

definition flag_matches :: "string list \<Rightarrow> bool option \<Rightarrow> flag_row \<Rightarrow> bool" where
  "flag_matches fs opn r \<longleftrightarrow> (fs = [] \<or> jf_flag r \<in> set fs)
     \<and> (case opn of None \<Rightarrow> True | Some True \<Rightarrow> jf_closed r = None | Some False \<Rightarrow> jf_closed r \<noteq> None)"

definition matches :: "text_env \<Rightarrow> jfilter \<Rightarrow> journal \<Rightarrow> entry \<Rightarrow> bool" where
  "matches env f j r \<longleftrightarrow>
     (let fs = filter_flags env f; ts = normalize_tags env (fi_tags f) in
      eq_filter (Option.bind (fi_category f) (normalize_label env)) (Some (je_category r))
      \<and> eq_filter (fi_agent f) (je_agent r) \<and> eq_filter (fi_salience f) (Some (je_salience r))
      \<and> eq_filter (fi_feature f) (je_feature r)
      \<and> (case fi_since f of None \<Rightarrow> True | Some s \<Rightarrow> s \<le> je_created r)
      \<and> (fs = [] \<and> fi_open f = None \<or> list_ex (\<lambda>x. jf_entry x = je_id r \<and> flag_matches fs (fi_open f) x) (flags j))
      \<and> (ts = [] \<or> list_ex (\<lambda>(i, t). i = je_id r \<and> t \<in> set ts) (tags j)))"

section \<open>An entry and what hangs on it\<close>

record link_view =
  lv_kind :: string
  lv_out :: bool
  lv_id :: int

definition link_rank :: "link_view \<Rightarrow> nat" where
  "link_rank l =
     (if lv_kind l = ''replaces'' then (if lv_out l then 1 else 0) else if lv_kind l = ''fixes'' then 2 else 3)"

definition links_of :: "int \<Rightarrow> journal \<Rightarrow> link_view list" where
  "links_of i j =
     sort_key (\<lambda>l. (link_rank l, lv_out l, lv_id l))
       (map (\<lambda>(f, t, k). \<lparr>lv_kind = k, lv_out = True, lv_id = t\<rparr>) (filter (\<lambda>(f, t, k). f = i) (links j))
        @ map (\<lambda>(f, t, k). \<lparr>lv_kind = k, lv_out = False, lv_id = f\<rparr>) (filter (\<lambda>(f, t, k). t = i) (links j)))"

fun position :: "'a \<Rightarrow> 'a list \<Rightarrow> nat" where
  "position x [] = 0"
| "position x (y # ys) = (if x = y then 0 else Suc (position x ys))"

record entry_view =
  ev_row :: entry
  ev_tags :: "utext list"
  ev_flags :: "flag_row list"
  ev_links :: "link_view list"
  ev_proofs :: "utext list"
  ev_remind :: "reminder_row option"

definition attach :: "journal \<Rightarrow> entry \<Rightarrow> entry_view" where
  "attach j r =
     \<lparr>ev_row = r, ev_tags = map snd (filter (\<lambda>t. fst t = je_id r) (tags j)),
      ev_flags = sort_key (\<lambda>x. position (jf_flag x) all_flags) (filter (\<lambda>x. jf_entry x = je_id r) (flags j)),
      ev_links = links_of (je_id r) j, ev_proofs = proofs_of j (je_id r), ev_remind = row_of jr_entry (je_id r) (reminders j)\<rparr>"

definition get_entry :: "int \<Rightarrow> journal \<Rightarrow> entry_view option" where
  "get_entry i j = map_option (attach j) (row_of je_id i (entries j))"

definition max_page_size :: nat where "max_page_size = 100"

definition newest_first :: "entry list \<Rightarrow> entry list" where
  "newest_first = sort_key (\<lambda>r. (- je_created r, - je_id r))"

definition list_entries :: "text_env \<Rightarrow> jfilter \<Rightarrow> nat \<Rightarrow> nat \<Rightarrow> journal \<Rightarrow> nat \<times> entry_view list" where
  "list_entries env f offset lmt j =
     (let found = filter (matches env f j) (entries j) in
      (length found, map (attach j) (take (max 1 (min lmt max_page_size)) (drop offset (newest_first found)))))"

definition agenda :: "text_env \<Rightarrow> nat \<Rightarrow> journal \<Rightarrow> (string \<times> nat \<times> entry_view list) list" where
  "agenda env lmt j =
     filter (\<lambda>(fl, n, es). 0 < n)
       (map (\<lambda>fl. (fl, list_entries env (no_filter\<lparr>fi_flags := [of_str fl], fi_open := Some True\<rparr>) 0 lmt j))
          (filter (\<lambda>fl. fl \<notin> set passive_flags) all_flags))"

definition journal_feedback :: "text_env \<Rightarrow> bool \<Rightarrow> journal \<Rightarrow> entry_view list" where
  "journal_feedback env open_only j =
     snd (list_entries env (no_filter\<lparr>fi_flags := [of_str ''ai-feedback''], fi_open := if open_only then Some True else None\<rparr>)
            0 max_page_size j)"

text \<open>Counts of tags and of categories, most used first.\<close>

definition counted :: "utext list \<Rightarrow> (utext \<times> nat) list" where
  "counted xs = sort_key (\<lambda>(x, n). (- int n, x)) (map (\<lambda>x. (x, count_list xs x)) (remdups xs))"

definition tag_counts :: "text_env \<Rightarrow> utext option \<Rightarrow> journal \<Rightarrow> (utext \<times> nat) list" where
  "tag_counts env category j =
     (let c = Option.bind category (normalize_label env) in
      counted (map snd (filter (\<lambda>(i, t). case row_of je_id i (entries j) of None \<Rightarrow> False
        | Some r \<Rightarrow> c = None \<or> c = Some (je_category r)) (tags j))))"

definition category_counts :: "journal \<Rightarrow> (utext \<times> nat) list" where
  "category_counts j = counted (map je_category (entries j))"

record brief_view =
  bv_id :: int
  bv_category :: utext
  bv_flags :: "string list"
  bv_excerpt :: utext

definition brief :: "int \<Rightarrow> journal \<Rightarrow> brief_view option" where
  "brief i j =
     map_option (\<lambda>e.
       let flat = join_with [32] (split_white (je_body (ev_row e))) in
       \<lparr>bv_id = i, bv_category = je_category (ev_row e),
        bv_flags = map (\<lambda>x. if jf_closed x = None then jf_flag x else jf_flag x @ '' (closed)'') (ev_flags e),
        bv_excerpt = (if 160 < length flat then take 160 flat @ [8230] else flat)\<rparr>) (get_entry i j)"

section \<open>A branch\<close>

record branch_entry =
  be_parent :: "(int \<times> string) option"
  be_entry :: brief_view

record branch_view =
  br_root :: int
  br_state :: string
  br_verified :: "int option"
  br_entries :: "branch_entry list"
  br_linked :: "(int \<times> utext \<times> brief_view) list"

definition link_text :: "int \<Rightarrow> string \<Rightarrow> int \<Rightarrow> utext" where
  "link_text a k b = 35 # of_str (dec_int a) @ [32] @ of_str k @ [32, 35] @ of_str (dec_int b)"

text \<open>The other branches an entry's links lead to, one at a time as the loop meets them.\<close>

definition add_linked ::
  "journal \<Rightarrow> int \<Rightarrow> int list \<Rightarrow> int \<Rightarrow> link_view \<Rightarrow> (int \<times> utext \<times> brief_view) list \<Rightarrow> (int \<times> utext \<times> brief_view) list" where
  "add_linked j rt ids e l out =
     (if lv_id l \<in> set ids then out
      else case branch_root j (lv_id l) of None \<Rightarrow> out
        | Some other \<Rightarrow>
           if other = rt \<or> other \<in> fst ` set out then out
           else case brief other j of None \<Rightarrow> out
             | Some b \<Rightarrow> out @ [(other, if lv_out l then link_text e (lv_kind l) (lv_id l) else link_text (lv_id l) (lv_kind l) e, b)])"

definition linked_branches :: "journal \<Rightarrow> int \<Rightarrow> int list \<Rightarrow> (int \<times> utext \<times> brief_view) list" where
  "linked_branches j rt ids = fold (\<lambda>e. fold (add_linked j rt ids e) (links_of e j)) ids []"

definition parent_in :: "journal \<Rightarrow> int list \<Rightarrow> int \<Rightarrow> (int \<times> string) option" where
  "parent_in j ids e =
     (case sort_key (\<lambda>(f, t, k). - t) (filter (\<lambda>(f, t, k). f = e \<and> t \<in> set ids) (links j)) of [] \<Rightarrow> None
      | (f, t, k) # _ \<Rightarrow> Some (t, k))"

definition branch :: "int \<Rightarrow> journal \<Rightarrow> branch_view option" where
  "branch i j =
     map_option (\<lambda>rt.
       let ids = branch_ids j rt;
           verified = find (\<lambda>e. e \<noteq> rt \<and> has_open_flag j e ''verified'') ids
       in \<lparr>br_root = rt,
           br_state = (if \<not> has_open_flag j rt ''todo'' then ''closed'' else if verified \<noteq> None then ''verified'' else ''open''),
           br_verified = verified,
           br_entries = List.map_filter (\<lambda>e. map_option (\<lambda>b.
               \<lparr>be_parent = (if e = rt then None else parent_in j ids e), be_entry = b\<rparr>) (brief e j)) ids,
           br_linked = linked_branches j rt ids\<rparr>) (branch_root j i)"

section \<open>Search\<close>

datatype jsearch_mode = JLexical | JDense | JHybrid

definition jmax_top_k :: nat where "jmax_top_k = 50"
definition snippet_chars :: nat where "snippet_chars = 200"

text \<open>\<open>str::split\<close> with a predicate.\<close>

definition query_words :: "text_env \<Rightarrow> utext \<Rightarrow> utext list" where
  "query_words env t = filter (\<lambda>w. w \<noteq> []) (split_by (\<lambda>c. \<not> is_alnum (uni env) c) t)"

definition fts_query :: "text_env \<Rightarrow> utext \<Rightarrow> utext option" where
  "fts_query env t =
     (let ws = map (\<lambda>w. [34] @ w @ [34]) (query_words env t) in
      if ws = [] then None else Some (join_with (of_str '' OR '') ws))"

text \<open>
  \<open>sv_match q rows\<close>: the full-text rows that match, each with its negated BM25 score; \<open>sv_near v k rows\<close>:
  the \<open>k\<close> nearest vectors, nearest first, with their distances.
\<close>

record 'v services =
  sv_match :: "utext \<Rightarrow> (int \<times> utext) list \<Rightarrow> (int \<times> rat) list"
  sv_near :: "'v \<Rightarrow> nat \<Rightarrow> (int \<times> 'v) list \<Rightarrow> (int \<times> rat) list"

definition lexical_ids :: "text_env \<Rightarrow> 'v services \<Rightarrow> utext \<Rightarrow> jfilter \<Rightarrow> nat \<Rightarrow> journal \<Rightarrow> (int \<times> rat) list" where
  "lexical_ids env sv query f k j =
     (case fts_query env query of None \<Rightarrow> []
      | Some q \<Rightarrow>
         take k (sort_key (\<lambda>(i, s). - s)
           (filter (\<lambda>(i, s). case row_of je_id i (entries j) of None \<Rightarrow> False | Some r \<Rightarrow> matches env f j r)
             (sv_match sv q (map (\<lambda>r. (je_id r, je_body r)) (entries j))))))"

definition dense_ids :: "text_env \<Rightarrow> 'v services \<Rightarrow> 'v \<Rightarrow> jfilter \<Rightarrow> nat \<Rightarrow> (int \<times> 'v) list \<Rightarrow> journal \<Rightarrow> (int \<times> rat) list" where
  "dense_ids env sv v f k vecs j =
     filter (\<lambda>(i, s). case row_of je_id i (entries j) of None \<Rightarrow> False | Some r \<Rightarrow> matches env f j r)
       (map (\<lambda>(i, far). (i, - far)) (sv_near sv v k vecs))"

text \<open>\<open>rrf\<close>: the map is read out in some order, but the sort is on score and id together.\<close>

definition ranked_score :: "(int \<times> rat) list \<Rightarrow> int \<Rightarrow> rat" where
  "ranked_score xs i =
     sum_list (map (\<lambda>(rank, (i', s)). if i' = i then 1 / (60 + of_nat rank + 1) else 0) (zip [0..<length xs] xs))"

definition rrf :: "(int \<times> rat) list \<Rightarrow> (int \<times> rat) list \<Rightarrow> (int \<times> rat) list" where
  "rrf a b =
     sort_key (\<lambda>(i, s). (- s, - i)) (map (\<lambda>i. (i, ranked_score a i + ranked_score b i)) (remdups (map fst (a @ b))))"

definition snippet :: "text_env \<Rightarrow> utext \<Rightarrow> utext \<Rightarrow> utext" where
  "snippet env body query =
     (let low = lower env body;
          starts = List.map_filter (\<lambda>w. find_from (lower env w) low 0) (filter (\<lambda>w. 2 < length w) (query_words env query));
          before = (if starts = [] then 0 else Min (set starts));
          from = before - snippet_chars div 4;
          text = join_with [32] (split_white (take snippet_chars (drop from body)))
      in (if 0 < from then [8230] else []) @ text @ (if from + snippet_chars < length body then [8230] else []))"

definition search_journal ::
  "text_env \<Rightarrow> 'v services \<Rightarrow> utext \<Rightarrow> 'v option \<Rightarrow> jsearch_mode \<Rightarrow> jfilter \<Rightarrow> nat \<Rightarrow> (int \<times> 'v) list \<Rightarrow> journal
     \<Rightarrow> jsearch_mode \<times> (rat \<times> utext \<times> entry_view) list" where
  "search_journal env sv query embedding mode f top_k vecs j =
     (let k = max 1 (min top_k jmax_top_k); candidates = min (k * 4) 200;
          used = (if mode = JLexical \<or> embedding = None then JLexical else mode);
          ls = (if used = JDense then [] else lexical_ids env sv query f candidates j);
          ds = (case embedding of Some v \<Rightarrow> if used = JLexical then [] else dense_ids env sv v f candidates vecs j | None \<Rightarrow> []);
          ranked = (case used of JLexical \<Rightarrow> ls | JDense \<Rightarrow> ds | JHybrid \<Rightarrow> rrf ls ds);
          hits = List.map_filter (\<lambda>(i, s). map_option (\<lambda>e. (s, snippet env (je_body (ev_row e)) query, e)) (get_entry i j)) (take k ranked)
      in (used, sort_key (\<lambda>(s, t, e). list_ex (\<lambda>x. jf_flag x = ''deprecated'') (ev_flags e)) hits))"

section \<open>Vectors\<close>

definition missing_vectors :: "nat \<Rightarrow> (int \<times> 'v) list \<Rightarrow> journal \<Rightarrow> (int \<times> utext) list" where
  "missing_vectors lmt vecs j =
     take lmt (map (\<lambda>r. (je_id r, je_body r)) (sort_key je_id (filter (\<lambda>r. je_id r \<notin> fst ` set vecs) (entries j))))"

definition store_vector :: "int \<Rightarrow> 'v \<Rightarrow> journal \<Rightarrow> (int \<times> 'v) list \<Rightarrow> (int \<times> 'v) list" where
  "store_vector i v j vecs = (if exists_entry i j then ins_replace fst (i, v) vecs else vecs)"

text \<open>What an entry intersects: its links, the nearest not linked, those from the same source.\<close>

fun near_ones :: "nat \<Rightarrow> (int \<Rightarrow> bool) \<Rightarrow> journal \<Rightarrow> (int \<times> rat) list \<Rightarrow> (rat \<times> brief_view) list \<Rightarrow> (rat \<times> brief_view) list" where
  "near_ones lmt skip j [] out = out"
| "near_ones lmt skip j ((i, far) # hits) out =
     (if skip i then near_ones lmt skip j hits out
      else let out' = (case brief i j of None \<Rightarrow> out | Some b \<Rightarrow> out @ [(1 - far * far / 2, b)]) in
        if length out' = lmt then out' else near_ones lmt skip j hits out')"

definition related ::
  "'v services \<Rightarrow> int \<Rightarrow> nat \<Rightarrow> (int \<times> 'v) list \<Rightarrow> journal
     \<Rightarrow> (link_view \<times> brief_view) list \<times> (rat \<times> brief_view) list \<times> brief_view list" where
  "related sv i similar vecs j =
     (let ls = links_of i j;
          linked = List.map_filter (\<lambda>l. map_option (Pair l) (brief (lv_id l) j)) ls;
          near = (case map_of vecs i of None \<Rightarrow> []
            | Some v \<Rightarrow> if similar = 0 then []
                else near_ones similar (\<lambda>other. other = i \<or> other \<in> lv_id ` set ls) j (sv_near sv v (similar + length ls + 1) vecs) []);
          same = (case Option.bind (row_of je_id i (entries j)) je_artifact of None \<Rightarrow> []
            | Some a \<Rightarrow> take 5 (sort_key (\<lambda>r. - je_created r) (filter (\<lambda>r. je_artifact r = Some a \<and> je_id r \<noteq> i) (entries j))))
      in (linked, near, List.map_filter (\<lambda>r. brief (je_id r) j) same))"

section \<open>What the reads promise\<close>


lemma attach_row [simp]: "ev_row (attach j r) = r"
  by (simp add: attach_def)

lemma page_size: "0 < n \<Longrightarrow> n \<le> max_page_size \<Longrightarrow> max 1 (min n max_page_size) = n"
  by simp

lemma chunks_concat: "concat (map (\<lambda>k. take n (drop (k * n) xs)) [0..<m]) = take (m * n) xs"
proof (induction m)
  case (Suc m)
  have "take (m * n) xs @ take n (drop (m * n) xs) = take (m * n + n) xs" by (simp add: take_add)
  with Suc show ?case by (simp add: add.commute)
qed simp

lemma list_entries_page:
  assumes "0 < n" "n \<le> max_page_size"
  shows "map ev_row (snd (list_entries env f i n j)) = take n (drop i (newest_first (filter (matches env f j) (entries j))))"
  using assms by (simp add: list_entries_def Let_def page_size comp_def)

definition newer :: "entry \<Rightarrow> entry \<Rightarrow> bool" where
  "newer a b \<longleftrightarrow> je_created b < je_created a \<or> je_created a = je_created b \<and> je_id b \<le> je_id a"

lemma newest_first_sorted: "sorted_wrt newer (newest_first xs)"
proof -
  have "sorted (map (\<lambda>r. (- je_created r, - je_id r)) (newest_first xs))" by (simp add: newest_first_def)
  then show ?thesis unfolding sorted_map by (rule sorted_wrt_mono_rel[rotated]) (auto simp: newer_def)
qed

text \<open>
  Paging through the list with any page size up to 100 shows every entry that passes the filter exactly
  once, newest first (by id where the second is the same), and the number that comes with each page is
  how many there are.
\<close>

theorem pages_show_every_match_once:
  assumes "0 < n" "n \<le> max_page_size" "fst (list_entries env f 0 n j) \<le> m * n"
  defines "shown \<equiv> concat (map (\<lambda>k. map ev_row (snd (list_entries env f (k * n) n j))) [0..<m])"
  shows "mset shown = mset (filter (matches env f j) (entries j)) \<and> sorted_wrt newer shown
    \<and> length shown = fst (list_entries env f 0 n j)"
proof -
  let ?xs = "newest_first (filter (matches env f j) (entries j))"
  have len: "fst (list_entries env f 0 n j) = length ?xs" by (simp add: list_entries_def newest_first_def Let_def)
  have "shown = take (m * n) ?xs"
    unfolding shown_def list_entries_page [OF assms(1,2)] by (rule chunks_concat)
  with assms(3) len have "shown = ?xs" by simp
  then show ?thesis using newest_first_sorted len by (simp add: newest_first_def)
qed

definition stale_hit :: "rat \<times> utext \<times> entry_view \<Rightarrow> bool" where
  "stale_hit h \<longleftrightarrow> list_ex (\<lambda>x. jf_flag x = ''deprecated'') (ev_flags (snd (snd h)))"

definition admits :: "text_env \<Rightarrow> jfilter \<Rightarrow> journal \<Rightarrow> int \<Rightarrow> bool" where
  "admits env f j i \<longleftrightarrow> (\<exists>r. row_of je_id i (entries j) = Some r \<and> matches env f j r)"

lemma lexical_admits: "x \<in> set (lexical_ids env sv q f k j) \<Longrightarrow> admits env f j (fst x)"
  by (auto simp: lexical_ids_def admits_def split: option.splits dest!: in_set_takeD)

lemma dense_admits: "x \<in> set (dense_ids env sv v f k vecs j) \<Longrightarrow> admits env f j (fst x)"
  by (auto simp: dense_ids_def admits_def split: option.splits)

lemma rrf_from: "x \<in> set (rrf a b) \<Longrightarrow> \<exists>y \<in> set (a @ b). fst y = fst x"
  by (force simp: rrf_def)

text \<open>
  C28: Whatever the full-text index and the vector table answer, a search returns at most 50 hits, each the
  current view of a stored entry that passes the filter, and no deprecated entry stands before one that
  is not.
\<close>

theorem search_hits_pass_the_filter:
  assumes "search_journal env sv q emb mode f k vecs j = (used, hits)"
  shows "length hits \<le> 50
    \<and> (\<forall>h \<in> set hits. \<exists>r \<in> set (entries j). matches env f j r \<and> snd (snd h) = attach j r)
    \<and> sorted_wrt (\<lambda>h g. stale_hit h \<longrightarrow> stale_hit g) hits"
proof -
  define ls where "ls = (if used = JDense then [] else lexical_ids env sv q f (min (max 1 (min k jmax_top_k) * 4) 200) j)"
  define ds where "ds = (case emb of Some v \<Rightarrow> if used = JLexical then []
    else dense_ids env sv v f (min (max 1 (min k jmax_top_k) * 4) 200) vecs j | None \<Rightarrow> [])"
  define ranked where "ranked = take (max 1 (min k jmax_top_k)) (case used of JLexical \<Rightarrow> ls | JDense \<Rightarrow> ds | JHybrid \<Rightarrow> rrf ls ds)"
  define raw where "raw = List.map_filter (\<lambda>(i, s). map_option (\<lambda>e. (s, snippet env (je_body (ev_row e)) q, e)) (get_entry i j)) ranked"
  have used: "used = (if mode = JLexical \<or> emb = None then JLexical else mode)"
    and hits: "hits = sort_key stale_hit raw"
    using assms unfolding search_journal_def Let_def stale_hit_def raw_def ranked_def ls_def ds_def
    by (auto simp: case_prod_beta')
  have adm: "admits env f j (fst x)" if "x \<in> set ranked" for x
  proof -
    have l: "y \<in> set ls \<Longrightarrow> admits env f j (fst y)" for y unfolding ls_def by (cases "used = JDense") (simp_all add: lexical_admits)
    have d: "y \<in> set ds \<Longrightarrow> admits env f j (fst y)" for y unfolding ds_def by (cases emb; cases "used = JLexical") (simp_all add: dense_admits)
    have "x \<in> set (case used of JLexical \<Rightarrow> ls | JDense \<Rightarrow> ds | JHybrid \<Rightarrow> rrf ls ds)"
      using that unfolding ranked_def by (rule in_set_takeD)
    then show ?thesis
    proof (cases used)
      case JHybrid
      with \<open>x \<in> set (case used of JLexical \<Rightarrow> ls | JDense \<Rightarrow> ds | JHybrid \<Rightarrow> rrf ls ds)\<close>
      have "x \<in> set (rrf ls ds)" by simp
      from rrf_from [OF this] obtain y where "y \<in> set (ls @ ds)" "fst y = fst x" by blast
      with l d show ?thesis by (metis Un_iff set_append)
    qed (use l d in simp_all)
  qed
  have "length raw \<le> length ranked" unfolding raw_def List.map_filter_def by simp
  moreover have "length ranked \<le> 50" by (simp add: ranked_def jmax_top_k_def)
  moreover have "\<exists>r \<in> set (entries j). matches env f j r \<and> snd (snd h) = attach j r" if "h \<in> set raw" for h
  proof -
    from that obtain x e where x: "x \<in> set ranked" "get_entry (fst x) j = Some e" "snd (snd h) = e"
      by (force simp: raw_def List.map_filter_def)
    from adm [OF x(1)] obtain r where "row_of je_id (fst x) (entries j) = Some r" "matches env f j r" by (auto simp: admits_def)
    with x show ?thesis by (auto simp: get_entry_def row_of_def dest: find_SomeD)
  qed
  moreover have "sorted_wrt (\<lambda>h g. stale_hit h \<longrightarrow> stale_hit g) (sort_key stale_hit raw)"
    using sorted_sort_key [of stale_hit raw] by (simp add: sorted_map le_bool_def)
  ultimately show ?thesis unfolding hits by auto
qed



definition thin :: journal where
  "thin = \<lparr>entries = [sample 1 [120], sample 2 [120]], tags = [], flags = [new_flag 1 ''todo'' 1, new_flag 2 ''verified'' 2],
     links = [(2, 1, ''verifies'')], reminders = [], proofs = [], evidence_first = False\<rparr>"

lemma thin_branch: "branch_root thin 1 = Some 1" "branch_ids thin 1 = [1, 2]"
proof -
  have t: "is_todo thin 1" "\<not> is_todo thin 2" by (simp_all add: is_todo_def thin_def new_flag_def)
  have c: "children thin 1 = [2]" "children thin 2 = []" by (simp_all add: children_def thin_def structural_def)
  have "parents thin 2 = [1]" by (simp add: parents_def thin_def structural_def)
  then have "branch_root thin 2 = Some 1" by (simp add: branch_root_def t branch_limit_def Let_def)
  then show "branch_ids thin 1 = [1, 2]" by (simp add: branch_ids_def c t branch_limit_def Let_def)
  show "branch_root thin 1 = Some 1" by (simp add: branch_root_def t branch_limit_def Let_def)
qed

lemma thin_flags: "has_open_flag thin 1 ''todo''" "has_open_flag thin 2 ''verified''"
  by (simp_all add: has_open_flag_def thin_def flag_open_def new_flag_def)

lemma thin_gap: "evidence_gap plain_env thin 2 \<noteq> None"
proof -
  have "parse_refs plain_env [120] = []" by (rule parse_refs_none) (simp add: plain_env_def)
  moreover have "split_white [120] = [[120]]" by (rule split_white_word) (simp_all add: is_white_def)
  ultimately have "own_words plain_env [120] = [120]" by (simp add: own_words_def plain_env_def)
  then show ?thesis
    by (simp add: evidence_gap_def thin_def has_open_flag_def flag_open_def new_flag_def sample_def min_evidence_chars_def)
qed


lemma work_unfiltered: "matches plain_env no_filter work = (\<lambda>_. True)"
    by (rule ext) (simp add: matches_def no_filter_def Let_def eq_filter_def filter_flags_def normalize_flags_def normalize_tags_def)

theorem pages_show_every_match_once_witness:
  "mset (concat (map (\<lambda>k. map ev_row (snd (list_entries plain_env no_filter (k * 3) 3 work))) [0..<2])) = mset (entries work)"
proof -
  have "fst (list_entries plain_env no_filter 0 3 work) = 4"
    by (simp add: list_entries_def Let_def work_unfiltered) (simp add: work_def)
  with pages_show_every_match_once [of 3 plain_env no_filter work 2] show ?thesis by (simp add: max_page_size_def work_unfiltered)
qed


definition by_meaning :: "unit services" where
  "by_meaning = \<lparr>sv_match = (\<lambda>q rows. []), sv_near = (\<lambda>v k rows. map (\<lambda>(i, _). (i, 0)) rows)\<rparr>"

lemma found_by_meaning:
  "search_journal plain_env by_meaning [120] (Some ()) JDense no_filter 5 [(3, ())] work =
     (JDense, [(0, snippet plain_env (replicate 45 120) [120], attach work (sample 3 (replicate 45 120)))])"
proof -
  have r: "row_of je_id 3 (entries work) = Some (sample 3 (replicate 45 120))"
    by (simp add: work_def sample_def row_of_def)
  have "dense_ids plain_env by_meaning () no_filter 20 [(3, ())] work = [(3, 0)]"
    by (simp add: dense_ids_def by_meaning_def work_unfiltered r)
  then show ?thesis
    by (simp add: search_journal_def Let_def jmax_top_k_def get_entry_def r List.map_filter_def sample_def)
qed

theorem search_hits_pass_the_filter_witness:
  "\<exists>r \<in> set (entries work). matches plain_env no_filter work r \<and> attach work (sample 3 (replicate 45 120)) = attach work r"
  using search_hits_pass_the_filter [OF found_by_meaning] by simp

end
