(* ===== verification/Chunker.thy ===== *)
theory Chunker
  imports Prelude
begin

text \<open>
  Cutting a text into chunks (\<open>chunker.rs\<close>, the chunkers of \<open>ingest.rs\<close>) and putting the old
  insights' chunks together again (\<open>stitch_chunks\<close> of \<open>journal.rs\<close>). A text is its list of code
  points, as in the code, which cuts a \<open>Vec<char>\<close>.

  What is proved: stitching is the inverse of the 500/100 window, the structural chunker covers
  the text section by section without a gap, and without headings it is the plain chunker.
\<close>

section \<open>Windows\<close>

definition chunk_window :: nat where "chunk_window = 500"
definition chunk_overlap :: nat where "chunk_overlap = 100"
definition structural_cap :: nat where "structural_cap = 1500"
definition structural_overlap :: nat where "structural_overlap = 200"

text \<open>The loop of every chunker: \<open>cs[start..end]\<close>, until \<open>end\<close> is the end of the text.\<close>

function slide :: "nat \<Rightarrow> nat \<Rightarrow> utext \<Rightarrow> nat \<Rightarrow> utext list" where
  "slide w step cs start =
     (let stop = min (start + w) (length cs) in
      take (stop - start) (drop start cs)
        # (if stop = length cs \<or> step = 0 then [] else slide w step cs (start + step)))"
  by pat_completeness auto
termination by (relation "measure (\<lambda>(w, step, cs, start). length cs - start)") auto

declare slide.simps [simp del]

record chunk =
  ck_ord :: nat
  ck_text :: utext
  ck_page_start :: "int option"
  ck_page_end :: "int option"

text \<open>Chunks get their \<open>ord\<close> as they are pushed.\<close>

fun number :: "nat \<Rightarrow> (utext \<times> int option) list \<Rightarrow> chunk list" where
  "number k [] = []"
| "number k ((t, p) # ts) = \<lparr>ck_ord = k, ck_text = t, ck_page_start = p, ck_page_end = p\<rparr> # number (Suc k) ts"

definition plain :: "utext list \<Rightarrow> chunk list" where
  "plain ts = number 0 (map (\<lambda>t. (t, None)) ts)"

definition chunk_text :: "utext \<Rightarrow> chunk list" where
  "chunk_text cs = (if cs = [] then [] else plain (slide chunk_window (chunk_window - chunk_overlap) cs 0))"

definition page_windows :: "int \<Rightarrow> utext \<Rightarrow> (utext \<times> int option) list" where
  "page_windows no cs =
     (if cs = [] then [] else map (\<lambda>t. (t, Some no)) (slide chunk_window (chunk_window - chunk_overlap) cs 0))"

definition chunk_pages :: "utext list \<Rightarrow> chunk list" where
  "chunk_pages pages =
     number 0 (concat (map (\<lambda>(i, cs). page_windows (int i + 1) cs) (zip [0..<length pages] pages)))"

text \<open>\<open>stitch_chunks\<close>: every chunk after the first repeats the previous one's last 100 characters.\<close>

fun stitch_chunks :: "utext list \<Rightarrow> utext" where
  "stitch_chunks [] = []"
| "stitch_chunks (c # cs) = c @ concat (map (drop chunk_overlap) cs)"

section \<open>Headings\<close>

definition is_md_heading_at :: "utext \<Rightarrow> nat \<Rightarrow> bool" where
  "is_md_heading_at cs i =
     (let hashes = length (takeWhile (\<lambda>c. c = 35) (take 6 (drop i cs))); j = i + hashes in
      if hashes = 0 \<or> length cs \<le> j then False else cs ! j \<noteq> 10 \<and> is_white (cs ! j))"

definition prose_prefixes :: "utext list" where
  "prose_prefixes = [of_str ''Chapter '', of_str ''Section '']"

definition is_prose_heading_at :: "utext \<Rightarrow> nat \<Rightarrow> bool" where
  "is_prose_heading_at cs i =
     list_ex (\<lambda>p. i + length p < length cs \<and> take (length p) (drop i cs) = p \<and> is_ascii_digit (cs ! (i + length p)))
       prose_prefixes"

definition detect_heading_boundaries :: "utext \<Rightarrow> nat list" where
  "detect_heading_boundaries cs =
     filter (\<lambda>i. (i = 0 \<or> cs ! (i - 1) = 10) \<and> (is_md_heading_at cs i \<or> is_prose_heading_at cs i)) [0..<length cs]"

text \<open>The sections between the boundaries, the preamble first.\<close>

fun sections :: "utext \<Rightarrow> nat list \<Rightarrow> utext list" where
  "sections cs [] = []"
| "sections cs (s # rest) =
     (let e = (case rest of [] \<Rightarrow> length cs | x # _ \<Rightarrow> x) in
      if e \<le> s then sections cs rest else take (e - s) (drop s cs) # sections cs rest)"

definition split_section :: "utext \<Rightarrow> utext list" where
  "split_section cs =
     (if length cs \<le> structural_cap then [cs] else slide structural_cap (structural_cap - structural_overlap) cs 0)"

definition structural_split :: "utext \<Rightarrow> nat list \<Rightarrow> chunk list" where
  "structural_split cs bs =
     plain (concat (map split_section (sections cs (if bs \<noteq> [] \<and> hd bs = 0 then bs else 0 # bs))))"

definition fallback_sliding :: "utext \<Rightarrow> chunk list" where
  "fallback_sliding cs = plain (slide 500 400 cs 0)"

definition structural_chunk :: "utext \<Rightarrow> chunk list" where
  "structural_chunk cs =
     (if cs = [] then []
      else let bs = detect_heading_boundaries cs in
        if bs = [] then fallback_sliding cs else structural_split cs bs)"

section \<open>Windows cover the text\<close>

definition overlapped :: "nat \<Rightarrow> utext list \<Rightarrow> utext" where
  "overlapped ov ts = (case ts of [] \<Rightarrow> [] | c # cs \<Rightarrow> c @ concat (map (drop ov) cs))"

lemma slide_covers:
  assumes "0 < step" "step \<le> w" "start \<le> length cs"
  shows "overlapped (w - step) (slide w step cs start) = drop start cs
    \<and> (\<forall>t \<in> set (slide w step cs start). length t \<le> w) \<and> slide w step cs start \<noteq> []
    \<and> (start + (w - step) \<le> length cs \<longrightarrow> w - step \<le> length (hd (slide w step cs start)))"
  using assms
proof (induction w step cs start rule: slide.induct)
  case (1 w step cs start)
  define stop where "stop = min (start + w) (length cs)"
  define t where "t = take (stop - start) (drop start cs)"
  have t: "length t = min w (length cs - start)" using 1(4) by (auto simp: t_def stop_def)
  show ?case
  proof (cases "stop = length cs")
    case True
    then have "slide w step cs start = [t]" by (subst slide.simps) (simp add: t_def stop_def)
    moreover have "t = drop start cs" using True by (simp add: t_def)
    ultimately show ?thesis using t by (auto simp: overlapped_def)
  next
    case False
    then have lt: "start + w < length cs" by (simp add: stop_def)
    let ?rest = "slide w step cs (start + step)"
    have s: "slide w step cs start = t # ?rest" using False 1(2) lt by (subst slide.simps) (simp add: t_def stop_def Let_def)
    have IH: "overlapped (w - step) ?rest = drop (start + step) cs" "\<forall>x \<in> set ?rest. length x \<le> w" "?rest \<noteq> []"
      "w - step \<le> length (hd ?rest)"
      using 1(1) [OF refl _ 1(2,3)] False lt 1(2) 1(3) unfolding stop_def by auto
    obtain c xs where c: "?rest = c # xs" using IH(3) by (cases ?rest) auto
    have "t @ concat (map (drop (w - step)) ?rest) = t @ drop (w - step) (c @ concat (map (drop (w - step)) xs))"
      using IH(4) by (simp add: c)
    also have "\<dots> = t @ drop (w - step) (drop (start + step) cs)" using IH(1) by (simp add: c overlapped_def)
    also have "\<dots> = t @ drop w (drop start cs)" using 1(3) by (simp add: add.commute)
    also have "\<dots> = drop start cs" using lt append_take_drop_id [of w "drop start cs"]
      by (simp add: t_def stop_def min_def del: append_take_drop_id drop_drop)
    finally show ?thesis using IH t 1(3) lt unfolding s by (auto simp: overlapped_def)
  qed
qed

lemma texts_plain [simp]: "map ck_text (plain ts) = ts"
proof -
  have "map ck_text (number k (map (\<lambda>t. (t, None)) ts)) = ts" for k by (induction ts arbitrary: k) auto
  then show ?thesis by (simp add: plain_def)
qed

lemma number_ords: "map ck_ord (number 0 us) = [0..<length (number 0 us)]"
proof -
  have "map ck_ord (number k us) = [k..<k + length (number k us)]" for k us
    by (induction k us rule: number.induct) (simp_all add: upt_conv_Cons del: upt_Suc)
  from this [of 0] show ?thesis by simp
qed

lemma plain_numbered: "map ck_ord (plain ts) = [0..<length (plain ts)]"
  unfolding plain_def by (rule number_ords)

lemma stitch_overlapped: "stitch_chunks ts = overlapped chunk_overlap ts"
  by (cases ts) (auto simp: overlapped_def)

lemma sections_cover:
  "sorted bs \<Longrightarrow> (\<forall>b \<in> set bs. b \<le> length cs) \<Longrightarrow> bs \<noteq> [] \<Longrightarrow> concat (sections cs bs) = drop (hd bs) cs"
proof (induction bs)
  case (Cons s rest)
  show ?case
  proof (cases rest)
    case Nil
    then show ?thesis by (simp add: Let_def)
  next
    case c: (Cons x xs)
    have IH: "concat (sections cs rest) = drop x cs" using Cons c by simp
    have "s \<le> x" using Cons.prems(1) c by simp
    have "take (x - s) (drop s cs) @ drop x cs = drop s cs"
      using append_take_drop_id [of "x - s" "drop s cs"] \<open>s \<le> x\<close> by (simp del: append_take_drop_id)
    with \<open>s \<le> x\<close> show ?thesis using IH by (cases "x = s") (simp_all add: c Let_def)
  qed
qed simp

text \<open>
  Stitching the chunks of a text together gives the text back, whatever its length: the old
  insights, stored as overlapping windows, are carried into the journal whole.
\<close>

theorem stitch_undoes_chunking_text: "stitch_chunks (map ck_text (chunk_text cs)) = cs"
proof (cases "cs = []")
  case True
  then show ?thesis by (simp add: chunk_text_def plain_def)
next
  case False
  then show ?thesis
    using slide_covers [of "chunk_window - chunk_overlap" chunk_window 0 cs]
    by (simp add: chunk_text_def stitch_overlapped chunk_window_def chunk_overlap_def)
qed

text \<open>
  The structural chunker keeps the whole text: its chunks are those of sections that follow
  one another without gap or overlap, a section of at most 1500 characters is one chunk, a longer
  one is covered by windows of at most 1500 characters that repeat 200; and chunks are numbered
  from 0.
\<close>

theorem structural_chunks_cover:
  assumes "detect_heading_boundaries cs \<noteq> []"
  shows "\<exists>ss. concat ss = cs \<and> map ck_text (structural_chunk cs) = concat (map split_section ss)
    \<and> (\<forall>s \<in> set ss. overlapped structural_overlap (split_section s) = s
        \<and> (\<forall>t \<in> set (split_section s). length t \<le> structural_cap))
    \<and> map ck_ord (structural_chunk cs) = [0..<length (structural_chunk cs)]"
proof -
  let ?bs = "detect_heading_boundaries cs"
  define e where "e = (if ?bs \<noteq> [] \<and> hd ?bs = 0 then ?bs else 0 # ?bs)"
  have "cs \<noteq> []" using assms by (auto simp: detect_heading_boundaries_def)
  have b: "sorted ?bs" "\<forall>b \<in> set ?bs. b \<le> length cs"
    by (auto simp: detect_heading_boundaries_def intro: sorted_wrt_filter)
  then have "concat (sections cs e) = drop (hd e) cs" unfolding e_def by (intro sections_cover) auto
  moreover have "hd e = 0" by (simp add: e_def)
  ultimately have "concat (sections cs e) = cs" by simp
  moreover have ch: "structural_chunk cs = plain (concat (map split_section (sections cs e)))"
    using assms \<open>cs \<noteq> []\<close> by (simp add: structural_chunk_def structural_split_def Let_def e_def)
  moreover have "overlapped structural_overlap (split_section s) = s \<and> (\<forall>t \<in> set (split_section s). length t \<le> structural_cap)" for s
    using slide_covers [of "structural_cap - structural_overlap" structural_cap 0 s]
    by (simp add: split_section_def overlapped_def structural_cap_def structural_overlap_def)
  moreover have "map ck_ord (structural_chunk cs) = [0..<length (structural_chunk cs)]"
    unfolding ch by (rule plain_numbered)
  ultimately show ?thesis using texts_plain by metis
qed

text \<open>
  Where a text has no heading, the structural chunker is the plain chunker of \<open>ingest.rs\<close>,
  chunk for chunk.
\<close>

theorem structural_falls_back: "detect_heading_boundaries cs = [] \<Longrightarrow> structural_chunk cs = chunk_text cs"
  by (simp add: structural_chunk_def chunk_text_def fallback_sliding_def chunk_window_def chunk_overlap_def)

lemma heading_sample: "detect_heading_boundaries (of_str ''# A'') = [0]"
  by (simp add: detect_heading_boundaries_def of_str_def is_md_heading_at_def is_prose_heading_at_def prose_prefixes_def
      is_white_def upt_rec)

lemma structural_chunks_cover_witness: "\<exists>ss. concat ss = of_str ''# A''
    \<and> map ck_text (structural_chunk (of_str ''# A'')) = concat (map split_section ss)"
  using structural_chunks_cover [of "of_str ''# A''"] heading_sample by auto

lemma plain_sample: "detect_heading_boundaries (of_str ''ab'') = []"
  by (simp add: detect_heading_boundaries_def of_str_def is_md_heading_at_def is_prose_heading_at_def prose_prefixes_def
      is_white_def upt_rec)

lemma structural_falls_back_witness: "structural_chunk (of_str ''ab'') = chunk_text (of_str ''ab'')"
  using structural_falls_back [OF plain_sample] .

end
