(* ===== verification/Utf8.thy ===== *)
theory Utf8
  imports Prelude
begin

text \<open>
  Bytes to text: what the readers of \<open>text.rs\<close> and \<open>input.rs\<close> accept. A byte is a number below
  256, a text its code points. UTF-8 and UTF-16 are written out as the standard library decodes
  them: the shortest form only, no surrogate, nothing above U+10FFFF.

  What is proved: UTF-8 and UTF-16 read back what was written, and \<open>input::decode\<close> gives the same
  text whichever of the shells' encodings it arrived in.
\<close>

section \<open>UTF-8\<close>

definition is_scalar :: "nat \<Rightarrow> bool" where
  "is_scalar c \<longleftrightarrow> c < 55296 \<or> 57344 \<le> c \<and> c \<le> 1114111"

definition cont_byte :: "nat \<Rightarrow> bool" where
  "cont_byte b \<longleftrightarrow> 128 \<le> b \<and> b < 192"

text \<open>\<open>String::from_utf8\<close>: the code point of each sequence, refused when it is not the shortest form of a scalar value.\<close>

fun utf8_decode :: "nat list \<Rightarrow> utext option" where
  "utf8_decode [] = Some []"
| "utf8_decode (a # bs) =
     (if a < 128 then map_option ((#) a) (utf8_decode bs)
      else if 192 \<le> a \<and> a < 224 then
        (case bs of b # r \<Rightarrow>
           (let c = (a - 192) * 64 + (b - 128) in
            if cont_byte b \<and> 128 \<le> c then map_option ((#) c) (utf8_decode r) else None)
         | _ \<Rightarrow> None)
      else if 224 \<le> a \<and> a < 240 then
        (case bs of b # d # r \<Rightarrow>
           (let c = (a - 224) * 4096 + (b - 128) * 64 + (d - 128) in
            if cont_byte b \<and> cont_byte d \<and> 2048 \<le> c \<and> is_scalar c then map_option ((#) c) (utf8_decode r) else None)
         | _ \<Rightarrow> None)
      else if 240 \<le> a \<and> a < 248 then
        (case bs of b # d # e # r \<Rightarrow>
           (let c = (a - 240) * 262144 + (b - 128) * 4096 + (d - 128) * 64 + (e - 128) in
            if cont_byte b \<and> cont_byte d \<and> cont_byte e \<and> 65536 \<le> c \<and> is_scalar c
            then map_option ((#) c) (utf8_decode r) else None)
         | _ \<Rightarrow> None)
      else None)"

definition utf8_char :: "nat \<Rightarrow> nat list" where
  "utf8_char c =
     (if c < 128 then [c]
      else if c < 2048 then [192 + c div 64, 128 + c mod 64]
      else if c < 65536 then [224 + c div 4096, 128 + c div 64 mod 64, 128 + c mod 64]
      else [240 + c div 262144, 128 + c div 4096 mod 64, 128 + c div 64 mod 64, 128 + c mod 64])"

definition utf8_encode :: "utext \<Rightarrow> nat list" where
  "utf8_encode t = concat (map utf8_char t)"

declare utf8_decode.simps(2) [simp del]

lemma digits64:
  "(c div 64) * 64 + c mod 64 = (c::nat)"
  "(c div 4096) * 4096 + (c div 64 mod 64) * 64 + c mod 64 = c"
  "(c div 262144) * 262144 + (c div 4096 mod 64) * 4096 + (c div 64 mod 64) * 64 + c mod 64 = c"
proof -
  have d: "c div 4096 = c div 64 div 64" "c div 262144 = c div 64 div 64 div 64"
    by (simp_all flip: div_mult2_eq)
  show "(c div 64) * 64 + c mod 64 = c" by (rule div_mult_mod_eq)
  then show "(c div 4096) * 4096 + (c div 64 mod 64) * 64 + c mod 64 = c"
    "(c div 262144) * 262144 + (c div 4096 mod 64) * 4096 + (c div 64 mod 64) * 64 + c mod 64 = c"
    using div_mult_mod_eq [of "c div 64" 64] div_mult_mod_eq [of "c div 64 div 64" 64]
    unfolding d by linarith+
qed

lemma utf8_decode_char:
  assumes "is_scalar c"
  shows "utf8_decode (utf8_char c @ bs) = map_option ((#) c) (utf8_decode bs)"
proof -
  consider "c < 128" | "128 \<le> c" "c < 2048" | "2048 \<le> c" "c < 65536" | "65536 \<le> c" by linarith
  then show ?thesis
  proof cases
    case 1
    then show ?thesis by (simp add: utf8_char_def utf8_decode.simps(2))
  next
    case 2
    then have "c div 64 < 32" by (intro less_mult_imp_div_less) simp
    note this [simp]
    from 2 show ?thesis using digits64(1) [of c]
      by (simp add: utf8_char_def utf8_decode.simps(2) cont_byte_def Let_def)
  next
    case 3
    then have "224 + c div 4096 < 240" by simp
    with 3 show ?thesis using digits64(2) [of c] assms
      by (simp add: utf8_char_def utf8_decode.simps(2) cont_byte_def Let_def)
  next
    case 4
    then have "240 + c div 262144 < 248" using assms by (auto simp: is_scalar_def)
    with 4 show ?thesis using digits64(3) [of c] assms
      by (simp add: utf8_char_def utf8_decode.simps(2) cont_byte_def Let_def)
  qed
qed

lemma utf8_decode_encode: "list_all is_scalar t \<Longrightarrow> utf8_decode (utf8_encode t) = Some t"
  by (induction t) (simp_all add: utf8_encode_def utf8_decode_char)

text \<open>
  \<open>String::from_utf8_lossy\<close>: what is not UTF-8 becomes U+FFFD, one for each longest start of a
  sequence that could have gone on.
\<close>

definition second_ok :: "nat \<Rightarrow> nat \<Rightarrow> bool" where
  "second_ok a b \<longleftrightarrow> cont_byte b \<and> (a = 224 \<longrightarrow> 160 \<le> b) \<and> (a = 237 \<longrightarrow> b < 160)
     \<and> (a = 240 \<longrightarrow> 144 \<le> b) \<and> (a = 244 \<longrightarrow> b < 144)"

fun utf8_lossy :: "nat list \<Rightarrow> utext" where
  "utf8_lossy [] = []"
| "utf8_lossy (a # bs) =
     (if a < 128 then a # utf8_lossy bs
      else if 194 \<le> a \<and> a < 224 then
        (case bs of [] \<Rightarrow> [65533]
         | b # r \<Rightarrow> if cont_byte b then ((a - 192) * 64 + (b - 128)) # utf8_lossy r else 65533 # utf8_lossy bs)
      else if 224 \<le> a \<and> a < 240 then
        (case bs of [] \<Rightarrow> [65533]
         | b # r \<Rightarrow>
           if \<not> second_ok a b then 65533 # utf8_lossy bs
           else case r of [] \<Rightarrow> [65533]
           | d # r2 \<Rightarrow>
             if cont_byte d then ((a - 224) * 4096 + (b - 128) * 64 + (d - 128)) # utf8_lossy r2
             else 65533 # utf8_lossy r)
      else if 240 \<le> a \<and> a < 245 then
        (case bs of [] \<Rightarrow> [65533]
         | b # r \<Rightarrow>
           if \<not> second_ok a b then 65533 # utf8_lossy bs
           else case r of [] \<Rightarrow> [65533]
           | d # r2 \<Rightarrow>
             if \<not> cont_byte d then 65533 # utf8_lossy r
             else case r2 of [] \<Rightarrow> [65533]
             | e # r3 \<Rightarrow>
               if cont_byte e then ((a - 240) * 262144 + (b - 128) * 4096 + (d - 128) * 64 + (e - 128)) # utf8_lossy r3
               else 65533 # utf8_lossy r2)
      else 65533 # utf8_lossy bs)"

declare utf8_lossy.simps(2) [simp del]

lemma lossy_char:
  assumes "is_scalar c"
  shows "utf8_lossy (utf8_char c @ bs) = c # utf8_lossy bs"
proof -
  consider "c < 128" | "128 \<le> c" "c < 2048" | "2048 \<le> c" "c < 65536" | "65536 \<le> c" "c < 1114112"
    using assms by (fastforce simp: is_scalar_def)
  then show ?thesis
  proof cases
    case 1
    then show ?thesis by (simp add: utf8_char_def utf8_lossy.simps(2))
  next
    case 2
    define x y where xy: "x = c div 64" "y = c mod 64"
    then have "2 \<le> x" "x < 32" "y < 64" "x * 64 + y = c"
      using 2 by (simp_all add: div_less_iff_less_mult less_eq_div_iff_mult_less_eq)
    then show ?thesis using 2 by (simp add: utf8_char_def utf8_lossy.simps(2) cont_byte_def xy [symmetric])
  next
    case 3
    define x y z where xy: "x = c div 4096" "y = c div 64 mod 64" "z = c mod 64"
    have c: "x * 4096 + y * 64 + z = c" using digits64(2) [of c] by (simp add: xy)
    have l: "y < 64" "z < 64" "x < 16" using 3 by (simp_all add: xy div_less_iff_less_mult)
    have "x = 0 \<longrightarrow> 32 \<le> y" using 3 c l by linarith
    moreover have "x = 13 \<longrightarrow> y < 32" using assms c l unfolding is_scalar_def by linarith
    ultimately have "second_ok (224 + x) (128 + y)" using l by (simp add: second_ok_def cont_byte_def)
    then show ?thesis using 3 l c by (simp add: utf8_char_def utf8_lossy.simps(2) cont_byte_def xy [symmetric])
  next
    case 4
    define x y z u where xy: "x = c div 262144" "y = c div 4096 mod 64" "z = c div 64 mod 64" "u = c mod 64"
    have c: "x * 262144 + y * 4096 + z * 64 + u = c" using digits64(3) [of c] by (simp add: xy)
    have l: "y < 64" "z < 64" "u < 64" "x < 5" using 4 by (simp_all add: xy div_less_iff_less_mult)
    have "x = 0 \<longrightarrow> 16 \<le> y" using 4 c l by linarith
    moreover have "x = 4 \<longrightarrow> y < 16" using 4 c l by linarith
    ultimately have "second_ok (240 + x) (128 + y)" using l by (simp add: second_ok_def cont_byte_def)
    then show ?thesis using 4 l c by (simp add: utf8_char_def utf8_lossy.simps(2) cont_byte_def xy [symmetric])
  qed
qed

lemma lossy_encode: "list_all is_scalar t \<Longrightarrow> utf8_lossy (utf8_encode t) = t"
  by (induction t) (simp_all add: utf8_encode_def lossy_char)

lemma scalar3:
  assumes "224 \<le> a" "a < 240" "second_ok a b" "cont_byte d"
  shows "is_scalar ((a - 224) * 4096 + (b - 128) * 64 + (d - 128))"
proof -
  obtain x y z where x: "a = 224 + x" "b = 128 + y" "d = 128 + z" "x < 16" "y < 64" "z < 64"
    using assms by (auto simp: second_ok_def cont_byte_def le_iff_add)
  have "x = 13 \<longrightarrow> y < 32" using assms(3) x by (auto simp: second_ok_def)
  moreover have "x * 4096 + y * 64 + z < 65536" using x(4-6) by linarith
  moreover have "x * 4096 + y * 64 + z < 55296 \<or> 57344 \<le> x * 4096 + y * 64 + z"
  proof (cases "x < 13")
    case True
    then show ?thesis using x(5,6) by linarith
  next
    case False
    then show ?thesis using x(5,6) \<open>x = 13 \<longrightarrow> y < 32\<close> by (cases "x = 13") linarith+
  qed
  ultimately have "x * 4096 + y * 64 + z < 55296 \<or> 57344 \<le> x * 4096 + y * 64 + z" "x * 4096 + y * 64 + z < 65536" by auto
  then show ?thesis using x(1-3) by (auto simp: is_scalar_def)
qed

lemma scalar4:
  assumes "240 \<le> a" "a < 245" "second_ok a b" "cont_byte d" "cont_byte e"
  shows "is_scalar ((a - 240) * 262144 + (b - 128) * 4096 + (d - 128) * 64 + (e - 128))"
proof -
  obtain x y z u where x: "a = 240 + x" "b = 128 + y" "d = 128 + z" "e = 128 + u" "x < 5" "y < 64" "z < 64" "u < 64"
    using assms by (auto simp: second_ok_def cont_byte_def le_iff_add)
  have "x = 4 \<longrightarrow> y < 16" "x = 0 \<longrightarrow> 16 \<le> y" using assms(3) x by (auto simp: second_ok_def)
  then have "65536 \<le> x * 262144 + y * 4096 + z * 64 + u \<and> x * 262144 + y * 4096 + z * 64 + u < 1114112"
    using x(5-8) by (cases "x = 0"; cases "x = 4") linarith+
  then show ?thesis using x(1-4) by (auto simp: is_scalar_def)
qed

lemma scalar2: "194 \<le> a \<Longrightarrow> a < 224 \<Longrightarrow> cont_byte b \<Longrightarrow> is_scalar ((a - 192) * 64 + (b - 128))"
  by (auto simp: is_scalar_def cont_byte_def)

lemma lossy_scalar: "list_all is_scalar (utf8_lossy bs)"
proof (induction bs rule: utf8_lossy.induct)
  case (2 a bs)
  have r: "is_scalar 65533" and s: "a < 128 \<Longrightarrow> is_scalar a" by (simp_all add: is_scalar_def)
  show ?case
    using 2 r s scalar2 [of a] scalar3 [of a] scalar4 [of a]
    unfolding utf8_lossy.simps(2) [of a bs] by (simp split: list.splits)
qed simp

section \<open>Text and its bytes\<close>

text \<open>JSON text is valid UTF-8; the registry and the wire hold its bytes.\<close>

definition text_of :: "string \<Rightarrow> utext" where
  "text_of s = (case utf8_decode (of_str s) of Some t \<Rightarrow> t | None \<Rightarrow> [])"

definition bytes_of :: "utext \<Rightarrow> string" where
  "bytes_of t = map char_of (utf8_encode t)"

lemma utf8_char_bytes: "is_scalar c \<Longrightarrow> b \<in> set (utf8_char c) \<Longrightarrow> b < 256"
proof -
  assume c: "is_scalar c" and b: "b \<in> set (utf8_char c)"
  have "c div 64 < 32" if "c < 2048" using that by (simp add: div_less_iff_less_mult)
  moreover have "c div 4096 < 16" if "c < 65536" using that by (simp add: div_less_iff_less_mult)
  moreover have "c div 262144 < 5" using c by (auto simp: is_scalar_def div_less_iff_less_mult)
  moreover have "x mod 64 < 64" for x :: nat by simp
  then have "128 + x mod 64 < 256" for x :: nat by (simp add: add.commute less_imp_le_nat order_less_le_trans [of _ 64])
  ultimately show ?thesis using b by (auto simp: utf8_char_def split: if_splits)
qed

lemma of_str_bytes: "list_all is_scalar t \<Longrightarrow> of_str (bytes_of t) = utf8_encode t"
proof -
  assume t: "list_all is_scalar t"
  have "b < 256" if "b \<in> set (utf8_encode t)" for b using that t utf8_char_bytes by (auto simp: utf8_encode_def list_all_iff)
  then show ?thesis by (simp add: bytes_of_def of_str_def map_idI)
qed

lemma text_bytes: "list_all is_scalar t \<Longrightarrow> text_of (bytes_of t) = t"
proof -
  assume t: "list_all is_scalar t"
  then have "of_str (bytes_of t) = utf8_encode t" by (rule of_str_bytes)
  then show ?thesis using utf8_decode_encode [OF t] by (simp add: text_of_def)
qed

lemma lossy_bytes: "list_all is_scalar t \<Longrightarrow> utf8_lossy (of_str (bytes_of t)) = t"
  by (simp add: of_str_bytes lossy_encode)

lemma bytes_of_ascii: "\<forall>c \<in> set s. (of_char c :: nat) < 128 \<Longrightarrow> bytes_of (of_str s) = s"
  by (induction s) (simp_all add: bytes_of_def utf8_encode_def utf8_char_def of_str_def)

section \<open>UTF-16\<close>

text \<open>\<open>String::from_utf16\<close> on code units.\<close>

fun utf16_decode :: "nat list \<Rightarrow> utext option" where
  "utf16_decode [] = Some []"
| "utf16_decode (u # us) =
     (if u < 55296 \<or> 57344 \<le> u then map_option ((#) u) (utf16_decode us)
      else if 56320 \<le> u then None
      else case us of v # r \<Rightarrow>
             if 56320 \<le> v \<and> v < 57344
             then map_option ((#) (65536 + (u - 55296) * 1024 + (v - 56320))) (utf16_decode r) else None
           | [] \<Rightarrow> None)"

definition utf16_char :: "nat \<Rightarrow> nat list" where
  "utf16_char c = (if c < 65536 then [c] else [55296 + (c - 65536) div 1024, 56320 + (c - 65536) mod 1024])"

definition utf16_encode :: "utext \<Rightarrow> nat list" where
  "utf16_encode t = concat (map utf16_char t)"

declare utf16_decode.simps(2) [simp del]

lemma utf16_decode_char:
  assumes "is_scalar c"
  shows "utf16_decode (utf16_char c @ us) = map_option ((#) c) (utf16_decode us)"
proof (cases "c < 65536")
  case True
  then show ?thesis using assms by (auto simp: utf16_char_def utf16_decode.simps(2) is_scalar_def)
next
  case False
  define d where "d = c - 65536"
  then have d: "d < 1048576" "c = 65536 + d" using False assms by (auto simp: is_scalar_def)
  then have "d div 1024 < 1024" by simp
  moreover have "65536 + d div 1024 * 1024 + d mod 1024 = c" using d by simp
  ultimately show ?thesis using False
    by (simp add: utf16_char_def utf16_decode.simps(2) d_def [symmetric])
qed

lemma utf16_decode_encode: "list_all is_scalar t \<Longrightarrow> utf16_decode (utf16_encode t) = Some t"
  by (induction t) (simp_all add: utf16_encode_def utf16_decode_char)

text \<open>Code units as bytes, low byte first or high byte first, and back (\<open>from_le_bytes\<close>, \<open>from_be_bytes\<close>).\<close>

definition le_bytes :: "nat list \<Rightarrow> nat list" where
  "le_bytes us = concat (map (\<lambda>u. [u mod 256, u div 256]) us)"

definition be_bytes :: "nat list \<Rightarrow> nat list" where
  "be_bytes us = concat (map (\<lambda>u. [u div 256, u mod 256]) us)"

definition from_le_bytes :: "nat \<Rightarrow> nat \<Rightarrow> nat" where "from_le_bytes a b = a + 256 * b"
definition from_be_bytes :: "nat \<Rightarrow> nat \<Rightarrow> nat" where "from_be_bytes a b = 256 * a + b"

section \<open>Piped text\<close>

datatype input_error = Bad_Utf8 | Bad_Utf8_Or_16 | Odd_Utf16 | Bad_Utf16

fun units :: "(nat \<Rightarrow> nat \<Rightarrow> nat) \<Rightarrow> nat list \<Rightarrow> nat list" where
  "units word (a # b # bs) = word a b # units word bs"
| "units word _ = []"

definition utf16_text :: "nat list \<Rightarrow> (nat \<Rightarrow> nat \<Rightarrow> nat) \<Rightarrow> input_error + utext" where
  "utf16_text bytes word =
     (if length bytes mod 2 \<noteq> 0 then Inl Odd_Utf16
      else case utf16_decode (units word bytes) of Some t \<Rightarrow> Inr t | None \<Rightarrow> Inl Bad_Utf16)"

definition utf8_text :: "input_error \<Rightarrow> nat list \<Rightarrow> input_error + utext" where
  "utf8_text e bytes = (case utf8_decode bytes of Some t \<Rightarrow> Inr t | None \<Rightarrow> Inl e)"

definition strip_bom :: "utext \<Rightarrow> utext" where
  "strip_bom s = (case strip_prefix [65279] s of Some r \<Rightarrow> r | None \<Rightarrow> s)"

definition decode_bytes :: "nat list \<Rightarrow> input_error + utext" where
  "decode_bytes bytes =
     map_sum id strip_bom
       (if take 3 bytes = [239, 187, 191] then utf8_text Bad_Utf8 (drop 3 bytes)
        else if take 2 bytes = [255, 254] then utf16_text (drop 2 bytes) from_le_bytes
        else if take 2 bytes = [254, 255] then utf16_text (drop 2 bytes) from_be_bytes
        else if 2 \<le> length bytes \<and> bytes ! 1 = 0 \<and> bytes ! 0 \<noteq> 0 then utf16_text bytes from_le_bytes
        else utf8_text Bad_Utf8_Or_16 bytes)"

lemma units_le [simp]: "units from_le_bytes (le_bytes us) = us"
  by (induction us) (simp_all add: le_bytes_def from_le_bytes_def)

lemma units_be [simp]: "units from_be_bytes (be_bytes us) = us"
  by (induction us) (simp_all add: be_bytes_def from_be_bytes_def)

lemma length_le_bytes [simp]: "length (le_bytes us) = 2 * length us"
  by (induction us) (simp_all add: le_bytes_def)

lemma length_be_bytes [simp]: "length (be_bytes us) = 2 * length us"
  by (induction us) (simp_all add: be_bytes_def)

lemma utf16_text_le: "list_all is_scalar t \<Longrightarrow> utf16_text (le_bytes (utf16_encode t)) from_le_bytes = Inr t"
  by (simp add: utf16_text_def utf16_decode_encode)

lemma utf16_text_be: "list_all is_scalar t \<Longrightarrow> utf16_text (be_bytes (utf16_encode t)) from_be_bytes = Inr t"
  by (simp add: utf16_text_def utf16_decode_encode)

lemma utf8_text_encode: "list_all is_scalar t \<Longrightarrow> utf8_text e (utf8_encode t) = Inr t"
  by (simp add: utf8_text_def utf8_decode_encode)

text \<open>No UTF-8 sequence starts with the bytes of a UTF-16 mark; a second byte of zero needs a NUL character.\<close>

lemma utf8_first:
  assumes "list_all is_scalar t" "t \<noteq> []" "hd t \<noteq> 65279" "0 \<notin> set t"
  shows "take 3 (utf8_encode t) \<noteq> [239, 187, 191]" "take 2 (utf8_encode t) \<noteq> [255, 254]"
    "take 2 (utf8_encode t) \<noteq> [254, 255]" "2 \<le> length (utf8_encode t) \<longrightarrow> utf8_encode t ! 1 \<noteq> 0"
proof -
  obtain c r where t: "t = c # r" using assms(2) by (cases t) auto
  have c: "is_scalar c" "c \<noteq> 65279" "c \<noteq> 0" "0 \<notin> set r" using assms by (auto simp: t)
  have e: "utf8_encode t = utf8_char c @ utf8_encode r" by (simp add: t utf8_encode_def)
  have b: "hd (utf8_encode t) < 248" "hd (utf8_encode t) \<noteq> 239 \<or> c div 4096 = 15"
    using c(1) unfolding e by (auto simp: utf8_char_def is_scalar_def split: if_splits)
  show "take 2 (utf8_encode t) \<noteq> [255, 254]" "take 2 (utf8_encode t) \<noteq> [254, 255]"
    using b(1) by (cases "utf8_encode t"; auto)+
  show "take 3 (utf8_encode t) \<noteq> [239, 187, 191]"
  proof
    assume a: "take 3 (utf8_encode t) = [239, 187, 191]"
    then have "utf8_decode (utf8_encode t) = utf8_decode (utf8_char 65279 @ drop 3 (utf8_encode t))"
      using append_take_drop_id [of 3 "utf8_encode t"] by (simp add: utf8_char_def)
    then show False using utf8_decode_char [of 65279] utf8_decode_encode [OF assms(1)] c(2)
      by (auto simp: is_scalar_def t)
  qed
  show "2 \<le> length (utf8_encode t) \<longrightarrow> utf8_encode t ! 1 \<noteq> 0"
  proof (cases "c < 128")
    case True
    then have "utf8_encode t = c # utf8_encode r" using e by (simp add: utf8_char_def)
    moreover have "hd (utf8_encode r) \<noteq> 0" if "utf8_encode r \<noteq> []"
      using that c(4) by (cases r) (auto simp: utf8_encode_def utf8_char_def)
    ultimately show ?thesis by (cases "utf8_encode r") auto
  next
    case False
    then show ?thesis unfolding e by (auto simp: utf8_char_def)
  qed
qed

text \<open>
  Whatever encoding a shell piped a text in, the command reads the same text: UTF-8 with or
  without a byte-order mark, UTF-16 of either byte order with one, and UTF-16 without one where
  the text starts with an ASCII character. A text holds no NUL and does not itself start with a
  byte-order mark.
\<close>

theorem piped_text_comes_out_the_same:
  assumes "list_all is_scalar t" "0 \<notin> set t" "t \<noteq> []" "hd t \<noteq> 65279"
  shows "decode_bytes (utf8_encode t) = Inr t \<and> decode_bytes ([239, 187, 191] @ utf8_encode t) = Inr t
    \<and> decode_bytes ([255, 254] @ le_bytes (utf16_encode t)) = Inr t
    \<and> decode_bytes ([254, 255] @ be_bytes (utf16_encode t)) = Inr t
    \<and> (hd t < 128 \<longrightarrow> decode_bytes (le_bytes (utf16_encode t)) = Inr t)"
proof -
  have s: "strip_bom t = t" using assms(3,4) by (cases t) (auto simp: strip_bom_def strip_prefix_def)
  note first = utf8_first [OF assms(1,3,4,2)]
  have "decode_bytes (utf8_encode t) = Inr t"
    using first s utf8_text_encode [OF assms(1)] by (auto simp: decode_bytes_def)
  moreover have "decode_bytes ([239, 187, 191] @ utf8_encode t) = Inr t"
    "decode_bytes ([255, 254] @ le_bytes (utf16_encode t)) = Inr t"
    "decode_bytes ([254, 255] @ be_bytes (utf16_encode t)) = Inr t"
    using s utf8_text_encode [OF assms(1)] utf16_text_le [OF assms(1)] utf16_text_be [OF assms(1)]
    by (simp_all add: decode_bytes_def)
  moreover have "decode_bytes (le_bytes (utf16_encode t)) = Inr t" if "hd t < 128"
  proof -
    obtain c r where "t = c # r" using assms(3) by (cases t) auto
    with assms(2) that have t: "t = c # r" "c < 128" "c \<noteq> 0" by auto
    then have "le_bytes (utf16_encode t) = c # 0 # le_bytes (utf16_encode r)"
      by (simp add: utf16_encode_def utf16_char_def le_bytes_def)
    then show ?thesis using t s utf16_text_le [OF assms(1)] by (simp add: decode_bytes_def)
  qed
  ultimately show ?thesis by blast
qed

lemma piped_text_comes_out_the_same_witness:
  "decode_bytes ([255, 254] @ le_bytes (utf16_encode [123, 10003, 128512, 125])) = Inr [123, 10003, 128512, 125]
   \<and> decode_bytes (le_bytes (utf16_encode [123, 10003, 128512, 125])) = Inr [123, 10003, 128512, 125]"
  using piped_text_comes_out_the_same [of "[123, 10003, 128512, 125]"] by (simp add: is_scalar_def)

end
