(* ===== verification/JournalFiles.thy ===== *)
theory JournalFiles
  imports JournalRead MindmapTrees Chunker Utf8 "HOL-Library.AList"
begin

text \<open>
  The journals the daemon holds (\<open>journal.rs\<close>): what a project's journal is filed under, opening
  one, filing a directory's journal under its repository, merging, copying and retiring journals,
  the old insights brought in once, the list of all journals, and the vectors computed afterwards.

  A journal file is a record under its file name: the project it belongs to, its tables and its
  vectors. Paths are the text the code stores, Unix ones; the directory and its permissions, the
  write-ahead log and failures of the disk are left out.
\<close>

section \<open>Paths\<close>

text \<open>A path from its end, without separators and current-directory parts there.\<close>

fun strip_back :: "utext \<Rightarrow> utext" where
  "strip_back [] = []"
| "strip_back [c] = [c]"
| "strip_back (c # d # cs) =
     (if c = 47 then strip_back (d # cs) else if c = 46 \<and> d = 47 then strip_back (d # cs) else c # d # cs)"

definition parent_dir :: "utext \<Rightarrow> utext option" where
  "parent_dir p =
     (let r = strip_back (rev p) in
      if r = [] \<or> r = [47] then None else Some (rev (strip_back (dropWhile (\<lambda>c. c \<noteq> 47) r))))"

definition last_name :: "utext \<Rightarrow> utext option" where
  "last_name p =
     (let n = rev (takeWhile (\<lambda>c. c \<noteq> 47) (strip_back (rev p))) in
      if n \<in> {[], [46], [46, 46]} then None else Some n)"

definition absolute_path :: "utext \<Rightarrow> bool" where
  "absolute_path p \<longleftrightarrow> take 1 p = [47]"

definition path_comps :: "utext \<Rightarrow> utext list" where
  "path_comps p = filter (\<lambda>x. x \<noteq> [] \<and> x \<noteq> [46]) (split_by (\<lambda>c. c = 47) p)"

text \<open>Two paths are equal when their components are.\<close>

definition same_path :: "utext \<Rightarrow> utext \<Rightarrow> bool" where
  "same_path a b \<longleftrightarrow> absolute_path a = absolute_path b
     \<and> (hd (split_by (\<lambda>c. c = 47) a) = [46]) = (hd (split_by (\<lambda>c. c = 47) b) = [46]) \<and> path_comps a = path_comps b"

lemma strip_back_le: "length (strip_back r) \<le> length r"
  by (induction r rule: strip_back.induct) auto

lemma strip_back_hd: "strip_back r = c # cs \<Longrightarrow> c = 47 \<Longrightarrow> cs = []"
  by (induction r rule: strip_back.induct) (auto split: if_splits)

lemma parent_dir_less: "parent_dir p = Some q \<Longrightarrow> length q < length p"
proof -
  assume a: "parent_dir p = Some q"
  define r where "r = strip_back (rev p)"
  have q: "q = rev (strip_back (dropWhile (\<lambda>c. c \<noteq> 47) r))" and r: "r \<noteq> []" "r \<noteq> [47]"
    using a by (auto simp: parent_dir_def Let_def r_def split: if_splits)
  obtain c cs where cs: "r = c # cs" using r by (cases r) auto
  with r have "c \<noteq> 47" using strip_back_hd [of "rev p" c cs] by (auto simp: r_def)
  then have "length (dropWhile (\<lambda>c. c \<noteq> 47) r) \<le> length cs" by (simp add: cs length_dropWhile_le)
  also have "\<dots> < length r" by (simp add: cs)
  also have "\<dots> \<le> length p" using strip_back_le [of "rev p"] by (simp add: r_def)
  finally show ?thesis unfolding q using strip_back_le [of "dropWhile (\<lambda>c. c \<noteq> 47) r"] by simp
qed

function ancestors :: "utext \<Rightarrow> utext list" where
  "ancestors p = p # (case parent_dir p of None \<Rightarrow> [] | Some q \<Rightarrow> ancestors q)"
  by pat_completeness auto
termination by (relation "measure length") (auto dest: parent_dir_less)

declare ancestors.simps [simp del]

section \<open>Files\<close>

record 'v jfile =
  jl_project :: utext
  jl_db :: mm_db
  jl_vecs :: "(int \<times> 'v) list"
  jl_insights :: bool
  jl_links_parsed :: bool

definition jl_journal :: "'v jfile \<Rightarrow> journal" where
  "jl_journal f = mm_journal (jl_db f)"

definition set_journal :: "journal \<Rightarrow> 'v jfile \<Rightarrow> 'v jfile" where
  "set_journal j f = f\<lparr>jl_db := (jl_db f)\<lparr>mm_journal := j\<rparr>\<rparr>"

text \<open>The files of the directory by name; the ones moved aside are no longer read.\<close>

record 'v store =
  st_files :: "(utext \<times> 'v jfile) list"
  st_aside :: "(utext \<times> 'v jfile) list"

definition file_at :: "utext \<Rightarrow> 'v store \<Rightarrow> 'v jfile option" where
  "file_at n s = map_of (st_files s) n"

definition put_file :: "utext \<Rightarrow> 'v jfile \<Rightarrow> 'v store \<Rightarrow> 'v store" where
  "put_file n f s = s\<lparr>st_files := AList.update n f (st_files s)\<rparr>"

definition drop_file :: "utext \<Rightarrow> 'v store \<Rightarrow> 'v store" where
  "drop_file n s = s\<lparr>st_files := AList.delete n (st_files s)\<rparr>"

lemma file_at_put [simp]: "file_at n (put_file k f s) = (if n = k then Some f else file_at n s)"
  by (simp add: file_at_def put_file_def update_conv')

lemma file_at_drop [simp]: "file_at n (drop_file k s) = (if n = k then None else file_at n s)"
  by (simp add: file_at_def drop_file_def delete_conv')

interpretation journals: row_store "\<lambda>_. True" "\<lambda>s n. file_at n s" put_file drop_file "\<lambda>_ _. True"
  by unfold_locales auto

definition safe_char :: "nat \<Rightarrow> nat" where
  "safe_char c = (if is_ascii_alnum c \<or> c \<in> {46, 95, 45} then c else 45)"

definition journal_file_name :: "text_env \<Rightarrow> utext \<Rightarrow> utext" where
  "journal_file_name env project =
     (let name = take 40 (map safe_char (case last_name project of None \<Rightarrow> [] | Some n \<Rightarrow> n));
          shown = (if trim_matches (\<lambda>c. c = 46 \<or> c = 45) name = [] then of_str ''root'' else name)
      in shown @ [45] @ of_str (take 12 (sha env project)) @ of_str ''.db'')"

definition project_key :: "utext option \<Rightarrow> utext \<Rightarrow> utext" where
  "project_key project_id path =
     (case project_id of
        Some i \<Rightarrow> if i \<noteq> [] \<and> take 6 i \<noteq> of_str ''local:'' then of_str ''git:'' @ i else path
      | None \<Rightarrow> path)"

text \<open>Opening brings the links of an older journal in, once.\<close>

definition backfill_links :: "text_env \<Rightarrow> 'v jfile \<Rightarrow> 'v jfile" where
  "backfill_links env f =
     (if jl_links_parsed f then f
      else (set_journal (fold (\<lambda>r. insert_links env (je_id r) (je_body r)) (entries (jl_journal f)) (jl_journal f)) f)
             \<lparr>jl_links_parsed := True\<rparr>)"

definition new_file :: "utext \<Rightarrow> 'v jfile" where
  "new_file project = \<lparr>jl_project = project, jl_db = empty_mm empty_journal, jl_vecs = [], jl_insights = False, jl_links_parsed = True\<rparr>"

datatype jfile_error = BelongsTo utext utext | HasJournal utext

definition open_journal :: "text_env \<Rightarrow> utext \<Rightarrow> bool \<Rightarrow> 'v store \<Rightarrow> (jfile_error + 'v jfile option) \<times> 'v store" where
  "open_journal env project crt s =
     (let n = journal_file_name env project in
      case file_at n s of
        None \<Rightarrow> if crt then (Inr (Some (new_file project)), put_file n (new_file project) s) else (Inr None, s)
      | Some f \<Rightarrow>
          let f' = backfill_links env f in
          (if jl_project f \<noteq> project then Inl (BelongsTo (jl_project f) project) else Inr (Some f'), put_file n f' s))"

definition adopt_path_journal :: "text_env \<Rightarrow> utext \<Rightarrow> utext \<Rightarrow> 'v store \<Rightarrow> 'v store \<times> bool" where
  "adopt_path_journal env key path s =
     (let from = journal_file_name env path; to = journal_file_name env key in
      if same_path key path \<or> file_at to s \<noteq> None then (s, False)
      else case file_at from s of None \<Rightarrow> (s, False)
      | Some f \<Rightarrow>
          let f' = backfill_links env f in
          if jl_project f \<noteq> path then (put_file from f' s, False)
          else (put_file to (f'\<lparr>jl_project := key\<rparr>) (drop_file from s), True))"

definition fork_to :: "text_env \<Rightarrow> 'v jfile \<Rightarrow> utext \<Rightarrow> 'v store \<Rightarrow> jfile_error + 'v store" where
  "fork_to env f key s =
     (let n = journal_file_name env key in
      if file_at n s \<noteq> None then Inl (HasJournal key) else Inr (put_file n (backfill_links env f\<lparr>jl_project := key\<rparr>) s))"

text \<open>\<open>with_extension\<close>: the name of a journal file ends in \<open>.db\<close>.\<close>

definition aside_name :: "utext \<Rightarrow> string \<Rightarrow> int \<Rightarrow> utext" where
  "aside_name n why now = take (length n - 2) n @ of_str why @ [45] @ of_str (dec_int now)"

definition retire :: "text_env \<Rightarrow> utext \<Rightarrow> string \<Rightarrow> int \<Rightarrow> 'v store \<Rightarrow> 'v store \<times> utext option" where
  "retire env key why now s =
     (let n = journal_file_name env key in
      case file_at n s of None \<Rightarrow> (s, None)
      | Some f \<Rightarrow>
          let to = aside_name n why now in
          ((drop_file n s)\<lparr>st_aside := AList.update to (backfill_links env f) (st_aside s)\<rparr>, Some to))"

record journal_info =
  ji_project :: utext
  ji_file :: utext
  ji_entries :: nat
  ji_last :: "int option"

definition journal_info_of :: "utext \<times> 'v jfile \<Rightarrow> journal_info" where
  "journal_info_of = (\<lambda>(n, f).
     let times = map je_created (entries (jl_journal f)) in
     \<lparr>ji_project = jl_project f, ji_file = n, ji_entries = length times,
      ji_last = (if times = [] then None else Some (Max (set times)))\<rparr>)"

definition list_journals :: "'v store \<Rightarrow> journal_info list" where
  "list_journals s =
     sort_key (\<lambda>i. (case ji_last i of None \<Rightarrow> (1 :: nat, 0) | Some t \<Rightarrow> (0, - t), ji_project i)) (map journal_info_of (st_files s))"

section \<open>Merging\<close>

text \<open>A stored entry as one written anew: nothing comes back to this machine's sessions.\<close>

definition carried :: "entry_view \<Rightarrow> new_entry" where
  "carried e =
     (let r = ev_row e in
      \<lparr>ne_body = je_body r, ne_category = je_category r, ne_tags = ev_tags e, ne_salience = of_str (je_salience r),
       ne_agent = je_agent r, ne_agent_id = je_agent_id r, ne_session = je_session r, ne_feature = je_feature r,
       ne_artifact = je_artifact r, ne_flags = map (\<lambda>x. of_str (jf_flag x)) (ev_flags e), ne_proofs = ev_proofs e,
       ne_every = None, ne_remind_to = None, ne_foreign = True\<rparr>)"

text \<open>A flag that was closed where the entry comes from closes here; what is refused is left open.\<close>

definition restore_flag :: "text_env \<Rightarrow> int \<Rightarrow> utext \<Rightarrow> utext option \<Rightarrow> utext option \<Rightarrow> int \<Rightarrow> journal \<Rightarrow> journal" where
  "restore_flag env i flag by_whom res tm j = or_same j (close_with env i [flag] by_whom res tm Restore j)"

definition restore_closed :: "text_env \<Rightarrow> int \<Rightarrow> flag_row list \<Rightarrow> journal \<Rightarrow> journal" where
  "restore_closed env i fs j =
     fold (\<lambda>x. case jf_closed x of None \<Rightarrow> id
       | Some tm \<Rightarrow> restore_flag env i (of_str (jf_flag x)) (jf_by x) (jf_resolution x) tm) fs j"

record merging =
  mg_journal :: journal
  mg_ids :: "(int \<times> int) list"
  mg_written :: nat
  mg_merged :: nat

definition merge_entry :: "text_env \<Rightarrow> entry_view \<Rightarrow> merging \<Rightarrow> journal_error + merging" where
  "merge_entry env e m =
     (case add_entry env (carried e) (je_created (ev_row e)) (mg_journal m) of Inl x \<Rightarrow> Inl x
      | Inr (j, status, i) \<Rightarrow>
          Inr \<lparr>mg_journal = restore_closed env i (ev_flags e) j, mg_ids = (je_id (ev_row e), i) # mg_ids m,
            mg_written = mg_written m + (if status = Written then 1 else 0),
            mg_merged = mg_merged m + (if status = Written then 0 else 1)\<rparr>)"

fun merge_each :: "text_env \<Rightarrow> entry_view list \<Rightarrow> merging \<Rightarrow> merging \<times> journal_error option" where
  "merge_each env [] m = (m, None)"
| "merge_each env (e # es) m =
     (case merge_entry env e m of Inl x \<Rightarrow> (m, Some x) | Inr m' \<Rightarrow> merge_each env es m')"

definition merge_links :: "(int \<Rightarrow> int option) \<Rightarrow> (int \<times> int \<times> string) list \<Rightarrow> journal \<Rightarrow> journal" where
  "merge_links ids ls j =
     j\<lparr>links := fold (\<lambda>(f, t, k). case (ids f, ids t) of
         (Some f', Some t') \<Rightarrow> if f' = t' then id else ins_ignore id (f', t', k)
       | _ \<Rightarrow> id) ls (links j)\<rparr>"

datatype merge_error = EntryRefused journal_error | MapsRefused mm_error

text \<open>Entries oldest first, then the links between them, then the maps. What was written before an error stays.\<close>

definition merge_into ::
  "text_env \<Rightarrow> (int \<Rightarrow> string) \<Rightarrow> mm_db \<Rightarrow> mm_db \<Rightarrow> (merge_error + nat \<times> nat) \<times> mm_db" where
  "merge_into env tok src dst =
     (let sj = mm_journal src;
          es = map (attach sj) (sort_key (\<lambda>r. (je_created r, je_id r)) (entries sj));
          (m, err) = merge_each env es \<lparr>mg_journal = mm_journal dst, mg_ids = [], mg_written = 0, mg_merged = 0\<rparr>
      in case err of Some x \<Rightarrow> (Inl (EntryRefused x), dst\<lparr>mm_journal := mg_journal m\<rparr>)
         | None \<Rightarrow>
           let d = dst\<lparr>mm_journal := merge_links (map_of (mg_ids m)) (links sj) (mg_journal m)\<rparr> in
           (case merge_maps src (map_of (mg_ids m)) tok d of Inl x \<Rightarrow> (Inl (MapsRefused x), d)
            | Inr (d', n) \<Rightarrow> (Inr (mg_written m, mg_merged m), d')))"

section \<open>Old insights\<close>

record old_insight =
  oi_at :: int
  oi_kind :: utext
  oi_agent :: "utext option"
  oi_session :: "utext option"
  oi_feature :: "utext option"
  oi_salience :: "utext option"
  oi_artifact :: "utext option"
  oi_chunks :: "utext list"
  oi_tags :: "utext list"

definition insight_entry :: "text_env \<Rightarrow> old_insight \<Rightarrow> new_entry" where
  "insight_entry env x =
     \<lparr>ne_body = stitch_chunks (oi_chunks x), ne_category = oi_kind x,
      ne_tags = (if oi_tags x = [] then [case oi_feature x of None \<Rightarrow> of_str ''imported'' | Some f \<Rightarrow> f] else oi_tags x),
      ne_salience = of_str (case normalize_salience env (oi_salience x) of Inl _ \<Rightarrow> ''medium'' | Inr s \<Rightarrow> s),
      ne_agent = oi_agent x, ne_agent_id = None, ne_session = oi_session x, ne_feature = oi_feature x,
      ne_artifact = oi_artifact x, ne_flags = [], ne_proofs = [], ne_every = None, ne_remind_to = None, ne_foreign = False\<rparr>"

definition copy_insight :: "text_env \<Rightarrow> old_insight \<Rightarrow> journal \<times> nat \<Rightarrow> journal \<times> nat" where
  "copy_insight env x = (\<lambda>(j, n).
     case add_entry env (insight_entry env x) (oi_at x) j of Inl _ \<Rightarrow> (j, n)
     | Inr (j', status, i) \<Rightarrow> (j', if status = Written then n + 1 else n))"

definition copy_insights :: "text_env \<Rightarrow> old_insight list \<Rightarrow> journal \<Rightarrow> journal \<times> nat" where
  "copy_insights env xs j = fold (copy_insight env) xs (j, 0)"

text \<open>What the project's \<open>insights.db\<close> holds, oldest first: none when there is no such file.\<close>

definition import_legacy_insights :: "text_env \<Rightarrow> old_insight list option \<Rightarrow> 'v jfile \<Rightarrow> 'v jfile \<times> nat" where
  "import_legacy_insights env old f =
     (if jl_insights f then (f, 0)
      else let (j, n) = (case old of None \<Rightarrow> (jl_journal f, 0) | Some xs \<Rightarrow> copy_insights env xs (jl_journal f))
        in ((set_journal j f)\<lparr>jl_insights := True\<rparr>, n))"

section \<open>Vectors\<close>

text \<open>
  The loop of \<open>embed_missing\<close>: 32 entries at a time, until a batch is not full. With an encoder that
  returns fewer vectors than texts it may not end, so it is partial; \<open>enc\<close> answers None on failure.
\<close>

definition store_batch :: "journal \<Rightarrow> (int \<times> utext) list \<Rightarrow> 'v list \<Rightarrow> (int \<times> 'v) list \<Rightarrow> (int \<times> 'v) list" where
  "store_batch j batch vs vecs = fold (\<lambda>((i, _), v). store_vector i v j) (zip batch vs) vecs"

partial_function (option) embed_missing ::
  "(utext list \<Rightarrow> 'v list option) \<Rightarrow> journal \<Rightarrow> (int \<times> 'v) list \<Rightarrow> (int \<times> 'v) list option" where
  "embed_missing enc j vecs =
     (let batch = missing_vectors 32 vecs j in
      if batch = [] then Some vecs
      else case enc (map snd batch) of None \<Rightarrow> Some vecs
        | Some vs \<Rightarrow>
          let vecs' = store_batch j batch vs vecs in
          if length batch < 32 then Some vecs' else embed_missing enc j vecs')"

end
