(* ===== verification/JournalTools.thy ===== *)
theory JournalTools
  imports JournalFiles Registry Json
begin

text \<open>
  The \<open>journal_*\<close> tools of the daemon (\<open>daemon/journal_tools.rs\<close>): who is calling and therefore which
  journal, journals shared between folders, and every tool as a function of the daemon's tables and
  journal files. The tools on mind maps are in the next theory.

  A call is its JSON arguments; the answer is a value with the members of the JSON the code builds.
  What the daemon reads from outside (the machine's name, old insights, the encoder, FTS5, sqlite-vec,
  random tokens, the derived readers of JSON) is a record of functions.
\<close>

section \<open>Arguments\<close>

definition str_arg :: "json \<Rightarrow> string \<Rightarrow> utext option" where
  "str_arg v k = (case get_str v k of None \<Rightarrow> None | Some s \<Rightarrow> let t = trim (text_of s) in if t = [] then None else Some t)"

definition str_list :: "json \<Rightarrow> string \<Rightarrow> utext list" where
  "str_list v k = (case Option.bind (jget v k) as_array of None \<Rightarrow> [] | Some xs \<Rightarrow> map text_of (List.map_filter as_str xs))"

fun as_u64 :: "json \<Rightarrow> nat option" where
  "as_u64 (JNum i) = (if 0 \<le> i \<and> i < 18446744073709551616 then Some (nat i) else None)"
| "as_u64 _ = None"

definition get_u64 :: "json \<Rightarrow> string \<Rightarrow> nat option" where
  "get_u64 v k = Option.bind (jget v k) as_u64"

definition flag_set :: "json \<Rightarrow> string \<Rightarrow> bool" where
  "flag_set v k = (get_bool v k = Some True)"

text \<open>\<open>_api_caller\<close>, set by \<open>handle_api\<close> alone.\<close>

definition api_caller :: string where "api_caller = ''_api_caller''"

fun without :: "string \<Rightarrow> json \<Rightarrow> json" where
  "without k (JObj m) = JObj (filter (\<lambda>x. fst x \<noteq> k) m)"
| "without k v = v"

fun with_member :: "string \<Rightarrow> json \<Rightarrow> json \<Rightarrow> json" where
  "with_member k x (JObj m) = JObj ((k, x) # filter (\<lambda>y. fst y \<noteq> k) m)"
| "with_member k x v = v"

section \<open>The daemon\<close>

record share_row =
  sh_host :: utext
  sh_path :: utext
  sh_key :: utext
  sh_created :: int

record 'v daemon =
  dn_agents :: "agent_row rows"
  dn_shares :: "share_row rows"
  dn_store :: "'v store"

text \<open>
  What comes from outside. \<open>w_query\<close>: the query's vector, None without a cached model or when the
  encoder fails; \<open>w_present\<close>: what the drawing, the upload to Telegram or the page address answer
  for a map; \<open>w_token\<close>: fresh view tokens.
\<close>

record 'v world =
  w_text :: text_env
  w_host :: utext
  w_insights :: "utext \<Rightarrow> old_insight list option"
  w_services :: "'v services"
  w_query :: "utext \<Rightarrow> 'v option"
  w_token :: "int \<Rightarrow> string"
  w_map :: "json \<Rightarrow> mmap option"
  w_present :: "string \<Rightarrow> mmap \<Rightarrow> json \<Rightarrow> json"

datatype tool_error =
    ProjectIdRequired | AuthorRequired | NotRegistered | NoDirectory | NeedsSession | CwdRequired | CwdNotAbsolute
  | TargetRequired | TargetNotAbsolute | SharedElsewhere utext utext | SameRepository utext | NotShared utext
  | OperatorOnly | NoJournal utext | IdRequired | ToRequired | QueryRequired | BadMode utext | NegativeSince
  | BadState utext | NoSuchEntry int | NoBranch int | NoSuchLink int int | EntriesRequired | LinksRequired
  | MapsRequired | TooMany nat | UnknownTool string | FileError jfile_error | JournalError journal_error
  | MergeError merge_error | NoNickYet | MapRequired string | TextRequired string | NoMapHere int | OneTarget
  | MapError mm_error | NeverAnswers

datatype answer =
    Added utext add_status int
  | Found utext jsearch_mode "(rat \<times> utext \<times> entry_view) list"
  | Page utext nat nat "entry_view list"
  | Entry utext entry_view "(link_view \<times> brief_view) list \<times> (rat \<times> brief_view) list \<times> brief_view list"
  | Removed utext int
  | Labels utext "(utext \<times> nat) list"
  | Swept utext bool nat nat
  | Journals "journal_info list"
  | Imported utext nat nat "(nat \<times> journal_error) list" "int option list"
  | Links_imported utext nat nat nat
  | Maps_exported utext "mmap list"
  | Maps_imported utext nat nat "(nat \<times> mm_error option) list"
  | Flagged utext int "(int \<times> string) list" "entry_view option"
  | Agenda utext "(string \<times> nat \<times> entry_view list) list"
  | Linked utext int int utext bool
  | Unlinked utext int int nat
  | Branch_of utext branch_view
  | Shared utext utext utext nat nat "utext option"
  | Already_shared utext utext
  | Unshared utext utext utext bool
  | Shares "share_row list"
  | Feedback bool "(utext \<times> entry_view list) list"
  | Policy utext bool
  | Map_made utext int int utext string bool
  | Maps_listed utext "(map_summary \<times> bool) list" bool
  | Map_shown utext utext bool mmap
  | Presented utext int json
  | Map_deleted utext int
  | Map_shared utext int bool
  | Map_changed utext int int nat

type_synonym 'v run = "(tool_error + answer) \<times> 'v daemon"

section \<open>Who is calling\<close>

record caller =
  ca_project :: utext
  ca_path :: utext
  ca_agent :: "utext option"
  ca_nick :: "utext option"
  ca_host :: "utext option"

definition shared_key :: "utext \<Rightarrow> utext \<Rightarrow> share_row rows \<Rightarrow> utext option" where
  "shared_key host path t =
     (case List.map_filter (\<lambda>p. map_option sh_key (find (\<lambda>r. sh_host r = host \<and> sh_path r = p) t)) (ancestors path) of
        [] \<Rightarrow> None | k # _ \<Rightarrow> Some k)"

definition nearest_journal :: "text_env \<Rightarrow> 'v store \<Rightarrow> utext \<Rightarrow> utext" where
  "nearest_journal env s cwd =
     (case find (\<lambda>p. file_at (journal_file_name env p) s \<noteq> None) (ancestors cwd) of None \<Rightarrow> cwd | Some p \<Rightarrow> p)"

definition api_call :: "json \<Rightarrow> tool_error + caller" where
  "api_call api =
     (case str_arg api ''project_id'' of None \<Rightarrow> Inl ProjectIdRequired
      | Some pid \<Rightarrow>
        case str_arg api ''author'' of None \<Rightarrow> Inl AuthorRequired
        | Some author \<Rightarrow>
          let path = of_str ''/api/'' @ pid in
          Inr \<lparr>ca_project = project_key (Some pid) path, ca_path = path, ca_agent = Some (of_str ''api:'' @ author),
            ca_nick = Some author, ca_host = Some (of_str ''api'')\<rparr>)"

definition session_call :: "'v world \<Rightarrow> utext \<Rightarrow> utext \<Rightarrow> 'v daemon \<Rightarrow> tool_error + caller" where
  "session_call w agent token d =
     (if \<not> resolve_session_token (bytes_of agent) (bytes_of token) (dn_agents d) then Inl NotRegistered
      else case row_of ar_id (bytes_of agent) (dn_agents d) of None \<Rightarrow> Inl NotRegistered
      | Some r \<Rightarrow>
        case ar_cwd r of None \<Rightarrow> Inl NoDirectory
        | Some cwd \<Rightarrow>
          if cwd = [] then Inl NoDirectory
          else let path = text_of cwd; host = given_or (w_host w) (map_option text_of (ar_host r)) in
            Inr \<lparr>ca_project = (case shared_key host path (dn_shares d) of Some k \<Rightarrow> k
                   | None \<Rightarrow> project_key (map_option text_of (ar_project r)) path),
              ca_path = path, ca_agent = Some agent, ca_nick = Some (text_of (ar_name r)), ca_host = Some host\<rparr>)"

definition directory_call :: "'v world \<Rightarrow> json \<Rightarrow> 'v daemon \<Rightarrow> tool_error + caller" where
  "directory_call w args d =
     (case str_arg args ''cwd'' of None \<Rightarrow> Inl CwdRequired
      | Some cwd \<Rightarrow>
        if \<not> absolute_path cwd then Inl CwdNotAbsolute
        else let env = w_text w; host = given_or (w_host w) (str_arg args ''host'');
               key = project_key (str_arg args ''project_id'') cwd;
               project = (case shared_key host cwd (dn_shares d) of Some k \<Rightarrow> k
                 | None \<Rightarrow> if \<not> same_path key cwd \<and> file_at (journal_file_name env key) (dn_store d) \<noteq> None then key
                          else nearest_journal env (dn_store d) cwd)
          in Inr \<lparr>ca_project = project, ca_path = cwd, ca_agent = None, ca_nick = None, ca_host = None\<rparr>)"

definition resolve :: "'v world \<Rightarrow> json \<Rightarrow> bool \<Rightarrow> 'v daemon \<Rightarrow> tool_error + caller" where
  "resolve w args need_session d =
     (case jget args api_caller of Some api \<Rightarrow> api_call api
      | None \<Rightarrow>
        case (str_arg args ''agent_id'', str_arg args ''session_token'') of
          (Some agent, Some token) \<Rightarrow> session_call w agent token d
        | _ \<Rightarrow> if need_session then Inl NeedsSession else directory_call w args d)"

section \<open>Opening the caller's journal\<close>

definition on_store :: "('v store \<Rightarrow> 'v store) \<Rightarrow> 'v daemon \<Rightarrow> 'v daemon" where
  "on_store f d = d\<lparr>dn_store := f (dn_store d)\<rparr>"

definition adopt :: "'v world \<Rightarrow> caller \<Rightarrow> 'v daemon \<Rightarrow> 'v daemon" where
  "adopt w c = on_store (\<lambda>s. fst (adopt_path_journal (w_text w) (ca_project c) (ca_path c) s))"

definition put_journal :: "'v world \<Rightarrow> utext \<Rightarrow> 'v jfile \<Rightarrow> 'v daemon \<Rightarrow> 'v daemon" where
  "put_journal w project f = on_store (put_file (journal_file_name (w_text w) project) f)"

definition open_file :: "'v world \<Rightarrow> utext \<Rightarrow> bool \<Rightarrow> 'v daemon \<Rightarrow> (tool_error + 'v jfile option) \<times> 'v daemon" where
  "open_file w project crt d =
     (case open_journal (w_text w) project crt (dn_store d) of
        (Inl e, s) \<Rightarrow> (Inl (FileError e), d\<lparr>dn_store := s\<rparr>)
      | (Inr f, s) \<Rightarrow> (Inr f, d\<lparr>dn_store := s\<rparr>))"

definition open_caller :: "'v world \<Rightarrow> caller \<Rightarrow> 'v daemon \<Rightarrow> (tool_error + 'v jfile option) \<times> 'v daemon" where
  "open_caller w c d =
     (if ca_agent c = None then open_file w (ca_project c) False d
      else case open_file w (ca_project c) True (adopt w c d) of
        (Inr (Some f), d1) \<Rightarrow>
          let f' = fst (import_legacy_insights (w_text w) (w_insights w (ca_path c)) f)
          in (Inr (Some f'), put_journal w (ca_project c) f' d1)
      | r \<Rightarrow> r)"

text \<open>
  The shape of a tool: resolve, check what is checked before the journal is opened, open it, act on it.
  \<open>act\<close> gets the journal, or None when a directory has none yet, and gives its new contents.
\<close>

definition call ::
  "'v world \<Rightarrow> bool \<Rightarrow> (caller \<Rightarrow> tool_error + 'x) \<Rightarrow> (caller \<Rightarrow> 'x \<Rightarrow> 'v jfile option \<Rightarrow> (tool_error + answer) \<times> 'v jfile option)
     \<Rightarrow> json \<Rightarrow> 'v daemon \<Rightarrow> 'v run" where
  "call w need_session pre act args d =
     (case resolve w args need_session d of Inl e \<Rightarrow> (Inl e, d)
      | Inr c \<Rightarrow>
        case pre c of Inl e \<Rightarrow> (Inl e, d)
        | Inr x \<Rightarrow>
          case open_caller w c d of (Inl e, d1) \<Rightarrow> (Inl e, d1)
          | (Inr f, d1) \<Rightarrow>
            let (r, f') = act c x f in
            (r, case f' of None \<Rightarrow> d1 | Some g \<Rightarrow> put_journal w (ca_project c) g d1))"

text \<open>Reads leave the journal as it is; a session's journal always exists.\<close>

definition reading :: "('v jfile option \<Rightarrow> tool_error + answer) \<Rightarrow> 'v jfile option \<Rightarrow> (tool_error + answer) \<times> 'v jfile option" where
  "reading k f = (k f, None)"

definition changing ::
  "('v jfile \<Rightarrow> tool_error + answer \<times> 'v jfile) \<Rightarrow> 'v jfile option \<Rightarrow> (tool_error + answer) \<times> 'v jfile option" where
  "changing k f =
     (case f of None \<Rightarrow> (Inl NeedsSession, None)
      | Some g \<Rightarrow> case k g of Inl e \<Rightarrow> (Inl e, None) | Inr (a, g') \<Rightarrow> (Inr a, Some g'))"

text \<open>A statement of the journal and what it answers.\<close>

definition on_journal ::
  "(journal \<Rightarrow> journal_error + journal \<times> 'a) \<Rightarrow> (journal \<Rightarrow> 'a \<Rightarrow> answer) \<Rightarrow> 'v jfile \<Rightarrow> tool_error + answer \<times> 'v jfile" where
  "on_journal op ans f =
     (case op (jl_journal f) of Inl e \<Rightarrow> Inl (JournalError e) | Inr (j, x) \<Rightarrow> Inr (ans j x, set_journal j f))"

definition id_arg :: "json \<Rightarrow> tool_error + int" where
  "id_arg args = (case get_i64 args ''id'' of None \<Rightarrow> Inl IdRequired | Some i \<Rightarrow> Inr i)"

definition id_and_target :: "json \<Rightarrow> tool_error + int \<times> int" where
  "id_and_target args =
     (case id_arg args of Inl e \<Rightarrow> Inl e
      | Inr i \<Rightarrow> case get_i64 args ''to'' of None \<Rightarrow> Inl ToRequired | Some t \<Rightarrow> Inr (i, t))"


section \<open>Writing\<close>

definition written_entry :: "caller \<Rightarrow> json \<Rightarrow> new_entry" where
  "written_entry c args =
     \<lparr>ne_body = given_or [] (str_arg args ''body''), ne_category = given_or [] (str_arg args ''category''),
      ne_tags = str_list args ''tags'', ne_salience = given_or (of_str ''medium'') (str_arg args ''salience''),
      ne_agent = (case str_arg args ''agent'' of Some a \<Rightarrow> Some a | None \<Rightarrow> ca_nick c), ne_agent_id = ca_agent c,
      ne_session = str_arg args ''session_id'', ne_feature = str_arg args ''feature'',
      ne_artifact = str_arg args ''source_artifact'', ne_flags = str_list args ''flags'', ne_proofs = str_list args ''proofs'',
      ne_every = get_i64 args ''every_secs'', ne_remind_to = map_option (\<lambda>n. (n, ca_host c)) (ca_nick c), ne_foreign = False\<rparr>"

definition add_tool :: "'v world \<Rightarrow> int \<Rightarrow> json \<Rightarrow> 'v daemon \<Rightarrow> 'v run" where
  "add_tool w now args =
     call w True (\<lambda>c. Inr ())
       (\<lambda>c _. changing (on_journal (\<lambda>j. add_entry (w_text w) (written_entry c args) now j)
          (\<lambda>j (status, i). Added (ca_project c) status i))) args"

definition link_tool :: "'v world \<Rightarrow> json \<Rightarrow> 'v daemon \<Rightarrow> 'v run" where
  "link_tool w args =
     (let kind = given_or (of_str ''cites'') (str_arg args ''kind'') in
      call w True (\<lambda>c. id_and_target args)
       (\<lambda>c (f, t). changing (on_journal (link_entries f t (bytes_of kind)) (\<lambda>j added. Linked (ca_project c) f t kind added))) args)"

definition unlink_tool :: "'v world \<Rightarrow> json \<Rightarrow> 'v daemon \<Rightarrow> 'v run" where
  "unlink_tool w args =
     call w True (\<lambda>c. id_and_target args)
       (\<lambda>c (f, t). changing (\<lambda>g.
          let (j, n) = unlink_entries f t (map_option bytes_of (str_arg args ''kind'')) (jl_journal g) in
          if n = 0 then Inl (NoSuchLink f t) else Inr (Unlinked (ca_project c) f t n, set_journal j g))) args"

text \<open>Deleting entries takes the references of maps to them and their vectors.\<close>

definition drop_entries :: "(entry \<Rightarrow> bool) \<Rightarrow> 'v jfile \<Rightarrow> 'v jfile" where
  "drop_entries p f =
     f\<lparr>jl_db := forget_entries p (jl_db f),
       jl_vecs := del_where (\<lambda>x. fst x \<in> je_id ` set (filter p (entries (jl_journal f)))) (jl_vecs f)\<rparr>"

definition delete_tool :: "'v world \<Rightarrow> json \<Rightarrow> 'v daemon \<Rightarrow> 'v run" where
  "delete_tool w args =
     call w True (\<lambda>c. id_arg args)
       (\<lambda>c i. changing (\<lambda>g. if exists_entry i (jl_journal g) then Inr (Removed (ca_project c) i, drop_entries (\<lambda>r. je_id r = i) g)
          else Inl (NoSuchEntry i))) args"

text \<open>A flag change, answered with the entry as it now stands.\<close>

definition flag_tool ::
  "'v world \<Rightarrow> (caller \<Rightarrow> int \<Rightarrow> journal \<Rightarrow> journal_error + journal \<times> (int \<times> string) list) \<Rightarrow> json \<Rightarrow> 'v daemon \<Rightarrow> 'v run" where
  "flag_tool w op args =
     call w True (\<lambda>c. id_arg args)
       (\<lambda>c i. changing (on_journal (op c i) (\<lambda>j changed. Flagged (ca_project c) i changed (get_entry i j)))) args"

definition own_flags :: "int \<Rightarrow> journal_error + journal \<times> string list \<Rightarrow> journal_error + journal \<times> (int \<times> string) list" where
  "own_flags i r = map_sum id (\<lambda>(j, fs). (j, map (Pair i) fs)) r"

definition mark_tool :: "'v world \<Rightarrow> int \<Rightarrow> json \<Rightarrow> 'v daemon \<Rightarrow> 'v run" where
  "mark_tool w now args = flag_tool w (\<lambda>c i j. own_flags i (mark (w_text w) i (str_list args ''flags'') now j)) args"

definition unmark_tool :: "'v world \<Rightarrow> json \<Rightarrow> 'v daemon \<Rightarrow> 'v run" where
  "unmark_tool w args = flag_tool w (\<lambda>c i j. own_flags i (unmark (w_text w) i (str_list args ''flags'') j)) args"

definition reopen_tool :: "'v world \<Rightarrow> json \<Rightarrow> 'v daemon \<Rightarrow> 'v run" where
  "reopen_tool w args = flag_tool w (\<lambda>c i j. own_flags i (reopen (w_text w) i (str_list args ''flags'') j)) args"

definition close_tool :: "'v world \<Rightarrow> int \<Rightarrow> json \<Rightarrow> 'v daemon \<Rightarrow> 'v run" where
  "close_tool w now args =
     flag_tool w (\<lambda>c i. close_with (w_text w) i (str_list args ''flags'') (ca_nick c) (str_arg args ''resolution'') now
       (if flag_set args ''abandon'' then Abandon else Checked)) args"

text \<open>Retention, from the command line or once a day over every journal.\<close>

definition gc_file :: "int \<Rightarrow> bool \<Rightarrow> 'v jfile \<Rightarrow> 'v jfile \<times> nat \<times> nat" where
  "gc_file now dry f =
     (let j = jl_journal f; (_, m, l) = gc_entries now dry j in
      (if dry \<or> m + l = 0 then f else drop_entries (\<lambda>r. past_retention now r \<and> \<not> kept_open j (je_id r)) f, m, l))"

definition gc_tool :: "'v world \<Rightarrow> int \<Rightarrow> json \<Rightarrow> 'v daemon \<Rightarrow> 'v run" where
  "gc_tool w now args =
     (let dry = flag_set args ''dry_run'' in
      call w False (\<lambda>c. Inr ())
       (\<lambda>c _ f. case f of None \<Rightarrow> (Inr (Swept (ca_project c) dry 0 0), None)
          | Some g \<Rightarrow> let (g', m, l) = gc_file now dry g in (Inr (Swept (ca_project c) dry m l), Some g')) args)"

fun gc_each :: "'v world \<Rightarrow> int \<Rightarrow> journal_info list \<Rightarrow> 'v daemon \<Rightarrow> 'v daemon \<times> nat \<times> nat" where
  "gc_each w now [] d = (d, 0, 0)"
| "gc_each w now (i # is) d =
     (case open_file w (ji_project i) False d of
        (Inl e, d1) \<Rightarrow> (d1, 0, 0)
      | (Inr None, d1) \<Rightarrow> gc_each w now is d1
      | (Inr (Some f), d1) \<Rightarrow>
          let (f', m, l) = gc_file now False f; (d2, ms, ls) = gc_each w now is (put_journal w (ji_project i) f' d1)
          in (d2, m + ms, l + ls))"

text \<open>Reading the directory opens every file, which brings the links of older ones in.\<close>

definition open_all :: "'v world \<Rightarrow> 'v daemon \<Rightarrow> 'v daemon" where
  "open_all w = on_store (\<lambda>s. s\<lparr>st_files := map (map_prod id (backfill_links (w_text w))) (st_files s)\<rparr>)"

definition maintenance :: "'v world \<Rightarrow> int \<Rightarrow> 'v daemon \<Rightarrow> 'v daemon \<times> nat \<times> nat" where
  "maintenance w now d = (let d1 = open_all w d in gc_each w now (list_journals (dn_store d1)) d1)"

text \<open>Vectors after the answer: only with a model, \<open>enc\<close>; None when the loop does not end.\<close>

definition embed_project :: "'v world \<Rightarrow> (utext list \<Rightarrow> 'v list option) \<Rightarrow> utext \<Rightarrow> 'v daemon \<Rightarrow> 'v daemon option" where
  "embed_project w enc project d =
     (case open_file w project False d of
        (Inr (Some f), d1) \<Rightarrow>
          map_option (\<lambda>vecs. put_journal w project (f\<lparr>jl_vecs := vecs\<rparr>) d1) (embed_missing enc (jl_journal f) (jl_vecs f))
      | (_, d1) \<Rightarrow> Some d1)"

section \<open>Reading\<close>

definition parse_mode :: "utext \<Rightarrow> tool_error + jsearch_mode" where
  "parse_mode t =
     (if t = of_str ''lexical'' then Inr JLexical else if t = of_str ''dense'' then Inr JDense
      else if t = of_str ''hybrid'' then Inr JHybrid else Inl (BadMode t))"

definition since_arg :: "int \<Rightarrow> json \<Rightarrow> tool_error + int option" where
  "since_arg now args =
     (case get_i64 args ''since_secs'' of None \<Rightarrow> Inr None
      | Some n \<Rightarrow> if 0 \<le> n then Inr (Some (now - n)) else Inl NegativeSince)"

definition state_arg :: "json \<Rightarrow> tool_error + bool option" where
  "state_arg args =
     (case str_arg args ''state'' of None \<Rightarrow> Inr None
      | Some s \<Rightarrow> if s = of_str ''open'' then Inr (Some True) else if s = of_str ''closed'' then Inr (Some False) else Inl (BadState s))"

definition salience_arg :: "text_env \<Rightarrow> json \<Rightarrow> tool_error + string option" where
  "salience_arg env args =
     (case str_arg args ''salience'' of None \<Rightarrow> Inr None
      | Some s \<Rightarrow> map_sum JournalError Some (normalize_salience env (Some s)))"

definition filter_arg :: "text_env \<Rightarrow> int \<Rightarrow> json \<Rightarrow> tool_error + jfilter" where
  "filter_arg env now args =
     (case salience_arg env args of Inl e \<Rightarrow> Inl e
      | Inr sal \<Rightarrow>
        case since_arg now args of Inl e \<Rightarrow> Inl e
        | Inr since \<Rightarrow>
          case normalize_flags env (str_list args ''flags'') of Inl e \<Rightarrow> Inl (JournalError e)
          | Inr _ \<Rightarrow>
            case state_arg args of Inl e \<Rightarrow> Inl e
            | Inr opn \<Rightarrow>
              Inr \<lparr>fi_category = str_arg args ''category'', fi_tags = str_list args ''tags'', fi_agent = str_arg args ''agent'',
                fi_salience = sal, fi_feature = str_arg args ''feature'', fi_since = since,
                fi_flags = str_list args ''flags'', fi_open = opn\<rparr>)"

definition search_args :: "text_env \<Rightarrow> int \<Rightarrow> json \<Rightarrow> tool_error + utext \<times> jsearch_mode \<times> jfilter" where
  "search_args env now args =
     (case str_arg args ''query'' of None \<Rightarrow> Inl QueryRequired
      | Some q \<Rightarrow>
        case parse_mode (given_or (of_str ''hybrid'') (str_arg args ''mode'')) of Inl e \<Rightarrow> Inl e
        | Inr m \<Rightarrow> map_sum id (\<lambda>f. (q, m, f)) (filter_arg env now args))"

definition search_tool :: "'v world \<Rightarrow> int \<Rightarrow> json \<Rightarrow> 'v daemon \<Rightarrow> 'v run" where
  "search_tool w now args =
     call w False (\<lambda>c. search_args (w_text w) now args)
       (\<lambda>c (q, m, f). reading (\<lambda>g. case g of None \<Rightarrow> Inr (Found (ca_project c) JLexical [])
          | Some g \<Rightarrow>
              let (used, hits) = search_journal (w_text w) (w_services w) q (if m = JLexical then None else w_query w q) m f
                (given_or 5 (get_u64 args ''top_k'')) (jl_vecs g) (jl_journal g)
              in Inr (Found (ca_project c) used hits))) args"

definition list_tool :: "'v world \<Rightarrow> int \<Rightarrow> json \<Rightarrow> 'v daemon \<Rightarrow> 'v run" where
  "list_tool w now args =
     (let offset = given_or 0 (get_u64 args ''offset''); lmt = given_or 10 (get_u64 args ''limit'') in
      call w False (\<lambda>c. filter_arg (w_text w) now args)
       (\<lambda>c f. reading (\<lambda>g.
          let (n, es) = (case g of None \<Rightarrow> (0, []) | Some g \<Rightarrow> list_entries (w_text w) f offset lmt (jl_journal g))
          in Inr (Page (ca_project c) n offset es))) args)"

definition get_tool :: "'v world \<Rightarrow> json \<Rightarrow> 'v daemon \<Rightarrow> 'v run" where
  "get_tool w args =
     call w False (\<lambda>c. id_arg args)
       (\<lambda>c i. reading (\<lambda>g.
          case Option.bind g (\<lambda>g. get_entry i (jl_journal g)) of None \<Rightarrow> Inl (NoSuchEntry i)
          | Some e \<Rightarrow> Inr (Entry (ca_project c) e
              (related (w_services w) i (min 20 (given_or 5 (get_u64 args ''similar''))) (jl_vecs (the g)) (jl_journal (the g)))))) args"

definition branch_tool :: "'v world \<Rightarrow> json \<Rightarrow> 'v daemon \<Rightarrow> 'v run" where
  "branch_tool w args =
     call w False (\<lambda>c. id_arg args)
       (\<lambda>c i. reading (\<lambda>g. case Option.bind g (\<lambda>g. branch i (jl_journal g)) of None \<Rightarrow> Inl (NoBranch i)
          | Some b \<Rightarrow> Inr (Branch_of (ca_project c) b))) args"

definition from_journal :: "'a \<Rightarrow> (journal \<Rightarrow> 'a) \<Rightarrow> 'v jfile option \<Rightarrow> 'a" where
  "from_journal none k g = (case g of None \<Rightarrow> none | Some g \<Rightarrow> k (jl_journal g))"

definition agenda_tool :: "'v world \<Rightarrow> json \<Rightarrow> 'v daemon \<Rightarrow> 'v run" where
  "agenda_tool w args =
     (let lmt = max 1 (min max_page_size (given_or 20 (get_u64 args ''limit''))) in
      call w False (\<lambda>c. Inr ()) (\<lambda>c _. reading (\<lambda>g. Inr (Agenda (ca_project c) (from_journal [] (agenda (w_text w) lmt) g)))) args)"

definition tags_tool :: "'v world \<Rightarrow> json \<Rightarrow> 'v daemon \<Rightarrow> 'v run" where
  "tags_tool w args =
     call w False (\<lambda>c. Inr ())
       (\<lambda>c _. reading (\<lambda>g. Inr (Labels (ca_project c) (from_journal [] (tag_counts (w_text w) (str_arg args ''category'')) g)))) args"

definition categories_tool :: "'v world \<Rightarrow> json \<Rightarrow> 'v daemon \<Rightarrow> 'v run" where
  "categories_tool w args =
     call w False (\<lambda>c. Inr ()) (\<lambda>c _. reading (\<lambda>g. Inr (Labels (ca_project c) (from_journal [] category_counts g)))) args"

definition projects_tool :: "'v world \<Rightarrow> 'v daemon \<Rightarrow> 'v run" where
  "projects_tool w d = (let d1 = open_all w d in (Inr (Journals (list_journals (dn_store d1))), d1))"

section \<open>The operator's own\<close>

definition policy_tool :: "'v world \<Rightarrow> json \<Rightarrow> 'v daemon \<Rightarrow> 'v run" where
  "policy_tool w args d =
     (let set = get_bool args ''evidence_first'' in
      if set \<noteq> None \<and> (str_arg args ''agent_id'' \<noteq> None \<or> jget args api_caller \<noteq> None) then (Inl OperatorOnly, d)
      else call w False (\<lambda>c. Inr ())
        (\<lambda>c _ f. case f of None \<Rightarrow> (Inl (NoJournal (ca_project c)), None)
           | Some g \<Rightarrow>
             let j = (case set of None \<Rightarrow> jl_journal g | Some on \<Rightarrow> set_evidence_first on (jl_journal g))
             in (Inr (Policy (ca_project c) (evidence_first j)), Some (set_journal j g))) args d)"

fun feedback_each :: "'v world \<Rightarrow> bool \<Rightarrow> journal_info list \<Rightarrow> 'v daemon \<Rightarrow> (tool_error + (utext \<times> entry_view list) list) \<times> 'v daemon" where
  "feedback_each w opn [] d = (Inr [], d)"
| "feedback_each w opn (i # is) d =
     (case open_file w (ji_project i) False d of
        (Inl e, d1) \<Rightarrow> (Inl e, d1)
      | (Inr f, d1) \<Rightarrow>
          (case feedback_each w opn is d1 of (Inl e, d2) \<Rightarrow> (Inl e, d2)
           | (Inr out, d2) \<Rightarrow>
             let es = from_journal [] (journal_feedback (w_text w) opn) f
             in (Inr (if es = [] then out else (ji_project i, es) # out), d2)))"

definition feedback_tool :: "'v world \<Rightarrow> json \<Rightarrow> 'v daemon \<Rightarrow> 'v run" where
  "feedback_tool w args d =
     (if str_arg args ''agent_id'' \<noteq> None then (Inl OperatorOnly, d)
      else let opn = \<not> flag_set args ''all''; d1 = open_all w d in
        case feedback_each w opn (list_journals (dn_store d1)) d1 of (Inl e, d2) \<Rightarrow> (Inl e, d2)
        | (Inr out, d2) \<Rightarrow> (Inr (Feedback opn out), d2))"


section \<open>Journals shared between folders\<close>

definition share_key :: "share_row \<Rightarrow> utext \<times> utext" where
  "share_key r = (sh_host r, sh_path r)"

text \<open>The target's own journal is merged in and moved aside; an error after that leaves what was written.\<close>

definition share_merge :: "'v world \<Rightarrow> int \<Rightarrow> utext \<Rightarrow> utext \<Rightarrow> 'v jfile \<Rightarrow> 'v daemon \<Rightarrow> (tool_error + nat \<times> nat \<times> utext option) \<times> 'v daemon" where
  "share_merge w now project own dst d =
     (case open_file w own False d of
        (Inl e, d1) \<Rightarrow> (Inl e, d1)
      | (Inr None, d1) \<Rightarrow> (Inr (0, 0, None), d1)
      | (Inr (Some src), d1) \<Rightarrow>
          let (r, db) = merge_into (w_text w) (w_token w) (jl_db src) (jl_db dst);
              d2 = put_journal w project (dst\<lparr>jl_db := db\<rparr>) d1
          in case r of Inl e \<Rightarrow> (Inl (MergeError e), d2)
             | Inr (written, merged) \<Rightarrow>
               let (s, moved) = retire (w_text w) own ''merged'' now (dn_store d2)
               in (Inr (written, merged, moved), d2\<lparr>dn_store := s\<rparr>))"

definition share_tool :: "'v world \<Rightarrow> int \<Rightarrow> json \<Rightarrow> 'v daemon \<Rightarrow> 'v run" where
  "share_tool w now args d =
     (case resolve w args False d of Inl e \<Rightarrow> (Inl e, d)
      | Inr c \<Rightarrow>
        case str_arg args ''target'' of None \<Rightarrow> (Inl TargetRequired, d)
        | Some target \<Rightarrow>
          if \<not> absolute_path target then (Inl TargetNotAbsolute, d)
          else let host = given_or (w_host w) (str_arg args ''host''); own = project_key (str_arg args ''target_project_id'') target in
          case shared_key host target (dn_shares d) of
            Some k \<Rightarrow> if same_path k (ca_project c) then (Inr (Already_shared (ca_project c) target), d)
                     else (Inl (SharedElsewhere target k), d)
          | None \<Rightarrow>
            if same_path own (ca_project c) then (Inl (SameRepository own), d)
            else case open_file w (ca_project c) True d of
              (Inl e, d1) \<Rightarrow> (Inl e, d1)
            | (Inr None, d1) \<Rightarrow> (Inl (NoJournal (ca_project c)), d1)
            | (Inr (Some dst), d1) \<Rightarrow>
              (case share_merge w now (ca_project c) own dst d1 of (Inl e, d2) \<Rightarrow> (Inl e, d2)
               | (Inr (written, merged, moved), d2) \<Rightarrow>
                 (Inr (Shared (ca_project c) target own written merged moved),
                  d2\<lparr>dn_shares := dn_shares d2
                    @ [\<lparr>sh_host = host, sh_path = target, sh_key = ca_project c, sh_created = now\<rparr>]\<rparr>)))"

definition unshare_tool :: "'v world \<Rightarrow> json \<Rightarrow> 'v daemon \<Rightarrow> 'v run" where
  "unshare_tool w args d =
     (case str_arg args ''target'' of None \<Rightarrow> (Inl TargetRequired, d)
      | Some target \<Rightarrow>
        let host = given_or (w_host w) (str_arg args ''host'') in
        case row_of share_key (host, target) (dn_shares d) of None \<Rightarrow> (Inl (NotShared target), d)
        | Some r \<Rightarrow>
          let own = project_key (str_arg args ''target_project_id'') target;
              gone = (\<lambda>d. d\<lparr>dn_shares := del_where (\<lambda>x. share_key x = (host, target)) (dn_shares d)\<rparr>) in
          case open_file w (sh_key r) False d of
            (Inl e, d1) \<Rightarrow> (Inl e, d1)
          | (Inr None, d1) \<Rightarrow> (Inr (Unshared target (sh_key r) own False), gone d1)
          | (Inr (Some src), d1) \<Rightarrow>
            case fork_to (w_text w) src own (dn_store d1) of Inl e \<Rightarrow> (Inl (FileError e), d1)
            | Inr s \<Rightarrow> (Inr (Unshared target (sh_key r) own True), gone (d1\<lparr>dn_store := s\<rparr>)))"

definition shares_tool :: "'v daemon \<Rightarrow> 'v run" where
  "shares_tool d = (Inr (Shares (sort_key sh_created (dn_shares d))), d)"

section \<open>Imports\<close>

definition max_import_batch :: nat where "max_import_batch = 100"

definition import_caller :: "json \<Rightarrow> tool_error + caller" where
  "import_caller args =
     (case str_arg args ''cwd'' of None \<Rightarrow> Inl CwdRequired
      | Some path \<Rightarrow>
        if \<not> absolute_path path then Inl CwdNotAbsolute
        else Inr \<lparr>ca_project = project_key (str_arg args ''project_id'') path, ca_path = path, ca_agent = None,
          ca_nick = None, ca_host = None\<rparr>)"

text \<open>An import adopts the directory's journal and creates one, but brings no old insights in.\<close>

definition open_target :: "'v world \<Rightarrow> caller \<Rightarrow> 'v daemon \<Rightarrow> (tool_error + 'v jfile option) \<times> 'v daemon" where
  "open_target w c d = open_file w (ca_project c) True (adopt w c d)"

definition flag_items :: "json \<Rightarrow> json list" where
  "flag_items e = given_or [] (Option.bind (jget e ''flags'') as_array)"

definition imported_entry :: "json \<Rightarrow> new_entry" where
  "imported_entry e =
     \<lparr>ne_body = given_or [] (str_arg e ''body''), ne_category = given_or [] (str_arg e ''category''), ne_tags = str_list e ''tags'',
      ne_salience = given_or (of_str ''medium'') (str_arg e ''salience''), ne_agent = str_arg e ''agent'', ne_agent_id = None,
      ne_session = str_arg e ''session_id'', ne_feature = str_arg e ''feature'', ne_artifact = str_arg e ''source_artifact'',
      ne_flags = List.map_filter (\<lambda>f. str_arg f ''flag'') (flag_items e), ne_proofs = str_list e ''proofs'',
      ne_every = None, ne_remind_to = None, ne_foreign = True\<rparr>"

text \<open>An entry keeps its own creation time, but never one from the future.\<close>

definition created_arg :: "int \<Rightarrow> json \<Rightarrow> int" where
  "created_arg now e = min now (case get_i64 e ''created_at'' of Some t \<Rightarrow> if 0 < t then t else now | None \<Rightarrow> now)"

definition close_imported :: "text_env \<Rightarrow> int \<Rightarrow> int \<Rightarrow> json \<Rightarrow> journal \<Rightarrow> journal" where
  "close_imported env now i f j =
     (if get_bool f ''open'' \<noteq> Some False then j
      else case str_arg f ''flag'' of None \<Rightarrow> j
      | Some flag \<Rightarrow>
        or_same j (close_with env i [flag] (str_arg f ''closed_by'') (str_arg f ''resolution'')
          (min now (given_or now (get_i64 f ''closed_at''))) Restore j))"

record importing =
  im_journal :: journal
  im_written :: nat
  im_merged :: nat
  im_refused :: "(nat \<times> journal_error) list"
  im_ids :: "int option list"

definition import_entry :: "text_env \<Rightarrow> int \<Rightarrow> nat \<times> json \<Rightarrow> importing \<Rightarrow> importing" where
  "import_entry env now = (\<lambda>(k, e) s.
     case add_entry env (imported_entry e) (created_arg now e) (im_journal s) of
       Inl x \<Rightarrow> s\<lparr>im_ids := im_ids s @ [None], im_refused := im_refused s @ [(k, x)]\<rparr>
     | Inr (j, Written, i) \<Rightarrow>
         s\<lparr>im_journal := fold (close_imported env now i) (flag_items e) j, im_written := im_written s + 1, im_ids := im_ids s @ [Some i]\<rparr>
     | Inr (j, Deduped, i) \<Rightarrow> s\<lparr>im_journal := j, im_merged := im_merged s + 1, im_ids := im_ids s @ [Some i]\<rparr>)"

definition import_entries :: "text_env \<Rightarrow> int \<Rightarrow> json list \<Rightarrow> journal \<Rightarrow> importing" where
  "import_entries env now es j =
     fold (import_entry env now) (zip [0..<length es] es)
       \<lparr>im_journal = j, im_written = 0, im_merged = 0, im_refused = [], im_ids = []\<rparr>"

definition import_tool :: "'v world \<Rightarrow> int \<Rightarrow> json \<Rightarrow> 'v daemon \<Rightarrow> 'v run" where
  "import_tool w now args d =
     (case import_caller args of Inl e \<Rightarrow> (Inl e, d)
      | Inr c \<Rightarrow>
        case Option.bind (jget args ''entries'') as_array of None \<Rightarrow> (Inl EntriesRequired, d)
        | Some es \<Rightarrow>
          if max_import_batch < length es then (Inl (TooMany max_import_batch), d)
          else case open_target w c d of
            (Inr (Some f), d1) \<Rightarrow>
              let s = import_entries (w_text w) now es (jl_journal f)
              in (Inr (Imported (ca_project c) (im_written s) (im_merged s) (im_refused s) (im_ids s)),
                  put_journal w (ca_project c) (set_journal (im_journal s) f) d1)
          | (Inr None, d1) \<Rightarrow> (Inl (NoJournal (ca_project c)), d1)
          | (Inl e, d1) \<Rightarrow> (Inl e, d1))"

text \<open>A link is a list of two ids and a kind.\<close>

definition link_item :: "json \<Rightarrow> (int \<times> int \<times> string) option" where
  "link_item l =
     (case as_array l of None \<Rightarrow> None
      | Some (f # t # k # _) \<Rightarrow>
          (case (as_i64 f, as_i64 t, as_str k) of (Some f, Some t, Some k) \<Rightarrow> Some (f, t, k) | _ \<Rightarrow> None)
      | Some _ \<Rightarrow> None)"

definition import_link :: "json \<Rightarrow> journal \<times> nat \<times> nat \<times> nat \<Rightarrow> journal \<times> nat \<times> nat \<times> nat" where
  "import_link l = (\<lambda>(j, a, k, r).
     case link_item l of None \<Rightarrow> (j, a, k, r + 1)
     | Some (f, t, kind) \<Rightarrow>
       case link_entries f t kind j of Inl _ \<Rightarrow> (j, a, k, r + 1)
       | Inr (j', added) \<Rightarrow> if added then (j', a + 1, k, r) else (j', a, k + 1, r))"

definition import_links_tool :: "'v world \<Rightarrow> json \<Rightarrow> 'v daemon \<Rightarrow> 'v run" where
  "import_links_tool w args d =
     (case import_caller args of Inl e \<Rightarrow> (Inl e, d)
      | Inr c \<Rightarrow>
        case open_target w c d of
          (Inr (Some f), d1) \<Rightarrow>
            (case Option.bind (jget args ''links'') as_array of None \<Rightarrow> (Inl LinksRequired, d1)
             | Some ls \<Rightarrow>
               if max_import_batch * 8 < length ls then (Inl (TooMany (max_import_batch * 8)), d1)
               else let (j, a, k, r) = fold import_link ls (jl_journal f, 0, 0, 0)
                 in (Inr (Links_imported (ca_project c) a k r), put_journal w (ca_project c) (set_journal j f) d1))
        | (Inr None, d1) \<Rightarrow> (Inl (NoJournal (ca_project c)), d1)
        | (Inl e, d1) \<Rightarrow> (Inl e, d1))"

definition mindmap_export_tool :: "'v world \<Rightarrow> json \<Rightarrow> 'v daemon \<Rightarrow> 'v run" where
  "mindmap_export_tool w args =
     call w False (\<lambda>c. Inr ())
       (\<lambda>c _. reading (\<lambda>g. case g of None \<Rightarrow> Inr (Maps_exported (ca_project c) [])
          | Some g \<Rightarrow> map_sum MapError (Maps_exported (ca_project c)) (export_all (jl_db g)))) args"

definition import_one_map ::
  "'v world \<Rightarrow> int \<Rightarrow> utext option \<Rightarrow> nat \<times> json \<Rightarrow> mm_db \<times> nat \<times> nat \<times> (nat \<times> mm_error option) list
     \<Rightarrow> mm_db \<times> nat \<times> nat \<times> (nat \<times> mm_error option) list" where
  "import_one_map w now host = (\<lambda>(i, m) (db, imported, kept, refused).
     case w_map w m of None \<Rightarrow> (db, imported, kept, refused @ [(i, None)])
     | Some x \<Rightarrow>
       case import_map x host (w_token w (int i)) now db of
         Inl e \<Rightarrow> (db, imported, kept, refused @ [(i, Some e)])
       | Inr (db', Some _) \<Rightarrow> (db', imported + 1, kept, refused)
       | Inr (db', None) \<Rightarrow> (db', imported, kept + 1, refused))"

definition mindmap_import_tool :: "'v world \<Rightarrow> int \<Rightarrow> json \<Rightarrow> 'v daemon \<Rightarrow> 'v run" where
  "mindmap_import_tool w now args d =
     (case import_caller args of Inl e \<Rightarrow> (Inl e, d)
      | Inr c \<Rightarrow>
        case open_target w c d of
          (Inr (Some f), d1) \<Rightarrow>
            (case Option.bind (jget args ''maps'') as_array of None \<Rightarrow> (Inl MapsRequired, d1)
             | Some ms \<Rightarrow>
               let (db, imported, kept, refused) = fold (import_one_map w now (str_arg args ''host'')) (zip [0..<length ms] ms) (jl_db f, 0, 0, [])
               in (Inr (Maps_imported (ca_project c) imported kept refused), put_journal w (ca_project c) (f\<lparr>jl_db := db\<rparr>) d1))
        | (Inr None, d1) \<Rightarrow> (Inl (NoJournal (ca_project c)), d1)
        | (Inl e, d1) \<Rightarrow> (Inl e, d1))"

end
