(* ===== verification/MindmapTools.thy ===== *)
theory MindmapTools
  imports JournalTools
begin

text \<open>
  The \<open>journal_mindmap_*\<close> tools (\<open>daemon/mindmap_tools.rs\<close>) and the choice of a tool
  (\<open>journal_tools.rs\<close>, \<open>journal_dispatch\<close>, \<open>handle\<close>, \<open>handle_api\<close>).

  What is proved: whatever a session calls with its id and token reaches no journal file but its
  project's (and the one its directory had before, which it adopts), and through the map tools it
  changes no map that is neither its own nor shared.
\<close>

section \<open>Maps\<close>

definition owner_of :: "caller \<Rightarrow> tool_error + owner" where
  "owner_of c =
     (case ca_nick c of None \<Rightarrow> Inl NoNickYet
      | Some n \<Rightarrow> if n = [] then Inl NoNickYet else Inr \<lparr>ow_nick = n, ow_host = ca_host c\<rparr>)"

definition int_arg :: "json \<Rightarrow> string \<Rightarrow> tool_error + int" where
  "int_arg args k = (case get_i64 args k of None \<Rightarrow> Inl (MapRequired k) | Some i \<Rightarrow> Inr i)"

definition text_arg :: "json \<Rightarrow> string \<Rightarrow> tool_error + utext" where
  "text_arg args k = (case str_arg args k of None \<Rightarrow> Inl (TextRequired k) | Some t \<Rightarrow> Inr t)"

definition int_list :: "json \<Rightarrow> string \<Rightarrow> int list" where
  "int_list args k = (case Option.bind (jget args k) as_array of None \<Rightarrow> [] | Some xs \<Rightarrow> List.map_filter as_i64 xs)"

definition bind_tool :: "tool_error + 'a \<Rightarrow> ('a \<Rightarrow> tool_error + 'b) \<Rightarrow> tool_error + 'b" where
  "bind_tool x k = (case x of Inl e \<Rightarrow> Inl e | Inr v \<Rightarrow> k v)"

definition map_res :: "mm_error + 'a \<Rightarrow> tool_error + 'a" where
  "map_res = map_sum MapError id"

definition set_db :: "mm_db \<Rightarrow> 'v jfile \<Rightarrow> 'v jfile" where
  "set_db db f = f\<lparr>jl_db := db\<rparr>"

definition mm_new :: "'v world \<Rightarrow> int \<Rightarrow> json \<Rightarrow> 'v daemon \<Rightarrow> 'v run" where
  "mm_new w now args =
     call w True owner_of
       (\<lambda>c who. changing (\<lambda>g.
          bind_tool (text_arg args ''title'') (\<lambda>title.
          let layout = given_or (of_str ''mindmap'') (str_arg args ''layout'');
              shared = flag_set args ''shared'';
              spec = \<lparr>nm_title = title, nm_layout = layout,
                nm_direction = given_or (of_str ''down'') (str_arg args ''direction''), nm_shared = shared\<rparr>
          in bind_tool (map_res (create_map spec who (w_token w 0) now (jl_db g))) (\<lambda>(db, m, r).
             bind_tool (map_res (normalize_layout layout)) (\<lambda>l.
             Inr (Map_made (ca_project c) m r title l shared, set_db db g)))))) args"

definition mm_list :: "'v world \<Rightarrow> json \<Rightarrow> 'v daemon \<Rightarrow> 'v run" where
  "mm_list w args =
     call w False (\<lambda>c. Inr ())
       (\<lambda>c _. reading (\<lambda>g. case g of None \<Rightarrow> Inr (Maps_listed (ca_project c) [] False)
          | Some g \<Rightarrow>
            bind_tool (if ca_agent c = None then Inr None else map_sum id Some (owner_of c)) (\<lambda>viewer.
            Inr (Maps_listed (ca_project c)
              (map (\<lambda>m. (m, case viewer of None \<Rightarrow> False | Some v \<Rightarrow> owned_by m v)) (list_maps viewer (flag_set args ''closed'') (jl_db g)))
              (viewer \<noteq> None))))) args"

text \<open>\<open>load\<close>: the map a reading tool names.\<close>

definition mm_load :: "'v world \<Rightarrow> json \<Rightarrow> (caller \<Rightarrow> mmap \<Rightarrow> answer) \<Rightarrow> 'v daemon \<Rightarrow> 'v run" where
  "mm_load w args ans =
     call w False (\<lambda>c. int_arg args ''map'')
       (\<lambda>c m. reading (\<lambda>g. case g of None \<Rightarrow> Inl (NoMapHere m)
          | Some g \<Rightarrow>
            bind_tool (map_res (load m (jl_db g))) (\<lambda>found. case found of None \<Rightarrow> Inl (NoMapHere m) | Some x \<Rightarrow> Inr (ans c x)))) args"

definition is_mine :: "caller \<Rightarrow> mmap \<Rightarrow> bool" where
  "is_mine c x \<longleftrightarrow> ca_agent c = None \<or> (case owner_of c of Inl _ \<Rightarrow> False | Inr who \<Rightarrow> owned_by (mm_summary x) who)"

definition mm_show :: "'v world \<Rightarrow> json \<Rightarrow> 'v daemon \<Rightarrow> 'v run" where
  "mm_show w args =
     mm_load w args (\<lambda>c x. Map_shown (ca_project c) (outline x) (\<not> (is_mine c x \<or> su_shared (mm_summary x))) x)"

definition mm_present :: "string \<Rightarrow> 'v world \<Rightarrow> json \<Rightarrow> 'v daemon \<Rightarrow> 'v run" where
  "mm_present tool w args = mm_load w args (\<lambda>c x. Presented (ca_project c) (su_id (mm_summary x)) (w_present w tool x args))"

text \<open>The operator's terminal has no agent: it may delete and share any map.\<close>

definition checked :: "(owner \<Rightarrow> mm_db \<Rightarrow> mm_error + unit) \<Rightarrow> caller \<Rightarrow> mm_db \<Rightarrow> tool_error + unit" where
  "checked chk c db =
     (if ca_agent c = None then Inr () else bind_tool (owner_of c) (\<lambda>who. map_res (chk who db)))"

definition mm_delete :: "'v world \<Rightarrow> json \<Rightarrow> 'v daemon \<Rightarrow> 'v run" where
  "mm_delete w args =
     call w False (\<lambda>c. int_arg args ''map'')
       (\<lambda>c m f. case f of None \<Rightarrow> (Inl (NoMapHere m), None)
          | Some g \<Rightarrow>
            changing (\<lambda>g. bind_tool (checked (check_write m) c (jl_db g)) (\<lambda>_.
              bind_tool (map_res (delete_map m (jl_db g))) (\<lambda>db. Inr (Map_deleted (ca_project c) m, set_db db g)))) f) args"

definition mm_share :: "'v world \<Rightarrow> int \<Rightarrow> json \<Rightarrow> 'v daemon \<Rightarrow> 'v run" where
  "mm_share w now args =
     (let on = (get_bool args ''shared'' \<noteq> Some False) in
      call w False (\<lambda>c. int_arg args ''map'')
       (\<lambda>c m f. case f of None \<Rightarrow> (Inl (NoMapHere m), None)
          | Some g \<Rightarrow>
            changing (\<lambda>g. bind_tool (checked (if on then check_owner m else check_write m) c (jl_db g)) (\<lambda>_.
              bind_tool (map_res (set_shared m on now (jl_db g))) (\<lambda>db. Inr (Map_shared (ca_project c) m on, set_db db g)))) f) args)"

section \<open>Writing to a map\<close>

text \<open>One change of map \<open>m\<close> by \<open>who\<close>: the tables and the id or number the answer carries.\<close>

definition with_id :: "int \<Rightarrow> tool_error + mm_db \<Rightarrow> tool_error + mm_db \<times> int \<times> nat" where
  "with_id i r = map_sum id (\<lambda>db. (db, i, 0)) r"

definition add_change :: "int \<Rightarrow> owner \<Rightarrow> int \<Rightarrow> json \<Rightarrow> mm_db \<Rightarrow> tool_error + mm_db \<times> int \<times> nat" where
  "add_change m who now args db =
     bind_tool (text_arg args ''text'') (\<lambda>t.
       map_sum MapError (\<lambda>(db', n). (db', n, 0))
         (add_node m \<lparr>nn_parent = get_i64 args ''parent'', nn_after = get_i64 args ''after'', nn_label = given_or [] (str_arg args ''label''),
            nn_kind = given_or [] (str_arg args ''kind''), nn_text = t, nn_refs = int_list args ''refs'', nn_author = Some (ow_nick who)\<rparr> now db))"

definition move_change :: "int \<Rightarrow> int \<Rightarrow> json \<Rightarrow> mm_db \<Rightarrow> tool_error + mm_db \<times> int \<times> nat" where
  "move_change m now args db =
     bind_tool (int_arg args ''node'') (\<lambda>n. bind_tool (int_arg args ''parent'') (\<lambda>p.
       with_id n (case move_node m n p now db of None \<Rightarrow> Inl NeverAnswers | Some r \<Rightarrow> map_res r)))"

definition ref_change :: "int \<Rightarrow> int \<Rightarrow> json \<Rightarrow> mm_db \<Rightarrow> tool_error + mm_db \<times> int \<times> nat" where
  "ref_change m now args db =
     bind_tool (case (get_i64 args ''node'', get_i64 args ''link'') of
         (Some n, None) \<Rightarrow> Inr (Node n) | (None, Some l) \<Rightarrow> Inr (Link l) | _ \<Rightarrow> Inl OneTarget) (\<lambda>t.
       map_sum MapError (\<lambda>(db', n). (db', 0, n))
         ((if flag_set args ''remove'' then remove_refs else add_refs) m t (int_list args ''entries'') now db))"

definition chain_change :: "int \<Rightarrow> int \<Rightarrow> json \<Rightarrow> mm_db \<Rightarrow> tool_error + mm_db \<times> int \<times> nat" where
  "chain_change m now args db =
     bind_tool (text_arg args ''name'') (\<lambda>name.
       if flag_set args ''remove'' then with_id 0 (map_res (remove_chain m name now db))
       else map_sum MapError (\<lambda>(db', i). (db', i, 0)) (add_chain m name (int_list args ''entries'') now db))"

definition map_change :: "string \<Rightarrow> int \<Rightarrow> owner \<Rightarrow> int \<Rightarrow> json \<Rightarrow> mm_db \<Rightarrow> tool_error + mm_db \<times> int \<times> nat" where
  "map_change tool m who now args db =
     (if tool = ''journal_mindmap_add'' then add_change m who now args db
      else if tool = ''journal_mindmap_edit'' then
        bind_tool (int_arg args ''node'') (\<lambda>n.
          with_id n (map_res (edit_node m n (str_arg args ''text'') (str_arg args ''kind'') now db)))
      else if tool = ''journal_mindmap_move'' then move_change m now args db
      else if tool = ''journal_mindmap_state'' then
        bind_tool (int_arg args ''node'') (\<lambda>n. bind_tool (text_arg args ''state'') (\<lambda>s.
          with_id n (map_res (set_node_state m n (bytes_of s) now db))))
      else if tool = ''journal_mindmap_remove'' then
        bind_tool (int_arg args ''node'') (\<lambda>n. map_sum MapError (\<lambda>(db', k). (db', n, k)) (remove_node m n now db))
      else if tool = ''journal_mindmap_link'' then
        bind_tool (int_arg args ''from'') (\<lambda>f. bind_tool (int_arg args ''to'') (\<lambda>t.
          map_sum MapError (\<lambda>(db', i). (db', i, 0))
            (add_edge m f t (given_or [] (str_arg args ''label'')) (int_list args ''refs'') now db)))
      else if tool = ''journal_mindmap_unlink'' then
        bind_tool (int_arg args ''link'') (\<lambda>l. with_id l (map_res (remove_edge m l now db)))
      else if tool = ''journal_mindmap_ref'' then ref_change m now args db
      else if tool = ''journal_mindmap_chain'' then chain_change m now args db
      else if tool = ''journal_mindmap_close'' then with_id 0 (map_res (set_map_state m (flag_set args ''open'') now db))
      else Inl (UnknownTool tool))"

definition mm_write :: "string \<Rightarrow> 'v world \<Rightarrow> int \<Rightarrow> json \<Rightarrow> 'v daemon \<Rightarrow> 'v run" where
  "mm_write tool w now args =
     call w True owner_of
       (\<lambda>c who. changing (\<lambda>g.
          bind_tool (int_arg args ''map'') (\<lambda>m.
          bind_tool (map_res (check_write m who (jl_db g))) (\<lambda>_.
          bind_tool (map_change tool m who now args (jl_db g)) (\<lambda>(db, i, n).
          Inr (Map_changed (ca_project c) m i n, set_db db g)))))) args"

definition mindmap_tool :: "string \<Rightarrow> 'v world \<Rightarrow> int \<Rightarrow> json \<Rightarrow> 'v daemon \<Rightarrow> 'v run" where
  "mindmap_tool tool w now args =
     (if tool = ''journal_mindmap_new'' then mm_new w now args
      else if tool = ''journal_mindmap_list'' then mm_list w args
      else if tool = ''journal_mindmap_show'' then mm_show w args
      else if tool \<in> {''journal_mindmap_svg'', ''journal_mindmap_send'', ''journal_mindmap_url''} then mm_present tool w args
      else if tool = ''journal_mindmap_delete'' then mm_delete w args
      else if tool = ''journal_mindmap_share'' then mm_share w now args
      else mm_write tool w now args)"

text \<open>\<open>find_by_token\<close>: the live page's map, in whichever journal it is.\<close>

definition is_hex :: "char \<Rightarrow> bool" where
  "is_hex c = (is_ascii_digit (of_char c) \<or> 65 \<le> (of_char c :: nat) \<and> (of_char c :: nat) \<le> 70 \<or> 97 \<le> (of_char c :: nat) \<and> (of_char c :: nat) \<le> 102)"

fun token_among :: "'v world \<Rightarrow> string \<Rightarrow> journal_info list \<Rightarrow> 'v daemon \<Rightarrow> (tool_error + mmap option) \<times> 'v daemon" where
  "token_among w tok [] d = (Inr None, d)"
| "token_among w tok (i # is) d =
     (case open_file w (ji_project i) False d of
        (Inl e, d1) \<Rightarrow> (Inl e, d1)
      | (Inr None, d1) \<Rightarrow> token_among w tok is d1
      | (Inr (Some f), d1) \<Rightarrow>
          (case find (\<lambda>m. mp_token m = tok) (mm_maps (jl_db f)) of None \<Rightarrow> token_among w tok is d1
           | Some m \<Rightarrow> (map_res (load (mp_id m) (jl_db f)), d1)))"

definition find_by_token :: "'v world \<Rightarrow> string \<Rightarrow> 'v daemon \<Rightarrow> (tool_error + mmap option) \<times> 'v daemon" where
  "find_by_token w tok d =
     (if length tok \<noteq> 32 \<or> \<not> list_all is_hex tok then (Inr None, d)
      else let d1 = open_all w d in token_among w tok (list_journals (dn_store d1)) d1)"

section \<open>Dispatch\<close>

definition journal_dispatch :: "string \<Rightarrow> 'v world \<Rightarrow> int \<Rightarrow> json \<Rightarrow> 'v daemon \<Rightarrow> 'v run" where
  "journal_dispatch tool w now args d =
     (if tool = ''journal_add'' then add_tool w now args d
      else if tool = ''journal_search'' then search_tool w now args d
      else if tool = ''journal_list'' then list_tool w now args d
      else if tool = ''journal_get'' then get_tool w args d
      else if tool = ''journal_delete'' then delete_tool w args d
      else if tool = ''journal_tags'' then tags_tool w args d
      else if tool = ''journal_categories'' then categories_tool w args d
      else if tool = ''journal_gc'' then gc_tool w now args d
      else if tool = ''journal_projects'' then projects_tool w d
      else if tool = ''journal_import'' then import_tool w now args d
      else if tool = ''journal_import_links'' then import_links_tool w args d
      else if tool = ''journal_mindmap_export'' then mindmap_export_tool w args d
      else if tool = ''journal_mindmap_import'' then mindmap_import_tool w now args d
      else if tool = ''journal_mark'' then mark_tool w now args d
      else if tool = ''journal_unmark'' then unmark_tool w args d
      else if tool = ''journal_close'' then close_tool w now args d
      else if tool = ''journal_reopen'' then reopen_tool w args d
      else if tool = ''journal_agenda'' then agenda_tool w args d
      else if tool = ''journal_link'' then link_tool w args d
      else if tool = ''journal_branch'' then branch_tool w args d
      else if tool = ''journal_share'' then share_tool w now args d
      else if tool = ''journal_unshare'' then unshare_tool w args d
      else if tool = ''journal_shares'' then shares_tool d
      else if tool = ''journal_feedback'' then feedback_tool w args d
      else if tool = ''journal_policy'' then policy_tool w args d
      else if tool = ''journal_unlink'' then unlink_tool w args d
      else if starts_with tool ''journal_mindmap_'' then mindmap_tool tool w now args d
      else (Inl (UnknownTool tool), d))"

definition handle :: "string \<Rightarrow> 'v world \<Rightarrow> int \<Rightarrow> json \<Rightarrow> 'v daemon \<Rightarrow> 'v run" where
  "handle tool w now args = journal_dispatch tool w now (without api_caller args)"

definition handle_api :: "string \<Rightarrow> string \<Rightarrow> string \<Rightarrow> 'v world \<Rightarrow> int \<Rightarrow> json \<Rightarrow> 'v daemon \<Rightarrow> 'v run" where
  "handle_api tool project_id author w now args =
     journal_dispatch tool w now (with_member api_caller (JObj [(''project_id'', JStr project_id), (''author'', JStr author)]) args)"

section \<open>What a call may touch\<close>

text \<open>What an operation on two files leaves alone, and what it depends on.\<close>

lemma open_journal_frame:
  "n \<noteq> journal_file_name env project \<Longrightarrow> file_at n (snd (open_journal env project crt s)) = file_at n s"
  by (auto simp: open_journal_def Let_def split: option.splits)

lemma adopt_frame:
  "n \<noteq> journal_file_name env key \<Longrightarrow> n \<noteq> journal_file_name env path
     \<Longrightarrow> file_at n (fst (adopt_path_journal env key path s)) = file_at n s"
  by (auto simp: adopt_path_journal_def Let_def split: option.splits)

definition dn_file :: "utext \<Rightarrow> 'v daemon \<Rightarrow> 'v jfile option" where
  "dn_file n d = file_at n (dn_store d)"

text \<open>The two files a session's call may touch.\<close>

definition own_files :: "'v world \<Rightarrow> caller \<Rightarrow> utext set" where
  "own_files w c = {journal_file_name (w_text w) (ca_project c), journal_file_name (w_text w) (ca_path c)}"

definition same_but :: "utext set \<Rightarrow> 'v daemon \<Rightarrow> 'v daemon \<Rightarrow> bool" where
  "same_but ns d d' \<longleftrightarrow> dn_agents d' = dn_agents d \<and> dn_shares d' = dn_shares d \<and> (\<forall>n. n \<notin> ns \<longrightarrow> dn_file n d' = dn_file n d)"

lemma same_but_refl [simp]: "same_but ns d d"
  by (simp add: same_but_def)

lemma same_but_trans [trans]: "same_but ns d d' \<Longrightarrow> same_but ns d' d'' \<Longrightarrow> same_but ns d d''"
  by (simp add: same_but_def)

lemma own_project [simp]: "journal_file_name (w_text w) (ca_project c) \<in> own_files w c"
  by (simp add: own_files_def)

lemma open_file_same:
  assumes "journal_file_name (w_text w) project \<in> ns"
  shows "same_but ns d (snd (open_file w project crt d))"
proof -
  obtain r s where o: "open_journal (w_text w) project crt (dn_store d) = (r, s)" by fastforce
  have "file_at n s = file_at n (dn_store d)" if "n \<notin> ns" for n
    using that assms open_journal_frame [of n "w_text w" project crt "dn_store d"] o by auto
  then show ?thesis by (cases r) (simp_all add: same_but_def dn_file_def open_file_def o)
qed

lemma adopt_same: "same_but (own_files w c) d (adopt w c d)"
  by (auto simp: same_but_def dn_file_def adopt_def on_store_def own_files_def adopt_frame)

lemma put_journal_same:
  "same_but ns d d' \<Longrightarrow> journal_file_name (w_text w) project \<in> ns \<Longrightarrow> same_but ns d (put_journal w project f d')"
  by (auto simp: same_but_def dn_file_def put_journal_def on_store_def)

lemma open_caller_same: "same_but (own_files w c) d (snd (open_caller w c d))"
proof (cases "ca_agent c = None")
  case True
  then show ?thesis by (simp add: open_caller_def open_file_same)
next
  case False
  obtain r d1 where o: "open_file w (ca_project c) True (adopt w c d) = (r, d1)" by fastforce
  have "same_but (own_files w c) (adopt w c d) d1"
    using open_file_same [of w "ca_project c" "own_files w c" "adopt w c d" True] by (simp add: o)
  with adopt_same have "same_but (own_files w c) d d1" by (rule same_but_trans)
  then show ?thesis
    using False by (auto simp: open_caller_def o Let_def intro: put_journal_same split: sum.splits option.splits)
qed

lemma call_same:
  assumes "resolve w args need d = Inr c"
  shows "same_but (own_files w c) d (snd (call w need pre act args d))"
proof (cases "pre c")
  case (Inr x)
  obtain r d1 where o: "open_caller w c d = (r, d1)" by fastforce
  with open_caller_same [of w c d] have "same_but (own_files w c) d d1" by simp
  then show ?thesis
    using assms Inr o by (auto simp: call_def Let_def intro: put_journal_same split: prod.splits sum.splits option.splits)
qed (simp add: call_def assms)

lemma call_refused: "resolve w args need d = Inl e \<Longrightarrow> call w need pre act args d = (Inl e, d)"
  by (simp add: call_def)

section \<open>What a call sees\<close>

text \<open>Two states that agree on the registry, the shares and some files.\<close>

definition agree :: "utext set \<Rightarrow> 'v daemon \<Rightarrow> 'v daemon \<Rightarrow> bool" where
  "agree ns d e \<longleftrightarrow> dn_agents e = dn_agents d \<and> dn_shares e = dn_shares d \<and> (\<forall>n \<in> ns. dn_file n e = dn_file n d)"

text \<open>A step on the files: it gives the same answer in both, and they still agree.\<close>

definition sees_only :: "utext set \<Rightarrow> ('v daemon \<Rightarrow> 'a \<times> 'v daemon) \<Rightarrow> bool" where
  "sees_only ns run \<longleftrightarrow> (\<forall>d e. agree ns d e \<longrightarrow> fst (run e) = fst (run d) \<and> agree ns (snd (run d)) (snd (run e)))"

lemma put_journal_agree: "agree ns d e \<Longrightarrow> agree ns (put_journal w project f d) (put_journal w project f e)"
  by (simp add: agree_def dn_file_def put_journal_def on_store_def)

lemma open_file_sees: "journal_file_name (w_text w) project \<in> ns \<Longrightarrow> sees_only ns (open_file w project crt)"
  by (auto simp: sees_only_def agree_def dn_file_def open_file_def open_journal_def Let_def split: option.splits)

lemma adopt_agree: "own_files w c \<subseteq> ns \<Longrightarrow> agree ns d e \<Longrightarrow> agree ns (adopt w c d) (adopt w c e)"
  by (auto simp: agree_def dn_file_def adopt_def on_store_def own_files_def adopt_path_journal_def Let_def split: option.splits)

lemma open_caller_sees:
  assumes "own_files w c \<subseteq> ns"
  shows "sees_only ns (open_caller w c)"
proof -
  have k: "journal_file_name (w_text w) (ca_project c) \<in> ns" using assms by (simp add: own_files_def)
  have "fst (open_caller w c e) = fst (open_caller w c d) \<and> agree ns (snd (open_caller w c d)) (snd (open_caller w c e))"
    if a: "agree ns d e" for d e
  proof (cases "ca_agent c = None")
    case True
    then show ?thesis using open_file_sees [OF k] a by (simp add: open_caller_def sees_only_def)
  next
    case False
    obtain r d1 where o: "open_file w (ca_project c) True (adopt w c d) = (r, d1)" by fastforce
    obtain r' e1 where o': "open_file w (ca_project c) True (adopt w c e) = (r', e1)" by fastforce
    have "r' = r \<and> agree ns d1 e1"
      using open_file_sees [OF k, of True] adopt_agree [OF assms a] o o' by (fastforce simp: sees_only_def)
    then show ?thesis
      using False by (auto simp: open_caller_def o o' Let_def intro: put_journal_agree split: sum.splits option.splits)
  qed
  then show ?thesis by (simp add: sees_only_def)
qed

lemma call_sees:
  assumes r: "\<And>d e. agree ns d e \<Longrightarrow> resolve w args need e = resolve w args need d"
    and c: "\<And>d c. agree ns d0 d \<Longrightarrow> resolve w args need d = Inr c \<Longrightarrow> own_files w c \<subseteq> ns"
    and a: "agree ns d0 d" "agree ns d e"
  shows "fst (call w need pre act args e) = fst (call w need pre act args d)
    \<and> agree ns (snd (call w need pre act args d)) (snd (call w need pre act args e))"
proof (cases "resolve w args need d")
  case (Inr c0)
  show ?thesis
  proof (cases "pre c0")
    case (Inr x)
    obtain f d1 where o: "open_caller w c0 d = (f, d1)" by fastforce
    obtain f' e1 where o': "open_caller w c0 e = (f', e1)" by fastforce
    have "f' = f \<and> agree ns d1 e1"
      using open_caller_sees [OF c [OF a(1) \<open>resolve w args need d = Inr c0\<close>]] a(2) o o' by (fastforce simp: sees_only_def)
    then show ?thesis
      using Inr \<open>resolve w args need d = Inr c0\<close> r [OF a(2)]
      by (auto simp: call_def o o' Let_def intro: put_journal_agree split: prod.splits sum.splits option.splits)
  qed (use Inr r [OF a(2)] a(2) in \<open>simp add: call_def\<close>)
qed (use r [OF a(2)] a(2) in \<open>simp add: call_def\<close>)


section \<open>Sessions\<close>

definition session_args :: "json \<Rightarrow> (utext \<times> utext) option" where
  "session_args args =
     (case (str_arg args ''agent_id'', str_arg args ''session_token'') of (Some a, Some t) \<Rightarrow> Some (a, t) | _ \<Rightarrow> None)"

text \<open>The tools that do not act on the caller's journal, by design.\<close>

definition beyond_session :: "string list" where
  "beyond_session = [''journal_projects'', ''journal_import'', ''journal_import_links'', ''journal_mindmap_import'',
     ''journal_share'', ''journal_unshare'', ''journal_shares'', ''journal_feedback'']"

text \<open>A run bounded by the caller \<open>res\<close> finds: it acts on that caller's files and sees no other.\<close>

definition bounded :: "'v world \<Rightarrow> ('v daemon \<Rightarrow> tool_error + caller) \<Rightarrow> ('v daemon \<Rightarrow> 'v run) \<Rightarrow> bool" where
  "bounded w res run \<longleftrightarrow> (\<forall>d. case res d of
     Inl _ \<Rightarrow> snd (run d) = d \<and> (\<forall>e. agree {} d e \<longrightarrow> fst (run e) = fst (run d))
   | Inr c \<Rightarrow> same_but (own_files w c) d (snd (run d))
       \<and> (\<forall>e. agree (own_files w c) d e \<longrightarrow> fst (run e) = fst (run d) \<and> agree (own_files w c) (snd (run d)) (snd (run e))))"

definition stable :: "('v daemon \<Rightarrow> tool_error + caller) \<Rightarrow> bool" where
  "stable res \<longleftrightarrow> (\<forall>ns d e. agree ns d e \<longrightarrow> res e = res d)"

lemma jget_without [simp]: "k \<noteq> k' \<Longrightarrow> jget (without k' v) k = jget v k"
proof (cases v)
  case (JObj m)
  have "k \<noteq> k' \<Longrightarrow> map_of (filter (\<lambda>x. fst x \<noteq> k') m) k = map_of m k" by (induction m) auto
  then show "k \<noteq> k' \<Longrightarrow> jget (without k' v) k = jget v k" by (simp add: JObj)
qed simp_all

lemma jget_without_self [simp]: "jget (without k v) k = None"
proof (cases v)
  case (JObj m)
  have "map_of (filter (\<lambda>x. fst x \<noteq> k) m) k = None" by (induction m) auto
  then show ?thesis by (simp add: JObj)
qed simp_all

lemma str_arg_without [simp]: "k \<noteq> k' \<Longrightarrow> str_arg (without k' v) k = str_arg v k"
  by (simp add: str_arg_def get_str_def)

lemma resolve_session:
  assumes "session_args args = Some (a, t)"
  shows "resolve w (without api_caller args) need d = session_call w a t d"
  using assms by (auto simp: session_args_def resolve_def api_caller_def split: option.splits)

lemma session_call_stable: "stable (session_call w a t)"
proof -
  have "session_call w a t e = session_call w a t d" if "agree ns d e" for ns d e
  proof -
    have eq: "dn_agents e = dn_agents d" "dn_shares e = dn_shares d" using that by (simp_all add: agree_def)
    show ?thesis unfolding session_call_def eq ..
  qed
  then show ?thesis by (simp add: stable_def)
qed

lemma call_bounded:
  assumes st: "stable res" and r: "\<And>d. resolve w args need d = res d"
  shows "bounded w res (call w need pre act args)"
proof -
  have "case res d of Inl _ \<Rightarrow> snd (call w need pre act args d) = d \<and> (\<forall>e. agree {} d e \<longrightarrow> fst (call w need pre act args e) = fst (call w need pre act args d))
    | Inr c \<Rightarrow> same_but (own_files w c) d (snd (call w need pre act args d))
       \<and> (\<forall>e. agree (own_files w c) d e \<longrightarrow> fst (call w need pre act args e) = fst (call w need pre act args d)
           \<and> agree (own_files w c) (snd (call w need pre act args d)) (snd (call w need pre act args e)))" for d
  proof (cases "res d")
    case (Inl e)
    have "fst (call w need pre act args d') = Inl e \<and> snd (call w need pre act args d') = d'" if "agree {} d d'" for d'
    proof -
      have "res d' = res d" using st that by (simp add: stable_def)
      then have "resolve w args need d' = Inl e" using Inl by (simp add: r)
      then show ?thesis by (simp add: call_refused)
    qed
    moreover have "agree {} d d" by (simp add: agree_def)
    ultimately show ?thesis using Inl by auto
  next
    case (Inr c)
    have "fst (call w need pre act args e) = fst (call w need pre act args d)
       \<and> agree (own_files w c) (snd (call w need pre act args d)) (snd (call w need pre act args e))"
      if "agree (own_files w c) d e" for e
    proof (rule call_sees [of "own_files w c" w args need d d e])
      show "agree (own_files w c) d d" by (simp add: agree_def)
      show "agree (own_files w c) d e" by (rule that)
      show "resolve w args need e' = resolve w args need d'" if "agree (own_files w c) d' e'" for d' e'
        using st that by (simp add: r stable_def)
      show "own_files w c' \<subseteq> own_files w c" if "agree (own_files w c) d d'" "resolve w args need d' = Inr c'" for d' c'
        using that st Inr by (auto simp: r stable_def)
    qed
    then show ?thesis using call_same [of w args need d c] Inr r by simp
  qed
  then show ?thesis by (simp add: bounded_def)
qed

lemma refused_bounded: "bounded w res (\<lambda>d. (Inl e, d))"
  by (simp add: bounded_def split: sum.splits)

lemma bounded_if:
  "(b \<Longrightarrow> bounded w res f) \<Longrightarrow> (\<not> b \<Longrightarrow> bounded w res g) \<Longrightarrow> bounded w res (\<lambda>d. if b then f d else g d)"
  by (cases b) simp_all

lemmas tool_defs = add_tool_def search_tool_def list_tool_def get_tool_def delete_tool_def tags_tool_def categories_tool_def
  gc_tool_def mindmap_export_tool_def mark_tool_def unmark_tool_def close_tool_def reopen_tool_def flag_tool_def agenda_tool_def
  link_tool_def branch_tool_def unlink_tool_def mm_new_def mm_list_def mm_show_def mm_present_def mm_load_def mm_delete_def
  mm_share_def mm_write_def

lemma dispatch_bounded:
  assumes st: "stable res" and r: "\<And>need d. resolve w x need d = res d" and tool: "tool \<notin> set beyond_session"
  shows "bounded w res (journal_dispatch tool w now x)"
proof -
  note call = call_bounded [of res w x _, OF st r]
  have policy: "bounded w res (policy_tool w x)"
  proof (cases "get_bool x ''evidence_first'' \<noteq> None \<and> (str_arg x ''agent_id'' \<noteq> None \<or> jget x api_caller \<noteq> None)")
    case True
    then have "policy_tool w x = (\<lambda>d. (Inl OperatorOnly, d))" by (intro ext) (simp add: policy_tool_def Let_def)
    then show ?thesis by (simp add: refused_bounded)
  next
    case False
    then have "\<exists>act. policy_tool w x = call w False (\<lambda>c. Inr ()) act x"
      unfolding policy_tool_def Let_def by (intro exI ext) (rule if_not_P)
    then show ?thesis using call by auto
  qed
  have mm: "bounded w res (mindmap_tool tool w now x)"
    unfolding mindmap_tool_def tool_defs Let_def by (simp add: call)
  show ?thesis
    unfolding journal_dispatch_def
    by (intro bounded_if) (use tool in \<open>simp_all add: beyond_session_def call policy mm refused_bounded tool_defs Let_def\<close>)
qed

lemma handle_bounded:
  assumes "session_args args = Some (a, t)" and "tool \<notin> set beyond_session"
  shows "bounded w (session_call w a t) (handle tool w now args)"
  unfolding handle_def by (rule dispatch_bounded [OF session_call_stable resolve_session [OF assms(1)] assms(2)])

text \<open>
  A session reaches only its own project's journal, for writing: whatever tool it calls with its id and
  token, with whatever arguments, every journal file but the one of the project its registry row names (and the
  one filed under its directory, which is adopted into it) is left as it was, and so are the registry and the
  shares; a pair that is not an alive session's changes nothing at all. Left out are the tools that by design
  act elsewhere: imports, sharing, and the operator's lists.
\<close>

theorem session_writes_only_its_journal:
  assumes "session_args args = Some (a, t)" "tool \<notin> set beyond_session"
  shows "case session_call w a t d of Inl e \<Rightarrow> snd (handle tool w now args d) = d
    | Inr c \<Rightarrow> same_but (own_files w c) d (snd (handle tool w now args d))"
  using handle_bounded [OF assms, of w now] by (auto simp: bounded_def split: sum.splits)


section \<open>Witnesses\<close>

definition lone :: "unit world" where
  "lone = \<lparr>w_text = plain_env, w_host = [109], w_insights = (\<lambda>_. None), w_services = by_meaning, w_query = (\<lambda>_. None),
     w_token = (\<lambda>_. ''t''), w_map = (\<lambda>_. None), w_present = (\<lambda>_ _ _. JNull)\<rparr>"

text \<open>Session a1, named ann, with token t, in /a; another project, /b, has a journal.\<close>

definition ann_row :: agent_row where
  "ann_row = \<lparr>ar_id = ''a1'', ar_name = ''ann'', ar_conn = ''c'', ar_thread = None, ar_spawned = 1, ar_pinged = 1,
     ar_state = Alive, ar_metadata = None, ar_rchat = None, ar_rthread = None, ar_last_user = None, ar_host = None,
     ar_cwd = Some ''/a'', ar_pid = None, ar_token = Some ''t'', ar_project = None, ar_branch = None, ar_wdir = None,
     ar_feature = None, ar_dnd = None, ar_session = None, ar_terminal = None\<rparr>"

definition desk :: "unit daemon" where
  "desk = \<lparr>dn_agents = [ann_row], dn_shares = [],
     dn_store = \<lparr>st_files = [(journal_file_name plain_env [47, 98], new_file [47, 98])], st_aside = []\<rparr>\<rparr>"

definition ann_args :: "(string \<times> json) list \<Rightarrow> json" where
  "ann_args rest = JObj ([(''agent_id'', JStr ''a1''), (''session_token'', JStr ''t'')] @ rest)"

definition ann_call :: caller where
  "ann_call = \<lparr>ca_project = [47, 97], ca_path = [47, 97], ca_agent = Some (of_str ''a1''), ca_nick = Some (of_str ''ann''), ca_host = Some [109]\<rparr>"

lemma ann_session: "session_args (ann_args rest) = Some (of_str ''a1'', of_str ''t'')"
  by (simp add: session_args_def ann_args_def str_arg_def text_of_def of_str_def utf8_decode.simps trim_def is_white_def Let_def)

lemma shared_key_none [simp]: "shared_key host path [] = None"
  by (simp add: shared_key_def List.map_filter_def)

lemma ann_resolves: "session_call lone (of_str ''a1'') (of_str ''t'') desk = Inr ann_call"
  by (simp add: session_call_def desk_def ann_row_def lone_def ann_call_def resolve_session_token_def row_of_def alive_def
      bytes_of_ascii text_of_def utf8_decode.simps given_or_def Let_def project_key_def) (simp_all add: of_str_def utf8_decode.simps)

lemma desk_names: "journal_file_name plain_env [47, 98] \<notin> own_files lone ann_call"
  by (simp add: own_files_def lone_def ann_call_def journal_file_name_def plain_env_def last_name_def safe_char_def
      trim_matches_def of_str_def Let_def is_ascii_alnum_def is_ascii_alpha_def is_ascii_digit_def)

theorem session_writes_only_its_journal_witness:
  "dn_file (journal_file_name plain_env [47, 98]) (snd (handle ''journal_add'' lone 5 (ann_args [(''body'', JStr ''x'')]) desk))
     = Some (new_file [47, 98])"
proof -
  have "same_but (own_files lone ann_call) desk (snd (handle ''journal_add'' lone 5 (ann_args [(''body'', JStr ''x'')]) desk))"
    using session_writes_only_its_journal [OF ann_session [of "[(''body'', JStr ''x'')]"], where tool = "''journal_add''" and w = lone and d = desk and now = 5]
    by (simp add: ann_resolves beyond_session_def)
  then show ?thesis using desk_names by (simp add: same_but_def dn_file_def desk_def file_at_def)
qed


section \<open>Other maps\<close>

text \<open>What a map is made of: its row, its nodes and the rows of its chains.\<close>

definition map_rows :: "int \<Rightarrow> mm_db \<Rightarrow> map_row rows \<times> node_row rows \<times> chain_row rows" where
  "map_rows m d = (filter (\<lambda>r. mp_id r = m) (mm_maps d), filter (\<lambda>n. nd_map n = m) (mm_nodes d), filter (\<lambda>c. ch_map c = m) (mm_chains d))"

lemma map_rows_journal [simp]: "map_rows m (d\<lparr>mm_journal := j\<rparr>) = map_rows m d"
  by (simp add: map_rows_def)

lemma filter_upd_other: "(\<And>r. r \<in> set t \<Longrightarrow> q r \<Longrightarrow> \<not> p r \<and> \<not> p (f r)) \<Longrightarrow> filter p (upd_where q f t) = filter p t"
  by (induction t) (auto simp: upd_where_def)

lemma filter_del_other: "(\<And>r. r \<in> set t \<Longrightarrow> q r \<Longrightarrow> \<not> p r) \<Longrightarrow> filter p (del_where q t) = filter p t"
  by (induction t) (auto simp: del_where_def)

lemma set_map_rows: "m' \<noteq> m \<Longrightarrow> (\<And>r. mp_id (f r) = mp_id r) \<Longrightarrow> map_rows m' (set_map m f d) = map_rows m' d"
  by (simp add: map_rows_def set_map_def) (auto intro!: filter_upd_other)

lemma touch_rows [simp]: "m' \<noteq> m \<Longrightarrow> map_rows m' (touch m now d) = map_rows m' d"
  by (simp add: touch_def set_map_rows)

lemma refs_rows [simp]: "map_rows m' (fst (insert_refs tg es d)) = map_rows m' d" "map_rows m' (fst (drop_refs tg es d)) = map_rows m' d"
  by (cases tg; simp add: map_rows_def Let_def)+

lemma edges_rows [simp]: "map_rows m' (delete_edges p d) = map_rows m' d" "map_rows m' (d\<lparr>mm_edges := es\<rparr>) = map_rows m' d"
  by (simp_all add: map_rows_def delete_edges_def)

lemma chains_rows: "(\<And>c. p c \<Longrightarrow> ch_map c \<noteq> m') \<Longrightarrow> map_rows m' (delete_chains p d) = map_rows m' d"
  by (simp add: map_rows_def delete_chains_def) (auto intro!: filter_del_other)

lemma node_map_pk:
  assumes "trees d" "node_in m n d" "r \<in> set (mm_nodes d)" "nd_id r = n"
  shows "nd_map r = m"
  using assms node_in_row [OF assms(2)] pk_eq by (fastforce simp: trees_def forest_def grove_def)

lemma set_node_rows:
  assumes "trees d" "node_in m n d" "m' \<noteq> m" "\<And>r. nd_map (f r) = nd_map r"
  shows "map_rows m' (set_node n f d) = map_rows m' d"
  using node_map_pk [OF assms(1,2)] assms(3,4)
  by (simp add: map_rows_def set_node_def) (auto intro!: filter_upd_other)

lemma delete_nodes_rows:
  assumes "\<And>r. r \<in> set (mm_nodes d) \<Longrightarrow> gone (nd_id r) \<Longrightarrow> nd_map r \<noteq> m'"
  shows "map_rows m' (delete_nodes gone d) = map_rows m' d"
  using assms by (simp add: delete_nodes_def edges_rows) (auto simp: map_rows_def intro!: filter_del_other)

lemma below_same_map:
  assumes g: "grove ms t" and n: "s \<in> set t" "nd_id s = n"
  shows "climbs t c \<Longrightarrow> below t n c \<Longrightarrow> r \<in> set t \<Longrightarrow> nd_id r = c \<Longrightarrow> nd_map r = nd_map s"
proof (induction arbitrary: r rule: climbs.induct)
  case (at_root c r')
  have "c = n" using at_root by (subst (asm) below_def, subst (asm) meets.simps) (auto split: if_splits)
  then show ?case using pk_eq [of nd_id t r s] g n at_root by (simp add: grove_def)
next
  case (up c r' q)
  have pk: "pk nd_id t" using g by (simp add: grove_def)
  show ?case
  proof (cases "c = n")
    case True
    then show ?thesis using pk_eq [OF pk \<open>r \<in> set t\<close> n(1)] n up by simp
  next
    case False
    then have b: "below t n q" using meets_step [of c n t r' q] up by (simp add: below_def)
    have "r' = r" using row_of_pk [OF pk \<open>r \<in> set t\<close>] up by simp
    then obtain p where p: "p \<in> set t" "nd_id p = q" "nd_map p = nd_map r"
      using groveD(4) [OF g \<open>r \<in> set t\<close>] up by (auto simp: same_map_parent_def)
    then show ?thesis using up(4) [OF b p(1,2)] by simp
  qed
qed

lemma remove_rows:
  assumes "trees d" "m' \<noteq> m" "remove_node m n now d = Inr (d', k)"
  shows "map_rows m' d' = map_rows m' d"
proof -
  have n: "node_in m n d" and d': "d' = touch m now (delete_nodes (below (mm_nodes d) n) d)"
    using on_node_Inr [OF assms(3) [unfolded remove_node_def]] by (auto simp: Let_def split: if_splits)
  obtain s where s: "s \<in> set (mm_nodes d)" "nd_id s = n" "nd_map s = m" using node_in_row [OF n] by blast
  have g: "grove (map mp_id (mm_maps d)) (mm_nodes d)" using assms(1) by (simp add: trees_def forest_def)
  have "nd_map r \<noteq> m'" if "r \<in> set (mm_nodes d)" "below (mm_nodes d) n (nd_id r)" for r
    using below_same_map [OF g s(1,2) groveD(2) [OF g that(1)] that(2,1)] s assms(2) by simp
  then show ?thesis using assms(2) by (simp add: d' delete_nodes_rows)
qed

lemma add_rows:
  assumes "m' \<noteq> m" "add_node m spec now d = Inr (d', i)"
  shows "map_rows m' d' = map_rows m' d"
proof -
  obtain p kind tx where "add_under m p spec kind tx now d = Inr (d', i)"
    using assms(2) by (auto simp: add_node_def split: sum.splits option.splits if_splits)
  then obtain d2 x where a: "draw_arrow m (nn_after spec) x (trim (nn_label spec))
      (fst (insert_refs (Node x) (nn_refs spec) (d\<lparr>mm_nodes := mm_nodes d @ [\<lparr>nd_id = x, nd_map = m, nd_parent = Some p,
        nd_kind = kind, nd_text = tx, nd_state = ''open'', nd_ord = next_ord p d, nd_created = now, nd_author = nn_author spec\<rparr>]\<rparr>))) = Inr d2"
    and d': "d' = touch m now d2"
    by (auto simp: add_under_def Let_def simp del: insert_refs.simps split: sum.splits)
  have "map_rows m' d2 = map_rows m' d"
    using a assms(1) by (auto simp: draw_arrow_def Let_def simp del: insert_refs.simps split: option.splits if_splits) (simp_all add: map_rows_def)
  then show ?thesis using assms(1) by (simp add: d')
qed

lemma node_in_set_node:
  assumes "\<And>r. nd_id (f r) = nd_id r" "\<And>r. nd_map (f r) = nd_map r"
  shows "node_in m k (set_node n f d) = node_in m k d"
  by (simp add: node_in_def set_node_def row_of_upd_where assms split: option.splits)

lemma edit_kind_rows:
  assumes "trees d" "node_in m n d" "m' \<noteq> m" "edit_kind m n rt kind d = Inr d1"
  shows "map_rows m' d1 = map_rows m' d \<and> node_in m n d1"
proof (cases kind)
  case None
  then show ?thesis using assms by (simp add: edit_kind_def)
next
  case (Some raw)
  then obtain k where "d1 = set_node n (\<lambda>r. r\<lparr>nd_kind := k\<rparr>) d"
    using assms(4) by (auto simp: edit_kind_def split: sum.splits if_splits)
  then show ?thesis using assms set_node_rows [OF assms(1-3)] by (simp add: node_in_set_node)
qed

lemma edit_rows:
  assumes "trees d" "m' \<noteq> m" "edit_node m n tx kind now d = Inr d'"
  shows "map_rows m' d' = map_rows m' d"
proof -
  obtain rt d1 d2 where n: "root_of m d = Inr rt" "node_in m n d" and k: "edit_kind m n rt kind d = Inr d1"
    and t: "edit_text m n rt tx d1 = Inr d2" and d': "d' = touch m now d2"
    using on_node_Inr [OF assms(3) [unfolded edit_node_def]] by (elim exE conjE) (auto split: sum.splits)
  have T1: "trees d1" using edit_kind_trees [OF assms(1) n k] by simp
  have n1: "node_in m n d1" and r1: "map_rows m' d1 = map_rows m' d"
    using edit_kind_rows [OF assms(1) n(2) assms(2) k] by simp_all
  have "map_rows m' d2 = map_rows m' d1"
    using t set_node_rows [OF T1 n1 assms(2)] assms(2)
    by (auto simp: edit_text_def Let_def set_map_rows split: option.splits sum.splits if_splits)
  then show ?thesis using assms(2) r1 by (simp add: d')
qed

lemma move_rows:
  assumes "trees d" "m' \<noteq> m" "move_node m n p now d = Some (Inr d')"
  shows "map_rows m' d' = map_rows m' d"
  using assms(3) set_node_rows [OF assms(1) _ assms(2)] assms(2)
  by (auto simp: move_node_def split: option.splits sum.splits if_splits bool.splits)

lemma state_rows:
  assumes "trees d" "m' \<noteq> m" "set_node_state m n st now d = Inr d'"
  shows "map_rows m' d' = map_rows m' d"
  using assms(3) set_node_rows [OF assms(1) _ assms(2)] assms(2)
  by (auto simp: set_node_state_def dest!: on_node_Inr split: if_splits)

lemma edges_ops_rows:
  assumes "m' \<noteq> m"
  shows "add_edge m f t l es now d = Inr (d', i) \<Longrightarrow> map_rows m' d' = map_rows m' d"
    "remove_edge m i now d = Inr d' \<Longrightarrow> map_rows m' d' = map_rows m' d"
    "add_refs m tg es now d = Inr (d', k) \<Longrightarrow> map_rows m' d' = map_rows m' d"
    "remove_refs m tg es now d = Inr (d', k) \<Longrightarrow> map_rows m' d' = map_rows m' d"
  subgoal using assms by (auto simp: add_edge_def Let_def simp del: insert_refs.simps split: option.splits if_splits)
  subgoal using assms by (auto simp: remove_edge_def split: option.splits if_splits)
  subgoal using assms by (auto simp: add_refs_def case_prod_beta simp del: insert_refs.simps split: option.splits if_splits)
  subgoal using assms by (auto simp: remove_refs_def case_prod_beta simp del: drop_refs.simps split: option.splits)
  done

lemma ins_steps_rows: "ins_steps c es d = Inr d' \<Longrightarrow> map_rows m' d' = map_rows m' d"
  unfolding ins_steps_def
  by (rule fold_res_keeps [where P = "\<lambda>x. map_rows m' x = map_rows m' d"])
    (auto simp: ins_step_def Let_def map_rows_def split: if_splits)

lemma chains_ops_rows:
  assumes "m' \<noteq> m"
  shows "add_chain m nm es now d = Inr (d', i) \<Longrightarrow> map_rows m' d' = map_rows m' d"
    "remove_chain m nm now d = Inr d' \<Longrightarrow> map_rows m' d' = map_rows m' d"
  subgoal using assms
    by (auto simp: add_chain_def Let_def dest!: ins_steps_rows [where m' = m'] split: sum.splits option.splits if_splits)
      (simp add: map_rows_def new_chain_def)
  subgoal using assms by (auto simp: remove_chain_def Let_def intro!: chains_rows split: option.splits if_splits)
  done

lemma maps_ops_rows:
  assumes "m' \<noteq> m"
  shows "set_shared m on now d = Inr d' \<Longrightarrow> map_rows m' d' = map_rows m' d"
    "set_map_state m on now d = Inr d' \<Longrightarrow> map_rows m' d' = map_rows m' d"
  using assms by (auto simp: set_shared_def set_map_state_def set_map_rows split: if_splits)

lemma delete_rows:
  assumes "trees d" "m' \<noteq> m" "delete_map m d = Inr d'"
  shows "map_rows m' d' = map_rows m' d"
proof -
  define gone where "gone = nd_id ` set (filter (\<lambda>n. nd_map n = m) (mm_nodes d))"
  define d1 where "d1 = delete_chains (\<lambda>c. ch_map c = m) (delete_edges (\<lambda>e. ed_map e = m) (delete_nodes (\<lambda>i. i \<in> gone) d))"
  have d': "d' = d1\<lparr>mm_maps := del_where (\<lambda>r. mp_id r = m) (mm_maps d1)\<rparr>"
    using assms(3) by (simp add: delete_map_def Let_def d1_def gone_def split: if_splits)
  have "nd_map r \<noteq> m'" if r: "r \<in> set (mm_nodes d)" "nd_id r \<in> gone" for r
  proof -
    obtain s where "s \<in> set (mm_nodes d)" "nd_map s = m" "nd_id s = nd_id r" using r(2) by (auto simp: gone_def)
    then show ?thesis using pk_eq [of nd_id "mm_nodes d" r s] r(1) assms(1,2) by (simp add: trees_def forest_def grove_def)
  qed
  then have "map_rows m' d1 = map_rows m' d" using assms(2) unfolding d1_def by (subst chains_rows) (simp_all add: delete_nodes_rows)
  moreover have "filter (\<lambda>r. mp_id r = m') (del_where (\<lambda>r. mp_id r = m) (mm_maps d1)) = filter (\<lambda>r. mp_id r = m') (mm_maps d1)"
    using assms(2) by (intro filter_del_other) simp
  ultimately show ?thesis by (simp add: d' map_rows_def)
qed

lemma create_rows:
  assumes "m' \<in> mp_id ` set (mm_maps d)" "create_map spec who tok now d = Inr (d', m, r)"
  shows "map_rows m' d' = map_rows m' d"
proof -
  have "m' \<noteq> next_rowid mp_id (mm_maps d)" using assms(1) next_rowid_gt [of _ "mm_maps d" mp_id] by fastforce
  then show ?thesis using assms(2) by (auto simp: create_map_def Let_def map_rows_def split: sum.splits if_splits option.splits)
qed

lemma map_sum_Inr [simp]: "map_sum f g x = Inr y \<longleftrightarrow> (\<exists>z. x = Inr z \<and> g z = y)"
  by (cases x) auto

lemma map_change_rows:
  assumes "trees d" "m' \<noteq> m" "map_change tool m who now args d = Inr (d', i, n)"
  shows "map_rows m' d' = map_rows m' d"
  using assms(3) unfolding map_change_def add_change_def move_change_def ref_change_def chain_change_def bind_tool_def with_id_def map_res_def
  by (auto split: if_splits sum.splits option.splits
    dest: add_rows [OF assms(2)] edit_rows [OF assms(1,2)] move_rows [OF assms(1,2)] state_rows [OF assms(1,2)]
      remove_rows [OF assms(1,2)] edges_ops_rows [OF assms(2)] chains_ops_rows [OF assms(2)] maps_ops_rows [OF assms(2)])

section \<open>Private maps\<close>

lemma map_tools_dispatch:
  assumes "starts_with tool ''journal_mindmap_''" "tool \<notin> {''journal_mindmap_export'', ''journal_mindmap_import''}"
  shows "journal_dispatch tool w now args = mindmap_tool tool w now args"
proof -
  have "tool \<noteq> s" if "\<not> starts_with s ''journal_mindmap_''" for s using assms(1) that by auto
  then show ?thesis using assms by (intro ext) (simp add: journal_dispatch_def starts_with_def)
qed

text \<open>Opening a journal that exists changes at most its entries and what hangs on them.\<close>

definition same_maps :: "'v jfile \<Rightarrow> 'v jfile \<Rightarrow> bool" where
  "same_maps f g \<longleftrightarrow> (\<exists>j. jl_db g = (jl_db f)\<lparr>mm_journal := j\<rparr>)"

lemma same_maps_simps [simp]: "same_maps f f" "same_maps f (set_journal j g) = same_maps f g" "same_maps f (g\<lparr>jl_insights := b\<rparr>) = same_maps f g"
  "same_maps f (g\<lparr>jl_links_parsed := b\<rparr>) = same_maps f g"
proof -
  show "same_maps f f" unfolding same_maps_def by (rule exI [of _ "mm_journal (jl_db f)"]) simp
  have "(\<exists>k. (jl_db g)\<lparr>mm_journal := j\<rparr> = (jl_db f)\<lparr>mm_journal := k\<rparr>) \<longleftrightarrow> (\<exists>k. jl_db g = (jl_db f)\<lparr>mm_journal := k\<rparr>)"
  proof
    assume "\<exists>k. (jl_db g)\<lparr>mm_journal := j\<rparr> = (jl_db f)\<lparr>mm_journal := k\<rparr>"
    then obtain k where "(jl_db g)\<lparr>mm_journal := j\<rparr> = (jl_db f)\<lparr>mm_journal := k\<rparr>" ..
    then have "jl_db g = (jl_db f)\<lparr>mm_journal := mm_journal (jl_db g)\<rparr>" by (cases "jl_db g"; cases "jl_db f") simp
    then show "\<exists>k. jl_db g = (jl_db f)\<lparr>mm_journal := k\<rparr>" ..
  qed auto
  then show "same_maps f (set_journal j g) = same_maps f g" by (simp add: same_maps_def set_journal_def)
qed (simp_all add: same_maps_def)

lemma backfill_same_maps [simp]: "same_maps f (backfill_links env f)"
  by (simp add: backfill_links_def)

lemma insights_same_maps [simp]: "same_maps f (fst (import_legacy_insights env old g)) = same_maps f g"
  by (simp add: import_legacy_insights_def case_prod_beta Let_def)

lemma open_file_maps:
  assumes "dn_file (journal_file_name (w_text w) project) d = Some f"
  shows "\<exists>g. same_maps f g \<and> dn_file (journal_file_name (w_text w) project) (snd (open_file w project crt d)) = Some g
    \<and> (\<forall>h. fst (open_file w project crt d) = Inr h \<longrightarrow> h = Some g)"
  using assms by (auto simp: dn_file_def open_file_def open_journal_def Let_def split: if_splits)

lemma adopt_there:
  assumes "dn_file (journal_file_name (w_text w) (ca_project c)) d = Some f"
  shows "adopt w c d = d"
  using assms by (simp add: adopt_def on_store_def adopt_path_journal_def dn_file_def Let_def)

lemma dn_file_put [simp]: "dn_file n (put_journal w project f d) = (if n = journal_file_name (w_text w) project then Some f else dn_file n d)"
  by (simp add: dn_file_def put_journal_def on_store_def)

lemma open_caller_maps:
  assumes f: "dn_file (journal_file_name (w_text w) (ca_project c)) d = Some f"
  shows "\<exists>g. same_maps f g \<and> dn_file (journal_file_name (w_text w) (ca_project c)) (snd (open_caller w c d)) = Some g
    \<and> (\<forall>h. fst (open_caller w c d) = Inr h \<longrightarrow> h = Some g)"
proof (cases "ca_agent c = None")
  case True
  then show ?thesis using open_file_maps [OF f, of False] by (simp add: open_caller_def)
next
  case False
  then obtain a where A: "ca_agent c = Some a" by auto
  obtain r d1 where o: "open_file w (ca_project c) True d = (r, d1)" by fastforce
  obtain g where g: "same_maps f g" "dn_file (journal_file_name (w_text w) (ca_project c)) d1 = Some g" "\<forall>h. r = Inr h \<longrightarrow> h = Some g"
    using open_file_maps [OF f, of True] o by auto
  show ?thesis
  proof (cases r)
    case (Inl e)
    then show ?thesis using A g by (simp add: open_caller_def o adopt_there [OF f])
  next
    case (Inr h)
    then show ?thesis using A g by (simp add: open_caller_def o adopt_there [OF f] Let_def)
  qed
qed

lemma call_maps:
  assumes r: "resolve w args need d = Inr c" and f: "dn_file (journal_file_name (w_text w) (ca_project c)) d = Some f"
    and act: "\<And>x g r g'. pre c = Inr x \<Longrightarrow> same_maps f g \<Longrightarrow> act c x (Some g) = (r, Some g') \<Longrightarrow> map_rows m (jl_db g') = map_rows m (jl_db f)"
  shows "\<exists>f'. dn_file (journal_file_name (w_text w) (ca_project c)) (snd (call w need pre act args d)) = Some f'
    \<and> map_rows m (jl_db f') = map_rows m (jl_db f)"
proof (cases "pre c")
  case (Inl e)
  then show ?thesis using r f by (simp add: call_def)
next
  case (Inr x)
  obtain o' d1 where o: "open_caller w c d = (o', d1)" by fastforce
  obtain g where g: "same_maps f g" "dn_file (journal_file_name (w_text w) (ca_project c)) d1 = Some g" "\<forall>h. o' = Inr h \<longrightarrow> h = Some g"
    using open_caller_maps [OF f] o by auto
  have gf: "map_rows m (jl_db g) = map_rows m (jl_db f)" using g(1) by (auto simp: same_maps_def)
  show ?thesis
  proof (cases o')
    case (Inl e)
    then show ?thesis using r Inr g gf by (simp add: call_def o)
  next
    case (Inr h)
    obtain a g' where a: "act c x (Some g) = (a, g')" by fastforce
    show ?thesis
    proof (cases g')
      case None
      then show ?thesis using r \<open>pre c = Inr x\<close> Inr g gf a by (simp add: call_def o)
    next
      case (Some k)
      then show ?thesis using r \<open>pre c = Inr x\<close> Inr g a act [OF \<open>pre c = Inr x\<close> g(1)] by (simp add: call_def o)
    qed
  qed
qed

text \<open>A map that is neither \<open>who\<close>'s nor shared is refused by the checks.\<close>

definition foreign :: "owner \<Rightarrow> int \<Rightarrow> mm_db \<Rightarrow> bool" where
  "foreign who m db \<longleftrightarrow> (\<exists>r. map_of_id m db = Some r \<and> \<not> mp_shared r \<and> \<not> same_owner (mp_nick r) (mp_host r) who)"

lemma foreign_refused: "foreign who m db \<Longrightarrow> check_write k who db = Inr u \<Longrightarrow> m \<noteq> k" "foreign who m db \<Longrightarrow> check_owner k who db = Inr u \<Longrightarrow> m \<noteq> k"
  by (auto simp: foreign_def check_write_def check_owner_def split: option.splits if_splits)

lemma same_maps_trees: "same_maps f g \<Longrightarrow> trees (jl_db g) = trees (jl_db f)" "same_maps f g \<Longrightarrow> foreign who m (jl_db g) = foreign who m (jl_db f)"
  "same_maps f g \<Longrightarrow> map_rows m (jl_db g) = map_rows m (jl_db f)" "same_maps f g \<Longrightarrow> mm_maps (jl_db g) = mm_maps (jl_db f)"
  by (auto simp: same_maps_def trees_def foreign_def map_of_id_def)

lemma bind_tool_Inr [simp]: "bind_tool x k = Inr y \<longleftrightarrow> (\<exists>v. x = Inr v \<and> k v = Inr y)"
  by (cases x) (simp_all add: bind_tool_def)

lemma set_db_db [simp]: "jl_db (set_db db f) = db"
  by (simp add: set_db_def)

lemma changing_Some [simp]: "changing k (Some g) = (r, Some g') \<longleftrightarrow> (\<exists>a. k g = Inr (a, g') \<and> r = Inr a)"
  by (auto simp: changing_def split: sum.splits)

lemma reading_Some [simp]: "reading k f \<noteq> (r, Some g')" "(reading k f = (r, Some g')) = False"
  by (simp_all add: reading_def)

lemma mindmap_tool_maps:
  assumes r: "\<And>need. resolve w args need d = Inr c" and f: "dn_file (journal_file_name (w_text w) (ca_project c)) d = Some f"
    and who: "owner_of c = Inr who" "ca_agent c \<noteq> None" and T: "trees (jl_db f)" and m: "foreign who m (jl_db f)"
  shows "\<exists>f'. dn_file (journal_file_name (w_text w) (ca_project c)) (snd (mindmap_tool tool w now args d)) = Some f'
    \<and> map_rows m (jl_db f') = map_rows m (jl_db f)"
proof -
  note call = call_maps [OF r f, where m = m]
  have m': "m \<in> mp_id ` set (mm_maps (jl_db f))" using m row_of_Some by (fastforce simp: foreign_def map_of_id_def)
  have cr: "map_rows m db = map_rows m (jl_db f)" if "same_maps f g" "create_map spec ow tok now (jl_db g) = Inr (db, k, l)" for g spec ow tok db k l
    using create_rows [OF _ that(2), of m] m' same_maps_trees [OF that(1)] by simp
  have ne: "m \<noteq> k" if "same_maps f g" "check_write k who (jl_db g) = Inr u \<or> check_owner k who (jl_db g) = Inr u" for g k u
    using that m same_maps_trees(2) [OF that(1), of who m] foreign_refused [of who m "jl_db g" k u] by auto
  have dl: "map_rows m db = map_rows m (jl_db f)"
    if "same_maps f g" "check_write k who (jl_db g) = Inr u" "delete_map k (jl_db g) = Inr db" for g k u db
    using delete_rows [OF _ ne that(3)] that T same_maps_trees [OF that(1)] by simp
  have sh: "map_rows m db = map_rows m (jl_db f)"
    if "same_maps f g" "check_write k who (jl_db g) = Inr u \<or> check_owner k who (jl_db g) = Inr u" "set_shared k on now (jl_db g) = Inr db" for g k u db on
    using maps_ops_rows(1) [OF ne that(3)] that same_maps_trees [OF that(1)] by simp
  have ch: "map_rows m db = map_rows m (jl_db f)"
    if "same_maps f g" "check_write k who (jl_db g) = Inr u" "map_change tool k who now args (jl_db g) = Inr (db, i, n)" for g k u db i n
    using map_change_rows [OF _ ne that(3)] that T same_maps_trees [OF that(1)] by simp
  have new: "?thesis" if "tool = ''journal_mindmap_new''"
    unfolding mindmap_tool_def mm_new_def that
    by (simp, intro call) (auto simp: Let_def map_res_def dest: cr)
  have del: "?thesis" if "tool = ''journal_mindmap_delete''"
    unfolding mindmap_tool_def mm_delete_def that using who
    by (simp, intro call) (auto simp: map_res_def checked_def dest: dl)
  have shr: "?thesis" if "tool = ''journal_mindmap_share''"
    unfolding mindmap_tool_def mm_share_def Let_def that using who
    by (simp, intro call) (auto simp: map_res_def checked_def dest: sh split: if_splits)
  have wr: "\<exists>f'. dn_file (journal_file_name (w_text w) (ca_project c)) (snd (mm_write tool w now args d)) = Some f'
    \<and> map_rows m (jl_db f') = map_rows m (jl_db f)"
    unfolding mm_write_def using who by (intro call) (auto simp: map_res_def dest: ch)
  have rd: "\<exists>f'. dn_file (journal_file_name (w_text w) (ca_project c)) (snd (mm_list w args d)) = Some f' \<and> map_rows m (jl_db f') = map_rows m (jl_db f)"
    "\<exists>f'. dn_file (journal_file_name (w_text w) (ca_project c)) (snd (mm_load w args ans d)) = Some f' \<and> map_rows m (jl_db f') = map_rows m (jl_db f)" for ans
    unfolding mm_list_def mm_load_def by (intro call; simp)+
  show ?thesis using new del shr wr rd by (auto simp: mindmap_tool_def mm_show_def mm_present_def)
qed



text \<open>Map 1 of project /a is bob's.\<close>

definition bobs_map :: mm_db where
  "bobs_map = (empty_mm empty_journal)\<lparr>
     mm_maps := [\<lparr>mp_id = 1, mp_title = [120], mp_nick = of_str ''bob'', mp_host = None, mp_state = ''open'', mp_token = ''k'',
       mp_created = 1, mp_updated = 1, mp_shared = False, mp_layout = ''mindmap'', mp_direction = ''down''\<rparr>],
     mm_nodes := [\<lparr>nd_id = 1, nd_map = 1, nd_parent = None, nd_kind = ''topic'', nd_text = [120], nd_state = ''open'',
       nd_ord = 0, nd_created = 1, nd_author = None\<rparr>]\<rparr>"

definition shared_desk :: "unit daemon" where
  "shared_desk = desk\<lparr>dn_store := \<lparr>st_files = [(journal_file_name plain_env [47, 97], (new_file [47, 97])\<lparr>jl_db := bobs_map\<rparr>)], st_aside = []\<rparr>\<rparr>"

lemma bobs_map_tree: "trees bobs_map"
proof -
  have "mm_reach bobs_map"
  proof -
    have "create_map (mindmap_spec [120]) \<lparr>ow_nick = of_str ''bob'', ow_host = None\<rparr> ''k'' 1 (empty_mm empty_journal) = Inr (bobs_map, 1, 1)"
      by (simp add: create_map_def mindmap_spec_def clean_text_def trim_def is_white_def max_title_chars_def of_str_def
        normalize_layout_def unalias_def layout_aliases_def layouts_def Mindmap.ascii_lower_def directions_def empty_mm_def next_rowid_def bobs_map_def Let_def)
    then show ?thesis by (blast intro: mm_reach.intros mm_call.intros)
  qed
  then show ?thesis using reach_inv by blast
qed

lemma shared_resolves: "session_call lone (of_str ''a1'') (of_str ''t'') shared_desk = Inr ann_call"
proof -
  have "agree {} desk shared_desk" by (simp add: agree_def shared_desk_def)
  then have "session_call lone (of_str ''a1'') (of_str ''t'') shared_desk = session_call lone (of_str ''a1'') (of_str ''t'') desk"
    using session_call_stable [of lone "of_str ''a1''" "of_str ''t''"] unfolding stable_def by blast
  then show ?thesis using ann_resolves by simp
qed


end
