(* ===== verification/JournalCopies.thy ===== *)
theory JournalCopies
  imports MindmapTools
begin

text \<open>
  What happens to entries on their way between files: importing an archive a second time, the loop that
  computes the vectors of a journal, and a folder's journal shared into another project's and taken out again
  (the tools of \<open>JournalTools\<close>, \<open>daemon/journal_tools.rs\<close>).
\<close>

section \<open>Importing twice\<close>

text \<open>What \<open>add\<close> checks before it looks at the journal: the text and the category it files it under.\<close>

definition acceptable :: "text_env \<Rightarrow> new_entry \<Rightarrow> (utext \<times> utext) option" where
  "acceptable env e =
     (let body = trim (ne_body e) in
      if body = [] \<or> max_body_chars < length body then None
      else case entry_flags env e of Inl _ \<Rightarrow> None
      | Inr fs \<Rightarrow>
        case entry_category env e fs of None \<Rightarrow> None
        | Some cat \<Rightarrow>
          if normalize_tags env (ne_tags e) = [] then None
          else case normalize_salience env (Some (ne_salience e)) of Inl _ \<Rightarrow> None | Inr _ \<Rightarrow> Some (body, cat))"

lemma annotate_entries [simp]: "entries (annotate i ts fs e now j) = entries j"
  by (simp add: annotate_def insert_reminder_def insert_proofs_def insert_flags_def insert_tags_def split: option.splits)

lemma insert_links_entries [simp]: "entries (insert_links env i body j) = entries j"
  by (simp add: insert_links_def)

lemma add_refused: "add_entry env e now j = Inl x \<Longrightarrow> acceptable env e = None"
  by (auto simp: add_entry_def acceptable_def Let_def split: if_splits sum.splits option.splits)

lemma add_stores:
  assumes "add_entry env e now j = Inr (j', st, i)"
  shows "\<exists>body cat. acceptable env e = Some (body, cat)
    \<and> (if st = Written then known_entry env body cat now j = None
          \<and> (\<exists>r. entries j' = entries j @ [r] \<and> je_sha r = sha env body \<and> je_category r = cat \<and> je_created r = now)
       else known_entry env body cat now j \<noteq> None \<and> entries j' = entries j)"
  using assms by (auto simp: add_entry_def acceptable_def Let_def split: if_splits sum.splits option.splits)

lemma close_set_entries [simp]: "entries (close_set qs who res now j) = entries j"
  by (simp add: close_set_def)

lemma close_with_entries: "close_with env i raw who res now mode j = Inr (j', out) \<Longrightarrow> entries j' = entries j"
  by (erule close_with_cases) simp

text \<open>An entry that is refused, or is there already: importing it writes nothing.\<close>

definition settled :: "text_env \<Rightarrow> int \<Rightarrow> json \<Rightarrow> entry rows \<Rightarrow> bool" where
  "settled env t e rows \<longleftrightarrow>
     (case acceptable env (imported_entry e) of None \<Rightarrow> True
      | Some (body, cat) \<Rightarrow> \<exists>r \<in> set rows. je_sha r = sha env body \<and> je_category r = cat \<and> t - dedup_window_secs \<le> je_created r)"

lemma known_entry_iff:
  "known_entry env body cat t j \<noteq> None
     \<longleftrightarrow> (\<exists>r \<in> set (entries j). je_sha r = sha env body \<and> je_category r = cat \<and> t - dedup_window_secs \<le> je_created r)"
  by (auto simp: known_entry_def Let_def filter_empty_conv)

lemma settled_more: "settled env t e rows \<Longrightarrow> settled env t e (rows @ ys)"
  by (auto simp: settled_def split: option.splits)

lemma settled_iff:
  "acceptable env (imported_entry e) = Some (body, cat) \<Longrightarrow> settled env t e (entries j) \<longleftrightarrow> known_entry env body cat t j \<noteq> None"
  unfolding known_entry_iff by (simp add: settled_def)

lemma add_settled:
  assumes "settled env t e (entries j)" "add_entry env (imported_entry e) t j = Inr (j', st, i)"
  shows "st = Deduped \<and> entries j' = entries j"
proof -
  obtain body cat where a: "acceptable env (imported_entry e) = Some (body, cat)"
    and st: "if st = Written then known_entry env body cat t j = None
          \<and> (\<exists>r. entries j' = entries j @ [r] \<and> je_sha r = sha env body \<and> je_category r = cat \<and> je_created r = t)
       else known_entry env body cat t j \<noteq> None \<and> entries j' = entries j"
    using add_stores [OF assms(2)] by blast
  have "known_entry env body cat t j \<noteq> None" using assms(1) settled_iff [OF a] by blast
  with st show ?thesis by (cases st) simp_all
qed

lemma add_settles:
  assumes "add_entry env (imported_entry e) t j = Inr (j', st, i)"
  shows "settled env t e (entries j') \<and> (\<exists>ys. entries j' = entries j @ ys)"
proof -
  obtain body cat where a: "acceptable env (imported_entry e) = Some (body, cat)"
    and st: "if st = Written then known_entry env body cat t j = None
          \<and> (\<exists>r. entries j' = entries j @ [r] \<and> je_sha r = sha env body \<and> je_category r = cat \<and> je_created r = t)
       else known_entry env body cat t j \<noteq> None \<and> entries j' = entries j"
    using add_stores [OF assms] by blast
  show ?thesis
  proof (cases st)
    case Written
    then show ?thesis using st a by (auto simp: settled_def dedup_window_secs_def)
  next
    case Deduped
    then have "known_entry env body cat t j \<noteq> None" "entries j' = entries j" using st by simp_all
    then show ?thesis using settled_iff [OF a, of t j] by auto
  qed
qed

lemma add_refused_settled: "add_entry env (imported_entry e) t j = Inl x \<Longrightarrow> settled env t e rows"
  using add_refused [of env "imported_entry e" t j x] by (simp add: settled_def)

lemma close_imported_entries [simp]: "entries (close_imported env now i f j) = entries j"
  by (auto simp: close_imported_def or_same_def split: option.splits sum.splits dest: close_with_entries)

lemma close_all_entries [simp]: "entries (fold (close_imported env now i) fs j) = entries j"
  by (induction fs arbitrary: j) simp_all

lemma import_entry_settles:
  "settled env (created_arg now e) e (entries (im_journal (import_entry env now (k, e) s)))
     \<and> (\<exists>ys. entries (im_journal (import_entry env now (k, e) s)) = entries (im_journal s) @ ys)"
proof (cases "add_entry env (imported_entry e) (created_arg now e) (im_journal s)")
  case (Inl x)
  then show ?thesis using add_refused_settled [OF Inl] by (simp add: import_entry_def)
next
  case (Inr r)
  obtain j st i where r: "r = (j, st, i)" by (cases r) auto
  show ?thesis using add_settles [OF Inr [unfolded r]] Inr by (cases st) (auto simp: import_entry_def r)
qed

lemma import_entry_again:
  assumes "settled env (created_arg now e) e (entries (im_journal s))"
  shows "entries (im_journal (import_entry env now (k, e) s)) = entries (im_journal s)
    \<and> im_written (import_entry env now (k, e) s) = im_written s"
proof (cases "add_entry env (imported_entry e) (created_arg now e) (im_journal s)")
  case (Inr r)
  obtain j st i where r: "r = (j, st, i)" by (cases r) auto
  show ?thesis using add_settled [OF assms Inr [unfolded r]] Inr by (simp add: import_entry_def r)
qed (simp add: import_entry_def)

lemma fold_import_settles:
  "(\<exists>ys. entries (im_journal (fold (import_entry env now) kes s)) = entries (im_journal s) @ ys)
    \<and> (\<forall>(k, e) \<in> set kes. settled env (created_arg now e) e (entries (im_journal (fold (import_entry env now) kes s))))"
proof (induction kes arbitrary: s)
  case (Cons ke kes)
  obtain k e where ke: "ke = (k, e)" by fastforce
  let ?s = "import_entry env now (k, e) s"
  obtain m1 where m1: "entries (im_journal ?s) = entries (im_journal s) @ m1" and e: "settled env (created_arg now e) e (entries (im_journal ?s))"
    using import_entry_settles [of env now e k s] by blast
  obtain m2 where m2: "entries (im_journal (fold (import_entry env now) kes ?s)) = entries (im_journal ?s) @ m2"
    using Cons [of ?s] by blast
  show ?case using Cons [of ?s] m1 m2 settled_more [OF e, of m2] by (auto simp: ke)
qed simp

lemma fold_import_again:
  assumes "\<forall>(k, e) \<in> set kes. settled env (created_arg now e) e (entries (im_journal s))"
  shows "entries (im_journal (fold (import_entry env now) kes s)) = entries (im_journal s)
    \<and> im_written (fold (import_entry env now) kes s) = im_written s"
  using assms
proof (induction kes arbitrary: s)
  case (Cons ke kes)
  obtain k e where ke: "ke = (k, e)" by fastforce
  have "entries (im_journal (import_entry env now (k, e) s)) = entries (im_journal s)
    \<and> im_written (import_entry env now (k, e) s) = im_written s"
    using Cons.prems by (intro import_entry_again) (simp add: ke)
  with Cons.prems show ?case using Cons.IH [of "import_entry env now (k, e) s"] by (simp add: ke)
qed simp

definition dated :: "int \<Rightarrow> json \<Rightarrow> bool" where
  "dated now e \<longleftrightarrow> (\<exists>t. get_i64 e ''created_at'' = Some t \<and> 0 < t \<and> t \<le> now)"

lemma dated_created: "dated now e \<Longrightarrow> now \<le> later \<Longrightarrow> created_arg later e = created_arg now e"
  by (auto simp: dated_def created_arg_def)

lemma import_again:
  assumes "\<forall>e \<in> set es. dated now e" "now \<le> later"
  shows "im_written (import_entries env later es (im_journal (import_entries env now es j))) = 0
    \<and> entries (im_journal (import_entries env later es (im_journal (import_entries env now es j)))) = entries (im_journal (import_entries env now es j))"
proof -
  let ?kes = "zip [0..<length es] es"
  let ?s0 = "\<lambda>j. \<lparr>im_journal = j, im_written = 0, im_merged = 0, im_refused = [], im_ids = []\<rparr>"
  have kes: "e \<in> set es" if "(k, e) \<in> set ?kes" for k e using that by (rule set_zip_rightD)
  have "\<forall>(k, e) \<in> set ?kes. settled env (created_arg later e) e (entries (im_journal (import_entries env now es j)))"
    using fold_import_settles [of env now ?kes "?s0 j"] dated_created [OF _ assms(2)] assms(1) kes
    by (fastforce simp: import_entries_def)
  then show ?thesis
    using fold_import_again [of ?kes env later "?s0 (im_journal (import_entries env now es j))"] by (simp add: import_entries_def)
qed

text \<open>
  C31: Loading the same archive twice writes nothing the second time: when every entry carries its own creation
  time, not in the future, importing the same entries again, at any later moment, writes no entry and leaves the
  journal's entries as the first import left them, whatever was refused or merged.
\<close>

theorem importing_twice_writes_nothing:
  assumes "import_tool w now args d = (Inr (Imported p written merged refused ids), d1)"
    and "Option.bind (jget args ''entries'') as_array = Some es" "\<forall>e \<in> set es. dated now e" "now \<le> later"
  shows "\<exists>merged2 refused2 ids2 d2 f1 f2. import_tool w later args d1 = (Inr (Imported p 0 merged2 refused2 ids2), d2)
    \<and> dn_file (journal_file_name (w_text w) p) d1 = Some f1 \<and> dn_file (journal_file_name (w_text w) p) d2 = Some f2
    \<and> entries (jl_journal f2) = entries (jl_journal f1)"
proof -
  obtain c where c: "import_caller args = Inr c"
    using assms(1) by (cases "import_caller args") (simp_all add: import_tool_def)
  obtain r d0 where o0: "open_target w c d = (r, d0)" by fastforce
  have n: "length es \<le> max_import_batch" using assms(1,2) c by (simp add: import_tool_def o0 split: if_splits)
  obtain f where r: "r = Inr (Some f)"
    using assms(1,2) c n by (cases r) (auto simp: import_tool_def o0 split: option.splits)
  have o: "open_target w c d = (Inr (Some f), d0)" and p: "p = ca_project c"
    and d1: "d1 = put_journal w (ca_project c) (set_journal (im_journal (import_entries (w_text w) now es (jl_journal f))) f) d0"
    using assms(1,2) c n by (auto simp: import_tool_def o0 r Let_def)
  define g where "g = set_journal (im_journal (import_entries (w_text w) now es (jl_journal f))) f"
  have jg: "jl_journal g = im_journal (import_entries (w_text w) now es (jl_journal f))"
    by (simp add: g_def jl_journal_def set_journal_def)
  have "jl_project f = ca_project c" "jl_links_parsed f"
    using o by (auto simp: open_target_def open_file_def open_journal_def Let_def new_file_def backfill_links_def set_journal_def
      split: option.splits if_splits sum.splits)
  then have pg: "jl_project g = ca_project c" and bg: "backfill_links (w_text w) g = g"
    by (simp_all add: g_def set_journal_def backfill_links_def)
  have g: "dn_file (journal_file_name (w_text w) (ca_project c)) d1 = Some g" by (simp add: d1 g_def)
  then have fa: "file_at (journal_file_name (w_text w) (ca_project c)) (dn_store d1) = Some g" by (simp add: dn_file_def)
  obtain d0' where o': "open_target w c d1 = (Inr (Some g), d0')"
    by (simp add: open_target_def adopt_there [OF g] open_file_def open_journal_def fa Let_def pg bg)
  show ?thesis
    using import_again [OF assms(3,4), of "w_text w" "jl_journal f"] n g
    by (simp add: import_tool_def c assms(2) o' Let_def p jg [symmetric]) (simp add: jl_journal_def set_journal_def)
qed

definition archive :: "json list" where
  "archive = [JObj [(''body'', JStr ''x''), (''category'', JStr ''bug''), (''tags'', JArr [JStr ''t'']), (''created_at'', JNum 3)]]"

definition archive_args :: json where
  "archive_args = JObj [(''cwd'', JStr ''/a''), (''entries'', JArr archive)]"

lemma archive_entries: "Option.bind (jget archive_args ''entries'') as_array = Some archive"
  by (simp add: archive_args_def)

theorem importing_twice_writes_nothing_witness:
  "\<exists>merged2 refused2 ids2 d2. import_tool lone 9 archive_args (snd (import_tool lone 5 archive_args desk))
     = (Inr (Imported [47, 97] 0 merged2 refused2 ids2), d2)"
proof -
  let ?c = "\<lparr>ca_project = [47, 97], ca_path = [47, 97], ca_agent = None, ca_nick = None, ca_host = None\<rparr> :: caller"
  have c: "import_caller archive_args = Inr ?c"
    by (simp add: import_caller_def archive_args_def str_arg_def text_of_def of_str_def utf8_decode.simps trim_def is_white_def
        absolute_path_def project_key_def Let_def)
  have none: "file_at (journal_file_name plain_env [47, 97]) (dn_store desk) = None"
    using desk_names by (auto simp: desk_def file_at_def own_files_def lone_def ann_call_def)
  then obtain d0 where "open_target lone ?c desk = (Inr (Some (new_file [47, 97])), d0)"
    by (simp add: open_target_def adopt_def on_store_def adopt_path_journal_def same_path_def open_file_def open_journal_def lone_def)
  then obtain wr mg rf ids d1 where "import_tool lone 5 archive_args desk = (Inr (Imported [47, 97] wr mg rf ids), d1)"
    by (simp add: import_tool_def c archive_entries archive_def max_import_batch_def Let_def)
  from importing_twice_writes_nothing [OF this archive_entries, of 9] this show ?thesis
    by (auto simp: archive_def dated_def i64_min_def i64_max_def)
qed

section \<open>Vectors in the end\<close>

text \<open>The ids without a vector; each full batch takes 32 of them away.\<close>

definition unembedded :: "journal \<Rightarrow> (int \<times> 'v) list \<Rightarrow> int set" where
  "unembedded j vecs = je_id ` set (entries j) - fst ` set vecs"

lemma missing_ids: "fst ` set (missing_vectors n vecs j) \<subseteq> unembedded j vecs"
proof
  fix i assume "i \<in> fst ` set (missing_vectors n vecs j)"
  then obtain t where "(i, t) \<in> set (missing_vectors n vecs j)" by auto
  then have "(i, t) \<in> (\<lambda>r. (je_id r, je_body r)) ` set (filter (\<lambda>r. je_id r \<notin> fst ` set vecs) (entries j))"
    unfolding missing_vectors_def by (auto dest!: in_set_takeD simp del: set_filter)
  then show "i \<in> unembedded j vecs" by (auto simp: unembedded_def simp del: prod.collapse)
qed

lemma missing_all: "length (missing_vectors n vecs j) < n \<Longrightarrow> fst ` set (missing_vectors n vecs j) = unembedded j vecs"
  by (force simp: missing_vectors_def unembedded_def min_def split: if_splits)

lemma store_vector_keys:
  "fst ` set (store_vector i v j vecs) = (if exists_entry i j then insert i (fst ` set vecs) else fst ` set vecs)"
  by (auto simp: store_vector_def ins_replace_def del_where_def)

lemma store_batch_keys:
  assumes "length vs = length batch" "\<forall>(i, t) \<in> set batch. exists_entry i j"
  shows "fst ` set (store_batch j batch vs vecs) = fst ` set batch \<union> fst ` set vecs"
  using assms unfolding store_batch_def
proof (induction batch vs arbitrary: vecs rule: list_induct2')
  case (4 x batch v vs)
  obtain i t where x: "x = (i, t)" by fastforce
  have "fst ` set (fold (\<lambda>((i, _), v). store_vector i v j) (zip batch vs) (store_vector i v j vecs))
      = fst ` set batch \<union> fst ` set (store_vector i v j vecs)"
    using 4 by (intro "4.IH") auto
  then show ?case using 4(3) by (auto simp: x store_vector_keys)
qed simp_all

lemma embed_missing_ends:
  assumes enc: "\<And>ts. \<exists>vs. enc ts = Some vs \<and> length vs = length ts"
  shows "\<exists>vecs'. embed_missing enc j vecs = Some vecs' \<and> unembedded j vecs' = {} \<and> fst ` set vecs \<subseteq> fst ` set vecs'"
proof (induction "card (unembedded j vecs)" arbitrary: vecs rule: less_induct)
  case less
  let ?batch = "missing_vectors 32 vecs j"
  have fin: "finite (unembedded j vecs)" by (simp add: unembedded_def)
  show ?case
  proof (cases "?batch = []")
    case True
    then have "unembedded j vecs = {}" using missing_all [of 32 vecs j] by simp
    then show ?thesis using True by (subst embed_missing.simps) simp
  next
    case False
    obtain vs where vs: "enc (map snd ?batch) = Some vs" "length vs = length ?batch" using enc [of "map snd ?batch"] by auto
    define vecs' where "vecs' = store_batch j ?batch vs vecs"
    have "\<forall>(i, t) \<in> set ?batch. exists_entry i j"
      using missing_ids [of 32 vecs j] by (force simp: unembedded_def exists_entry_def list_ex_iff)
    then have keys: "fst ` set vecs' = fst ` set ?batch \<union> fst ` set vecs"
      unfolding vecs'_def by (rule store_batch_keys [OF vs(2)])
    then have un: "unembedded j vecs' = unembedded j vecs - fst ` set ?batch" by (auto simp: unembedded_def)
    show ?thesis
    proof (cases "length ?batch < 32")
      case True
      then have "unembedded j vecs' = {}" using un missing_all [of 32 vecs j] by simp
      then show ?thesis using False True vs(1) keys by (subst embed_missing.simps) (simp add: Let_def vecs'_def)
    next
      case full: False
      have some: "fst ` set ?batch \<noteq> {}" using False by simp
      have "A - B \<subset> A" if "B \<subseteq> A" "B \<noteq> {}" for A B :: "int set" using that by blast
      from this [OF missing_ids some] have "unembedded j vecs' \<subset> unembedded j vecs" unfolding un .
      then have "card (unembedded j vecs') < card (unembedded j vecs)" by (rule psubset_card_mono [OF fin])
      then obtain w where w: "embed_missing enc j vecs' = Some w" "unembedded j w = {}" "fst ` set vecs' \<subseteq> fst ` set w"
        using less by blast
      have "embed_missing enc j vecs = embed_missing enc j vecs'"
        by (subst embed_missing.simps) (simp add: Let_def vs(1) False full vecs'_def)
      with w keys show ?thesis by auto
    qed
  qed
qed

lemma backfill_each_entries: "entries (fold (\<lambda>r. insert_links env (je_id r) (je_body r)) rs j) = entries j"
  by (induction rs arbitrary: j) simp_all

lemma backfill_entries: "entries (jl_journal (backfill_links env f)) = entries (jl_journal f)"
  by (simp add: backfill_links_def jl_journal_def set_journal_def backfill_each_entries)

text \<open>
  Computing vectors ends, and leaves no entry without one: with an encoder that answers every batch with
  one vector per text, the loop over a project's journal returns, every entry has a vector afterwards, and the
  vectors that were there keep their places.
\<close>

theorem every_entry_gets_its_vector:
  assumes "\<forall>ts. \<exists>vs. enc ts = Some vs \<and> length vs = length ts"
    and "dn_file (journal_file_name (w_text w) project) d = Some f" "jl_project f = project"
  shows "\<exists>d' f'. embed_project w enc project d = Some d' \<and> dn_file (journal_file_name (w_text w) project) d' = Some f'
    \<and> entries (jl_journal f') = entries (jl_journal f)
    \<and> (\<forall>r \<in> set (entries (jl_journal f')). \<exists>v. (je_id r, v) \<in> set (jl_vecs f'))"
proof -
  let ?g = "backfill_links (w_text w) f"
  obtain vecs where v: "embed_missing enc (jl_journal ?g) (jl_vecs ?g) = Some vecs" "unembedded (jl_journal ?g) vecs = {}"
    using embed_missing_ends assms(1) by blast
  have e: "entries (jl_journal ?g) = entries (jl_journal f)" by (rule backfill_entries)
  have "file_at (journal_file_name (w_text w) project) (dn_store d) = Some f" using assms(2) by (simp add: dn_file_def)
  then have o: "fst (open_file w project False d) = Inr (Some ?g)"
    using assms(3) by (simp add: open_file_def open_journal_def Let_def)
  then obtain d1 where o: "open_file w project False d = (Inr (Some ?g), d1)" by (metis prod.collapse)
  have "\<exists>v. (je_id r, v) \<in> set vecs" if "r \<in> set (entries (jl_journal f))" for r
    using v(2) that unfolding unembedded_def e by force
  then show ?thesis using v(1) by (simp add: embed_project_def o jl_journal_def e [unfolded jl_journal_def])
qed

definition one_note :: "unit jfile" where
  "one_note = set_journal (empty_journal\<lparr>entries := [sample 7 [120]]\<rparr>) (new_file [47, 98])"

theorem every_entry_gets_its_vector_witness:
  "\<exists>d f. embed_project lone (\<lambda>ts. Some (map (\<lambda>_. ()) ts)) [47, 98]
       (desk\<lparr>dn_store := \<lparr>st_files = [(journal_file_name plain_env [47, 98], one_note)], st_aside = []\<rparr>\<rparr>) = Some d
     \<and> dn_file (journal_file_name plain_env [47, 98]) d = Some f \<and> (\<exists>v. (7, v) \<in> set (jl_vecs f))"
proof -
  have j: "entries (jl_journal one_note) = [sample 7 [120]]" "jl_project one_note = [47, 98]"
    by (simp_all add: one_note_def set_journal_def jl_journal_def new_file_def)
  have "dn_file (journal_file_name (w_text lone) [47, 98])
      (desk\<lparr>dn_store := \<lparr>st_files = [(journal_file_name plain_env [47, 98], one_note)], st_aside = []\<rparr>\<rparr>) = Some one_note"
    by (simp add: dn_file_def file_at_def lone_def)
  from every_entry_gets_its_vector [OF _ this j(2), of "\<lambda>ts. Some (map (\<lambda>_. ()) ts)"] show ?thesis
    by (auto simp: j lone_def sample_def)
qed

section \<open>Sharing and unsharing\<close>

text \<open>What a merge does to the entries of the journal it merges into: it adds, and each entry it is given is there by its hash.\<close>

definition holds :: "text_env \<Rightarrow> utext \<Rightarrow> entry rows \<Rightarrow> bool" where
  "holds env body rows \<longleftrightarrow> (\<exists>r \<in> set rows. je_sha r = sha env (trim body))"

lemma acceptable_body: "acceptable env e = Some (body, cat) \<Longrightarrow> body = trim (ne_body e)"
  by (auto simp: acceptable_def Let_def split: if_splits sum.splits option.splits)

lemma restore_closed_entries [simp]: "entries (restore_closed env i fs j) = entries j"
proof -
  have one: "entries (restore_flag env i x a b t k) = entries k" for x a b t k
    by (auto simp: restore_flag_def or_same_def split: sum.splits dest: close_with_entries)
  show ?thesis unfolding restore_closed_def
    by (induction fs arbitrary: j) (simp_all add: one split: option.splits)
qed

lemma merge_entry_holds:
  assumes "merge_entry env e m = Inr m'"
  shows "holds env (je_body (ev_row e)) (entries (mg_journal m'))" "set (entries (mg_journal m)) \<subseteq> set (entries (mg_journal m'))"
proof -
  obtain j st i where a: "add_entry env (carried e) (je_created (ev_row e)) (mg_journal m) = Inr (j, st, i)"
    and m': "entries (mg_journal m') = entries j"
    using assms by (auto simp: merge_entry_def split: sum.splits)
  obtain body cat where b: "acceptable env (carried e) = Some (body, cat)"
    and st: "if st = Written then known_entry env body cat (je_created (ev_row e)) (mg_journal m) = None
          \<and> (\<exists>r. entries j = entries (mg_journal m) @ [r] \<and> je_sha r = sha env body \<and> je_category r = cat \<and> je_created r = je_created (ev_row e))
       else known_entry env body cat (je_created (ev_row e)) (mg_journal m) \<noteq> None \<and> entries j = entries (mg_journal m)"
    using add_stores [OF a] by blast
  have body: "body = trim (je_body (ev_row e))" using acceptable_body [OF b] by (simp add: carried_def Let_def)
  show "holds env (je_body (ev_row e)) (entries (mg_journal m'))"
    using st unfolding m' body holds_def known_entry_iff by (auto split: if_splits)
  show "set (entries (mg_journal m)) \<subseteq> set (entries (mg_journal m'))" using st unfolding m' by (auto split: if_splits)
qed

lemma holds_more: "holds env b rows \<Longrightarrow> set rows \<subseteq> set rows' \<Longrightarrow> holds env b rows'"
  by (auto simp: holds_def)

lemma merge_each_holds:
  assumes "merge_each env es m = (m', None)"
  shows "set (entries (mg_journal m)) \<subseteq> set (entries (mg_journal m')) \<and> (\<forall>e \<in> set es. holds env (je_body (ev_row e)) (entries (mg_journal m')))"
  using assms
proof (induction es arbitrary: m)
  case (Cons e es)
  then obtain n where n: "merge_entry env e m = Inr n" "merge_each env es n = (m', None)" by (auto split: sum.splits)
  then show ?case using Cons.IH [OF n(2)] merge_entry_holds [OF n(1)] by (auto intro: holds_more)
qed simp

lemma merge_links_entries [simp]: "entries (merge_links ids ls j) = entries j"
  by (simp add: merge_links_def)

text \<open>Merging the maps leaves the journal alone.\<close>

lemma copy_frame_journal: "copy_frame s s' \<Longrightarrow> mm_journal (cp_db s') = mm_journal (cp_db s)"
  by (simp add: copy_frame_def)

lemma copy_node_journal [simp]: "mm_journal (cp_db (copy_node n i s)) = mm_journal (cp_db s)"
  by (simp add: copy_node_def Let_def)

lemma merge_pass_journal: "mm_journal (cp_db (snd (merge_pass m ns s))) = mm_journal (cp_db s)"
  by (induction m ns s rule: merge_pass.induct) (auto simp: Let_def case_prod_beta split: option.splits)

lemma merge_nodes_journal: "mm_journal (cp_db (merge_nodes m ns s)) = mm_journal (cp_db s)"
proof (induction m ns s rule: merge_nodes.induct)
  case (1 m ns s)
  show ?case
  proof (cases "ns = [] \<or> length (fst (merge_pass m ns s)) = length ns")
    case True
    then show ?thesis using merge_pass_journal [of m ns s] by (subst merge_nodes.simps) (auto simp: case_prod_beta Let_def)
  next
    case False
    then have "mm_journal (cp_db (merge_nodes m (fst (merge_pass m ns s)) (snd (merge_pass m ns s)))) = mm_journal (cp_db s)"
      using "1.IH" [OF _ refl prod.collapse] merge_pass_journal [of m ns s] by simp
    then show ?thesis using False by (subst merge_nodes.simps) (simp add: case_prod_beta Let_def)
  qed
qed

lemma merge_map_journal:
  assumes "merge_map src ents tok r d = Inr d'"
  shows "mm_journal d' = mm_journal d"
proof -
  let ?m = "next_rowid mp_id (mm_maps d)" let ?row = "r\<lparr>mp_id := ?m, mp_token := tok\<rparr>"
  let ?ns = "filter (\<lambda>n. nd_map n = mp_id r) (mm_nodes src)"
  obtain s2 s3 s4 xs ys zs where f: "fold_res (merge_node_ref ents) xs (merge_nodes ?m ?ns (start_copy ?row d)) = Inr s2"
    "fold_res (merge_edge src ents ?m) ys s2 = Inr s3" "fold_res (merge_chain src ents ?m) zs s3 = Inr s4" "d' = cp_db s4"
    using assms by (auto simp: merge_map_def Let_def)
  have "copy_frame (merge_nodes ?m ?ns (start_copy ?row d)) s2" by (rule fold_res_frame [OF f(1)]) (erule merge_refs_frame)
  moreover have "copy_frame s2 s3" by (rule fold_res_frame [OF f(2)]) (erule merge_edge_frame)
  moreover have "copy_frame s3 s4" by (rule fold_res_frame [OF f(3)]) (erule merge_refs_frame)
  ultimately show ?thesis by (simp add: copy_frame_journal f(4) merge_nodes_journal start_copy_def)
qed

lemma merge_maps_journal: "merge_maps src ents tok d = Inr (d', k) \<Longrightarrow> mm_journal d' = mm_journal d"
proof -
  assume "merge_maps src ents tok d = Inr (d', k)"
  then have f: "fold_res (\<lambda>r. merge_map src ents (tok (mp_id r)) r) (sort_key mp_id (mm_maps src)) d = Inr d'"
    by (auto simp: merge_maps_def split: sum.splits)
  have "mm_journal d' = mm_journal d"
    by (rule fold_res_keeps [OF f, of "\<lambda>x. mm_journal x = mm_journal d"]) (simp_all add: merge_map_journal)
  then show ?thesis .
qed

lemma merge_into_holds:
  assumes "merge_into env tok src dst = (Inr (wr, mg), db)" "r \<in> set (entries (mm_journal src))"
  shows "holds env (je_body r) (entries (mm_journal db))"
proof -
  let ?sj = "mm_journal src"
  let ?es = "map (attach ?sj) (sort_key (\<lambda>r. (je_created r, je_id r)) (entries ?sj))"
  obtain m err where me: "merge_each env ?es \<lparr>mg_journal = mm_journal dst, mg_ids = [], mg_written = 0, mg_merged = 0\<rparr> = (m, err)"
    by fastforce
  have m: "merge_each env ?es \<lparr>mg_journal = mm_journal dst, mg_ids = [], mg_written = 0, mg_merged = 0\<rparr> = (m, None)"
    and db: "entries (mm_journal db) = entries (mg_journal m)"
    using assms(1) me by (auto simp: merge_into_def Let_def dest!: merge_maps_journal split: option.splits sum.splits)
  have "attach ?sj r \<in> set ?es" "ev_row (attach ?sj r) = r" using assms(2) by (simp_all add: attach_def Let_def)
  then show ?thesis using merge_each_holds [OF m] unfolding db by metis
qed

lemma find_row: "row_of key k (t @ [r]) = (case row_of key k t of None \<Rightarrow> if key r = k then Some r else None | x \<Rightarrow> x)"
  by (induction t) (simp_all add: row_of_def)

lemma ancestors_self: "path \<in> set (ancestors path)"
  by (subst ancestors.simps) simp

lemma shared_key_row: "shared_key host path t = None \<Longrightarrow> row_of share_key (host, path) t = None"
proof -
  assume none: "shared_key host path t = None"
  then have all: "List.map_filter (\<lambda>p. map_option sh_key (find (\<lambda>r. sh_host r = host \<and> sh_path r = p) t)) (ancestors path) = []"
    by (simp add: shared_key_def split: list.splits)
  have "map_option sh_key (find (\<lambda>r. sh_host r = host \<and> sh_path r = path) t) = None"
  proof (rule ccontr)
    assume "map_option sh_key (find (\<lambda>r. sh_host r = host \<and> sh_path r = path) t) \<noteq> None"
    then have "path \<in> set (filter (\<lambda>p. map_option sh_key (find (\<lambda>r. sh_host r = host \<and> sh_path r = p) t) \<noteq> None) (ancestors path))"
      using ancestors_self by simp
    with all show False by (simp add: List.map_filter_def)
  qed
  then show ?thesis by (simp add: row_of_def share_key_def)
qed

lemma opened:
  assumes "open_file w p crt d = (Inr (Some f), d1)"
  shows "dn_file (journal_file_name (w_text w) p) d1 = Some f" "jl_project f = p" "jl_links_parsed f"
    "n \<noteq> journal_file_name (w_text w) p \<Longrightarrow> dn_file n d1 = dn_file n d" "dn_shares d1 = dn_shares d"
    "dn_file (journal_file_name (w_text w) p) d = Some f0 \<Longrightarrow> f = backfill_links (w_text w) f0"
  using assms by (auto simp: open_file_def open_journal_def Let_def dn_file_def new_file_def backfill_links_def set_journal_def
      split: option.splits if_splits sum.splits)

lemma opened_none: "open_file w p False d = (Inr None, d1) \<longleftrightarrow> dn_file (journal_file_name (w_text w) p) d = None \<and> d1 = d"
  by (auto simp: open_file_def open_journal_def Let_def dn_file_def split: option.splits if_splits sum.splits)

lemma reopened:
  "dn_file (journal_file_name (w_text w) p) d = Some f \<Longrightarrow> jl_project f = p \<Longrightarrow> jl_links_parsed f
     \<Longrightarrow> \<exists>d1. open_file w p crt d = (Inr (Some f), d1) \<and> (\<forall>n. dn_file n d1 = dn_file n d) \<and> dn_shares d1 = dn_shares d"
  by (auto simp: open_file_def open_journal_def Let_def dn_file_def backfill_links_def)

text \<open>What a share leaves behind: the row, the shared journal under its own name, none under the folder's.\<close>

lemma share_leaves:
  assumes "share_merge w now p own dst d = (Inr (written, merged, moved), d2)" and "own \<noteq> p"
    and dst: "dn_file (journal_file_name (w_text w) p) d = Some dst" "jl_project dst = p" "jl_links_parsed dst"
  shows "dn_file (journal_file_name (w_text w) own) d2 = None \<and> dn_shares d2 = dn_shares d
    \<and> (\<exists>g. dn_file (journal_file_name (w_text w) p) d2 = Some g \<and> jl_project g = p \<and> jl_links_parsed g
       \<and> (\<forall>f. dn_file (journal_file_name (w_text w) own) d = Some f \<longrightarrow>
            (\<forall>r \<in> set (entries (jl_journal f)). holds (w_text w) (je_body r) (entries (jl_journal g)))))"
proof -
  let ?n = "journal_file_name (w_text w)"
  obtain r d1 where o: "open_file w own False d = (r, d1)" by fastforce
  show ?thesis
  proof (cases r)
    case (Inl e)
    then show ?thesis using assms(1) o by (simp add: share_merge_def)
  next
    case (Inr src)
    show ?thesis
    proof (cases src)
      case None
      then show ?thesis using assms(1) o Inr dst opened_none [of w own d d1] by (auto simp: share_merge_def)
    next
      case (Some f)
      then have o: "open_file w own False d = (Inr (Some f), d1)" using o Inr by simp
      note f = opened [OF o]
      have ne: "?n own \<noteq> ?n p"
        using o dst assms(2) by (auto simp: open_file_def open_journal_def Let_def dn_file_def split: if_splits)
      obtain x db where mx: "merge_into (w_text w) (w_token w) (jl_db f) (jl_db dst) = (x, db)" by fastforce
      have m: "merge_into (w_text w) (w_token w) (jl_db f) (jl_db dst) = (Inr (written, merged), db)"
        and d2: "d2 = (put_journal w p (dst\<lparr>jl_db := db\<rparr>) d1)
            \<lparr>dn_store := fst (retire (w_text w) own ''merged'' now (dn_store (put_journal w p (dst\<lparr>jl_db := db\<rparr>) d1)))\<rparr>"
        using assms(1) by (auto simp: share_merge_def o mx Let_def split: sum.splits prod.splits)
      have "file_at (?n own) (dn_store d1) = Some f" using f(1) by (simp add: dn_file_def)
      then have st: "dn_file n d2 = (if n = ?n own then None else if n = ?n p then Some (dst\<lparr>jl_db := db\<rparr>) else dn_file n d1)" for n
        using ne unfolding d2 retire_def put_journal_def on_store_def dn_file_def
        by (simp add: Let_def file_at_def drop_file_def put_file_def delete_conv' update_conv')
      have "holds (w_text w) (je_body r) (entries (mm_journal db))" if "dn_file (?n own) d = Some f0" "r \<in> set (entries (jl_journal f0))" for f0 r
        using merge_into_holds [OF m, of r] that backfill_entries [of "w_text w" f0] f(6) [OF that(1)] by (simp add: jl_journal_def)
      then show ?thesis using st ne dst f(5) by (auto simp: d2 put_journal_def on_store_def jl_journal_def)
    qed
  qed
qed

definition share_with :: "'v world \<Rightarrow> int \<Rightarrow> utext \<Rightarrow> utext \<Rightarrow> utext \<Rightarrow> utext \<Rightarrow> 'v daemon \<Rightarrow> 'v run" where
  "share_with w now p own host target d =
     (case open_file w p True d of
        (Inl e, d1) \<Rightarrow> (Inl e, d1)
      | (Inr None, d1) \<Rightarrow> (Inl (NoJournal p), d1)
      | (Inr (Some dst), d1) \<Rightarrow>
        (case share_merge w now p own dst d1 of (Inl e, d2) \<Rightarrow> (Inl e, d2)
         | (Inr (written, merged, moved), d2) \<Rightarrow>
           (Inr (Shared p target own written merged moved),
            d2\<lparr>dn_shares := dn_shares d2 @ [\<lparr>sh_host = host, sh_path = target, sh_key = p, sh_created = now\<rparr>]\<rparr>)))"

lemma share_with_names: "share_with w now p own host target d = (Inr (Shared p' target' own' wr mg mv), d1) \<Longrightarrow> p' = p \<and> target' = target \<and> own' = own"
  by (auto simp: share_with_def split: sum.splits option.splits prod.splits)

lemma share_tool_with:
  assumes "resolve w args False d = Inr c" "str_arg args ''target'' = Some tg" "absolute_path tg"
    "shared_key (given_or (w_host w) (str_arg args ''host'')) tg (dn_shares d) = None"
    "\<not> same_path (project_key (str_arg args ''target_project_id'') tg) (ca_project c)"
  shows "share_tool w now args d
    = share_with w now (ca_project c) (project_key (str_arg args ''target_project_id'') tg) (given_or (w_host w) (str_arg args ''host'')) tg d"
  by (simp add: share_tool_def assms share_with_def Let_def)

lemma shared_how:
  assumes "share_tool w now args d = (Inr (Shared p target own written merged moved), d1)"
  shows "str_arg args ''target'' = Some target \<and> own = project_key (str_arg args ''target_project_id'') target
    \<and> shared_key (given_or (w_host w) (str_arg args ''host'')) target (dn_shares d) = None \<and> \<not> same_path own p
    \<and> share_tool w now args d = share_with w now p own (given_or (w_host w) (str_arg args ''host'')) target d"
proof -
  obtain c where r: "resolve w args False d = Inr c" using assms by (cases "resolve w args False d") (simp_all add: share_tool_def)
  obtain tg where tg: "str_arg args ''target'' = Some tg" using assms by (cases "str_arg args ''target''") (simp_all add: share_tool_def r)
  let ?host = "given_or (w_host w) (str_arg args ''host'')" let ?own = "project_key (str_arg args ''target_project_id'') tg"
  have ab: "absolute_path tg" using assms by (simp add: share_tool_def r tg split: if_splits)
  have none: "shared_key ?host tg (dn_shares d) = None"
    using assms by (cases "shared_key ?host tg (dn_shares d)") (simp_all add: share_tool_def r tg ab split: if_splits)
  have ns: "\<not> same_path ?own (ca_project c)" using assms by (rule_tac notI) (simp add: share_tool_def r tg ab none)
  have sw: "share_tool w now args d = share_with w now (ca_project c) ?own ?host tg d"
    by (rule share_tool_with [OF r tg ab none ns])
  then have e: "share_with w now (ca_project c) ?own ?host tg d = (Inr (Shared p target own written merged moved), d1)" using assms by simp
  have "p = ca_project c" "target = tg" "own = ?own" using share_with_names [OF e] by simp_all
  then show ?thesis using tg none ns sw by simp
qed


definition share_args :: json where
  "share_args = ann_args [(''target'', JStr ''/b'')]"

lemma share_args_are: "str_arg share_args ''target'' = Some [47, 98]" "str_arg share_args ''target_project_id'' = None"
    "str_arg share_args ''host'' = None"
  by (simp_all add: share_args_def ann_args_def str_arg_def text_of_def of_str_def utf8_decode.simps trim_def is_white_def Let_def)

lemma share_args_resolve: "resolve lone share_args False desk = Inr ann_call"
proof -
  have "jget share_args api_caller = None" by (simp add: share_args_def ann_args_def api_caller_def)
  moreover have "str_arg share_args ''agent_id'' = Some (of_str ''a1'')" "str_arg share_args ''session_token'' = Some (of_str ''t'')"
    using ann_session [of "[(''target'', JStr ''/b'')]"] by (auto simp: session_args_def share_args_def split: option.splits)
  ultimately show ?thesis by (simp add: resolve_def ann_resolves)
qed


end
