(* ===== verification/IndexStore.thy ===== *)
theory IndexStore
  imports Chunker Utf8 Json Strings
begin

text \<open>
  The document index: its tables and statements (\<open>store.rs\<close>), the ingestion of a file or a
  directory (\<open>ingest.rs\<close>, \<open>text.rs\<close>, \<open>pdf.rs\<close>) and the commands that read, delete and
  re-index (\<open>main.rs\<close>), on an index of the current schema.

  The file system, SHA-256, PDFium and the encoder are arguments: records of functions. A path is
  the byte string the code stores (\<open>display()\<close> of a path that is UTF-8).

  The full-text table is kept by triggers: every change of \<open>chunks\<close> is written with its effect on
  \<open>chunks_fts\<close>. The vectors have no trigger.
\<close>

section \<open>Tables\<close>

record doc_row =
  dr_id :: int
  dr_path :: string
  dr_mtime :: int
  dr_sha :: string
  dr_ingested :: int

record chunk_row =
  cr_id :: int
  cr_doc :: int
  cr_ord :: int
  cr_text :: utext
  cr_page_start :: "int option"
  cr_page_end :: "int option"

record page_row =
  pg_id :: int
  pg_doc :: int
  pg_no :: int
  pg_text :: utext

record 'v index_db =
  ix_docs :: "doc_row list"
  ix_chunks :: "chunk_row list"
  ix_pages :: "page_row list"
  ix_fts :: "(int \<times> utext) list"
  ix_vecs :: "(int \<times> 'v) list"

section \<open>Statements\<close>

definition upsert_document :: "string \<Rightarrow> int \<Rightarrow> string \<Rightarrow> int \<Rightarrow> 'v index_db \<Rightarrow> int \<times> 'v index_db" where
  "upsert_document path mtime sha now d =
     (let docs = upsert dr_path
            \<lparr>dr_id = next_rowid dr_id (ix_docs d), dr_path = path, dr_mtime = mtime, dr_sha = sha, dr_ingested = now\<rparr>
            (\<lambda>r. r\<lparr>dr_mtime := mtime, dr_sha := sha, dr_ingested := now\<rparr>) (ix_docs d)
      in (case row_of dr_path path docs of Some r \<Rightarrow> dr_id r | None \<Rightarrow> 0, d\<lparr>ix_docs := docs\<rparr>))"

text \<open>\<open>DELETE FROM chunks\<close> with its trigger; one \<open>INSERT\<close> with its trigger and its foreign key.\<close>

definition delete_chunks :: "int \<Rightarrow> 'v index_db \<Rightarrow> 'v index_db" where
  "delete_chunks doc d =
     d\<lparr>ix_chunks := del_where (\<lambda>c. cr_doc c = doc) (ix_chunks d),
       ix_fts := del_where (\<lambda>(i, t). \<exists>c \<in> set (ix_chunks d). cr_doc c = doc \<and> cr_id c = i) (ix_fts d)\<rparr>"

definition insert_chunk :: "int \<Rightarrow> chunk \<Rightarrow> 'v index_db \<Rightarrow> 'v index_db option" where
  "insert_chunk doc c d =
     (if doc \<in> dr_id ` set (ix_docs d)
      then let i = next_rowid cr_id (ix_chunks d) in
        Some (d\<lparr>ix_chunks := ix_chunks d @ [\<lparr>cr_id = i, cr_doc = doc, cr_ord = int (ck_ord c), cr_text = ck_text c,
                   cr_page_start = ck_page_start c, cr_page_end = ck_page_end c\<rparr>],
                 ix_fts := ix_fts d @ [(i, ck_text c)]\<rparr>)
      else None)"

fun fold_opt :: "('a \<Rightarrow> 's \<Rightarrow> 's option) \<Rightarrow> 'a list \<Rightarrow> 's \<Rightarrow> 's option" where
  "fold_opt f [] s = Some s"
| "fold_opt f (x # xs) s = Option.bind (f x s) (fold_opt f xs)"

definition replace_chunks :: "int \<Rightarrow> chunk list \<Rightarrow> 'v index_db \<Rightarrow> 'v index_db option" where
  "replace_chunks doc cs d = fold_opt (insert_chunk doc) cs (delete_chunks doc d)"

definition insert_page :: "int \<Rightarrow> int \<times> utext \<Rightarrow> 'v index_db \<Rightarrow> 'v index_db option" where
  "insert_page doc = (\<lambda>(no, t) d.
     if doc \<in> dr_id ` set (ix_docs d) \<and> (\<forall>p \<in> set (ix_pages d). \<not> (pg_doc p = doc \<and> pg_no p = no))
     then Some (d\<lparr>ix_pages := ix_pages d
            @ [\<lparr>pg_id = next_rowid pg_id (ix_pages d), pg_doc = doc, pg_no = no, pg_text = t\<rparr>]\<rparr>)
     else None)"

definition replace_pages :: "int \<Rightarrow> (int \<times> utext) list \<Rightarrow> 'v index_db \<Rightarrow> 'v index_db option" where
  "replace_pages doc ps d =
     fold_opt (insert_page doc) ps (d\<lparr>ix_pages := del_where (\<lambda>p. pg_doc p = doc) (ix_pages d)\<rparr>)"

record page_record =
  pr_doc :: int
  pr_path :: string
  pr_no :: int
  pr_text :: utext

definition page_joined :: "(doc_row \<Rightarrow> bool) \<Rightarrow> int \<Rightarrow> 'v index_db \<Rightarrow> page_record option" where
  "page_joined p no d =
     (case [(r, g). g \<leftarrow> ix_pages d, r \<leftarrow> ix_docs d, dr_id r = pg_doc g, p r, pg_no g = no] of [] \<Rightarrow> None
      | (r, g) # _ \<Rightarrow> Some \<lparr>pr_doc = dr_id r, pr_path = dr_path r, pr_no = pg_no g, pr_text = pg_text g\<rparr>)"

definition get_page_by_source :: "string \<Rightarrow> int \<Rightarrow> 'v index_db \<Rightarrow> page_record option" where
  "get_page_by_source path no d = page_joined (\<lambda>r. dr_path r = path) no d"

definition get_page_by_id :: "int \<Rightarrow> int \<Rightarrow> 'v index_db \<Rightarrow> page_record option" where
  "get_page_by_id i no d = page_joined (\<lambda>r. dr_id r = i) no d"

definition lookup_doc_id :: "string \<Rightarrow> 'v index_db \<Rightarrow> int option" where
  "lookup_doc_id path d = map_option dr_id (row_of dr_path path (ix_docs d))"

definition lookup_document_by_id :: "int \<Rightarrow> 'v index_db \<Rightarrow> string option" where
  "lookup_document_by_id i d = map_option dr_path (row_of dr_id i (ix_docs d))"

definition page_count :: "int \<Rightarrow> 'v index_db \<Rightarrow> nat" where
  "page_count doc d = count_where (\<lambda>p. pg_doc p = doc) (ix_pages d)"

definition lookup_document :: "string \<Rightarrow> 'v index_db \<Rightarrow> (int \<times> string) option" where
  "lookup_document path d = map_option (\<lambda>r. (dr_mtime r, dr_sha r)) (row_of dr_path path (ix_docs d))"

definition chunk_count :: "int \<Rightarrow> 'v index_db \<Rightarrow> nat" where
  "chunk_count doc d = count_where (\<lambda>c. cr_doc c = doc) (ix_chunks d)"

definition list_documents :: "'v index_db \<Rightarrow> (string \<times> nat \<times> int) list" where
  "list_documents d =
     map (\<lambda>r. (dr_path r, chunk_count (dr_id r) d, dr_ingested r)) (sort_key (\<lambda>r. - dr_ingested r) (ix_docs d))"

definition status_summary :: "'v index_db \<Rightarrow> nat \<times> nat" where
  "status_summary d = (length (ix_docs d), length (ix_chunks d))"

text \<open>\<open>DELETE FROM documents\<close>: the foreign keys take the chunks and the pages with it.\<close>

definition delete_docs :: "(doc_row \<Rightarrow> bool) \<Rightarrow> 'v index_db \<Rightarrow> 'v index_db" where
  "delete_docs p d =
     (let gone = map dr_id (filter p (ix_docs d));
          cs = filter (\<lambda>c. cr_doc c \<in> set gone) (ix_chunks d)
      in d\<lparr>ix_docs := del_where p (ix_docs d),
           ix_chunks := del_where (\<lambda>c. cr_doc c \<in> set gone) (ix_chunks d),
           ix_fts := del_where (\<lambda>(i, t). i \<in> cr_id ` set cs) (ix_fts d),
           ix_pages := del_where (\<lambda>p. pg_doc p \<in> set gone) (ix_pages d)\<rparr>)"

definition delete_by_id_with_summary :: "int \<Rightarrow> 'v index_db \<Rightarrow> (int \<times> string \<times> nat) option \<times> 'v index_db" where
  "delete_by_id_with_summary i d =
     (case lookup_document_by_id i d of None \<Rightarrow> (None, d)
      | Some path \<Rightarrow> (Some (i, path, chunk_count i d), delete_docs (\<lambda>r. dr_id r = i) d))"

definition delete_by_source_path :: "string \<Rightarrow> 'v index_db \<Rightarrow> nat \<times> 'v index_db" where
  "delete_by_source_path path d =
     (count_where (\<lambda>r. dr_path r = path) (ix_docs d), delete_docs (\<lambda>r. dr_path r = path) d)"

text \<open>SQLite's \<open>LIKE\<close>: ASCII case does not count, \<open>%\<close> is any text, \<open>_\<close> one (UTF-8) character.\<close>

definition fold_case :: "char \<Rightarrow> char" where
  "fold_case c = (let n = of_char c :: nat in if 65 \<le> n \<and> n \<le> 90 then char_of (n + 32) else c)"

fun like :: "string \<Rightarrow> string \<Rightarrow> bool" where
  "like [] s = (s = [])"
| "like (p # ps) [] = (p = CHR ''%'' \<and> like ps [])"
| "like (p # ps) (c # cs) =
     (if p = CHR ''%'' then like ps (c # cs) \<or> like (p # ps) cs
      else if p = CHR ''_'' then like ps (dropWhile (\<lambda>x. cont_byte (of_char x)) cs)
      else fold_case p = fold_case c \<and> like ps cs)"

definition total_pages :: "int \<Rightarrow> 'v index_db \<Rightarrow> int option" where
  "total_pages doc d =
     (case map pg_no (filter (\<lambda>p. pg_doc p = doc) (ix_pages d)) of [] \<Rightarrow> None | n # ns \<Rightarrow> Some (fold max ns n))"

definition resolve_doc_id :: "string \<Rightarrow> 'v index_db \<Rightarrow> (int \<times> string \<times> int option) option" where
  "resolve_doc_id ident d =
     (let found = (case parse_i64 ident of Some i \<Rightarrow> row_of dr_id i (ix_docs d)
           | None \<Rightarrow>
               (case sort_key (\<lambda>r. - dr_ingested r)
                       (filter (\<lambda>r. dr_path r = ident \<or> like (''%/'' @ ident) (dr_path r)) (ix_docs d))
                of [] \<Rightarrow> None | r # _ \<Rightarrow> Some r))
      in map_option (\<lambda>r. (dr_id r, dr_path r, total_pages (dr_id r) d)) found)"

definition fetch_page_range :: "int \<Rightarrow> int \<Rightarrow> int \<Rightarrow> 'v index_db \<Rightarrow> (int \<times> utext) list" where
  "fetch_page_range doc lo hi d =
     map (\<lambda>p. (pg_no p, pg_text p))
       (sort_key pg_no (filter (\<lambda>p. pg_doc p = doc \<and> lo \<le> pg_no p \<and> pg_no p \<le> hi) (ix_pages d)))"

section \<open>Paths\<close>

fun split_on :: "'a \<Rightarrow> 'a list \<Rightarrow> 'a list list" where
  "split_on x [] = [[]]"
| "split_on x (c # cs) =
     (if c = x then [] # split_on x cs else (case split_on x cs of p # ps \<Rightarrow> (c # p) # ps | [] \<Rightarrow> [[c]]))"

text \<open>\<open>Path::components\<close>: the root, then the names, without empty ones and \<open>.\<close>.\<close>

definition path_parts :: "string \<Rightarrow> string list" where
  "path_parts p =
     (if take 1 p = ''/'' then [''/''] else []) @ filter (\<lambda>c. c \<noteq> [] \<and> c \<noteq> ''.'') (split_on (CHR ''/'') p)"

definition starts_with :: "string \<Rightarrow> string \<Rightarrow> bool" where
  "starts_with p root = (take (length (path_parts root)) (path_parts p) = path_parts root)"

definition is_absolute :: "string \<Rightarrow> bool" where
  "is_absolute p = (take 1 p = ''/'')"

definition path_join :: "string \<Rightarrow> string \<Rightarrow> string" where
  "path_join dir p =
     (if is_absolute p then p else if dir = [] \<or> last dir = CHR ''/'' then dir @ p else dir @ ''/'' @ p)"

definition file_name :: "string \<Rightarrow> string option" where
  "file_name p =
     (let ps = filter (\<lambda>c. c \<noteq> [] \<and> c \<noteq> ''.'') (split_on (CHR ''/'') p) in
      if ps = [] \<or> last ps = ''..'' then None else Some (last ps))"

definition path_ext :: "string \<Rightarrow> string option" where
  "path_ext p =
     Option.bind (file_name p) (\<lambda>f.
       let ps = split_on (CHR ''.'') f in if length ps < 2 \<or> ps = [[], last ps] then None else Some (last ps))"

definition ext_lower :: "string \<Rightarrow> string option" where
  "ext_lower p = map_option (map fold_case) (path_ext p)"

definition supported_ext :: "string \<Rightarrow> bool" where
  "supported_ext p \<longleftrightarrow> (case ext_lower p of None \<Rightarrow> False | Some e \<Rightarrow> e \<in> {''md'', ''markdown'', ''txt'', ''pdf''})"

section \<open>Reading a file\<close>

datatype file_type = Plain_File | Directory | Symlink | Other_File

text \<open>
  A directory's entries: \<open>None\<close> is an entry that cannot be read, \<open>Some (name, None)\<close> one whose
  type cannot. \<open>fs_kind\<close> follows symbolic links (\<open>metadata\<close>), the type of an entry does not.
\<close>

record file_system =
  fs_read :: "string \<Rightarrow> nat list option"
  fs_mtime :: "string \<Rightarrow> int option"
  fs_canon :: "string \<Rightarrow> string option"
  fs_kind :: "string \<Rightarrow> file_type option"
  fs_entries :: "string \<Rightarrow> (string \<times> file_type option) option list option"

text \<open>What PDFium makes of a file's bytes: \<open>None\<close> is a panic, \<open>Inl\<close> an error, \<open>Inr\<close> the pages' texts.\<close>

record 'v tools =
  tl_sha :: "nat list \<Rightarrow> string"
  tl_pdf :: "nat list \<Rightarrow> (string + utext list) option"
  tl_encode :: "utext list \<Rightarrow> 'v list option"

datatype ingest_error =
    Io string
  | Not_Utf8 string
  | Pdf_Decode string string
  | Pdf_Budget_Exceeded string nat
  | Unsupported_Ext string
  | Sqlite_Error

definition pdf_budget_bytes :: nat where "pdf_budget_bytes = 50 * 1024 * 1024"

definition read_text :: "file_system \<Rightarrow> string \<Rightarrow> ingest_error + utext" where
  "read_text fs p =
     (case fs_read fs p of None \<Rightarrow> Inl (Io p)
      | Some bytes \<Rightarrow> (case utf8_decode bytes of None \<Rightarrow> Inl (Not_Utf8 p) | Some t \<Rightarrow> Inr t))"

definition read_pages :: "file_system \<Rightarrow> 'v tools \<Rightarrow> string \<Rightarrow> ingest_error + utext list" where
  "read_pages fs x p =
     (case fs_read fs p of None \<Rightarrow> Inl (Pdf_Decode p ''read'')
      | Some bytes \<Rightarrow>
         (case tl_pdf x bytes of None \<Rightarrow> Inl (Pdf_Decode p ''panic during pdfium-render extraction'')
          | Some (Inl msg) \<Rightarrow> Inl (Pdf_Decode p msg)
          | Some (Inr pages) \<Rightarrow>
             (let total = sum_list (map (\<lambda>t. length (utf8_encode t)) pages) in
              if pdf_budget_bytes < total then Inl (Pdf_Budget_Exceeded p total) else Inr pages)))"

text \<open>\<open>read_source\<close>, whose callers have taken the PDF branch already.\<close>

definition read_source :: "file_system \<Rightarrow> 'v tools \<Rightarrow> string \<Rightarrow> ingest_error + utext" where
  "read_source fs x p =
     (case ext_lower p of
        None \<Rightarrow> Inl (Unsupported_Ext p)
      | Some e \<Rightarrow>
          if e = ''md'' \<or> e = ''markdown'' \<or> e = ''txt'' then read_text fs p
          else if e = ''pdf'' then map_sum id (join_with [10]) (read_pages fs x p)
          else Inl (Unsupported_Ext p))"

text \<open>What is to be stored: the chunks, and the pages of a PDF.\<close>

definition read_chunks :: "file_system \<Rightarrow> 'v tools \<Rightarrow> string \<Rightarrow> ingest_error + chunk list \<times> utext list option" where
  "read_chunks fs x p =
     (if ext_lower p = Some ''pdf''
      then map_sum id (\<lambda>pages. (chunk_pages pages, Some pages)) (read_pages fs x p)
      else map_sum id (\<lambda>t. (chunk_text t, None)) (read_source fs x p))"

section \<open>Ingesting\<close>

datatype ingest_outcome = Wrote nat | Unchanged

text \<open>\<open>try_populate_chunks_vec\<close>: silent when the encoder cannot answer.\<close>

definition try_populate_chunks_vec :: "'v tools \<Rightarrow> int \<Rightarrow> chunk list \<Rightarrow> 'v index_db \<Rightarrow> 'v index_db" where
  "try_populate_chunks_vec x doc cs d =
     (if cs = [] then d
      else case tl_encode x (map ck_text cs) of None \<Rightarrow> d
           | Some vs \<Rightarrow>
              (let ids = map cr_id (sort_key cr_ord (filter (\<lambda>c. cr_doc c = doc) (ix_chunks d))) in
               if length ids \<noteq> length vs then d
               else d\<lparr>ix_vecs := fold (ins_replace fst) (zip ids vs) (ix_vecs d)\<rparr>))"

definition numbered_pages :: "utext list \<Rightarrow> (int \<times> utext) list" where
  "numbered_pages ps = map (\<lambda>(i, t). (int i + 1, t)) (zip [0..<length ps] ps)"

text \<open>The transaction: the document's row, its chunks, its pages.\<close>

definition store_document ::
  "string \<Rightarrow> int \<Rightarrow> string \<Rightarrow> int \<Rightarrow> chunk list \<Rightarrow> utext list option \<Rightarrow> 'v index_db \<Rightarrow> (int \<times> 'v index_db) option" where
  "store_document p mtime sha now cs pages d =
     (let (doc, d1) = upsert_document p mtime sha now d in
      Option.bind (replace_chunks doc cs d1) (\<lambda>d2.
      Option.bind (case pages of None \<Rightarrow> Some d2 | Some ps \<Rightarrow> replace_pages doc (numbered_pages ps) d2) (\<lambda>d3.
      Some (doc, d3))))"

definition ingest_path ::
  "file_system \<Rightarrow> 'v tools \<Rightarrow> int \<Rightarrow> string \<Rightarrow> 'v index_db \<Rightarrow> (ingest_error + ingest_outcome) \<times> 'v index_db" where
  "ingest_path fs x now p d =
     (case fs_read fs p of None \<Rightarrow> (Inl (Io p), d)
      | Some bytes \<Rightarrow>
         (case fs_mtime fs p of None \<Rightarrow> (Inl (Io p), d)
          | Some mtime \<Rightarrow>
             (if lookup_document p d = Some (mtime, tl_sha x bytes) then (Inr Unchanged, d)
              else case read_chunks fs x p of Inl e \<Rightarrow> (Inl e, d)
                | Inr (cs, pages) \<Rightarrow>
                   (case store_document p mtime (tl_sha x bytes) now cs pages d of
                      None \<Rightarrow> (Inl Sqlite_Error, d)
                    | Some (doc, d') \<Rightarrow> (Inr (Wrote (length cs)), try_populate_chunks_vec x doc cs d')))))"

record batch_result =
  br_succeeded :: "string list"
  br_unchanged :: "string list"
  br_failed :: "(string \<times> ingest_error) list"

definition no_result :: batch_result where
  "no_result = \<lparr>br_succeeded = [], br_unchanged = [], br_failed = []\<rparr>"

definition ingest_one ::
  "file_system \<Rightarrow> 'v tools \<Rightarrow> int \<Rightarrow> string \<Rightarrow> 'v index_db \<times> batch_result \<Rightarrow> 'v index_db \<times> batch_result" where
  "ingest_one fs x now p = (\<lambda>(d, b).
     let (r, d') = ingest_path fs x now p d in
     (d', case r of
        Inr (Wrote n) \<Rightarrow> b\<lparr>br_succeeded := br_succeeded b @ [p]\<rparr>
      | Inr Unchanged \<Rightarrow> b\<lparr>br_unchanged := br_unchanged b @ [p]\<rparr>
      | Inl e \<Rightarrow> b\<lparr>br_failed := br_failed b @ [(p, e)]\<rparr>))"

definition max_depth :: nat where "max_depth = 32"

text \<open>
  One entry of a directory, \<open>sub\<close> being the walk of a directory below; then the walk itself, whose
  number is how many levels are left (\<open>MAX_DEPTH\<close> less the code's \<open>depth\<close>).
\<close>

definition walk_entry ::
  "file_system \<Rightarrow> 'v tools \<Rightarrow> int \<Rightarrow> string \<Rightarrow> string \<Rightarrow> (string \<Rightarrow> 'v index_db \<times> batch_result \<Rightarrow> 'v index_db \<times> batch_result)
    \<Rightarrow> (string \<times> file_type option) option \<Rightarrow> 'v index_db \<times> batch_result \<Rightarrow> 'v index_db \<times> batch_result" where
  "walk_entry fs x now root dir sub e s =
     (case e of
        Some (name, Some Directory) \<Rightarrow> sub (path_join dir name) s
      | Some (name, Some Plain_File) \<Rightarrow>
          (let q = path_join dir name in
           if supported_ext q
           then (case fs_canon fs q of None \<Rightarrow> s
                 | Some c \<Rightarrow> if starts_with c root then ingest_one fs x now c s else s)
           else s)
      | _ \<Rightarrow> s)"

fun walk ::
  "file_system \<Rightarrow> 'v tools \<Rightarrow> int \<Rightarrow> string \<Rightarrow> nat \<Rightarrow> string \<Rightarrow> 'v index_db \<times> batch_result \<Rightarrow> 'v index_db \<times> batch_result" where
  "walk fs x now root 0 dir s = s"
| "walk fs x now root (Suc left) dir s =
     (case fs_entries fs dir of None \<Rightarrow> s
      | Some es \<Rightarrow> fold (walk_entry fs x now root dir (walk fs x now root left)) es s)"

definition ingest ::
  "file_system \<Rightarrow> 'v tools \<Rightarrow> int \<Rightarrow> string \<Rightarrow> string \<Rightarrow> 'v index_db \<Rightarrow> (ingest_error + batch_result) \<times> 'v index_db" where
  "ingest fs x now root target d =
     (case (fs_canon fs root, fs_canon fs target) of
        (None, _) \<Rightarrow> (Inl (Io root), d)
      | (Some r, None) \<Rightarrow> (Inl (Io target), d)
      | (Some r, Some t) \<Rightarrow>
          if \<not> starts_with t r then (Inr no_result, d)
          else (case fs_kind fs t of None \<Rightarrow> (Inl (Io t), d)
                | Some k \<Rightarrow>
                   (let (d', b) = (if k = Plain_File then ingest_one fs x now t (d, no_result)
                                   else if k = Directory then walk fs x now r max_depth t (d, no_result)
                                   else (d, no_result))
                    in (Inr b, d'))))"

section \<open>Commands on stored documents\<close>

text \<open>\<open>claudebase page\<close>.\<close>

datatype page_answer =
    Document_Not_Found
  | Page_Out_Of_Range
  | Page_Not_Stored
  | Page_Spread int string "int option" int int "(int \<times> utext) list"

definition run_page :: "string \<Rightarrow> int \<Rightarrow> int \<Rightarrow> 'v index_db \<Rightarrow> page_answer" where
  "run_page ident page spread d =
     (case resolve_doc_id ident d of None \<Rightarrow> Document_Not_Found
      | Some (doc, path, pages) \<Rightarrow>
         (if (case pages of Some tp \<Rightarrow> page < 1 \<or> tp < page | None \<Rightarrow> False) then Page_Out_Of_Range
          else let r = min (max spread 0) 20; lo = max (page - r) 1; hi = page + r;
                   ps = fetch_page_range doc lo hi d in
            if ps = [] then Page_Not_Stored else Page_Spread doc path pages lo hi ps))"

text \<open>\<open>claudebase reindex-pages\<close>: one document's turn.\<close>

datatype reindexed = Reindexed nat | Skipped string | Reindex_Failed ingest_error

definition reindex_one :: "file_system \<Rightarrow> 'v tools \<Rightarrow> int \<times> string \<Rightarrow> 'v index_db \<Rightarrow> reindexed \<times> 'v index_db" where
  "reindex_one fs x = (\<lambda>(doc, path) d.
     if map_option (map fold_case) (path_ext path) \<noteq> Some ''pdf'' then (Skipped ''not a PDF'', d)
     else if fs_kind fs path = None then (Skipped ''missing on disk'', d)
     else case read_pages fs x path of Inl e \<Rightarrow> (Reindex_Failed e, d)
       | Inr ps \<Rightarrow>
          (case replace_pages doc (numbered_pages ps) d of None \<Rightarrow> (Reindex_Failed Sqlite_Error, d)
           | Some d' \<Rightarrow> (Reindexed (length ps), d')))"

definition reindex_all :: "file_system \<Rightarrow> 'v tools \<Rightarrow> 'v index_db \<Rightarrow> (int \<times> reindexed) list \<times> 'v index_db" where
  "reindex_all fs x d =
     fold (\<lambda>(doc, path) (out, s). let (r, s') = reindex_one fs x (doc, path) s in (out @ [(doc, r)], s'))
       (map (\<lambda>r. (dr_id r, dr_path r)) (sort_key dr_id (ix_docs d))) ([], d)"

text \<open>\<open>claudebase delete\<close>.\<close>

datatype delete_answer =
    Both_Or_Neither
  | No_Document int
  | Deleted_Id int string nat
  | Outside_Root string
  | Deleted_Paths nat string

definition run_delete ::
  "file_system \<Rightarrow> string \<Rightarrow> int option \<Rightarrow> string option \<Rightarrow> 'v index_db \<Rightarrow> delete_answer \<times> 'v index_db" where
  "run_delete fs root by_id src d =
     (case (by_id, src) of
        (Some i, None) \<Rightarrow>
          (case delete_by_id_with_summary i d of (None, d') \<Rightarrow> (No_Document i, d')
           | (Some (i', path, n), d') \<Rightarrow> (Deleted_Id i' path n, d'))
      | (None, Some s) \<Rightarrow>
          (let candidate = path_join root s;
               key = (case fs_canon fs candidate of Some c \<Rightarrow> c | None \<Rightarrow> candidate) in
           if \<not> starts_with key root then (Outside_Root s, d)
           else let (n, d') = delete_by_source_path key d in (Deleted_Paths n key, d'))
      | _ \<Rightarrow> (Both_Or_Neither, d))"

text \<open>\<open>validate_db_name\<close>: a corpus file is a bare name.\<close>

definition ends_with :: "'a list \<Rightarrow> 'a list \<Rightarrow> bool" where
  "ends_with suf t = (length suf \<le> length t \<and> drop (length t - length suf) t = suf)"

definition validate_db_name :: "string \<Rightarrow> string + string" where
  "validate_db_name name =
     (if name = [] then Inl ''db_name must not be empty''
      else if \<not> ends_with ''.db'' name then Inl ''db_name must end with `.db`''
      else if CHR ''/'' \<in> set name \<or> char_of 92 \<in> set name \<or> contains ''..'' name \<or> take 1 name = ''.''
      then Inl ''db_name must be a bare filename ending in `.db`''
      else Inr name)"

section \<open>What the index keeps\<close>

definition fts_row :: "chunk_row \<Rightarrow> int \<times> utext" where
  "fts_row c = (cr_id c, cr_text c)"

definition doc_chunks :: "int \<Rightarrow> 'v index_db \<Rightarrow> chunk_row list" where
  "doc_chunks doc d = filter (\<lambda>c. cr_doc c = doc) (ix_chunks d)"

definition doc_pages :: "int \<Rightarrow> 'v index_db \<Rightarrow> page_row list" where
  "doc_pages doc d = filter (\<lambda>p. pg_doc p = doc) (ix_pages d)"

text \<open>
  Keys are unique, no chunk or page is without its document, the full-text table holds what
  \<open>chunks\<close> holds, and each document's chunks are numbered from 0, its pages from 1.
\<close>

definition index_ok :: "'v index_db \<Rightarrow> bool" where
  "index_ok d \<longleftrightarrow> pk dr_id (ix_docs d) \<and> pk dr_path (ix_docs d) \<and> pk cr_id (ix_chunks d) \<and> pk pg_id (ix_pages d)
     \<and> cr_doc ` set (ix_chunks d) \<subseteq> dr_id ` set (ix_docs d) \<and> pg_doc ` set (ix_pages d) \<subseteq> dr_id ` set (ix_docs d)
     \<and> ix_fts d = map fts_row (ix_chunks d)
     \<and> (\<forall>doc. map cr_ord (doc_chunks doc d) = map int [0..<length (doc_chunks doc d)])
     \<and> (\<forall>doc. map pg_no (doc_pages doc d) = map (\<lambda>i. int i + 1) [0..<length (doc_pages doc d)])"

lemma fts_delete:
  assumes "pk cr_id cs"
  shows "del_where (\<lambda>(i, t). \<exists>c \<in> set cs. P c \<and> cr_id c = i) (map fts_row cs) = map fts_row (del_where P cs)"
proof -
  have "(\<exists>c \<in> set cs. P c \<and> cr_id c = cr_id a) = P a" if "a \<in> set cs" for a
    using pk_eq [OF assms] that by blast
  then show ?thesis by (simp add: del_where_def filter_map fts_row_def cong: filter_cong)
qed

lemma insert_chunks:
  assumes "doc \<in> dr_id ` set (ix_docs d)"
  shows "\<exists>new. fold_opt (insert_chunk doc) cs d = Some (d\<lparr>ix_chunks := ix_chunks d @ new, ix_fts := ix_fts d @ map fts_row new\<rparr>)
    \<and> map cr_text new = map ck_text cs \<and> map cr_ord new = map (\<lambda>c. int (ck_ord c)) cs \<and> (\<forall>c \<in> set new. cr_doc c = doc)
    \<and> (pk cr_id (ix_chunks d) \<longrightarrow> pk cr_id (ix_chunks d @ new))
    \<and> (cs \<noteq> [] \<longrightarrow> next_rowid cr_id (ix_chunks d) \<in> cr_id ` set new)"
  using assms
proof (induction cs arbitrary: d)
  case Nil
  show ?case by (intro exI [of _ "[]"]) simp
next
  case (Cons c cs)
  let ?i = "next_rowid cr_id (ix_chunks d)"
  define row where "row = \<lparr>cr_id = ?i, cr_doc = doc, cr_ord = int (ck_ord c), cr_text = ck_text c,
    cr_page_start = ck_page_start c, cr_page_end = ck_page_end c\<rparr>"
  let ?d = "d\<lparr>ix_chunks := ix_chunks d @ [row], ix_fts := ix_fts d @ [fts_row row]\<rparr>"
  have one: "insert_chunk doc c d = Some ?d"
    using Cons.prems by (simp add: insert_chunk_def Let_def row_def fts_row_def)
  obtain new where new: "fold_opt (insert_chunk doc) cs ?d
      = Some (?d\<lparr>ix_chunks := ix_chunks ?d @ new, ix_fts := ix_fts ?d @ map fts_row new\<rparr>)"
    "map cr_text new = map ck_text cs" "map cr_ord new = map (\<lambda>c. int (ck_ord c)) cs" "\<forall>c \<in> set new. cr_doc c = doc"
    "pk cr_id (ix_chunks ?d) \<longrightarrow> pk cr_id (ix_chunks ?d @ new)"
    using Cons.IH [of ?d] Cons.prems by auto
  have "pk cr_id (ix_chunks d) \<Longrightarrow> pk cr_id (ix_chunks ?d)" using pk_next [of cr_id _ row] by (simp add: row_def)
  then show ?case using one new by (intro exI [of _ "row # new"]) (simp add: row_def)
qed

lemma insert_pages:
  assumes "doc \<in> dr_id ` set (ix_docs d)" "distinct (map fst ps)"
    "\<forall>g \<in> set (ix_pages d). pg_doc g = doc \<longrightarrow> pg_no g \<notin> fst ` set ps"
  shows "\<exists>new. fold_opt (insert_page doc) ps d = Some (d\<lparr>ix_pages := ix_pages d @ new\<rparr>)
    \<and> map (\<lambda>g. (pg_no g, pg_text g)) new = ps \<and> (\<forall>g \<in> set new. pg_doc g = doc)
    \<and> (pk pg_id (ix_pages d) \<longrightarrow> pk pg_id (ix_pages d @ new))"
  using assms
proof (induction ps arbitrary: d)
  case Nil
  show ?case by (intro exI [of _ "[]"]) simp
next
  case (Cons q ps)
  define row where "row = \<lparr>pg_id = next_rowid pg_id (ix_pages d), pg_doc = doc, pg_no = fst q, pg_text = snd q\<rparr>"
  let ?d = "d\<lparr>ix_pages := ix_pages d @ [row]\<rparr>"
  have one: "insert_page doc q d = Some ?d"
    using Cons.prems by (cases q) (auto simp: insert_page_def row_def)
  obtain new where new: "fold_opt (insert_page doc) ps ?d = Some (?d\<lparr>ix_pages := ix_pages ?d @ new\<rparr>)"
    "map (\<lambda>g. (pg_no g, pg_text g)) new = ps" "\<forall>g \<in> set new. pg_doc g = doc"
    "pk pg_id (ix_pages ?d) \<longrightarrow> pk pg_id (ix_pages ?d @ new)"
    using Cons.IH [of ?d] Cons.prems by (auto simp: row_def)
  have "pk pg_id (ix_pages d) \<Longrightarrow> pk pg_id (ix_pages ?d)" using pk_next [of pg_id _ row] by (simp add: row_def)
  then show ?case using one new by (intro exI [of _ "row # new"]) (simp add: row_def)
qed

lemma doc_filter_append:
  assumes "\<forall>c \<in> set new. k c = doc"
  shows "filter (\<lambda>c. k c = doc') (del_where (\<lambda>c. k c = doc) t @ new)
    = (if doc' = doc then new else filter (\<lambda>c. k c = doc') t)"
  using assms by (auto simp: del_where_def filter_empty_conv filter_id_conv intro: filter_cong)

lemma replace_chunks_ok:
  assumes ok: "index_ok d" and doc: "doc \<in> dr_id ` set (ix_docs d)" and ord: "map ck_ord cs = [0..<length cs]"
  shows "\<exists>d'. replace_chunks doc cs d = Some d' \<and> index_ok d' \<and> ix_docs d' = ix_docs d \<and> ix_pages d' = ix_pages d
    \<and> ix_vecs d' = ix_vecs d \<and> map cr_text (doc_chunks doc d') = map ck_text cs
    \<and> (\<forall>x. x \<noteq> doc \<longrightarrow> doc_chunks x d' = doc_chunks x d)
    \<and> (cs \<noteq> [] \<longrightarrow> next_rowid cr_id (del_where (\<lambda>c. cr_doc c = doc) (ix_chunks d)) \<in> cr_id ` set (doc_chunks doc d'))"
proof -
  let ?d = "delete_chunks doc d"
  have pk1: "pk cr_id (ix_chunks d)" and fts: "ix_fts d = map fts_row (ix_chunks d)"
    using ok by (simp_all add: index_ok_def)
  obtain new where new: "replace_chunks doc cs d
      = Some (?d\<lparr>ix_chunks := ix_chunks ?d @ new, ix_fts := ix_fts ?d @ map fts_row new\<rparr>)"
    "map cr_text new = map ck_text cs" "map cr_ord new = map (\<lambda>c. int (ck_ord c)) cs" "\<forall>c \<in> set new. cr_doc c = doc"
    "pk cr_id (ix_chunks ?d @ new)" "cs \<noteq> [] \<longrightarrow> next_rowid cr_id (ix_chunks ?d) \<in> cr_id ` set new"
    using insert_chunks [of doc ?d cs] doc pk1 pk_del_where [OF pk1]
    by (auto simp: replace_chunks_def delete_chunks_def)
  define d' where "d' = ?d\<lparr>ix_chunks := ix_chunks ?d @ new, ix_fts := ix_fts ?d @ map fts_row new\<rparr>"
  have ch: "ix_chunks d' = del_where (\<lambda>c. cr_doc c = doc) (ix_chunks d) @ new"
    by (simp add: d'_def delete_chunks_def)
  have docs: "doc_chunks x d' = (if x = doc then new else doc_chunks x d)" for x
    using doc_filter_append [OF new(4)] by (simp add: doc_chunks_def ch)
  have "ix_fts d' = map fts_row (ix_chunks d')"
    using fts_delete [OF pk1] by (simp add: d'_def delete_chunks_def fts)
  moreover have "map cr_ord new = map int [0..<length new]"
    using new(3) map_cong [OF refl, of cs] ord map_map [of int ck_ord cs] map_eq_imp_length_eq [OF new(2)] by (simp add: comp_def)
  moreover have "cr_doc ` set (ix_chunks d') \<subseteq> dr_id ` set (ix_docs d')"
    using ok doc new(4) by (auto simp: ch tbl index_ok_def d'_def delete_chunks_def)
  moreover have "pk cr_id (ix_chunks d')" using new(5) by (simp add: ch delete_chunks_def)
  moreover have rest: "ix_docs d' = ix_docs d" "ix_pages d' = ix_pages d" "ix_vecs d' = ix_vecs d"
    by (simp_all add: d'_def delete_chunks_def)
  ultimately have "index_ok d'" using ok docs by (auto simp: index_ok_def doc_pages_def)
  moreover have "cs \<noteq> [] \<longrightarrow> next_rowid cr_id (del_where (\<lambda>c. cr_doc c = doc) (ix_chunks d)) \<in> cr_id ` set (doc_chunks doc d')"
    using new(6) by (simp add: docs delete_chunks_def)
  ultimately show ?thesis using new(1,2) rest docs by (intro exI [of _ d']) (auto simp: d'_def)
qed

lemma map_fst_numbered: "map fst (numbered_pages ps) = map (\<lambda>i. int i + 1) [0..<length ps]"
  by (rule nth_equalityI) (simp_all add: numbered_pages_def)

lemma replace_pages_ok:
  assumes ok: "index_ok d" and doc: "doc \<in> dr_id ` set (ix_docs d)"
  shows "\<exists>d'. replace_pages doc (numbered_pages ps) d = Some d' \<and> index_ok d' \<and> ix_docs d' = ix_docs d
    \<and> ix_chunks d' = ix_chunks d \<and> ix_fts d' = ix_fts d \<and> ix_vecs d' = ix_vecs d
    \<and> map (\<lambda>g. (pg_no g, pg_text g)) (doc_pages doc d') = numbered_pages ps
    \<and> (\<forall>x. x \<noteq> doc \<longrightarrow> doc_pages x d' = doc_pages x d)"
proof -
  let ?d = "d\<lparr>ix_pages := del_where (\<lambda>p. pg_doc p = doc) (ix_pages d)\<rparr>"
  have "distinct (map fst (numbered_pages ps))"
    by (simp add: map_fst_numbered distinct_map inj_on_def)
  then obtain new where new: "replace_pages doc (numbered_pages ps) d = Some (?d\<lparr>ix_pages := ix_pages ?d @ new\<rparr>)"
    "map (\<lambda>g. (pg_no g, pg_text g)) new = numbered_pages ps" "\<forall>g \<in> set new. pg_doc g = doc" "pk pg_id (ix_pages ?d @ new)"
    using insert_pages [of doc ?d "numbered_pages ps"] doc ok pk_del_where [of pg_id "ix_pages d"]
    by (auto simp: replace_pages_def index_ok_def tbl)
  define d' where "d' = ?d\<lparr>ix_pages := ix_pages ?d @ new\<rparr>"
  have pgs: "ix_pages d' = del_where (\<lambda>p. pg_doc p = doc) (ix_pages d) @ new" by (simp add: d'_def)
  have docs: "doc_pages x d' = (if x = doc then new else doc_pages x d)" for x
    using doc_filter_append [OF new(3)] by (simp add: doc_pages_def pgs)
  have "map pg_no new = map fst (map (\<lambda>g. (pg_no g, pg_text g)) new)" by (simp add: comp_def)
  then have "map pg_no new = map (\<lambda>i. int i + 1) [0..<length ps]" by (simp add: new(2) map_fst_numbered)
  moreover from this have "length new = length ps" by (auto dest: map_eq_imp_length_eq)
  moreover have "pg_doc ` set (ix_pages d') \<subseteq> dr_id ` set (ix_docs d')"
    using ok doc new(3) by (auto simp: pgs tbl index_ok_def d'_def)
  moreover have "pk pg_id (ix_pages d')" using new(4) by (simp add: pgs)
  moreover have rest: "ix_docs d' = ix_docs d" "ix_chunks d' = ix_chunks d" "ix_fts d' = ix_fts d" "ix_vecs d' = ix_vecs d"
    by (simp_all add: d'_def)
  ultimately have "index_ok d'" using ok docs by (auto simp: index_ok_def doc_chunks_def)
  then show ?thesis using new(1,2) rest docs by (intro exI [of _ d']) (auto simp: d'_def)
qed

lemma index_ok_docs:
  assumes "index_ok d" "pk dr_id docs" "pk dr_path docs" "dr_id ` set (ix_docs d) \<subseteq> dr_id ` set docs"
  shows "index_ok (d\<lparr>ix_docs := docs\<rparr>)"
proof -
  have "cr_doc ` set (ix_chunks d) \<subseteq> dr_id ` set docs" "pg_doc ` set (ix_pages d) \<subseteq> dr_id ` set docs"
    using assms(1,4) unfolding index_ok_def by blast+
  then show ?thesis using assms by (simp add: index_ok_def doc_chunks_def doc_pages_def)
qed

text \<open>The upsert keeps the document's id, or takes a new one.\<close>

definition id_for :: "string \<Rightarrow> 'v index_db \<Rightarrow> int" where
  "id_for p d = (case lookup_doc_id p d of Some k \<Rightarrow> k | None \<Rightarrow> next_rowid dr_id (ix_docs d))"

lemma upsert_document_ok:
  assumes ok: "index_ok d" and up: "upsert_document p mtime sha now d = (doc, d')"
  shows "index_ok d' \<and> doc \<in> dr_id ` set (ix_docs d') \<and> ix_chunks d' = ix_chunks d \<and> ix_pages d' = ix_pages d
    \<and> ix_vecs d' = ix_vecs d
    \<and> row_of dr_path p (ix_docs d') = Some \<lparr>dr_id = doc, dr_path = p, dr_mtime = mtime, dr_sha = sha, dr_ingested = now\<rparr>
    \<and> (\<forall>q. q \<noteq> p \<longrightarrow> row_of dr_path q (ix_docs d') = row_of dr_path q (ix_docs d))
    \<and> dr_id ` set (ix_docs d) \<subseteq> dr_id ` set (ix_docs d')
    \<and> id_for p d = doc"
proof -
  define new where "new = \<lparr>dr_id = next_rowid dr_id (ix_docs d), dr_path = p, dr_mtime = mtime, dr_sha = sha, dr_ingested = now\<rparr>"
  define f :: "doc_row \<Rightarrow> doc_row" where "f = (\<lambda>r. r\<lparr>dr_mtime := mtime, dr_sha := sha, dr_ingested := now\<rparr>)"
  define docs where "docs = upsert dr_path new f (ix_docs d)"
  have pks: "pk dr_id (ix_docs d)" "pk dr_path (ix_docs d)" using ok by (simp_all add: index_ok_def)
  have e: "d' = d\<lparr>ix_docs := docs\<rparr>" "doc = (case row_of dr_path p docs of Some r \<Rightarrow> dr_id r | None \<Rightarrow> 0)"
    using up by (auto simp: upsert_document_def Let_def docs_def new_def f_def)
  have u: "docs = (if p \<in> dr_path ` set (ix_docs d) then upd_where (\<lambda>x. dr_path x = p) f (ix_docs d) else ix_docs d @ [new])"
    by (simp add: docs_def upsert_def new_def)
  have f: "dr_id (f r) = dr_id r" "dr_path (f r) = dr_path r" for r by (simp_all add: f_def)
  have "pk dr_id docs" "pk dr_path docs"
    using pks pk_upd_where [of "ix_docs d" _ dr_id f] pk_upd_where [of "ix_docs d" _ dr_path f] pk_next [OF pks(1), of new] f
    by (auto simp: u new_def pk_snoc)
  moreover have ids: "dr_id ` set (ix_docs d) \<subseteq> dr_id ` set docs"
    using keys_upd_where [of "ix_docs d" "\<lambda>x. dr_path x = p" dr_id f] f by (auto simp: u simp flip: set_map)
  ultimately have ok': "index_ok d'"
    unfolding e(1) by (intro index_ok_docs [OF ok])
  have "row_of dr_path q docs = (if q = p then Some \<lparr>dr_id = doc, dr_path = p, dr_mtime = mtime, dr_sha = sha, dr_ingested = now\<rparr>
      else row_of dr_path q (ix_docs d))" for q
  proof (cases "p \<in> dr_path ` set (ix_docs d)")
    case True
    then obtain r where r: "row_of dr_path p (ix_docs d) = Some r" using row_of_None [of dr_path p "ix_docs d"] by auto
    have "row_of dr_path q docs = map_option (\<lambda>r. if dr_path r = p then f r else r) (row_of dr_path q (ix_docs d))" for q
      using True f by (simp add: u tbl)
    note all = this
    have rp: "dr_path r = p" using row_of_Some [OF r] by simp
    have fr: "row_of dr_path p docs = Some (f r)" by (simp add: all r rp)
    then have "doc = dr_id r" by (simp add: e(2) f)
    then have "f r = \<lparr>dr_id = doc, dr_path = p, dr_mtime = mtime, dr_sha = sha, dr_ingested = now\<rparr>"
      using rp by (cases r) (simp add: f_def)
    moreover have "row_of dr_path q docs = row_of dr_path q (ix_docs d)" if "q \<noteq> p"
      using that row_of_Some [of dr_path q "ix_docs d"]
      by (cases "row_of dr_path q (ix_docs d)") (auto simp: all)
    ultimately show ?thesis using fr by simp
  next
    case False
    then have "row_of dr_path p (ix_docs d) = None" by (simp add: row_of_None)
    then show ?thesis using False e(2) by (auto simp: u tbl new_def split: option.splits)
  qed
  note rows = this
  have "id_for p d = doc"
  proof (cases "row_of dr_path p (ix_docs d)")
    case None
    then have "docs = ix_docs d @ [new]" using row_of_None [of dr_path p "ix_docs d"] by (simp add: u)
    then show ?thesis using None e(2) by (simp add: id_for_def lookup_doc_id_def tbl new_def)
  next
    case (Some r)
    then have "p \<in> dr_path ` set (ix_docs d)" using row_of_None [of dr_path p "ix_docs d"] by auto
    then have "row_of dr_path p docs = map_option (\<lambda>r. if dr_path r = p then f r else r) (row_of dr_path p (ix_docs d))"
      using f by (simp add: u tbl)
    then show ?thesis using Some e(2) f by (simp add: id_for_def lookup_doc_id_def)
  qed
  note id = this
  from rows [of p] have "doc \<in> dr_id ` set docs" by (auto dest!: row_of_Some intro: rev_image_eqI)
  then show ?thesis using ok' rows ids id by (simp add: e(1))
qed

lemma ords_chunk_text: "map ck_ord (chunk_text t) = [0..<length (chunk_text t)]"
  by (simp add: chunk_text_def plain_numbered)

lemma ords_chunk_pages: "map ck_ord (chunk_pages ps) = [0..<length (chunk_pages ps)]"
  unfolding chunk_pages_def by (rule number_ords)

lemma ords_read_chunks: "read_chunks fs x p = Inr (cs, pages) \<Longrightarrow> map ck_ord cs = [0..<length cs]"
  by (auto simp: read_chunks_def ords_chunk_text ords_chunk_pages map_sum_def split: if_splits sum.splits)

definition stored_as ::
  "string \<Rightarrow> int \<Rightarrow> string \<Rightarrow> int \<Rightarrow> chunk list \<Rightarrow> utext list option \<Rightarrow> int \<Rightarrow> 'v index_db \<Rightarrow> 'v index_db \<Rightarrow> bool" where
  "stored_as p mtime sha now cs pages doc d d' \<longleftrightarrow> index_ok d' \<and> ix_vecs d' = ix_vecs d
    \<and> row_of dr_path p (ix_docs d') = Some \<lparr>dr_id = doc, dr_path = p, dr_mtime = mtime, dr_sha = sha, dr_ingested = now\<rparr>
    \<and> (\<forall>q. q \<noteq> p \<longrightarrow> row_of dr_path q (ix_docs d') = row_of dr_path q (ix_docs d))
    \<and> map cr_text (doc_chunks doc d') = map ck_text cs
    \<and> (\<forall>ps. pages = Some ps \<longrightarrow> map (\<lambda>g. (pg_no g, pg_text g)) (doc_pages doc d') = numbered_pages ps)
    \<and> (\<forall>y. y \<noteq> doc \<longrightarrow> doc_chunks y d' = doc_chunks y d \<and> doc_pages y d' = doc_pages y d)
    \<and> id_for p d = doc
    \<and> (cs \<noteq> [] \<longrightarrow> next_rowid cr_id (del_where (\<lambda>c. cr_doc c = doc) (ix_chunks d)) \<in> cr_id ` set (doc_chunks doc d'))"

lemma store_document_ok:
  assumes ok: "index_ok d" and ord: "map ck_ord cs = [0..<length cs]"
  shows "\<exists>doc d'. store_document p mtime sha now cs pages d = Some (doc, d')
    \<and> stored_as p mtime sha now cs pages doc d d'"
proof -
  obtain doc d1 where up: "upsert_document p mtime sha now d = (doc, d1)" by (cases "upsert_document p mtime sha now d")
  note u = upsert_document_ok [OF ok up]
  obtain d2 where d2: "replace_chunks doc cs d1 = Some d2" "index_ok d2" "ix_docs d2 = ix_docs d1" "ix_pages d2 = ix_pages d1"
    "ix_vecs d2 = ix_vecs d1" "map cr_text (doc_chunks doc d2) = map ck_text cs" "\<forall>y. y \<noteq> doc \<longrightarrow> doc_chunks y d2 = doc_chunks y d1"
    "cs \<noteq> [] \<longrightarrow> next_rowid cr_id (del_where (\<lambda>c. cr_doc c = doc) (ix_chunks d)) \<in> cr_id ` set (doc_chunks doc d2)"
    using replace_chunks_ok [of d1 doc cs] u ord by metis
  show ?thesis
  proof (cases pages)
    case None
    then have "store_document p mtime sha now cs pages d = Some (doc, d2)" using d2(1) by (simp add: store_document_def up)
    then show ?thesis using u d2 None by (auto simp: stored_as_def doc_pages_def doc_chunks_def)
  next
    case (Some ps)
    obtain d3 where d3: "replace_pages doc (numbered_pages ps) d2 = Some d3" "index_ok d3" "ix_docs d3 = ix_docs d2"
      "ix_chunks d3 = ix_chunks d2" "ix_vecs d3 = ix_vecs d2"
      "map (\<lambda>g. (pg_no g, pg_text g)) (doc_pages doc d3) = numbered_pages ps" "\<forall>y. y \<noteq> doc \<longrightarrow> doc_pages y d3 = doc_pages y d2"
      using replace_pages_ok [of d2 doc ps] d2 u by auto
    then have "store_document p mtime sha now cs pages d = Some (doc, d3)" using d2(1) Some by (simp add: store_document_def up)
    then show ?thesis using u d2 d3 Some by (auto simp: stored_as_def doc_pages_def doc_chunks_def)
  qed
qed

lemma populate_frame [simp]:
  "ix_docs (try_populate_chunks_vec x doc cs d) = ix_docs d" "ix_chunks (try_populate_chunks_vec x doc cs d) = ix_chunks d"
  "ix_pages (try_populate_chunks_vec x doc cs d) = ix_pages d" "ix_fts (try_populate_chunks_vec x doc cs d) = ix_fts d"
  by (auto simp: try_populate_chunks_vec_def Let_def split: option.splits)

lemma populate_doc [simp]:
  "doc_chunks y (try_populate_chunks_vec x doc cs d) = doc_chunks y d" "doc_pages y (try_populate_chunks_vec x doc cs d) = doc_pages y d"
  by (simp_all add: doc_chunks_def doc_pages_def)

lemma populate_ok [simp]: "index_ok (try_populate_chunks_vec x doc cs d) = index_ok d"
  by (simp add: index_ok_def)

text \<open>
  What one file's ingestion did: nothing, with an answer that depends on the file and its row
  alone; or the file's row, chunks and pages are new and no other document changed.
\<close>

definition file_current :: "file_system \<Rightarrow> 'v tools \<Rightarrow> string \<Rightarrow> 'v index_db \<Rightarrow> bool" where
  "file_current fs x p d \<longleftrightarrow>
     (\<exists>bytes mtime. fs_read fs p = Some bytes \<and> fs_mtime fs p = Some mtime \<and> lookup_document p d = Some (mtime, tl_sha x bytes))"

definition file_error :: "file_system \<Rightarrow> 'v tools \<Rightarrow> string \<Rightarrow> ingest_error option" where
  "file_error fs x p =
     (if fs_read fs p = None \<or> fs_mtime fs p = None then Some (Io p)
      else case read_chunks fs x p of Inl e \<Rightarrow> Some e | Inr y \<Rightarrow> None)"

lemma ingest_path_cases:
  assumes "index_ok d"
  obtains (current) "file_current fs x p d" "ingest_path fs x now p d = (Inr Unchanged, d)"
  | (error) e where "\<not> file_current fs x p d" "file_error fs x p = Some e" "ingest_path fs x now p d = (Inl e, d)"
  | (wrote) bytes mtime cs pages doc d' where "\<not> file_current fs x p d" "fs_read fs p = Some bytes" "fs_mtime fs p = Some mtime"
      "read_chunks fs x p = Inr (cs, pages)" "ingest_path fs x now p d = (Inr (Wrote (length cs)), try_populate_chunks_vec x doc cs d')"
      "stored_as p mtime (tl_sha x bytes) now cs pages doc d d'"
proof (cases "file_current fs x p d")
  case True
  then show thesis using current by (auto simp: file_current_def ingest_path_def)
next
  case False
  show thesis
  proof (cases "file_error fs x p")
    case (Some e)
    have "ingest_path fs x now p d = (Inl e, d)"
    proof (cases "fs_read fs p = None \<or> fs_mtime fs p = None")
      case True
      then show ?thesis using Some by (auto simp: file_error_def ingest_path_def split: option.split)
    next
      case F: False
      then obtain bytes mtime where "fs_read fs p = Some bytes" "fs_mtime fs p = Some mtime" by auto
      moreover have "read_chunks fs x p = Inl e" using Some F by (auto simp: file_error_def split: sum.splits)
      ultimately show ?thesis using False by (simp add: ingest_path_def file_current_def)
    qed
    then show thesis using error [OF False Some] by simp
  next
    case None
    then obtain bytes mtime cs pages where r: "fs_read fs p = Some bytes" "fs_mtime fs p = Some mtime"
      "read_chunks fs x p = Inr (cs, pages)" by (auto simp: file_error_def split: if_splits sum.splits)
    obtain doc d' where s: "store_document p mtime (tl_sha x bytes) now cs pages d = Some (doc, d')"
      "stored_as p mtime (tl_sha x bytes) now cs pages doc d d'"
      using store_document_ok [OF assms ords_read_chunks [OF r(3)]] by blast
    moreover have "ingest_path fs x now p d = (Inr (Wrote (length cs)), try_populate_chunks_vec x doc cs d')"
      using False r s(1) by (auto simp: ingest_path_def file_current_def)
    ultimately show thesis using wrote [OF False r(1,2,3)] by simp
  qed
qed

section \<open>Which files a run ingests\<close>

definition entry_files ::
  "file_system \<Rightarrow> string \<Rightarrow> string \<Rightarrow> (string \<Rightarrow> string list) \<Rightarrow> (string \<times> file_type option) option \<Rightarrow> string list" where
  "entry_files fs root dir sub e =
     (case e of
        Some (name, Some Directory) \<Rightarrow> sub (path_join dir name)
      | Some (name, Some Plain_File) \<Rightarrow>
          (if supported_ext (path_join dir name)
           then (case fs_canon fs (path_join dir name) of None \<Rightarrow> [] | Some c \<Rightarrow> if starts_with c root then [c] else [])
           else [])
      | _ \<Rightarrow> [])"

fun walk_files :: "file_system \<Rightarrow> string \<Rightarrow> nat \<Rightarrow> string \<Rightarrow> string list" where
  "walk_files fs root 0 dir = []"
| "walk_files fs root (Suc left) dir =
     (case fs_entries fs dir of None \<Rightarrow> [] | Some es \<Rightarrow> concat (map (entry_files fs root dir (walk_files fs root left)) es))"

lemma walk_folds: "walk fs x now root left dir s = fold (ingest_one fs x now) (walk_files fs root left dir) s"
proof (induction left arbitrary: dir s)
  case (Suc left)
  have one: "walk_entry fs x now root dir (walk fs x now root left) e s
      = fold (ingest_one fs x now) (entry_files fs root dir (walk_files fs root left) e) s" for e s
    by (auto simp: walk_entry_def entry_files_def Suc.IH Let_def split: option.splits file_type.splits)
  have "fold (walk_entry fs x now root dir (walk fs x now root left)) es s
      = fold (ingest_one fs x now) (concat (map (entry_files fs root dir (walk_files fs root left)) es)) s" for es s
    by (induction es arbitrary: s) (simp_all add: one)
  then show ?case by (simp split: option.split)
qed simp

definition ingest_files :: "file_system \<Rightarrow> string \<Rightarrow> string \<Rightarrow> ingest_error + string list" where
  "ingest_files fs root target =
     (case (fs_canon fs root, fs_canon fs target) of
        (None, _) \<Rightarrow> Inl (Io root)
      | (Some r, None) \<Rightarrow> Inl (Io target)
      | (Some r, Some t) \<Rightarrow>
          if \<not> starts_with t r then Inr []
          else (case fs_kind fs t of None \<Rightarrow> Inl (Io t)
                | Some k \<Rightarrow> Inr (if k = Plain_File then [t] else if k = Directory then walk_files fs r max_depth t else [])))"

lemma ingest_folds:
  "ingest fs x now root target d =
     (case ingest_files fs root target of Inl e \<Rightarrow> (Inl e, d)
      | Inr ps \<Rightarrow> let (d', b) = fold (ingest_one fs x now) ps (d, no_result) in (Inr b, d'))"
  by (auto simp: ingest_def ingest_files_def walk_folds split: option.splits if_splits)

section \<open>Every operation keeps the index consistent\<close>

lemma ingest_path_ok: "index_ok d \<Longrightarrow> index_ok (snd (ingest_path fs x now p d))"
  by (rule ingest_path_cases [of d fs x p now]) (auto simp: stored_as_def)

lemma ingest_ok:
  assumes "index_ok d"
  shows "index_ok (snd (ingest fs x now root target d))"
proof -
  have "index_ok (fst s) \<Longrightarrow> index_ok (fst (fold (ingest_one fs x now) ps s))" for ps and s :: "'a index_db \<times> batch_result"
  proof (induction ps arbitrary: s)
    case (Cons p ps)
    have "index_ok (fst (ingest_one fs x now p s))"
      using ingest_path_ok [of "fst s" fs x now p] Cons.prems by (auto simp: ingest_one_def split: prod.splits)
    then show ?case by (simp add: Cons.IH)
  qed simp
  from this [of "(d, no_result)"] show ?thesis using assms
    by (auto simp: ingest_folds split: sum.splits prod.splits) (metis fst_conv)
qed

lemma delete_docs_doc:
  "doc_chunks y (delete_docs p d) = (if y \<in> dr_id ` {r \<in> set (ix_docs d). p r} then [] else doc_chunks y d)"
  "doc_pages y (delete_docs p d) = (if y \<in> dr_id ` {r \<in> set (ix_docs d). p r} then [] else doc_pages y d)"
  by (auto simp: doc_chunks_def doc_pages_def delete_docs_def Let_def del_where_def filter_empty_conv intro: filter_cong)

lemma delete_docs_ok:
  assumes ok: "index_ok d"
  shows "index_ok (delete_docs p d)"
proof -
  let ?gone = "dr_id ` {r \<in> set (ix_docs d). p r}"
  have pks: "pk dr_id (ix_docs d)" "pk dr_path (ix_docs d)" "pk cr_id (ix_chunks d)" "pk pg_id (ix_pages d)"
    and fts: "ix_fts d = map fts_row (ix_chunks d)" using ok by (simp_all add: index_ok_def)
  have e: "delete_docs p d = d\<lparr>ix_docs := del_where p (ix_docs d),
       ix_chunks := del_where (\<lambda>c. cr_doc c \<in> ?gone) (ix_chunks d),
       ix_fts := del_where (\<lambda>(i, t). \<exists>c \<in> set (ix_chunks d). cr_doc c \<in> ?gone \<and> cr_id c = i) (ix_fts d),
       ix_pages := del_where (\<lambda>p. pg_doc p \<in> ?gone) (ix_pages d)\<rparr>"
  proof -
    have "(i \<in> cr_id ` {c \<in> set (ix_chunks d). cr_doc c \<in> ?gone}) = (\<exists>c \<in> set (ix_chunks d). cr_doc c \<in> ?gone \<and> cr_id c = i)" for i
      by blast
    then show ?thesis by (simp add: delete_docs_def Let_def)
  qed
  have "ix_fts (delete_docs p d) = map fts_row (ix_chunks (delete_docs p d))"
    using fts_delete [OF pks(3)] by (simp add: e fts)
  moreover have "cr_doc ` set (ix_chunks (delete_docs p d)) \<subseteq> dr_id ` set (ix_docs (delete_docs p d))"
    "pg_doc ` set (ix_pages (delete_docs p d)) \<subseteq> dr_id ` set (ix_docs (delete_docs p d))"
  proof -
    have "cr_doc ` set (ix_chunks d) \<subseteq> dr_id ` set (ix_docs d)" "pg_doc ` set (ix_pages d) \<subseteq> dr_id ` set (ix_docs d)"
      using ok by (simp_all add: index_ok_def)
    then show "cr_doc ` set (ix_chunks (delete_docs p d)) \<subseteq> dr_id ` set (ix_docs (delete_docs p d))"
      "pg_doc ` set (ix_pages (delete_docs p d)) \<subseteq> dr_id ` set (ix_docs (delete_docs p d))"
      unfolding e by (auto 0 3 simp: set_del_where)
  qed
  moreover have "pk dr_id (ix_docs (delete_docs p d))" "pk dr_path (ix_docs (delete_docs p d))"
    "pk cr_id (ix_chunks (delete_docs p d))" "pk pg_id (ix_pages (delete_docs p d))"
    using pks by (simp_all add: e pk_del_where)
  moreover have "map cr_ord (doc_chunks y (delete_docs p d)) = map int [0..<length (doc_chunks y (delete_docs p d))]"
    "map pg_no (doc_pages y (delete_docs p d)) = map (\<lambda>i. int i + 1) [0..<length (doc_pages y (delete_docs p d))]" for y
    using ok unfolding delete_docs_doc index_ok_def by auto
  ultimately show ?thesis unfolding index_ok_def by blast
qed

lemma reindex_one_ok:
  assumes "index_ok d" "fst q \<in> dr_id ` set (ix_docs d)"
  shows "index_ok (snd (reindex_one fs x q d)) \<and> ix_docs (snd (reindex_one fs x q d)) = ix_docs d"
proof -
  have "index_ok d' \<and> ix_docs d' = ix_docs d" if "replace_pages (fst q) (numbered_pages ps) d = Some d'" for ps d'
    using replace_pages_ok [OF assms, of ps] that by auto
  then show ?thesis using assms(1) by (auto simp: reindex_one_def split: prod.splits sum.splits option.splits)
qed

lemma reindex_all_ok:
  assumes "index_ok d"
  shows "index_ok (snd (reindex_all fs x d))"
proof -
  define f where "f = (\<lambda>(doc, path) (out, s). let (r, s') = reindex_one fs x (doc, path) s in (out @ [(doc, r)], s'))"
  have "index_ok (snd s) \<Longrightarrow> fst ` set qs \<subseteq> dr_id ` set (ix_docs (snd s)) \<Longrightarrow> index_ok (snd (fold f qs s))"
    for qs and s :: "(int \<times> reindexed) list \<times> 'a index_db"
  proof (induction qs arbitrary: s)
    case (Cons q qs)
    then have "index_ok (snd (f q s)) \<and> ix_docs (snd (f q s)) = ix_docs (snd s)"
      using reindex_one_ok [of "snd s" q fs x] by (auto simp: f_def split: prod.splits)
    with Cons show ?case by simp
  qed simp
  from this [of "([], d)"] assms show ?thesis by (simp add: reindex_all_def f_def image_image)
qed

text \<open>What the commands do to the index, one at a time.\<close>

inductive index_step :: "'v index_db \<Rightarrow> 'v index_db \<Rightarrow> bool" where
  "index_step d (snd (ingest fs x now root target d))"
| "index_step d (snd (run_delete fs root by_id src d))"
| "index_step d (snd (reindex_all fs x d))"

definition empty_index :: "'v index_db \<Rightarrow> bool" where
  "empty_index d \<longleftrightarrow> ix_docs d = [] \<and> ix_chunks d = [] \<and> ix_pages d = [] \<and> ix_fts d = []"

lemma run_delete_ok: "index_ok d \<Longrightarrow> index_ok (snd (run_delete fs root by_id src d))"
  by (auto simp: run_delete_def delete_by_id_with_summary_def delete_by_source_path_def delete_docs_ok Let_def
      split: option.splits)

interpretation ix: transition_system empty_index index_step index_ok
proof
  show "empty_index d \<Longrightarrow> index_ok d" for d :: "'v index_db"
    by (simp add: empty_index_def index_ok_def pk_def doc_chunks_def doc_pages_def)
  show "index_step s t \<Longrightarrow> index_ok s \<Longrightarrow> index_ok t" for s t :: "'v index_db"
    by (auto elim!: index_step.cases simp: ingest_ok run_delete_ok reindex_all_ok)
qed

section \<open>Properties\<close>

text \<open>
  C38: Whatever is ingested, deleted and re-indexed, the index stays consistent: ids and paths are
  unique, no chunk or page outlives its document, the full-text table says exactly what the chunks
  say, a document's chunks are numbered from 0 without a gap and its pages from 1.
\<close>

theorem index_stays_consistent:
  "empty_index d \<Longrightarrow> index_step\<^sup>*\<^sup>* d d' \<Longrightarrow> index_ok d'"
  by (rule ix.reachable_inv)

lemma sort_key_sorted: "sorted (map k xs) \<Longrightarrow> sort_key k xs = xs"
  by (induction xs) (simp_all add: insort_is_Cons)

lemma chunks_in_order:
  assumes "index_ok d"
  shows "sort_key cr_ord (doc_chunks doc d) = doc_chunks doc d"
proof (rule sort_key_sorted)
  have "map cr_ord (doc_chunks doc d) = map int [0..<length (doc_chunks doc d)]" using assms by (simp add: index_ok_def)
  moreover have "sorted (map int [0..<n])" for n by (simp add: sorted_map sorted_wrt_upt)
  ultimately show "sorted (map cr_ord (doc_chunks doc d))" by metis
qed

text \<open>
  C39: A text file that was ingested can be read back whole: the chunks stored for its path, in the
  order of their numbers and stitched, are the text that was read. The full-text table holds every
  one of them under its chunk's id.
\<close>

theorem ingested_text_reads_back:
  assumes "index_ok d" "ext_lower p \<noteq> Some ''pdf''" "ingest_path fs x now p d = (Inr (Wrote n), d')"
  shows "\<exists>t doc. read_source fs x p = Inr t \<and> lookup_doc_id p d' = Some doc
    \<and> stitch_chunks (map cr_text (sort_key cr_ord (filter (\<lambda>c. cr_doc c = doc) (ix_chunks d')))) = t
    \<and> chunk_count doc d' = n \<and> (\<forall>c \<in> set (ix_chunks d'). (cr_id c, cr_text c) \<in> set (ix_fts d'))"
proof (rule ingest_path_cases [OF assms(1), of fs x p now])
  fix bytes mtime cs pages doc d1
  assume r: "read_chunks fs x p = Inr (cs, pages)" and st: "stored_as p mtime (tl_sha x bytes) now cs pages doc d d1"
    and out: "ingest_path fs x now p d = (Inr (Wrote (length cs)), try_populate_chunks_vec x doc cs d1)"
  have d': "d' = try_populate_chunks_vec x doc cs d1" "n = length cs" using out assms(3) by simp_all
  obtain t where t: "read_source fs x p = Inr t" "cs = chunk_text t"
    using r assms(2) by (cases "read_source fs x p") (auto simp: read_chunks_def)
  have texts: "map cr_text (doc_chunks doc d1) = map ck_text cs" using st by (simp add: stored_as_def)
  have ok: "index_ok d'" using st by (simp add: d' stored_as_def)
  then have "map cr_text (sort_key cr_ord (doc_chunks doc d')) = map ck_text cs"
    using texts by (simp add: chunks_in_order) (simp add: d')
  moreover have "chunk_count doc d' = n"
    using map_eq_imp_length_eq [OF texts] by (simp add: chunk_count_def count_where_def d' doc_chunks_def)
  moreover have "\<forall>c \<in> set (ix_chunks d'). (cr_id c, cr_text c) \<in> set (ix_fts d')"
    using ok by (auto simp: index_ok_def fts_row_def)
  moreover have "lookup_doc_id p d' = Some doc" using st by (simp add: lookup_doc_id_def d' stored_as_def)
  ultimately show ?thesis
    using t stitch_undoes_chunking_text [of t] by (auto simp: doc_chunks_def)
qed (use assms(3) in simp_all)

lemma pages_in_order:
  assumes "index_ok d"
  shows "sorted (map pg_no (filter p (doc_pages doc d)))"
proof -
  have "map pg_no (doc_pages doc d) = map (\<lambda>i. int i + 1) [0..<length (doc_pages doc d)]" using assms by (simp add: index_ok_def)
  moreover have "sorted (map (\<lambda>i. int i + 1) [0..<n])" for n by (simp add: sorted_map sorted_wrt_upt)
  ultimately have "sorted (map pg_no (doc_pages doc d))" by metis
  then show ?thesis by (rule sorted_filter)
qed

text \<open>
  A PDF that was ingested can be read back page by page: any range of pages asked of the index
  is the range of the pages PDFium extracted, in order, and the number of pages is theirs.
\<close>

theorem ingested_pages_read_back:
  assumes "index_ok d" "ext_lower p = Some ''pdf''" "ingest_path fs x now p d = (Inr (Wrote n), d')"
  shows "\<exists>pages doc. read_pages fs x p = Inr pages \<and> lookup_doc_id p d' = Some doc
    \<and> fetch_page_range doc lo hi d' = filter (\<lambda>(no, t). lo \<le> no \<and> no \<le> hi) (numbered_pages pages)
    \<and> page_count doc d' = length pages"
proof (rule ingest_path_cases [OF assms(1), of fs x p now])
  fix bytes mtime cs pages doc d1
  assume r: "read_chunks fs x p = Inr (cs, pages)" and st: "stored_as p mtime (tl_sha x bytes) now cs pages doc d d1"
    and out: "ingest_path fs x now p d = (Inr (Wrote (length cs)), try_populate_chunks_vec x doc cs d1)"
  have d': "d' = try_populate_chunks_vec x doc cs d1" using out assms(3) by simp
  obtain ps where ps: "read_pages fs x p = Inr ps" "pages = Some ps"
    using r assms(2) by (cases "read_pages fs x p") (auto simp: read_chunks_def)
  have eq: "map (\<lambda>g. (pg_no g, pg_text g)) (doc_pages doc d') = numbered_pages ps" using st ps by (simp add: stored_as_def d')
  have "index_ok d'" using st by (simp add: d' stored_as_def)
  then have "fetch_page_range doc lo hi d'
      = map (\<lambda>g. (pg_no g, pg_text g)) (filter (\<lambda>g. lo \<le> pg_no g \<and> pg_no g \<le> hi) (doc_pages doc d'))"
    using sort_key_sorted [OF pages_in_order, of d' "\<lambda>g. lo \<le> pg_no g \<and> pg_no g \<le> hi" doc]
    by (simp add: fetch_page_range_def doc_pages_def conj_commute)
  also have "\<dots> = filter (\<lambda>(no, t). lo \<le> no \<and> no \<le> hi) (numbered_pages ps)"
    by (simp add: filter_map comp_def flip: eq)
  finally have "fetch_page_range doc lo hi d' = filter (\<lambda>(no, t). lo \<le> no \<and> no \<le> hi) (numbered_pages ps)" .
  moreover have "page_count doc d' = length ps"
    using arg_cong [OF eq, of length] by (simp add: page_count_def count_where_def doc_pages_def numbered_pages_def)
  moreover have "lookup_doc_id p d' = Some doc" using st by (simp add: lookup_doc_id_def d' stored_as_def)
  ultimately show ?thesis using ps by blast
qed (use assms(3) in simp_all)

lemma ingest_one_step:
  assumes "index_ok d" "ingest_one fs x now p (d, b) = (d', b')"
  shows "index_ok d' \<and> (\<forall>q. file_current fs x q d \<longrightarrow> file_current fs x q d')
    \<and> (\<forall>q. file_error fs x q \<noteq> None \<longrightarrow> file_current fs x q d' = file_current fs x q d)
    \<and> (file_current fs x p d' \<or> file_error fs x p \<noteq> None)
    \<and> (\<forall>q. q \<noteq> p \<longrightarrow> row_of dr_path q (ix_docs d') = row_of dr_path q (ix_docs d))
    \<and> (row_of dr_path p (ix_docs d') \<noteq> row_of dr_path p (ix_docs d) \<longrightarrow> p \<in> set (br_succeeded b'))
    \<and> (if file_current fs x p d then d' = d \<and> b' = b\<lparr>br_unchanged := br_unchanged b @ [p]\<rparr>
       else case file_error fs x p of Some e \<Rightarrow> d' = d \<and> b' = b\<lparr>br_failed := br_failed b @ [(p, e)]\<rparr>
         | None \<Rightarrow> b' = b\<lparr>br_succeeded := br_succeeded b @ [p]\<rparr>)"
proof (rule ingest_path_cases [OF assms(1), of fs x p now])
  fix bytes mtime cs pages doc d1
  assume nc: "\<not> file_current fs x p d" and f: "fs_read fs p = Some bytes" "fs_mtime fs p = Some mtime"
    "read_chunks fs x p = Inr (cs, pages)" and st: "stored_as p mtime (tl_sha x bytes) now cs pages doc d d1"
    and out: "ingest_path fs x now p d = (Inr (Wrote (length cs)), try_populate_chunks_vec x doc cs d1)"
  have e: "d' = try_populate_chunks_vec x doc cs d1" "b' = b\<lparr>br_succeeded := br_succeeded b @ [p]\<rparr>"
    using assms(2) by (simp_all add: ingest_one_def out)
  have row: "row_of dr_path q (ix_docs d') = (if q = p then Some \<lparr>dr_id = doc, dr_path = p, dr_mtime = mtime,
      dr_sha = tl_sha x bytes, dr_ingested = now\<rparr> else row_of dr_path q (ix_docs d))" for q
    using st by (simp add: stored_as_def e)
  have cur: "file_current fs x q d' = (q = p \<or> file_current fs x q d)" for q
    using f by (auto simp: file_current_def lookup_document_def row)
  have err: "file_error fs x p = None" using f by (simp add: file_error_def)
  have "index_ok d'" using st by (simp add: stored_as_def e)
  then show ?thesis using nc err by (auto simp: cur row e(2))
qed (use assms in \<open>auto simp: ingest_one_def\<close>)

text \<open>A run over a list of files, from an index to an index: what is settled stays settled.\<close>

definition file_fails :: "file_system \<Rightarrow> 'v tools \<Rightarrow> 'v index_db \<Rightarrow> string \<Rightarrow> (string \<times> ingest_error) list" where
  "file_fails fs x d p =
     (if file_current fs x p d then [] else case file_error fs x p of Some e \<Rightarrow> [(p, e)] | None \<Rightarrow> [])"

lemma file_fails_cong:
  assumes "\<forall>q. file_error fs x q \<noteq> None \<longrightarrow> file_current fs x q d' = file_current fs x q d"
  shows "file_fails fs x d' = file_fails fs x d"
proof
  fix q show "file_fails fs x d' q = file_fails fs x d q"
    using assms by (cases "file_error fs x q") (auto simp: file_fails_def)
qed

lemma ingest_run:
  assumes "index_ok d" "fold (ingest_one fs x now) ps (d, b) = (d', b')"
  shows "index_ok d' \<and> (\<forall>q. file_current fs x q d \<longrightarrow> file_current fs x q d')
    \<and> (\<forall>q. file_error fs x q \<noteq> None \<longrightarrow> file_current fs x q d' = file_current fs x q d)
    \<and> (\<forall>p \<in> set ps. file_current fs x p d' \<or> file_error fs x p \<noteq> None)
    \<and> br_failed b' = br_failed b @ concat (map (file_fails fs x d) ps)
    \<and> mset (br_succeeded b') + mset (br_unchanged b')
      = mset (br_succeeded b) + mset (br_unchanged b) + mset (filter (\<lambda>p. file_fails fs x d p = []) ps)
    \<and> set (br_succeeded b) \<subseteq> set (br_succeeded b')
    \<and> (\<forall>q. row_of dr_path q (ix_docs d') \<noteq> row_of dr_path q (ix_docs d) \<longrightarrow> q \<in> set (br_succeeded b') \<and> q \<in> set ps)"
  using assms
proof (induction ps arbitrary: d b)
  case (Cons p ps)
  obtain d1 b1 where one: "ingest_one fs x now p (d, b) = (d1, b1)" by (cases "ingest_one fs x now p (d, b)")
  have rest: "fold (ingest_one fs x now) ps (d1, b1) = (d', b')" using Cons.prems(2) by (simp add: one)
  note s = ingest_one_step [OF Cons.prems(1) one]
  note IH = Cons.IH [OF _ rest]
  have ok1: "index_ok d1" using s by blast
  note IH = IH [OF ok1]
  have same: "file_fails fs x d1 = file_fails fs x d" using s by (intro file_fails_cong) blast
  have b1: "br_failed b1 = br_failed b @ file_fails fs x d p"
    "mset (br_succeeded b1) + mset (br_unchanged b1) = mset (br_succeeded b) + mset (br_unchanged b)
      + mset (filter (\<lambda>p. file_fails fs x d p = []) [p])"
    "set (br_succeeded b) \<subseteq> set (br_succeeded b1)"
    using s by (auto simp: file_fails_def split: if_splits option.splits)
  have "br_failed b' = br_failed b @ concat (map (file_fails fs x d) (p # ps))" using IH b1(1) by (simp add: same)
  moreover have "mset (br_succeeded b') + mset (br_unchanged b')
      = mset (br_succeeded b) + mset (br_unchanged b) + mset (filter (\<lambda>p. file_fails fs x d p = []) (p # ps))"
    using IH b1(2) by (simp add: same split: if_splits)
  moreover have "\<forall>q. row_of dr_path q (ix_docs d') \<noteq> row_of dr_path q (ix_docs d) \<longrightarrow> q \<in> set (br_succeeded b') \<and> q \<in> set (p # ps)"
  proof (intro allI impI)
    fix q assume ne: "row_of dr_path q (ix_docs d') \<noteq> row_of dr_path q (ix_docs d)"
    show "q \<in> set (br_succeeded b') \<and> q \<in> set (p # ps)"
    proof (cases "row_of dr_path q (ix_docs d1) = row_of dr_path q (ix_docs d)")
      case True
      then show ?thesis using IH ne by auto
    next
      case False
      then have "q = p" "q \<in> set (br_succeeded b1)" using s by auto
      then show ?thesis using IH by auto
    qed
  qed
  moreover have "\<forall>q \<in> set (p # ps). file_current fs x q d' \<or> file_error fs x q \<noteq> None" using IH s by auto
  moreover have "\<forall>q. file_current fs x q d \<longrightarrow> file_current fs x q d'"
    "\<forall>q. file_error fs x q \<noteq> None \<longrightarrow> file_current fs x q d' = file_current fs x q d" using IH s by auto
  moreover have "index_ok d'" "set (br_succeeded b) \<subseteq> set (br_succeeded b')" using IH b1(3) by auto
  ultimately show ?case by blast
qed simp

text \<open>Where every file is settled, a run writes nothing.\<close>

lemma ingest_run_settled:
  assumes "index_ok d" "\<forall>p \<in> set ps. file_current fs x p d \<or> file_error fs x p \<noteq> None"
  shows "\<exists>b'. fold (ingest_one fs x now) ps (d, b) = (d, b') \<and> br_succeeded b' = br_succeeded b"
  using assms(2)
proof (induction ps arbitrary: b)
  case (Cons p ps)
  obtain d1 b1 where one: "ingest_one fs x now p (d, b) = (d1, b1)" by (cases "ingest_one fs x now p (d, b)")
  have "d1 = d \<and> br_succeeded b1 = br_succeeded b"
    using ingest_one_step [OF assms(1) one] Cons.prems by (auto split: if_splits option.splits)
  then show ?case using Cons.IH [of b1] Cons.prems one by auto
qed simp

text \<open>
  Ingesting the same files again changes nothing: the index, its vectors included, is the one
  the first run left; no file is written again, every file the first run wrote or left is
  unchanged, and those it failed on fail with the same error.
\<close>

theorem ingest_again_changes_nothing:
  assumes "index_ok d" "ingest fs x now root target d = (Inr b, d1)"
  shows "\<exists>b2. ingest fs x now2 root target d1 = (Inr b2, d1) \<and> br_succeeded b2 = [] \<and> br_failed b2 = br_failed b
    \<and> mset (br_unchanged b2) = mset (br_succeeded b) + mset (br_unchanged b)"
proof -
  obtain ps where ps: "ingest_files fs root target = Inr ps" "fold (ingest_one fs x now) ps (d, no_result) = (d1, b)"
    using assms(2) by (auto simp: ingest_folds split: sum.splits prod.splits)
  note r = ingest_run [OF assms(1) ps(2)]
  obtain b2 where b2: "fold (ingest_one fs x now2) ps (d1, no_result) = (d1, b2)" "br_succeeded b2 = []"
    using ingest_run_settled [of d1 ps fs x now2 no_result] r by (auto simp: no_result_def)
  have same: "file_fails fs x d1 = file_fails fs x d" using r by (intro file_fails_cong) blast
  have ok1: "index_ok d1" using r by blast
  note r2 = ingest_run [OF ok1 b2(1)]
  have "br_failed b2 = br_failed b" "mset (br_unchanged b2) = mset (br_succeeded b) + mset (br_unchanged b)"
    using r r2 by (simp_all add: same no_result_def b2(2))
  then show ?thesis using b2 ps(1) by (simp add: ingest_folds)
qed

text \<open>A directory reached from \<open>base\<close> through \<open>k\<close> real directories, no symbolic link among them.\<close>

inductive reached :: "file_system \<Rightarrow> string \<Rightarrow> nat \<Rightarrow> string \<Rightarrow> bool" for fs base where
  reached_top: "reached fs base 0 base"
| reached_in: "reached fs base k dir \<Longrightarrow> fs_entries fs dir = Some es \<Longrightarrow> Some (name, Some Directory) \<in> set es
    \<Longrightarrow> reached fs base (Suc k) (path_join dir name)"

definition file_under :: "file_system \<Rightarrow> string \<Rightarrow> nat \<Rightarrow> string \<Rightarrow> bool" where
  "file_under fs base k p \<longleftrightarrow>
     (\<exists>dir es name. reached fs base k dir \<and> fs_entries fs dir = Some es \<and> Some (name, Some Plain_File) \<in> set es
        \<and> supported_ext (path_join dir name) \<and> fs_canon fs (path_join dir name) = Some p)"

lemma plain_entry:
  assumes "p \<in> set (entry_files fs root dir sub (Some (name, Some Plain_File)))"
  shows "supported_ext (path_join dir name) \<and> fs_canon fs (path_join dir name) = Some p \<and> starts_with p root"
proof (cases "supported_ext (path_join dir name)")
  case True
  then show ?thesis using assms
    by (cases "fs_canon fs (path_join dir name)") (simp_all add: entry_files_def split: if_split_asm)
next
  case False
  then show ?thesis using assms by (simp add: entry_files_def)
qed

lemma walk_files_inside:
  "reached fs base k dir \<Longrightarrow> p \<in> set (walk_files fs root left dir)
    \<Longrightarrow> starts_with p root \<and> (\<exists>i < left. file_under fs base (k + i) p)"
proof (induction left arbitrary: k dir)
  case (Suc left)
  then obtain es e where es: "fs_entries fs dir = Some es" "e \<in> set es"
    "p \<in> set (entry_files fs root dir (walk_files fs root left) e)" by (cases "fs_entries fs dir") auto
  then obtain name ty where e: "e = Some (name, Some ty)"
    by (auto simp: entry_files_def split: option.splits)
  show ?case
  proof (cases ty)
    case Plain_File
    then have "supported_ext (path_join dir name) \<and> fs_canon fs (path_join dir name) = Some p \<and> starts_with p root"
      using es(3) unfolding e by (intro plain_entry) blast
    moreover from this have "file_under fs base (k + 0) p"
      using es(1,2) e Suc.prems(1) Plain_File unfolding file_under_def add_0_right by blast
    ultimately show ?thesis by blast
  next
    case Directory
    then have "reached fs base (Suc k) (path_join dir name)" "p \<in> set (walk_files fs root left (path_join dir name))"
      using es e Suc.prems(1) by (auto simp: entry_files_def intro: reached_in)
    from Suc.IH [OF this] obtain i where "starts_with p root" "i < left" "file_under fs base (Suc k + i) p" by blast
    moreover from this have "\<exists>i < Suc left. file_under fs base (k + i) p" by (intro exI [of _ "Suc i"]) simp
    ultimately show ?thesis by simp
  qed (use es e in \<open>auto simp: entry_files_def\<close>)
qed simp

text \<open>
  C40: An ingestion reaches no file outside the project: a document it adds or changes is a file
  reported as succeeded whose canonical path is under the canonical project root; it is the named
  file itself, or a plain file of a supported kind that is at most 32 real directories deep, with no
  symbolic link on the way.
\<close>

theorem ingest_stays_in_project:
  assumes "index_ok d" "ingest fs x now root target d = (Inr b, d')"
    and "row_of dr_path q (ix_docs d') \<noteq> row_of dr_path q (ix_docs d)"
  shows "\<exists>r t. fs_canon fs root = Some r \<and> fs_canon fs target = Some t \<and> q \<in> set (br_succeeded b) \<and> starts_with q r
    \<and> (q = t \<or> (\<exists>k < max_depth. file_under fs t k q))"
proof -
  obtain ps where ps: "ingest_files fs root target = Inr ps" "fold (ingest_one fs x now) ps (d, no_result) = (d', b)"
    using assms(2) by (auto simp: ingest_folds split: sum.splits prod.splits)
  have q: "q \<in> set (br_succeeded b)" "q \<in> set ps" using ingest_run [OF assms(1) ps(2)] assms(3) by blast+
  from ps(1) q(2) obtain r t where rt: "fs_canon fs root = Some r" "fs_canon fs target = Some t" "starts_with t r"
    "q = t \<or> q \<in> set (walk_files fs r max_depth t)"
    by (auto simp: ingest_files_def split: option.splits if_splits)
  moreover have "starts_with q r \<and> (\<exists>i < max_depth. file_under fs t i q)" if "q \<in> set (walk_files fs r max_depth t)"
    using walk_files_inside [OF reached_top that] by simp
  ultimately show ?thesis using q(1) by blast
qed

text \<open>
  A name that is not a number is taken as a pattern: of every document that matches, the one
  ingested last is taken, before one whose name is exactly that.
\<close>

lemma newest_match_is_taken:
  assumes "parse_i64 ident = None" "resolve_doc_id ident d = Some (i, path, n)"
  shows "\<exists>r \<in> set (ix_docs d). dr_id r = i \<and> dr_path r = path
    \<and> (\<forall>s \<in> set (ix_docs d). dr_path s = ident \<or> like (''%/'' @ ident) (dr_path s) \<longrightarrow> dr_ingested s \<le> dr_ingested r)"
proof -
  let ?m = "filter (\<lambda>r. dr_path r = ident \<or> like (''%/'' @ ident) (dr_path r)) (ix_docs d)"
  obtain r rest where r: "sort_key (\<lambda>r. - dr_ingested r) ?m = r # rest" "dr_id r = i" "dr_path r = path"
    using assms by (auto simp: resolve_doc_id_def split: list.splits)
  have "sorted (map (\<lambda>r. - dr_ingested r) (sort_key (\<lambda>r. - dr_ingested r) ?m))" by (rule sorted_sort_key)
  then have "sorted (map (\<lambda>r. - dr_ingested r) (r # rest))" unfolding r(1) .
  then have "\<forall>s \<in> set (r # rest). dr_ingested s \<le> dr_ingested r" by auto
  moreover have "set (r # rest) = set ?m" using r(1) set_sort [of "\<lambda>r. - dr_ingested r" ?m] by simp
  ultimately show ?thesis using r(2,3) by (intro bexI [of _ r]) auto
qed

lemma exact_name_passed_over:
  "resolve_doc_id ''a_b.md'' \<lparr>ix_docs = [\<lparr>dr_id = 1, dr_path = ''/p/a_b.md'', dr_mtime = 0, dr_sha = ''x'', dr_ingested = 5\<rparr>,
      \<lparr>dr_id = 2, dr_path = ''/p/A-B.md'', dr_mtime = 0, dr_sha = ''y'', dr_ingested = 6\<rparr>],
      ix_chunks = [], ix_pages = [], ix_fts = [], ix_vecs = []\<rparr> = Some (2, ''/p/A-B.md'', None)"
  by code_simp

text \<open>A project with one file, and one that was a PDF, for the instances below.\<close>

definition sample_files :: file_system where
  "sample_files =
     \<lparr>fs_read = (\<lambda>p. if p = ''/p/a.md'' \<or> p = ''/p/b.pdf'' then Some [104, 105] else None), fs_mtime = (\<lambda>p. Some 7), fs_canon = Some,
      fs_kind = (\<lambda>p. Some (if p = ''/p'' then Directory else Plain_File)),
      fs_entries = (\<lambda>p. if p = ''/p'' then Some [Some (''a.md'', Some Plain_File), Some (''l'', Some Symlink)] else None)\<rparr>"

definition sample_tools :: "nat tools" where
  "sample_tools = \<lparr>tl_sha = (\<lambda>b. ''s''), tl_pdf = (\<lambda>b. Some (Inr [[104], [105]])), tl_encode = (\<lambda>ts. None)\<rparr>"

definition no_index :: "nat index_db" where
  "no_index = \<lparr>ix_docs = [], ix_chunks = [], ix_pages = [], ix_fts = [], ix_vecs = []\<rparr>"

lemma no_index_ok: "index_ok no_index"
  by (simp add: index_ok_def no_index_def pk_def doc_chunks_def doc_pages_def)

lemma sample_run:
  "ingest_path sample_files sample_tools 9 ''/p/a.md'' no_index
     = (Inr (Wrote 1), no_index\<lparr>ix_docs := [\<lparr>dr_id = 1, dr_path = ''/p/a.md'', dr_mtime = 7, dr_sha = ''s'', dr_ingested = 9\<rparr>],
         ix_chunks := [\<lparr>cr_id = 1, cr_doc = 1, cr_ord = 0, cr_text = [104, 105], cr_page_start = None, cr_page_end = None\<rparr>],
         ix_fts := [(1, [104, 105])]\<rparr>)"
  "fst (ingest sample_files sample_tools 9 ''/p'' ''/p'' no_index)
     = Inr \<lparr>br_succeeded = [''/p/a.md''], br_unchanged = [], br_failed = []\<rparr>"
  "row_of dr_path ''/p/a.md'' (ix_docs (snd (ingest sample_files sample_tools 9 ''/p'' ''/p'' no_index))) \<noteq> None"
  by code_simp+

lemma sample_pdf: "fst (ingest_path sample_files sample_tools 9 ''/p/b.pdf'' no_index) = Inr (Wrote 2)"
proof -
  have "read_pages sample_files sample_tools ''/p/b.pdf'' = Inr [[104], [105]]"
    by (simp add: read_pages_def sample_files_def sample_tools_def pdf_budget_bytes_def utf8_encode_def utf8_char_def)
  moreover have "ext_lower ''/p/b.pdf'' = Some ''pdf''" "length (chunk_pages [[104], [105]]) = 2" by code_simp+
  ultimately have r: "read_chunks sample_files sample_tools ''/p/b.pdf'' = Inr (chunk_pages [[104], [105]], Some [[104], [105]])"
    by (simp add: read_chunks_def)
  obtain doc d' where "store_document ''/p/b.pdf'' 7 ''s'' 9 (chunk_pages [[104], [105]]) (Some [[104], [105]]) no_index = Some (doc, d')"
    using store_document_ok [OF no_index_ok ords_chunk_pages] by blast
  then show ?thesis using r \<open>length (chunk_pages [[104], [105]]) = 2\<close>
    by (simp add: ingest_path_def) (simp add: sample_files_def sample_tools_def no_index_def lookup_document_def)
qed

lemma sample_batch:
  obtains d where "ingest sample_files sample_tools 9 ''/p'' ''/p'' no_index
    = (Inr \<lparr>br_succeeded = [''/p/a.md''], br_unchanged = [], br_failed = []\<rparr>, d)"
    "row_of dr_path ''/p/a.md'' (ix_docs d) \<noteq> row_of dr_path ''/p/a.md'' (ix_docs no_index)"
  using sample_run(2,3) that [of "snd (ingest sample_files sample_tools 9 ''/p'' ''/p'' no_index)"]
  by (simp add: prod_eq_iff no_index_def)

lemma index_stays_consistent_witness:
  "index_ok (snd (reindex_all sample_files sample_tools (snd (ingest sample_files sample_tools 9 ''/p'' ''/p'' no_index))))"
proof (rule index_stays_consistent)
  show "empty_index no_index" by (simp add: empty_index_def no_index_def)
  show "index_step\<^sup>*\<^sup>* no_index (snd (reindex_all sample_files sample_tools (snd (ingest sample_files sample_tools 9 ''/p'' ''/p'' no_index))))"
    by (rule rtranclp.rtrancl_into_rtrancl [OF r_into_rtranclp]; rule index_step.intros)
qed

lemma ingested_text_reads_back_witness:
  "\<exists>d' doc. ingest_path sample_files sample_tools 9 ''/p/a.md'' no_index = (Inr (Wrote 1), d') \<and> lookup_doc_id ''/p/a.md'' d' = Some doc
    \<and> chunk_count doc d' = 1"
proof -
  have "ext_lower ''/p/a.md'' \<noteq> Some ''pdf''" by code_simp
  from ingested_text_reads_back [OF no_index_ok this sample_run(1)] show ?thesis using sample_run(1) by blast
qed

lemma ingested_pages_read_back_witness:
  "\<exists>(d' :: nat index_db) doc. lookup_doc_id ''/p/b.pdf'' d' = Some doc \<and> fetch_page_range doc 2 2 d' = [(2, [105])] \<and> page_count doc d' = 2"
proof -
  have e: "ext_lower ''/p/b.pdf'' = Some ''pdf''" by code_simp
  obtain d' where d': "ingest_path sample_files sample_tools 9 ''/p/b.pdf'' no_index = (Inr (Wrote 2), d')"
    using sample_pdf by (cases "ingest_path sample_files sample_tools 9 ''/p/b.pdf'' no_index") auto
  have "read_pages sample_files sample_tools ''/p/b.pdf'' = Inr [[104], [105]]"
    by (simp add: read_pages_def sample_files_def sample_tools_def pdf_budget_bytes_def utf8_encode_def utf8_char_def)
  moreover have "filter (\<lambda>(no, t). 2 \<le> no \<and> no \<le> 2) (numbered_pages [[104], [105]]) = [(2, [105])]" by code_simp
  ultimately show ?thesis using ingested_pages_read_back [OF no_index_ok e d', of 2 2] by (auto simp: numeral_2_eq_2)
qed

lemma ingest_again_changes_nothing_witness:
  "\<exists>d b2. ingest sample_files sample_tools 10 ''/p'' ''/p'' d = (Inr b2, d) \<and> br_unchanged b2 = [''/p/a.md'']"
proof -
  obtain d where d: "ingest sample_files sample_tools 9 ''/p'' ''/p'' no_index
    = (Inr \<lparr>br_succeeded = [''/p/a.md''], br_unchanged = [], br_failed = []\<rparr>, d)" by (rule sample_batch)
  from ingest_again_changes_nothing [OF no_index_ok this, of 10] show ?thesis by auto
qed

lemma ingest_stays_in_project_witness: "\<exists>r. fs_canon sample_files ''/p'' = Some r \<and> starts_with ''/p/a.md'' r"
proof (rule sample_batch)
  fix d
  assume "ingest sample_files sample_tools 9 ''/p'' ''/p'' no_index
    = (Inr \<lparr>br_succeeded = [''/p/a.md''], br_unchanged = [], br_failed = []\<rparr>, d)"
    "row_of dr_path ''/p/a.md'' (ix_docs d) \<noteq> row_of dr_path ''/p/a.md'' (ix_docs no_index)"
  from ingest_stays_in_project [OF no_index_ok this] show ?thesis by blast
qed

end
