(* ===== verification/IndexSearch.thy ===== *)
theory IndexSearch
  imports IndexStore Complex_Main
begin

text \<open>
  Searching the document index (\<open>search.rs\<close>) and the commands over it (\<open>run_search\<close>,
  \<open>run_compare\<close> of \<open>main.rs\<close>): the lexical ranking, the nearest vectors, their fusion, and the
  text around a hit.

  What FTS5, sqlite-vec and the encoder answer are arguments (a record of functions). Scores are
  rational numbers here: the code's \<open>f64\<close> rounds them.
\<close>

section \<open>Hits\<close>

record hit =
  h_source :: string
  h_doc :: int
  h_chunk :: int
  h_ord :: int
  h_score :: rat
  h_snippet :: utext
  h_page_start :: "int option"
  h_page_end :: "int option"
  h_context :: "utext option"
  h_mode :: string
  h_bm25 :: "rat option"
  h_dense :: "rat option"
  h_rrf :: "rat option"

datatype search_error = Fts_Syntax string | Db_Error string

definition max_top_k :: nat where "max_top_k = 100"
definition max_context_radius :: nat where "max_context_radius = 10"
definition rrf_k :: rat where "rrf_k = 60"
definition hybrid_factor :: nat where "hybrid_factor = 4"

text \<open>
  \<open>ev_match query rows\<close>: the rows of the full-text table that match, each with its negated BM25
  score and its snippet, or SQLite's message. \<open>ev_near v k rows\<close>: the \<open>k\<close> nearest vectors with
  their distances.
\<close>

record 'v engines =
  ev_match :: "utext \<Rightarrow> (int \<times> utext) list \<Rightarrow> string + (int \<times> rat \<times> utext) list"
  ev_near :: "'v \<Rightarrow> nat \<Rightarrow> (int \<times> 'v) list \<Rightarrow> string + (int \<times> rat) list"
  ev_query :: "utext \<Rightarrow> 'v option"

definition map_fts_syntax :: "string \<Rightarrow> search_error" where
  "map_fts_syntax msg =
     (let lower = map fold_case msg in
      if contains ''fts5'' lower \<and> contains ''syntax'' lower then Fts_Syntax msg
      else if contains ''syntax error'' lower \<or> contains ''malformed match'' lower then Fts_Syntax msg
      else Db_Error msg)"

text \<open>The two joins: a row's chunk, the chunk's document.\<close>

definition joined :: "'v index_db \<Rightarrow> int \<Rightarrow> (chunk_row \<times> doc_row) option" where
  "joined d i =
     Option.bind (row_of cr_id i (ix_chunks d)) (\<lambda>c.
     Option.bind (row_of dr_id (cr_doc c) (ix_docs d)) (\<lambda>r. Some (c, r)))"

section \<open>Lexical search\<close>

definition lexical_hit :: "chunk_row \<Rightarrow> doc_row \<Rightarrow> rat \<Rightarrow> utext \<Rightarrow> hit" where
  "lexical_hit c r score snip =
     \<lparr>h_source = dr_path r, h_doc = dr_id r, h_chunk = cr_id c, h_ord = cr_ord c, h_score = score, h_snippet = snip,
      h_page_start = cr_page_start c, h_page_end = cr_page_end c, h_context = None, h_mode = ''lexical'',
      h_bm25 = Some score, h_dense = None, h_rrf = None\<rparr>"

definition context_texts :: "int \<Rightarrow> int \<Rightarrow> int \<Rightarrow> 'v index_db \<Rightarrow> utext list" where
  "context_texts doc lo hi d =
     map cr_text (sort_key cr_ord (filter (\<lambda>c. cr_doc c = doc \<and> lo \<le> cr_ord c \<and> cr_ord c \<le> hi) (ix_chunks d)))"

definition with_context :: "int \<Rightarrow> 'v index_db \<Rightarrow> hit \<Rightarrow> hit" where
  "with_context radius d h =
     (let ts = context_texts (h_doc h) (h_ord h - radius) (h_ord h + radius) d in
      if ts = [] then h else h\<lparr>h_context := Some (join_with [10] ts)\<rparr>)"

definition search :: "'v engines \<Rightarrow> utext \<Rightarrow> nat \<Rightarrow> nat \<Rightarrow> 'v index_db \<Rightarrow> search_error + hit list" where
  "search ev query top_k radius d =
     (case ev_match ev query (ix_fts d) of Inl msg \<Rightarrow> Inl (map_fts_syntax msg)
      | Inr rows \<Rightarrow>
         (let hits = take (min top_k max_top_k)
                 (sort_key (\<lambda>h. - h_score h)
                   (List.map_filter (\<lambda>(i, score, snip). map_option (\<lambda>(c, r). lexical_hit c r score snip) (joined d i)) rows));
              rad = min radius max_context_radius
          in Inr (if rad = 0 then hits else map (with_context (int rad) d) hits)))"

section \<open>Nearest vectors\<close>

definition dense_hit :: "chunk_row \<Rightarrow> doc_row \<Rightarrow> rat \<Rightarrow> hit" where
  "dense_hit c r far =
     \<lparr>h_source = dr_path r, h_doc = dr_id r, h_chunk = cr_id c, h_ord = cr_ord c, h_score = - far,
      h_snippet = (if 200 < length (cr_text c) then take 200 (cr_text c) @ [8230] else cr_text c),
      h_page_start = cr_page_start c, h_page_end = cr_page_end c, h_context = None, h_mode = ''dense'',
      h_bm25 = None, h_dense = Some (- far), h_rrf = None\<rparr>"

definition dense_search :: "'v engines \<Rightarrow> 'v \<Rightarrow> nat \<Rightarrow> 'v index_db \<Rightarrow> search_error + hit list" where
  "dense_search ev v top_k d =
     (case ev_near ev v (min top_k max_top_k) (ix_vecs d) of Inl msg \<Rightarrow> Inl (Db_Error msg)
      | Inr rows \<Rightarrow>
         Inr (map snd (sort_key fst
           (List.map_filter (\<lambda>(i, far). map_option (\<lambda>(c, r). (far, dense_hit c r far)) (joined d i)) rows))))"

section \<open>Fusion\<close>

text \<open>
  The maps \<open>rrf\<close>, \<open>bm25\<close>, \<open>dscore\<close> and \<open>by_id\<close> of \<open>rrf_fuse\<close> are lists of keys and values in
  the order of insertion. A hash map is read out in an order of its own, which is the argument
  \<open>order\<close>: it puts the keys in some order.
\<close>

definition map_or_insert :: "'k \<Rightarrow> 'v \<Rightarrow> ('k \<times> 'v) list \<Rightarrow> ('k \<times> 'v) list" where
  "map_or_insert k v m = (if k \<in> fst ` set m then m else m @ [(k, v)])"

definition map_add_to :: "'k \<Rightarrow> rat \<Rightarrow> ('k \<times> rat) list \<Rightarrow> ('k \<times> rat) list" where
  "map_add_to k x m = map (\<lambda>(k', y). (k', if k' = k then y + x else y)) (map_or_insert k 0 m)"

record fusion =
  fu_hits :: "(int \<times> hit) list"
  fu_rrf :: "(int \<times> rat) list"
  fu_bm25 :: "(int \<times> rat) list"
  fu_dense :: "(int \<times> rat) list"

definition rank_score :: "nat \<Rightarrow> rat" where
  "rank_score rank0 = 1 / (rrf_k + (of_nat rank0 + 1))"

definition fuse_lex :: "nat \<times> hit \<Rightarrow> fusion \<Rightarrow> fusion" where
  "fuse_lex = (\<lambda>(rank, h) f.
     f\<lparr>fu_rrf := map_add_to (h_chunk h) (rank_score rank) (fu_rrf f),
       fu_bm25 := map_or_insert (h_chunk h) (h_score h) (fu_bm25 f),
       fu_hits := map_or_insert (h_chunk h) h (fu_hits f)\<rparr>)"

definition fuse_dense :: "nat \<times> hit \<Rightarrow> fusion \<Rightarrow> fusion" where
  "fuse_dense = (\<lambda>(rank, h) f.
     f\<lparr>fu_rrf := map_add_to (h_chunk h) (rank_score rank) (fu_rrf f),
       fu_dense := map_or_insert (h_chunk h) (h_score h) (fu_dense f),
       fu_hits := map_or_insert (h_chunk h) h (fu_hits f)\<rparr>)"

definition fused_hit :: "fusion \<Rightarrow> int \<Rightarrow> hit \<Rightarrow> hit" where
  "fused_hit f i h =
     (let r = (case map_of (fu_rrf f) i of Some x \<Rightarrow> x | None \<Rightarrow> 0) in
      h\<lparr>h_score := r, h_rrf := Some r, h_bm25 := map_of (fu_bm25 f) i, h_dense := map_of (fu_dense f) i,
        h_mode := ''hybrid''\<rparr>)"

definition rrf_fuse :: "((int \<times> hit) list \<Rightarrow> (int \<times> hit) list) \<Rightarrow> hit list \<Rightarrow> hit list \<Rightarrow> nat \<Rightarrow> hit list" where
  "rrf_fuse order ls ds top_k =
     (let f = fold fuse_dense (zip [0..<length ds] ds)
            (fold fuse_lex (zip [0..<length ls] ls) \<lparr>fu_hits = [], fu_rrf = [], fu_bm25 = [], fu_dense = []\<rparr>)
      in take top_k (sort_key (\<lambda>h. - h_score h) (map (\<lambda>(i, h). fused_hit f i h) (order (fu_hits f)))))"

definition u32_max :: nat where "u32_max = 4294967295"

definition hybrid_search ::
  "((int \<times> hit) list \<Rightarrow> (int \<times> hit) list) \<Rightarrow> 'v engines \<Rightarrow> utext \<Rightarrow> 'v \<Rightarrow> nat \<Rightarrow> 'v index_db \<Rightarrow> search_error + hit list" where
  "hybrid_search order ev query v top_k d =
     (let k = min (min (top_k * hybrid_factor) u32_max) max_top_k in
      case search ev query k 0 d of Inl e \<Rightarrow> Inl e
      | Inr ls \<Rightarrow> (case dense_search ev v k d of Inl e \<Rightarrow> Inl e
                   | Inr ds \<Rightarrow> Inr (rrf_fuse order ls ds top_k)))"

section \<open>Commands\<close>

datatype search_mode = Lexical | Dense | Hybrid

definition run_search_with_encoder where
  "run_search_with_encoder order ev mode query top_k radius d =
     (case ev_query ev query of None \<Rightarrow> search ev query top_k radius d
      | Some v \<Rightarrow>
         (case (if mode = Dense then dense_search ev v top_k d else hybrid_search order ev query v top_k d) of
            Inr hits \<Rightarrow> Inr hits
          | Inl (Db_Error e) \<Rightarrow> search ev query top_k radius d
          | Inl e \<Rightarrow> Inl e))"

definition run_search ::
  "((int \<times> hit) list \<Rightarrow> (int \<times> hit) list) \<Rightarrow> 'v engines \<Rightarrow> search_mode \<Rightarrow> utext \<Rightarrow> nat \<Rightarrow> nat \<Rightarrow> 'v index_db
    \<Rightarrow> search_error + hit list" where
  "run_search order ev mode query top_k radius d =
     (if mode = Lexical then search ev query top_k radius d
      else run_search_with_encoder order ev mode query top_k radius d)"

text \<open>\<open>compare\<close>: the chunk's text with its neighbours, as long as asked.\<close>

definition chunk_break :: utext where
  "chunk_break = [10, 10] @ of_str ''--- chunk break ---'' @ [10, 10]"

definition fetch_chunk_text :: "int \<Rightarrow> 'v index_db \<Rightarrow> utext option" where
  "fetch_chunk_text i d = map_option cr_text (row_of cr_id i (ix_chunks d))"

definition fetch_chunk_with_context :: "int \<Rightarrow> nat \<Rightarrow> 'v index_db \<Rightarrow> utext option" where
  "fetch_chunk_with_context i radius d =
     (if radius = 0 then fetch_chunk_text i d
      else case row_of cr_id i (ix_chunks d) of None \<Rightarrow> None
        | Some c \<Rightarrow>
           (let r = int (min radius max_context_radius);
                ts = context_texts (cr_doc c) (cr_ord c - r) (cr_ord c + r) d in
            if ts = [] then fetch_chunk_text i d else Some (join_with chunk_break ts)))"

definition expanded :: "nat \<Rightarrow> nat \<Rightarrow> 'v index_db \<Rightarrow> hit \<Rightarrow> utext" where
  "expanded radius max_chars d h =
     (let full = (case fetch_chunk_with_context (h_chunk h) radius d of Some t \<Rightarrow> t | None \<Rightarrow> h_snippet h) in
      if 0 < max_chars \<and> max_chars < length full then take max_chars full @ [8230] else full)"

definition run_compare where
  "run_compare order ev query top_k d =
     (let hits = (\<lambda>r. case r of Inr hs \<Rightarrow> hs | Inl e \<Rightarrow> []) in
      (hits (search ev query top_k 0 d),
       case ev_query ev query of None \<Rightarrow> ([], [])
       | Some v \<Rightarrow> (hits (dense_search ev v top_k d), hits (hybrid_search order ev query v top_k d))))"

section \<open>What fusion computes\<close>

definition ranker_score :: "hit list \<Rightarrow> int \<Rightarrow> rat" where
  "ranker_score hs i = sum_list (map (\<lambda>(k, h). if h_chunk h = i then rank_score k else 0) (zip [0..<length hs] hs))"

definition value_in :: "('k \<times> rat) list \<Rightarrow> 'k \<Rightarrow> rat" where
  "value_in m i = (case map_of m i of None \<Rightarrow> 0 | Some x \<Rightarrow> x)"

lemma value_map_add_to: "value_in (map_add_to k x m) i = value_in m i + (if i = k then x else 0)"
proof -
  have upd: "map_of (map (\<lambda>(k', y). (k', if k' = k then y + x else y)) m) i
      = map_option (\<lambda>y. if i = k then y + x else y) (map_of m i)" for m :: "('a \<times> rat) list"
    by (induction m) auto
  show ?thesis
  proof (cases "k \<in> fst ` set m")
    case True
    then obtain y where "map_of m k = Some y" by (metis domD dom_map_of_conv_image_fst)
    then show ?thesis using True by (auto simp: map_add_to_def map_or_insert_def value_in_def upd split: option.split)
  next
    case False
    then have "map_of m k = None" by (simp add: map_of_eq_None_iff)
    then show ?thesis using False
      by (auto simp: map_add_to_def map_or_insert_def value_in_def upd map_add_def simp del: map_append split: option.split)
  qed
qed

text \<open>One pass over a ranker's hits, whichever component score it records.\<close>

lemma fuse_pass:
  assumes step: "\<And>k h f. fu_rrf (g (k, h) f) = map_add_to (h_chunk h) (rank_score k) (fu_rrf f)
      \<and> fu_hits (g (k, h) f) = map_or_insert (h_chunk h) h (fu_hits f)"
    and start: "distinct (map fst (fu_hits f))" "\<forall>(i, h) \<in> set (fu_hits f). h_chunk h = i"
  shows "value_in (fu_rrf (fold g khs f)) i
      = value_in (fu_rrf f) i + sum_list (map (\<lambda>(k, h). if h_chunk h = i then rank_score k else 0) khs)
    \<and> distinct (map fst (fu_hits (fold g khs f))) \<and> (\<forall>(i, h) \<in> set (fu_hits (fold g khs f)). h_chunk h = i)
    \<and> fst ` set (fu_hits (fold g khs f)) = fst ` set (fu_hits f) \<union> h_chunk ` snd ` set khs"
  using start
proof (induction khs arbitrary: f)
  case (Cons kh khs)
  obtain k h where kh: "kh = (k, h)" by (cases kh)
  have "distinct (map fst (fu_hits (g kh f)))" "\<forall>(i, h) \<in> set (fu_hits (g kh f)). h_chunk h = i"
    using Cons.prems by (auto simp: kh step map_or_insert_def)
  moreover have "fst ` set (fu_hits (g kh f)) = insert (h_chunk h) (fst ` set (fu_hits f))"
    by (auto simp: kh step map_or_insert_def)
  ultimately show ?case using Cons.IH [of "g kh f"] by (auto simp: kh step value_map_add_to)
qed simp

definition fused_maps :: "hit list \<Rightarrow> hit list \<Rightarrow> fusion" where
  "fused_maps ls ds = fold fuse_dense (zip [0..<length ds] ds)
     (fold fuse_lex (zip [0..<length ls] ls) \<lparr>fu_hits = [], fu_rrf = [], fu_bm25 = [], fu_dense = []\<rparr>)"

lemma fused_maps:
  "value_in (fu_rrf (fused_maps ls ds)) i = ranker_score ls i + ranker_score ds i"
  "distinct (map fst (fu_hits (fused_maps ls ds)))" "\<forall>(i, h) \<in> set (fu_hits (fused_maps ls ds)). h_chunk h = i"
  "fst ` set (fu_hits (fused_maps ls ds)) = h_chunk ` set ls \<union> h_chunk ` set ds"
proof -
  define f where "f = fold fuse_lex (zip [0..<length ls] ls) \<lparr>fu_hits = [], fu_rrf = [], fu_bm25 = [], fu_dense = []\<rparr>"
  have lex: "fu_rrf (fuse_lex (k, h) s) = map_add_to (h_chunk h) (rank_score k) (fu_rrf s)
      \<and> fu_hits (fuse_lex (k, h) s) = map_or_insert (h_chunk h) h (fu_hits s)" for k h s by (simp add: fuse_lex_def)
  have dense: "fu_rrf (fuse_dense (k, h) s) = map_add_to (h_chunk h) (rank_score k) (fu_rrf s)
      \<and> fu_hits (fuse_dense (k, h) s) = map_or_insert (h_chunk h) h (fu_hits s)" for k h s by (simp add: fuse_dense_def)
  have snds: "snd ` set (zip [0..<length hs] hs) = set hs" for hs :: "hit list" by (simp flip: set_map)
  have 1: "value_in (fu_rrf f) i = ranker_score ls i" "distinct (map fst (fu_hits f))"
    "\<forall>(i, h) \<in> set (fu_hits f). h_chunk h = i" "fst ` set (fu_hits f) = h_chunk ` set ls" for i
    using fuse_pass [OF lex, where f = "\<lparr>fu_hits = [], fu_rrf = [], fu_bm25 = [], fu_dense = []\<rparr>" and khs = "zip [0..<length ls] ls"]
    by (simp_all add: f_def ranker_score_def value_in_def snds)
  note 2 = fuse_pass [OF dense 1(2,3), of "zip [0..<length ds] ds", folded f_def]
  have e: "fused_maps ls ds = fold fuse_dense (zip [0..<length ds] ds) f" by (simp add: fused_maps_def f_def)
  show "value_in (fu_rrf (fused_maps ls ds)) i = ranker_score ls i + ranker_score ds i"
    "distinct (map fst (fu_hits (fused_maps ls ds)))" "\<forall>(i, h) \<in> set (fu_hits (fused_maps ls ds)). h_chunk h = i"
    "fst ` set (fu_hits (fused_maps ls ds)) = h_chunk ` set ls \<union> h_chunk ` set ds"
    using 2 1 unfolding e snds by (simp_all add: ranker_score_def)
qed

text \<open>
  Reciprocal rank fusion: of the chunks either ranker found, each appears at most once, with the
  score 1/(60 + rank) summed over the rankers that found it; the best \<open>top_k\<close> are returned, best
  first, whatever order the hash map is read in: no chunk left out beats one returned.
\<close>

theorem fusion_returns_the_best:
  assumes "\<And>m. mset (order m) = mset m"
  shows "let hits = rrf_fuse order ls ds top_k; found = h_chunk ` set ls \<union> h_chunk ` set ds;
      score = (\<lambda>i. ranker_score ls i + ranker_score ds i) in
    length hits = min top_k (card found) \<and> distinct (map h_chunk hits) \<and> h_chunk ` set hits \<subseteq> found
    \<and> sorted (map (\<lambda>h. - h_score h) hits)
    \<and> (\<forall>h \<in> set hits. h_score h = score (h_chunk h) \<and> h_rrf h = Some (h_score h)
        \<and> (\<forall>i \<in> found. i \<notin> h_chunk ` set hits \<longrightarrow> score i \<le> h_score h))"
proof -
  define f where "f = fused_maps ls ds"
  define all where "all = map (\<lambda>(i, h). fused_hit f i h) (order (fu_hits f))"
  define srt where "srt = sort_key (\<lambda>h. - h_score h) all"
  define score where "score = (\<lambda>i. ranker_score ls i + ranker_score ds i)"
  note fm = fused_maps [of ls ds, folded f_def]
  have fields: "h_chunk (fused_hit f i h) = h_chunk h" "h_score (fused_hit f i h) = score i" "h_rrf (fused_hit f i h) = Some (score i)" for i h
    using fm(1) [of i] by (simp_all add: fused_hit_def Let_def value_in_def score_def)
  have sets: "set (order (fu_hits f)) = set (fu_hits f)" using assms [of "fu_hits f"] by (rule mset_eq_setD)
  have chunks: "map h_chunk all = map fst (order (fu_hits f))"
    using fm(3) by (auto simp: all_def fields sets)
  have "mset (map fst (order (fu_hits f))) = mset (map fst (fu_hits f))" using assms [of "fu_hits f"] by simp
  then have "distinct (map h_chunk all)" using fm(2) unfolding chunks by (metis mset_eq_imp_distinct_iff)
  then have d: "distinct (map h_chunk srt)" unfolding srt_def by (metis mset_map mset_sort mset_eq_imp_distinct_iff)
  have found: "h_chunk ` set srt = h_chunk ` set ls \<union> h_chunk ` set ds"
    using fm(4) sets by (simp add: srt_def flip: set_map) (simp add: chunks)
  have len: "length srt = card (h_chunk ` set ls \<union> h_chunk ` set ds)"
    using distinct_card [OF d] found by simp
  have sc: "h_score h = score (h_chunk h) \<and> h_rrf h = Some (h_score h)" if "h \<in> set srt" for h
    using that fm(3) by (auto simp: srt_def all_def fields sets)
  have srt: "sorted (map (\<lambda>h. - h_score h) srt)" unfolding srt_def by (rule sorted_sort_key)
  have best: "score i \<le> h_score h" if h: "h \<in> set (take top_k srt)" and i: "i \<in> h_chunk ` set srt" "i \<notin> h_chunk ` set (take top_k srt)" for h i
  proof -
    obtain h' where h': "h' \<in> set srt" "i = h_chunk h'" using i by auto
    then have "h' \<in> set (drop top_k srt)" using i(2) append_take_drop_id [of top_k srt] by (metis Un_iff image_eqI set_append)
    moreover have "sorted (map (\<lambda>h. - h_score h) (take top_k srt @ drop top_k srt))" using srt by simp
    ultimately have "- h_score h \<le> - h_score h'" using h by (auto simp: sorted_append simp del: append_take_drop_id)
    then show ?thesis using sc [OF h'(1)] h'(2) by simp
  qed
  have e: "rrf_fuse order ls ds top_k = take top_k srt"
    by (simp add: rrf_fuse_def srt_def all_def f_def fused_maps_def Let_def)
  have "sorted (map (\<lambda>h. - h_score h) (take top_k srt))" using srt by (simp add: sorted_wrt_take flip: take_map)
  moreover have "distinct (map h_chunk (take top_k srt))" using d by (simp add: distinct_take flip: take_map)
  moreover have "set (take top_k srt) \<subseteq> set srt" by (rule set_take_subset)
  moreover have "length (take top_k srt) = min top_k (card (h_chunk ` set ls \<union> h_chunk ` set ds))" by (simp add: len min.commute)
  ultimately show ?thesis using best sc unfolding e Let_def found [symmetric] score_def by blast
qed

definition sample_chunk :: "int \<Rightarrow> chunk_row" where
  "sample_chunk i = \<lparr>cr_id = i, cr_doc = 1, cr_ord = i - 7, cr_text = [104], cr_page_start = None, cr_page_end = None\<rparr>"

definition sample_doc :: doc_row where
  "sample_doc = \<lparr>dr_id = 1, dr_path = ''/p/a.md'', dr_mtime = 0, dr_sha = ''s'', dr_ingested = 0\<rparr>"

lemma fusion_returns_the_best_witness:
  "length (rrf_fuse rev [lexical_hit (sample_chunk 7) sample_doc 5 [], lexical_hit (sample_chunk 8) sample_doc 4 []]
     [dense_hit (sample_chunk 8) sample_doc 1] 5) = 2"
proof -
  let ?ls = "[lexical_hit (sample_chunk 7) sample_doc 5 [], lexical_hit (sample_chunk 8) sample_doc 4 []]"
    and ?ds = "[dense_hit (sample_chunk 8) sample_doc 1]"
  have "length (rrf_fuse rev ?ls ?ds 5) = min 5 (card (h_chunk ` set ?ls \<union> h_chunk ` set ?ds))"
    using fusion_returns_the_best [of rev ?ls ?ds 5, OF mset_rev] unfolding Let_def by blast
  then show ?thesis by (simp add: lexical_hit_def dense_hit_def sample_chunk_def card_insert_if)
qed

section \<open>What a search returns\<close>

text \<open>
  Every hit of a lexical search is a stored chunk of a stored document, at most 100 and at most
  as many as asked, best first; with a radius, its context is the chunks of that document whose
  numbers are at most that far (and at most 10) away, the hit's own among them, in order.
\<close>

theorem search_returns_stored_chunks:
  assumes "search ev query top_k radius d = Inr hits"
  shows "length hits \<le> min top_k max_top_k \<and> sorted (map (\<lambda>h. - h_score h) hits)
    \<and> (\<forall>h \<in> set hits. \<exists>c \<in> set (ix_chunks d). \<exists>r \<in> set (ix_docs d). h_chunk h = cr_id c \<and> cr_doc c = dr_id r \<and> h_doc h = dr_id r
        \<and> h_source h = dr_path r \<and> h_ord h = cr_ord c
        \<and> h_context h = (if radius = 0 then None
            else Some (join_with [10] (context_texts (dr_id r) (cr_ord c - int (min radius max_context_radius)) (cr_ord c + int (min radius max_context_radius)) d)))
        \<and> cr_text c \<in> set (context_texts (dr_id r) (cr_ord c - int (min radius max_context_radius)) (cr_ord c + int (min radius max_context_radius)) d))"
proof -
  obtain rows where rows: "ev_match ev query (ix_fts d) = Inr rows" using assms by (auto simp: search_def split: sum.splits)
  let ?rad = "min radius max_context_radius"
  define base where "base = take (min top_k max_top_k) (sort_key (\<lambda>h. - h_score h)
    (List.map_filter (\<lambda>(i, score, snip). map_option (\<lambda>(c, r). lexical_hit c r score snip) (joined d i)) rows))"
  have hits: "hits = (if ?rad = 0 then base else map (with_context (int ?rad) d) base)"
    using assms unfolding search_def rows sum.case Let_def base_def [symmetric] by (simp only: sum.inject)
  have "sorted (map (\<lambda>h. - h_score h) base)"
    unfolding base_def take_map [symmetric] by (intro sorted_wrt_take sorted_sort_key)
  moreover have score: "h_score (with_context k d h) = h_score h" for k h by (simp add: with_context_def Let_def)
  ultimately have sorted: "sorted (map (\<lambda>h. - h_score h) hits)" by (simp add: hits comp_def)
  have src: "\<exists>c \<in> set (ix_chunks d). \<exists>r \<in> set (ix_docs d). \<exists>s t. cr_doc c = dr_id r \<and> h = lexical_hit c r s t" if "h \<in> set base" for h
  proof -
    from that have "h \<in> set (List.map_filter (\<lambda>(i, score, snip). map_option (\<lambda>(c, r). lexical_hit c r score snip) (joined d i)) rows)"
      unfolding base_def by (auto dest: in_set_takeD)
    then obtain i c r s t where "joined d i = Some (c, r)" "h = lexical_hit c r s t"
      by (auto simp: map_filter_def)
    then show ?thesis by (auto simp: joined_def bind_eq_Some_conv dest!: row_of_Some) metis
  qed
  have zero: "radius = 0 \<longleftrightarrow> ?rad = 0" by (auto simp: max_context_radius_def)
  have "\<exists>c \<in> set (ix_chunks d). \<exists>r \<in> set (ix_docs d). \<exists>s t. cr_doc c = dr_id r
      \<and> h = (if radius = 0 then lexical_hit c r s t else with_context (int ?rad) d (lexical_hit c r s t))" if "h \<in> set hits" for h
  proof (cases "?rad = 0")
    case True
    then show ?thesis using src [of h] that zero by (simp add: hits)
  next
    case False
    then have "h \<in> set (map (with_context (int ?rad) d) base)" using that by (simp only: hits if_False)
    then obtain g where "g \<in> set base" "h = with_context (int ?rad) d g" by auto
    then show ?thesis using src [of g] False zero by auto
  qed
  note all = this
  have "length hits \<le> min top_k max_top_k" by (auto simp: hits base_def)
  moreover have "\<forall>h \<in> set hits. \<exists>c \<in> set (ix_chunks d). \<exists>r \<in> set (ix_docs d). h_chunk h = cr_id c \<and> cr_doc c = dr_id r \<and> h_doc h = dr_id r
        \<and> h_source h = dr_path r \<and> h_ord h = cr_ord c
        \<and> h_context h = (if radius = 0 then None
            else Some (join_with [10] (context_texts (dr_id r) (cr_ord c - int ?rad) (cr_ord c + int ?rad) d)))
        \<and> cr_text c \<in> set (context_texts (dr_id r) (cr_ord c - int ?rad) (cr_ord c + int ?rad) d)"
  proof
    fix h assume "h \<in> set hits"
    from all [OF this] obtain c r s t where c: "c \<in> set (ix_chunks d)" "r \<in> set (ix_docs d)" "cr_doc c = dr_id r"
      and h: "h = (if radius = 0 then lexical_hit c r s t else with_context (int ?rad) d (lexical_hit c r s t))" by blast
    have own: "cr_text c \<in> set (context_texts (dr_id r) (cr_ord c - int ?rad) (cr_ord c + int ?rad) d)"
      using c by (auto simp: context_texts_def)
    then show "\<exists>c \<in> set (ix_chunks d). \<exists>r \<in> set (ix_docs d). h_chunk h = cr_id c \<and> cr_doc c = dr_id r \<and> h_doc h = dr_id r
        \<and> h_source h = dr_path r \<and> h_ord h = cr_ord c
        \<and> h_context h = (if radius = 0 then None
            else Some (join_with [10] (context_texts (dr_id r) (cr_ord c - int ?rad) (cr_ord c + int ?rad) d)))
        \<and> cr_text c \<in> set (context_texts (dr_id r) (cr_ord c - int ?rad) (cr_ord c + int ?rad) d)"
      using c by (intro bexI [of _ c] bexI [of _ r]) (auto simp: h lexical_hit_def with_context_def Let_def)
  qed
  ultimately show ?thesis using sorted by blast
qed

lemma search_returns_stored_chunks_witness:
  "\<exists>hits. search \<lparr>ev_match = (\<lambda>q rows. Inr [(7, 5, [])]), ev_near = (\<lambda>v k rows. Inr []), ev_query = (\<lambda>q. None :: nat option)\<rparr> [104] 5 1
      \<lparr>ix_docs = [sample_doc], ix_chunks = [sample_chunk 7], ix_pages = [], ix_fts = [(7, [104])], ix_vecs = []\<rparr> = Inr hits
    \<and> length hits \<le> 5 \<and> hits \<noteq> []"
proof -
  let ?ev = "\<lparr>ev_match = (\<lambda>q rows. Inr [(7, 5, [])]), ev_near = (\<lambda>v k rows. Inr []), ev_query = (\<lambda>q. None :: nat option)\<rparr>"
    and ?d = "\<lparr>ix_docs = [sample_doc], ix_chunks = [sample_chunk 7], ix_pages = [], ix_fts = [(7, [104])], ix_vecs = []\<rparr> :: nat index_db"
  obtain h where h: "search ?ev [104] 5 1 ?d = Inr [h]"
    by (simp add: search_def joined_def sample_chunk_def sample_doc_def map_filter_def max_top_k_def max_context_radius_def)
  then show ?thesis using search_returns_stored_chunks [OF h] by (auto simp: max_top_k_def)
qed

lemma search_context_none:
  assumes "search ev query k 0 d = Inr hits"
  shows "\<forall>h \<in> set hits. h_context h = None"
  using search_returns_stored_chunks [OF assms] by auto

lemma fused_hits_sub: "snd ` set (fu_hits (fused_maps ls ds)) \<subseteq> set ls \<union> set ds"
proof -
  have sub: "snd ` set (map_or_insert k h m) \<subseteq> insert h (snd ` set m)" for k :: int and h :: hit and m
    by (auto simp: map_or_insert_def)
  have "snd ` set (fu_hits (fold g khs f)) \<subseteq> snd ` set (fu_hits f) \<union> snd ` set khs"
    if "\<And>k h f. fu_hits (g (k, h) f) = map_or_insert (h_chunk h) h (fu_hits f)" for g khs f
  proof (induction khs arbitrary: f)
    case (Cons kh khs)
    have "snd ` set (fu_hits (g kh f)) \<subseteq> insert (snd kh) (snd ` set (fu_hits f))"
      using sub [of "h_chunk (snd kh)" "snd kh" "fu_hits f"] that [of "fst kh" "snd kh" f] by simp
    then have "snd ` set (fu_hits (g kh f)) \<union> snd ` set khs \<subseteq> snd ` set (fu_hits f) \<union> snd ` set (kh # khs)" by auto
    with Cons.IH [of "g kh f"] show ?case by (simp only: fold_Cons comp_apply)
  qed simp
  note pass = this
  define f where "f = fold fuse_lex (zip [0..<length ls] ls) \<lparr>fu_hits = [], fu_rrf = [], fu_bm25 = [], fu_dense = []\<rparr>"
  have "snd ` set (fu_hits f) \<subseteq> snd ` set (zip [0..<length ls] ls)" unfolding f_def
    by (rule order_trans [OF pass]) (simp_all add: fuse_lex_def)
  moreover have "snd ` set (fu_hits (fused_maps ls ds)) \<subseteq> snd ` set (fu_hits f) \<union> snd ` set (zip [0..<length ds] ds)"
    unfolding fused_maps_def f_def [symmetric] by (rule pass) (simp add: fuse_dense_def)
  ultimately show ?thesis by (simp flip: set_map) blast
qed

text \<open>
  The context a search was asked for is only ever given by the lexical search: with the encoder
  and the vectors available, which is the default mode, no hit carries any, whatever the radius.
\<close>

theorem vector_hits_have_no_context:
  assumes "mode \<noteq> Lexical" "ev_query ev query = Some v" "\<And>m. mset (order m) = mset m"
    and "(if mode = Dense then dense_search ev v top_k d else hybrid_search order ev query v top_k d) = Inr hits"
  shows "run_search order ev mode query top_k radius d = Inr hits \<and> (\<forall>h \<in> set hits. h_context h = None)"
proof -
  have run: "run_search order ev mode query top_k radius d = Inr hits"
    using assms by (simp add: run_search_def run_search_with_encoder_def)
  have dense: "\<forall>h \<in> set hs. h_context h = None" if "dense_search ev v k d = Inr hs" for k hs
    using that by (auto simp: dense_search_def dense_hit_def map_filter_def split: sum.splits option.splits)
  show ?thesis
  proof (cases "mode = Dense")
    case True
    then show ?thesis using run assms(4) dense by auto
  next
    case False
    let ?k = "min (min (top_k * hybrid_factor) u32_max) max_top_k"
    obtain ls ds where l: "search ev query ?k 0 d = Inr ls" "dense_search ev v ?k d = Inr ds" "hits = rrf_fuse order ls ds top_k"
      using assms(4) False by (auto simp: hybrid_search_def Let_def split: sum.splits)
    have "\<forall>h \<in> set ls \<union> set ds. h_context h = None"
      using search_context_none [OF l(1)] dense [OF l(2)] by (simp only: ball_Un)
    then have "\<forall>h \<in> snd ` set (fu_hits (fused_maps ls ds)). h_context h = None"
      using fused_hits_sub [of ls ds] by (meson subsetD)
    moreover have "set (order (fu_hits (fused_maps ls ds))) = set (fu_hits (fused_maps ls ds))"
      using assms(3) by (rule mset_eq_setD)
    moreover have "hits = take top_k (sort_key (\<lambda>h. - h_score h)
        (map (\<lambda>(i, h). fused_hit (fused_maps ls ds) i h) (order (fu_hits (fused_maps ls ds)))))"
      by (simp add: l(3) rrf_fuse_def fused_maps_def Let_def)
    ultimately have "\<forall>h \<in> set hits. h_context h = None"
      by (auto dest!: in_set_takeD simp: fused_hit_def Let_def) force
    then show ?thesis using run by simp
  qed
qed

text \<open>
  A vector outlives its chunk, and a chunk stored later under the same id inherits it. Where a
  deleted or re-ingested document's vector has the id the next chunk gets, a file ingested without
  the encoder is found by it: a search by vectors answers that file for the old text's vector.
\<close>

theorem stale_vector_finds_new_text:
  assumes "index_ok d" "(i, v) \<in> set (ix_vecs d)"
    and "i = next_rowid cr_id (filter (\<lambda>c. lookup_doc_id p d \<noteq> Some (cr_doc c)) (ix_chunks d))"
    and "tl_encode x = (\<lambda>ts. None)" "ingest_path fs x now p d = (Inr (Wrote n), d')" "0 < n"
    and "ev_near ev q (min top_k max_top_k) (ix_vecs d') = Inr [(i, far)]"
  shows "(i, v) \<in> set (ix_vecs d') \<and> (\<exists>h. dense_search ev q top_k d' = Inr [h] \<and> h_source h = p \<and> h_chunk h = i)"
proof (rule ingest_path_cases [OF assms(1), of fs x p now])
  fix bytes mtime cs pages doc d1
  assume st: "stored_as p mtime (tl_sha x bytes) now cs pages doc d d1"
    and out: "ingest_path fs x now p d = (Inr (Wrote (length cs)), try_populate_chunks_vec x doc cs d1)"
  have d': "d' = d1" "cs \<noteq> []" using out assms(4-6) by (auto simp: try_populate_chunks_vec_def)
  have doc: "id_for p d = doc" using st by (simp add: stored_as_def)
  have "cr_doc ` set (ix_chunks d) \<subseteq> dr_id ` set (ix_docs d)" using assms(1) by (simp add: index_ok_def)
  then have "\<forall>c \<in> set (ix_chunks d). (lookup_doc_id p d \<noteq> Some (cr_doc c)) = (cr_doc c \<noteq> doc)"
    using next_rowid_fresh [of dr_id "ix_docs d"] doc by (force simp: id_for_def split: option.splits)
  then have "filter (\<lambda>c. lookup_doc_id p d \<noteq> Some (cr_doc c)) (ix_chunks d) = del_where (\<lambda>c. cr_doc c = doc) (ix_chunks d)"
    by (auto simp: del_where_def cong: filter_cong)
  then have "i \<in> cr_id ` set (doc_chunks doc d')" using st d' assms(3) by (simp add: stored_as_def)
  then obtain c where c: "c \<in> set (ix_chunks d')" "cr_doc c = doc" "cr_id c = i" by (auto simp: doc_chunks_def)
  have pks: "pk cr_id (ix_chunks d')" "pk dr_id (ix_docs d')" using st d' by (simp_all add: stored_as_def index_ok_def)
  have "row_of dr_path p (ix_docs d') = Some \<lparr>dr_id = doc, dr_path = p, dr_mtime = mtime, dr_sha = tl_sha x bytes, dr_ingested = now\<rparr>"
    using st d' by (simp add: stored_as_def)
  from row_of_pk [OF pks(2) row_of_Some [OF this, THEN conjunct1]] row_of_pk [OF pks(1) c(1)] c
  have "joined d' i = Some (c, \<lparr>dr_id = doc, dr_path = p, dr_mtime = mtime, dr_sha = tl_sha x bytes, dr_ingested = now\<rparr>)"
    by (simp add: joined_def)
  then have "dense_search ev q top_k d' = Inr [dense_hit c \<lparr>dr_id = doc, dr_path = p, dr_mtime = mtime, dr_sha = tl_sha x bytes, dr_ingested = now\<rparr> far]"
    using assms(7) by (simp add: dense_search_def map_filter_def)
  moreover have "(i, v) \<in> set (ix_vecs d')" using st d' assms(2) by (simp add: stored_as_def)
  ultimately show ?thesis using c by (simp add: dense_hit_def)
qed (use assms(5) in simp_all)

definition sample_engines :: "nat engines" where
  "sample_engines = \<lparr>ev_match = (\<lambda>q rows. Inr [(1, 5, [])]), ev_near = (\<lambda>v k rows. Inr [(1, 2)]), ev_query = (\<lambda>q. Some 3)\<rparr>"

definition stored_index :: "nat index_db" where
  "stored_index = snd (ingest_path sample_files sample_tools 9 ''/p/a.md'' no_index)"

lemma stored: "stored_index = no_index\<lparr>ix_docs := [\<lparr>dr_id = 1, dr_path = ''/p/a.md'', dr_mtime = 7, dr_sha = ''s'', dr_ingested = 9\<rparr>],
    ix_chunks := [\<lparr>cr_id = 1, cr_doc = 1, cr_ord = 0, cr_text = [104, 105], cr_page_start = None, cr_page_end = None\<rparr>],
    ix_fts := [(1, [104, 105])]\<rparr>"
  by (simp only: stored_index_def sample_run(1) snd_conv)

lemma vector_hits_have_no_context_witness:
  "\<exists>h. run_search rev sample_engines Dense [104] 5 2 stored_index = Inr [h] \<and> h_context h = None"
proof -
  obtain h where h: "dense_search sample_engines 3 5 stored_index = Inr [h]"
    by (simp add: dense_search_def sample_engines_def stored joined_def map_filter_def no_index_def)
  then have "(if Dense = Dense then dense_search sample_engines 3 5 stored_index
      else hybrid_search rev sample_engines [104] 3 5 stored_index) = Inr [h]" by simp
  from vector_hits_have_no_context [OF _ _ mset_rev this, where radius = 2] show ?thesis
    by (simp add: sample_engines_def)
qed

text \<open>The old text's vector is left by a delete; then \<open>a.md\<close> is ingested without the encoder.\<close>

definition emptied_index :: "nat index_db" where
  "emptied_index = snd (delete_by_id_with_summary 1
     \<lparr>ix_docs = [\<lparr>dr_id = 1, dr_path = ''/p/old.md'', dr_mtime = 0, dr_sha = ''t'', dr_ingested = 0\<rparr>],
      ix_chunks = [\<lparr>cr_id = 1, cr_doc = 1, cr_ord = 0, cr_text = [120], cr_page_start = None, cr_page_end = None\<rparr>],
      ix_pages = [], ix_fts = [(1, [120])], ix_vecs = [(1, 77)]\<rparr>)"

lemma emptied: "emptied_index = no_index\<lparr>ix_vecs := [(1, 77)]\<rparr>"
  by (simp add: emptied_index_def delete_by_id_with_summary_def lookup_document_by_id_def delete_docs_def no_index_def)

lemma stale_vector_finds_new_text_witness:
  "\<exists>d' h. dense_search sample_engines 3 5 d' = Inr [h] \<and> h_source h = ''/p/a.md'' \<and> (1, 77) \<in> set (ix_vecs d')"
proof -
  have run: "ingest_path sample_files sample_tools 9 ''/p/a.md'' emptied_index
      = (Inr (Wrote 1), snd (ingest_path sample_files sample_tools 9 ''/p/a.md'' emptied_index))" (is "_ = (_, ?d)")
    by code_simp
  have "index_ok emptied_index" using no_index_ok by (simp add: emptied index_ok_def doc_chunks_def doc_pages_def)
  moreover have "(1, 77) \<in> set (ix_vecs emptied_index)"
    "1 = next_rowid cr_id (filter (\<lambda>c. lookup_doc_id ''/p/a.md'' emptied_index \<noteq> Some (cr_doc c)) (ix_chunks emptied_index))"
    by (simp_all add: emptied no_index_def next_rowid_def)
  moreover have "tl_encode sample_tools = (\<lambda>ts. None)" "ev_near sample_engines 3 (min 5 max_top_k) (ix_vecs ?d) = Inr [(1, 2)]"
    by (simp_all add: sample_tools_def sample_engines_def)
  ultimately show ?thesis using stale_vector_finds_new_text [OF _ _ _ _ run, of 1 77] by fastforce
qed

end
