(* ===== verification/ProjectId.thy ===== *)
theory ProjectId
  imports JournalTools Strings
begin

text \<open>
  Which project a directory belongs to (\<open>project_id.rs\<close>) and the settings file in it
  (\<open>project_config.rs\<close>). What git prints, the file's bytes, JSON text, SHA-256, the canonical path and a
  fresh UUID are arguments; so is the lower case of characters outside ASCII.
\<close>

section \<open>The identity of a project\<close>

definition drop_scheme :: "utext \<Rightarrow> utext" where
  "drop_scheme s =
     (case strip_prefix (of_str ''git@'') s of
        Some rest \<Rightarrow> (case split_once 58 rest of Some (host, path) \<Rightarrow> host @ [47] @ path | None \<Rightarrow> s)
      | None \<Rightarrow>
        case strip_prefix (of_str ''ssh://git@'') s of Some rest \<Rightarrow> rest
        | None \<Rightarrow>
          case strip_prefix (of_str ''ssh://'') s of Some rest \<Rightarrow> rest
          | None \<Rightarrow>
            case strip_prefix (of_str ''https://'') s of Some rest \<Rightarrow> rest
            | None \<Rightarrow> case strip_prefix (of_str ''http://'') s of Some rest \<Rightarrow> rest | None \<Rightarrow> s)"

definition normalize_remote_url :: "(utext \<Rightarrow> utext) \<Rightarrow> utext \<Rightarrow> utext option" where
  "normalize_remote_url lc u =
     (let t = trim u in
      if t = [] then None
      else let s = drop_scheme (lc t);
               s = (case strip_suffix (of_str ''.git'') s of Some p \<Rightarrow> p | None \<Rightarrow> s);
               s = trim_end 47 s
           in if s = [] then None else Some s)"

text \<open>\<open>git config --get remote.origin.url\<close>: what it printed, None when it failed.\<close>

definition non_empty_trim :: "utext \<Rightarrow> utext option" where
  "non_empty_trim s = (if trim s = [] then None else Some (trim s))"

definition git_remote_origin_url :: "utext option \<Rightarrow> utext option" where
  "git_remote_origin_url out = Option.bind out non_empty_trim"

definition read_project_id_from_config :: "(string \<Rightarrow> json option) \<Rightarrow> string option \<Rightarrow> utext option" where
  "read_project_id_from_config parse f =
     (case Option.bind f parse of None \<Rightarrow> None
      | Some v \<Rightarrow> Option.bind (get_str v ''project_id'') (\<lambda>s. non_empty_trim (text_of s)))"

definition sha_local_id :: "(utext \<Rightarrow> string) \<Rightarrow> utext option \<Rightarrow> utext" where
  "sha_local_id hsh canonical =
     (case canonical of None \<Rightarrow> of_str ''local:unknown'' | Some p \<Rightarrow> of_str ''local:'' @ of_str (take 16 (hsh p)))"

definition resolve_project_id ::
  "(utext \<Rightarrow> utext) \<Rightarrow> (string \<Rightarrow> json option) \<Rightarrow> (utext \<Rightarrow> string) \<Rightarrow> utext option \<Rightarrow> string option \<Rightarrow> utext option \<Rightarrow> utext" where
  "resolve_project_id lc parse hsh out f canonical =
     (case Option.bind (git_remote_origin_url out) (normalize_remote_url lc) of
        Some i \<Rightarrow> i
      | None \<Rightarrow> case read_project_id_from_config parse f of Some i \<Rightarrow> i | None \<Rightarrow> sha_local_id hsh canonical)"

definition current_branch :: "utext option \<Rightarrow> utext option" where
  "current_branch out =
     (case out of None \<Rightarrow> None | Some s \<Rightarrow> if trim s = [] \<or> trim s = of_str ''HEAD'' then None else Some (trim s))"

section \<open>The settings file\<close>

record project_config =
  pc_session :: utext
  pc_name :: utext

text \<open>
  Reading the structure from JSON: both members are required, others are ignored; a list of exactly the
  two is taken as well. Writing it gives these two members alone.
\<close>

fun config_of :: "json \<Rightarrow> project_config option" where
  "config_of (JObj m) =
     (case (map_of m ''session_id'', map_of m ''name'') of
        (Some (JStr i), Some (JStr n)) \<Rightarrow> Some \<lparr>pc_session = text_of i, pc_name = text_of n\<rparr>
      | _ \<Rightarrow> None)"
| "config_of (JArr [JStr i, JStr n]) = Some \<lparr>pc_session = text_of i, pc_name = text_of n\<rparr>"
| "config_of _ = None"

definition config_json :: "project_config \<Rightarrow> json" where
  "config_json c = JObj [(''session_id'', JStr (bytes_of (pc_session c))), (''name'', JStr (bytes_of (pc_name c)))]"

definition stored_config :: "(string \<Rightarrow> json option) \<Rightarrow> string option \<Rightarrow> project_config option" where
  "stored_config parse f = Option.bind (Option.bind f parse) config_of"

definition load_config :: "(string \<Rightarrow> json option) \<Rightarrow> string option \<Rightarrow> project_config option" where
  "load_config parse f =
     (case stored_config parse f of None \<Rightarrow> None | Some c \<Rightarrow> if trim (pc_session c) = [] then None else Some c)"

definition default_config :: "utext \<Rightarrow> utext \<Rightarrow> project_config" where
  "default_config path uuid =
     \<lparr>pc_session = uuid,
      pc_name = (case Option.bind (last_name path) non_empty_trim of None \<Rightarrow> of_str ''claudebase-cli'' | Some n \<Rightarrow> n)\<rparr>"

text \<open>The configuration and the file afterwards.\<close>

definition load_or_create ::
  "(string \<Rightarrow> json option) \<Rightarrow> (json \<Rightarrow> string) \<Rightarrow> utext \<Rightarrow> utext \<Rightarrow> string option \<Rightarrow> project_config \<times> string option" where
  "load_or_create parse pr path uuid f =
     (case load_config parse f of
        Some c \<Rightarrow> (c, f)
      | None \<Rightarrow> let c = default_config path uuid in (c, Some (pr (config_json c))))"

definition write_session_id ::
  "(string \<Rightarrow> json option) \<Rightarrow> (json \<Rightarrow> string) \<Rightarrow> utext \<Rightarrow> utext \<Rightarrow> utext \<Rightarrow> utext option \<Rightarrow> string option \<Rightarrow> string option option" where
  "write_session_id parse pr path uuid new_id new_name f =
     (if trim new_id = [] then None
      else let c = (case stored_config parse f of Some c \<Rightarrow> c | None \<Rightarrow> default_config path uuid);
               n = (case Option.bind new_name non_empty_trim of Some n \<Rightarrow> n | None \<Rightarrow> pc_name c)
           in Some (Some (pr (config_json \<lparr>pc_session = trim new_id, pc_name = n\<rparr>))))"

section \<open>One repository, one identity\<close>

definition ascii :: "utext \<Rightarrow> bool" where "ascii t \<longleftrightarrow> (\<forall>c \<in> set t. c < 128)"

definition lower_code :: "nat \<Rightarrow> nat" where "lower_code c = (if 65 \<le> c \<and> c \<le> 90 then c + 32 else c)"

text \<open>The ways one repository is written, for its host and its path under it.\<close>

definition url_starts :: "(utext \<times> nat) list" where
  "url_starts = [(of_str ''https://'', 47), (of_str ''http://'', 47), (of_str ''HTTPS://'', 47), (of_str ''ssh://git@'', 47),
     (of_str ''ssh://'', 47), (of_str ''git@'', 58)]"

definition url_ends :: "utext list" where "url_ends = [[], of_str ''.git'', [47]]"

definition spellings :: "utext \<Rightarrow> utext \<Rightarrow> utext list" where
  "spellings host path = map (\<lambda>((pre, sep), e). pre @ host @ [sep] @ path @ e) (List.product url_starts url_ends)"

definition lowers_ascii :: "(utext \<Rightarrow> utext) \<Rightarrow> bool" where
  "lowers_ascii lc \<longleftrightarrow> (\<forall>t. ascii t \<longrightarrow> lc t = map lower_code t)"

definition repo_ok :: "utext \<Rightarrow> utext \<Rightarrow> bool" where
  "repo_ok host path \<longleftrightarrow> ascii host \<and> ascii path \<and> 58 \<notin> set host \<and> 64 \<notin> set host \<and> path \<noteq> []
     \<and> last path \<noteq> 47 \<and> \<not> is_white (last path) \<and> strip_suffix (of_str ''.git'') (map lower_code path) = None"

lemma drop_schemes:
  "drop_scheme (of_str ''https://'' @ r) = r" "drop_scheme (of_str ''http://'' @ r) = r" "drop_scheme (of_str ''ssh://git@'' @ r) = r"
  "strip_prefix (of_str ''git@'') r = None \<Longrightarrow> drop_scheme (of_str ''ssh://'' @ r) = r"
  "58 \<notin> set h \<Longrightarrow> drop_scheme (of_str ''git@'' @ h @ 58 # p) = h @ 47 # p"
  by (auto simp: drop_scheme_def strip_prefix_def of_str_simps)

text \<open>What is left when the end is cut: nothing, \<open>.git\<close> or a slash.\<close>

definition cut_end :: "utext \<Rightarrow> utext" where
  "cut_end s = trim_end 47 (case strip_suffix (of_str ''.git'') s of Some p \<Rightarrow> p | None \<Rightarrow> s)"

lemma strip_suffix_tail: "x \<notin> set e \<Longrightarrow> strip_suffix e p = None \<Longrightarrow> strip_suffix e (h @ x # p) = None"
proof (rule ccontr)
  assume x: "x \<notin> set e" and p: "strip_suffix e p = None" and "strip_suffix e (h @ x # p) \<noteq> None"
  then obtain r where "h @ x # p = r @ e" by (auto simp: strip_suffix_iff)
  then obtain us where "h = r @ us \<and> us @ x # p = e \<or> h @ us = r \<and> x # p = us @ e" by (auto simp: append_eq_append_conv2)
  then show False
  proof
    assume "h = r @ us \<and> us @ x # p = e"
    then have "x \<in> set e" by auto
    then show False using x by blast
  next
    assume "h @ us = r \<and> x # p = us @ e"
    then have "e = x # p \<or> (\<exists>us'. p = us' @ e)" by (cases us) auto
    then show False using x p strip_suffix_append [of e] by auto
  qed
qed

lemma cut_ends:
  assumes "p \<noteq> []" "last p \<noteq> 47" "strip_suffix (of_str ''.git'') p = None"
  shows "cut_end (h @ 47 # p) = h @ 47 # p" "cut_end (h @ 47 # p @ of_str ''.git'') = h @ 47 # p" "cut_end (h @ 47 # p @ [47]) = h @ 47 # p"
proof -
  have keep: "trim_end 47 (h @ 47 # p) = h @ 47 # p" using assms(1,2) by (simp add: trim_end_id)
  have "strip_suffix (of_str ''.git'') (h @ 47 # p) = None"
    using strip_suffix_tail [of 47 "of_str ''.git''" p h] assms(3) by (simp add: of_str_simps)
  then show "cut_end (h @ 47 # p) = h @ 47 # p" by (simp add: cut_end_def keep)
  have "strip_suffix (of_str ''.git'') (h @ 47 # p @ of_str ''.git'') = Some (h @ 47 # p)"
    using strip_suffix_append [of "of_str ''.git''" "h @ 47 # p"] by simp
  then show "cut_end (h @ 47 # p @ of_str ''.git'') = h @ 47 # p" by (simp add: cut_end_def keep)
  have "strip_suffix (of_str ''.git'') (h @ 47 # p @ [47]) = None"
  proof (rule ccontr)
    assume "strip_suffix (of_str ''.git'') (h @ 47 # p @ [47]) \<noteq> None"
    then obtain r where r: "h @ 47 # p @ [47] = r @ of_str ''.git''" by (auto simp: strip_suffix_iff)
    have "last (h @ 47 # p @ [47]) = (47 :: nat)" by simp
    moreover have "last (r @ of_str ''.git'') = 116" by (simp add: of_str_simps)
    ultimately show False using r by simp
  qed
  moreover have "trim_end 47 (h @ 47 # p @ [47]) = h @ 47 # p" using keep by (simp add: trim_end_def)
  ultimately show "cut_end (h @ 47 # p @ [47]) = h @ 47 # p" by (simp add: cut_end_def)
qed

lemma normalize_as:
  assumes "lowers_ascii lc" "ascii u" "u \<noteq> []" "\<not> is_white (hd u)" "\<not> is_white (last u)" "cut_end (drop_scheme (map lower_code u)) \<noteq> []"
  shows "normalize_remote_url lc u = Some (cut_end (drop_scheme (map lower_code u)))"
proof -
  have "trim u = u"
  proof -
    have "dropWhile is_white xs = xs" if "xs \<noteq> []" "\<not> is_white (hd xs)" for xs using that by (cases xs) auto
    then show ?thesis using assms(3-5) by (simp add: trim_def hd_rev)
  qed
  then show ?thesis using assms by (simp add: normalize_remote_url_def lowers_ascii_def cut_end_def Let_def)
qed

lemma lower_codes: "map lower_code (of_str ''https://'') = of_str ''https://''" "map lower_code (of_str ''http://'') = of_str ''http://''"
    "map lower_code (of_str ''HTTPS://'') = of_str ''https://''" "map lower_code (of_str ''ssh://git@'') = of_str ''ssh://git@''"
    "map lower_code (of_str ''ssh://'') = of_str ''ssh://''" "map lower_code (of_str ''git@'') = of_str ''git@''"
    "map lower_code (of_str ''.git'') = of_str ''.git''" "lower_code 47 = 47" "lower_code 58 = 58"
  by (simp_all add: of_str_simps lower_code_def)

lemma lower_code_keeps: "c \<notin> lower_code ` A" if "c \<notin> A" "\<not> (97 \<le> c \<and> c \<le> 122)" for A
  using that by (auto simp: lower_code_def split: if_splits)

text \<open>
  Every spelling of one repository is one project: over https, http or ssh, with or without the user git,
  in the short form with a colon, with \<open>.git\<close> or a slash at the end or neither, whatever the case of its
  letters, a remote URL gives the identity host, slash, path.
\<close>

theorem every_spelling_one_project:
  assumes "lowers_ascii lc" "repo_ok host path" "u \<in> set (spellings host path)"
  shows "normalize_remote_url lc u = Some (map lower_code host @ [47] @ map lower_code path)"
proof -
  let ?h = "map lower_code host" let ?p = "map lower_code path"
  have ok: "ascii host" "ascii path" "58 \<notin> set host" "64 \<notin> set host" "path \<noteq> []" "last path \<noteq> 47" "\<not> is_white (last path)"
    "strip_suffix (of_str ''.git'') ?p = None" using assms(2) by (simp_all add: repo_ok_def)
  have h: "58 \<notin> set ?h" "64 \<notin> set ?h" using ok(3,4) lower_code_keeps by simp_all
  have bare: "strip_prefix (of_str ''git@'') (?h @ 47 # q) = None" for q
  proof (rule ccontr)
    assume "strip_prefix (of_str ''git@'') (?h @ 47 # q) \<noteq> None"
    then obtain r where "?h @ 47 # q = of_str ''git@'' @ r" by (auto simp: strip_prefix_iff)
    then show False using h(2) by (cases ?h; cases "tl ?h"; cases "tl (tl ?h)"; cases "tl (tl (tl ?h))") (auto simp: of_str_simps)
  qed
  have last: "last ?p \<noteq> 47" using ok(5,6) by (auto simp: last_map lower_code_def split: if_splits)
  have cut: "cut_end (?h @ 47 # ?p @ e) = ?h @ 47 # ?p" if "e \<in> {[], of_str ''.git'', [47]}" for e
    using that cut_ends [of ?p ?h] ok(5,8) last by auto
  obtain pre sep e where u: "u = pre @ host @ [sep] @ path @ e" and "(pre, sep) \<in> set url_starts" "e \<in> set url_ends"
    using assms(3) unfolding spellings_def by auto
  then have e: "e \<in> {[], of_str ''.git'', [47]}"
    and pre: "pre \<in> {of_str ''https://'', of_str ''http://'', of_str ''HTTPS://'', of_str ''ssh://git@'', of_str ''ssh://''} \<and> sep = 47
       \<or> pre = of_str ''git@'' \<and> sep = 58"
    by (auto simp: url_starts_def url_ends_def)
  have low: "map lower_code e = e" using e lower_codes by auto
  have "drop_scheme (map lower_code u) = ?h @ 47 # ?p @ e"
    using pre bare [of "?p @ e"] drop_schemes(5) [OF h(1), of "?p @ e"] by (auto simp: u low lower_codes drop_schemes)
  then have c: "cut_end (drop_scheme (map lower_code u)) = ?h @ 47 # ?p" using cut [OF e] by simp
  have "ascii u" using pre e ok(1,2) by (auto simp: u ascii_def of_str_simps)
  moreover have "u \<noteq> []" "\<not> is_white (hd u)" using pre by (auto simp: u of_str_simps is_white_def)
  moreover have "last u = last path \<or> last u = 116 \<or> last u = 47" using e ok(5) by (auto simp: u of_str_simps)
  moreover have "\<not> is_white 116" "\<not> is_white 47" by (simp_all add: is_white_def)
  ultimately show ?thesis using normalize_as [OF assms(1), of u] c ok(7) by auto
qed

theorem every_spelling_one_project_witness:
  "normalize_remote_url (map lower_code) (of_str ''git@GitHub.com:Foo/Bar.git'') = normalize_remote_url (map lower_code) (of_str ''https://github.com/foo/bar'')"
proof -
  have a: "lowers_ascii (map lower_code)" by (simp add: lowers_ascii_def)
  have s: "strip_suffix (of_str ''.git'') (map lower_code (of_str ''Foo/Bar'')) = None" "strip_suffix (of_str ''.git'') (map lower_code (of_str ''foo/bar'')) = None"
    by (simp_all add: strip_suffix_def strip_prefix_def of_str_simps lower_code_def)
  have "repo_ok (of_str ''GitHub.com'') (of_str ''Foo/Bar'')" "repo_ok (of_str ''github.com'') (of_str ''foo/bar'')"
    using s by (simp_all add: repo_ok_def ascii_def is_white_def) (simp_all add: of_str_simps)
  moreover have "of_str ''git@GitHub.com:Foo/Bar.git'' \<in> set (spellings (of_str ''GitHub.com'') (of_str ''Foo/Bar''))"
    "of_str ''https://github.com/foo/bar'' \<in> set (spellings (of_str ''github.com'') (of_str ''foo/bar''))"
    by (simp_all add: spellings_def url_starts_def url_ends_def of_str_simps)
  ultimately show ?thesis
    using every_spelling_one_project [OF a, of "of_str ''GitHub.com''" "of_str ''Foo/Bar''"] every_spelling_one_project [OF a, of "of_str ''github.com''" "of_str ''foo/bar''"]
    by (simp add: lower_code_def of_str_simps)
qed

text \<open>With both at the end, \<open>.git/\<close>, the suffix stays.\<close>

lemma git_slash_is_another:
  "normalize_remote_url (map lower_code) (of_str ''https://h/o/r.git/'') = Some (of_str ''h/o/r.git'')"
  by (simp add: normalize_remote_url_def trim_def drop_scheme_def strip_prefix_def strip_suffix_def trim_end_def of_str_simps
      lower_code_def is_white_def Let_def)

section \<open>The settings file keeps the session, not the override\<close>

lemma stored_again:
  assumes "parse (pr (config_json c)) = Some (config_json c)" "list_all is_scalar (pc_session c)" "list_all is_scalar (pc_name c)"
  shows "stored_config parse (Some (pr (config_json c))) = Some c"
proof -
  have "text_of (bytes_of t) = t" if "list_all is_scalar t" for t using that by (rule text_bytes)
  then show ?thesis using assms by (simp add: stored_config_def config_json_def)
qed

lemma set_strip_back: "set (strip_back r) \<subseteq> set r"
  by (induction r rule: strip_back.induct) auto

lemma set_trim: "set (trim t) \<subseteq> set t"
proof
  fix x assume "x \<in> set (trim t)"
  then have "x \<in> set (dropWhile is_white (rev (dropWhile is_white t)))" by (simp add: trim_def)
  then have "x \<in> set (dropWhile is_white t)" using set_dropWhileD by fastforce
  then show "x \<in> set t" by (rule set_dropWhileD)
qed

lemma default_name_scalar: "list_all is_scalar path \<Longrightarrow> list_all is_scalar (pc_name (default_config path uuid))"
proof -
  assume p: "list_all is_scalar path"
  have "set n \<subseteq> set path" if b: "Option.bind (last_name path) non_empty_trim = Some n" for n
  proof -
    obtain m where m: "last_name path = Some m" "n = trim m" using b by (cases "last_name path") (auto simp: non_empty_trim_def split: if_splits)
    then have "set m \<subseteq> set path" using set_strip_back [of "rev path"]
      by (auto simp: last_name_def Let_def dest!: set_takeWhileD split: if_splits)
    then show ?thesis using set_trim [of m] m(2) by auto
  qed
  then show ?thesis using p
    by (cases "Option.bind (last_name path) non_empty_trim") (auto simp: default_config_def list_all_iff of_str_simps is_scalar_def)
qed

text \<open>
  Starting a session in a directory writes its settings once: the second start finds the session and the
  name the first one stored, and leaves the file alone.
\<close>

theorem settings_are_kept:
  assumes "parse (pr (config_json c)) = Some (config_json c)" "list_all is_scalar uuid" "trim uuid \<noteq> []" "list_all is_scalar path"
    and "load_or_create parse pr path uuid f = (c, g)"
  shows "load_or_create parse pr path' uuid' g = (c, g)"
proof (cases "load_config parse f")
  case (Some c0)
  then show ?thesis using assms(5) by (auto simp: load_or_create_def)
next
  case None
  then have c: "c = default_config path uuid" "g = Some (pr (config_json c))" using assms(5) by (auto simp: load_or_create_def Let_def)
  have "list_all is_scalar (pc_name c)" unfolding c(1) by (rule default_name_scalar [OF assms(4)])
  then have "stored_config parse g = Some c" unfolding c(2) using assms(1,2) by (intro stored_again) (simp_all add: c(1) default_config_def)
  then show ?thesis using assms(3) by (simp add: load_or_create_def load_config_def c(1) default_config_def)
qed

definition a_config :: project_config where "a_config = \<lparr>pc_session = [117], pc_name = [97]\<rparr>"

theorem settings_are_kept_witness:
  "load_or_create [''j'' \<mapsto> config_json a_config] (\<lambda>_. ''j'') [47, 98] [118] (Some ''j'') = (a_config, Some ''j'')"
proof (rule settings_are_kept)
  show "load_or_create [''j'' \<mapsto> config_json a_config] (\<lambda>_. ''j'') [47, 97] [117] None = (a_config, Some ''j'')"
    by (simp add: load_or_create_def load_config_def stored_config_def default_config_def a_config_def last_name_def non_empty_trim_def trim_def is_white_def Let_def)
qed (simp_all add: is_scalar_def trim_def is_white_def)

text \<open>
  The override the documentation of \<open>resolve_project_id\<close> describes does not survive: the file is written
  back with the session and the name alone, by a rename and by the first start in a directory whose settings
  hold nothing but the override.
\<close>

lemma no_override:
  "parse (pr (config_json c)) = Some (config_json c) \<Longrightarrow> read_project_id_from_config parse (Some (pr (config_json c))) = None"
  by (simp add: read_project_id_from_config_def) (simp add: config_json_def)

lemma rename_drops_override:
  assumes "\<forall>c. parse (pr (config_json c)) = Some (config_json c)" "write_session_id parse pr path uuid i n f = Some g"
  shows "read_project_id_from_config parse g = None"
  using assms no_override [of parse pr] by (auto simp: write_session_id_def Let_def split: if_splits)

lemma start_drops_override:
  assumes "\<forall>c. parse (pr (config_json c)) = Some (config_json c)" "parse s = Some (JObj [(''project_id'', JStr x)])"
  shows "read_project_id_from_config parse (snd (load_or_create parse pr path uuid (Some s))) = None"
  using assms no_override [of parse pr] by (simp add: load_or_create_def load_config_def stored_config_def Let_def)

end
