(* ===== verification/Remote.thy ===== *)
theory Remote
  imports Strings Json Utf8 "HOL-Library.Char_ord" "HOL-Library.List_Lexorder"
begin

text \<open>
  Daemons on other machines and programs with a token (\<open>daemon/remote.rs\<close>, the commands of
  \<open>remote_cli.rs\<close>): the tables of client tokens, what a remote connection may call, the first frame of
  a connection, connection strings, profiles. Tokens and client names of the tables are byte strings;
  connection strings and profiles are text. SHA-256 (in hex) and the random part of a token are arguments.
\<close>

section \<open>Tokens\<close>

datatype token_kind = RemoteToken | PoolToken | ApiToken

fun token_table :: "token_kind \<Rightarrow> string" where
  "token_table RemoteToken = ''remote_tokens''"
| "token_table PoolToken = ''pool_tokens''"
| "token_table ApiToken = ''api_tokens''"

fun token_prefix :: "token_kind \<Rightarrow> string" where
  "token_prefix RemoteToken = ''cbr_''"
| "token_prefix PoolToken = ''cbp_''"
| "token_prefix ApiToken = ''cba_''"

record token_row =
  tk_name :: string
  tk_sha :: string
  tk_created :: int
  tk_used :: "int option"

text \<open>One table per kind; its name is the primary key, the hash is unique.\<close>

type_synonym token_db = "token_kind \<Rightarrow> token_row rows"

datatype token_error = BadClientName | TokenTaken

definition check_client_name :: "utext \<Rightarrow> bool" where
  "check_client_name n \<longleftrightarrow> n \<noteq> [] \<and> length n \<le> 64 \<and> list_all (\<lambda>c. is_ascii_alnum c \<or> c = 45 \<or> c = 95) n"

definition issue_token ::
  "(string \<Rightarrow> string) \<Rightarrow> token_kind \<Rightarrow> string \<Rightarrow> string \<Rightarrow> int \<Rightarrow> token_db \<Rightarrow> token_error + token_db \<times> string" where
  "issue_token sha k name raw now d =
     (if \<not> check_client_name (of_str name) then Inl BadClientName
      else let token = token_prefix k @ raw;
               t = upsert tk_name \<lparr>tk_name = name, tk_sha = sha token, tk_created = now, tk_used = None\<rparr>
                     (\<lambda>r. r\<lparr>tk_sha := sha token, tk_created := now, tk_used := None\<rparr>) (d k)
           in if distinct (map tk_sha t) then Inr (d(k := t), token) else Inl TokenTaken)"

definition revoke_token :: "token_kind \<Rightarrow> string \<Rightarrow> token_db \<Rightarrow> token_db \<times> bool" where
  "revoke_token k name d = (d(k := del_where (\<lambda>r. tk_name r = name) (d k)), name \<in> tk_name ` set (d k))"

definition list_tokens :: "token_kind \<Rightarrow> token_db \<Rightarrow> (string \<times> int \<times> int option) list" where
  "list_tokens k d = map (\<lambda>r. (tk_name r, tk_created r, tk_used r)) (sort_key tk_name (d k))"

definition authenticate :: "(string \<Rightarrow> string) \<Rightarrow> token_kind \<Rightarrow> string \<Rightarrow> int \<Rightarrow> token_db \<Rightarrow> string option \<times> token_db" where
  "authenticate sha k token now d =
     (case find (\<lambda>r. tk_sha r = sha token) (d k) of None \<Rightarrow> (None, d)
      | Some r \<Rightarrow> (Some (tk_name r), d(k := upd_where (\<lambda>x. tk_name x = tk_name r) (\<lambda>x. x\<lparr>tk_used := Some now\<rparr>) (d k))))"

text \<open>The listener's address, in \<open>daemon_state\<close>.\<close>

definition remote_bind_key :: string where "remote_bind_key = ''remote.bind''"

definition remote_configured_bind :: "(string \<times> string) rows \<Rightarrow> string option" where
  "remote_configured_bind s = map_option snd (row_of fst remote_bind_key s)"

definition remote_set_bind :: "string \<Rightarrow> (string \<times> string) rows \<Rightarrow> (string \<times> string) rows" where
  "remote_set_bind b s = upsert fst (remote_bind_key, b) (\<lambda>x. (fst x, b)) s"

definition remote_clear_bind :: "(string \<times> string) rows \<Rightarrow> (string \<times> string) rows" where
  "remote_clear_bind s = del_where (\<lambda>x. fst x = remote_bind_key) s"

section \<open>A remote connection\<close>

datatype peer = Local | RemotePeer string

definition remote_may_call :: "string \<Rightarrow> bool" where
  "remote_may_call tool \<longleftrightarrow>
     tool \<in> {''claudebase_daemon_status'', ''chat_post'', ''chat_reply'', ''chat_subscribe'', ''chat_list'',
       ''chat_list_threads'', ''chat_ask'', ''chat_list_pending_asks'', ''agent_register'', ''agent_rename'',
       ''agent_bind_session'', ''agent_describe'', ''agent_send'', ''agent_set_dnd'', ''agent_unregister'', ''agent_list_alive''}
     \<or> starts_with tool ''journal_'' \<and> tool \<noteq> ''journal_feedback''
     \<or> starts_with tool ''session_''
     \<or> tool \<in> {''auth_set_token'', ''auth_status'', ''auth_clear_token''}
     \<or> tool \<in> {''pool_job'', ''pool_reply'', ''pool_fail'', ''pool_ready'', ''pool_cleared''}"

text \<open>The first frame of a connection: the answer, and the client it came from when the token is one of its.\<close>

definition auth_token :: "json \<Rightarrow> string" where
  "auth_token frame =
     (if get_str frame ''method'' = Some ''auth''
      then case Option.bind (pointer [''params'', ''token''] frame) as_str of None \<Rightarrow> [] | Some t \<Rightarrow> t
      else [])"

definition auth_error :: "json \<Rightarrow> json" where
  "auth_error i = JObj [(''jsonrpc'', JStr ''2.0''), (''id'', i),
     (''error'', JObj [(''code'', JNum (- 32001)), (''message'', JStr ''unknown or revoked token'')])]"

definition server_auth ::
  "(string \<Rightarrow> string) \<Rightarrow> string \<Rightarrow> json \<Rightarrow> int \<Rightarrow> token_db \<Rightarrow> json \<times> peer option \<times> token_db" where
  "server_auth sha host frame now d =
     (case authenticate sha RemoteToken (auth_token frame) now d of
        (None, d') \<Rightarrow> (auth_error (jindex frame ''id''), None, d')
      | (Some c, d') \<Rightarrow>
          (JObj [(''jsonrpc'', JStr ''2.0''), (''id'', jindex frame ''id''),
             (''result'', JObj [(''client'', JStr c), (''daemon_host'', JStr host)])], Some (RemotePeer c), d'))"

text \<open>The other end of that exchange.\<close>

definition auth_frame :: "string \<Rightarrow> json" where
  "auth_frame token = JObj [(''jsonrpc'', JStr ''2.0''), (''id'', JNum 0), (''method'', JStr ''auth''),
     (''params'', JObj [(''token'', JStr token)])]"

definition accepted :: "json \<Rightarrow> string option" where
  "accepted reply =
     map_option (\<lambda>e. case get_str e ''message'' of None \<Rightarrow> ''unknown error'' | Some m \<Rightarrow> m) (jget reply ''error'')"

section \<open>Connection strings\<close>

record remote =
  rm_host :: utext
  rm_port :: nat
  rm_pin :: utext
  rm_token :: utext

datatype url_error = NoScheme | NoQuery | BadPort utext | NoHost | NoPin | BadPin | NoUrlToken

definition scheme :: utext where "scheme = of_str ''claudebase://''"
definition default_port :: nat where "default_port = 8586"

text \<open>\<open>u16::from_str\<close>, \<open>to_ascii_lowercase\<close>, \<open>is_ascii_hexdigit\<close>.\<close>

definition parse_u16 :: "utext \<Rightarrow> nat option" where
  "parse_u16 t = (case parse_u64 t of None \<Rightarrow> None | Some n \<Rightarrow> if n < 65536 then Some n else None)"

definition lower_ascii :: "utext \<Rightarrow> utext" where
  "lower_ascii = map (\<lambda>c. if 65 \<le> c \<and> c \<le> 90 then c + 32 else c)"

definition hex_code :: "nat \<Rightarrow> bool" where
  "hex_code c \<longleftrightarrow> is_ascii_digit c \<or> 65 \<le> c \<and> c \<le> 70 \<or> 97 \<le> c \<and> c \<le> 102"

definition url_authority :: "utext \<Rightarrow> url_error + utext \<times> nat" where
  "url_authority a =
     (case rsplit_once 58 a of
        Some (h, p) \<Rightarrow>
          if (h = [] \<or> last h \<noteq> 93) \<or> (h \<noteq> [] \<and> hd h = 91)
          then (case parse_u16 p of None \<Rightarrow> Inl (BadPort p) | Some n \<Rightarrow> Inr (h, n))
          else Inr (a, default_port)
      | None \<Rightarrow> Inr (a, default_port))"

text \<open>A value of the query; the last one counts.\<close>

definition query_arg :: "utext \<Rightarrow> utext \<Rightarrow> utext option" where
  "query_arg key q =
     fold (\<lambda>pair v. case split_once 61 pair of Some (k, x) \<Rightarrow> if k = key then Some x else v | None \<Rightarrow> v)
       (split_by (\<lambda>c. c = 38) q) None"

definition pin_ok :: "utext \<Rightarrow> bool" where
  "pin_ok p \<longleftrightarrow> (case strip_prefix (of_str ''sha256:'') p of None \<Rightarrow> False | Some h \<Rightarrow> length h = 64 \<and> list_all hex_code h)"

definition parse_url :: "utext \<Rightarrow> url_error + remote" where
  "parse_url s =
     (case strip_prefix scheme (trim s) of None \<Rightarrow> Inl NoScheme
      | Some rest \<Rightarrow>
        case split_once 63 rest of None \<Rightarrow> Inl NoQuery
        | Some (authority, query) \<Rightarrow>
          case url_authority (trim_end 47 authority) of Inl e \<Rightarrow> Inl e
          | Inr (h, port) \<Rightarrow>
            let host = trim_end 93 (trim_start 91 h) in
            if host = [] then Inl NoHost
            else case query_arg (of_str ''pin'') query of None \<Rightarrow> Inl NoPin
            | Some pin \<Rightarrow>
              if \<not> pin_ok pin then Inl BadPin
              else case query_arg (of_str ''token'') query of None \<Rightarrow> Inl NoUrlToken
              | Some token \<Rightarrow>
                if token = [] then Inl NoUrlToken
                else Inr \<lparr>rm_host = host, rm_port = port, rm_pin = lower_ascii pin, rm_token = token\<rparr>)"

definition display :: "remote \<Rightarrow> utext" where
  "display r = rm_host r @ [58] @ of_str (dec (rm_port r))"

definition url :: "remote \<Rightarrow> utext" where
  "url r =
     (let host = (if 58 \<in> set (rm_host r) then [91] @ rm_host r @ [93] else rm_host r)
      in scheme @ host @ [58] @ of_str (dec (rm_port r)) @ of_str ''?pin='' @ rm_pin r @ of_str ''&token='' @ rm_token r)"

text \<open>The certificate a client accepts.\<close>

definition verify_server_cert :: "(string \<Rightarrow> string) \<Rightarrow> utext \<Rightarrow> string \<Rightarrow> bool" where
  "verify_server_cert sha pin der \<longleftrightarrow> of_str (''sha256:'' @ sha der) = lower_ascii pin"

section \<open>Profiles\<close>

record profiles =
  pf_default :: "utext option"
  pf_remotes :: "utext \<Rightarrow> remote option"

definition no_profiles :: profiles where
  "no_profiles = \<lparr>pf_default = None, pf_remotes = (\<lambda>_. None)\<rparr>"

definition local_name :: utext where "local_name = of_str ''local''"

datatype profile_error = LocalTaken | BadProfileName | NoProfile utext | BadUrl url_error

definition check_profile_name :: "utext \<Rightarrow> profile_error + unit" where
  "check_profile_name n = (if n = local_name then Inl LocalTaken else if check_client_name n then Inr () else Inl BadProfileName)"

datatype endpoint = LocalDaemon | RemoteDaemon utext remote

definition endpoint_named :: "profiles \<Rightarrow> utext option \<Rightarrow> profile_error + endpoint" where
  "endpoint_named p name =
     (let look = (\<lambda>n. case pf_remotes p n of None \<Rightarrow> Inl (NoProfile n) | Some r \<Rightarrow> Inr (RemoteDaemon n r)) in
      case map_option trim name of
        Some n \<Rightarrow> if n = local_name then Inr LocalDaemon else look n
      | None \<Rightarrow> (case pf_default p of None \<Rightarrow> Inr LocalDaemon | Some n \<Rightarrow> look n))"

text \<open>\<open>Endpoint::resolve\<close>, from what \<open>CLAUDEBASE_DAEMON\<close> holds; what \<open>run\<close> exports for the session's own calls.\<close>

definition endpoint_resolve :: "profiles \<Rightarrow> utext option \<Rightarrow> profile_error + endpoint" where
  "endpoint_resolve p env = endpoint_named p (case env of None \<Rightarrow> None | Some s \<Rightarrow> if trim s = [] then None else Some s)"

fun describe_endpoint :: "endpoint \<Rightarrow> utext" where
  "describe_endpoint LocalDaemon = local_name"
| "describe_endpoint (RemoteDaemon n r) = n @ of_str '' ('' @ display r @ of_str '')''"

fun env_value :: "endpoint \<Rightarrow> utext" where
  "env_value LocalDaemon = local_name"
| "env_value (RemoteDaemon n r) = n"

text \<open>The commands that change the profiles. A leading byte order mark of the pasted string is dropped.\<close>

definition remote_add :: "utext \<Rightarrow> utext \<Rightarrow> profiles \<Rightarrow> profile_error + profiles" where
  "remote_add name s p =
     (case check_profile_name name of Inl e \<Rightarrow> Inl e
      | Inr _ \<Rightarrow> case parse_url (strip_bom s) of Inl e \<Rightarrow> Inl (BadUrl e)
                 | Inr r \<Rightarrow> Inr (p\<lparr>pf_remotes := (pf_remotes p)(name \<mapsto> r)\<rparr>))"

definition remote_remove :: "utext \<Rightarrow> profiles \<Rightarrow> profile_error + profiles" where
  "remote_remove name p =
     (if pf_remotes p name = None then Inl (NoProfile name)
      else Inr \<lparr>pf_default = (if pf_default p = Some name then None else pf_default p), pf_remotes = (pf_remotes p)(name := None)\<rparr>)"

definition remote_set_default :: "utext \<Rightarrow> profiles \<Rightarrow> profile_error + profiles" where
  "remote_set_default name p =
     (if name = local_name then Inr (p\<lparr>pf_default := None\<rparr>)
      else if pf_remotes p name \<noteq> None then Inr (p\<lparr>pf_default := Some name\<rparr>) else Inl (NoProfile name))"

text \<open>\<open>daemon remote issue\<close>: None when the listener is off; the line the other machine is given.\<close>

definition issue_port :: "utext \<Rightarrow> nat" where
  "issue_port bnd = (case Option.bind (rsplit_once 58 bnd) (\<lambda>(_, p). parse_u16 p) of None \<Rightarrow> default_port | Some n \<Rightarrow> n)"

definition remote_issue ::
  "(string \<Rightarrow> string) \<Rightarrow> utext \<Rightarrow> utext \<Rightarrow> string \<Rightarrow> string \<Rightarrow> int \<Rightarrow> (string \<times> string) rows \<Rightarrow> token_db
     \<Rightarrow> (token_error + token_db \<times> utext) option" where
  "remote_issue sha host pin client raw now s d =
     (case remote_configured_bind s of None \<Rightarrow> None
      | Some bnd \<Rightarrow>
        Some (case issue_token sha RemoteToken client raw now d of Inl e \<Rightarrow> Inl e
              | Inr (d', token) \<Rightarrow>
                Inr (d', url \<lparr>rm_host = host, rm_port = issue_port (of_str bnd), rm_pin = pin, rm_token = of_str token\<rparr>)))"

section \<open>Who a token belongs to\<close>

datatype token_op = Issue token_kind string string int | Revoke token_kind string | Use token_kind string int

fun token_step :: "(string \<Rightarrow> string) \<Rightarrow> token_op \<Rightarrow> token_db \<Rightarrow> token_db" where
  "token_step sha (Issue k n raw now) d = (case issue_token sha k n raw now d of Inl _ \<Rightarrow> d | Inr (d', _) \<Rightarrow> d')"
| "token_step sha (Revoke k n) d = fst (revoke_token k n d)"
| "token_step sha (Use k t now) d = snd (authenticate sha k t now d)"

definition token_run :: "(string \<Rightarrow> string) \<Rightarrow> token_op list \<Rightarrow> token_db" where
  "token_run sha ops = fold (token_step sha) ops (\<lambda>_. [])"

text \<open>The specification: what the last issue or revocation under a name left it with.\<close>

fun held_step :: "token_op \<Rightarrow> (token_kind \<Rightarrow> string \<Rightarrow> string option) \<Rightarrow> token_kind \<Rightarrow> string \<Rightarrow> string option" where
  "held_step (Issue k n raw now) m = (\<lambda>k' n'. if k' = k \<and> n' = n \<and> check_client_name (of_str n) then Some (token_prefix k @ raw) else m k' n')"
| "held_step (Revoke k n) m = (\<lambda>k' n'. if k' = k \<and> n' = n then None else m k' n')"
| "held_step (Use k t now) m = m"

definition held :: "token_op list \<Rightarrow> token_kind \<Rightarrow> string \<Rightarrow> string option" where
  "held ops = fold held_step ops (\<lambda>_ _. None)"

fun issued_token :: "token_op \<Rightarrow> string list" where
  "issued_token (Issue k n raw now) = [token_prefix k @ raw]"
| "issued_token _ = []"

definition issued :: "token_op list \<Rightarrow> string list" where
  "issued ops = concat (map issued_token ops)"

definition holds_table :: "(string \<Rightarrow> string) \<Rightarrow> token_row rows \<Rightarrow> (string \<Rightarrow> string option) \<Rightarrow> bool" where
  "holds_table sha t m \<longleftrightarrow> pk tk_name t \<and> (\<forall>n. map_option tk_sha (row_of tk_name n t) = map_option sha (m n))"

lemma issue_holds:
  assumes "holds_table sha (d k) m" "\<forall>n t. m n = Some t \<longrightarrow> sha t \<noteq> sha (token_prefix k @ raw)" "check_client_name (of_str n)"
    "inj_on sha (ran m)" "\<forall>n n' t. m n = Some t \<longrightarrow> m n' = Some t \<longrightarrow> n = n'"
  shows "\<exists>d'. issue_token sha k n raw now d = Inr (d', token_prefix k @ raw)
    \<and> holds_table sha (d' k) (m(n \<mapsto> token_prefix k @ raw)) \<and> (\<forall>k'. k' \<noteq> k \<longrightarrow> d' k' = d k')"
proof -
  let ?tok = "token_prefix k @ raw"
  define t where "t = upsert tk_name \<lparr>tk_name = n, tk_sha = sha ?tok, tk_created = now, tk_used = None\<rparr>
     (\<lambda>r. r\<lparr>tk_sha := sha ?tok, tk_created := now, tk_used := None\<rparr>) (d k)"
  have p: "pk tk_name t" unfolding t_def using assms(1) by (intro pk_upsert) (simp_all add: holds_table_def)
  have look: "map_option tk_sha (row_of tk_name x t) = map_option sha ((m(n \<mapsto> ?tok)) x)" for x
    using assms(1) by (simp add: t_def holds_table_def row_of_upsert split: option.split)
  have other: "Some (sha ?tok) \<noteq> map_option sha (m x)" for x
  proof (cases "m x")
    case (Some t)
    then have "sha t \<noteq> sha ?tok" using assms(2) by blast
    then show ?thesis using Some by auto
  qed simp
  have "r = s" if "r \<in> set t" "s \<in> set t" "tk_sha r = tk_sha s" for r s
  proof -
    have rs: "Some (tk_sha r) = map_option sha ((m(n \<mapsto> ?tok)) (tk_name r))" "Some (tk_sha s) = map_option sha ((m(n \<mapsto> ?tok)) (tk_name s))"
      using look row_of_pk [OF p] that(1,2) by (metis option.simps(9))+
    note same = that(3)
    have "tk_name r = tk_name s"
    proof (cases "tk_name r = n \<or> tk_name s = n")
      case True
      then show ?thesis using rs other same by (metis (no_types, lifting) fun_upd_apply option.simps(9))
    next
      case False
      then obtain a b where ab: "m (tk_name r) = Some a" "m (tk_name s) = Some b" "sha a = sha b" using rs same by (cases "m (tk_name r)"; cases "m (tk_name s)") auto
      then have "a = b" using assms(4) by (auto simp: inj_on_def ran_def)
      then show ?thesis using ab assms(5) by blast
    qed
    then show ?thesis using pk_eq [OF p] that by blast
  qed
  then have "distinct (map tk_sha t)" using p by (auto simp: pk_def distinct_map inj_on_def)
  then have "issue_token sha k n raw now d = Inr (d(k := t), ?tok)"
    using assms(3) by (simp add: issue_token_def t_def [symmetric] Let_def)
  then show ?thesis using p look by (simp add: holds_table_def)
qed

lemma held_snoc: "held (ops @ [op]) = held_step op (held ops)"
  by (simp add: held_def)

lemma run_snoc: "token_run sha (ops @ [op]) = token_step sha op (token_run sha ops)"
  by (simp add: token_run_def)

lemma issued_snoc: "issued (ops @ [op]) = issued ops @ issued_token op"
  by (simp add: issued_def)

lemma held_issued: "held ops k n = Some t \<Longrightarrow> t \<in> set (issued ops)"
proof (induction ops arbitrary: k n t rule: rev_induct)
  case (snoc op ops)
  then show ?case by (cases op) (auto simp: held_snoc issued_snoc split: if_splits)
qed (simp add: held_def)

lemma held_once:
  "distinct (issued ops) \<Longrightarrow> held ops k n = Some t \<Longrightarrow> held ops k n' = Some t \<Longrightarrow> n = n'"
proof (induction ops arbitrary: k n n' t rule: rev_induct)
  case (snoc op ops)
  then show ?case by (cases op) (auto simp: held_snoc issued_snoc dest: held_issued split: if_splits)
qed (simp add: held_def)

lemma run_holds:
  "distinct (issued ops) \<Longrightarrow> inj_on sha (set (issued ops)) \<Longrightarrow> holds_table sha (token_run sha ops k) (held ops k)"
proof (induction ops arbitrary: k rule: rev_induct)
  case Nil
  then show ?case by (simp add: token_run_def held_def holds_table_def pk_def)
next
  case (snoc op ops)
  have d: "distinct (issued ops)" "inj_on sha (set (issued ops))"
    using snoc.prems by (auto simp: issued_snoc inj_on_def)
  note IH = snoc.IH [OF d]
  show ?case
  proof (cases op)
    case (Issue k0 n raw now)
    show ?thesis
    proof (cases "check_client_name (of_str n)")
      case False
      then show ?thesis using IH by (simp add: run_snoc held_snoc Issue issue_token_def)
    next
      case True
      have fresh: "\<forall>x t. held ops k0 x = Some t \<longrightarrow> sha t \<noteq> sha (token_prefix k0 @ raw)"
        using snoc.prems held_issued [of ops k0] by (auto simp: issued_snoc Issue inj_on_def)
      have inj: "inj_on sha (ran (held ops k0))" using d(2) held_issued [of ops k0] by (auto simp: inj_on_def ran_def)
      obtain d' where "issue_token sha k0 n raw now (token_run sha ops) = Inr (d', token_prefix k0 @ raw)"
        "holds_table sha (d' k0) ((held ops k0)(n \<mapsto> token_prefix k0 @ raw))" "\<forall>k'. k' \<noteq> k0 \<longrightarrow> d' k' = token_run sha ops k'"
        using issue_holds [of sha "token_run sha ops" k0 "held ops k0" raw n now, OF IH fresh True inj] held_once [OF d(1)] by blast
      moreover from this have "(\<lambda>n'. if n' = n then Some (token_prefix k0 @ raw) else held ops k0 n') = (held ops k0)(n \<mapsto> token_prefix k0 @ raw)"
        by (simp add: fun_upd_def)
      ultimately show ?thesis using IH True
        by (cases "k = k0") (simp_all add: run_snoc held_snoc Issue)
    qed
  next
    case (Revoke k0 n)
    then show ?thesis using IH
      by (auto simp: run_snoc held_snoc revoke_token_def holds_table_def pk_del_where row_of_del_key)
  next
    case (Use k0 t now)
    have "map_option tk_sha (row_of tk_name n (upd_where p (\<lambda>x. x\<lparr>tk_used := Some now\<rparr>) rows)) = map_option tk_sha (row_of tk_name n rows)"
      for n p and rows :: "token_row rows"
      by (simp add: row_of_upd_where option.map_comp o_def if_distrib cong: if_cong)
    then show ?thesis using IH
      by (auto simp: run_snoc held_snoc Use authenticate_def holds_table_def pk_upd_where split: option.splits)
  qed
qed

text \<open>
  C34: A token opens the door as exactly one client: after any sequence of issues, revocations and uses, a token
  authenticates as a name precisely when it is the one last issued under that name, in its own table, and not
  revoked since, provided the random tokens are distinct and SHA-256 does not collide on them.
\<close>

theorem token_belongs_to_its_client:
  assumes "distinct (issued ops)" "inj_on sha (insert token (set (issued ops)))"
  shows "fst (authenticate sha k token now (token_run sha ops)) = Some n \<longleftrightarrow> held ops k n = Some token"
proof -
  let ?t = "token_run sha ops k"
  have h: "holds_table sha ?t (held ops k)" using run_holds [OF assms(1)] assms(2) by (auto simp: inj_on_def)
  have sound: "held ops k (tk_name r) = Some token" if "r \<in> set ?t" "tk_sha r = sha token" for r
  proof -
    have "map_option sha (held ops k (tk_name r)) = Some (sha token)"
      using h that row_of_pk [of tk_name ?t r] unfolding holds_table_def by (metis option.simps(9))
    then show ?thesis using assms(2) held_issued [of ops k "tk_name r"] by (auto simp: inj_on_def)
  qed
  show ?thesis
  proof
    assume "fst (authenticate sha k token now (token_run sha ops)) = Some n"
    then obtain r where r: "find (\<lambda>r. tk_sha r = sha token) ?t = Some r" "tk_name r = n"
      by (auto simp: authenticate_def split: option.splits)
    then show "held ops k n = Some token" using sound [of r] find_SomeD [OF r(1)] by simp
  next
    assume n: "held ops k n = Some token"
    then have "map_option tk_sha (row_of tk_name n ?t) = Some (sha token)" using h by (simp add: holds_table_def)
    then obtain r where "row_of tk_name n ?t = Some r" "tk_sha r = sha token" by (cases "row_of tk_name n ?t") simp_all
    then have r: "r \<in> set ?t" "tk_name r = n" "tk_sha r = sha token" using row_of_Some [of tk_name n ?t r] by simp_all
    then obtain s where s: "find (\<lambda>r. tk_sha r = sha token) ?t = Some s"
      by (cases "find (\<lambda>r. tk_sha r = sha token) ?t") (auto simp: find_None_iff)
    then have "held ops k (tk_name s) = Some token" using sound find_SomeD [OF s] by blast
    then have "tk_name s = n" using held_once [OF assms(1) _ n] by blast
    then show "fst (authenticate sha k token now (token_run sha ops)) = Some n" using s by (simp add: authenticate_def)
  qed
qed

theorem token_belongs_to_its_client_witness:
  "fst (authenticate id RemoteToken ''cbr_b'' 9 (token_run id
     [Issue RemoteToken ''pc'' ''a'' 1, Issue ApiToken ''pc'' ''b'' 2, Issue RemoteToken ''pc'' ''b'' 3, Use RemoteToken ''cbr_a'' 4])) = Some ''pc''
   \<and> held [Issue RemoteToken ''pc'' ''a'' 1, Issue ApiToken ''pc'' ''b'' 2, Issue RemoteToken ''pc'' ''b'' 3, Use RemoteToken ''cbr_a'' 4] RemoteToken ''pc'' = Some ''cbr_b''"
proof -
  let ?ops = "[Issue RemoteToken ''pc'' ''a'' 1, Issue ApiToken ''pc'' ''b'' 2, Issue RemoteToken ''pc'' ''b'' 3, Use RemoteToken ''cbr_a'' 4]"
  have "held ?ops RemoteToken ''pc'' = Some ''cbr_b''"
    by (simp add: held_def check_client_name_def of_str_def is_ascii_alnum_def is_ascii_alpha_def)
  moreover have "distinct (issued ?ops)" by (simp add: issued_def)
  ultimately show ?thesis using token_belongs_to_its_client [of ?ops id "''cbr_b''" RemoteToken 9 "''pc''"] by simp
qed

section \<open>Connection strings come back\<close>

definition host_ok :: "utext \<Rightarrow> bool" where
  "host_ok h \<longleftrightarrow> h \<noteq> [] \<and> 63 \<notin> set h \<and> hd h \<noteq> 91 \<and> last h \<noteq> 93"

definition remote_ok :: "remote \<Rightarrow> bool" where
  "remote_ok r \<longleftrightarrow> host_ok (rm_host r) \<and> rm_port r < 65536 \<and> pin_ok (rm_pin r) \<and> lower_ascii (rm_pin r) = rm_pin r
     \<and> rm_token r \<noteq> [] \<and> 38 \<notin> set (rm_token r) \<and> \<not> is_white (last (rm_token r))"

lemma trim_ends: "t \<noteq> [] \<Longrightarrow> \<not> is_white (hd t) \<Longrightarrow> \<not> is_white (last t) \<Longrightarrow> trim t = t"
proof -
  assume "t \<noteq> []" "\<not> is_white (hd t)" "\<not> is_white (last t)"
  moreover have "dropWhile is_white xs = xs" if "xs \<noteq> []" "\<not> is_white (hd xs)" for xs using that by (cases xs) auto
  ultimately show ?thesis by (simp add: trim_def hd_rev)
qed

lemma parse_u16_dec: "n < 65536 \<Longrightarrow> parse_u16 (of_str (dec n)) = Some n"
  by (simp add: parse_u16_def parse_u64_dec)

lemma pin_codes: "pin_ok p \<Longrightarrow> c \<in> set p \<Longrightarrow> c < 128 \<and> c \<noteq> 38"
proof -
  assume p: "pin_ok p" and c: "c \<in> set p"
  then obtain h where h: "p = of_str ''sha256:'' @ h" "list_all hex_code h"
    by (auto simp: pin_ok_def strip_prefix_iff split: option.splits)
  then have "c \<in> set (of_str ''sha256:'') \<or> hex_code c" using c by (auto simp: list_all_iff)
  then show ?thesis by (auto simp: of_str_simps hex_code_def is_ascii_digit_def)
qed

lemma authority_back:
  assumes "host_ok h" "p < 65536"
  defines "g \<equiv> (if 58 \<in> set h then [91] @ h @ [93] else h)"
  shows "url_authority (trim_end 47 (g @ [58] @ of_str (dec p))) = Inr (g, p)" "trim_end 93 (trim_start 91 g) = h"
proof -
  have nd: "of_str (dec p) \<noteq> []" using dec_nonempty by (simp add: of_str_def)
  have "last (of_str (dec p)) \<in> set (of_str (dec p))" using nd by simp
  then have "last (of_str (dec p)) \<noteq> 47" using dec_codes by fastforce
  then have te: "trim_end 47 (g @ [58] @ of_str (dec p)) = g @ 58 # of_str (dec p)" using nd by (simp add: trim_end_id)
  have n58: "58 \<notin> set (of_str (dec p))" using dec_codes by fastforce
  have ends: "hd h \<noteq> 91" "last h \<noteq> 93" "h \<noteq> []" using assms(1) by (simp_all add: host_ok_def)
  have "(g = [] \<or> last g \<noteq> 93) \<or> (g \<noteq> [] \<and> hd g = 91)" using ends by (simp add: g_def)
  then show "url_authority (trim_end 47 (g @ [58] @ of_str (dec p))) = Inr (g, p)"
    unfolding te url_authority_def rsplit_once_here [OF n58] by (simp add: parse_u16_dec [OF assms(2)])
  show "trim_end 93 (trim_start 91 g) = h"
  proof (cases "58 \<in> set h")
    case True
    have "trim_start 91 ([91] @ h @ [93]) = h @ [93]" using ends by (cases h) (simp_all add: trim_start_def)
    moreover have "trim_end 93 (h @ [93]) = h" using ends by (cases h rule: rev_cases) (simp_all add: trim_end_def)
    ultimately show ?thesis using True by (simp add: g_def)
  qed (use ends in \<open>simp add: g_def trim_start_id trim_end_id\<close>)
qed

lemma query_back:
  assumes "pin_ok pin" "38 \<notin> set token"
  defines "q \<equiv> of_str ''pin='' @ pin @ of_str ''&token='' @ token"
  shows "query_arg (of_str ''pin'') q = Some pin" "query_arg (of_str ''token'') q = Some token"
proof -
  have pin: "\<forall>c \<in> set (of_str ''pin='' @ pin). \<not> c = 38" using pin_codes [OF assms(1)] by (auto simp: of_str_simps)
  have tok: "\<forall>c \<in> set (of_str ''token='' @ token). \<not> c = 38" using assms(2) by (auto simp: of_str_simps)
  have "q = (of_str ''pin='' @ pin) @ 38 # (of_str ''token='' @ token)" by (simp add: q_def of_str_simps)
  then have sp: "split_by (\<lambda>c. c = 38) q = [of_str ''pin='' @ pin, of_str ''token='' @ token]"
    using split_by_here [of "of_str ''pin='' @ pin" "\<lambda>c. c = 38" 38 "of_str ''token='' @ token", OF pin]
      split_by_plain [of "of_str ''token='' @ token" "\<lambda>c. c = 38", OF tok] by simp
  have a: "split_once 61 (of_str ''pin='' @ pin) = Some (of_str ''pin'', pin)"
    using split_once_here [of 61 "of_str ''pin''" pin] by (simp add: of_str_simps)
  have b: "split_once 61 (of_str ''token='' @ token) = Some (of_str ''token'', token)"
    using split_once_here [of 61 "of_str ''token''" token] by (simp add: of_str_simps)
  show "query_arg (of_str ''pin'') q = Some pin" "query_arg (of_str ''token'') q = Some token"
    unfolding query_arg_def sp by (simp_all only: fold_simps a b option.case prod.case) (simp_all add: of_str_simps)
qed

lemma url_read_back:
  assumes "remote_ok r"
  shows "parse_url (url r) = Inr r"
proof -
  let ?g = "if 58 \<in> set (rm_host r) then [91] @ rm_host r @ [93] else rm_host r"
  let ?q = "of_str ''pin='' @ rm_pin r @ of_str ''&token='' @ rm_token r"
  have ok: "host_ok (rm_host r)" "rm_port r < 65536" "pin_ok (rm_pin r)" "lower_ascii (rm_pin r) = rm_pin r"
    "rm_token r \<noteq> []" "38 \<notin> set (rm_token r)" "\<not> is_white (last (rm_token r))" using assms by (simp_all add: remote_ok_def)
  have u: "url r = scheme @ (?g @ [58] @ of_str (dec (rm_port r))) @ 63 # ?q"
    by (simp add: url_def Let_def of_str_simps)
  have "last (url r) = last (rm_token r)" using ok(5) unfolding u by simp
  moreover have "hd (url r) = 99" unfolding u by (simp add: scheme_def of_str_simps)
  ultimately have t: "trim (url r) = url r" using ok(7) by (intro trim_ends) (simp_all add: url_def scheme_def of_str_simps is_white_def Let_def)
  have "63 \<notin> set (?g @ [58] @ of_str (dec (rm_port r)))" using ok(1) dec_codes [of 63 "rm_port r"] by (auto simp: host_ok_def)
  then have so: "split_once 63 ((?g @ [58] @ of_str (dec (rm_port r))) @ 63 # ?q) = Some (?g @ [58] @ of_str (dec (rm_port r)), ?q)"
    by (rule split_once_here)
  show ?thesis
    unfolding parse_url_def t unfolding u strip_prefix_append option.case so prod.case authority_back(1) [OF ok(1,2)] sum.case
      authority_back(2) [OF ok(1,2)] query_back [OF ok(3,6)]
    using ok by (simp add: Let_def host_ok_def)
qed

section \<open>From issuing to connecting\<close>

text \<open>What the joining machine sends for a profile.\<close>

definition profile_frame :: "remote \<Rightarrow> json" where
  "profile_frame r = auth_frame (map char_of (utf8_encode (rm_token r)))"

lemma utf8_ascii: "\<forall>c \<in> set t. c < 128 \<Longrightarrow> utf8_encode t = t"
  by (induction t) (simp_all add: utf8_encode_def utf8_char_def)

lemma issue_port_bound: "issue_port b < 65536"
proof (cases "Option.bind (rsplit_once 58 b) (\<lambda>(_, p). parse_u16 p)")
  case (Some n)
  then obtain p where "parse_u16 p = Some n" by (auto simp: bind_eq_Some_conv)
  then show ?thesis using Some by (auto simp: issue_port_def parse_u16_def split: option.splits if_splits)
qed (simp add: issue_port_def default_port_def)

lemma ascii_back: "\<forall>c \<in> set s. (of_char c :: nat) < 128 \<Longrightarrow> map char_of (utf8_encode (of_str s)) = s"
  by (subst utf8_ascii) (auto simp: of_str_def)

lemma issued_authenticates:
  assumes "issue_token sha k name raw now d = Inr (d', token)"
  shows "fst (authenticate sha k token later d') = Some name"
proof -
  let ?t = "d' k"
  have t: "?t = upsert tk_name \<lparr>tk_name = name, tk_sha = sha token, tk_created = now, tk_used = None\<rparr>
        (\<lambda>r. r\<lparr>tk_sha := sha token, tk_created := now, tk_used := None\<rparr>) (d k)" and dist: "distinct (map tk_sha ?t)"
    using assms by (auto simp: issue_token_def Let_def split: if_splits)
  have "map_option tk_sha (row_of tk_name name ?t) = Some (sha token) \<and> row_of tk_name name ?t \<noteq> None"
    unfolding t by (subst row_of_upsert; simp split: option.split)+
  then obtain r where "row_of tk_name name ?t = Some r" "tk_sha r = sha token" by auto
  then have r: "r \<in> set ?t" "tk_name r = name" "tk_sha r = sha token" using row_of_Some [of tk_name name ?t r] by simp_all
  then obtain s where s: "find (\<lambda>r. tk_sha r = sha token) ?t = Some s"
    by (cases "find (\<lambda>r. tk_sha r = sha token) ?t") (auto simp: find_None_iff)
  then have "s = r" using find_SomeD [OF s] r dist by (auto simp: distinct_map inj_on_def)
  then show ?thesis using s r by (simp add: authenticate_def)
qed

text \<open>
  The line that issuing prints is all a machine needs: added there under any free name, the profile it gives
  reaches the host and pins the certificate it was issued with, and the first frame sent for it is accepted as
  the client it was issued to.
\<close>

theorem issued_line_connects:
  assumes "remote_issue sha host pin client raw now s d = Some (Inr (d', line))"
    and "host_ok host" "pin_ok pin" "lower_ascii pin = pin" "\<forall>c \<in> set raw. is_ascii_alnum (of_char c)"
    and "check_profile_name name = Inr ()"
  shows "\<exists>p' r. remote_add name line p = Inr p' \<and> endpoint_named p' (Some name) = Inr (RemoteDaemon name r)
    \<and> rm_host r = host \<and> rm_pin r = pin \<and> fst (snd (server_auth sha h (profile_frame r) later d')) = Some (RemotePeer client)
    \<and> accepted (fst (server_auth sha h (profile_frame r) later d')) = None"
proof -
  obtain b token where i: "issue_token sha RemoteToken client raw now d = Inr (d', token)"
    and line: "line = url \<lparr>rm_host = host, rm_port = issue_port (of_str b), rm_pin = pin, rm_token = of_str token\<rparr>"
    using assms(1) by (auto simp: remote_issue_def split: option.splits sum.splits)
  define r where "r = \<lparr>rm_host = host, rm_port = issue_port (of_str b), rm_pin = pin, rm_token = of_str token\<rparr>"
  have tok: "token = ''cbr_'' @ raw" using i by (auto simp: issue_token_def Let_def split: if_splits)
  have codes: "c < 128 \<and> c \<noteq> 38 \<and> \<not> is_white c" if "c \<in> set (of_str token)" for c
    using that assms(5) by (auto simp: tok of_str_def is_ascii_alnum_def is_ascii_alpha_def is_ascii_digit_def is_white_def)
  have ne: "of_str token \<noteq> []" by (simp add: tok of_str_simps)
  have "remote_ok r" using assms(2-4) codes ne issue_port_bound [of "of_str b"] by (auto simp: remote_ok_def r_def)
  then have p: "parse_url line = Inr r" using url_read_back line by (simp add: r_def)
  have bom: "strip_bom line = line" by (simp add: strip_bom_def strip_prefix_def line url_def scheme_def of_str_simps)
  have n: "check_client_name name" "name \<noteq> local_name" using assms(6) by (auto simp: check_profile_name_def split: if_splits)
  then have "\<forall>c \<in> set name. \<not> is_white c"
    by (auto simp: check_client_name_def list_all_iff is_ascii_alnum_def is_ascii_alpha_def is_ascii_digit_def is_white_def)
  then have tr: "trim name = name" by (rule trim_plain)
  have "map char_of (utf8_encode (rm_token r)) = token" using codes ascii_back [of token] by (auto simp: r_def of_str_def)
  then have "auth_token (profile_frame r) = token" by (simp add: auth_token_def profile_frame_def auth_frame_def)
  then obtain d2 where "server_auth sha h (profile_frame r) later d'
      = (JObj [(''jsonrpc'', JStr ''2.0''), (''id'', jindex (profile_frame r) ''id''), (''result'', JObj [(''client'', JStr client), (''daemon_host'', JStr h)])], Some (RemotePeer client), d2)"
    using issued_authenticates [OF i, of later] by (cases "authenticate sha RemoteToken token later d'") (auto simp: server_auth_def)
  then show ?thesis using n tr p bom assms(6)
    by (auto simp: remote_add_def endpoint_named_def accepted_def Let_def r_def)
qed

definition issue_state :: "(string \<times> string) rows" where "issue_state = remote_set_bind ''0.0.0.0:9000'' []"
definition some_pin :: utext where "some_pin = of_str ''sha256:'' @ replicate 64 97"

theorem issued_line_connects_witness:
  "\<exists>d' line p' r. remote_issue id [58, 58, 49] some_pin ''pc'' ''a1'' 3 issue_state (\<lambda>_. []) = Some (Inr (d', line))
     \<and> remote_add [112] line no_profiles = Inr p' \<and> endpoint_named p' (Some [112]) = Inr (RemoteDaemon [112] r)
     \<and> fst (snd (server_auth id ''srv'' (profile_frame r) 4 d')) = Some (RemotePeer ''pc'')"
proof -
  have c: "check_client_name (of_str ''pc'')" "check_profile_name [112] = Inr ()"
    by (simp_all add: check_client_name_def check_profile_name_def local_name_def of_str_simps is_ascii_alnum_def is_ascii_alpha_def)
  have b: "remote_configured_bind issue_state = Some ''0.0.0.0:9000''"
    by (simp add: remote_configured_bind_def issue_state_def remote_set_bind_def upsert_def)
  obtain d' line where i: "remote_issue id [58, 58, 49] some_pin ''pc'' ''a1'' 3 issue_state (\<lambda>_. []) = Some (Inr (d', line))"
    by (simp add: remote_issue_def b issue_token_def c Let_def upsert_def)
  have "pin_ok some_pin" "lower_ascii some_pin = some_pin"
    by (simp_all add: pin_ok_def some_pin_def lower_ascii_def hex_code_def list_all_iff is_ascii_digit_def) (simp add: of_str_simps)
  from issued_line_connects [OF i _ this _ c(2), of no_profiles "''srv''" 4] i show ?thesis
    by (simp add: host_ok_def is_ascii_alnum_def is_ascii_alpha_def is_ascii_digit_def) metis
qed

section \<open>The default is a known daemon\<close>

text \<open>Whatever sequence of commands made the profiles, the one used when none is named exists.\<close>

datatype profile_op = Add utext utext | Remove utext | Default utext

fun profile_step :: "profile_op \<Rightarrow> profiles \<Rightarrow> profiles" where
  "profile_step (Add n s) p = (case remote_add n s p of Inl _ \<Rightarrow> p | Inr q \<Rightarrow> q)"
| "profile_step (Remove n) p = (case remote_remove n p of Inl _ \<Rightarrow> p | Inr q \<Rightarrow> q)"
| "profile_step (Default n) p = (case remote_set_default n p of Inl _ \<Rightarrow> p | Inr q \<Rightarrow> q)"

definition default_known :: "profiles \<Rightarrow> bool" where
  "default_known p \<longleftrightarrow> (case pf_default p of None \<Rightarrow> True | Some n \<Rightarrow> pf_remotes p n \<noteq> None)"

interpretation profiles_op: transition_system "\<lambda>p. p = no_profiles" "\<lambda>p q. \<exists>op. q = profile_step op p" default_known
proof unfold_locales
  fix p q assume "\<exists>op. q = profile_step op p" "default_known p"
  then obtain op where q: "q = profile_step op p" by blast
  show "default_known q" unfolding q using \<open>default_known p\<close>
    by (cases op) (auto simp: default_known_def remote_add_def remote_remove_def remote_set_default_def split: sum.splits option.splits if_splits)
qed (simp add: default_known_def no_profiles_def)

lemma default_always_known: "default_known (fold profile_step ops no_profiles)"
proof (rule profiles_op.reachable_inv [OF refl])
  have "(\<lambda>p q. \<exists>op. q = profile_step op p)\<^sup>*\<^sup>* p (fold profile_step ops p)" for p
    by (induction ops arbitrary: p) (auto intro: converse_rtranclp_into_rtranclp)
  then show "(\<lambda>p q. \<exists>op. q = profile_step op p)\<^sup>*\<^sup>* no_profiles (fold profile_step ops no_profiles)" .
qed

text \<open>An address in brackets is only read with a port: the default port does not apply to it.\<close>

lemma bracketed_needs_port: "url_authority (of_str ''[::1]'') = Inl (BadPort (of_str ''1]''))"
  by (simp add: url_authority_def rsplit_once_def split_once_def of_str_simps parse_u16_def parse_u64_def Let_def is_ascii_digit_def)

end
