(* ===== verification/Api.thy ===== *)
theory Api
  imports MindmapTools ProjectId Remote
begin

text \<open>
  The public API of journals and mind maps (\<open>daemon/api.rs\<close>): \<open>/v1/*\<close> on the callback listener. A
  request's target and method are byte strings, its body the argument of \<open>parse\<close> (\<open>serde_json\<close>).
\<close>

definition api_version :: nat where "api_version = 1"
definition api_max_body :: nat where "api_max_body = 4 * 1024 * 1024"

definition journal_ops :: "string list" where
  "journal_ops = [''add'', ''search'', ''list'', ''get'', ''tags'', ''categories'', ''mark'', ''unmark'', ''close'', ''reopen'',
     ''agenda'', ''link'', ''unlink'', ''branch'', ''policy'']"

definition mindmap_denied :: "string list" where
  "mindmap_denied = [''send'', ''url'', ''export'', ''import'']"

definition fields_denied :: "string list" where
  "fields_denied = [''agent_id'', ''session_token'', ''cwd'', ''every_secs'']"

definition creates :: "string list" where
  "creates = [''journal_add'', ''journal_mindmap_new'']"

text \<open>A failure is its status and its code; a success is what the tool answered.\<close>

datatype api_reply = ApiFail string string | ApiVersion nat | ApiDone answer

definition refuse_token :: "(string \<Rightarrow> string) \<Rightarrow> string option \<Rightarrow> int \<Rightarrow> token_db \<Rightarrow> api_reply option \<times> token_db" where
  "refuse_token sh token now d =
     (case authenticate sh ApiToken (given_or [] token) now d of
        (Some _, d') \<Rightarrow> (None, d')
      | (None, d') \<Rightarrow> (Some (ApiFail ''401 Unauthorized'' ''unauthorized''), d'))"

definition canonical :: "(utext \<Rightarrow> utext) \<Rightarrow> utext \<Rightarrow> utext option" where
  "canonical lc raw =
     (if strip_prefix (of_str ''local:'') raw \<noteq> None then None
      else case normalize_remote_url lc raw of None \<Rightarrow> None
      | Some i \<Rightarrow>
        let parts = split_by (\<lambda>c. c = 47) i in
        if 3 \<le> length parts \<and> list_all (\<lambda>p. p \<noteq> [] \<and> p \<noteq> [46] \<and> p \<noteq> [46, 46]) parts then Some i else None)"

definition api_journal_name :: "text_env \<Rightarrow> utext \<Rightarrow> utext" where
  "api_journal_name env project = journal_file_name env (project_key (Some project) [])"

definition journal_exists :: "text_env \<Rightarrow> utext \<Rightarrow> 'v store \<Rightarrow> bool" where
  "journal_exists env project s \<longleftrightarrow> file_at (api_journal_name env project) s \<noteq> None"

definition api_text :: "json \<Rightarrow> string \<Rightarrow> utext" where
  "api_text args k = (case get_str args k of None \<Rightarrow> [] | Some s \<Rightarrow> trim (text_of s))"

definition api_reply_of :: "tool_error + answer \<Rightarrow> api_reply" where
  "api_reply_of r = (case r of Inr a \<Rightarrow> ApiDone a | Inl _ \<Rightarrow> ApiFail ''400 Bad Request'' ''refused'')"

text \<open>What is left of the arguments: nothing that names a caller, and on a write the author's name.\<close>

definition api_args :: "string \<Rightarrow> utext \<Rightarrow> json \<Rightarrow> json" where
  "api_args tool author args =
     (let a = fold without (fields_denied @ [''project_id'', ''author'']) args
      in if tool = ''journal_add'' then with_member ''agent'' (JStr (bytes_of author)) a else a)"

definition is_object :: "json \<Rightarrow> bool" where
  "is_object v \<longleftrightarrow> (case v of JObj _ \<Rightarrow> True | _ \<Rightarrow> False)"

definition api_tool :: "(utext \<Rightarrow> utext) \<Rightarrow> (string \<Rightarrow> json option) \<Rightarrow> string \<Rightarrow> string \<Rightarrow> 'v world \<Rightarrow> int \<Rightarrow> 'v daemon \<Rightarrow> api_reply \<times> 'v daemon" where
  "api_tool lc parse tool body w now d =
     (case parse body of None \<Rightarrow> (ApiFail ''400 Bad Request'' ''bad_request'', d)
      | Some args \<Rightarrow>
        if \<not> is_object args then (ApiFail ''400 Bad Request'' ''bad_request'', d)
        else case canonical lc (api_text args ''project_id'') of None \<Rightarrow> (ApiFail ''400 Bad Request'' ''bad_request'', d)
        | Some project \<Rightarrow>
          let author = api_text args ''author'' in
          if author = [] then (ApiFail ''400 Bad Request'' ''bad_request'', d)
          else if tool \<notin> set creates \<and> \<not> journal_exists (w_text w) project (dn_store d)
          then (ApiFail ''404 Not Found'' ''unknown_project'', d)
          else map_prod api_reply_of id
                 (handle_api tool (bytes_of project) (bytes_of author) w now (api_args tool author args) d))"

definition target_parts :: "string \<Rightarrow> string list" where
  "target_parts target =
     split_by (\<lambda>c. c = CHR ''/'')
       (trim_matches (\<lambda>c. c = CHR ''/'') (case split_once (CHR ''?'') target of Some (p, _) \<Rightarrow> p | None \<Rightarrow> target))"

definition api_http :: "(utext \<Rightarrow> utext) \<Rightarrow> (string \<Rightarrow> json option) \<Rightarrow> string \<Rightarrow> string \<Rightarrow> string \<Rightarrow> 'v world \<Rightarrow> int \<Rightarrow> 'v daemon \<Rightarrow> api_reply \<times> 'v daemon" where
  "api_http lc parse meth target body w now d =
     (let parts = target_parts target in
      if meth = ''GET'' \<and> parts = [''v1'', ''version''] then (ApiVersion api_version, d)
      else if meth = ''GET'' \<and> parts = [''v1'', ''projects'']
      then map_prod api_reply_of id (handle ''journal_projects'' w now (JObj []) d)
      else if meth = ''POST'' \<and> length parts = 3 \<and> parts ! 0 = ''v1'' \<and> parts ! 1 = ''journal'' \<and> parts ! 2 \<in> set journal_ops
      then api_tool lc parse (''journal_'' @ parts ! 2) body w now d
      else if meth = ''POST'' \<and> length parts = 3 \<and> parts ! 0 = ''v1'' \<and> parts ! 1 = ''mindmap'' \<and> parts ! 2 \<notin> set mindmap_denied
      then api_tool lc parse (''journal_mindmap_'' @ parts ! 2) body w now d
      else (ApiFail ''404 Not Found'' ''not_found'', d))"

section \<open>One project per request\<close>

text \<open>Who a body is from: the project, as sessions name it, and the author.\<close>

definition api_request :: "(utext \<Rightarrow> utext) \<Rightarrow> (string \<Rightarrow> json option) \<Rightarrow> string \<Rightarrow> (utext \<times> utext) option" where
  "api_request lc parse body =
     (case parse body of None \<Rightarrow> None
      | Some args \<Rightarrow> map_option (\<lambda>p. (p, api_text args ''author'')) (canonical lc (api_text args ''project_id'')))"

definition api_as :: "utext \<times> utext \<Rightarrow> tool_error + caller" where
  "api_as pa = api_call (JObj [(''project_id'', JStr (bytes_of (fst pa))), (''author'', JStr (bytes_of (snd pa)))])"

definition api_files :: "'v world \<Rightarrow> utext \<times> utext \<Rightarrow> utext set" where
  "api_files w pa = insert (api_journal_name (w_text w) (fst pa)) (case api_as pa of Inl _ \<Rightarrow> {} | Inr c \<Rightarrow> own_files w c)"

lemma without_object: "is_object v \<Longrightarrow> is_object (without k v)"
  by (cases v) (simp_all add: is_object_def)

lemma with_member_object: "is_object v \<Longrightarrow> is_object (with_member k x v)"
  by (cases v) (simp_all add: is_object_def)

lemma api_args_object: "is_object v \<Longrightarrow> is_object (api_args tool author v)"
proof -
  assume "is_object v"
  then have "is_object (fold without ks v)" for ks by (induction ks arbitrary: v) (simp_all add: without_object)
  then show ?thesis unfolding api_args_def Let_def by (simp add: with_member_object del: fold_append)
qed

lemma jget_member: "is_object v \<Longrightarrow> jget (with_member k x v) k = Some x"
  by (cases v) (simp_all add: is_object_def)

lemma api_resolves:
  assumes "is_object v"
  shows "resolve w (with_member api_caller (JObj [(''project_id'', JStr p), (''author'', JStr a)]) v) need d
    = api_call (JObj [(''project_id'', JStr p), (''author'', JStr a)])"
  using jget_member [OF assms] by (simp add: resolve_def)

lemma api_handle_bounded:
  assumes "is_object v" "tool \<notin> set beyond_session"
  shows "bounded w (\<lambda>_. api_as (p, a)) (handle_api tool (bytes_of p) (bytes_of a) w now v)"
  unfolding handle_api_def
  by (rule dispatch_bounded) (simp_all add: stable_def api_as_def api_resolves [OF assms(1)] assms(2))

text \<open>A request that is within its project's files.\<close>

definition in_project :: "'v world \<Rightarrow> (utext \<times> utext) option \<Rightarrow> ('v daemon \<Rightarrow> api_reply \<times> 'v daemon) \<Rightarrow> bool" where
  "in_project w pa run \<longleftrightarrow> (\<forall>d. case pa of
      None \<Rightarrow> snd (run d) = d \<and> (\<forall>e. fst (run e) = fst (run d))
    | Some pa \<Rightarrow> same_but (api_files w pa) d (snd (run d)) \<and> (\<forall>e. agree (api_files w pa) d e \<longrightarrow> fst (run e) = fst (run d)))"

lemma in_project_fail: "in_project w pa (\<lambda>d. (r, d))"
  by (simp add: in_project_def split: option.splits)

lemma in_project_if:
  assumes "\<And>d e. agree (api_files w pa) d e \<Longrightarrow> P e = P d" "in_project w (Some pa) f" "in_project w (Some pa) g"
  shows "in_project w (Some pa) (\<lambda>d. if P d then f d else g d)"
proof -
  have "same_but (api_files w pa) d (snd (if P d then f d else g d))
    \<and> (\<forall>e. agree (api_files w pa) d e \<longrightarrow> fst (if P e then f e else g e) = fst (if P d then f d else g d))" for d
    using assms by (cases "P d") (auto simp: in_project_def)
  then show ?thesis unfolding in_project_def by simp
qed

lemma agree_less: "agree ms d e \<Longrightarrow> ns \<subseteq> ms \<Longrightarrow> agree ns d e"
  by (auto simp: agree_def)

lemma same_but_more: "same_but ns d e \<Longrightarrow> ns \<subseteq> ms \<Longrightarrow> same_but ms d e"
  by (auto simp: same_but_def)

lemma handled_in_project:
  assumes "is_object v" "tool \<notin> set beyond_session"
  shows "in_project w (Some (p, a)) (\<lambda>d. map_prod api_reply_of id (handle_api tool (bytes_of p) (bytes_of a) w now v d))"
proof -
  let ?run = "handle_api tool (bytes_of p) (bytes_of a) w now v"
  note b = api_handle_bounded [OF assms, of w p a now]
  have "same_but (api_files w (p, a)) d (snd (?run d)) \<and> (\<forall>e. agree (api_files w (p, a)) d e \<longrightarrow> fst (?run e) = fst (?run d))" for d
  proof (cases "api_as (p, a)")
    case (Inl x)
    then have "snd (?run d) = d" "\<forall>e. agree {} d e \<longrightarrow> fst (?run e) = fst (?run d)" using b by (simp_all add: bounded_def)
    then show ?thesis using agree_less [of _ d _ "{}"] by auto
  next
    case (Inr c)
    then have sub: "own_files w c \<subseteq> api_files w (p, a)" by (simp add: api_files_def subset_insertI)
    have "same_but (own_files w c) d (snd (?run d)) \<and> (\<forall>e. agree (own_files w c) d e \<longrightarrow> fst (?run e) = fst (?run d))"
      using b Inr by (simp add: bounded_def)
    then show ?thesis using agree_less [OF _ sub] same_but_more [OF _ sub] by blast
  qed
  then show ?thesis by (simp add: in_project_def)
qed

lemma api_tool_in_project:
  assumes "tool \<notin> set beyond_session"
  shows "in_project w (api_request lc parse body) (api_tool lc parse tool body w now)"
proof (cases "parse body")
  case (Some v)
  show ?thesis
  proof (cases "is_object v")
    case True
    show ?thesis
    proof (cases "canonical lc (api_text v ''project_id'')")
      case None
      have "api_tool lc parse tool body w now = (\<lambda>d. (ApiFail ''400 Bad Request'' ''bad_request'', d))"
        by (intro ext) (simp add: api_tool_def Some True None)
      then show ?thesis by (simp add: in_project_fail)
    next
      case p: (Some p)
      let ?a = "api_text v ''author''"
      have req: "api_request lc parse body = Some (p, ?a)" by (simp add: api_request_def Some p)
      show ?thesis
      proof (cases "?a = []")
        case True
        have "api_tool lc parse tool body w now = (\<lambda>d. (ApiFail ''400 Bad Request'' ''bad_request'', d))"
          by (intro ext) (simp add: api_tool_def Some \<open>is_object v\<close> p True Let_def)
        then show ?thesis by (simp add: in_project_fail)
      next
        case False
        let ?run = "\<lambda>d. map_prod api_reply_of id (handle_api tool (bytes_of p) (bytes_of ?a) w now (api_args tool ?a v) d)"
        have run: "api_tool lc parse tool body w now = (\<lambda>d. if tool \<notin> set creates \<and> \<not> journal_exists (w_text w) p (dn_store d)
            then (ApiFail ''404 Not Found'' ''unknown_project'', d) else ?run d)"
          by (intro ext) (simp add: api_tool_def Some True p False Let_def)
        have "journal_exists (w_text w) p (dn_store e) = journal_exists (w_text w) p (dn_store d)" if "agree (api_files w (p, ?a)) d e" for d e
          using that by (simp add: agree_def api_files_def journal_exists_def dn_file_def)
        moreover have "in_project w (Some (p, ?a)) ?run" using api_args_object [OF True] assms by (rule handled_in_project)
        ultimately show ?thesis unfolding req run by (intro in_project_if in_project_fail) auto
      qed
    qed
  next
    case False
    have "api_tool lc parse tool body w now = (\<lambda>d. (ApiFail ''400 Bad Request'' ''bad_request'', d))"
      by (intro ext) (simp add: api_tool_def Some False)
    then show ?thesis by (simp add: in_project_fail)
  qed
next
  case None
  have "api_tool lc parse tool body w now = (\<lambda>d. (ApiFail ''400 Bad Request'' ''bad_request'', d))"
    by (intro ext) (simp add: api_tool_def None)
  then show ?thesis by (simp add: in_project_fail)
qed

lemma api_http_get: "\<not> meth = ''GET'' \<Longrightarrow> api_http lc parse meth target body w now d =
     (let parts = target_parts target in
      if meth = ''POST'' \<and> length parts = 3 \<and> parts ! 0 = ''v1'' \<and> parts ! 1 = ''journal'' \<and> parts ! 2 \<in> set journal_ops
      then api_tool lc parse (''journal_'' @ parts ! 2) body w now d
      else if meth = ''POST'' \<and> length parts = 3 \<and> parts ! 0 = ''v1'' \<and> parts ! 1 = ''mindmap'' \<and> parts ! 2 \<notin> set mindmap_denied
      then api_tool lc parse (''journal_mindmap_'' @ parts ! 2) body w now d
      else (ApiFail ''404 Not Found'' ''not_found'', d))"
  by (simp only: api_http_def Let_def simp_thms if_False)

lemma api_http_not_get:
  assumes "\<not> meth = ''GET''"
    and fail: "P (\<lambda>d. (ApiFail ''404 Not Found'' ''not_found'', d))"
    and tool: "\<And>tool. tool \<notin> set beyond_session \<Longrightarrow> P (api_tool lc parse tool body w now)"
  shows "P (api_http lc parse meth target body w now)"
proof -
  have j: "''journal_'' @ op \<notin> set beyond_session" if "op \<in> set journal_ops" for op
    using that unfolding journal_ops_def beyond_session_def by auto
  have m: "''journal_mindmap_'' @ op \<notin> set beyond_session" if "op \<notin> set mindmap_denied" for op
    using that by (simp add: mindmap_denied_def beyond_session_def)
  let ?p = "target_parts target"
  let ?J = "meth = ''POST'' \<and> length ?p = 3 \<and> ?p ! 0 = ''v1'' \<and> ?p ! 1 = ''journal'' \<and> ?p ! 2 \<in> set journal_ops"
  let ?M = "meth = ''POST'' \<and> length ?p = 3 \<and> ?p ! 0 = ''v1'' \<and> ?p ! 1 = ''mindmap'' \<and> ?p ! 2 \<notin> set mindmap_denied"
  note h = api_http_get [OF assms(1), unfolded Let_def]
  consider (J) ?J | (M) "\<not> ?J" ?M | (F) "\<not> ?J" "\<not> ?M" by blast
  then show ?thesis
  proof cases
    case J
    then have "''journal_'' @ ?p ! 2 \<notin> set beyond_session" using j by blast
    moreover have "api_http lc parse meth target body w now = api_tool lc parse (''journal_'' @ ?p ! 2) body w now"
      by (intro ext trans [OF h] if_P J)
    ultimately show ?thesis using tool by simp
  next
    case M
    then have "''journal_mindmap_'' @ ?p ! 2 \<notin> set beyond_session" using m by blast
    moreover have "api_http lc parse meth target body w now = api_tool lc parse (''journal_mindmap_'' @ ?p ! 2) body w now"
      by (intro ext trans [OF h] trans [OF if_not_P] if_P M)
    ultimately show ?thesis using tool by simp
  next
    case F
    have "api_http lc parse meth target body w now = (\<lambda>d. (ApiFail ''404 Not Found'' ''not_found'', d))"
      by (intro ext trans [OF h] trans [OF if_not_P] if_not_P F)
    then show ?thesis using fail by simp
  qed
qed

text \<open>
  C33: A program reaches one project per request: whatever a POST to the public API says, it changes no journal
  file but those of the project its body names, nor the registry or the shares, and its answer depends on no
  other project's journal; a body that names no repository changes nothing at all.
\<close>

theorem api_stays_in_its_project:
  assumes "\<not> meth = ''GET''"
  shows "in_project w (api_request lc parse body) (api_http lc parse meth target body w now)"
  by (rule api_http_not_get [OF assms]) (rule in_project_fail, erule api_tool_in_project)

theorem api_stays_in_its_project_witness:
  "in_project lone (api_request id (\<lambda>b. Some (JObj [(''project_id'', JStr b), (''author'', JStr ''ci'')])) ''github.com/o/r'')
     (api_http id (\<lambda>b. Some (JObj [(''project_id'', JStr b), (''author'', JStr ''ci'')])) ''POST'' ''/v1/journal/list'' ''github.com/o/r'' lone 7)
   \<and> canonical id (of_str ''github.com/o/r'') = Some (of_str ''github.com/o/r'')
   \<and> target_parts ''/v1/journal/list?x'' = [''v1'', ''journal'', ''list'']"
proof (intro conjI)
  show "in_project lone (api_request id (\<lambda>b. Some (JObj [(''project_id'', JStr b), (''author'', JStr ''ci'')])) ''github.com/o/r'')
     (api_http id (\<lambda>b. Some (JObj [(''project_id'', JStr b), (''author'', JStr ''ci'')])) ''POST'' ''/v1/journal/list'' ''github.com/o/r'' lone 7)"
    by (rule api_stays_in_its_project) simp
qed code_simp+

end
