(* ===== verification/Frames.thy ===== *)
theory Frames
  imports Chat Json Utf8 Strings
begin

text \<open>
  What the daemon puts on its bus (\<open>daemon/chat.rs\<close>, \<open>daemon/pool.rs\<close>): the notification frames a session
  is subscribed to, one builder per source, and the bus itself. \<open>ser\<close> is \<open>serde_json::to_string\<close>; the
  printed time is an argument.
\<close>

section \<open>Frames\<close>

definition channel_method :: string where "channel_method = ''notifications/claude/channel''"
definition clear_method :: string where "clear_method = ''notifications/claudebase/pool_clear''"

definition channel_frame :: "string \<Rightarrow> (string \<times> json) list \<Rightarrow> json" where
  "channel_frame content meta =
     JObj [(''jsonrpc'', JStr ''2.0''), (''method'', JStr channel_method),
       (''params'', JObj [(''content'', JStr content), (''meta'', JObj meta)])]"

definition json_member :: "string \<Rightarrow> ('a \<Rightarrow> json) \<Rightarrow> 'a option \<Rightarrow> (string \<times> json) list" where
  "json_member k f x = (case x of None \<Rightarrow> [] | Some v \<Rightarrow> [(k, f v)])"

text \<open>A message row as the backlog shows it, and as a posted message is published.\<close>

definition message_json :: "message \<Rightarrow> json" where
  "message_json m = JObj (
     [(''id'', JStr (cm_id m)), (''thread_id'', JStr (cm_thread m)), (''from_agent'', JStr (cm_from m)),
      (''content'', JStr (cm_content m)), (''reply_to'', jopt JStr (cm_reply m)), (''created_at'', JNum (cm_created m))]
     @ (if cm_voice m \<or> cm_topic m \<noteq> None
        then [(''meta'', JObj ((if cm_voice m then [(''voice'', JBool True)] else [])
               @ json_member ''thread_id'' JNum (cm_topic m)))]
        else []))"

definition posted_meta :: "message \<Rightarrow> (string \<times> json) list" where
  "posted_meta m = [(''thread'', JStr (cm_thread m)), (''from_agent'', JStr (cm_from m)),
     (''message_id'', JStr (cm_id m)), (''ts'', JNum (cm_created m))] @ json_member ''reply_to'' JStr (cm_reply m)"

definition posted_frame :: "message \<Rightarrow> json" where
  "posted_frame m = channel_frame (cm_content m) (posted_meta m)"

definition routed_frame :: "message \<Rightarrow> string option \<Rightarrow> json" where
  "routed_frame m target = channel_frame (cm_content m) (posted_meta m @ json_member ''target_agent_id'' JStr target)"

text \<open>Agent to agent: a line of JSON and a blank line before the message.\<close>

definition agent_preamble :: "string \<Rightarrow> string \<Rightarrow> string \<Rightarrow> bool \<Rightarrow> json" where
  "agent_preamble sender target mid drained =
     JObj [(''agent_to_agent'', JObj [(''from_agent_id'', JStr sender), (''target_agent_id'', JStr target),
       (''thread'', JStr (agent_thread target)), (''drained_from_dnd'', JBool drained), (''message_id'', JStr mid)])]"

definition agent_frame :: "(json \<Rightarrow> string) \<Rightarrow> string \<Rightarrow> string \<Rightarrow> string \<Rightarrow> string \<Rightarrow> string \<Rightarrow> bool \<Rightarrow> json" where
  "agent_frame ser ts content sender target mid drained =
     channel_frame (ser (agent_preamble sender target mid drained) @ [CHR 0x0A, CHR 0x0A] @ content)
       [(''chat_id'', JStr (agent_thread target)), (''message_id'', JStr mid), (''user'', JStr sender),
        (''user_id'', JStr sender), (''ts'', JStr ts), (''target_agent_id'', JStr target)]"

text \<open>Telegram: the fields the channel surface knows, and no other.\<close>

record telegram_meta =
  tm_chat :: int
  tm_message :: string
  tm_user :: string
  tm_user_id :: string
  tm_ts :: string
  tm_thread :: "int option"
  tm_voice :: bool

definition telegram_fields :: "telegram_meta \<Rightarrow> (string \<times> json) list" where
  "telegram_fields t =
     [(''chat_id'', JStr (dec_int (tm_chat t))), (''message_id'', JStr (tm_message t)), (''user'', JStr (tm_user t)),
      (''user_id'', JStr (tm_user_id t)), (''ts'', JStr (tm_ts t))]
     @ (if tm_voice t then [(''voice'', JBool True)] else [])
     @ json_member ''thread_id'' (\<lambda>n. JStr (dec_int n)) (tm_thread t)"

definition telegram_frame :: "string \<Rightarrow> telegram_meta \<Rightarrow> string option \<Rightarrow> json" where
  "telegram_frame content t target =
     channel_frame content (telegram_fields t @ json_member ''target_agent_id'' JStr target)"

datatype ask_answer = SingleAnswer string | MultiAnswer "string list"

fun answer_text :: "ask_answer \<Rightarrow> string" where
  "answer_text (SingleAnswer v) = v"
| "answer_text (MultiAnswer vs) = join_with '','' vs"

definition answer_frame :: "string \<Rightarrow> ask_answer \<Rightarrow> string \<Rightarrow> bool \<Rightarrow> bool \<Rightarrow> telegram_meta \<Rightarrow> json" where
  "answer_frame ask ans originator is_alive multi t =
     channel_frame
       ((if multi then ''[chat_ask kind=multi ask_id='' @ ask @ '' values='' else ''[chat_ask kind=single ask_id='' @ ask @ '' value='')
        @ answer_text ans @ '']'')
       (telegram_fields t @ (if is_alive then [(''target_agent_id'', JStr originator)] else []))"

text \<open>Callbacks, reminders and pool jobs name their source.\<close>

definition inbox_fields :: "string \<Rightarrow> string \<Rightarrow> string \<Rightarrow> string \<Rightarrow> (string \<times> json) list" where
  "inbox_fields sender target mid ts =
     [(''target_agent_id'', JStr target), (''from_agent'', JStr sender), (''chat_id'', JStr (agent_thread target)),
      (''thread'', JStr (agent_thread target)), (''message_id'', JStr mid), (''ts'', JStr ts)]"

definition callback_frame :: "string \<Rightarrow> string \<Rightarrow> string option \<Rightarrow> string \<Rightarrow> string \<Rightarrow> json" where
  "callback_frame ts content label target mid =
     channel_frame content ([(''source'', JStr ''callback''), (''label'', jopt JStr label)]
       @ inbox_fields (case label of Some l \<Rightarrow> ''callback-'' @ l | None \<Rightarrow> ''callback'') target mid ts)"

definition reminder_frame :: "string \<Rightarrow> string \<Rightarrow> int \<Rightarrow> string \<Rightarrow> string \<Rightarrow> json" where
  "reminder_frame ts content entry target mid =
     channel_frame content ([(''source'', JStr ''reminder''), (''entry_id'', JStr (dec_int entry))]
       @ inbox_fields (''reminder-'' @ dec_int entry) target mid ts)"

definition pool_frame :: "string \<Rightarrow> string \<Rightarrow> string \<Rightarrow> string \<Rightarrow> string option \<Rightarrow> string \<Rightarrow> string \<Rightarrow> json" where
  "pool_frame ts line pool req call target mid =
     channel_frame line ([(''source'', JStr ''pool''), (''pool'', JStr pool), (''req_id'', JStr req), (''call_type'', jopt JStr call)]
       @ inbox_fields (''pool-'' @ pool) target mid ts)"

definition clear_frame :: "string \<Rightarrow> string \<Rightarrow> string \<Rightarrow> json" where
  "clear_frame target clear pool =
     JObj [(''jsonrpc'', JStr ''2.0''), (''method'', JStr clear_method),
       (''params'', JObj [(''meta'', JObj [(''target_agent_id'', JStr target), (''clear_id'', JStr clear), (''pool'', JStr pool)])])]"

section \<open>The bus\<close>

text \<open>
  Who is subscribed to a thread, by subscription order: a frame reaches the subscribers there are when
  it is published. That a subscriber \<open>broadcast_capacity\<close> frames behind loses the oldest is not modelled.
\<close>

definition broadcast_capacity :: nat where "broadcast_capacity = 256"

type_synonym 'c bus = "(string \<times> 'c) list"

definition bus_subscribe :: "'c \<Rightarrow> string \<Rightarrow> 'c bus \<Rightarrow> 'c bus" where
  "bus_subscribe c thread b = b @ [(thread, c)]"

definition bus_publish :: "string \<Rightarrow> 'c bus \<Rightarrow> 'c list" where
  "bus_publish thread b = map snd (filter (\<lambda>s. fst s = thread) b)"

end
