(* ===== verification/Nicks.thy ===== *)
theory Nicks
  imports Registry Strings
begin

text \<open>
  What a session is called (\<open>daemon/agent_registry.rs\<close>, \<open>supervisor/mod.rs\<close>): nicks remembered for a
  host, a directory and a terminal, nicks of conversations, and the nick a starting session takes. A nick
  derived from a directory is always one the registry accepts, and a new nick is held by no session that
  is online.
\<close>

section \<open>What is remembered\<close>

record nick_row =
  nm_host :: string
  nm_cwd :: string
  nm_terminal :: string
  nm_nick :: string
  nm_at :: int

definition nick_key :: "nick_row \<Rightarrow> string \<times> string \<times> string" where
  "nick_key r = (nm_host r, nm_cwd r, nm_terminal r)"

definition put_nick :: "string \<Rightarrow> string \<Rightarrow> string \<Rightarrow> string \<Rightarrow> int \<Rightarrow> nick_row rows \<Rightarrow> nick_row rows" where
  "put_nick host cwd term nick now =
     upsert nick_key \<lparr>nm_host = host, nm_cwd = cwd, nm_terminal = term, nm_nick = nick, nm_at = now\<rparr>
       (\<lambda>r. r\<lparr>nm_nick := nick, nm_at := now\<rparr>)"

definition remember_nick :: "string \<Rightarrow> string \<Rightarrow> string \<Rightarrow> string \<Rightarrow> int \<Rightarrow> nick_row rows \<Rightarrow> nick_row rows" where
  "remember_nick host cwd term nick now t =
     (let t = put_nick host cwd term nick now t in if term = [] then t else put_nick host cwd [] nick now t)"

definition nick_at :: "string \<Rightarrow> string \<Rightarrow> string \<Rightarrow> nick_row rows \<Rightarrow> string option" where
  "nick_at host cwd term t = map_option nm_nick (row_of nick_key (host, cwd, term) t)"

definition recall_nick :: "string \<Rightarrow> string \<Rightarrow> string \<Rightarrow> nick_row rows \<Rightarrow> string option" where
  "recall_nick host cwd term t =
     (if term \<noteq> [] \<and> nick_at host cwd term t \<noteq> None then nick_at host cwd term t else nick_at host cwd [] t)"

type_synonym talk_row = "string \<times> string \<times> int"

definition remember_conversation_nick :: "string \<Rightarrow> string \<Rightarrow> int \<Rightarrow> talk_row rows \<Rightarrow> talk_row rows" where
  "remember_conversation_nick session nick now = upsert fst (session, nick, now) (\<lambda>r. (fst r, nick, now))"

definition recall_conversation_nick :: "string \<Rightarrow> talk_row rows \<Rightarrow> string option" where
  "recall_conversation_nick session t = map_option (fst \<circ> snd) (row_of fst session t)"

section \<open>A new nick\<close>

definition nick_is_taken :: "(int \<Rightarrow> bool) \<Rightarrow> string \<Rightarrow> string \<Rightarrow> string option \<Rightarrow> agent_row rows \<Rightarrow> bool" where
  "nick_is_taken kill0 this nick besides t =
     (case find (\<lambda>r. ar_name r = nick \<and> alive r \<and> ar_id r \<noteq> given_or [] besides) t of
        None \<Rightarrow> False
      | Some r \<Rightarrow> (case row_of ar_id (ar_id r) t of None \<Rightarrow> False | Some s \<Rightarrow> row_live kill0 this s))"

definition numbered :: "string \<Rightarrow> nat \<Rightarrow> string" where
  "numbered base n = base @ ''-'' @ dec n"

definition unique_nick :: "(int \<Rightarrow> bool) \<Rightarrow> string \<Rightarrow> string \<Rightarrow> agent_row rows \<Rightarrow> string" where
  "unique_nick kill0 host base t =
     (let taken = map ar_name (list_online kill0 host t) in
      if base \<notin> set taken then base
      else given_or base (find (\<lambda>c. c \<notin> set taken) (map (numbered base) [2..<100])))"

definition startup_nick ::
  "(int \<Rightarrow> bool) \<Rightarrow> string \<Rightarrow> string \<Rightarrow> string \<Rightarrow> string \<Rightarrow> string \<Rightarrow> nick_row rows \<Rightarrow> agent_row rows \<Rightarrow> string \<times> bool" where
  "startup_nick kill0 this host cwd term base m t =
     (case recall_nick host cwd term m of
        Some nick \<Rightarrow> if nick_is_taken kill0 this nick None t then (unique_nick kill0 host base t, False) else (nick, True)
      | None \<Rightarrow> (unique_nick kill0 host base t, False))"

text \<open>A nick from a directory's name, character by character.\<close>

definition nick_char :: "nat \<Rightarrow> bool" where
  "nick_char c \<longleftrightarrow> is_ascii_alnum c \<or> c = 95 \<or> c = 45"

definition push_dash :: "utext \<Rightarrow> nat \<Rightarrow> utext" where
  "push_dash nick c = (if c = 45 \<and> nick \<noteq> [] \<and> last nick = 45 then nick else nick @ [c])"

definition nick_from_label :: "utext \<Rightarrow> utext" where
  "nick_from_label label =
     (let mapped = map (\<lambda>c. if nick_char c then c else 45) label;
          nick = take 60 (trim_matches (\<lambda>c. c = 45) (foldl push_dash [] mapped))
      in if nick = [] then of_str ''claude'' else nick)"

section \<open>Lemmas\<close>

lemma given_or_simps [simp]: "given_or d None = d" "given_or d (Some v) = v"
  by (simp_all add: given_or_def)

lemma set_dropWhile: "set (dropWhile P xs) \<subseteq> set xs"
  by (auto dest: set_dropWhileD)

lemma set_trim_matches: "set (trim_matches P xs) \<subseteq> set xs"
  using set_dropWhile [of P "rev (dropWhile P xs)"] set_dropWhile [of P xs] by (auto simp: trim_matches_def)

lemma set_push: "set (foldl push_dash acc xs) \<subseteq> set acc \<union> set xs"
proof (induction xs arbitrary: acc)
  case (Cons x xs)
  have "set (push_dash acc x) \<subseteq> set acc \<union> {x}" by (auto simp: push_dash_def)
  then show ?case using Cons [of "push_dash acc x"] by auto
qed simp

lemma nick_from_label_chars:
  "nick_from_label l \<noteq> [] \<and> length (nick_from_label l) \<le> 60 \<and> (\<forall>c \<in> set (nick_from_label l). nick_char c)"
proof -
  define m where "m = map (\<lambda>c. if nick_char c then c else 45) l"
  have "\<forall>c \<in> set m. nick_char c" by (auto simp: m_def nick_char_def)
  then have "\<forall>c \<in> set (foldl push_dash [] m). nick_char c" using set_push [of "[]" m] by auto
  then have "\<forall>c \<in> set (take 60 (trim_matches (\<lambda>c. c = 45) (foldl push_dash [] m))). nick_char c"
    using set_trim_matches [of "\<lambda>c. c = 45" "foldl push_dash [] m"] by (auto dest: in_set_takeD)
  moreover have "\<forall>c \<in> set (of_str ''claude''). nick_char c" by (simp add: nick_char_def of_str_def is_ascii_alnum_def is_ascii_alpha_def)
  ultimately show ?thesis by (auto simp: nick_from_label_def Let_def m_def [symmetric] of_str_def)
qed

text \<open>
  Any directory name makes a nick the registry accepts, and so does the form the second to the
  ninety-ninth session of that directory takes: the length leaves room for the number.
\<close>

theorem derived_nick_is_valid:
  assumes "2 \<le> n" "n < 100"
  shows "valid_agent_name (map char_of (nick_from_label l)) \<and> valid_agent_name (numbered (map char_of (nick_from_label l)) n)"
proof -
  let ?c = "map char_of (nick_from_label l) :: string"
  have l: "nick_from_label l \<noteq> []" "length (nick_from_label l) \<le> 60" "\<forall>c \<in> set (nick_from_label l). nick_char c"
    using nick_from_label_chars [of l] by auto
  have ok: "is_ascii_alnum (of_char x) \<or> x = CHR ''_'' \<or> x = CHR ''-''" if x: "x \<in> set ?c" for x
  proof -
    obtain c where c: "c \<in> set (nick_from_label l)" "x = char_of c" using x unfolding set_map by blast
    then have "nick_char c" using l(3) by blast
    then have "c < 256" "is_ascii_alnum c \<or> c = 95 \<or> c = 45" by (auto simp: nick_char_def is_ascii_alnum_def is_ascii_alpha_def is_ascii_digit_def)
    moreover have "(char_of (95 :: nat) :: char) = CHR ''_''" "(char_of (45 :: nat) :: char) = CHR ''-''" by code_simp+
    ultimately show ?thesis using c(2) by (auto simp: of_char_of)
  qed
  have d: "is_ascii_alnum (of_char x)" if "x \<in> set (dec n)" for x
    using dec_codes [of "of_char x" n] that by (simp add: of_str_def is_ascii_alnum_def is_ascii_digit_def)
  define m where "m = n div 10"
  have "m < 10" using assms by (simp add: m_def div_less_iff_less_mult)
  then have "length (dec n) \<le> 2" by (simp add: dec.simps [of n] dec.simps [of m] m_def [symmetric])
  then show ?thesis using l ok d by (auto simp: valid_agent_name_def numbered_def list_all_iff)
qed

theorem derived_nick_is_valid_witness:
  "valid_agent_name (numbered (map char_of (nick_from_label (of_str ''tacticstrade.ai''))) 99)
   \<and> map char_of (nick_from_label (of_str ''tacticstrade.ai'')) = ''tacticstrade-ai''"
  using derived_nick_is_valid [of 99 "of_str ''tacticstrade.ai''"] by (simp, code_simp)

lemma unique_nick_free:
  assumes "base \<in> set (map ar_name (list_online kill0 host t)) \<Longrightarrow>
    \<exists>n. 2 \<le> n \<and> n < 100 \<and> numbered base n \<notin> set (map ar_name (list_online kill0 host t))"
  shows "unique_nick kill0 host base t \<notin> set (map ar_name (list_online kill0 host t))"
proof -
  let ?k = "set (map ar_name (list_online kill0 host t))"
  show ?thesis
  proof (cases "base \<in> ?k")
    case True
    then obtain n where "2 \<le> n" "n < 100" "numbered base n \<notin> ?k" using assms by blast
    define xs where "xs = map (numbered base) [2..<100]"
    have "numbered base n \<in> set xs" using \<open>2 \<le> n\<close> \<open>n < 100\<close> by (simp add: xs_def del: upt.simps upt_rec_numeral)
    then have "find (\<lambda>c. c \<notin> ?k) xs \<noteq> None" using \<open>numbered base n \<notin> ?k\<close> unfolding find_None_iff by blast
    then obtain x where x: "find (\<lambda>c. c \<notin> ?k) xs = Some x" by blast
    then have "x \<notin> ?k" using find_SomeD [OF x] by blast
    then show ?thesis using True x by (simp add: unique_nick_def xs_def [symmetric] del: upt.simps upt_rec_numeral)
  qed (simp add: unique_nick_def)
qed

lemma nick_at_put:
  "nick_at h c x (put_nick host cwd term nick now t) = (if (h, c, x) = (host, cwd, term) then Some nick else nick_at h c x t)"
  unfolding nick_at_def put_nick_def
  by (subst row_of_upsert) (auto simp: nick_key_def split: option.splits)

text \<open>
  A session started again in its window takes the nick it was given there, whatever the other windows
  of the directory were called in between; a window not seen before takes the directory's last; and a
  conversation keeps its own.
\<close>

theorem nicks_come_back:
  assumes "term \<noteq> []"
  shows "recall_nick host cwd term (remember_nick host cwd term nick now m) = Some nick
    \<and> (other \<noteq> term \<longrightarrow> recall_nick host cwd term
          (remember_nick host cwd other nick2 later (remember_nick host cwd term nick now m)) = Some nick)
    \<and> (nick_at host cwd other m = None \<longrightarrow> other \<noteq> term \<longrightarrow>
          recall_nick host cwd other (remember_nick host cwd term nick now m) = Some nick)
    \<and> recall_conversation_nick s (remember_conversation_nick s nick now c) = Some nick
    \<and> (s2 \<noteq> s \<longrightarrow> recall_conversation_nick s2 (remember_conversation_nick s nick now c) = recall_conversation_nick s2 c)"
proof -
  have "recall_conversation_nick x (remember_conversation_nick s nick now c)
      = (if x = s then Some nick else recall_conversation_nick x c)" for x
    unfolding recall_conversation_nick_def remember_conversation_nick_def
    by (subst row_of_upsert) (auto split: option.splits)
  then show ?thesis using assms by (simp add: recall_nick_def remember_nick_def Let_def nick_at_put)
qed

theorem nicks_come_back_witness:
  "recall_nick ''h'' ''/p'' ''tty1'' (remember_nick ''h'' ''/p'' ''tty2'' ''atlas'' 2 (remember_nick ''h'' ''/p'' ''tty1'' ''mira'' 1 [])) = Some ''mira''
   \<and> recall_nick ''h'' ''/p'' ''tty3'' (remember_nick ''h'' ''/p'' ''tty1'' ''mira'' 1 []) = Some ''mira''"
  using nicks_come_back [of "''tty1''" "''h''" "''/p''" "''mira''" 1 "[]" "''tty2''" "''atlas''" 2]
    nicks_come_back [of "''tty1''" "''h''" "''/p''" "''mira''" 1 "[]" "''tty3''"] by (simp add: nick_at_def)

end
