(* ===== verification/Subscribe.thy ===== *)
theory Subscribe
  imports Frames Inject Nicks Remote
begin

text \<open>
  The session's end of the bus: the pump of \<open>daemon/subscribe_client.rs\<close>, the questions it asks about
  routing (\<open>supervisor/mod.rs\<close>, \<open>daemon/session_tools.rs\<close>) and the backlog of a subscription. \<open>des\<close> is
  \<open>serde_json::from_str\<close>, \<open>ser\<close> \<open>to_string\<close>, \<open>uni\<close> the Unicode classes \<open>render\<close> asks about.

  What is proved: a frame reaches the session it names and no other, under the source it was built for;
  a session on another machine gets the same answers as one that reads the registry itself; what a
  subscription hands over is bounded.
\<close>

section \<open>Whose chat\<close>

text \<open>None is a database that cannot be opened.\<close>

definition threads_to_subscribe :: "string \<Rightarrow> string list \<Rightarrow> agent_row rows option \<Rightarrow> string list" where
  "threads_to_subscribe aid extra reg =
     remdups_adj (sort ([agent_thread aid] @ (case reg of None \<Rightarrow> [] | Some t \<Rightarrow> bound_telegram_threads aid t) @ extra))"

definition routing_belongs_to :: "string \<Rightarrow> int \<Rightarrow> int option \<Rightarrow> agent_row rows option \<Rightarrow> bool" where
  "routing_belongs_to aid chat topic reg =
     (case reg of None \<Rightarrow> False
      | Some t \<Rightarrow> (case topic_owner chat topic t of Some owner \<Rightarrow> owner = aid | None \<Rightarrow> False))"

definition telegram_chat :: "string \<Rightarrow> int option" where
  "telegram_chat thread = Option.bind (strip_prefix ''telegram:'' thread) parse_i64"

definition thread_belongs_to :: "string \<Rightarrow> string \<Rightarrow> agent_row rows option \<Rightarrow> bool" where
  "thread_belongs_to aid thread reg =
     (case telegram_chat thread of None \<Rightarrow> True
      | Some chat \<Rightarrow>
        case reg of None \<Rightarrow> False
        | Some t \<Rightarrow> (case chat_bound_to chat aid t of Some owner \<Rightarrow> owner = aid | None \<Rightarrow> True))"

definition nick_for :: "string \<Rightarrow> agent_row rows option \<Rightarrow> string" where
  "nick_for aid reg =
     (if aid = [] then ''unknown'' else given_or aid (Option.bind reg (nick_of aid)))"

text \<open>What the pump asks, wherever the answers come from.\<close>

record router =
  or_threads :: "string list \<Rightarrow> string list"
  or_thread :: "string \<Rightarrow> bool"
  or_topic :: "int \<Rightarrow> int option \<Rightarrow> bool"
  or_nick :: "string \<Rightarrow> string"

definition local_router :: "string \<Rightarrow> agent_row rows option \<Rightarrow> router" where
  "local_router aid reg =
     \<lparr>or_threads = (\<lambda>extra. threads_to_subscribe aid extra reg), or_thread = (\<lambda>th. thread_belongs_to aid th reg),
      or_topic = (\<lambda>c t. routing_belongs_to aid c t reg), or_nick = (\<lambda>a. nick_for a reg)\<rparr>"

section \<open>The same questions over the wire\<close>

definition need_str :: "json \<Rightarrow> string \<Rightarrow> string option" where
  "need_str args k = (case get_str args k of Some s \<Rightarrow> if s = [] then None else Some s | None \<Rightarrow> None)"

text \<open>
  The tools that answer from the registry; None is an error. \<open>texts\<close> stands for those that answer with
  the printed form of a command.
\<close>

definition session_tool ::
  "(int \<Rightarrow> bool) \<Rightarrow> string \<Rightarrow> (string \<Rightarrow> json \<Rightarrow> json option) \<Rightarrow> agent_row rows \<Rightarrow> nick_row rows \<Rightarrow> talk_row rows
     \<Rightarrow> string \<Rightarrow> json \<Rightarrow> json option" where
  "session_tool kill0 this texts t nm talks tool args =
     (if tool = ''session_bound_threads'' then
        map_option (\<lambda>a. JObj [(''threads'', JArr (map JStr (bound_telegram_threads a t)))]) (need_str args ''agent_id'')
      else if tool = ''session_topic_owner'' then
        map_option (\<lambda>c. JObj [(''owner'', jopt JStr (topic_owner c (get_i64 args ''topic'') t))]) (get_i64 args ''chat_id'')
      else if tool = ''session_chat_bound'' then
        (case (get_i64 args ''chat_id'', need_str args ''agent_id'') of
           (Some c, Some a) \<Rightarrow> Some (JObj [(''owner'', jopt JStr (chat_bound_to c a t))]) | _ \<Rightarrow> None)
      else if tool = ''session_nick_of'' then
        map_option (\<lambda>a. JObj [(''nick'', jopt JStr (nick_of a t))]) (need_str args ''agent_id'')
      else if tool = ''session_unique_nick'' then
        (case (need_str args ''host'', need_str args ''base'') of
           (Some h, Some b) \<Rightarrow> Some (JObj [(''nick'', JStr (unique_nick kill0 h b t))]) | _ \<Rightarrow> None)
      else if tool = ''session_startup_nick'' then
        (case (need_str args ''host'', need_str args ''cwd'', need_str args ''base'') of
           (Some h, Some d, Some b) \<Rightarrow>
             (let (nick, chosen) = startup_nick kill0 this h d (given_or [] (get_str args ''terminal'')) b nm t
              in Some (JObj [(''nick'', JStr nick), (''chosen'', JBool chosen)]))
         | _ \<Rightarrow> None)
      else if tool = ''session_resolve_agent'' then
        Option.bind (need_str args ''target'')
          (\<lambda>n. case resolve_target n t of Inr a \<Rightarrow> Some (JObj [(''agent_id'', JStr a)]) | Inl _ \<Rightarrow> None)
      else if tool = ''session_conversation_nick'' then
        map_option (\<lambda>s. JObj [(''nick'', jopt JStr (recall_conversation_nick s talks))]) (need_str args ''session_id'')
      else texts tool args)"

text \<open>\<open>ask\<close> is one call to the daemon; None when it failed.\<close>

definition str_items :: "json \<Rightarrow> string list" where
  "str_items v = (case as_array v of None \<Rightarrow> [] | Some xs \<Rightarrow> List.map_filter as_str xs)"

definition remote_router :: "string \<Rightarrow> (string \<Rightarrow> json \<Rightarrow> json option) \<Rightarrow> router" where
  "remote_router aid ask =
     \<lparr>or_threads = (\<lambda>extra. remdups_adj (sort ([agent_thread aid]
        @ (case ask ''session_bound_threads'' (JObj [(''agent_id'', JStr aid)]) of
             None \<Rightarrow> [] | Some v \<Rightarrow> str_items (jindex v ''threads''))
        @ extra))),
      or_thread = (\<lambda>th. case telegram_chat th of None \<Rightarrow> True
        | Some chat \<Rightarrow>
          case ask ''session_chat_bound'' (JObj [(''chat_id'', JNum chat), (''agent_id'', JStr aid)]) of
            None \<Rightarrow> False
          | Some v \<Rightarrow> (case as_str (jindex v ''owner'') of Some owner \<Rightarrow> owner = aid | None \<Rightarrow> True)),
      or_topic = (\<lambda>chat topic.
        case ask ''session_topic_owner'' (JObj [(''chat_id'', JNum chat), (''topic'', jopt JNum topic)]) of
          None \<Rightarrow> False | Some v \<Rightarrow> as_str (jindex v ''owner'') = Some aid),
      or_nick = (\<lambda>a. if a = [] then ''unknown''
        else case ask ''session_nick_of'' (JObj [(''agent_id'', JStr a)]) of
          None \<Rightarrow> a | Some v \<Rightarrow> given_or a (as_str (jindex v ''nick'')))\<rparr>"

section \<open>What a frame is\<close>

definition split_agent_preamble :: "(string \<Rightarrow> json option) \<Rightarrow> string \<Rightarrow> string \<times> string option" where
  "split_agent_preamble des raw =
     (case split_str [CHR 0x0A, CHR 0x0A] raw of None \<Rightarrow> (raw, None)
      | Some (head, rest) \<Rightarrow>
        case Option.bind (des head) (\<lambda>v. jget v ''agent_to_agent'') of
          None \<Rightarrow> (raw, None)
        | Some a2a \<Rightarrow> (rest, get_str a2a ''from_agent_id''))"

definition text_field :: "json \<Rightarrow> string \<Rightarrow> utext" where
  "text_field meta k = text_of (given_or [] (get_str meta k))"

definition telegram_source :: "json \<Rightarrow> source" where
  "telegram_source meta = (if get_bool meta ''voice'' = Some True then TelegramVoice else Telegram)"

definition agent_source :: "(string \<Rightarrow> string) \<Rightarrow> json \<Rightarrow> string option \<Rightarrow> source" where
  "agent_source nick meta hint =
     Agent (text_of (nick (given_or (given_or (given_or [] (get_str meta ''from_agent'')) (get_str meta ''user'')) hint)))"

definition stated_thread :: "json \<Rightarrow> string" where
  "stated_thread meta = given_or (given_or ''unknown'' (get_str meta ''chat_id'')) (get_str meta ''thread'')"

definition classify :: "(string \<Rightarrow> string) \<Rightarrow> json \<Rightarrow> string option \<Rightarrow> string \<times> source" where
  "classify nick meta hint =
     (let src = get_str meta ''source''; thread = get_str meta ''thread''; chat = get_str meta ''chat_id'' in
      if src = Some ''telegram'' then (stated_thread meta, telegram_source meta)
      else if src = Some ''pool'' then
        (stated_thread meta, PoolJob (text_field meta ''pool'') (text_field meta ''req_id'')
           (case get_str meta ''call_type'' of Some c \<Rightarrow> if c = [] then None else Some (text_of c) | None \<Rightarrow> None))
      else if src = Some ''reminder'' then (stated_thread meta, Reminder (text_field meta ''entry_id''))
      else if src = Some ''callback'' then
        (stated_thread meta, Callback (case get_str meta ''label'' of Some l \<Rightarrow> if l = [] then None else Some (text_of l) | None \<Rightarrow> None))
      else case thread of
        Some th \<Rightarrow>
          if starts_with th ''telegram:'' then (th, telegram_source meta)
          else if starts_with th ''agent:'' then (th, agent_source nick meta hint)
          else (case chat of None \<Rightarrow> (''unknown'', agent_source nick meta hint)
            | Some c \<Rightarrow>
              if starts_with c ''agent:'' then (c, agent_source nick meta hint)
              else if starts_with c ''telegram:'' then (c, telegram_source meta)
              else if parse_i64 c \<noteq> None then (''telegram:'' @ c, telegram_source meta)
              else (''unknown'', agent_source nick meta hint))
      | None \<Rightarrow>
          (case chat of None \<Rightarrow> (''unknown'', agent_source nick meta hint)
            | Some c \<Rightarrow>
              if starts_with c ''agent:'' then (c, agent_source nick meta hint)
              else if starts_with c ''telegram:'' then (c, telegram_source meta)
              else if parse_i64 c \<noteq> None then (''telegram:'' @ c, telegram_source meta)
              else (''unknown'', agent_source nick meta hint)))"

section \<open>The backlog of a subscription\<close>

record backlog_message =
  bm_id :: string
  bm_content :: string
  bm_created :: int
  bm_topic :: "int option"
  bm_voice :: bool

definition backlog_message_of :: "json \<Rightarrow> backlog_message option" where
  "backlog_message_of m =
     (case get_str m ''content'' of None \<Rightarrow> None
      | Some c \<Rightarrow>
        if c = [] then None
        else Some \<lparr>bm_id = given_or [] (get_str m ''id''), bm_content = c, bm_created = given_or 0 (get_i64 m ''created_at''),
          bm_topic = Option.bind (pointer [''meta'', ''thread_id''] m) as_i64,
          bm_voice = given_or False (Option.bind (pointer [''meta'', ''voice''] m) as_bool)\<rparr>)"

definition tool_text :: "json \<Rightarrow> string option" where
  "tool_text response =
     (case Option.bind (pointer [''result'', ''content''] response) as_array of
        Some (c # _) \<Rightarrow> get_str c ''text'' | _ \<Rightarrow> None)"

definition backlog_messages :: "(string \<Rightarrow> json option) \<Rightarrow> json \<Rightarrow> backlog_message list" where
  "backlog_messages des response =
     (case Option.bind (Option.bind (Option.bind (tool_text response) des) (\<lambda>v. jget v ''messages'')) as_array of
        None \<Rightarrow> [] | Some ms \<Rightarrow> List.map_filter backlog_message_of ms)"

definition backlog_max_age_ms :: int where "backlog_max_age_ms = 10 * 60 * 1000"
definition backlog_max_messages :: nat where "backlog_max_messages = 5"

definition bound_backlog :: "backlog_message list \<Rightarrow> int \<Rightarrow> backlog_message list \<times> nat" where
  "bound_backlog ms now =
     (let fresh = filter (\<lambda>m. 0 < bm_created m \<and> sat64 (now - bm_created m) \<le> backlog_max_age_ms) ms;
          kept = drop (length fresh - backlog_max_messages) fresh
      in (kept, length ms - length kept))"

definition deliver_backlog ::
  "(nat \<Rightarrow> bool) \<Rightarrow> (string \<Rightarrow> json option) \<Rightarrow> router \<Rightarrow> json \<Rightarrow> string \<Rightarrow> int \<Rightarrow> inbound list" where
  "deliver_backlog uni des orc response thread now =
     (if \<not> or_thread orc thread then []
      else let (ms, _) = bound_backlog (backlog_messages des response) now;
               src = (if starts_with thread ''telegram:'' then Telegram else Agent (of_str ''peer''));
               ours = (\<lambda>m. case (telegram_chat thread, bm_topic m) of
                 (Some chat, Some topic) \<Rightarrow> or_topic orc chat (Some topic) | _ \<Rightarrow> True)
           in map (\<lambda>m. \<lparr>in_id = bm_id m, in_body = render uni (if bm_voice m then TelegramVoice else src) (text_of (bm_content m))\<rparr>)
                (filter ours ms))"

section \<open>The pump\<close>

text \<open>The subscribes under way, by request id; what a frame puts into the session, and a clear it asks for.\<close>

record pump =
  pu_pending :: "nat \<Rightarrow> string option"
  pu_subscribed :: "string list"
  pu_next :: nat

definition json_u64 :: "json \<Rightarrow> nat option" where
  "json_u64 v = (case v of JNum n \<Rightarrow> if 0 \<le> n \<and> n < 2 ^ 64 then Some (nat n) else None | _ \<Rightarrow> None)"

fun subscribe_each :: "string list \<Rightarrow> pump \<Rightarrow> pump \<times> (nat \<times> string) list" where
  "subscribe_each [] p = (p, [])"
| "subscribe_each (th # ths) p =
     (let (p', sent) = subscribe_each ths (p\<lparr>pu_pending := (pu_pending p)(pu_next p \<mapsto> th),
            pu_subscribed := pu_subscribed p @ [th], pu_next := Suc (pu_next p)\<rparr>)
      in (p', (pu_next p, th) # sent))"

definition subscribe_new_threads :: "router \<Rightarrow> string list \<Rightarrow> pump \<Rightarrow> pump \<times> (nat \<times> string) list" where
  "subscribe_new_threads orc extra p =
     subscribe_each (filter (\<lambda>th. th \<notin> set (pu_subscribed p)) (or_threads orc extra)) p"

definition channel_body ::
  "(nat \<Rightarrow> bool) \<Rightarrow> (string \<Rightarrow> json option) \<Rightarrow> string \<Rightarrow> router \<Rightarrow> json \<Rightarrow> inbound list" where
  "channel_body uni des aid orc params =
     (let meta = jindex params ''meta''; sender = get_str meta ''from_agent''; raw = given_or [] (get_str params ''content'') in
      if get_str meta ''target_agent_id'' \<noteq> Some aid \<or> sender = Some aid \<or> raw = [] then []
      else let (content, hint) = split_agent_preamble des raw;
               (thread, src) = classify (or_nick orc) meta hint;
               topic = get_i64 meta ''thread_id''
           in if starts_with thread ''telegram:'' \<and> (case sender of Some f \<Rightarrow> \<not> starts_with f ''telegram:'' | None \<Rightarrow> False) then []
              else if \<not> (case (telegram_chat thread, topic) of
                  (Some chat, Some t) \<Rightarrow> or_topic orc chat (Some t) | _ \<Rightarrow> or_thread orc thread) then []
              else [\<lparr>in_id = given_or [] (get_str meta ''message_id''), in_body = render uni src (text_of content)\<rparr>])"

definition pump_frame ::
  "(nat \<Rightarrow> bool) \<Rightarrow> (string \<Rightarrow> json option) \<Rightarrow> string \<Rightarrow> router \<Rightarrow> int \<Rightarrow> json \<Rightarrow> pump \<Rightarrow> pump \<times> inbound list \<times> string list" where
  "pump_frame uni des aid orc now v p =
     (case Option.bind (jget v ''id'') json_u64 of
        Some i \<Rightarrow>
          (case pu_pending p i of
             Some th \<Rightarrow> (p\<lparr>pu_pending := (pu_pending p)(i := None)\<rparr>, deliver_backlog uni des orc v th now, [])
           | None \<Rightarrow> (p, [], []))
      | None \<Rightarrow>
        if get_str v ''method'' = Some clear_method then
          (let meta = given_or JNull (pointer [''params'', ''meta''] v) in
           (p, [], if get_str meta ''target_agent_id'' = Some aid then (case get_str meta ''clear_id'' of Some c \<Rightarrow> [c] | None \<Rightarrow> []) else []))
        else if get_str v ''method'' \<noteq> Some channel_method then (p, [], [])
        else (p, channel_body uni des aid orc (jindex v ''params''), []))"


section \<open>What the daemon says is what the session reads\<close>

lemma split_str_here: "x \<notin> set a \<Longrightarrow> split_str [x, y] (a @ x # y # b) = Some (a, b)"
  by (induction a) (auto simp: strip_prefix_def)

lemma channel_frame_simps [simp]:
  "jget (channel_frame c m) ''id'' = None"
  "get_str (channel_frame c m) ''method'' = Some channel_method"
  "jindex (channel_frame c m) ''params'' = JObj [(''content'', JStr c), (''meta'', JObj m)]"
  by (simp_all add: channel_frame_def jindex_def)

lemma pump_channel [simp]: "pump_frame uni des aid orc now (channel_frame c m) p
  = (p, channel_body uni des aid orc (JObj [(''content'', JStr c), (''meta'', JObj m)]), [])"
  by (simp add: pump_frame_def channel_method_def clear_method_def)

lemma agent_thread_simps [simp]:
  "telegram_chat (agent_thread a) = None" "\<not> starts_with (agent_thread a) ''telegram:''" "starts_with (agent_thread a) ''agent:''"
  by (simp_all add: telegram_chat_def strip_prefix_def agent_thread_def starts_with_def)

lemma telegram_chat_dec: "i64_min \<le> c \<Longrightarrow> c \<le> i64_max \<Longrightarrow> telegram_chat (''telegram:'' @ dec_int c) = Some c"
  unfolding telegram_chat_def strip_prefix_append by (simp add: parse_i64_dec_int)

lemma agent_read:
  assumes "des (ser (agent_preamble sender target mid dr)) = Some (agent_preamble sender target mid dr)"
    "CHR 0x0A \<notin> set (ser (agent_preamble sender target mid dr))"
  shows "split_agent_preamble des (ser (agent_preamble sender target mid dr) @ [CHR 0x0A, CHR 0x0A] @ content) = (content, Some sender)"
  using split_str_here [OF assms(2)] assms(1) by (simp add: split_agent_preamble_def agent_preamble_def)

text \<open>What a session makes of a frame addressed to it; nothing, of one addressed to another.\<close>

lemma body_not_ours:
  "get_str (JObj m) ''target_agent_id'' \<noteq> Some aid \<Longrightarrow> channel_body uni des aid orc (JObj [(''content'', JStr c), (''meta'', JObj m)]) = []"
  by (simp add: channel_body_def Let_def)

lemma agent_body:
  assumes "des (ser (agent_preamble sender aid mid dr)) = Some (agent_preamble sender aid mid dr)"
    "CHR 0x0A \<notin> set (ser (agent_preamble sender aid mid dr))" "or_thread orc (agent_thread aid)"
  shows "pump_frame uni des aid orc now (agent_frame ser ts content sender aid mid dr) p
    = (p, [\<lparr>in_id = mid, in_body = render uni (Agent (text_of (or_nick orc sender))) (text_of content)\<rparr>], [])"
  unfolding agent_frame_def pump_channel
  using agent_read [of des ser sender aid mid dr, OF assms(1,2), of content] assms(3)
  by (simp add: channel_body_def classify_def agent_source_def get_i64_def)

lemma inbox_body:
  assumes "or_thread orc (agent_thread aid)" "content \<noteq> []" "sender \<noteq> aid"
    and src: "classify (or_nick orc) (JObj (src @ inbox_fields sender aid mid ts)) (snd (split_agent_preamble des content)) = (agent_thread aid, s)"
    and k: "map_of src ''target_agent_id'' = None" "map_of src ''from_agent'' = None" "map_of src ''message_id'' = None" "map_of src ''thread_id'' = None"
  shows "pump_frame uni des aid orc now (channel_frame content (src @ inbox_fields sender aid mid ts)) p
    = (p, [\<lparr>in_id = mid, in_body = render uni s (text_of (fst (split_agent_preamble des content)))\<rparr>], [])"
  using assms by (cases "split_agent_preamble des content")
    (simp add: channel_body_def inbox_fields_def map_add_def get_i64_def)

lemma callback_body:
  assumes "or_thread orc (agent_thread aid)" "content \<noteq> []" "(case label of Some l \<Rightarrow> ''callback-'' @ l | None \<Rightarrow> ''callback'') \<noteq> aid"
    "label \<noteq> Some []"
  shows "pump_frame uni des aid orc now (callback_frame ts content label aid mid) p
    = (p, [\<lparr>in_id = mid, in_body = render uni (Callback (map_option text_of label)) (text_of (fst (split_agent_preamble des content)))\<rparr>], [])"
  unfolding callback_frame_def
  by (rule inbox_body [OF assms(1,2,3)])
    (use assms(4) in \<open>cases label; auto simp: classify_def stated_thread_def inbox_fields_def given_or_def\<close>)+

lemma reminder_body:
  assumes "or_thread orc (agent_thread aid)" "content \<noteq> []" "''reminder-'' @ dec_int e \<noteq> aid"
  shows "pump_frame uni des aid orc now (reminder_frame ts content e aid mid) p
    = (p, [\<lparr>in_id = mid, in_body = render uni (Reminder (text_of (dec_int e))) (text_of (fst (split_agent_preamble des content)))\<rparr>], [])"
  unfolding reminder_frame_def
  by (rule inbox_body [OF assms(1,2,3)])
    (auto simp: classify_def stated_thread_def inbox_fields_def given_or_def text_field_def)

lemma pool_body:
  assumes "or_thread orc (agent_thread aid)" "content \<noteq> []" "''pool-'' @ pool \<noteq> aid" "call \<noteq> Some []"
  shows "pump_frame uni des aid orc now (pool_frame ts content pool req call aid mid) p
    = (p, [\<lparr>in_id = mid, in_body = render uni (PoolJob (text_of pool) (text_of req) (map_option text_of call))
        (text_of (fst (split_agent_preamble des content)))\<rparr>], [])"
  unfolding pool_frame_def
  by (rule inbox_body [OF assms(1,2,3)])
    (use assms(4) in \<open>cases call; auto simp: classify_def stated_thread_def inbox_fields_def given_or_def text_field_def\<close>)+

lemma starts_with_set: "starts_with s p \<Longrightarrow> set p \<subseteq> set s"
  using set_take_subset [of "length p" s] by (simp add: starts_with_def)

lemma dec_int_plain: "\<not> starts_with (dec_int i) ''agent:''" "\<not> starts_with (dec_int i) ''telegram:''"
proof -
  have "CHR '':'' \<notin> set (dec n)" for n
  proof
    assume "CHR '':'' \<in> set (dec n)"
    then have "of_char CHR '':'' \<in> set (of_str (dec n))" unfolding of_str_def set_map by (rule imageI)
    then show False using dec_codes [of "of_char CHR '':''" n] by simp
  qed
  then have "CHR '':'' \<notin> set (dec_int i)" by (simp add: dec_int_def)
  then show "\<not> starts_with (dec_int i) ''agent:''" "\<not> starts_with (dec_int i) ''telegram:''"
    by (auto dest!: starts_with_set)
qed

lemma telegram_body:
  assumes "i64_min \<le> tm_chat t" "tm_chat t \<le> i64_max" "or_thread orc (''telegram:'' @ dec_int (tm_chat t))" "content \<noteq> []"
  shows "pump_frame uni des aid orc now (telegram_frame content t (Some aid)) p
    = (p, [\<lparr>in_id = tm_message t, in_body = render uni (if tm_voice t then TelegramVoice else Telegram)
        (text_of (fst (split_agent_preamble des content)))\<rparr>], [])"
proof -
  note n = dec_int_plain
  show ?thesis
    unfolding telegram_frame_def pump_channel
    using assms parse_i64_dec_int [OF assms(1,2)] telegram_chat_dec [OF assms(1,2)] n
    by (cases "split_agent_preamble des content"; cases "tm_thread t")
      (simp_all add: channel_body_def classify_def telegram_fields_def json_member_def telegram_source_def get_bool_def get_i64_def map_add_def)
qed

text \<open>The identifier of a session is a UUID: it is none of the names the daemon gives its own senders.\<close>

definition not_a_sender :: "string \<Rightarrow> bool" where
  "not_a_sender aid \<longleftrightarrow> \<not> starts_with aid ''callback'' \<and> \<not> starts_with aid ''reminder-'' \<and> \<not> starts_with aid ''pool-''"

lemma starts_with_append [simp]: "starts_with (p @ s) p"
  by (simp add: starts_with_def)

lemma not_a_sender_neq:
  assumes "not_a_sender aid"
  shows "(case label of Some l \<Rightarrow> ''callback-'' @ l | None \<Rightarrow> ''callback'') \<noteq> aid" "''reminder-'' @ e \<noteq> aid" "''pool-'' @ p \<noteq> aid"
  using assms by (cases label; force simp: not_a_sender_def starts_with_def)+

text \<open>
  C14: What the daemon publishes for a session is what its supervisor types: a message of another session
  under that session's nick and without the line of bookkeeping, a callback under its label, a reminder
  under its entry, a pool job under its request, the operator's words as the operator's; and no other
  session types any of it. Assumed of the JSON printer: it is read back, and writes no line break.
\<close>

theorem frames_read_back:
  assumes des: "des (ser (agent_preamble sender aid mid dr)) = Some (agent_preamble sender aid mid dr)"
    and line: "CHR 0x0A \<notin> set (ser (agent_preamble sender aid mid dr))"
    and own: "or_thread orc (agent_thread aid)" and uuid: "not_a_sender aid"
    and chat: "i64_min \<le> tm_chat t" "tm_chat t \<le> i64_max" "or_thread orc (''telegram:'' @ dec_int (tm_chat t))"
    and some: "content \<noteq> []" "label \<noteq> Some []" "call \<noteq> Some []"
  shows "pump_frame uni des aid orc now (agent_frame ser ts text sender aid mid dr) p
      = (p, [\<lparr>in_id = mid, in_body = render uni (Agent (text_of (or_nick orc sender))) (text_of text)\<rparr>], [])
    \<and> pump_frame uni des aid orc now (callback_frame ts content label aid mid) p
      = (p, [\<lparr>in_id = mid, in_body = render uni (Callback (map_option text_of label)) (text_of (fst (split_agent_preamble des content)))\<rparr>], [])
    \<and> pump_frame uni des aid orc now (reminder_frame ts content e aid mid) p
      = (p, [\<lparr>in_id = mid, in_body = render uni (Reminder (text_of (dec_int e))) (text_of (fst (split_agent_preamble des content)))\<rparr>], [])
    \<and> pump_frame uni des aid orc now (pool_frame ts content pool req call aid mid) p
      = (p, [\<lparr>in_id = mid, in_body = render uni (PoolJob (text_of pool) (text_of req) (map_option text_of call))
            (text_of (fst (split_agent_preamble des content)))\<rparr>], [])
    \<and> pump_frame uni des aid orc now (telegram_frame content t (Some aid)) p
      = (p, [\<lparr>in_id = tm_message t, in_body = render uni (if tm_voice t then TelegramVoice else Telegram)
            (text_of (fst (split_agent_preamble des content)))\<rparr>], [])
    \<and> (\<forall>b orc'. b \<noteq> aid \<longrightarrow>
        (\<forall>f \<in> {agent_frame ser ts text sender aid mid dr, callback_frame ts content label aid mid,
               reminder_frame ts content e aid mid, pool_frame ts content pool req call aid mid,
               telegram_frame content t (Some aid), telegram_frame content t None}.
           pump_frame uni des b orc' now f p = (p, [], [])))"
proof -
  have other: "pump_frame uni des b orc' now f p = (p, [], [])"
    if b: "b \<noteq> aid" and f: "f \<in> {agent_frame ser ts text sender aid mid dr, callback_frame ts content label aid mid,
      reminder_frame ts content e aid mid, pool_frame ts content pool req call aid mid,
      telegram_frame content t (Some aid), telegram_frame content t None}" for b orc' f
    using b f by (auto simp: agent_frame_def callback_frame_def reminder_frame_def pool_frame_def telegram_frame_def
        inbox_fields_def telegram_fields_def json_member_def body_not_ours split: option.split)
  show ?thesis
    by (intro conjI allI impI ballI agent_body [of des ser sender aid mid dr, OF des line own] callback_body [OF own some(1) _ some(2)]
        reminder_body [OF own some(1)] pool_body [OF own some(1) _ some(3)] telegram_body [OF chat some(1)] other
        not_a_sender_neq [OF uuid])
qed

section \<open>From another machine\<close>

text \<open>
  C15: A session whose daemon is on another machine routes as one beside it: asked through the daemon's
  tools, the questions have the answers the registry gives directly. Only the session's own id must not
  be empty.
\<close>

theorem remote_router_agrees:
  assumes "aid \<noteq> []" "i64_min \<le> chat" "chat \<le> i64_max" "\<forall>n. topic = Some n \<longrightarrow> i64_min \<le> n \<and> n \<le> i64_max"
  shows "or_threads (remote_router aid (session_tool kill0 this texts t nm talks)) = or_threads (local_router aid (Some t))
    \<and> or_thread (remote_router aid (session_tool kill0 this texts t nm talks)) = or_thread (local_router aid (Some t))
    \<and> or_topic (remote_router aid (session_tool kill0 this texts t nm talks)) chat topic = or_topic (local_router aid (Some t)) chat topic
    \<and> or_nick (remote_router aid (session_tool kill0 this texts t nm talks)) = or_nick (local_router aid (Some t))"
proof (intro conjI)
  let ?ask = "session_tool kill0 this texts t nm talks"
  have strs: "List.map_filter as_str (map JStr xs) = xs" for xs by (induction xs) (simp_all add: List.map_filter_simps)
  show "or_threads (remote_router aid ?ask) = or_threads (local_router aid (Some t))"
    using assms(1) by (simp add: remote_router_def local_router_def threads_to_subscribe_def session_tool_def need_str_def str_items_def strs)
  have i64: "i64_min \<le> c \<and> c \<le> i64_max" if c: "telegram_chat th = Some c" for th c
  proof -
    obtain s where "parse_i64 s = Some c" using c by (auto simp: telegram_chat_def bind_eq_Some_conv)
    then show ?thesis by (auto simp: parse_i64_def Let_def split: option.splits if_splits)
  qed
  have own: "as_str (jopt JStr x) = x" for x by (cases x) simp_all
  show "or_thread (remote_router aid ?ask) = or_thread (local_router aid (Some t))"
    using assms(1) by (auto simp: remote_router_def local_router_def thread_belongs_to_def session_tool_def need_str_def own
        dest: i64 split: option.split intro!: ext)
  show "or_topic (remote_router aid ?ask) chat topic = or_topic (local_router aid (Some t)) chat topic"
    using assms(2,3,4) by (cases topic) (auto simp: remote_router_def local_router_def routing_belongs_to_def session_tool_def own split: option.split)
  show "or_nick (remote_router aid ?ask) = or_nick (local_router aid (Some t))"
    by (rule ext) (simp add: remote_router_def local_router_def nick_for_def session_tool_def need_str_def own)
qed

section \<open>What a subscription hands over\<close>

lemma length_map_filter: "length (List.map_filter f xs) \<le> length xs"
  by (induction xs) (auto simp: List.map_filter_simps split: option.split)

text \<open>
  However long a chat's backlog has grown, a session that subscribes is handed at most the five newest
  messages of the last ten minutes, in their order, and the count of those kept back is exact.
\<close>

theorem backlog_is_bounded:
  fixes ms :: "backlog_message list"
  shows "(let (kept, left) = bound_backlog ms now in
     length kept \<le> 5 \<and> left + length kept = length ms
     \<and> (\<forall>m \<in> set kept. 0 < bm_created m \<and> now - bm_created m \<le> 600000)
     \<and> (\<exists>older. filter (\<lambda>m. 0 < bm_created m \<and> sat64 (now - bm_created m) \<le> 600000) ms = older @ kept
          \<and> (older \<noteq> [] \<longrightarrow> length kept = 5)))
   \<and> length (deliver_backlog uni des orc response thread now) \<le> 5"
proof -
  define fresh where "fresh xs = filter (\<lambda>m. 0 < bm_created m \<and> sat64 (now - bm_created m) \<le> 600000) xs" for xs :: "backlog_message list"
  define kept where "kept xs = drop (length (fresh xs) - 5) (fresh xs)" for xs :: "backlog_message list"
  have b: "bound_backlog xs now = (kept xs, length xs - length (kept xs))" for xs
    by (simp add: bound_backlog_def backlog_max_messages_def backlog_max_age_ms_def fresh_def kept_def Let_def)
  have len: "length (kept xs) \<le> 5" "length (kept xs) \<le> length xs" for xs
  proof -
    have "length (fresh xs) \<le> length xs" by (simp add: fresh_def)
    then show "length (kept xs) \<le> 5" "length (kept xs) \<le> length xs" by (simp_all add: kept_def)
  qed
  have young: "now - c \<le> 600000" if "sat64 (now - c) \<le> 600000" for c
    using that by (auto simp: sat64_def i64_max_def i64_min_def)
  have sub: "m \<in> set (kept ms) \<Longrightarrow> m \<in> set (fresh ms)" for m by (auto simp: kept_def dest: in_set_dropD)
  have "fresh ms = take (length (fresh ms) - 5) (fresh ms) @ kept ms" by (simp add: kept_def)
  moreover have "take (length (fresh ms) - 5) (fresh ms) \<noteq> [] \<longrightarrow> length (kept ms) = 5" by (auto simp: kept_def)
  ultimately have split: "\<exists>older. fresh ms = older @ kept ms \<and> (older \<noteq> [] \<longrightarrow> length (kept ms) = 5)" by blast
  have "length (deliver_backlog uni des orc response thread now) \<le> 5"
    using len(1) [of "backlog_messages des response"]
    by (auto simp: deliver_backlog_def b Let_def intro: order_trans [OF length_filter_le])
  then show ?thesis using len [of ms] split sub young by (auto simp: b fresh_def)
qed

section \<open>Where the routing is weaker than it says\<close>

text \<open>
  The registry is asked about the session's own row alone, so a chat bound to another session counts as
  bound to nobody: with a readable registry every thread is the session's.
\<close>

lemma every_thread_is_ours: "thread_belongs_to aid thread (Some t)"
  by (auto simp: thread_belongs_to_def chat_bound_to_def find_Some_iff split: option.split)

text \<open>A live Telegram frame prints its topic as text, which the pump reads as a number: it never has one.\<close>

lemma live_topic_is_lost: "get_i64 (JObj (telegram_fields t @ json_member ''target_agent_id'' JStr target)) ''thread_id'' = None"
  by (cases "tm_thread t"; cases target) (auto simp: telegram_fields_def json_member_def get_i64_def map_add_def)

text \<open>A posted message names no recipient, so no session types it, on a session's own thread neither.\<close>

lemma posted_reaches_nobody: "pump_frame uni des aid orc now (posted_frame m) p = (p, [], [])"
  unfolding posted_frame_def pump_channel by (subst body_not_ours) (simp_all add: posted_meta_def json_member_def split: option.split)

text \<open>
  A row of the backlog is typed under the source of its thread, whoever wrote it: what a session answered
  on a Telegram chat comes back as the operator's words, and a callback that waited as a peer's message.
\<close>

lemma backlog_forgets_the_sender:
  assumes "des payload = Some (JObj [(''messages'', JArr [message_json m])])" "0 < cm_created m" "now - cm_created m \<le> 600000"
    "i64_min \<le> cm_created m" "cm_created m \<le> i64_max" "i64_min \<le> now - cm_created m"
    "cm_content m \<noteq> []" "\<not> cm_voice m" "cm_topic m = None" "or_thread orc thread"
  shows "deliver_backlog uni des orc (JObj [(''result'', JObj [(''content'', JArr [JObj [(''type'', JStr ''text''), (''text'', JStr payload)]])])]) thread now
    = [\<lparr>in_id = cm_id m, in_body = render uni (if starts_with thread ''telegram:'' then Telegram else Agent (of_str ''peer'')) (text_of (cm_content m))\<rparr>]"
  using assms by (simp add: deliver_backlog_def bound_backlog_def backlog_messages_def tool_text_def backlog_message_of_def message_json_def
      List.map_filter_simps sat64_def i64_max_def i64_min_def backlog_max_age_ms_def backlog_max_messages_def get_i64_def get_str_def
      split: option.split)

section \<open>At concrete inputs\<close>

definition new_pump :: pump where
  "new_pump = \<lparr>pu_pending = Map.empty, pu_subscribed = [], pu_next = 1\<rparr>"

theorem frames_read_back_witness:
  "pump_frame (\<lambda>_. False) (\<lambda>_. Some (agent_preamble ''b2'' ''a1'' ''m'' False)) ''a1'' (local_router ''a1'' (Some [])) 5
     (agent_frame (\<lambda>_. ''{}'') ''now'' ''hi'' ''b2'' ''a1'' ''m'' False) new_pump
   = (new_pump, [\<lparr>in_id = ''m'', in_body = of_str ''[agent-to-agent:b2]: hi''\<rparr>], [])"
proof -
  have "pump_frame (\<lambda>_. False) (\<lambda>_. Some (agent_preamble ''b2'' ''a1'' ''m'' False)) ''a1'' (local_router ''a1'' (Some [])) 5
     (agent_frame (\<lambda>_. ''{}'') ''now'' ''hi'' ''b2'' ''a1'' ''m'' False) new_pump
   = (new_pump, [\<lparr>in_id = ''m'', in_body = render (\<lambda>_. False) (Agent (text_of (or_nick (local_router ''a1'' (Some [])) ''b2''))) (text_of ''hi'')\<rparr>], [])"
    using frames_read_back [where ser = "\<lambda>_. ''{}''" and des = "\<lambda>_. Some (agent_preamble ''b2'' ''a1'' ''m'' False)" and sender = "''b2''"
        and aid = "''a1''" and mid = "''m''" and dr = False and orc = "local_router ''a1'' (Some [])" and content = "''x''" and label = None and call = None
        and t = "\<lparr>tm_chat = 7, tm_message = ''1'', tm_user = ''u'', tm_user_id = ''2'', tm_ts = ''t'', tm_thread = None, tm_voice = False\<rparr>"]
    by (simp add: local_router_def every_thread_is_ours not_a_sender_def starts_with_def i64_min_def i64_max_def)
  also have "render (\<lambda>_. False) (Agent (text_of (or_nick (local_router ''a1'' (Some [])) ''b2''))) (text_of ''hi'') = of_str ''[agent-to-agent:b2]: hi''"
    by code_simp
  finally show ?thesis .
qed

theorem remote_router_agrees_witness:
  "or_topic (remote_router ''a'' (session_tool (\<lambda>_. True) ''h'' (\<lambda>_ _. None) (fst two_agents) [] [])) 7 None
     = or_topic (local_router ''a'' (Some (fst two_agents))) 7 None
   \<and> or_nick (remote_router ''a'' (session_tool (\<lambda>_. True) ''h'' (\<lambda>_ _. None) (fst two_agents) [] [])) ''b'' = ''y''"
proof -
  note agree = remote_router_agrees [of "''a''" 7 None "\<lambda>_. True" "''h''" "\<lambda>_ _. None" "fst two_agents" "[]" "[]"]
  have "or_nick (local_router ''a'' (Some (fst two_agents))) ''b'' = ''y''" by code_simp
  then show ?thesis using agree by (simp add: i64_min_def i64_max_def)
qed

theorem backlog_is_bounded_witness:
  "length (fst (bound_backlog (map (\<lambda>n. \<lparr>bm_id = ''m'', bm_content = ''x'', bm_created = n, bm_topic = None, bm_voice = False\<rparr>) [1..9]) 100)) \<le> 5
   \<and> map bm_created (fst (bound_backlog (map (\<lambda>n. \<lparr>bm_id = ''m'', bm_content = ''x'', bm_created = n, bm_topic = None, bm_voice = False\<rparr>) [1..9]) 100)) = [5, 6, 7, 8, 9]"
proof
  let ?ms = "map (\<lambda>n. \<lparr>bm_id = ''m'', bm_content = ''x'', bm_created = n, bm_topic = None, bm_voice = False\<rparr>) [1..9]"
  show "length (fst (bound_backlog ?ms 100)) \<le> 5"
    using backlog_is_bounded [of ?ms 100] by (simp add: case_prod_beta Let_def)
  show "map bm_created (fst (bound_backlog ?ms 100)) = [5, 6, 7, 8, 9]" by code_simp
qed

end
