(* ===== verification/Callback.thy ===== *)
theory Callback
  imports Subscribe
begin

text \<open>
  Messages from outside (\<open>daemon/callback.rs\<close>, \<open>daemon/agent_socket.rs\<close>): the token of a nick and its
  file, a request's target and label, the sanitisers, authorisation and delivery, and the socket of every
  live session. Random tokens, SHA-256, the Unicode class of letters and digits (\<open>uni\<close>), the JSON reader
  (\<open>des\<close>) and the printed time are arguments.

  What is proved: only the token in force for a session's nick gets a message into it, whole and under
  the label it was sent with, and nothing in it steers the terminal; the table of tokens and the files
  that mirror it stay equal; the sockets follow the registry.
\<close>

section \<open>Tokens\<close>

record callback_row =
  ct_nick :: string
  ct_token :: string
  ct_label :: "string option"
  ct_created :: int

text \<open>The table and the directory \<open>~/.claude/callback-tokens\<close>.\<close>

record token_store =
  ct_rows :: "callback_row rows"
  ct_files :: "string \<rightharpoonup> string"

definition fingerprint :: "(string \<Rightarrow> string) \<Rightarrow> string \<Rightarrow> string" where
  "fingerprint sha token = take 8 (sha token)"

definition path_safe :: "string \<Rightarrow> bool" where
  "path_safe nick \<longleftrightarrow> nick \<noteq> [] \<and> CHR ''/'' \<notin> set nick \<and> CHR 0x5C \<notin> set nick \<and> \<not> contains ''..'' nick"

definition write_token_file :: "string \<Rightarrow> string \<Rightarrow> token_store \<Rightarrow> token_store" where
  "write_token_file nick token s = (if path_safe nick then s\<lparr>ct_files := (ct_files s)(nick \<mapsto> token)\<rparr> else s)"

definition token_for :: "string \<Rightarrow> token_store \<Rightarrow> string option" where
  "token_for nick s = map_option ct_token (row_of ct_nick nick (ct_rows s))"

definition minted :: "string \<Rightarrow> string \<Rightarrow> int \<Rightarrow> callback_row" where
  "minted nick token now = \<lparr>ct_nick = nick, ct_token = token, ct_label = None, ct_created = now\<rparr>"

definition ensure_token :: "string \<Rightarrow> string \<Rightarrow> int \<Rightarrow> token_store \<Rightarrow> token_store \<times> string" where
  "ensure_token raw nick now s =
     (case token_for nick s of Some t \<Rightarrow> (s, t)
      | None \<Rightarrow>
        let s1 = s\<lparr>ct_rows := ins_ignore ct_nick (minted nick raw now) (ct_rows s)\<rparr>;
            stored = given_or raw (token_for nick s1)
        in (write_token_file nick stored s1, stored))"

definition rotate_token :: "string \<Rightarrow> string \<Rightarrow> int \<Rightarrow> token_store \<Rightarrow> token_store \<times> string" where
  "rotate_token raw nick now s =
     (write_token_file nick raw (s\<lparr>ct_rows := upsert ct_nick (minted nick raw now)
        (\<lambda>r. r\<lparr>ct_token := raw, ct_created := now\<rparr>) (ct_rows s)\<rparr>), raw)"

text \<open>\<open>UPDATE OR REPLACE\<close>: the row that has the new nick goes.\<close>

definition move_token :: "string \<Rightarrow> string \<Rightarrow> callback_row rows \<Rightarrow> callback_row rows" where
  "move_token old new t =
     (if old \<in> ct_nick ` set t \<and> old \<noteq> new
      then upd_where (\<lambda>r. ct_nick r = old) (\<lambda>r. r\<lparr>ct_nick := new\<rparr>) (del_where (\<lambda>r. ct_nick r = new) t) else t)"

definition rename_token :: "string \<Rightarrow> string \<Rightarrow> token_store \<Rightarrow> token_store \<times> nat" where
  "rename_token old new s =
     (let moved = count_where (\<lambda>r. ct_nick r = old) (ct_rows s);
          s1 = s\<lparr>ct_rows := move_token old new (ct_rows s)\<rparr>
      in if moved = 0 then (s1, 0)
         else let s2 = (case token_for new s1 of Some t \<Rightarrow> write_token_file new t s1 | None \<Rightarrow> s1)
              in (s2\<lparr>ct_files := (ct_files s2)(old := None)\<rparr>, moved))"

definition bytes8 :: "string \<Rightarrow> u8 list" where
  "bytes8 s = map (\<lambda>c. word_of_nat (of_char c)) s"

definition tokens_match :: "string \<Rightarrow> string \<Rightarrow> bool" where
  "tokens_match a b =
     (let a = bytes8 a; b = bytes8 b in
      if length a \<noteq> length b then False
      else foldl (\<lambda>diff (x, y). or diff (xor x y)) 0 (zip a b) = 0)"

section \<open>The request\<close>

record callback_request =
  cq_target :: utext
  cq_label :: "utext option"
  cq_token :: "utext option"

definition sanitize_label :: "(nat \<Rightarrow> bool) \<Rightarrow> utext \<Rightarrow> utext option" where
  "sanitize_label uni raw =
     (let cleaned = sanitize_nick uni raw in
      if cleaned = of_str ''unknown'' \<and> list_all (\<lambda>c. \<not> is_alnum uni c) raw then None else Some cleaned)"

definition hex_value :: "nat \<Rightarrow> nat option" where
  "hex_value c =
     (if is_ascii_digit c then Some (c - 48)
      else if 97 \<le> c \<and> c \<le> 102 then Some (c - 87)
      else if 65 \<le> c \<and> c \<le> 70 then Some (c - 55) else None)"

fun percent_bytes :: "nat list \<Rightarrow> nat list" where
  "percent_bytes [] = []"
| "percent_bytes (b # bs) =
     (if b = 37 \<and> 2 \<le> length bs
      then (case (hex_value (bs ! 0), hex_value (bs ! 1)) of
              (Some h, Some l) \<Rightarrow> (h * 16 + l) # percent_bytes (drop 2 bs)
            | _ \<Rightarrow> b # percent_bytes bs)
      else if b = 43 then 32 # percent_bytes bs
      else b # percent_bytes bs)"

definition percent_decode :: "utext \<Rightarrow> utext" where
  "percent_decode t = utf8_lossy (percent_bytes (utf8_encode t))"

definition label_of :: "(nat \<Rightarrow> bool) \<Rightarrow> utext \<Rightarrow> utext option" where
  "label_of uni query =
     (case List.map_filter (strip_prefix (of_str ''label='')) (split_by (\<lambda>c. c = 38) query) of
        [] \<Rightarrow> None
      | v # _ \<Rightarrow> let l = percent_decode v in if l = [] then None else sanitize_label uni l)"

definition parse_target :: "(nat \<Rightarrow> bool) \<Rightarrow> utext \<Rightarrow> (utext \<times> utext option) option" where
  "parse_target uni pq =
     (let (path, query) = (case split_once 63 pq of Some (p, q) \<Rightarrow> (p, Some q) | None \<Rightarrow> (pq, None)) in
      case map_option (trim_matches (\<lambda>c. c = 47)) (strip_prefix (of_str ''/callback/'') path) of
        None \<Rightarrow> None
      | Some target \<Rightarrow>
        if target = [] \<or> 47 \<in> set target then None
        else Some (percent_decode target, Option.bind query (label_of uni)))"

definition sanitize_body :: "utext \<Rightarrow> utext" where
  "sanitize_body = filter (\<lambda>c. c = 10 \<or> c = 9 \<or> \<not> is_control c)"

definition extract_text :: "(string \<Rightarrow> json option) \<Rightarrow> utext \<Rightarrow> utext" where
  "extract_text des body =
     (let trimmed = dropWhile is_white body in
      if trimmed \<noteq> [] \<and> hd trimmed = 123
      then (case Option.bind (des (bytes_of trimmed)) (\<lambda>v. get_str v ''text'') of Some t \<Rightarrow> text_of t | None \<Rightarrow> body)
      else body)"

section \<open>Authorisation and delivery\<close>

datatype callback_error =
    EmptyBody | Unresolved reg_error | NoRow | NoTokenIssued string | Unauthorized | NotStored reg_error

datatype callback_outcome = Queued string string nat | Rejected callback_error

definition callback_json :: "(callback_error \<Rightarrow> string) \<Rightarrow> callback_outcome \<Rightarrow> json" where
  "callback_json say r =
     (case r of
        Queued mid target n \<Rightarrow> JObj [(''ok'', JBool True), (''delivery'', JStr (if 0 < n then ''delivered'' else ''queued'')),
          (''message_id'', JStr mid), (''target'', JStr target)]
      | Rejected e \<Rightarrow> JObj [(''ok'', JBool False), (''error'', JStr (say e)), (''candidates'', JArr [])])"

definition callback_resolve :: "utext \<Rightarrow> utext option \<Rightarrow> agent_row rows \<Rightarrow> token_store \<Rightarrow> callback_error + string \<times> string" where
  "callback_resolve target token reg s =
     (case resolve_target (bytes_of target) reg of Inl e \<Rightarrow> Inl (Unresolved e)
      | Inr aid \<Rightarrow>
        case nick_of aid reg of None \<Rightarrow> Inl NoRow
        | Some nick \<Rightarrow>
          case token_for nick s of None \<Rightarrow> Inl (NoTokenIssued nick)
          | Some expected \<Rightarrow>
            if tokens_match expected (bytes_of (given_or [] token)) then Inr (aid, nick) else Inl Unauthorized)"

text \<open>
  What is published is the frame and who holds a subscription. \<open>reg\<close> is the registry when the message
  is stored, which may differ from the one the request was authorised on.
\<close>

definition deliver_resolved ::
  "string \<Rightarrow> string \<Rightarrow> int \<Rightarrow> agent_row rows \<Rightarrow> 'c bus \<Rightarrow> string \<Rightarrow> string \<Rightarrow> utext \<Rightarrow> utext option \<Rightarrow> chat_db
     \<Rightarrow> chat_db \<times> ('c \<times> json) list \<times> callback_outcome" where
  "deliver_resolved ts mid now reg bus aid nick body label d =
     (let sender = (case label of Some l \<Rightarrow> ''callback:'' @ bytes_of l | None \<Rightarrow> ''callback'') in
      case send_message mid sender aid (bytes_of body) now reg d of
        Inl e \<Rightarrow> (d, [], Rejected (NotStored e))
      | Inr (d', i, _) \<Rightarrow>
        let frame = callback_frame ts (bytes_of body) (map_option bytes_of label) aid i;
            sent = map (\<lambda>c. (c, frame)) (bus_publish (agent_thread aid) bus)
        in (d', sent, Queued i nick (length sent)))"

definition callback_dispatch ::
  "string \<Rightarrow> string \<Rightarrow> int \<Rightarrow> agent_row rows \<Rightarrow> agent_row rows \<Rightarrow> token_store \<Rightarrow> 'c bus \<Rightarrow> callback_request \<Rightarrow> utext \<Rightarrow> chat_db
     \<Rightarrow> chat_db \<times> ('c \<times> json) list \<times> callback_outcome" where
  "callback_dispatch ts mid now reg0 reg s bus req raw d =
     (let body = sanitize_body raw in
      if trim body = [] then (d, [], Rejected EmptyBody)
      else case callback_resolve (cq_target req) (cq_token req) reg0 s of
        Inl e \<Rightarrow> (d, [], Rejected e)
      | Inr (aid, nick) \<Rightarrow> deliver_resolved ts mid now reg bus aid nick body (cq_label req) d)"

definition callback_deliver ::
  "string \<Rightarrow> string \<Rightarrow> int \<Rightarrow> agent_row rows \<Rightarrow> agent_row rows \<Rightarrow> 'c bus \<Rightarrow> string \<Rightarrow> utext \<Rightarrow> utext option \<Rightarrow> chat_db
     \<Rightarrow> chat_db \<times> ('c \<times> json) list \<times> callback_outcome" where
  "callback_deliver ts mid now reg0 reg bus nick text label d =
     (case resolve_target nick reg0 of Inl e \<Rightarrow> (d, [], Rejected (Unresolved e))
      | Inr aid \<Rightarrow> deliver_resolved ts mid now reg bus aid nick text label d)"

section \<open>The sockets of the sessions\<close>

definition socket_max_body :: nat where "socket_max_body = 64 * 1024"

definition socket_path :: "string \<Rightarrow> string option" where
  "socket_path nick = (if path_safe nick then Some (nick @ ''.sock'') else None)"

definition live_nicks :: "agent_row rows \<Rightarrow> string list" where
  "live_nicks t = remdups (map ar_name (filter (\<lambda>r. alive r \<and> ar_name r \<noteq> []) t))"

text \<open>The nicks listened for and the files of the directory; \<open>binds\<close> tells whether a socket can be bound.\<close>

record sockets =
  so_listening :: "string list"
  so_files :: "string list"

definition spawn_listener :: "(string \<Rightarrow> bool) \<Rightarrow> string \<Rightarrow> sockets \<Rightarrow> sockets" where
  "spawn_listener binds nick s =
     (case socket_path nick of None \<Rightarrow> s
      | Some p \<Rightarrow>
        let left = filter (\<lambda>f. f \<noteq> p) (so_files s) in
        if binds p then s\<lparr>so_listening := nick # so_listening s, so_files := p # left\<rparr> else s\<lparr>so_files := left\<rparr>)"

definition drop_listener :: "string \<Rightarrow> sockets \<Rightarrow> sockets" where
  "drop_listener nick s =
     s\<lparr>so_listening := removeAll nick (so_listening s),
       so_files := (case socket_path nick of None \<Rightarrow> so_files s | Some p \<Rightarrow> filter (\<lambda>f. f \<noteq> p) (so_files s))\<rparr>"

definition reconcile :: "(string \<Rightarrow> bool) \<Rightarrow> agent_row rows \<Rightarrow> sockets \<Rightarrow> sockets" where
  "reconcile binds t s =
     (let nicks = live_nicks t;
          s1 = fold (\<lambda>n s. if n \<in> set (so_listening s) then s else spawn_listener binds n s) nicks s
      in fold drop_listener (filter (\<lambda>n. n \<notin> set nicks) (so_listening s1)) s1)"

text \<open>One connection is one message: it ends when the writer closes, or at the bound.\<close>

fun read_message :: "nat list \<Rightarrow> nat list list \<Rightarrow> nat list" where
  "read_message buf [] = buf"
| "read_message buf (c # cs) =
     (if c = [] then buf
      else let b = buf @ c in if socket_max_body < length b then take socket_max_body b else read_message b cs)"

definition parse_payload :: "(nat \<Rightarrow> bool) \<Rightarrow> (string \<Rightarrow> json option) \<Rightarrow> utext \<Rightarrow> utext \<times> utext option" where
  "parse_payload uni des raw =
     (let trimmed = dropWhile is_white raw in
      if trimmed \<noteq> [] \<and> hd trimmed = 123
      then (case des (bytes_of trimmed) of None \<Rightarrow> (raw, None)
        | Some v \<Rightarrow>
          case get_str v ''text'' of None \<Rightarrow> (raw, None)
          | Some t \<Rightarrow> (text_of t, Option.bind (get_str v ''label'') (\<lambda>l. sanitize_label uni (text_of l))))
      else (raw, None))"

definition handle_one ::
  "(nat \<Rightarrow> bool) \<Rightarrow> (string \<Rightarrow> json option) \<Rightarrow> string \<Rightarrow> string \<Rightarrow> int \<Rightarrow> agent_row rows \<Rightarrow> agent_row rows \<Rightarrow> 'c bus \<Rightarrow> string
     \<Rightarrow> nat list list \<Rightarrow> chat_db \<Rightarrow> chat_db \<times> ('c \<times> json) list \<times> callback_outcome" where
  "handle_one uni des ts mid now reg0 reg bus nick reads d =
     (let (text, label) = parse_payload uni des (utf8_lossy (read_message [] reads));
          text = trim_end 10 (sanitize_body text)
      in if trim text = [] then (d, [], Rejected EmptyBody)
         else callback_deliver ts mid now reg0 reg bus nick text label d)"

section \<open>Comparing in constant time\<close>

lemma or_eq_0: "or x y = 0 \<longleftrightarrow> x = 0 \<and> y = 0" for x y :: u8
  by (metis or.right_neutral or_eq_0_iff)

lemma xor_eq_0: "xor x y = 0 \<longleftrightarrow> x = y" for x y :: u8
  by (auto simp: bit_eq_iff bit_xor_iff)

lemma fold_diff: "foldl (\<lambda>diff (x, y). or diff (xor x y)) (d :: u8) ps = 0 \<longleftrightarrow> d = 0 \<and> (\<forall>(x, y) \<in> set ps. x = y)"
  by (induction ps arbitrary: d) (auto simp: or_eq_0 xor_eq_0)

lemma bytes8_inj: "bytes8 a = bytes8 b \<Longrightarrow> a = b"
proof -
  assume "bytes8 a = bytes8 b"
  moreover have "inj (\<lambda>c :: char. word_of_nat (of_char c) :: u8)"
  proof (rule injI)
    fix c d :: char assume "(word_of_nat (of_char c) :: u8) = word_of_nat (of_char d)"
    then have "(of_char c :: nat) mod 256 = of_char d mod 256" by (simp add: word_of_nat_eq_iff take_bit_eq_mod)
    then show "c = d" by simp
  qed
  ultimately show ?thesis by (simp add: bytes8_def inj_map_eq_map)
qed

text \<open>
  The loop that ORs the differences of all bytes answers what an equality test answers.
\<close>

theorem constant_time_is_equality: "tokens_match a b \<longleftrightarrow> a = b"
proof -
  have "tokens_match a b \<longleftrightarrow> length (bytes8 a) = length (bytes8 b) \<and> (\<forall>(x, y) \<in> set (zip (bytes8 a) (bytes8 b)). x = y)"
    by (simp add: tokens_match_def Let_def fold_diff)
  also have "\<dots> \<longleftrightarrow> bytes8 a = bytes8 b" by (simp add: list_eq_iff_zip_eq)
  finally show ?thesis using bytes8_inj by blast
qed

section \<open>A token follows its nick\<close>

datatype callback_op = Ensure string string int | Rotate string string int | Move string string

text \<open>The daemon moves a token only when the nick changed.\<close>

fun callback_step :: "callback_op \<Rightarrow> token_store \<Rightarrow> token_store" where
  "callback_step (Ensure raw n now) s = fst (ensure_token raw n now s)"
| "callback_step (Rotate raw n now) s = fst (rotate_token raw n now s)"
| "callback_step (Move old new) s = (if old = new then s else fst (rename_token old new s))"

fun tokens_step :: "callback_op \<Rightarrow> (string \<rightharpoonup> string) \<Rightarrow> string \<rightharpoonup> string" where
  "tokens_step (Ensure raw n now) m = (if m n = None then m(n \<mapsto> raw) else m)"
| "tokens_step (Rotate raw n now) m = m(n \<mapsto> raw)"
| "tokens_step (Move old new) m = (if old = new \<or> m old = None then m else m(new := m old, old := None))"

definition no_tokens :: token_store where
  "no_tokens = \<lparr>ct_rows = [], ct_files = Map.empty\<rparr>"

definition mirrored :: "token_store \<Rightarrow> bool" where
  "mirrored s \<longleftrightarrow> pk ct_nick (ct_rows s) \<and> (\<forall>n. ct_files s n = (if path_safe n then token_for n s else None))"

lemma token_for_write [simp]: "token_for n (write_token_file m t s) = token_for n s"
  by (simp add: write_token_file_def token_for_def)

lemma token_for_files [simp]: "token_for n (s\<lparr>ct_files := f\<rparr>) = token_for n s"
  by (simp add: token_for_def)

lemma rows_write [simp]: "ct_rows (write_token_file m t s) = ct_rows s"
  by (simp add: write_token_file_def)

lemma files_write: "ct_files (write_token_file m t s) = (if path_safe m then (ct_files s)(m \<mapsto> t) else ct_files s)"
  by (simp add: write_token_file_def)

lemma token_none: "token_for n s = None \<longleftrightarrow> n \<notin> ct_nick ` set (ct_rows s)"
  by (simp add: token_for_def row_of_None)

lemma move_token_rows:
  assumes "pk ct_nick t" "old \<noteq> new" "old \<in> ct_nick ` set t"
  shows "pk ct_nick (move_token old new t)"
    and "map_option ct_token (row_of ct_nick n (move_token old new t))
      = (if n = new then map_option ct_token (row_of ct_nick old t) else if n = old then None else map_option ct_token (row_of ct_nick n t))"
proof -
  define u where "u = del_where (\<lambda>r. ct_nick r = new) t"
  have u: "pk ct_nick u" "new \<notin> ct_nick ` set u" using assms(1) by (auto simp: u_def pk_del_where set_del_where)
  have m: "move_token old new t = upd_where (\<lambda>r. ct_nick r = old) (\<lambda>r. r\<lparr>ct_nick := new\<rparr>) u"
    using assms by (simp add: move_token_def u_def)
  have "map ct_nick (upd_where (\<lambda>r. ct_nick r = old) (\<lambda>r. r\<lparr>ct_nick := new\<rparr>) u) = map (\<lambda>n. if n = old then new else n) (map ct_nick u)"
    by (induction u) auto
  moreover have "inj_on (\<lambda>n. if n = old then new else n) (ct_nick ` set u)" using u(2) by (auto simp: inj_on_def)
  ultimately show "pk ct_nick (move_token old new t)" unfolding m pk_def using u(1) by (auto simp: pk_def distinct_map intro: comp_inj_on)
  have "map_option ct_token (row_of ct_nick n (upd_where (\<lambda>r. ct_nick r = old) (\<lambda>r. r\<lparr>ct_nick := new\<rparr>) u))
      = (if n = new then map_option ct_token (row_of ct_nick old u) else if n = old then None else map_option ct_token (row_of ct_nick n u))"
    using u(2) assms(2) by (induction u) auto
  then show "map_option ct_token (row_of ct_nick n (move_token old new t))
      = (if n = new then map_option ct_token (row_of ct_nick old t) else if n = old then None else map_option ct_token (row_of ct_nick n t))"
    unfolding m using assms(2) by (simp add: u_def row_of_del_key)
qed

lemma ensure_refines:
  assumes "mirrored s"
  shows "mirrored (callback_step (Ensure raw n now) s) \<and> (\<forall>k. token_for k (callback_step (Ensure raw n now) s) = tokens_step (Ensure raw n now) (\<lambda>k. token_for k s) k)"
proof (cases "token_for n s")
  case None
  then have "n \<notin> ct_nick ` set (ct_rows s)" by (simp add: token_none)
  moreover from this have r: "row_of ct_nick n (ct_rows s) = None" by (simp add: row_of_None)
  ultimately show ?thesis using assms None
    by (auto simp: ensure_token_def mirrored_def Let_def files_write ins_ignore_def minted_def token_for_def row_of_append pk_snoc split: option.splits)
qed (simp add: ensure_token_def assms)

lemma rotate_refines:
  assumes "mirrored s"
  shows "mirrored (callback_step (Rotate raw n now) s) \<and> (\<forall>k. token_for k (callback_step (Rotate raw n now) s) = tokens_step (Rotate raw n now) (\<lambda>k. token_for k s) k)"
proof -
  let ?s = "s\<lparr>ct_rows := upsert ct_nick (minted n raw now) (\<lambda>r. r\<lparr>ct_token := raw, ct_created := now\<rparr>) (ct_rows s)\<rparr>"
  have "token_for k ?s = (if k = n then Some raw else token_for k s)" for k
    by (simp add: token_for_def row_of_upsert minted_def split: option.split)
  moreover have "pk ct_nick (ct_rows ?s)" using assms by (simp add: mirrored_def pk_upsert)
  ultimately show ?thesis using assms by (simp add: rotate_token_def mirrored_def files_write)
qed

lemma move_refines:
  assumes "mirrored s"
  shows "mirrored (callback_step (Move old new) s) \<and> (\<forall>k. token_for k (callback_step (Move old new) s) = tokens_step (Move old new) (\<lambda>k. token_for k s) k)"
proof (cases "old = new \<or> token_for old s = None")
  case True
  then have "old = new \<or> (count_where (\<lambda>r. ct_nick r = old) (ct_rows s) = 0 \<and> move_token old new (ct_rows s) = ct_rows s)"
    by (auto simp: token_none count_where_def filter_empty_conv move_token_def)
  then show ?thesis using True assms by (auto simp: rename_token_def)
next
  case False
  let ?s = "s\<lparr>ct_rows := move_token old new (ct_rows s)\<rparr>"
  have there: "old \<in> ct_nick ` set (ct_rows s)" using False by (simp add: token_none)
  have pk: "pk ct_nick (ct_rows s)" using assms by (simp add: mirrored_def)
  have tok: "token_for k ?s = (if k = new then token_for old s else if k = old then None else token_for k s)" for k
    using move_token_rows(2) [OF pk _ there, of new k] False by (simp add: token_for_def)
  have "count_where (\<lambda>r. ct_nick r = old) (ct_rows s) \<noteq> 0" using there by (auto simp: count_where_def filter_empty_conv)
  then show ?thesis using False assms tok move_token_rows(1) [OF pk _ there, of new]
    by (auto simp: rename_token_def mirrored_def files_write Let_def fun_upd_def split: option.splits)
qed

lemma step_refines:
  assumes "mirrored s"
  shows "mirrored (callback_step op s) \<and> (\<lambda>k. token_for k (callback_step op s)) = tokens_step op (\<lambda>k. token_for k s)"
  using ensure_refines [OF assms] rotate_refines [OF assms] move_refines [OF assms] by (cases op) (blast intro: ext)+

interpretation callback_tokens: transition_system "\<lambda>s. s = no_tokens" "\<lambda>s s'. \<exists>op. s' = callback_step op s" mirrored
proof unfold_locales
  show "s = no_tokens \<Longrightarrow> mirrored s" for s by (simp add: no_tokens_def mirrored_def pk_def token_for_def)
qed (use step_refines in blast)

text \<open>
  C13: Whatever sessions register, rotate and rename, the table of tokens is one token per nick that moves
  with the nick, is minted once and dies on rotation, and the directory scripts read holds exactly the
  tokens of the table, under every nick that is a file name.
\<close>

theorem tokens_follow_their_nick:
  "token_for n (fold callback_step ops no_tokens) = fold tokens_step ops Map.empty n
   \<and> ct_files (fold callback_step ops no_tokens) n = (if path_safe n then fold tokens_step ops Map.empty n else None)"
proof -
  have "(\<lambda>s s'. \<exists>op. s' = callback_step op s)\<^sup>*\<^sup>* s (fold callback_step ops s)" for s
    by (induction ops arbitrary: s) (auto intro: converse_rtranclp_into_rtranclp)
  then have "mirrored (fold callback_step ops no_tokens)" using callback_tokens.reachable_inv [OF refl] by blast
  moreover have "(\<lambda>k. token_for k (fold callback_step ops s)) = fold tokens_step ops (\<lambda>k. token_for k s)" if "mirrored s" for s
    using that by (induction ops arbitrary: s) (simp_all add: step_refines)
  from this [of no_tokens] have "(\<lambda>k. token_for k (fold callback_step ops no_tokens)) = fold tokens_step ops Map.empty"
    by (simp add: mirrored_def no_tokens_def pk_def token_for_def)
  ultimately show ?thesis by (simp add: mirrored_def fun_eq_iff)
qed

section \<open>Only with the token\<close>

lemma nick_of_Some: "nick_of aid t = Some n \<Longrightarrow> \<exists>r \<in> set t. ar_id r = aid \<and> ar_name r = n"
  by (auto simp: nick_of_def dest: row_of_Some)

lemma send_message_Inr:
  assumes "send_message i sender target content now reg d = Inr (d', j, w)"
  shows "j = i \<and> d' = d\<lparr>messages := messages d @ [\<lparr>cm_id = i, cm_thread = agent_thread target, cm_from = sender, cm_content = content,
      cm_reply = None, cm_created = now, cm_delivered = None, cm_voice = False, cm_topic = None\<rparr>]\<rparr>"
  using assms by (auto simp: send_message_def Let_def split: option.splits if_splits)

lemma resolve_authorised:
  "callback_resolve target token reg s = Inr (aid, nick) \<longleftrightarrow>
     resolve_target (bytes_of target) reg = Inr aid \<and> nick_of aid reg = Some nick
     \<and> token_for nick s = Some (bytes_of (given_or [] token))"
  by (auto simp: callback_resolve_def constant_time_is_equality split: sum.splits option.splits if_splits)

definition callback_sender :: "utext option \<Rightarrow> string" where
  "callback_sender label = (case label of Some l \<Rightarrow> ''callback:'' @ bytes_of l | None \<Rightarrow> ''callback'')"

text \<open>
  C11: A callback writes into a session only with the token in force for the nick of the session it names,
  and then exactly one message: in that session's thread, from the label, the text without what would
  steer a terminal, to the subscribers of that thread and no other; every refusal leaves the store and
  the bus alone; and with the right token a request for a live session is refused only for an empty text.
\<close>

theorem callback_needs_its_token:
  "case callback_dispatch ts mid now reg0 reg s bus req raw d of (d', sent, out) \<Rightarrow>
     (case out of
        Queued i nick n \<Rightarrow>
          (\<exists>aid. resolve_target (bytes_of (cq_target req)) reg0 = Inr aid \<and> nick_of aid reg0 = Some nick
             \<and> token_for nick s = Some (bytes_of (given_or [] (cq_token req)))
             \<and> i = mid \<and> n = length sent \<and> threads d' = threads d
             \<and> (\<exists>m. messages d' = messages d @ [m] \<and> cm_id m = mid \<and> cm_thread m = agent_thread aid
                  \<and> cm_from m = callback_sender (cq_label req) \<and> cm_content m = bytes_of (sanitize_body raw))
             \<and> map fst sent = bus_publish (agent_thread aid) bus
             \<and> (\<forall>(c, f) \<in> set sent. f = callback_frame ts (bytes_of (sanitize_body raw)) (map_option bytes_of (cq_label req)) aid mid))
      | Rejected e \<Rightarrow> d' = d \<and> sent = []
          \<and> (\<forall>aid nick. trim (sanitize_body raw) \<noteq> [] \<longrightarrow> resolve_target (bytes_of (cq_target req)) reg0 = Inr aid
               \<longrightarrow> nick_of aid reg0 = Some nick \<longrightarrow> token_for nick s = Some (bytes_of (given_or [] (cq_token req)))
               \<longrightarrow> (\<exists>r. row_of ar_id aid reg = Some r \<and> ar_state r = Alive) \<longrightarrow> mid \<in> cm_id ` set (messages d)))"
proof (cases "trim (sanitize_body raw) = []")
  case False
  show ?thesis
  proof (cases "callback_resolve (cq_target req) (cq_token req) reg0 s")
    case (Inl e)
    then have "\<not> (resolve_target (bytes_of (cq_target req)) reg0 = Inr aid \<and> nick_of aid reg0 = Some nick
      \<and> token_for nick s = Some (bytes_of (given_or [] (cq_token req))))" for aid nick
      using resolve_authorised [of "cq_target req" "cq_token req" reg0 s aid nick] by simp
    then show ?thesis using False Inl by (auto simp: callback_dispatch_def)
  next
    case (Inr p)
    obtain aid nick where p: "p = (aid, nick)" by (cases p)
    have ok: "resolve_target (bytes_of (cq_target req)) reg0 = Inr aid" "nick_of aid reg0 = Some nick"
      "token_for nick s = Some (bytes_of (given_or [] (cq_token req)))" using Inr unfolding p resolve_authorised by auto
    show ?thesis
    proof (cases "send_message mid (callback_sender (cq_label req)) aid (bytes_of (sanitize_body raw)) now reg d")
      case (Inl e)
      then show ?thesis using False Inr ok
        by (auto simp: callback_dispatch_def deliver_resolved_def p callback_sender_def Let_def send_message_def split: option.splits if_splits)
    next
      case I: (Inr q)
      obtain d' j dn where q: "q = (d', j, dn)" by (cases q) auto
      then show ?thesis using False Inr ok I send_message_Inr [OF I [unfolded q]]
        by (auto simp: callback_dispatch_def deliver_resolved_def p callback_sender_def [symmetric] Let_def comp_def)
    qed
  qed
qed (simp add: callback_dispatch_def)

text \<open>
  A callback is published at once to a session in do-not-disturb, where a peer's message waits.
\<close>

lemma callback_ignores_dnd:
  assumes "send_message mid (callback_sender label) aid (bytes_of body) now reg d = Inr (d', i, Queue till)"
  shows "deliver_resolved ts mid now reg bus aid nick body label d
    = (d', map (\<lambda>c. (c, callback_frame ts (bytes_of body) (map_option bytes_of label) aid i)) (bus_publish (agent_thread aid) bus),
       Queued i nick (length (bus_publish (agent_thread aid) bus)))"
  using assms by (simp add: deliver_resolved_def callback_sender_def [symmetric])

section \<open>What is typed\<close>

lemma split_str_Some: "split_str p t = Some (a, b) \<Longrightarrow> t = a @ p @ b"
  by (induction p t arbitrary: a rule: split_str.induct) (auto simp: strip_prefix_iff split: if_splits option.splits)

lemma utf8_line: "utf8_encode t = h @ 10 # r \<Longrightarrow> list_all is_scalar t \<Longrightarrow> \<exists>t1 t2. t = t1 @ 10 # t2 \<and> r = utf8_encode t2"
proof (induction t arbitrary: h)
  case (Cons c t)
  show ?case
  proof (cases "length h < length (utf8_char c)")
    case True
    have "utf8_char c @ utf8_encode t = h @ 10 # r" using Cons.prems(1) by (simp add: utf8_encode_def)
    then have "10 \<in> set (utf8_char c)" using True by (metis nth_append nth_append_length nth_mem)
    then have "c = 10" by (auto simp: utf8_char_def split: if_splits)
    then have "c # t = [] @ 10 # t" "r = utf8_encode t" using Cons.prems(1) True by (simp_all add: utf8_encode_def utf8_char_def)
    then show ?thesis by blast
  next
    case False
    then obtain h' where "h = utf8_char c @ h'"
      using Cons.prems(1) by (auto simp: utf8_encode_def append_eq_append_conv2)
    then have "utf8_encode t = h' @ 10 # r" using Cons.prems(1) by (simp add: utf8_encode_def)
    then obtain t1 t2 where "t = t1 @ 10 # t2 \<and> r = utf8_encode t2" using Cons.IH Cons.prems(2) by auto
    then have "c # t = (c # t1) @ 10 # t2 \<and> r = utf8_encode t2" by simp
    then show ?thesis by blast
  qed
qed (simp add: utf8_encode_def)

lemma text_after_line:
  assumes "bytes_of t = h @ [CHR 0x0A] @ r" "list_all is_scalar t"
  shows "\<exists>t1 t2. t = t1 @ 10 # t2 \<and> r = bytes_of t2"
proof -
  have "utf8_encode t = of_str h @ 10 # of_str r"
    using assms(1) of_str_bytes [OF assms(2)] by (simp add: of_str_simps)
  then obtain t1 t2 where t: "t = t1 @ 10 # t2" "of_str r = utf8_encode t2" using utf8_line assms(2) by blast
  have "r = map char_of (of_str r)" by (simp add: of_str_def)
  then show ?thesis using t by (auto simp: bytes_of_def)
qed

lemma preamble_suffix:
  assumes "list_all is_scalar t"
  shows "\<exists>a b. t = a @ b \<and> text_of (fst (split_agent_preamble des (bytes_of t))) = b"
proof (cases "split_str [CHR 0x0A, CHR 0x0A] (bytes_of t)")
  case None
  then show ?thesis using text_bytes [OF assms] by (auto simp: split_agent_preamble_def intro!: exI [of _ "[]"])
next
  case (Some p)
  obtain h r where p: "p = (h, r)" by (cases p)
  have "bytes_of t = (h @ [CHR 0x0A]) @ [CHR 0x0A] @ r" using split_str_Some [OF Some [unfolded p]] by simp
  then obtain t1 t2 where t: "t = t1 @ 10 # t2" "r = bytes_of t2" using text_after_line assms by blast
  have "list_all is_scalar t2" using assms t(1) by simp
  then have "text_of r = t2" "text_of (bytes_of t) = t" using t(2) text_bytes assms by auto
  then show ?thesis using Some p t(1) by (force simp: split_agent_preamble_def split: option.split)
qed

definition plain_char :: "nat \<Rightarrow> bool" where
  "plain_char c \<longleftrightarrow> c = 10 \<or> c = 9 \<or> \<not> is_control c"

lemma plain_ascii: "32 \<le> c \<Longrightarrow> c < 127 \<Longrightarrow> plain_char c"
  by (simp add: plain_char_def is_control_def)

lemma plain_label:
  assumes "\<forall>c. uni c \<longrightarrow> \<not> is_control c"
  shows "\<forall>c \<in> set (render_prefix uni (Callback label)). plain_char c"
proof -
  have "plain_char c" if "c \<in> set (sanitize_nick uni l)" for c l
    using sanitized [of uni l] that assms
    by (auto simp: is_alnum_def is_ascii_alnum_def is_ascii_alpha_def is_ascii_digit_def plain_char_def is_control_def split: if_splits)
  then show ?thesis by (cases label) (auto simp: of_str_def plain_char_def is_control_def)
qed

text \<open>
  C12: Every frame a callback publishes is, in the session it names, one message under the callback's
  label: the text that was sent, or its end where it opens like another session's bookkeeping, and no
  character that steers the terminal, whatever was sent.
\<close>

theorem callback_reaches_the_terminal:
  assumes "callback_dispatch ts mid now reg0 reg s bus req raw d = (d', sent, Queued i nick n)" "(c, f) \<in> set sent"
    and target: "resolve_target (bytes_of (cq_target req)) reg0 = Inr aid"
    and own: "or_thread orc (agent_thread aid)" and uuid: "not_a_sender aid"
    and label: "cq_label req \<noteq> Some []" "\<forall>l. cq_label req = Some l \<longrightarrow> list_all is_scalar l"
    and raw: "list_all is_scalar raw" and uni: "\<forall>c. uni c \<longrightarrow> \<not> is_control c"
  shows "\<exists>a t. sanitize_body raw = a @ t
    \<and> pump_frame uni des aid orc now' f p = (p, [\<lparr>in_id = mid, in_body = render uni (Callback (cq_label req)) t\<rparr>], [])
    \<and> (\<forall>c \<in> set (render uni (Callback (cq_label req)) t). plain_char c)"
proof -
  let ?b = "sanitize_body raw" and ?l = "map_option bytes_of (cq_label req)"
  have f: "f = callback_frame ts (bytes_of ?b) ?l aid mid"
    using callback_needs_its_token [where ts = ts and mid = mid and now = now and ?reg0.0 = reg0 and reg = reg and s = s and bus = bus and req = req and raw = raw and d = d] assms(1,2) target by auto
  have ne: "bytes_of u \<noteq> []" if "u \<noteq> []" for u using that by (cases u) (auto simp: bytes_of_def utf8_encode_def utf8_char_def)
  have "?b \<noteq> []" using assms(1) by (auto simp: callback_dispatch_def trim_def split: if_splits)
  have "list_all is_scalar ?b" using raw by (auto simp: sanitize_body_def list_all_iff)
  from preamble_suffix [OF this] obtain a t where t: "?b = a @ t" "text_of (fst (split_agent_preamble des (bytes_of ?b))) = t" by blast
  have "map_option text_of ?l = cq_label req" using label(2) by (cases "cq_label req") (auto simp: text_bytes)
  moreover have "?l \<noteq> Some []" using label(1) ne by (cases "cq_label req") auto
  ultimately have "pump_frame uni des aid orc now' f p = (p, [\<lparr>in_id = mid, in_body = render uni (Callback (cq_label req)) t\<rparr>], [])"
    unfolding f using callback_body [OF own ne [OF \<open>?b \<noteq> []\<close>] not_a_sender_neq(1) [OF uuid], of ?l uni des now' ts mid p] t(2) by simp
  moreover have "\<forall>c \<in> set ?b. plain_char c" by (auto simp: sanitize_body_def plain_char_def)
  then have "\<forall>c \<in> set t. plain_char c" unfolding t(1) by simp
  moreover have "plain_char 58" "plain_char 32" by (simp_all add: plain_ascii)
  ultimately show ?thesis using t(1) plain_label [OF uni] by (auto simp: render_def of_str_def)
qed

section \<open>One socket per session\<close>

definition sockets_ok :: "string set \<Rightarrow> sockets \<Rightarrow> bool" where
  "sockets_ok left s \<longleftrightarrow> (\<forall>n \<in> set (so_listening s). path_safe n \<and> n @ ''.sock'' \<in> set (so_files s))
     \<and> set (so_files s) \<subseteq> left \<union> (\<lambda>n. n @ ''.sock'') ` set (so_listening s)"

lemma spawn_ok:
  "sockets_ok left s \<Longrightarrow> n \<notin> set (so_listening s) \<Longrightarrow> sockets_ok left (spawn_listener binds n s)
   \<and> set (so_listening (spawn_listener binds n s)) = set (so_listening s) \<union> (if path_safe n \<and> binds (n @ ''.sock'') then {n} else {})"
  by (auto simp: spawn_listener_def socket_path_def sockets_ok_def Let_def)

lemma drop_ok:
  "sockets_ok left s \<Longrightarrow> sockets_ok left (drop_listener n s)
   \<and> set (so_listening (drop_listener n s)) = set (so_listening s) - {n}"
  by (auto simp: drop_listener_def socket_path_def sockets_ok_def split: option.split)

lemma spawn_all:
  "sockets_ok left s \<Longrightarrow> (let s' = fold (\<lambda>n s. if n \<in> set (so_listening s) then s else spawn_listener binds n s) ns s in
     sockets_ok left s' \<and> set (so_listening s') = set (so_listening s) \<union> {n \<in> set ns. path_safe n \<and> binds (n @ ''.sock'')})"
proof (induction ns arbitrary: s)
  case (Cons n ns)
  show ?case
  proof (cases "n \<in> set (so_listening s)")
    case True
    then show ?thesis using Cons.IH [OF Cons.prems] by (auto simp: Let_def)
  next
    case False
    from spawn_ok [OF Cons.prems this, of binds] have s: "sockets_ok left (spawn_listener binds n s)"
      "set (so_listening (spawn_listener binds n s)) = set (so_listening s) \<union> (if path_safe n \<and> binds (n @ ''.sock'') then {n} else {})" by blast+
    then show ?thesis using Cons.IH [OF s(1)] False by (auto simp: Let_def)
  qed
qed simp

lemma drop_all:
  "sockets_ok left s \<Longrightarrow> sockets_ok left (fold drop_listener ns s)
     \<and> set (so_listening (fold drop_listener ns s)) = set (so_listening s) - set ns"
proof (induction ns arbitrary: s)
  case (Cons n ns)
  then have s: "sockets_ok left (drop_listener n s)" "set (so_listening (drop_listener n s)) = set (so_listening s) - {n}"
    using drop_ok [of left s n] by auto
  then show ?case using Cons.IH [OF s(1)] by auto
qed simp

lemma reconcile_ok:
  assumes "sockets_ok left s"
  shows "sockets_ok left (reconcile binds t s)"
    and "set (so_listening (reconcile binds t s))
      = {n \<in> set (live_nicks t). n \<in> set (so_listening s) \<or> path_safe n \<and> binds (n @ ''.sock'')}"
proof -
  define s1 where "s1 = fold (\<lambda>n s. if n \<in> set (so_listening s) then s else spawn_listener binds n s) (live_nicks t) s"
  have s1: "sockets_ok left s1" "set (so_listening s1) = set (so_listening s) \<union> {n \<in> set (live_nicks t). path_safe n \<and> binds (n @ ''.sock'')}"
    using spawn_all [OF assms, of binds "live_nicks t"] by (simp_all add: s1_def Let_def)
  have r: "reconcile binds t s = fold drop_listener (filter (\<lambda>n. n \<notin> set (live_nicks t)) (so_listening s1)) s1"
    by (simp add: reconcile_def s1_def Let_def)
  show "sockets_ok left (reconcile binds t s)" unfolding r using drop_all [OF s1(1)] by blast
  show "set (so_listening (reconcile binds t s))
      = {n \<in> set (live_nicks t). n \<in> set (so_listening s) \<or> path_safe n \<and> binds (n @ ''.sock'')}"
    unfolding r using drop_all [OF s1(1)] s1(2) by auto
qed

interpretation agent_sockets: transition_system "\<lambda>s. so_listening s = [] \<and> set (so_files s) \<subseteq> left"
  "\<lambda>s s'. \<exists>binds t. s' = reconcile binds t s" "sockets_ok left"
proof unfold_locales
  show "so_listening s = [] \<and> set (so_files s) \<subseteq> left \<Longrightarrow> sockets_ok left s" for s by (simp add: sockets_ok_def)
qed (use reconcile_ok(1) in blast)

text \<open>
  Whatever the registry looked like before and whichever sockets could not be bound, the next tick
  squares them: the nicks listened for are those of the sessions alive now whose nick is a file name,
  each has its file, and the directory holds nothing else than what an earlier daemon left in it.
\<close>

theorem sockets_follow_registry:
  assumes "so_listening s0 = []" "set (so_files s0) \<subseteq> left"
  shows "let s = reconcile (\<lambda>_. True) t (fold (\<lambda>(b, t). reconcile b t) rounds s0) in
    set (so_listening s) = {n. path_safe n \<and> (\<exists>r \<in> set t. alive r \<and> ar_name r = n)}
    \<and> (\<forall>n \<in> set (so_listening s). n @ ''.sock'' \<in> set (so_files s))
    \<and> set (so_files s) \<subseteq> left \<union> (\<lambda>n. n @ ''.sock'') ` set (so_listening s)"
proof -
  have "(\<lambda>s s'. \<exists>binds t. s' = reconcile binds t s)\<^sup>*\<^sup>* s (fold (\<lambda>(b, t). reconcile b t) rounds s)" for s
    by (induction rounds arbitrary: s) (auto intro: converse_rtranclp_into_rtranclp)
  then have ok: "sockets_ok left (fold (\<lambda>(b, t). reconcile b t) rounds s0)"
    using agent_sockets.reachable_inv [of s0 left] assms by blast
  have "set (live_nicks t) = {n. n \<noteq> [] \<and> (\<exists>r \<in> set t. alive r \<and> ar_name r = n)}" by (auto simp: live_nicks_def)
  then show ?thesis using reconcile_ok [OF ok, of "\<lambda>_. True" t] ok by (auto simp: sockets_ok_def path_safe_def Let_def)
qed

section \<open>At concrete inputs\<close>

definition some_tokens :: token_store where
  "some_tokens = fst (ensure_token ''5ecret'' ''x'' 1 no_tokens)"

definition ask_x :: callback_request where
  "ask_x = \<lparr>cq_target = of_str ''x'', cq_label = Some (of_str ''ci''), cq_token = Some (of_str ''5ecret'')\<rparr>"

abbreviation esc_hi :: utext where "esc_hi \<equiv> [27, 104, 105]"

lemma dispatched:
  "callback_dispatch ''now'' ''m'' 5 (fst two_agents) (fst two_agents) some_tokens [(''agent:a'', 7 :: nat), (''agent:b'', 8)] ask_x esc_hi
     \<lparr>threads = [], messages = []\<rparr>
   = (\<lparr>threads = [], messages = [\<lparr>cm_id = ''m'', cm_thread = ''agent:a'', cm_from = ''callback:ci'', cm_content = ''hi'',
        cm_reply = None, cm_created = 5, cm_delivered = None, cm_voice = False, cm_topic = None\<rparr>]\<rparr>,
      [(7, callback_frame ''now'' ''hi'' (Some ''ci'') ''a'' ''m'')], Queued ''m'' ''x'' 1)"
  by code_simp

theorem callback_needs_its_token_witness:
  "fst (callback_dispatch ''now'' ''m'' 5 (fst two_agents) (fst two_agents) some_tokens [(''agent:a'', 7 :: nat)]
     (ask_x\<lparr>cq_token := None\<rparr>) esc_hi \<lparr>threads = [], messages = []\<rparr>) = \<lparr>threads = [], messages = []\<rparr>"
proof -
  have "snd (snd (callback_dispatch ''now'' ''m'' 5 (fst two_agents) (fst two_agents) some_tokens [(''agent:a'', 7 :: nat)]
     (ask_x\<lparr>cq_token := None\<rparr>) esc_hi \<lparr>threads = [], messages = []\<rparr>)) = Rejected Unauthorized" by code_simp
  then show ?thesis
    using callback_needs_its_token [where ts = "''now''" and mid = "''m''" and now = 5 and ?reg0.0 = "fst two_agents" and reg = "fst two_agents"
        and s = some_tokens and bus = "[(''agent:a'', 7 :: nat)]" and req = "ask_x\<lparr>cq_token := None\<rparr>" and raw = esc_hi
        and d = "\<lparr>threads = [], messages = []\<rparr>"]
    by (auto split: prod.splits)
qed

theorem callback_reaches_the_terminal_witness:
  "\<exists>a t. sanitize_body esc_hi = a @ t
    \<and> pump_frame (\<lambda>_. False) (\<lambda>_. None) ''a'' (local_router ''a'' (Some [])) 6 (callback_frame ''now'' ''hi'' (Some ''ci'') ''a'' ''m'') new_pump
      = (new_pump, [\<lparr>in_id = ''m'', in_body = render (\<lambda>_. False) (Callback (cq_label ask_x)) t\<rparr>], [])
    \<and> (\<forall>c \<in> set (render (\<lambda>_. False) (Callback (cq_label ask_x)) t). plain_char c)"
proof (rule callback_reaches_the_terminal [OF dispatched, of 7])
  show "or_thread (local_router ''a'' (Some [])) (agent_thread ''a'')" by (simp add: local_router_def every_thread_is_ours)
  show "resolve_target (bytes_of (cq_target ask_x)) (fst two_agents) = Inr ''a''" by code_simp
  show "cq_label ask_x \<noteq> Some []" "\<forall>l. cq_label ask_x = Some l \<longrightarrow> list_all is_scalar l"
    by (simp_all add: ask_x_def of_str_def is_scalar_def)
  show "not_a_sender ''a''" by (simp add: not_a_sender_def starts_with_def)
  show "list_all is_scalar esc_hi" by (simp add: is_scalar_def)
qed simp_all

theorem sockets_follow_registry_witness:
  "let s = reconcile (\<lambda>_. True) [] (fold (\<lambda>(b, t). reconcile b t) [(\<lambda>_. True, fst two_agents)] \<lparr>so_listening = [], so_files = [''old.sock'']\<rparr>) in
    set (so_files s) \<subseteq> {''old.sock''} \<union> (\<lambda>n. n @ ''.sock'') ` set (so_listening s)"
proof -
  note follow = sockets_follow_registry [of "\<lparr>so_listening = [], so_files = [''old.sock'']\<rparr>" "{''old.sock''}" "[]" "[(\<lambda>_. True, fst two_agents)]"]
  have "so_listening \<lparr>so_listening = [], so_files = [''old.sock'']\<rparr> = []"
    "set (so_files \<lparr>so_listening = [], so_files = [''old.sock'']\<rparr>) \<subseteq> {''old.sock''}" by simp_all
  from follow [OF this] show ?thesis unfolding Let_def by blast
qed

end
