(* ===== verification/Server.thy ===== *)
theory Server
  imports Callback Pool PendingAsks
begin

text \<open>
  The daemon's requests (\<open>daemon/server.rs\<close>): one frame of a connection in, the reply and what is
  published out. The state is the tables of \<open>chat.db\<close> the handlers use and the subscriptions; a
  connection is named by the text of its id. What the code takes from outside is the record
  \<open>server_env\<close>; a fresh message id, a fresh token and the time are the record \<open>rpc_call\<close>, one of each per
  request. The tools of journals and of the subscription token are \<open>se_other\<close>.
\<close>

section \<open>State\<close>

record server =
  sv_reg :: "agent_row rows"
  sv_bindings :: "binding rows"
  sv_chat :: chat_db
  sv_nicks :: "nick_row rows"
  sv_talks :: "talk_row rows"
  sv_tokens :: token_store
  sv_pool :: pool_db
  sv_clears :: "string \<rightharpoonup> string"
  sv_asks :: "pending_ask rows"
  sv_bus :: "string bus"

record server_env =
  se_print :: "json \<Rightarrow> string"
  se_rfc :: "int \<Rightarrow> string"
  se_kill0 :: "int \<Rightarrow> bool"
  se_host :: string
  se_uuid :: "string \<Rightarrow> bool"
  se_lower :: "utext \<Rightarrow> utext"
  se_today :: "utext \<Rightarrow> int \<Rightarrow> int option"
  se_project :: "string \<Rightarrow> string"
  se_branch :: "string \<Rightarrow> string option"
  se_pool :: pool_env
  se_say :: "reg_error \<Rightarrow> string"
  se_say_pool :: "pool_error \<Rightarrow> string"
  se_say_ask :: "ask_refusal \<Rightarrow> string"
  se_keyboard :: "int \<Rightarrow> int option \<Rightarrow> utext \<Rightarrow> (utext \<times> utext) list \<Rightarrow> int option"
  se_texts :: "string \<Rightarrow> json \<Rightarrow> json option"
  se_other :: "string \<Rightarrow> json \<Rightarrow> json \<Rightarrow> json"

record rpc_call =
  ca_conn :: string
  ca_new :: string
  ca_raw :: string
  ca_now :: int

section \<open>Replies\<close>

definition rpc_error :: "json \<Rightarrow> int \<Rightarrow> string \<Rightarrow> json" where
  "rpc_error i code msg = JObj [(''jsonrpc'', JStr ''2.0''), (''id'', i),
     (''error'', JObj [(''code'', JNum code), (''message'', JStr msg)])]"

definition rpc_reply :: "server_env \<Rightarrow> json \<Rightarrow> json \<Rightarrow> json" where
  "rpc_reply env i payload = JObj [(''jsonrpc'', JStr ''2.0''), (''id'', i),
     (''result'', JObj [(''content'', JArr [JObj [(''type'', JStr ''text''), (''text'', JStr (se_print env payload))]])])]"

text \<open>What a request leaves: the state, the frames queued for connections in their order, a text for Telegram.\<close>

record served =
  sd_state :: server
  sd_out :: "(string \<times> json) list"
  sd_telegram :: "(int \<times> int option \<times> string \<times> string) option"

definition answered :: "server \<Rightarrow> rpc_call \<Rightarrow> json \<Rightarrow> served" where
  "answered s c r = \<lparr>sd_state = s, sd_out = [(ca_conn c, r)], sd_telegram = None\<rparr>"

definition publish :: "string \<Rightarrow> json \<Rightarrow> server \<Rightarrow> (string \<times> json) list" where
  "publish thread f s = map (\<lambda>c. (c, f)) (bus_publish thread (sv_bus s))"

definition nonempty_str :: "json \<Rightarrow> string \<Rightarrow> string option" where
  "nonempty_str args k = (case get_str args k of Some v \<Rightarrow> if v = [] then None else Some v | None \<Rightarrow> None)"

section \<open>Chat tools\<close>

definition reply_topic :: "json \<Rightarrow> int option" where
  "reply_topic args =
     (case Option.bind (get_str args ''message_thread_id'') parse_i64 of Some n \<Rightarrow> if 0 < n then Some n else None | None \<Rightarrow> None)"

definition handle_chat_post :: "server_env \<Rightarrow> rpc_call \<Rightarrow> string \<Rightarrow> json \<Rightarrow> json \<Rightarrow> server \<Rightarrow> served" where
  "handle_chat_post env c tool i args s =
     (let thread = given_or [] (get_str args ''thread''); content = given_or [] (get_str args ''content'');
          sender = given_or ''unknown'' (get_str args ''from'') in
      if thread = [] then answered s c (rpc_error i (- 32602) ''thread is required'')
      else case insert_message (ca_new c) thread sender content (resolve_reply_to (se_uuid env) (get_str args ''reply_to'')) (ca_now c) (sv_chat s) of
        None \<Rightarrow> answered s c (rpc_error i (- 32603) ''persist failed'')
      | Some (d, m) \<Rightarrow>
        let s' = s\<lparr>sv_chat := d\<rparr>;
            r = rpc_reply env i (if tool = ''chat_post''
              then JObj [(''id'', JStr (cm_id m)), (''thread'', JStr (cm_thread m)), (''created_at'', JNum (cm_created m))]
              else JObj [(''id'', JStr (cm_id m)), (''reply_to_resolved'', JBool (cm_reply m \<noteq> None))])
        in \<lparr>sd_state = s',
             sd_out = (ca_conn c, r) # (if starts_with thread ''telegram:'' \<and> \<not> starts_with sender ''telegram:'' then []
               else publish thread (posted_frame m) s'),
             sd_telegram = (if tool = ''chat_reply''
               then map_option (\<lambda>chat. (chat, reply_topic args, cm_content m, cm_id m)) (telegram_chat thread) else None)\<rparr>)"

definition handle_chat_subscribe :: "server_env \<Rightarrow> rpc_call \<Rightarrow> json \<Rightarrow> json \<Rightarrow> server \<Rightarrow> served" where
  "handle_chat_subscribe env c i args s =
     (let thread = given_or [] (get_str args ''thread'') in
      if thread = [] then answered s c (rpc_error i (- 32602) ''thread is required'')
      else let (d, ms) = drain_backlog thread (ca_now c) (sv_chat s)
           in answered (s\<lparr>sv_bus := bus_subscribe (ca_conn c) thread (sv_bus s), sv_chat := d\<rparr>) c
                (rpc_reply env i (JObj [(''thread'', JStr thread), (''messages'', JArr (map message_json ms))])))"

definition handle_chat_list :: "server_env \<Rightarrow> rpc_call \<Rightarrow> json \<Rightarrow> json \<Rightarrow> server \<Rightarrow> served" where
  "handle_chat_list env c i args s =
     (let thread = given_or [] (get_str args ''thread'') in
      if thread = [] then answered s c (rpc_error i (- 32602) ''thread is required'')
      else answered s c (rpc_reply env i (JObj [(''messages'',
             JArr (map message_json (list_messages thread (get_i64 args ''since'') (get_i64 args ''limit'') (sv_chat s))))])))"

definition thread_kind :: "string \<Rightarrow> string" where
  "thread_kind t = (if starts_with t ''telegram:'' then ''telegram'' else if starts_with t ''agent:'' then ''agent'' else ''other'')"

definition handle_chat_list_threads :: "server_env \<Rightarrow> rpc_call \<Rightarrow> json \<Rightarrow> server \<Rightarrow> served" where
  "handle_chat_list_threads env c i s =
     answered s c (rpc_reply env i (JObj [(''threads'', JArr (map (\<lambda>(t, n, l).
       JObj [(''thread'', JStr t), (''kind'', JStr (thread_kind t)), (''message_count'', JNum (int n)), (''last_created_at'', jopt JNum l)])
       (list_threads (sv_chat s))))]))"

section \<open>Sessions\<close>

definition capture_all :: "server_env \<Rightarrow> rpc_call \<Rightarrow> json \<Rightarrow> string \<Rightarrow> string \<Rightarrow> server \<Rightarrow> server" where
  "capture_all env c args aid name s =
     (let host = get_str args ''host''; cwd = get_str args ''cwd''; term = given_or [] (get_str args ''terminal'');
          r1 = (case get_str args ''session_token'' of Some t \<Rightarrow> set_session_token aid t (sv_reg s) | None \<Rightarrow> sv_reg s);
          r2 = fst (capture_process aid host (get_i64 args ''pid'') cwd r1);
          r3 = fst (restore_bindings_for aid name (sv_bindings s) r2);
          r4 = fst (supersede_stale_slots (se_kill0 env) (se_host env) aid name cwd r3);
          r5 = capture_terminal aid term r4
      in s\<lparr>sv_reg := (case cwd of None \<Rightarrow> r5
             | Some d \<Rightarrow> fst (capture_identity aid (Some (given_or (se_project env d) (nonempty_str args ''project_id'')))
                 (case nonempty_str args ''branch'' of Some b \<Rightarrow> Some b | None \<Rightarrow> se_branch env d) (Some d) r5)),
           sv_tokens := fst (ensure_token (ca_raw c) name (ca_now c) (sv_tokens s)),
           sv_nicks := (case (get_bool args ''nick_chosen'', host, cwd) of
             (Some True, Some h, Some d) \<Rightarrow> remember_nick h d term name (ca_now c) (sv_nicks s) | _ \<Rightarrow> sv_nicks s),
           sv_pool := (case nonempty_str args ''pool'' of None \<Rightarrow> sv_pool s
             | Some p \<Rightarrow> (case join aid p (given_or 1 (get_i64 args ''pool_capacity'')) (ca_now c) (sv_pool s) of
                 Inl _ \<Rightarrow> sv_pool s | Inr d \<Rightarrow> d))\<rparr>)"

definition handle_agent_register :: "server_env \<Rightarrow> rpc_call \<Rightarrow> json \<Rightarrow> json \<Rightarrow> server \<Rightarrow> served" where
  "handle_agent_register env c i args s =
     (case nonempty_str args ''agent_id'' of None \<Rightarrow> answered s c (rpc_error i (- 32602) ''agent_id required (non-empty string)'')
      | Some aid \<Rightarrow>
        case get_str args ''name'' of None \<Rightarrow> answered s c (rpc_error i (- 32602) ''name required'')
        | Some name \<Rightarrow>
          case register aid name (ca_conn c) (get_str args ''thread'') (map_option (se_print env) (jget args ''metadata'')) (ca_now c) (sv_reg s) of
            Inl e \<Rightarrow> answered s c (rpc_error i (- 32603) (se_say env e))
          | Inr (t, out) \<Rightarrow>
            answered (capture_all env c args aid (effective_name out) (s\<lparr>sv_reg := t\<rparr>)) c
              (rpc_reply env i (JObj [(''registered'', JBool True), (''spawned_at'', JNum (spawned_at out))])))"

text \<open>Everything a rename moves. None: the session has no row.\<close>

definition rename_in_place :: "rpc_call \<Rightarrow> string \<Rightarrow> string \<Rightarrow> bool \<Rightarrow> server \<Rightarrow> reg_error option + server" where
  "rename_in_place c aid new fresh s =
     (let old = nick_of aid (sv_reg s) in
      case rename aid new (sv_reg s) of Inl e \<Rightarrow> Inl (Some e)
      | Inr (t, n) \<Rightarrow>
        if n = 0 then Inl None
        else
          let s1 = s\<lparr>sv_reg := t\<rparr>;
              s2 = (case old of None \<Rightarrow> s1
                | Some o1 \<Rightarrow> if o1 = new then s1 else
                    let tk = fst (rename_token o1 new (sv_tokens s1))
                    in s1\<lparr>sv_tokens := (if fresh then fst (rotate_token (ca_raw c) new (ca_now c) tk) else tk),
                          sv_bindings := fst (migrate_bindings o1 new (sv_bindings s1))\<rparr>);
              s3 = (case row_of ar_id aid t of None \<Rightarrow> s2
                | Some r \<Rightarrow> (case (ar_host r, ar_cwd r) of
                    (Some h, Some d) \<Rightarrow> s2\<lparr>sv_nicks := remember_nick h d (given_or [] (ar_terminal r)) new (ca_now c) (sv_nicks s2)\<rparr>
                  | _ \<Rightarrow> s2))
          in Inr (case claude_session_of aid t of None \<Rightarrow> s3
                | Some sid \<Rightarrow> s3\<lparr>sv_talks := remember_conversation_nick sid new (ca_now c) (sv_talks s3)\<rparr>))"

definition say_rename :: "server_env \<Rightarrow> reg_error option \<Rightarrow> string" where
  "say_rename env e = (case e of None \<Rightarrow> ''no registry row for this session'' | Some e \<Rightarrow> se_say env e)"

definition trimmed_str :: "json \<Rightarrow> string \<Rightarrow> string option" where
  "trimmed_str args k =
     (case get_str args k of None \<Rightarrow> None
      | Some v \<Rightarrow> let t = trim (text_of v) in if t = [] then None else Some (bytes_of t))"

definition no_agent :: string where
  "no_agent = ''no alive agent on this connection '' @ [CHR 0xE2, CHR 0x80, CHR 0x94] @ '' call agent_register first''"

definition bad_token :: string where "bad_token = ''session_token does not match an alive agent''"

definition proves :: "json \<Rightarrow> string \<Rightarrow> server \<Rightarrow> bool" where
  "proves args aid s \<longleftrightarrow> resolve_session_token aid (given_or [] (get_str args ''session_token'')) (sv_reg s)"

definition worker_keeps :: "string \<Rightarrow> string" where
  "worker_keeps pool = ''a worker of pool '' @ CHR 0x60 # pool @ CHR 0x60 # '' keeps the nick '' @ CHR 0x60 # ''claudebase run --pool''
     @ CHR 0x60 # '' gave it; to choose one, start the worker with --nick''"

definition handle_agent_rename :: "server_env \<Rightarrow> rpc_call \<Rightarrow> json \<Rightarrow> json \<Rightarrow> server \<Rightarrow> served" where
  "handle_agent_rename env c i args s =
     (case trimmed_str args ''name'' of None \<Rightarrow> answered s c (rpc_error i (- 32602) ''name required (non-empty string)'')
      | Some new \<Rightarrow>
        case nonempty_str args ''from_agent_id'' of None \<Rightarrow> answered s c (rpc_error i (- 32602) ''from_agent_id required'')
        | Some aid \<Rightarrow>
          if \<not> proves args aid s then answered s c (rpc_error i (- 32603) bad_token)
          else if pool_of aid (sv_pool s) \<noteq> None then answered s c (rpc_error i (- 32603) (worker_keeps (the (pool_of aid (sv_pool s)))))
          else case rename_in_place c aid new (get_bool args ''new_callback_token'' = Some True) s of
            Inl e \<Rightarrow> answered s c (rpc_error i (- 32603) (say_rename env e))
          | Inr s' \<Rightarrow> answered s' c (rpc_reply env i (JObj [(''renamed'', JBool True), (''name'', JStr new)])))"

definition bound_reply :: "string \<Rightarrow> bool \<Rightarrow> (string \<times> json) list \<Rightarrow> json" where
  "bound_reply name back extra = JObj ([(''bound'', JBool True), (''name'', JStr name), (''restored'', JBool back)] @ extra)"

definition handle_agent_bind_session :: "server_env \<Rightarrow> rpc_call \<Rightarrow> json \<Rightarrow> json \<Rightarrow> server \<Rightarrow> served" where
  "handle_agent_bind_session env c i args s =
     (case nonempty_str args ''from_agent_id'' of None \<Rightarrow> answered s c (rpc_error i (- 32602) ''from_agent_id required'')
      | Some aid \<Rightarrow>
        case trimmed_str args ''session_id'' of None \<Rightarrow> answered s c (rpc_error i (- 32602) ''session_id required'')
        | Some sid \<Rightarrow>
          if \<not> proves args aid s then answered s c (rpc_error i (- 32603) bad_token)
          else
            let s1 = s\<lparr>sv_reg := capture_claude_session aid sid (sv_reg s)\<rparr>;
                current = given_or [] (nick_of aid (sv_reg s1))
            in case recall_conversation_nick sid (sv_talks s1) of
              Some nick \<Rightarrow>
                if nick = current then answered s1 c (rpc_reply env i (bound_reply current False []))
                else if nick_is_taken (se_kill0 env) (se_host env) nick (Some aid) (sv_reg s1)
                then answered s1 c (rpc_reply env i (bound_reply current False [(''note'', JStr (CHR 0x60 # nick @ CHR 0x60 # '' is held by another live session''))]))
                else (case rename_in_place c aid nick False s1 of
                    Inl e \<Rightarrow> answered s1 c (rpc_error i (- 32603) (say_rename env e))
                  | Inr s' \<Rightarrow> answered s' c (rpc_reply env i (bound_reply nick True [])))
            | None \<Rightarrow> answered (s1\<lparr>sv_talks := remember_conversation_nick sid current (ca_now c) (sv_talks s1)\<rparr>) c
                (rpc_reply env i (bound_reply current False [])))"

text \<open>Who a call speaks for: the session of the connection, or one whose token it shows.\<close>

definition caller_of :: "rpc_call \<Rightarrow> json \<Rightarrow> server \<Rightarrow> string + string" where
  "caller_of c args s =
     (case lookup_agent_id_by_connection (ca_conn c) (sv_reg s) of Some a \<Rightarrow> Inr a
      | None \<Rightarrow>
        case get_str args ''from_agent_id'' of
          None \<Rightarrow> Inl (no_agent @ '', or pass from_agent_id + session_token'')
        | Some a \<Rightarrow> if proves args a s then Inr a else Inl bad_token)"

definition handle_agent_describe :: "server_env \<Rightarrow> rpc_call \<Rightarrow> json \<Rightarrow> json \<Rightarrow> server \<Rightarrow> served" where
  "handle_agent_describe env c i args s =
     (case get_str args ''description'' of
        None \<Rightarrow> answered s c (rpc_error i (- 32602) ''description required (non-empty string)'')
      | Some feature \<Rightarrow>
        case caller_of c args s of Inl e \<Rightarrow> answered s c (rpc_error i (- 32603) e)
        | Inr aid \<Rightarrow>
          let (t, n) = describe aid feature (get_str args ''branch'') (sv_reg s) in
          if n = 0 then answered s c (rpc_error i (- 32603) (''agent_registry row missing for resolved agent_id '' @ aid))
          else answered (s\<lparr>sv_reg := t\<rparr>) c (rpc_reply env i (JObj [(''described'', JBool True), (''agent_id'', JStr aid)])))"

section \<open>Messages between sessions\<close>

definition deliver_now :: "server_env \<Rightarrow> rpc_call \<Rightarrow> string \<Rightarrow> string \<Rightarrow> string \<Rightarrow> string \<Rightarrow> string \<Rightarrow> bool \<Rightarrow> server \<Rightarrow> server \<times> (string \<times> json) list" where
  "deliver_now env c content sender target thread mid drained s =
     (let sent = publish thread (agent_frame (se_print env) (se_rfc env (ca_now c)) content sender target mid drained) s
      in (if sent = [] then s else s\<lparr>sv_chat := fst (mark_delivered mid (ca_now c) (sv_chat s))\<rparr>, sent))"

definition handle_agent_send :: "server_env \<Rightarrow> rpc_call \<Rightarrow> json \<Rightarrow> json \<Rightarrow> server \<Rightarrow> served" where
  "handle_agent_send env c i args s =
     (case nonempty_str args ''to_agent_id'' of None \<Rightarrow> answered s c (rpc_error i (- 32602) ''to_agent_id required (non-empty string)'')
      | Some target \<Rightarrow>
        case nonempty_str args ''content'' of None \<Rightarrow> answered s c (rpc_error i (- 32602) ''content required (non-empty string)'')
        | Some content \<Rightarrow>
          case caller_of c args s of Inl e \<Rightarrow> answered s c (rpc_error i (- 32603) e)
          | Inr sender \<Rightarrow>
            case send_message (ca_new c) sender target content (ca_now c) (sv_reg s) (sv_chat s) of
              Inl e \<Rightarrow> answered s c (rpc_error i (- 32603) (se_say env e))
            | Inr (d, mid, Queue till) \<Rightarrow>
                answered (s\<lparr>sv_chat := d\<rparr>) c (rpc_reply env i (JObj [(''queued'', JBool True), (''message_id'', JStr mid),
                  (''delivered_when'', JNum till), (''reason'', JStr ''dnd'')]))
            | Inr (d, mid, Deliver) \<Rightarrow>
                let (s', sent) = deliver_now env c content sender target (agent_thread target) mid False (s\<lparr>sv_chat := d\<rparr>)
                in \<lparr>sd_state = s',
                     sd_out = sent @ [(ca_conn c, rpc_reply env i
                       (if sent = [] then JObj [(''queued'', JBool True), (''message_id'', JStr mid), (''reason'', JStr ''no_subscriber'')]
                        else JObj [(''delivered'', JBool True), (''message_id'', JStr mid), (''subscribers'', JNum (int (length sent)))]))],
                     sd_telegram = None\<rparr>)"

fun publish_drained :: "server_env \<Rightarrow> rpc_call \<Rightarrow> message list \<Rightarrow> server \<Rightarrow> server \<times> (string \<times> json) list" where
  "publish_drained env c [] s = (s, [])"
| "publish_drained env c (m # ms) s =
     (let (s1, out) = deliver_now env c (cm_content m) (cm_from m) (given_or [] (strip_prefix ''agent:'' (cm_thread m))) (cm_thread m) (cm_id m) True s;
          (s2, rest) = publish_drained env c ms s1
      in (s2, out @ rest))"

definition handle_agent_set_dnd :: "server_env \<Rightarrow> rpc_call \<Rightarrow> json \<Rightarrow> json \<Rightarrow> server \<Rightarrow> served" where
  "handle_agent_set_dnd env c i args s =
     (case nonempty_str args ''state'' of None \<Rightarrow> answered s c (rpc_error i (- 32602) ''state required (non-empty string)'')
      | Some st \<Rightarrow>
        case lookup_agent_id_by_connection (ca_conn c) (sv_reg s) of
          None \<Rightarrow> answered s c (rpc_error i (- 32603) no_agent)
        | Some aid \<Rightarrow>
          case parse_dnd_state (se_lower env) (se_today env) (text_of st) (ca_now c) of
            Inl e \<Rightarrow> answered s c (rpc_error i (- 32603) (se_say env e))
          | Inr till \<Rightarrow>
            let (t, n) = set_dnd aid till (sv_reg s) in
            if n = 0 then answered s c (rpc_error i (- 32603) (''no alive agent_registry row for '' @ aid))
            else let ms = (if till = None then drain_agent_inbox aid 10 (sv_chat s) else []);
                     (s', out) = publish_drained env c ms (s\<lparr>sv_reg := t\<rparr>)
                 in \<lparr>sd_state = s',
                      sd_out = out @ [(ca_conn c, rpc_reply env i (JObj [(''ok'', JBool True), (''dnd_until_ts'', jopt JNum till),
                        (''agent_id'', JStr aid), (''drained_on_off'', JNum (int (length ms)))]))],
                      sd_telegram = None\<rparr>)"

text \<open>The tick that ends do-not-disturb periods, with what it publishes.\<close>

definition server_tick :: "server_env \<Rightarrow> rpc_call \<Rightarrow> nat \<Rightarrow> server \<Rightarrow> server \<times> (string \<times> json) list" where
  "server_tick env c rate s =
     (let (t, n, ms) = drain_dnd_tick (ca_now c) rate (sv_reg s) (sv_chat s)
      in publish_drained env c ms (s\<lparr>sv_reg := t\<rparr>))"

section \<open>The rest of the session tools\<close>

definition handle_agent_unregister :: "server_env \<Rightarrow> rpc_call \<Rightarrow> json \<Rightarrow> json \<Rightarrow> server \<Rightarrow> served" where
  "handle_agent_unregister env c i args s =
     (case nonempty_str args ''agent_id'' of None \<Rightarrow> answered s c (rpc_error i (- 32602) ''agent_id required (non-empty string)'')
      | Some aid \<Rightarrow>
        let (t, prev) = unregister aid (sv_reg s)
        in answered (s\<lparr>sv_reg := t\<rparr>) c (rpc_reply env i (JObj [(''unregistered'', JBool True), (''previous_state'', JStr prev)])))"

definition handle_agent_list_alive :: "server_env \<Rightarrow> rpc_call \<Rightarrow> json \<Rightarrow> json \<Rightarrow> server \<Rightarrow> served" where
  "handle_agent_list_alive env c i args s =
     answered s c (rpc_reply env i (JObj [(''agents'', JArr (map (\<lambda>r. JObj [(''agent_id'', JStr (ar_id r)), (''agent_name'', JStr (ar_name r)),
       (''thread'', jopt JStr (ar_thread r)), (''spawned_at'', JNum (ar_spawned r)), (''last_pinged_at'', JNum (ar_pinged r))])
       (list_alive (get_str args ''thread'') (sv_reg s))))]))"

definition handle_agent_reap :: "server_env \<Rightarrow> rpc_call \<Rightarrow> json \<Rightarrow> json \<Rightarrow> server \<Rightarrow> served" where
  "handle_agent_reap env c i args s =
     (let (t, out) = reap (get_i64 args ''older_than_secs'') (ca_now c) (sv_reg s)
      in answered (s\<lparr>sv_reg := t\<rparr>) c (rpc_reply env i (JObj [(''reaped_count'', JNum (int (reaped_count out))),
           (''remaining_orphaned'', JNum (int (remaining_orphaned out)))])))"

definition ask_json :: "pending_ask \<Rightarrow> json" where
  "ask_json a = JObj [(''ask_id'', JStr (bytes_of (pa_id a))), (''chat_id'', JStr (dec_int (pa_chat a))),
     (''message_thread_id'', jopt (\<lambda>n. JStr (dec_int n)) (pa_thread a)), (''requesting_agent_id'', JStr (bytes_of (pa_agent a))),
     (''question'', JStr (bytes_of (pa_question a))),
     (''options'', JArr (map (\<lambda>(l, v). JObj [(''label'', JStr (bytes_of l)), (''value'', JStr (bytes_of v))]) (pa_options a))),
     (''multi'', JBool (pa_multi a)), (''created_at'', JNum (pa_created a)), (''expires_at'', JNum (pa_expires a))]"

text \<open>\<open>str::trim_start_matches\<close> with a text.\<close>

function strip_all :: "string \<Rightarrow> string \<Rightarrow> string" where
  "strip_all p t = (if p \<noteq> [] \<and> starts_with t p then strip_all p (drop (length p) t) else t)"
  by pat_completeness auto
termination
proof (relation "measure (\<lambda>(p, t). length t)")
  fix p t :: string assume p: "p \<noteq> [] \<and> starts_with t p"
  then have "t \<noteq> []" by (auto simp: starts_with_def)
  then show "((p, drop (length p) t), p, t) \<in> measure (\<lambda>(p, t). length t)" using p by (cases p; cases t) auto
qed simp

declare strip_all.simps [simp del]

definition handle_chat_list_pending_asks :: "server_env \<Rightarrow> rpc_call \<Rightarrow> json \<Rightarrow> json \<Rightarrow> server \<Rightarrow> served" where
  "handle_chat_list_pending_asks env c i args s =
     (let listed = (\<lambda>chat. answered s c (rpc_reply env i (JObj [(''asks'',
            JArr (map ask_json (list_open (ca_now c) (map_option text_of (get_str args ''agent_id'')) chat (sv_asks s))))])))
      in case get_str args ''thread'' of None \<Rightarrow> listed None
        | Some t \<Rightarrow>
          if starts_with t ''telegram:''
          then (case parse_i64 (strip_all ''telegram:'' t) of Some n \<Rightarrow> listed (Some n) | None \<Rightarrow> answered s c (rpc_error i (- 32602) ''malformed thread''))
          else answered s c (rpc_error i (- 32602) (''thread must start with '' @ CHR 0x27 # ''telegram:'' @ [CHR 0x27])))"

section \<open>Questions to the operator\<close>

definition ask_code :: "ask_refusal \<Rightarrow> int" where
  "ask_code e = (case e of NotRegistered \<Rightarrow> - 32603 | SendFailed \<Rightarrow> - 32603 | InsertFailed \<Rightarrow> - 32603 | _ \<Rightarrow> - 32602)"

definition ask_option :: "json \<Rightarrow> utext \<times> utext" where
  "ask_option e = (text_of (given_or [] (get_str e ''label'')), text_of (given_or [] (get_str e ''value'')))"

definition handle_chat_ask :: "server_env \<Rightarrow> rpc_call \<Rightarrow> json \<Rightarrow> json \<Rightarrow> server \<Rightarrow> served" where
  "handle_chat_ask env c i args s =
     (let thread = given_or [] (get_str args ''thread''); question = text_of (given_or [] (get_str args ''question''));
          multi = given_or False (get_bool args ''multi''); topic = Option.bind (get_str args ''message_thread_id'') parse_i64 in
      if \<not> starts_with thread ''telegram:''
      then answered s c (rpc_error i (- 32602) (''thread must start with '' @ CHR 0x27 # ''telegram:'' @ [CHR 0x27]))
      else case parse_i64 (strip_all ''telegram:'' thread) of
        None \<Rightarrow> answered s c (rpc_error i (- 32602) ''thread chat_id must be integer'')
      | Some chat \<Rightarrow>
        if trim question = [] then answered s c (rpc_error i (- 32602) (se_say_ask env EmptyQuestion))
        else case Option.bind (jget args ''options'') as_array of
          None \<Rightarrow> answered s c (rpc_error i (- 32602) ''options must be an array'')
        | Some opts \<Rightarrow>
          case chat_ask (of_str (ca_new c)) (map_option (of_str \<circ> ar_id) (find (\<lambda>r. ar_conn r = ca_conn c \<and> alive r) (sv_reg s)))
              (se_keyboard env chat topic question) chat topic question (map ask_option opts) multi (ca_now c) (sv_asks s) of
            Inl e \<Rightarrow> answered s c (rpc_error i (ask_code e) (se_say_ask env e))
          | Inr t \<Rightarrow> answered (s\<lparr>sv_asks := t\<rparr>) c
              (rpc_reply env i (JObj [(''ask_id'', JStr (ca_new c)), (''status'', JStr ''pending'')])))"

section \<open>One frame\<close>

definition serve_pool :: "server_env \<Rightarrow> rpc_call \<Rightarrow> string \<Rightarrow> json \<Rightarrow> json \<Rightarrow> server \<Rightarrow> served" where
  "serve_pool env c tool i args s =
     (let ((d, cl), r) = handle_tool (se_pool env) (sv_reg s) tool args (ca_now c) (sv_pool s, sv_clears s)
      in answered (s\<lparr>sv_pool := d, sv_clears := cl\<rparr>) c
           (case r of Inr v \<Rightarrow> rpc_reply env i v | Inl e \<Rightarrow> rpc_error i (- 32602) (se_say_pool env e)))"

definition serve_tool :: "server_env \<Rightarrow> rpc_call \<Rightarrow> string \<Rightarrow> json \<Rightarrow> json \<Rightarrow> server \<Rightarrow> served" where
  "serve_tool env c tool i args s =
     (if tool = ''claudebase_daemon_status'' then answered s c (rpc_reply env i (JObj [(''status'', JStr ''up'')]))
      else if tool = ''chat_post'' \<or> tool = ''chat_reply'' then handle_chat_post env c tool i args s
      else if tool = ''chat_subscribe'' then handle_chat_subscribe env c i args s
      else if tool = ''chat_list'' then handle_chat_list env c i args s
      else if tool = ''chat_list_threads'' then handle_chat_list_threads env c i s
      else if tool = ''agent_register'' then handle_agent_register env c i args s
      else if tool = ''agent_rename'' then handle_agent_rename env c i args s
      else if tool = ''agent_bind_session'' then handle_agent_bind_session env c i args s
      else if tool = ''agent_describe'' then handle_agent_describe env c i args s
      else if tool = ''agent_send'' then handle_agent_send env c i args s
      else if tool = ''agent_set_dnd'' then handle_agent_set_dnd env c i args s
      else if tool = ''agent_unregister'' then handle_agent_unregister env c i args s
      else if tool = ''agent_list_alive'' then handle_agent_list_alive env c i args s
      else if tool = ''agent_reap'' then handle_agent_reap env c i args s
      else if tool = ''chat_ask'' then handle_chat_ask env c i args s
      else if tool = ''chat_list_pending_asks'' then handle_chat_list_pending_asks env c i args s
      else if starts_with tool ''pool_'' then serve_pool env c tool i args s
      else if starts_with tool ''session_''
      then answered s c (case session_tool (se_kill0 env) (se_host env) (se_texts env) (sv_reg s) (sv_nicks s) (sv_talks s) tool args of
             Some v \<Rightarrow> rpc_reply env i v | None \<Rightarrow> rpc_error i (- 32602) tool)
      else if starts_with tool ''auth_'' \<or> starts_with tool ''journal_'' then answered s c (se_other env tool args i)
      else answered s c (rpc_error i (- 32601) ''Method not found''))"

definition refused_remotely :: "peer \<Rightarrow> string \<Rightarrow> bool" where
  "refused_remotely p tool \<longleftrightarrow> (case p of Local \<Rightarrow> False | RemotePeer _ \<Rightarrow> \<not> remote_may_call tool)"

definition called_tool :: "json \<Rightarrow> string" where
  "called_tool v = given_or [] (Option.bind (pointer [''params'', ''name''] v) as_str)"

definition called_args :: "json \<Rightarrow> json" where
  "called_args v = given_or JNull (pointer [''params'', ''arguments''] v)"

definition serve_frame :: "server_env \<Rightarrow> json \<Rightarrow> peer \<Rightarrow> rpc_call \<Rightarrow> json option \<Rightarrow> server \<Rightarrow> served" where
  "serve_frame env tools p c inbound s =
     (case inbound of None \<Rightarrow> answered s c (rpc_error JNull (- 32700) ''Parse error'')
      | Some v \<Rightarrow>
        let i = jindex v ''id''; meth = given_or [] (get_str v ''method'') in
        if meth = ''tools/list''
        then answered s c (JObj [(''jsonrpc'', JStr ''2.0''), (''id'', i), (''result'', JObj [(''tools'', tools)])])
        else if meth = ''tools/call''
        then let tool = called_tool v; args = called_args v
             in if refused_remotely p tool
                then answered s c (rpc_error i (- 32601) (CHR 0x60 # tool @ CHR 0x60 # '' is not available over a remote connection; run it on the daemon'' @ CHR 0x27 # ''s machine''))
                else serve_tool env c tool i args s
        else answered s c (JObj [(''pong'', JNum (int (given_or 0 (Option.bind (jget v ''ping'') json_u64))))]))"

text \<open>The connection ends: its sessions are orphaned, its subscriptions gone.\<close>

definition connection_closed :: "string \<Rightarrow> server \<Rightarrow> server" where
  "connection_closed conn s =
     s\<lparr>sv_reg := fst (mark_connection_orphaned conn (sv_reg s)), sv_bus := filter (\<lambda>p. snd p \<noteq> conn) (sv_bus s)\<rparr>"

text \<open>A callback, on the daemon's own state.\<close>

definition serve_callback :: "server_env \<Rightarrow> rpc_call \<Rightarrow> callback_request \<Rightarrow> utext \<Rightarrow> server \<Rightarrow> server \<times> (string \<times> json) list \<times> callback_outcome" where
  "serve_callback env c req body s =
     (let (d, sent, out) = callback_dispatch (se_rfc env (ca_now c)) (ca_new c) (ca_now c) (sv_reg s) (sv_reg s) (sv_tokens s) (sv_bus s) req body (sv_chat s)
      in (s\<lparr>sv_chat := d\<rparr>, sent, out))"

section \<open>What the tables keep\<close>

definition server_ok :: "server \<Rightarrow> bool" where
  "server_ok s \<longleftrightarrow> reg_inv (sv_reg s, sv_bindings s) \<and> pk cm_id (messages (sv_chat s)) \<and> mirrored (sv_tokens s)
     \<and> pool_inv (sv_pool s) \<and> pk pa_id (sv_asks s) \<and> (\<forall>a \<in> set (sv_asks s). ask_thread_ok a)
     \<and> pk nick_key (sv_nicks s) \<and> pk fst (sv_talks s)"

lemma answered_simps [simp]:
  "sd_state (answered s c r) = s" "sd_out (answered s c r) = [(ca_conn c, r)]" "sd_telegram (answered s c r) = None"
  by (simp_all add: answered_def)

lemma pk_remember: "pk nick_key t \<Longrightarrow> pk nick_key (remember_nick h d x n now t)"
  by (auto simp: remember_nick_def put_nick_def Let_def nick_key_def intro!: pk_upsert)

lemma pk_talks: "pk fst t \<Longrightarrow> pk fst (remember_conversation_nick sid n now t)"
  by (auto simp: remember_conversation_nick_def intro!: pk_upsert)

lemma reg_inv_cong: "reg_inv (t, b) \<longleftrightarrow> constraints t \<and> pk cb_key b"
  by (simp add: reg_inv_def)

lemma mirrored_keep:
  assumes "mirrored s"
  shows "mirrored (fst (ensure_token raw n now s))" "mirrored (fst (rotate_token raw n now s))"
    "o1 \<noteq> n \<Longrightarrow> mirrored (fst (rename_token o1 n s))"
  using step_refines [OF assms, of "Ensure raw n now"] step_refines [OF assms, of "Rotate raw n now"]
    step_refines [OF assms, of "Move o1 n"] by auto

lemma insert_pk: "insert_message i th sn ct rp now d = Some (d', m) \<Longrightarrow> pk cm_id (messages d) \<Longrightarrow> pk cm_id (messages d')"
  by (auto simp: insert_message_def Let_def pk_snoc split: if_splits)

lemma send_pk: "send_message i sn tg ct now reg d = Inr (d', r) \<Longrightarrow> pk cm_id (messages d) \<Longrightarrow> pk cm_id (messages d')"
  by (auto simp: send_message_def Let_def pk_snoc split: if_splits option.splits)

lemma mark_pk: "pk cm_id (messages d) \<Longrightarrow> pk cm_id (messages (fst (mark_delivered i now d)))"
  by (simp add: mark_delivered_def Let_def pk_upd_where)

lemma drain_pk: "pk cm_id (messages d) \<Longrightarrow> pk cm_id (messages (fst (drain_backlog th now d)))"
  by (simp add: drain_backlog_eq pk_upd_where)

lemma ok_post: "server_ok s \<Longrightarrow> server_ok (sd_state (handle_chat_post env c tool i args s))"
  by (auto simp: handle_chat_post_def Let_def server_ok_def insert_pk split: option.split)

lemma ok_subscribe: "server_ok s \<Longrightarrow> server_ok (sd_state (handle_chat_subscribe env c i args s))"
  by (auto simp: handle_chat_subscribe_def Let_def server_ok_def split_beta drain_pk)

lemma ok_reads:
  "sd_state (handle_chat_list env c i args s) = s" "sd_state (handle_chat_list_threads env c i s) = s"
  "sd_state (handle_agent_list_alive env c i args s) = s" "sd_state (handle_chat_list_pending_asks env c i args s) = s"
  by (auto simp: handle_chat_list_def handle_chat_list_threads_def handle_agent_list_alive_def handle_chat_list_pending_asks_def
      Let_def split: option.split)

lemma ok_capture:
  assumes "server_ok s" shows "server_ok (capture_all env c args aid name s)"
proof -
  have reg: "constraints (sv_reg s)" using assms by (simp add: server_ok_def reg_inv_cong)
  have "constraints (sv_reg (capture_all env c args aid name s))"
    using reg by (auto simp: capture_all_def Let_def restore_bindings_for_def constraints_columns constraints_supersede constraints_restore_each
        split: option.split)
  then show ?thesis using assms
    by (auto simp: capture_all_def Let_def server_ok_def reg_inv_cong mirrored_keep pk_remember inv_join split: option.split bool.split sum.split)
qed

lemma ok_reg: "server_ok s \<Longrightarrow> constraints t \<Longrightarrow> server_ok (s\<lparr>sv_reg := t\<rparr>)"
  by (simp add: server_ok_def reg_inv_cong)

lemma ok_regD: "server_ok s \<Longrightarrow> constraints (sv_reg s)"
  by (simp add: server_ok_def reg_inv_cong)

lemma ok_register: "server_ok s \<Longrightarrow> server_ok (sd_state (handle_agent_register env c i args s))"
  by (auto simp: handle_agent_register_def intro!: ok_capture ok_reg dest: constraints_register split: option.split sum.split prod.split)

lemma ok_rename:
  assumes "server_ok s" "rename_in_place c aid new fresh s = Inr s'"
  shows "server_ok s'"
  using assms by (auto simp: rename_in_place_def Let_def server_ok_def reg_inv_cong mirrored_keep pk_remember pk_talks pk_bindings
      dest!: constraints_rename split: sum.splits option.splits if_splits prod.splits)

lemma ok_rename_tool: "server_ok s \<Longrightarrow> server_ok (sd_state (handle_agent_rename env c i args s))"
  by (auto simp: handle_agent_rename_def dest: ok_rename split: option.split sum.split)

lemma ok_bind: "server_ok s \<Longrightarrow> server_ok (sd_state (handle_agent_bind_session env c i args s))"
proof -
  assume s: "server_ok s"
  have 1: "server_ok (s\<lparr>sv_reg := capture_claude_session aid sid (sv_reg s)\<rparr>)" for aid sid
    using s by (intro ok_reg constraints_columns ok_regD)
  then have "server_ok (s\<lparr>sv_reg := capture_claude_session aid sid (sv_reg s), sv_talks := remember_conversation_nick sid n now (sv_talks s)\<rparr>)" for aid sid n now
    using 1 [of aid sid] by (simp add: server_ok_def pk_talks)
  then show ?thesis using s 1 ok_rename [OF 1]
    by (auto simp: handle_agent_bind_session_def Let_def split: option.split sum.split)
qed

lemma ok_describe: "server_ok s \<Longrightarrow> server_ok (sd_state (handle_agent_describe env c i args s))"
  by (auto simp: handle_agent_describe_def split_beta Let_def constraints_columns ok_regD intro!: ok_reg split: option.split sum.split)

lemma ok_chat: "server_ok s \<Longrightarrow> pk cm_id (messages d) \<Longrightarrow> server_ok (s\<lparr>sv_chat := d\<rparr>)"
  by (simp add: server_ok_def)

lemma ok_chatD: "server_ok s \<Longrightarrow> pk cm_id (messages (sv_chat s))"
  by (simp add: server_ok_def)

lemma ok_deliver: "server_ok s \<Longrightarrow> server_ok (fst (deliver_now env c content sender target th mid dr s))"
  by (auto simp: deliver_now_def Let_def intro!: ok_chat mark_pk ok_chatD)

lemma ok_drained: "server_ok s \<Longrightarrow> server_ok (fst (publish_drained env c ms s))"
  by (induction ms arbitrary: s) (auto simp: split_beta Let_def ok_deliver)

lemma ok_send: "server_ok s \<Longrightarrow> server_ok (sd_state (handle_agent_send env c i args s))"
  by (auto simp: handle_agent_send_def split_beta Let_def send_pk ok_chatD intro!: ok_deliver ok_chat
      split: option.split sum.split prod.split send_decision.split)

lemma ok_dnd: "server_ok s \<Longrightarrow> server_ok (sd_state (handle_agent_set_dnd env c i args s))"
  by (auto simp: handle_agent_set_dnd_def split_beta Let_def constraints_columns ok_regD intro!: ok_drained ok_reg split: option.split sum.split)

lemma ok_leave: "server_ok s \<Longrightarrow> server_ok (sd_state (handle_agent_unregister env c i args s))"
  "server_ok s \<Longrightarrow> server_ok (sd_state (handle_agent_reap env c i args s))"
  by (auto simp: handle_agent_unregister_def handle_agent_reap_def split_beta Let_def constraints_unregister constraints_lifecycle ok_regD
      intro!: ok_reg split: option.split)

lemma ok_asked:
  assumes "chat_ask n ag snd1 chat th q opts m now (sv_asks s) = Inr t" "server_ok s"
  shows "server_ok (s\<lparr>sv_asks := t\<rparr>)"
proof -
  obtain a where "insert_pending a (sv_asks s) = Inr t"
    using assms(1) by (auto simp: chat_ask_def split: if_splits sum.splits option.splits)
  then show ?thesis using assms(2) by (auto simp: insert_pending_def server_ok_def pk_snoc split: if_splits)
qed

lemma ok_ask: "server_ok s \<Longrightarrow> server_ok (sd_state (handle_chat_ask env c i args s))"
  by (simp add: handle_chat_ask_def Let_def ok_asked split: option.split sum.split)

lemma inv_handle_tool: "pool_inv d \<Longrightarrow> pool_inv (fst (fst (handle_tool env reg tool args now (d, cl))))"
  by (auto simp: handle_tool_def Let_def split_beta worker_ready_def inv_reply inv_fail inv_trust split: option.split sum.split)

lemma ok_pool: "server_ok s \<Longrightarrow> server_ok (sd_state (serve_pool env c tool i args s))"
  using inv_handle_tool [of "sv_pool s" "se_pool env" "sv_reg s" tool args "ca_now c" "sv_clears s"]
  by (auto simp: serve_pool_def split_beta Let_def server_ok_def)

lemma ok_tool: "server_ok s \<Longrightarrow> server_ok (sd_state (serve_tool env c tool i args s))"
  by (simp add: serve_tool_def ok_post ok_subscribe ok_reads ok_register ok_rename_tool ok_bind ok_describe ok_send ok_dnd ok_leave ok_ask ok_pool)

lemma ok_frame: "server_ok s \<Longrightarrow> server_ok (sd_state (serve_frame env tools p c inbound s))"
  by (simp add: serve_frame_def ok_tool Let_def split: option.split)

lemma ok_closed: "server_ok s \<Longrightarrow> server_ok (connection_closed conn s)"
  using constraints_lifecycle(1) [OF ok_regD] by (simp add: connection_closed_def server_ok_def reg_inv_cong)

lemma constraints_drain_each: "constraints t \<Longrightarrow> constraints (fst (drain_each as rate t d))"
  by (simp add: drain_each_eq) (rule constraints_shrink, auto simp: alive_def)

lemma ok_tick: "server_ok s \<Longrightarrow> server_ok (fst (server_tick env c rate s))"
  by (auto simp: server_tick_def drain_dnd_tick_def split_beta Let_def constraints_drain_each ok_regD intro!: ok_drained ok_reg)

lemma ok_callback: "server_ok s \<Longrightarrow> server_ok (fst (serve_callback env c req body s))"
  by (auto simp: serve_callback_def callback_dispatch_def deliver_resolved_def Let_def split_beta send_pk ok_chatD intro!: ok_chat
      split: sum.split)

datatype server_op =
    Serve json peer rpc_call "json option" | Close string | Tick rpc_call nat | CallIn rpc_call callback_request utext

fun server_run :: "server_env \<Rightarrow> server_op \<Rightarrow> server \<Rightarrow> server" where
  "server_run env (Serve tools p c v) s = sd_state (serve_frame env tools p c v s)"
| "server_run env (Close conn) s = connection_closed conn s"
| "server_run env (Tick c rate) s = fst (server_tick env c rate s)"
| "server_run env (CallIn c req body) s = fst (serve_callback env c req body s)"

inductive server_step :: "server_env \<Rightarrow> server \<Rightarrow> server \<Rightarrow> bool" for env where
  server_stepI: "server_step env s (server_run env op s)"

inductive_cases server_stepE: "server_step env s s'"

definition new_server :: server where
  "new_server = \<lparr>sv_reg = [], sv_bindings = [], sv_chat = \<lparr>threads = [], messages = []\<rparr>, sv_nicks = [], sv_talks = [],
     sv_tokens = no_tokens, sv_pool = empty_pool, sv_clears = Map.empty, sv_asks = [], sv_bus = []\<rparr>"

lemma ok_run: "server_ok s \<Longrightarrow> server_ok (server_run env op s)"
  by (cases op) (simp_all add: ok_frame ok_closed ok_tick ok_callback)

interpretation daemon_run: transition_system "\<lambda>s. s = new_server" "server_step env" server_ok
proof unfold_locales
  show "s = new_server \<Longrightarrow> server_ok s" for s
    by (simp add: new_server_def server_ok_def reg_inv_def constraints_def name_idx_def routing_idx_def uniq_where_def pk_def
        mirrored_def no_tokens_def token_for_def pool_inv_def empty_pool_def leased_to_def)
  show "server_step env s t \<Longrightarrow> server_ok s \<Longrightarrow> server_ok t" for s t by (auto elim: server_stepE simp: ok_run)
qed


text \<open>A concrete request: one session sends another a message.\<close>

definition demo_env :: server_env where
  "demo_env = \<lparr>se_print = (\<lambda>_. ''p''), se_rfc = (\<lambda>_. ''now''), se_kill0 = (\<lambda>_. True), se_host = ''h'', se_uuid = (\<lambda>_. False),
     se_lower = id, se_today = (\<lambda>_ _. None), se_project = id, se_branch = (\<lambda>_. None),
     se_pool = \<lparr>host_file = (\<lambda>_. None), b64 = id, unb64 = Some, ser_pretty = (\<lambda>_. []), ser = (\<lambda>_. []), des = (\<lambda>_. None),
       job_dir = id, disk_ok = (\<lambda>_. True)\<rparr>,
     se_say = (\<lambda>_. ''e''), se_say_pool = (\<lambda>_. ''e''), se_say_ask = (\<lambda>_. ''e''), se_keyboard = (\<lambda>_ _ _ _. None),
     se_texts = (\<lambda>_ _. None), se_other = (\<lambda>_ _ i. i)\<rparr>"

definition demo_call :: rpc_call where "demo_call = \<lparr>ca_conn = ''c1'', ca_new = ''m1'', ca_raw = ''raw'', ca_now = 9\<rparr>"

definition demo_args :: json where "demo_args = JObj [(''to_agent_id'', JStr ''idb''), (''content'', JStr ''hello'')]"

definition demo_frame :: json where
  "demo_frame = JObj [(''id'', JNum 1), (''method'', JStr ''tools/call''),
     (''params'', JObj [(''name'', JStr ''agent_send''), (''arguments'', demo_args)])]"


end
