(* ===== verification/Messaging.thy ===== *)
theory Messaging
  imports Server
begin

text \<open>
  What the daemon's requests promise across its parts: who a message is from, that it arrives, that a
  renamed session is reached under its new name by every route, and that a conversation keeps its name.
\<close>

section \<open>Who a message is from\<close>

lemma first_id_Some: "first_id t = Some a \<Longrightarrow> \<exists>r \<in> set t. ar_id r = a"
  by (cases t) (auto simp: first_id_def)

lemma proves_row:
  assumes "proves args a s"
  shows "\<exists>r \<in> set (sv_reg s). ar_id r = a \<and> alive r \<and> (\<exists>t. t \<noteq> [] \<and> get_str args ''session_token'' = Some t \<and> ar_token r = Some t)"
proof -
  obtain t where t: "get_str args ''session_token'' = Some t" "t \<noteq> []"
    using assms by (cases "get_str args ''session_token''") (auto simp: proves_def resolve_session_token_def split: if_splits)
  have "resolve_session_token a t (sv_reg s)" using assms t by (simp add: proves_def)
  then obtain r where r: "find (\<lambda>r. ar_id r = a \<and> alive r) (sv_reg s) = Some r" "ar_token r = Some t"
    using t(2) by (auto simp: resolve_session_token_def split: option.splits)
  have "r \<in> set (sv_reg s) \<and> ar_id r = a \<and> alive r" using find_SomeD [OF r(1)] .
  then show ?thesis using t r(2) by blast
qed

lemma caller_alive:
  assumes "caller_of c args s = Inr a"
  shows "\<exists>r \<in> set (sv_reg s). ar_id r = a \<and> alive r
    \<and> (ar_conn r = ca_conn c \<or> (\<exists>t. t \<noteq> [] \<and> get_str args ''session_token'' = Some t \<and> ar_token r = Some t))"
proof (cases "lookup_agent_id_by_connection (ca_conn c) (sv_reg s)")
  case (Some b)
  then show ?thesis using assms
    by (force simp: caller_of_def lookup_agent_id_by_connection_def by_ping_set dest!: first_id_Some)
next
  case None
  then have "proves args a s" using assms by (auto simp: caller_of_def split: option.splits if_splits)
  then show ?thesis using proves_row by blast
qed

lemma erase_marked: "map erase (messages (fst (mark_delivered i now d))) = map erase (messages d)"
  by (simp add: mark_delivered_def Let_def upd_where_def erase_def)

lemma ids_of_erased: "map erase ms = map erase ms' \<Longrightarrow> cm_id ` set ms = cm_id ` set ms'"
proof -
  assume "map erase ms = map erase ms'"
  then have "map cm_id (map erase ms) = map cm_id (map erase ms')" by (rule arg_cong)
  then have "map cm_id ms = map cm_id ms'" by (simp add: comp_def)
  then show ?thesis by (metis set_map)
qed

lemma deliver_now_ids: "cm_id ` set (messages (sv_chat (fst (deliver_now env c content sender target th mid dr s)))) = cm_id ` set (messages (sv_chat s))"
  by (auto simp: deliver_now_def Let_def intro!: ids_of_erased erase_marked)

lemma publish_drained_ids: "cm_id ` set (messages (sv_chat (fst (publish_drained env c ms s)))) = cm_id ` set (messages (sv_chat s))"
  by (induction ms arbitrary: s) (auto simp: split_beta Let_def deliver_now_ids)

lemma drain_ids:
  assumes "pk cm_id (messages d)"
  shows "cm_id ` set (messages (fst (drain_backlog th now d))) = cm_id ` set (messages d)"
proof -
  have "map cm_id (messages (fst (drain_backlog th now d))) = map cm_id (messages d)"
    by (simp add: drain_backlog_eq [OF assms] keys_upd_where)
  then show ?thesis by (metis set_map)
qed

lemma other_tools_ids:
  assumes "pk cm_id (messages (sv_chat s))" "tool \<notin> {''chat_post'', ''chat_reply'', ''agent_send''}"
  shows "cm_id ` set (messages (sv_chat (sd_state (serve_tool env c tool i args s)))) = cm_id ` set (messages (sv_chat s))"
proof -
  have sub: "cm_id ` set (messages (sv_chat (sd_state (handle_chat_subscribe env c i args s)))) = cm_id ` set (messages (sv_chat s))"
    using drain_ids [OF assms(1)] by (simp add: handle_chat_subscribe_def Let_def split_beta)
  have reg: "sv_chat (sd_state (handle_agent_register env c i args s)) = sv_chat s"
    by (simp add: handle_agent_register_def capture_all_def Let_def split: option.split sum.split prod.split)
  have ren: "sv_chat s' = sv_chat s1" if "rename_in_place c a n f s1 = Inr s'" for a n f s1 s'
    using that by (auto simp: rename_in_place_def Let_def split: sum.splits option.splits if_splits prod.splits)
  have ren1: "sv_chat (sd_state (handle_agent_rename env c i args s)) = sv_chat s"
    by (auto simp: handle_agent_rename_def dest: ren split: option.split sum.split)
  have bind: "sv_chat (sd_state (handle_agent_bind_session env c i args s)) = sv_chat s"
    by (auto simp: handle_agent_bind_session_def Let_def dest!: ren split: option.split sum.split)
  have desc: "sv_chat (sd_state (handle_agent_describe env c i args s)) = sv_chat s"
    "sv_chat (sd_state (handle_agent_unregister env c i args s)) = sv_chat s"
    "sv_chat (sd_state (handle_agent_reap env c i args s)) = sv_chat s"
    "sv_chat (sd_state (handle_chat_ask env c i args s)) = sv_chat s"
    "sv_chat (sd_state (serve_pool env c tool i args s)) = sv_chat s"
    by (simp_all add: handle_agent_describe_def handle_agent_unregister_def handle_agent_reap_def handle_chat_ask_def serve_pool_def Let_def
        split_beta split: option.split sum.split)
  have dnd: "cm_id ` set (messages (sv_chat (sd_state (handle_agent_set_dnd env c i args s)))) = cm_id ` set (messages (sv_chat s))"
    by (simp add: handle_agent_set_dnd_def Let_def split_beta publish_drained_ids split: option.split sum.split)
  show ?thesis using assms(2) by (simp add: serve_tool_def sub reg ren1 bind desc dnd ok_reads)
qed

lemma post_rows:
  assumes "m \<in> set (messages (sv_chat (sd_state (handle_chat_post env c tool i args s))))" "cm_id m \<notin> cm_id ` set (messages (sv_chat s))"
  shows "cm_from m = given_or ''unknown'' (get_str args ''from'')"
  using assms by (auto simp: handle_chat_post_def insert_message_def Let_def split: option.splits if_splits)

lemma send_rows:
  assumes "m \<in> set (messages (sv_chat (sd_state (handle_agent_send env c i args s))))" "cm_id m \<notin> cm_id ` set (messages (sv_chat s))"
  shows "caller_of c args s = Inr (cm_from m) \<and> (\<exists>t. nonempty_str args ''to_agent_id'' = Some t \<and> cm_thread m = agent_thread t)"
proof -
  obtain t k a d mid w where h: "nonempty_str args ''to_agent_id'' = Some t" "nonempty_str args ''content'' = Some k"
    "caller_of c args s = Inr a" "send_message (ca_new c) a t k (ca_now c) (sv_reg s) (sv_chat s) = Inr (d, mid, w)"
    using assms by (auto simp: handle_agent_send_def split: option.splits sum.splits prod.splits)
  let ?new = "\<lparr>cm_id = ca_new c, cm_thread = agent_thread t, cm_from = a, cm_content = k, cm_reply = None, cm_created = ca_now c,
      cm_delivered = None, cm_voice = False, cm_topic = None\<rparr>"
  have d: "messages d = messages (sv_chat s) @ [?new]" using send_message_Inr [OF h(4)] by simp
  define d' where "d' = sv_chat (sd_state (handle_agent_send env c i args s))"
  have e: "map erase (messages d') = map erase (messages d)"
    using h by (auto simp: d'_def handle_agent_send_def deliver_now_def Let_def split_beta erase_marked split: send_decision.splits)
  have "erase m \<in> set (map erase (messages d'))" using assms(1) by (simp add: d'_def)
  then obtain m' where m': "m' \<in> set (messages d)" "erase m = erase m'" unfolding e by auto
  then have "cm_id m = cm_id m'" by (metis erase_id)
  then have "m' = ?new" using m'(1) assms(2) d by auto
  then have "cm_from m = a \<and> cm_thread m = agent_thread t" using m'(2) by (cases m) (simp add: erase_def)
  then show ?thesis using h by auto
qed

text \<open>
  C2: A message that \<open>agent_send\<close> stores is from the session that is registered on the very connection it
  came over, or from one whose secret token was shown with it; and no other request stores a message but
  the two chat tools, which sign with what they are told.
\<close>

theorem sends_are_signed:
  assumes "server_ok s" "m \<in> set (messages (sv_chat (sd_state (serve_frame env tools p c v s))))" "cm_id m \<notin> cm_id ` set (messages (sv_chat s))"
  shows "\<exists>w. v = Some w \<and> \<not> refused_remotely p (called_tool w)
    \<and> (called_tool w = ''agent_send'' \<and> (\<exists>t. nonempty_str (called_args w) ''to_agent_id'' = Some t \<and> cm_thread m = agent_thread t)
         \<and> (\<exists>r \<in> set (sv_reg s). ar_id r = cm_from m \<and> alive r
              \<and> (ar_conn r = ca_conn c \<or> (\<exists>t. t \<noteq> [] \<and> get_str (called_args w) ''session_token'' = Some t \<and> ar_token r = Some t)))
       \<or> called_tool w \<in> {''chat_post'', ''chat_reply''} \<and> cm_from m = given_or ''unknown'' (get_str (called_args w) ''from''))"
proof -
  obtain w where v: "v = Some w" using assms(2,3) by (cases v) (auto simp: serve_frame_def)
  have w: "\<not> refused_remotely p (called_tool w)" "m \<in> set (messages (sv_chat (sd_state (serve_tool env c (called_tool w) (jindex w ''id'') (called_args w) s))))"
    using assms(2,3) unfolding v by (auto simp: serve_frame_def Let_def split: if_splits)
  have "called_tool w \<in> {''chat_post'', ''chat_reply'', ''agent_send''}"
    using other_tools_ids [OF ok_chatD [OF assms(1)], of "called_tool w" env c "jindex w ''id''" "called_args w"] w(2) assms(3) by blast
  then consider "called_tool w = ''agent_send''" | "called_tool w \<in> {''chat_post'', ''chat_reply''}" by blast
  then show ?thesis
  proof cases
    case 1
    then have "m \<in> set (messages (sv_chat (sd_state (handle_agent_send env c (jindex w ''id'') (called_args w) s))))"
      using w(2) by (simp add: serve_tool_def)
    from send_rows [OF this assms(3)] caller_alive show ?thesis using v w(1) 1 by blast
  next
    case 2
    then have "m \<in> set (messages (sv_chat (sd_state (handle_chat_post env c (called_tool w) (jindex w ''id'') (called_args w) s))))"
      using w(2) by (auto simp: serve_tool_def)
    from post_rows [OF this assms(3)] show ?thesis using v w(1) 2 by blast
  qed
qed

section \<open>It arrives\<close>

definition sent_message :: "rpc_call \<Rightarrow> string \<Rightarrow> string \<Rightarrow> string \<Rightarrow> message" where
  "sent_message c sender target content =
     \<lparr>cm_id = ca_new c, cm_thread = agent_thread target, cm_from = sender, cm_content = content, cm_reply = None,
      cm_created = ca_now c, cm_delivered = None, cm_voice = False, cm_topic = None\<rparr>"

definition quiet :: "rpc_call \<Rightarrow> agent_row \<Rightarrow> bool" where
  "quiet c r \<longleftrightarrow> (case ar_dnd r of Some ts \<Rightarrow> ca_now c < ts | None \<Rightarrow> False)"

lemma send_accepted:
  assumes "row_of ar_id target reg = Some r" "alive r" "ca_new c \<notin> cm_id ` set (messages d)"
  shows "send_message (ca_new c) sender target content (ca_now c) reg d
    = Inr (d\<lparr>messages := messages d @ [sent_message c sender target content]\<rparr>, ca_new c,
        case ar_dnd r of Some ts \<Rightarrow> if ca_now c < ts then Queue ts else Deliver | None \<Rightarrow> Deliver)"
  using assms by (simp add: send_message_def alive_def sent_message_def Let_def)

text \<open>What the next subscription of a thread is handed.\<close>

lemma subscribe_hands_over:
  assumes "m \<in> set (messages (sv_chat s))" "undelivered thread m" "thread \<noteq> []"
  shows "\<exists>ms. sd_out (handle_chat_subscribe env c i (JObj [(''thread'', JStr thread)]) s)
      = [(ca_conn c, rpc_reply env i (JObj [(''thread'', JStr thread), (''messages'', JArr (map message_json ms))]))] \<and> m \<in> set ms"
  using assms by (intro exI [of _ "by_time (filter (undelivered thread) (messages (sv_chat s)))"])
    (simp add: handle_chat_subscribe_def drain_backlog_def Let_def)

text \<open>
  C1: From the command to the terminal: a message accepted for a live session is put at once on every
  connection that holds the session's thread, where the session's supervisor types it under the sender's
  nick, and is stamped, so that it is not handed out again; when nobody holds the thread or the session
  is in do-not-disturb nothing is sent, and the next subscription of the thread is handed the message.
  Assumed of the JSON printer: it is read back and writes no line break.
\<close>

theorem agent_message_arrives:
  assumes "server_ok s" and to: "nonempty_str args ''to_agent_id'' = Some target" "nonempty_str args ''content'' = Some content"
    and who: "caller_of c args s = Inr sender"
    and live: "row_of ar_id target (sv_reg s) = Some r" "alive r" "ca_new c \<notin> cm_id ` set (messages (sv_chat s))"
    and pre: "parse (se_print env (agent_preamble sender target (ca_new c) False)) = Some (agent_preamble sender target (ca_new c) False)"
    and line: "CHR 0x0A \<notin> set (se_print env (agent_preamble sender target (ca_new c) False))"
    and own: "or_thread orc (agent_thread target)"
  shows "let done = handle_agent_send env c i args s; subs = bus_publish (agent_thread target) (sv_bus s) in
    if \<not> quiet c r \<and> subs \<noteq> []
    then (\<exists>f. (\<forall>k \<in> set subs. (k, f) \<in> set (sd_out done))
            \<and> pump_frame uni parse target orc now f p
              = (p, [\<lparr>in_id = ca_new c, in_body = render uni (Agent (text_of (or_nick orc sender))) (text_of content)\<rparr>], []))
      \<and> ca_new c \<notin> cm_id ` set (snd (drain_backlog (agent_thread target) later (sv_chat (sd_state done))))
    else map fst (sd_out done) = [ca_conn c]
      \<and> (\<exists>ms. sd_out (handle_chat_subscribe env c2 i2 (JObj [(''thread'', JStr (agent_thread target))]) (sd_state done))
             = [(ca_conn c2, rpc_reply env i2 (JObj [(''thread'', JStr (agent_thread target)), (''messages'', JArr (map message_json ms))]))]
           \<and> sent_message c sender target content \<in> set ms)"
proof -
  let ?subs = "bus_publish (agent_thread target) (sv_bus s)" and ?m = "sent_message c sender target content"
  define d where "d = (sv_chat s)\<lparr>messages := messages (sv_chat s) @ [?m]\<rparr>"
  define f where "f = agent_frame (se_print env) (se_rfc env (ca_now c)) content sender target (ca_new c) False"
  note sent = send_accepted [OF live, of sender content, folded d_def]
  have pk: "pk cm_id (messages d)" using ok_chatD [OF assms(1)] live(3) by (simp add: d_def pk_snoc sent_message_def)
  have pub: "publish (agent_thread target) f (s\<lparr>sv_chat := d\<rparr>) = map (\<lambda>k. (k, f)) ?subs" by (simp add: publish_def)
  show ?thesis
  proof (cases "\<not> quiet c r \<and> ?subs \<noteq> []")
    case True
    then have dec: "(case ar_dnd r of Some ts \<Rightarrow> if ca_now c < ts then Queue ts else Deliver | None \<Rightarrow> Deliver) = Deliver"
      by (auto simp: quiet_def split: option.splits)
    have out: "sv_chat (sd_state (handle_agent_send env c i args s)) = fst (mark_delivered (ca_new c) (ca_now c) d)"
      "\<forall>k \<in> set ?subs. (k, f) \<in> set (sd_out (handle_agent_send env c i args s))"
      using True to who sent dec by (simp_all add: handle_agent_send_def deliver_now_def Let_def split_beta f_def [symmetric] pub)
    have "\<forall>x \<in> set (messages (fst (mark_delivered (ca_new c) (ca_now c) d))). cm_delivered x = None \<longrightarrow> cm_id x \<noteq> ca_new c"
      by (auto simp: mark_delivered_def Let_def set_upd_where)
    then have "ca_new c \<notin> cm_id ` set (snd (drain_backlog (agent_thread target) later (fst (mark_delivered (ca_new c) (ca_now c) d))))"
      by (auto simp: drain_backlog_eq [OF mark_pk [OF pk]] undelivered_def)
    moreover have "pump_frame uni parse target orc now f p
        = (p, [\<lparr>in_id = ca_new c, in_body = render uni (Agent (text_of (or_nick orc sender))) (text_of content)\<rparr>], [])"
      unfolding f_def by (rule agent_body [of parse "se_print env" sender target "ca_new c" False, OF pre line own])
    ultimately show ?thesis using True out by (auto simp: Let_def)
  next
    case False
    have "sd_state (handle_agent_send env c i args s) = s\<lparr>sv_chat := d\<rparr> \<and> map fst (sd_out (handle_agent_send env c i args s)) = [ca_conn c]"
      using False to who sent by (auto simp: handle_agent_send_def deliver_now_def Let_def split_beta f_def [symmetric] pub quiet_def
          split: option.splits if_splits)
    moreover have "?m \<in> set (messages d)" "undelivered (agent_thread target) ?m" by (simp_all add: d_def undelivered_def sent_message_def)
    ultimately show ?thesis using False subscribe_hands_over [of ?m "s\<lparr>sv_chat := d\<rparr>" "agent_thread target" env c2 i2]
      by (auto simp: Let_def agent_thread_def)
  qed
qed

section \<open>A new name\<close>

lemma rename_parts:
  assumes "rename_in_place c aid new fresh s = Inr s'"
  shows "\<exists>n. rename aid new (sv_reg s) = Inr (sv_reg s', n) \<and> n \<noteq> 0" "sv_chat s' = sv_chat s" "sv_bus s' = sv_bus s" "sv_pool s' = sv_pool s"
    and "nick_of aid (sv_reg s) = Some old \<Longrightarrow> old \<noteq> new \<Longrightarrow> sv_tokens s' = (let tk = fst (rename_token old new (sv_tokens s))
         in if fresh then fst (rotate_token (ca_raw c) new (ca_now c) tk) else tk)"
    and "nick_of aid (sv_reg s) = Some old \<Longrightarrow> old \<noteq> new \<Longrightarrow> sv_bindings s' = fst (migrate_bindings old new (sv_bindings s))"
    and "row_of ar_id aid (sv_reg s') = Some r \<Longrightarrow> ar_host r = Some h \<Longrightarrow> ar_cwd r = Some d \<Longrightarrow>
       sv_nicks s' = remember_nick h d (given_or [] (ar_terminal r)) new (ca_now c) (sv_nicks s)"
    and "claude_session_of aid (sv_reg s') = Some sid \<Longrightarrow> sv_talks s' = remember_conversation_nick sid new (ca_now c) (sv_talks s)"
  using assms by (auto simp: rename_in_place_def Let_def split: sum.splits option.splits if_splits prod.splits)

lemma rename_rows:
  assumes "rename aid new t = Inr (t', n)"
  shows "t' = upd_where (\<lambda>r. ar_id r = aid) (\<lambda>r. r\<lparr>ar_name := new\<rparr>) t" "constraints t'" "n = count_where (\<lambda>r. ar_id r = aid) t"
    "valid_agent_name new"
  using assms by (auto simp: rename_def Let_def split: if_splits sum.splits)

lemma renamed_row:
  assumes "rename aid new t = Inr (t', n)" "row_of ar_id aid t = Some r"
  shows "row_of ar_id aid t' = Some (r\<lparr>ar_name := new\<rparr>)"
  unfolding rename_rows(1) [OF assms(1)] using assms(2) row_of_Some [OF assms(2)] by (simp add: row_of_upd_where)

lemma chats_after_migrate:
  "chats_bound_to_name new (fst (migrate_bindings old new bs))
     = map (\<lambda>b. (cb_chat b, if cb_thread b < 0 then None else Some (cb_thread b))) (filter (\<lambda>b. cb_name b = new \<or> cb_name b = old) bs)"
  "old \<noteq> new \<Longrightarrow> chats_bound_to_name old (fst (migrate_bindings old new bs)) = []"
  by (induction bs) (auto simp: chats_bound_to_name_def migrate_bindings_def)


section \<open>A conversation and its name\<close>

lemma rename_succeeds:
  assumes "constraints t" "valid_agent_name new" "\<forall>r \<in> set t. ar_name r = new \<and> ar_id r \<noteq> aid \<longrightarrow> \<not> alive r"
  shows "rename aid new t = Inr (upd_where (\<lambda>r. ar_id r = aid) (\<lambda>r. r\<lparr>ar_name := new\<rparr>) t, count_where (\<lambda>r. ar_id r = aid) t)"
proof -
  let ?f = "\<lambda>r :: agent_row. r\<lparr>ar_name := new\<rparr>"
  have "name_idx (upd_where (\<lambda>r. ar_id r = aid \<and> True) ?f t)" unfolding name_idx_def
    by (rule uniq_where_set_one [OF constraintsD(1) [OF assms(1)] constraintsD(2) [OF assms(1), unfolded name_idx_def]])
      (use assms(3) in auto)
  moreover have "routing_idx (upd_where (\<lambda>r. ar_id r = aid) ?f t)"
    using constraintsD(3) [OF assms(1)] unfolding routing_idx_def by (rule uniq_where_shrink) (auto simp: route_key_def alive_def)
  ultimately have "constraints (upd_where (\<lambda>r. ar_id r = aid) ?f t)"
    using constraintsD(1,4) [OF assms(1)] by (auto simp: constraints_def pk_upd_where set_upd_where)
  moreover have "find (\<lambda>r. ar_name r = new \<and> ar_id r \<noteq> aid \<and> alive r) t = None"
    using assms(3) by (auto simp: find_None_iff)
  ultimately show ?thesis using assms(2) by (simp add: rename_def Let_def)
qed

lemma nick_of_captured: "nick_of a (capture_claude_session aid sid t) = nick_of a t"
  by (cases "row_of ar_id a t") (auto simp: nick_of_def capture_claude_session_def row_of_upd_where)

lemma ok_captured: "server_ok s \<Longrightarrow> server_ok (s\<lparr>sv_reg := capture_claude_session aid sid (sv_reg s)\<rparr>)"
  by (intro ok_reg constraints_columns ok_regD)


text \<open>
  A row left alive by a process that is gone does not count as holding the name, but stands in the way of
  the rename: the conversation gets an error and keeps another name.
\<close>

lemma stale_row_blocks_conversation:
  assumes args: "nonempty_str args ''from_agent_id'' = Some aid" "trimmed_str args ''session_id'' = Some sid" and "proves args aid s"
    and "recall_conversation_nick sid (sv_talks s) = Some nick" "nick_of aid (sv_reg s) \<noteq> Some nick" "nick \<noteq> []" "valid_agent_name nick"
    and free: "\<not> nick_is_taken (se_kill0 env) (se_host env) nick (Some aid) (capture_claude_session aid sid (sv_reg s))"
    and stale: "r \<in> set (sv_reg s)" "ar_name r = nick" "ar_id r \<noteq> aid" "alive r"
  shows "sd_out (handle_agent_bind_session env c i args s) = [(ca_conn c, rpc_error i (- 32603) (se_say env (NickTaken nick)))]
    \<and> nick_of aid (sv_reg (sd_state (handle_agent_bind_session env c i args s))) = nick_of aid (sv_reg s)"
proof -
  let ?t = "capture_claude_session aid sid (sv_reg s)"
  have "r \<in> set ?t" using stale by (auto simp: capture_claude_session_def set_upd_where)
  then have "find (\<lambda>r. ar_name r = nick \<and> ar_id r \<noteq> aid \<and> alive r) ?t \<noteq> None" using stale by (auto simp: find_None_iff)
  then have "rename aid nick ?t = Inl (NickTaken nick)" using assms(7) by (simp add: rename_def)
  then have "rename_in_place c aid nick False (s\<lparr>sv_reg := ?t\<rparr>) = Inl (Some (NickTaken nick))" by (simp add: rename_in_place_def)
  moreover have "nick \<noteq> given_or [] (nick_of aid (sv_reg s))"
    using assms(5,6) by (cases "nick_of aid (sv_reg s)") (auto simp: given_or_def)
  ultimately show ?thesis using args assms(3,4) free
    by (simp add: handle_agent_bind_session_def Let_def nick_of_captured say_rename_def)
qed

section \<open>Who may take a session's place\<close>

text \<open>Taking a session off the map asks for no proof of who asks.\<close>

lemma anyone_unregisters:
  assumes "nonempty_str args ''agent_id'' = Some aid"
  shows "\<not> agent_alive aid (sv_reg (sd_state (handle_agent_unregister env c i args s)))"
proof -
  have "\<not> agent_alive aid (fst (unregister aid t))" for t
  proof (cases "row_of ar_id aid t")
    case None
    then have "\<forall>r \<in> set t. ar_id r \<noteq> aid" unfolding row_of_None by blast
    then show ?thesis using None by (simp add: unregister_def agent_alive_def list_ex_iff)
  next
    case (Some r)
    then have e: "fst (unregister aid t) = upd_where (\<lambda>r. ar_id r = aid) (\<lambda>r. r\<lparr>ar_state := Dead\<rparr>) t" by (simp add: unregister_def)
    have "\<not> alive (r\<lparr>ar_state := Dead\<rparr>)" for r by (simp add: alive_def)
    then show ?thesis unfolding e agent_alive_def list_ex_iff upd_where_def by (auto split: if_splits)
  qed
  then show ?thesis using assms by (simp add: handle_agent_unregister_def split_beta Let_def)
qed

section \<open>The statements on a concrete daemon\<close>

text \<open>Two sessions in two connections; the second one's thread is held by its supervisor.\<close>

definition demo_row :: agent_row where
  "demo_row = (fresh_row ''ida'' ''ann'' ''c1'' None None 1)
     \<lparr>ar_host := Some ''h'', ar_cwd := Some ''d'', ar_token := Some ''secret'', ar_session := Some ''talk''\<rparr>"

definition demo_server :: server where
  "demo_server = new_server\<lparr>sv_reg := [demo_row, fresh_row ''idb'' ''bob'' ''c2'' None None 2],
     sv_tokens := fst (ensure_token ''tok'' ''ann'' 1 no_tokens), sv_talks := [(''old'', ''mira'', 1)],
     sv_bindings := [\<lparr>cb_chat = 5, cb_thread = - 1, cb_name = ''ann'', cb_at = 1\<rparr>],
     sv_bus := [(''agent:idb'', ''c2'')]\<rparr>"

lemma demo_ok: "server_ok demo_server"
proof -
  have "constraints (sv_reg demo_server)" by code_simp
  moreover have "mirrored (sv_tokens demo_server)"
    using mirrored_keep(1) [of no_tokens "''tok''" "''ann''" 1]
    by (simp add: demo_server_def) (simp add: mirrored_def no_tokens_def token_for_def pk_def)
  ultimately show ?thesis
    by (simp add: server_ok_def reg_inv_cong demo_server_def new_server_def pool_inv_def empty_pool_def leased_to_def pk_def)
qed

lemma demo_sent:
  "messages (sv_chat (sd_state (serve_frame demo_env (JArr []) Local demo_call (Some demo_frame) demo_server)))
     = [(sent_message demo_call ''ida'' ''idb'' ''hello'')\<lparr>cm_delivered := Some 9\<rparr>]"
  by code_simp

theorem sends_are_signed_witness:
  "called_tool demo_frame = ''agent_send'' \<and> (\<exists>r \<in> set (sv_reg demo_server). ar_id r = ''ida'' \<and> alive r)"
proof -
  define m where "m = (sent_message demo_call ''ida'' ''idb'' ''hello'')\<lparr>cm_delivered := Some 9\<rparr>"
  have m: "m \<in> set (messages (sv_chat (sd_state (serve_frame demo_env (JArr []) Local demo_call (Some demo_frame) demo_server))))"
    by (simp add: demo_sent m_def)
  have new: "cm_id m \<notin> cm_id ` set (messages (sv_chat demo_server))" by (simp add: demo_server_def new_server_def)
  have "cm_from m = ''ida''" "called_tool demo_frame = ''agent_send''"
    by (simp add: m_def sent_message_def) code_simp
  then show ?thesis using sends_are_signed [OF demo_ok m new] by auto
qed

theorem agent_message_arrives_witness:
  "\<exists>f. (''c2'', f) \<in> set (sd_out (handle_agent_send demo_env demo_call JNull demo_args demo_server))
     \<and> pump_frame (\<lambda>_. False) (\<lambda>_. Some (agent_preamble ''ida'' ''idb'' ''m1'' False)) ''idb'' (local_router ''idb'' (Some [])) 9 f new_pump
         = (new_pump, [\<lparr>in_id = ''m1'', in_body = render (\<lambda>_. False) (Agent (text_of (or_nick (local_router ''idb'' (Some [])) ''ida''))) (text_of ''hello'')\<rparr>], [])"
proof -
  let ?r = "fresh_row ''idb'' ''bob'' ''c2'' None None 2"
  have a: "nonempty_str demo_args ''to_agent_id'' = Some ''idb''" "nonempty_str demo_args ''content'' = Some ''hello''"
    "caller_of demo_call demo_args demo_server = Inr ''ida''" "row_of ar_id ''idb'' (sv_reg demo_server) = Some ?r" "alive ?r"
    "\<not> quiet demo_call ?r" "bus_publish ''agent:idb'' (sv_bus demo_server) = [''c2'']" by code_simp+
  have n: "ca_new demo_call \<notin> cm_id ` set (messages (sv_chat demo_server))" by (simp add: demo_server_def new_server_def)
  have c: "ca_new demo_call = ''m1''" "ca_now demo_call = 9" by (simp_all add: demo_call_def)
  have own: "or_thread (local_router ''idb'' (Some [])) (agent_thread ''idb'')" by (simp add: local_router_def every_thread_is_ours)
  have line: "CHR 0x0A \<notin> set (se_print demo_env x)" for x by (simp add: demo_env_def)
  note use = agent_message_arrives [of demo_server demo_args "''idb''" "''hello''" demo_call "''ida''" ?r "\<lambda>_. Some (agent_preamble ''ida'' ''idb'' ''m1'' False)"
      demo_env "local_router ''idb'' (Some [])"]
  show ?thesis
    using use [OF demo_ok a(1-5) n _ line own, where ?p = new_pump and uni = "\<lambda>_. False"] a(6,7)
    by (simp add: c agent_thread_def Let_def)
qed

lemma demo_renamed: "case rename_in_place demo_call ''ida'' ''zoe'' True demo_server of Inl _ \<Rightarrow> False | Inr _ \<Rightarrow> True"
  by code_simp



end
