(* ===== verification/PoolHttp.thy ===== *)
theory PoolHttp
  imports Messaging Remote
begin

text \<open>
  The gateway's side of the worker pool (\<open>/pool/*\<close> of \<open>daemon/pool.rs\<close>): a dispatch and its delivery, the
  wait for an answer, the clear of a worker's context. A reply is the status line and the JSON body. What
  takes time is a value of \<open>pool_answer\<close> and goes on as \<open>wait_for\<close> or \<open>clear_ended\<close>.
\<close>

definition pool_max_body :: nat where "pool_max_body = 12 * 1024 * 1024"
definition max_wait_ms :: int where "max_wait_ms = 30000"

datatype pool_answer = PoolSays string json | PoolWaits string int bool | PoolClears string string

definition pool_err :: "string \<Rightarrow> string \<Rightarrow> string \<Rightarrow> pool_answer" where
  "pool_err status code msg = PoolSays status (JObj [(''error'', JStr code), (''message'', JStr msg)])"

section \<open>Delivery\<close>

definition pool_deliver :: "server_env \<Rightarrow> rpc_call \<Rightarrow> string \<Rightarrow> string \<Rightarrow> string \<Rightarrow> string option \<Rightarrow> string \<Rightarrow> server \<Rightarrow> server \<times> (string \<times> json) list" where
  "pool_deliver env c pool worker req ctype line s =
     (case send_message (ca_new c) (''pool:'' @ pool) worker line (ca_now c) (sv_reg s) (sv_chat s) of
        Inl _ \<Rightarrow> (s, [])
      | Inr (d, mid, _) \<Rightarrow>
          let s' = s\<lparr>sv_chat := d\<rparr>
          in (s', publish (agent_thread worker) (pool_frame (se_rfc env (ca_now c)) line pool req ctype worker mid) s'))"

section \<open>Waiting for one job\<close>

text \<open>
  The loop wakes when something changed and at the deadline: each element is the time of a wake and what
  the rest of the daemon did since the one before.
\<close>

fun wait_for :: "server_env \<Rightarrow> string \<Rightarrow> int \<Rightarrow> (int \<times> (server \<Rightarrow> server)) list \<Rightarrow> server \<Rightarrow> server \<times> (string \<times> json) option" where
  "wait_for env rid deadline [] s = (s, None)"
| "wait_for env rid deadline ((now, meanwhile) # ws) s =
     (let s1 = meanwhile s;
          (d, v) = read_job (se_pool env) (sv_reg s1) rid now (sv_pool s1);
          s2 = s1\<lparr>sv_pool := d\<rparr>
      in case v of
           None \<Rightarrow> (s2, Some (''404 Not Found'', JObj [(''error'', JStr ''no_such_job''), (''message'', JStr (''no job '' @ rid))]))
         | Some j \<Rightarrow>
             if is_final (given_or [] (get_str j ''state'')) \<or> deadline \<le> now then (s2, Some (''200 OK'', j))
             else wait_for env rid deadline ws s2)"

section \<open>Clearing a worker's context\<close>

definition clear_err :: "string \<Rightarrow> string \<Rightarrow> string \<Rightarrow> (string \<times> json) list \<Rightarrow> string \<times> json" where
  "clear_err status code worker extra = (status, JObj ([(''error'', JStr code), (''worker_id'', JStr worker)] @ extra))"

definition says :: "string \<times> json \<Rightarrow> pool_answer" where "says r = PoolSays (fst r) (snd r)"

definition no_pool :: "string \<Rightarrow> string" where
  "no_pool pool = ''no session has joined pool '' @ CHR 0x60 # pool @ [CHR 0x60]"

definition clear_asked :: "server_env \<Rightarrow> rpc_call \<Rightarrow> nat \<Rightarrow> string \<Rightarrow> string \<Rightarrow> server \<Rightarrow> server \<times> (string \<times> json) list \<times> pool_answer" where
  "clear_asked env c seq pool worker s =
     (case begin_clear (sv_reg s) pool worker (ca_now c) seq (sv_pool s) of
        (d, Inl e) \<Rightarrow> (s\<lparr>sv_pool := d\<rparr>, [], says (clear_err ''400 Bad Request'' ''bad_request'' worker [(''message'', JStr (se_say_pool env e))]))
      | (d, Inr (ClearBusy st ids)) \<Rightarrow>
          (s\<lparr>sv_pool := d\<rparr>, [], says (clear_err ''409 Conflict'' ''worker_busy'' worker [(''state'', JStr st), (''req_ids'', JArr (map JStr ids))]))
      | (d, Inr (ClearUnavailable st)) \<Rightarrow>
          (s\<lparr>sv_pool := d\<rparr>, [], says (clear_err ''503 Service Unavailable'' ''worker_unavailable'' worker [(''state'', JStr st)]))
      | (d, Inr ClearNoPool) \<Rightarrow>
          (s\<lparr>sv_pool := d\<rparr>, [], says (clear_err ''404 Not Found'' ''no_such_pool'' worker [(''message'', JStr (no_pool pool))]))
      | (d, Inr (Begin cid)) \<Rightarrow>
          let out = publish (agent_thread worker) (clear_frame worker cid pool) s in
          if out = []
          then (s\<lparr>sv_pool := end_clear worker d\<rparr>, [], says (clear_err ''503 Service Unavailable'' ''worker_unavailable'' worker [(''state'', JStr ''unreachable'')]))
          else (s\<lparr>sv_pool := d, sv_clears := (sv_clears s)(cid \<mapsto> worker)\<rparr>, out, PoolClears worker cid))"

text \<open>How a clear ends: the worker reports, its report is a failure, the waiter is lost, or the minute is over.\<close>

datatype clear_outcome = Cleared | ClearFailed string | ClearLost | ClearLate

definition clear_ended :: "int \<Rightarrow> int \<Rightarrow> string \<Rightarrow> string \<Rightarrow> clear_outcome \<Rightarrow> server \<Rightarrow> server \<times> string \<times> json" where
  "clear_ended started now worker cid outcome s =
     (s\<lparr>sv_pool := end_clear worker (sv_pool s), sv_clears := (sv_clears s)(cid := None)\<rparr>,
      case outcome of
        Cleared \<Rightarrow> (''200 OK'', JObj [(''worker_id'', JStr worker), (''state'', JStr ''free''), (''duration_ms'', JNum (now - started))])
      | ClearFailed why \<Rightarrow> clear_err ''502 Bad Gateway'' ''clear_failed'' worker [(''message'', JStr why)]
      | ClearLost \<Rightarrow> clear_err ''500 Internal Server Error'' ''internal'' worker []
      | ClearLate \<Rightarrow> clear_err ''504 Gateway Timeout'' ''clear_timeout'' worker [(''timeout_ms'', JNum clear_timeout_ms)])"

section \<open>The routes\<close>

definition asked_wait :: "int option \<Rightarrow> int" where
  "asked_wait w = max 0 (min max_wait_ms (given_or 0 w))"

fun find_map :: "('a \<Rightarrow> 'b option) \<Rightarrow> 'a list \<Rightarrow> 'b option" where
  "find_map f [] = None"
| "find_map f (x # xs) = (case f x of None \<Rightarrow> find_map f xs | Some y \<Rightarrow> Some y)"

definition query_wait :: "string \<Rightarrow> int" where
  "query_wait query =
     asked_wait (Option.bind (find_map (strip_prefix ''wait_ms='') (split_by (\<lambda>c. c = CHR ''&'') query)) parse_i64)"

definition dispatch_reply :: "string \<Rightarrow> json \<Rightarrow> dispatch_result \<Rightarrow> pool_answer" where
  "dispatch_reply pool body r =
     (case r of
        Leased job _ _ \<Rightarrow> PoolSays ''202 Accepted'' job
      | Existing job \<Rightarrow> PoolSays ''200 OK'' job
      | NoFreeWorker free busy \<Rightarrow> PoolSays ''503 Service Unavailable''
          (JObj [(''error'', JStr ''no_free_worker''), (''free'', JNum (int free)), (''busy'', JNum (int busy))])
      | WorkerBusy st ids \<Rightarrow> PoolSays ''409 Conflict''
          (JObj [(''error'', JStr ''worker_busy''), (''worker_id'', jindex body ''worker_id''), (''state'', JStr st), (''req_ids'', JArr (map JStr ids))])
      | WorkerUnavailable st \<Rightarrow> PoolSays ''503 Service Unavailable''
          (JObj [(''error'', JStr ''worker_unavailable''), (''worker_id'', jindex body ''worker_id''), (''state'', JStr st)])
      | NoSuchPool \<Rightarrow> pool_err ''404 Not Found'' ''no_such_pool'' (no_pool pool))"

definition dispatch_route ::
  "server_env \<Rightarrow> (string \<Rightarrow> json option) \<Rightarrow> (string \<Rightarrow> string) \<Rightarrow> rpc_call \<Rightarrow> string \<Rightarrow> string \<Rightarrow> server \<Rightarrow> server \<times> (string \<times> json) list \<times> pool_answer" where
  "dispatch_route env parse why c pool body s =
     (if pool_max_body < length body then (s, [], pool_err ''413 Payload Too Large'' ''too_large'' (''over '' @ dec pool_max_body @ '' bytes''))
      else case parse body of
        None \<Rightarrow> (s, [], pool_err ''400 Bad Request'' ''bad_request'' (''body is not JSON: '' @ why body))
      | Some v \<Rightarrow>
        case dispatch (se_pool env) (sv_reg s) pool v (ca_now c) (sv_pool s) of
          (d, Inl e) \<Rightarrow> (s\<lparr>sv_pool := d\<rparr>, [], pool_err ''400 Bad Request'' ''bad_request'' (se_say_pool env e))
        | (d, Inr (Leased job worker line)) \<Rightarrow>
            let rid = given_or [] (get_str job ''req_id'');
                (s', out) = pool_deliver env c pool worker rid (get_str job ''call_type'') line (s\<lparr>sv_pool := d\<rparr>);
                wait = asked_wait (get_i64 v ''wait_ms'')
            in (s', out, if 0 < wait then PoolWaits rid wait True else PoolSays ''202 Accepted'' job)
        | (d, Inr r) \<Rightarrow> (s\<lparr>sv_pool := d\<rparr>, [], dispatch_reply pool v r))"

text \<open>A dispatch that waited answers 202 as long as the job is out.\<close>

definition after_wait :: "bool \<Rightarrow> string \<times> json \<Rightarrow> string \<times> json" where
  "after_wait dispatched r =
     (if dispatched \<and> get_str (snd r) ''state'' = Some ''leased'' then (''202 Accepted'', snd r) else r)"

definition pool_http ::
  "server_env \<Rightarrow> (string \<Rightarrow> string) \<Rightarrow> (string \<Rightarrow> json option) \<Rightarrow> (string \<Rightarrow> string) \<Rightarrow> rpc_call \<Rightarrow> nat \<Rightarrow> string \<Rightarrow> string \<Rightarrow> string option \<Rightarrow> string
     \<Rightarrow> server \<times> token_db \<Rightarrow> (server \<times> token_db) \<times> (string \<times> json) list \<times> pool_answer" where
  "pool_http env sh parse why c seq meth target token body st =
     (let s = fst st; (gateway, td) = authenticate sh PoolToken (given_or [] token) (ca_now c) (snd st) in
      if gateway = None
      then ((s, td), [], pool_err ''401 Unauthorized'' ''unauthorized'' ''missing or unknown X-Api-Token (claudebase pool token issue <name>)'')
      else
        let (path, query) = (case split_once (CHR ''?'') target of Some (p, q) \<Rightarrow> (p, q) | None \<Rightarrow> (target, []));
            parts = split_by (\<lambda>c. c = CHR ''/'') (trim_matches (\<lambda>c. c = CHR ''/'') path);
            (s', out, r) =
              (if meth = ''GET'' \<and> length parts = 3 \<and> take 2 parts = [''pool'', ''jobs'']
               then (s, [], PoolWaits (parts ! 2) (query_wait query) False)
               else if meth = ''POST'' \<and> length parts = 4 \<and> take 2 parts = [''pool'', ''jobs''] \<and> parts ! 3 = ''cancel''
               then (case cancel (se_pool env) (sv_reg s) (parts ! 2) (ca_now c) (sv_pool s) of
                   (d, None) \<Rightarrow> (s\<lparr>sv_pool := d\<rparr>, [], pool_err ''404 Not Found'' ''no_such_job'' (''no leased job '' @ parts ! 2))
                 | (d, Some (worker, pool, job)) \<Rightarrow>
                     let (s', out) = pool_deliver env c pool worker (parts ! 2) None
                       (''pool job '' @ parts ! 2 @ '' was cancelled by the gateway; stop working on it, do not reply'') (s\<lparr>sv_pool := d\<rparr>)
                     in (s', out, PoolSays ''200 OK'' job))
               else if meth = ''GET'' \<and> length parts = 3 \<and> parts ! 0 = ''pool'' \<and> parts ! 2 = ''workers''
               then (s, [], case workers_json (sv_reg s) (parts ! 1) (ca_now c) (sv_pool s) of
                   Some v \<Rightarrow> PoolSays ''200 OK'' v
                 | None \<Rightarrow> pool_err ''404 Not Found'' ''no_such_pool'' (no_pool (parts ! 1)))
               else if meth = ''POST'' \<and> length parts = 5 \<and> parts ! 0 = ''pool'' \<and> parts ! 2 = ''workers'' \<and> parts ! 4 = ''clear''
               then (if \<not> check_pool (parts ! 1) then (s, [], pool_err ''400 Bad Request'' ''bad_request'' (se_say_pool env BadPool))
                 else clear_asked env c seq (parts ! 1) (parts ! 3) s)
               else if meth = ''POST'' \<and> length parts = 3 \<and> parts ! 0 = ''pool'' \<and> parts ! 2 = ''dispatch''
               then dispatch_route env parse why c (parts ! 1) body s
               else (s, [], pool_err ''404 Not Found'' ''no_such_route'' (meth @ '' '' @ path)))
        in ((s', td), out, r))"

section \<open>From the gateway to the worker's terminal\<close>

lemma leased_parts:
  assumes "dispatch penv reg pool v now d = (d', Inr (Leased job worker line))"
  shows "\<exists>rid w ct n. check_req_id rid \<and> get_str job ''req_id'' = Some rid \<and> get_str job ''call_type'' = ct \<and> ct \<noteq> Some []
    \<and> w \<in> set (workers reg pool d) \<and> w_alive w \<and> w_agent w = worker \<and> line = job_line rid n"
proof -
  obtain rid attempts where rid: "check_req_id rid"
    and new: "dispatch_new penv reg pool rid v attempts now d = (d', Inr (Leased job worker line))"
    using dispatch_leased [OF assms] by blast
  obtain payload timeout imgs w where p: "pick now (target_of v) (workers reg pool d) = Inr w"
    and l: "lease penv reg rid pool w payload imgs timeout attempts now d = (d', Inr (Leased job worker line))"
    using dispatch_new_leased [OF new] by blast
  let ?j = "new_job penv rid pool (w_agent w) (call_type payload) now timeout attempts"
  have e: "job = job_value penv reg ?j" "worker = w_agent w" "line = job_line rid (length imgs)" using lease_ok [OF l] by auto
  have "get_str job ''req_id'' = Some rid" "get_str job ''call_type'' = call_type payload"
    unfolding e(1) by (auto simp: job_value_def new_job_def get_str_def jopt_def split: option.splits)
  moreover have "call_type payload \<noteq> Some []" by (auto simp: call_type_def check_name_def split: option.splits if_splits)
  moreover have "w \<in> set (workers reg pool d) \<and> worker_state now w = ''free''" using pick_worker [OF p] by blast
  ultimately show ?thesis using rid e free_worker by blast
qed

lemma alive_worker: "w \<in> set (workers reg pool d) \<Longrightarrow> w_alive w \<Longrightarrow> \<exists>r. row_of ar_id (w_agent w) reg = Some r \<and> alive r"
  by (auto simp: workers_def worker_of_def Let_def split: option.splits)

lemma job_line_plain: "check_req_id rid \<Longrightarrow> CHR 0x0A \<notin> set (job_line rid n)"
proof -
  assume r: "check_req_id rid"
  have "CHR 0x0A \<notin> set rid" using r by (auto simp: check_req_id_def check_name_def list_all_iff is_ascii_alnum_def is_ascii_digit_def is_ascii_alpha_def)
  moreover have "CHR 0x0A \<notin> set (dec n)" using dec_digits [of "CHR 0x0A" n] by auto
  ultimately show ?thesis by (simp add: job_line_def)
qed

lemma plain_line_whole: "CHR 0x0A \<notin> set line \<Longrightarrow> split_agent_preamble rd line = (line, None)"
proof -
  assume "CHR 0x0A \<notin> set line"
  then have "\<not> contains [CHR 0x0A, CHR 0x0A] line" by (auto simp: contains_iff)
  then have "split_str [CHR 0x0A, CHR 0x0A] line = None" by (rule split_str_none [THEN iffD2])
  then show ?thesis unfolding split_agent_preamble_def by simp
qed

text \<open>
  C4: A job leased to a worker is typed into its terminal: the line is published on the worker's thread,
  where its supervisor types it as a job of that pool under its request id, and it is kept as a message
  that was not handed out, so that a worker that is away finds it when it subscribes again.
\<close>

theorem job_reaches_worker:
  assumes body: "parse body = Some v" "length body \<le> pool_max_body"
    and leased: "dispatch (se_pool env) (sv_reg s) pool v (ca_now c) (sv_pool s) = (d, Inr (Leased job worker line))"
    and fresh: "ca_new c \<notin> cm_id ` set (messages (sv_chat s))" and own: "or_thread orc (agent_thread worker)" and uuid: "not_a_sender worker"
  shows "\<exists>f rid ct. get_str job ''req_id'' = Some rid
    \<and> fst (snd (dispatch_route env parse why c pool body s)) = map (\<lambda>k. (k, f)) (bus_publish (agent_thread worker) (sv_bus s))
    \<and> pump_frame uni rd worker orc now f p
        = (p, [\<lparr>in_id = ca_new c, in_body = render uni (PoolJob (text_of pool) (text_of rid) (map_option text_of ct)) (text_of line)\<rparr>], [])
    \<and> (\<exists>m \<in> set (messages (sv_chat (fst (dispatch_route env parse why c pool body s)))).
         cm_id m = ca_new c \<and> undelivered (agent_thread worker) m \<and> cm_content m = line)"
proof -
  obtain rid w ct n where l: "check_req_id rid" "get_str job ''req_id'' = Some rid" "get_str job ''call_type'' = ct" "ct \<noteq> Some []"
    "w \<in> set (workers (sv_reg s) pool (sv_pool s))" "w_alive w" "w_agent w = worker" "line = job_line rid n"
    using leased_parts [OF leased] by blast
  obtain r where r: "row_of ar_id worker (sv_reg s) = Some r" "alive r" using alive_worker [OF l(5,6)] l(7) by blast
  let ?m = "sent_message c (''pool:'' @ pool) worker line"
  let ?f = "pool_frame (se_rfc env (ca_now c)) line pool rid ct worker (ca_new c)"
  note sent = send_accepted [OF r fresh, of "''pool:'' @ pool" line]
  have out: "fst (snd (dispatch_route env parse why c pool body s)) = map (\<lambda>k. (k, ?f)) (bus_publish (agent_thread worker) (sv_bus s))"
    "messages (sv_chat (fst (dispatch_route env parse why c pool body s))) = messages (sv_chat s) @ [?m]"
    using body leased sent l(2,3) by (auto simp: dispatch_route_def pool_deliver_def Let_def publish_def given_or_def)
  have "line \<noteq> []" by (simp add: l(8) job_line_def)
  moreover have "split_agent_preamble rd line = (line, None)" using plain_line_whole job_line_plain [OF l(1)] by (simp add: l(8))
  ultimately have "pump_frame uni rd worker orc now ?f p
      = (p, [\<lparr>in_id = ca_new c, in_body = render uni (PoolJob (text_of pool) (text_of rid) (map_option text_of ct)) (text_of line)\<rparr>], [])"
    using pool_body [OF own _ _ l(4)] not_a_sender_neq(3) [OF uuid] by simp
  moreover have "?m \<in> set (messages (sv_chat (fst (dispatch_route env parse why c pool body s))))" "cm_id ?m = ca_new c"
    "undelivered (agent_thread worker) ?m" "cm_content ?m = line" by (simp_all add: out(2) sent_message_def undelivered_def)
  ultimately show ?thesis using l(2) out(1) by blast
qed

section \<open>And back\<close>

definition keeps :: "string \<Rightarrow> (server \<Rightarrow> server) \<Rightarrow> bool" where
  "keeps rid m \<longleftrightarrow> (\<forall>s. row_of pj_id rid (jobs (sv_pool (m s))) = row_of pj_id rid (jobs (sv_pool s)) \<and> sv_reg (m s) = sv_reg s)"

definition pool_replies :: "server_env \<Rightarrow> rpc_call \<Rightarrow> json \<Rightarrow> json \<Rightarrow> server \<Rightarrow> server" where
  "pool_replies env c i args s = sd_state (serve_tool env c ''pool_reply'' i args s)"

lemma wait_unfinished:
  assumes "row_of pj_id rid (jobs (sv_pool s)) = Some j" "\<not> is_final (pj_state j)"
    and "\<forall>(t, m) \<in> set ws. t < deadline \<and> keeps rid m"
  shows "\<exists>s'. wait_for env rid deadline (ws @ more_wakes) s = wait_for env rid deadline more_wakes s'
    \<and> row_of pj_id rid (jobs (sv_pool s')) = Some j \<and> sv_reg s' = sv_reg s"
  using assms
proof (induction ws arbitrary: s)
  case Nil
  then show ?case by auto
next
  case (Cons w ws)
  obtain t m where w: "w = (t, m)" "t < deadline" "keeps rid m" using Cons.prems(3) by (cases w) auto
  have row: "row_of pj_id rid (jobs (sv_pool (m s))) = Some j" "sv_reg (m s) = sv_reg s"
    using w(3) Cons.prems(1) by (simp_all add: keeps_def)
  have "read_job (se_pool env) (sv_reg (m s)) rid t (sv_pool (m s)) = (sv_pool (m s), Some (job_value (se_pool env) (sv_reg (m s)) j))"
    using row(1) Cons.prems(2) by (simp add: read_job_def job_json_def job_value_fields Let_def)
  then have "wait_for env rid deadline ((w # ws) @ more_wakes) s = wait_for env rid deadline (ws @ more_wakes) (m s)"
    using w(1,2) Cons.prems(2) by (simp add: job_value_fields given_or_def Let_def)
  then show ?case using Cons.IH [OF row(1) Cons.prems(2)] Cons.prems(3) row(2) by auto
qed


text \<open>A wait ends: at the wake the deadline brings, if not before.\<close>

lemma wait_ends:
  assumes "\<exists>w \<in> set ws. deadline \<le> fst w"
  shows "snd (wait_for env rid deadline ws s) \<noteq> None"
  using assms
proof (induction ws arbitrary: s)
  case (Cons w ws)
  obtain t m where w: "w = (t, m)" by fastforce
  obtain d v where r: "read_job (se_pool env) (sv_reg (m s)) rid t (sv_pool (m s)) = (d, v)" by fastforce
  show ?case
  proof (cases "deadline \<le> t")
    case True
    then show ?thesis by (simp add: w r Let_def split: option.split)
  next
    case False
    then have "\<exists>w \<in> set ws. deadline \<le> fst w" using Cons.prems by (auto simp: w)
    from Cons.IH [OF this] show ?thesis using False by (simp add: w r Let_def split: option.split)
  qed
qed simp

section \<open>A worker that is being cleared\<close>

lemma updated_row:
  assumes "m \<in> set (upd_where p f t)" "p m" "\<And>x. p (f x) \<longleftrightarrow> p x"
  shows "\<exists>x. m = f x"
  using assms by (auto simp: upd_where_def split: if_splits)

lemma clear_begun:
  assumes "clear_asked env c seq pool worker s = (s1, out, PoolClears w cid)"
  shows "w = worker \<and> (\<exists>x \<in> set (workers (sv_reg s) pool (sv_pool s)). w_agent x = worker \<and> worker_state (ca_now c) x = ''free'' \<and> w_leased x = [])
    \<and> out = map (\<lambda>k. (k, clear_frame worker cid pool)) (bus_publish (agent_thread worker) (sv_bus s)) \<and> out \<noteq> []
    \<and> sv_clears s1 = (sv_clears s)(cid \<mapsto> worker) \<and> jobs (sv_pool s1) = jobs (sv_pool s)
    \<and> members (sv_pool s1) = upd_where (\<lambda>m. pm_agent m = worker) (\<lambda>m. m\<lparr>pm_clearing := Some (ca_now c + clear_timeout_ms + 5000)\<rparr>) (members (sv_pool s))"
  using assms
  by (auto simp: clear_asked_def begin_clear_def says_def Let_def publish_def dest!: find_SomeD
      split: if_splits option.splits sum.splits clear_start.splits prod.splits)


text \<open>
  A pool may be called \<open>jobs\<close>; its workers cannot be listed, as the route is taken for the job \<open>workers\<close>.
\<close>

lemma pool_named_jobs:
  assumes "fst (authenticate sh PoolToken (given_or [] token) (ca_now c) td) \<noteq> None"
  shows "snd (snd (pool_http env sh parse why c seq ''GET'' ''/pool/jobs/workers'' token body (s, td))) = PoolWaits ''workers'' 0 False"
    "check_pool ''jobs''"
proof -
  have "split_by (\<lambda>c. c = CHR ''/'') (trim_matches (\<lambda>c. c = CHR ''/'') ''/pool/jobs/workers'') = [''pool'', ''jobs'', ''workers'']"
    "query_wait [] = 0" "split_once (CHR ''?'') ''/pool/jobs/workers'' = None" by code_simp+
  then show "snd (snd (pool_http env sh parse why c seq ''GET'' ''/pool/jobs/workers'' token body (s, td))) = PoolWaits ''workers'' 0 False"
    using assms by (auto simp: pool_http_def split_beta Let_def)
  show "check_pool ''jobs''" by code_simp
qed

section \<open>On a concrete pool\<close>

definition pool_server :: server where
  "pool_server = new_server\<lparr>sv_reg := toy_reg, sv_pool := joined, sv_bus := [(''agent:a'', ''c1'')]\<rparr>"

definition pool_demo_env :: server_env where "pool_demo_env = demo_env\<lparr>se_pool := toy_env\<rparr>"

theorem job_reaches_worker_witness:
  "\<exists>m \<in> set (messages (sv_chat (fst (dispatch_route pool_demo_env (\<lambda>_. Some toy_body) (\<lambda>_. []) demo_call ''p'' [] pool_server)))).
     cm_id m = ''m1'' \<and> undelivered ''agent:a'' m"
proof -
  have toy: "dispatch (se_pool pool_demo_env) (sv_reg pool_server) ''p'' toy_body (ca_now demo_call) (sv_pool pool_server)
      = dispatch toy_env toy_reg ''p'' toy_body 9 joined" by (simp add: pool_demo_env_def pool_server_def demo_call_def)
  have "case dispatch toy_env toy_reg ''p'' toy_body 9 joined of (_, Inr (Leased _ w _)) \<Rightarrow> w = ''a'' | _ \<Rightarrow> False" by code_simp
  then obtain d job line where l: "dispatch (se_pool pool_demo_env) (sv_reg pool_server) ''p'' toy_body (ca_now demo_call) (sv_pool pool_server)
      = (d, Inr (Leased job ''a'' line))" unfolding toy by (auto split: prod.splits sum.splits dispatch_result.splits)
  have a: "ca_new demo_call \<notin> cm_id ` set (messages (sv_chat pool_server))" "ca_new demo_call = ''m1''"
    by (simp_all add: pool_server_def new_server_def demo_call_def)
  have own: "or_thread (local_router ''a'' (Some [])) (agent_thread ''a'')" by (simp add: local_router_def every_thread_is_ours)
  have uuid: "not_a_sender ''a''" by (simp add: not_a_sender_def starts_with_def)
  have body: "(\<lambda>_ :: string. Some toy_body) [] = Some toy_body" "length ([] :: string) \<le> pool_max_body" by simp_all
  show ?thesis using job_reaches_worker [OF body l a(1) own uuid, of "\<lambda>_. []"] by (simp add: a(2) agent_thread_def) blast
qed



end
