(* ===== verification/Http.thy ===== *)
theory Http
  imports Api PoolHttp Access
begin

text \<open>
  The listener of \<open>daemon/callback.rs\<close>: a request read from a connection, the four surfaces it may be
  for, and what is answered. A connection is the list of what its reads return, in their order, an empty
  read being its end; the response line and headers are left out.
\<close>

section \<open>Reading a request\<close>

definition max_head :: nat where "max_head = 8 * 1024"
definition callback_max_body :: nat where "callback_max_body = 64 * 1024"

fun find_head_end :: "nat list \<Rightarrow> nat option" where
  "find_head_end [] = None"
| "find_head_end (c # cs) = (if strip_prefix [13, 10, 13, 10] (c # cs) \<noteq> None then Some 0 else map_option Suc (find_head_end cs))"

datatype head_read = NoRequest | HeadTooLarge | HeadRead "nat list" nat "nat list list"

fun read_head :: "nat list \<Rightarrow> nat list list \<Rightarrow> head_read" where
  "read_head buf [] = NoRequest"
| "read_head buf (r # rs) =
     (if r = [] then NoRequest
      else case find_head_end (buf @ r) of
        Some p \<Rightarrow> HeadRead (buf @ r) p rs
      | None \<Rightarrow> if max_head < length (buf @ r) then HeadTooLarge else read_head (buf @ r) rs)"

fun read_more :: "nat \<Rightarrow> nat list \<Rightarrow> nat list list \<Rightarrow> nat list" where
  "read_more n body [] = body"
| "read_more n body (r # rs) = (if n \<le> length body \<or> r = [] then body else read_more n (body @ r) rs)"

definition read_body :: "nat \<Rightarrow> nat list \<Rightarrow> nat \<Rightarrow> nat list list \<Rightarrow> nat list" where
  "read_body n buf p rs = take n (read_more n (drop (p + 4) buf) rs)"

record http_head =
  hh_method :: utext
  hh_target :: utext
  hh_token :: "utext option"
  hh_length :: nat

fun header_fields :: "utext list \<Rightarrow> utext option \<times> nat \<Rightarrow> utext option \<times> nat" where
  "header_fields [] acc = acc"
| "header_fields (l # ls) acc =
     (case split_once 58 l of None \<Rightarrow> header_fields ls acc
      | Some (k, v) \<Rightarrow>
        let name = Mindmap.ascii_lower (trim k); value = trim v in
        if name = of_str ''x-api-token'' then header_fields ls (Some value, snd acc)
        else if name = of_str ''content-length'' then header_fields ls (fst acc, given_or 0 (parse_u64 value))
        else header_fields ls acc)"

definition parse_head :: "nat list \<Rightarrow> http_head" where
  "parse_head bytes =
     (let ls = map strip_cr (lines_of (utf8_lossy bytes));
          parts = split_white (case ls of [] \<Rightarrow> [] | l # _ \<Rightarrow> l);
          (token, n) = header_fields (drop 1 ls) (None, 0)
      in \<lparr>hh_method = (if parts = [] then [] else parts ! 0), hh_target = (if length parts < 2 then [] else parts ! 1),
          hh_token = token, hh_length = n\<rparr>)"

section \<open>What a request touches\<close>

text \<open>\<open>wb_journals\<close> is the state of the journal tools; its sessions are the daemon's.\<close>

record 'v web =
  wb_server :: server
  wb_journals :: "'v daemon"
  wb_tokens :: token_db

record 'v web_env =
  we_env :: server_env
  we_world :: "'v world"
  we_sha :: "string \<Rightarrow> string"
  we_parse :: "string \<Rightarrow> json option"
  we_why :: "string \<Rightarrow> string"
  we_lower :: "utext \<Rightarrow> utext"
  we_alpha :: "nat \<Rightarrow> bool"
  we_svg :: "mmap \<Rightarrow> string"
  we_say :: "callback_error \<Rightarrow> string"

datatype http_answer =
    NoAnswer | JsonAnswer string json | PageAnswer string string string | PoolAnswer pool_answer | ApiAnswer api_reply

section \<open>The page of a mind map\<close>

text \<open>\<open>str::replace\<close>.\<close>

function replace_all :: "string \<Rightarrow> string \<Rightarrow> string \<Rightarrow> string" where
  "replace_all p by t =
     (if p = [] then t
      else case t of [] \<Rightarrow> []
      | c # cs \<Rightarrow> if starts_with t p then by @ replace_all p by (drop (length p) t) else c # replace_all p by cs)"
  by pat_completeness auto
termination
  by (relation "measure (\<lambda>(p, by, t). length t)") auto

declare replace_all.simps [simp del]

definition html_page :: "string list" where
  "html_page =
     [''<!doctype html>'',
      ''<html lang=\"en\"><head><meta charset=\"utf-8\"><meta name=\"viewport\" content=\"width=device-width, initial-scale=1\">'',
      ''<title>{{TITLE}} '' @ [CHR 0xE2, CHR 0x80, CHR 0x94] @ '' mind map</title>'',
      ''<style>'',
      '':root{--bg:#f8fafc;--fg:#0f172a;--mu:#64748b}'',
      ''@media (prefers-color-scheme: dark){:root{--bg:#0b1120;--fg:#e2e8f0;--mu:#94a3b8}}'',
      ''html,body{margin:0;background:var(--bg);color:var(--fg);font:13px system-ui,sans-serif}'',
      ''#bar{position:sticky;top:0;padding:8px 16px;color:var(--mu);background:var(--bg)}'',
      ''#map{overflow:auto;padding:0 16px 16px}'',
      ''#map.fit svg{width:100%;height:auto}'',
      ''</style></head><body>'',
      ''<div id=\"bar\">live '' @ [CHR 0xC2, CHR 0xB7] @ '' updates every 2 s '' @ [CHR 0xC2, CHR 0xB7]
        @ '' click the map to toggle fit / full size '' @ [CHR 0xC2, CHR 0xB7] @ '' <span id=\"st\"></span></div>'',
      ''<div id=\"map\" class=\"fit\">{{SVG}}</div>'',
      ''<script>'',
      ''const box=document.getElementById('' @ CHR 0x27 # ''map'' @ CHR 0x27 # ''),st=document.getElementById('' @ CHR 0x27 # ''st'' @ CHR 0x27 # '');'',
      ''box.addEventListener('' @ CHR 0x27 # ''click'' @ CHR 0x27 # '',()=>box.classList.toggle('' @ CHR 0x27 # ''fit'' @ CHR 0x27 # ''));'',
      ''let last=box.innerHTML;'',
      ''async function tick(){'',
      ''  try{'',
      ''    const r=await fetch(location.pathname.replace(/'' @ CHR 0x5C # ''/$/,'' @ CHR 0x27 # CHR 0x27 # '')+'' @ CHR 0x27 # ''.svg'' @ CHR 0x27
        # '',{cache:'' @ CHR 0x27 # ''no-store'' @ CHR 0x27 # ''});'',
      ''    if(r.ok){const t=await r.text();if(t!==last){box.innerHTML=t;last=t;}st.textContent='' @ CHR 0x27 # ''updated '' @ CHR 0x27
        # ''+new Date().toLocaleTimeString();}'',
      ''    else{st.textContent='' @ CHR 0x27 # ''map gone ('' @ CHR 0x27 # ''+r.status+'' @ CHR 0x27 # '')'' @ CHR 0x27 # '';}'',
      ''  }catch(e){st.textContent='' @ CHR 0x27 # ''daemon unreachable'' @ CHR 0x27 # '';}'',
      ''}'',
      ''setInterval(tick,2000);'',
      ''</script></body></html>'']"

definition page_text :: string where "page_text = concat (map (\<lambda>l. l @ [CHR 0x0A]) html_page)"

definition page_title :: "mmap \<Rightarrow> string" where
  "page_title m = replace_all ''<'' ''&lt;'' (replace_all ''&'' ''&amp;'' (bytes_of (su_title (mm_summary m))))"

definition mindmap_page :: "'v web_env \<Rightarrow> utext \<Rightarrow> string \<Rightarrow> 'v daemon \<Rightarrow> http_answer \<times> 'v daemon" where
  "mindmap_page env meth target d =
     (if Mindmap.ascii_lower meth \<noteq> of_str ''get'' then (PageAnswer ''405 Method Not Allowed'' ''text/plain; charset=utf-8'' ''use GET'', d)
      else
        let rest = takeWhile (\<lambda>c. c \<noteq> CHR ''?'') (strip_all ''/mindmap/'' target);
            (token, svg_only) = (case strip_suffix ''.svg'' rest of Some t \<Rightarrow> (t, True) | None \<Rightarrow> (rest, False))
        in case find_by_token (we_world env) token d of
            (Inl _, d') \<Rightarrow> (PageAnswer ''500 Internal Server Error'' ''text/plain; charset=utf-8'' ''lookup failed'', d')
          | (Inr None, d') \<Rightarrow> (PageAnswer ''404 Not Found'' ''text/plain; charset=utf-8'' ''no such mind map'', d')
          | (Inr (Some m), d') \<Rightarrow>
              (if svg_only then PageAnswer ''200 OK'' ''image/svg+xml; charset=utf-8'' (we_svg env m)
               else PageAnswer ''200 OK'' ''text/html; charset=utf-8''
                 (replace_all ''{{SVG}}'' (we_svg env m) (replace_all ''{{TITLE}}'' (page_title m) page_text)), d'))"

section \<open>One connection\<close>

definition refusal :: "string \<Rightarrow> string \<Rightarrow> http_answer" where
  "refusal status msg = JsonAnswer status (JObj [(''ok'', JBool False), (''error'', JStr msg)])"

definition too_large :: "nat \<Rightarrow> http_answer" where
  "too_large n = JsonAnswer ''413 Payload Too Large''
     (JObj [(''error'', JStr ''too_large''), (''message'', JStr (''over '' @ dec n @ '' bytes''))])"

definition body_text :: "nat list \<Rightarrow> string" where "body_text b = map char_of b"

definition ascii_upper :: "utext \<Rightarrow> utext" where
  "ascii_upper t = map (\<lambda>c. if 97 \<le> c \<and> c \<le> 122 then c - 32 else c) t"

definition serve_mindmap :: "'v web_env \<Rightarrow> http_head \<Rightarrow> 'v web \<Rightarrow> 'v web \<times> (string \<times> json) list \<times> http_answer" where
  "serve_mindmap env h w =
     (let (r, d) = mindmap_page env (hh_method h) (bytes_of (hh_target h)) (wb_journals w)
      in (w\<lparr>wb_journals := d\<rparr>, [], r))"

definition serve_pool_http ::
  "'v web_env \<Rightarrow> rpc_call \<Rightarrow> nat \<Rightarrow> http_head \<Rightarrow> (nat \<Rightarrow> nat list) \<Rightarrow> 'v web \<Rightarrow> 'v web \<times> (string \<times> json) list \<times> http_answer" where
  "serve_pool_http env c seq h body w =
     (if pool_max_body < hh_length h then (w, [], too_large pool_max_body)
      else let ((s, td), out, r) = pool_http (we_env env) (we_sha env) (we_parse env) (we_why env) c seq (bytes_of (ascii_upper (hh_method h)))
             (bytes_of (hh_target h)) (map_option bytes_of (hh_token h)) (body_text (body (hh_length h))) (wb_server w, wb_tokens w)
           in (w\<lparr>wb_server := s, wb_tokens := td\<rparr>, out, PoolAnswer r))"

definition serve_api ::
  "'v web_env \<Rightarrow> rpc_call \<Rightarrow> http_head \<Rightarrow> (nat \<Rightarrow> nat list) \<Rightarrow> 'v web \<Rightarrow> 'v web \<times> (string \<times> json) list \<times> http_answer" where
  "serve_api env c h body w =
     (case refuse_token (we_sha env) (map_option bytes_of (hh_token h)) (ca_now c) (wb_tokens w) of
        (Some r, td) \<Rightarrow> (w\<lparr>wb_tokens := td\<rparr>, [], ApiAnswer r)
      | (None, td) \<Rightarrow>
        if api_max_body < hh_length h then (w\<lparr>wb_tokens := td\<rparr>, [], too_large api_max_body)
        else let (r, d) = api_http (we_lower env) (we_parse env) (bytes_of (ascii_upper (hh_method h))) (bytes_of (hh_target h))
                   (body_text (body (hh_length h))) (we_world env) (ca_now c) ((wb_journals w)\<lparr>dn_agents := sv_reg (wb_server w)\<rparr>)
             in (w\<lparr>wb_tokens := td, wb_journals := d\<rparr>, [], ApiAnswer r))"

definition serve_callback_http ::
  "'v web_env \<Rightarrow> rpc_call \<Rightarrow> http_head \<Rightarrow> (nat \<Rightarrow> nat list) \<Rightarrow> 'v web \<Rightarrow> 'v web \<times> (string \<times> json) list \<times> http_answer" where
  "serve_callback_http env c h body w =
     (if Mindmap.ascii_lower (hh_method h) \<noteq> of_str ''post'' then (w, [], refusal ''405 Method Not Allowed'' ''use POST'')
      else if callback_max_body < hh_length h then (w, [], refusal ''413 Payload Too Large'' ''body too large'')
      else
        let text = extract_text (we_parse env) (utf8_lossy (body (hh_length h))) in
        case parse_target (we_alpha env) (hh_target h) of
          None \<Rightarrow> (w, [], JsonAnswer ''200 OK'' (JObj [(''ok'', JBool False), (''error'', JStr ''path must be /callback/<nick>''), (''candidates'', JArr [])]))
        | Some (target, label) \<Rightarrow>
            let (s, out, r) = serve_callback (we_env env) c \<lparr>cq_target = target, cq_label = label, cq_token = hh_token h\<rparr> text (wb_server w)
            in (w\<lparr>wb_server := s\<rparr>, out, JsonAnswer ''200 OK'' (callback_json (we_say env) r)))"

definition serve_head ::
  "'v web_env \<Rightarrow> rpc_call \<Rightarrow> nat \<Rightarrow> http_head \<Rightarrow> (nat \<Rightarrow> nat list) \<Rightarrow> 'v web \<Rightarrow> 'v web \<times> (string \<times> json) list \<times> http_answer" where
  "serve_head env c seq h body w =
     (let target = bytes_of (hh_target h) in
      if starts_with target ''/mindmap/'' then serve_mindmap env h w
      else if starts_with target ''/pool/'' then serve_pool_http env c seq h body w
      else if starts_with target ''/v1/'' then serve_api env c h body w
      else serve_callback_http env c h body w)"

definition handle_connection ::
  "'v web_env \<Rightarrow> rpc_call \<Rightarrow> nat \<Rightarrow> nat list list \<Rightarrow> 'v web \<Rightarrow> 'v web \<times> (string \<times> json) list \<times> http_answer" where
  "handle_connection env c seq reads w =
     (case read_head [] reads of
        NoRequest \<Rightarrow> (w, [], NoAnswer)
      | HeadTooLarge \<Rightarrow> (w, [], refusal ''413 Payload Too Large'' ''request head too large'')
      | HeadRead buf p rs \<Rightarrow> serve_head env c seq (parse_head (take p buf)) (\<lambda>n. read_body n buf p rs) w)"

section \<open>How a request is cut into packets\<close>

lemma head_end_mono: "find_head_end a = Some p \<Longrightarrow> find_head_end (a @ b) = Some p"
proof (induction a arbitrary: p)
  case (Cons c cs)
  show ?case
  proof (cases "strip_prefix [13, 10, 13, 10] (c # cs) = None")
    case True
    then obtain q where q: "find_head_end cs = Some q" "p = Suc q" using Cons.prems by auto
    have "strip_prefix [13, 10, 13, 10] (c # cs @ b) = None"
    proof (rule ccontr)
      assume "strip_prefix [13, 10, 13, 10] (c # cs @ b) \<noteq> None"
      then obtain r where "c # cs @ b = [13, 10, 13, 10] @ r" by (auto simp: strip_prefix_iff)
      then have "length cs < 3" using True by (cases cs; cases "tl cs"; cases "tl (tl cs)") (auto simp: strip_prefix_def)
      moreover have "q + 4 \<le> length cs" using q(1)
        by (induction cs arbitrary: q) (auto simp: strip_prefix_iff split: if_splits)
      ultimately show False by simp
    qed
    then show ?thesis using Cons.IH [OF q(1)] q(2) by simp
  next
    case False
    then obtain r where "c # cs = [13, 10, 13, 10] @ r" by (auto simp: strip_prefix_iff)
    then have "strip_prefix [13, 10, 13, 10] ((c # cs) @ b) = Some (r @ b)" by (simp add: strip_prefix_iff)
    then show ?thesis using Cons.prems False by simp
  qed
qed simp

lemma head_end_bound: "find_head_end a = Some p \<Longrightarrow> p + 4 \<le> length a"
  by (induction a arbitrary: p) (auto simp: strip_prefix_iff split: if_splits)

lemma head_end_take: "find_head_end a = Some p \<Longrightarrow> find_head_end (take (p + 4) a) = Some p"
proof (induction a arbitrary: p)
  case (Cons c cs)
  show ?case
  proof (cases "strip_prefix [13, 10, 13, 10] (c # cs) = None")
    case True
    then obtain q where q: "find_head_end cs = Some q" "p = Suc q" using Cons.prems by auto
    have "strip_prefix [13, 10, 13, 10] (c # take (q + 4) cs) = None"
      using True by (auto simp: strip_prefix_def take_Cons' split: if_splits)
    moreover have "p + 4 = Suc (q + 4)" by (simp add: q(2))
    then have "take (p + 4) (c # cs) = c # take (q + 4) cs" by (simp only: take_Suc_Cons)
    ultimately show ?thesis using Cons.IH [OF q(1)] q(2) by simp
  next
    case False
    then obtain r where "c # cs = [13, 10, 13, 10] @ r" by (auto simp: strip_prefix_iff)
    moreover have "p = 0" using False Cons.prems by simp
    ultimately show ?thesis by (simp add: strip_prefix_def)
  qed
qed simp

lemma read_head_all:
  assumes "find_head_end (buf @ concat rs) = Some p" "p + 4 \<le> Suc max_head" "[] \<notin> set rs" "find_head_end buf = None"
  shows "\<exists>b rest. read_head buf rs = HeadRead b p rest \<and> buf @ concat rs = b @ concat rest \<and> p + 4 \<le> length b \<and> [] \<notin> set rest"
  using assms
proof (induction rs arbitrary: buf)
  case (Cons r rs)
  show ?case
  proof (cases "find_head_end (buf @ r)")
    case None
    have "length (buf @ r) \<le> max_head"
    proof (rule ccontr)
      assume "\<not> length (buf @ r) \<le> max_head"
      then have "p + 4 \<le> length (buf @ r)" using Cons.prems(2) by simp
      then have "take (p + 4) (buf @ concat (r # rs)) = take (p + 4) (buf @ r)" by simp
      then have "find_head_end (take (p + 4) (buf @ r)) = Some p" using head_end_take [OF Cons.prems(1)] by (simp only:)
      then have "find_head_end (take (p + 4) (buf @ r) @ drop (p + 4) (buf @ r)) = Some p" by (rule head_end_mono)
      then show False using None unfolding append_take_drop_id by simp
    qed
    then show ?thesis using Cons.IH [of "buf @ r"] Cons.prems None by auto
  next
    case (Some q)
    have "q = p" using head_end_mono [OF Some, of "concat rs"] Cons.prems(1) by simp
    then show ?thesis using Some Cons.prems(3) head_end_bound [OF Some] by auto
  qed
qed simp

lemma read_more_take: "[] \<notin> set rs \<Longrightarrow> take n (read_more n body rs) = take n (body @ concat rs)"
  by (induction rs arbitrary: body) auto

text \<open>
  C7: However a request is cut into packets, the listener does with it what it does with the whole of it in
  one: the same head, the same body, the same answer, the same effect; provided the head ends within the
  first 8 KiB.
\<close>

theorem packets_do_not_matter:
  assumes "find_head_end (concat reads) = Some p" "p + 4 \<le> Suc max_head" "[] \<notin> set reads"
  shows "handle_connection env c seq reads w = handle_connection env c seq [concat reads] w"
proof -
  obtain b rest where r: "read_head [] reads = HeadRead b p rest" "concat reads = b @ concat rest" "p + 4 \<le> length b" "[] \<notin> set rest"
    using read_head_all [of "[]" reads p] assms by auto
  have ne: "concat reads \<noteq> []" using head_end_bound [OF assms(1)] by (metis add_is_0 le_zero_eq list.size(3) numeral_neq_zero)
  have one: "read_head [] [concat reads] = HeadRead (concat reads) p []" using ne assms(1) by simp
  have "read_body n b p rest = read_body n (concat reads) p []" for n
    unfolding read_body_def read_more_take [OF r(4)] using r(2,3) by simp
  moreover have "take p b = take p (concat reads)" using r(2,3) by simp
  ultimately show ?thesis unfolding handle_connection_def r(1) one by simp
qed

section \<open>Which key opens which door\<close>

definition request_of :: "nat list list \<Rightarrow> http_head option" where
  "request_of reads = (case read_head [] reads of HeadRead buf p _ \<Rightarrow> Some (parse_head (take p buf)) | _ \<Rightarrow> None)"

definition for_surface :: "http_head \<Rightarrow> string \<Rightarrow> bool" where
  "for_surface h p \<longleftrightarrow> starts_with (bytes_of (hh_target h)) p"

definition kind_opens :: "'v web_env \<Rightarrow> rpc_call \<Rightarrow> token_kind \<Rightarrow> http_head \<Rightarrow> 'v web \<Rightarrow> bool" where
  "kind_opens env c k h w \<longleftrightarrow> (\<exists>name. fst (authenticate (we_sha env) k (given_or [] (map_option bytes_of (hh_token h))) (ca_now c) (wb_tokens w)) = Some name)"

definition nick_opens :: "'v web_env \<Rightarrow> http_head \<Rightarrow> 'v web \<Rightarrow> bool" where
  "nick_opens env h w \<longleftrightarrow> (\<exists>target label aid nick. parse_target (we_alpha env) (hh_target h) = Some (target, label)
     \<and> resolve_target (bytes_of target) (sv_reg (wb_server w)) = Inr aid \<and> nick_of aid (sv_reg (wb_server w)) = Some nick
     \<and> token_for nick (sv_tokens (wb_server w)) = Some (bytes_of (given_or [] (hh_token h))))"

lemma pool_door:
  assumes "pool_http env sh parse why c seq meth target token body (s, td) = ((s', td'), out, r)"
    and "s' \<noteq> s \<or> out \<noteq> []"
  shows "\<exists>name. fst (authenticate sh PoolToken (given_or [] token) (ca_now c) td) = Some name"
proof (rule ccontr)
  assume "\<not> ?thesis"
  then have "pool_http env sh parse why c seq meth target token body (s, td)
      = ((s, snd (authenticate sh PoolToken (given_or [] token) (ca_now c) td)), [],
         pool_err ''401 Unauthorized'' ''unauthorized'' ''missing or unknown X-Api-Token (claudebase pool token issue <name>)'')"
    by (simp add: pool_http_def split_beta)
  then show False using assms by simp
qed

lemma callback_door:
  assumes "serve_callback env c req body s = (s', out, r)" "s' \<noteq> s \<or> out \<noteq> []"
  shows "\<exists>aid nick. resolve_target (bytes_of (cq_target req)) (sv_reg s) = Inr aid \<and> nick_of aid (sv_reg s) = Some nick
    \<and> token_for nick (sv_tokens s) = Some (bytes_of (given_or [] (cq_token req)))"
proof (cases "callback_resolve (cq_target req) (cq_token req) (sv_reg s) (sv_tokens s)")
  case (Inl e)
  then show ?thesis using assms by (auto simp: serve_callback_def callback_dispatch_def Let_def split: if_splits)
next
  case (Inr x)
  then show ?thesis
    by (auto simp: callback_resolve_def constant_time_is_equality split: sum.splits option.splits if_splits)
qed

lemma contains_drop: "contains p (drop n t) \<Longrightarrow> contains p t"
  unfolding contains_iff by (metis append.assoc append_take_drop_id)

lemma contains_strip_all: "contains t (strip_all p target) \<Longrightarrow> contains t target"
proof (induction p target rule: strip_all.induct)
  case (1 p u)
  then show ?case by (cases "p \<noteq> [] \<and> starts_with u p") (auto simp: strip_all.simps [of p u] dest: contains_drop)
qed

lemma path_contains:
  assumes "takeWhile P (strip_all p target) = token \<or> takeWhile P (strip_all p target) = token @ e"
  shows "contains token target"
proof -
  obtain b where "strip_all p target = token @ b"
    using assms takeWhile_dropWhile_id [of P "strip_all p target"] by (metis append.assoc)
  then have "contains token (strip_all p target)" unfolding contains_iff by (metis append_Nil)
  then show ?thesis by (rule contains_strip_all)
qed

lemma page_door:
  assumes "mindmap_page env meth target d = (PageAnswer ''200 OK'' ct body, d')"
  shows "\<exists>token m. find_by_token (we_world env) token d = (Inr (Some m), d') \<and> length token = 32
    \<and> (takeWhile (\<lambda>x. x \<noteq> CHR ''?'') (strip_all ''/mindmap/'' target) = token
       \<or> takeWhile (\<lambda>x. x \<noteq> CHR ''?'') (strip_all ''/mindmap/'' target) = token @ ''.svg'')"
proof -
  let ?r = "takeWhile (\<lambda>x. x \<noteq> CHR ''?'') (strip_all ''/mindmap/'' target)"
  define token where "token = (case strip_suffix ''.svg'' ?r of Some t \<Rightarrow> t | None \<Rightarrow> ?r)"
  have t: "?r = token \<or> ?r = token @ ''.svg''"
    by (cases "strip_suffix ''.svg'' ?r") (auto simp: token_def strip_suffix_iff)
  obtain m where m: "find_by_token (we_world env) token d = (Inr (Some m), d')"
    using assms by (auto simp: mindmap_page_def token_def Let_def split: if_splits option.splits prod.splits sum.splits)
  then have "length token = 32" by (auto simp: find_by_token_def split: if_splits)
  then show ?thesis using t m by blast
qed


section \<open>Two limits\<close>

text \<open>A connection that ends before the announced length is served with what came.\<close>

lemma cut_short_is_served:
  assumes "length (drop (p + 4) buf) < n"
  shows "read_body n buf p [] = drop (p + 4) buf"
  using assms by (simp add: read_body_def)

lemma no_angle: "CHR ''<'' \<notin> set (replace_all ''<'' ''&lt;'' t)"
proof (induction "''<''" "''&lt;''" t rule: replace_all.induct)
  case (1 t)
  show ?case
  proof (cases t)
    case (Cons c cs)
    show ?thesis
    proof (cases "c = CHR ''<''")
      case True
      then have "starts_with (c # cs) ''<''" by (simp add: starts_with_def)
      then show ?thesis using 1(1) [of c cs] Cons by (simp add: replace_all.simps [of _ _ "c # cs"])
    next
      case False
      then have "\<not> starts_with (c # cs) ''<''" by (simp add: starts_with_def)
      then show ?thesis using 1(2) [of c cs] Cons False by (simp add: replace_all.simps [of _ _ "c # cs"])
    qed
  qed (simp add: replace_all.simps)
qed

text \<open>No markup in a map's title reaches the page.\<close>

lemma title_is_text: "CHR ''<'' \<notin> set (page_title m)"
  by (simp add: page_title_def no_angle)

section \<open>A concrete request\<close>

lemma parse_head_parts:
  assumes "map strip_cr (lines_of (utf8_lossy b)) = l # ls" "split_white l = m # t # ws" "header_fields ls (None, 0) = (tok, n)"
  shows "parse_head b = \<lparr>hh_method = m, hh_target = t, hh_token = tok, hh_length = n\<rparr>"
  using assms by (simp add: parse_head_def)

lemma split_white_next:
  assumes "w \<noteq> []" "\<forall>c \<in> set w. \<not> is_white c" "is_white x"
  shows "split_white (w @ x # r) = w # split_white r"
  using assms by (cases w) (auto simp: takeWhile_append dropWhile_append)

definition web_demo_env :: "unit web_env" where
  "web_demo_env = \<lparr>we_env = demo_env, we_world = lone, we_sha = id, we_parse = (\<lambda>_. None), we_why = (\<lambda>_. []), we_lower = id,
     we_alpha = (\<lambda>_. False), we_svg = (\<lambda>_. []), we_say = (\<lambda>_. ''e'')\<rparr>"

definition web_demo :: "unit web" where
  "web_demo = \<lparr>wb_server = demo_server\<lparr>sv_bus := [(''agent:ida'', ''c1'')]\<rparr>, wb_journals = desk, wb_tokens = (\<lambda>_. [])\<rparr>"

definition ask_bytes :: "nat list" where
  "ask_bytes = of_str ''POST /callback/ann HTTP/1.1'' @ [13, 10] @ of_str ''X-Api-Token: tok'' @ [13, 10]
     @ of_str ''Content-Length: 2'' @ [13, 10, 13, 10] @ of_str ''hi''"

theorem packets_do_not_matter_witness:
  "handle_connection web_demo_env demo_call 0 [take 20 ask_bytes, drop 20 ask_bytes] web_demo
     = handle_connection web_demo_env demo_call 0 [ask_bytes] web_demo"
proof -
  have c: "concat [take 20 ask_bytes, drop 20 ask_bytes] = ask_bytes" by simp
  have f: "find_head_end ask_bytes = Some 64" by code_simp
  have n: "[] \<notin> set [take 20 ask_bytes, drop 20 ask_bytes]" by code_simp
  have b: "64 + 4 \<le> Suc max_head" by (simp add: max_head_def)
  show ?thesis by (rule packets_do_not_matter [of "[take 20 ask_bytes, drop 20 ask_bytes]" 64, unfolded c, OF f b n])
qed

lemma demo_answered: "fst (snd (handle_connection web_demo_env demo_call 0 [ask_bytes] web_demo)) \<noteq> []"
proof -
  have 1: "read_head [] [ask_bytes] = HeadRead ask_bytes 64 []" by code_simp
  have 2: "parse_head (take 64 ask_bytes) = \<lparr>hh_method = of_str ''POST'', hh_target = of_str ''/callback/ann'',
      hh_token = Some (of_str ''tok''), hh_length = 2\<rparr>"
  proof -
    have a: "utf8_lossy (take 64 ask_bytes) = take 64 ask_bytes" by code_simp
    have b: "map strip_cr (lines_of (utf8_lossy (take 64 ask_bytes))) = [of_str ''POST /callback/ann HTTP/1.1'', of_str ''X-Api-Token: tok'', of_str ''Content-Length: 2'']"
      unfolding a by code_simp
    have c: "split_white (of_str ''POST /callback/ann HTTP/1.1'') = [of_str ''POST'', of_str ''/callback/ann'', of_str ''HTTP/1.1'']"
    proof -
      have w: "of_str ''POST /callback/ann HTTP/1.1'' = of_str ''POST'' @ 32 # of_str ''/callback/ann'' @ 32 # of_str ''HTTP/1.1''"
        "\<forall>c \<in> set (of_str ''POST''). \<not> is_white c" "\<forall>c \<in> set (of_str ''/callback/ann''). \<not> is_white c"
        "\<forall>c \<in> set (of_str ''HTTP/1.1''). \<not> is_white c" "(of_str ''POST'' :: utext) \<noteq> []" "(of_str ''/callback/ann'' :: utext) \<noteq> []" "(of_str ''HTTP/1.1'' :: utext) \<noteq> []" "is_white 32"
        by (simp_all add: of_str_def is_white_def)
      show ?thesis unfolding w(1) split_white_next [OF w(5,2,8)] split_white_next [OF w(6,3,8)] split_white_word [OF w(7,4)] ..
    qed
    have d: "header_fields [of_str ''X-Api-Token: tok'', of_str ''Content-Length: 2''] (None, 0) = (Some (of_str ''tok''), 2)"
    proof -
      have k: "split_once 58 (of_str ''X-Api-Token: tok'') = Some (of_str ''X-Api-Token'', of_str '' tok'')"
        "split_once 58 (of_str ''Content-Length: 2'') = Some (of_str ''Content-Length'', of_str '' 2'')"
        "Mindmap.ascii_lower (trim (of_str ''X-Api-Token'')) = of_str ''x-api-token''"
        "Mindmap.ascii_lower (trim (of_str ''Content-Length'')) = of_str ''content-length''"
        "trim (of_str '' tok'') = of_str ''tok''" "trim (of_str '' 2'') = of_str ''2''" "of_str ''content-length'' \<noteq> of_str ''x-api-token''"
        by (simp_all add: split_once_def of_str_def trim_def is_white_def Mindmap.ascii_lower_def)
      have n: "parse_u64 (of_str ''2'') = Some 2" by (simp add: parse_u64_def of_str_def is_ascii_digit_def)
      show ?thesis by (simp only: header_fields.simps k n Let_def option.case prod.case given_or_def fst_conv snd_conv if_True if_False simp_thms)
    qed
    show ?thesis by (rule parse_head_parts [OF b c d])
  qed
  have 3: "bytes_of (of_str ''/callback/ann'') = ''/callback/ann''" by code_simp
  have 4: "starts_with ''/callback/ann'' ''/mindmap/'' = False" "starts_with ''/callback/ann'' ''/pool/'' = False"
    "starts_with ''/callback/ann'' ''/v1/'' = False" by code_simp+
  have 5: "read_body 2 ask_bytes 64 [] = of_str ''hi''" by code_simp
  have 6: "parse_target (\<lambda>_. False) (of_str ''/callback/ann'') = Some (of_str ''ann'', None)" by code_simp
  have 7: "fst (snd (serve_callback demo_env demo_call \<lparr>cq_target = of_str ''ann'', cq_label = None, cq_token = Some (of_str ''tok'')\<rparr>
      (of_str ''hi'') (demo_server\<lparr>sv_bus := [(''agent:ida'', ''c1'')]\<rparr>))) \<noteq> []"
  proof -
    have a: "trim (sanitize_body (of_str ''hi'')) \<noteq> []" by code_simp
    have b: "callback_resolve (of_str ''ann'') (Some (of_str ''tok'')) (sv_reg demo_server) (sv_tokens demo_server) = Inr (''ida'', ''ann'')" by code_simp
    have c: "row_of ar_id ''ida'' (sv_reg demo_server) = Some demo_row" "alive demo_row" "ca_new demo_call \<notin> cm_id ` set (messages (sv_chat demo_server))"
      by code_simp+
    show ?thesis using a b send_accepted [OF c]
      by (simp add: serve_callback_def callback_dispatch_def deliver_resolved_def Let_def bus_publish_def agent_thread_def)
  qed
  have 8: "extract_text (\<lambda>_. None) (utf8_lossy (of_str ''hi'')) = of_str ''hi''" "Mindmap.ascii_lower (of_str ''POST'') = of_str ''post''" by code_simp+
  have 9: "\<not> callback_max_body < 2" by (simp add: callback_max_body_def)
  have "fst (snd (serve_callback_http web_demo_env demo_call \<lparr>hh_method = of_str ''POST'', hh_target = of_str ''/callback/ann'',
      hh_token = Some (of_str ''tok''), hh_length = 2\<rparr> (\<lambda>n. read_body n ask_bytes 64 []) web_demo)) \<noteq> []"
    using 7 unfolding serve_callback_http_def web_demo_env_def web_demo_def by (simp only: http_head.simps web_env.simps web.simps 5 6 8 9
        Let_def split_beta option.case fst_conv snd_conv prod.case if_False not_True_eq_False if_True refl) simp
  then show ?thesis unfolding handle_connection_def 1 head_read.case 2 serve_head_def Let_def http_head.simps 3 4 if_False .
qed


end
