(* ===== verification/Spec2Isabelle.thy ===== *)
theory Spec2Isabelle
  imports Registry PendingAsks Access Pool Chat Inject MindmapTrees JournalCopies IndexSearch Http
begin

text \<open>
  Verification development of claudebase, the daemon and command line that let Claude Code
  sessions talk to each other and to their operator, keep a work journal and index documents.
  The program is the Rust code under \<open>src/src\<close>; file names below are relative to it.

  The program and how its parts interact.

  The daemon (\<open>daemon/server.rs\<close>) owns \<open>chat.db\<close>, one SQLite file: the sessions it knows
  (\<open>agent_registry.rs\<close>), messages and threads (\<open>chat.rs\<close>), open questions (\<open>pending_asks.rs\<close>),
  the worker pool (\<open>pool.rs\<close>). The Telegram poller (\<open>telegram.rs\<close>) asks the gate
  (\<open>channel_state.rs\<close>) who may write, turns taps into answers and messages into rows. Each session
  runs under a supervisor (\<open>supervisor/\<close>): its injector pastes inbound messages into the child's
  terminal, and reads the screen and the operator's line to know when that is safe. A project has
  a journal file (\<open>journal.rs\<close>) with its mind maps (\<open>mindmap.rs\<close>), and a document index
  (\<open>store.rs\<close>, \<open>ingest.rs\<close>, \<open>search.rs\<close>).

  The theories.

  \<open>Prelude\<close>: SQL tables as lists of rows in rowid order with the statements the code runs, 64-bit
  arithmetic, text, and two interfaces. \<open>transition_system\<close> (a start, a step and an invariant) is
  interpreted by every component that is a state machine: \<open>Registry\<close>, \<open>Access\<close>, \<open>Pool\<close>, \<open>Inject\<close>,
  \<open>IndexStore\<close>, \<open>Remote\<close>, \<open>Callback\<close>, \<open>Server\<close>; \<open>row_store\<close> (insert, look up, delete) by \<open>PendingAsks\<close>. \<open>Json\<close> is
  \<open>serde_json::Value\<close>, \<open>Utf8\<close> the decoders of the standard library and \<open>input.rs\<close>.

  \<open>Registry\<close> (\<open>daemon/agent_registry.rs\<close>, constraints of \<open>chat.rs\<close>): one row per session, its life
  cycle, the unique indexes, chats bound to a session or a nick. Lemmas: no two live sessions answer
  to one nick or one chat, rows only move along the life cycle, a bind moves the chat.

  \<open>PendingAsks\<close> (\<open>daemon/pending_asks.rs\<close>, the request of \<open>server.rs\<close>, the tap of \<open>telegram.rs\<close>):
  questions with buttons. Lemmas: the buttons sent for a question answer it, Done answers what is
  ticked.

  \<open>Access\<close> (\<open>daemon/channel_state.rs\<close>, \<open>access_cli.rs\<close>): allowlist, pairing codes, groups. Lemmas:
  only the operator's commands let a sender in; the table of codes is bounded.

  \<open>Pool\<close> (\<open>daemon/pool.rs\<close>): members, jobs, leases, the worker's tools, the sweep. Lemmas: a dispatch
  takes one free slot, outcomes are final, tools act on the caller's jobs, files are read back.

  \<open>Chat\<close> (\<open>daemon/chat.rs\<close>, sending in \<open>agent_registry.rs\<close>, the tick of \<open>server.rs\<close>): threads,
  messages, backlog, do-not-disturb. Lemmas: a message is handed out exactly once and never lost.

  \<open>Frames\<close> (\<open>daemon/chat.rs\<close>, \<open>daemon/pool.rs\<close>): the notification frames and the bus. \<open>Nicks\<close>
  (\<open>agent_registry.rs\<close>, \<open>supervisor/mod.rs\<close>): what a session is called. \<open>Subscribe\<close>
  (\<open>daemon/subscribe_client.rs\<close>, \<open>daemon/session_tools.rs\<close>, \<open>supervisor/mod.rs\<close>): what a session
  makes of a frame and of a backlog. Lemmas: a frame reaches the session it names and no other, under
  the source it was built for; a session on another machine routes as one beside the daemon; nicks come
  back; a backlog is bounded.

  \<open>Callback\<close> (\<open>daemon/callback.rs\<close>, \<open>daemon/agent_socket.rs\<close>): messages from outside, the token of a
  nick and its file, the socket of every session. Lemmas: only the token in force for a session's nick
  writes into it, what is typed is the text under the callback's label and nothing that steers the
  terminal, tokens follow their nicks, the sockets follow the registry.

  \<open>Server\<close>, \<open>Messaging\<close> (\<open>daemon/server.rs\<close>): one frame of a connection in, the reply and what is
  published out, on all of the daemon's tables; the end of a connection, the tick, a callback. Lemmas:
  the tables stay consistent whatever is served; a message is from the session of its connection or of a
  token; it reaches the terminal it is for, at once or with the next subscription; a rename moves every
  route; a conversation keeps its name.

  \<open>PoolHttp\<close> (\<open>daemon/pool.rs\<close>), \<open>Http\<close> (the listener of \<open>daemon/callback.rs\<close>): a gateway's requests
  to the pool, delivery, the long poll, the clear of a worker; a request read from a connection and the
  surface it is for. Lemmas: a job is typed into the terminal of its worker, its answer reaches the
  gateway that waits, a worker being cleared gets no job; each surface opens to its own key, and how a
  request is cut into packets does not matter.

  \<open>Draft\<close>, \<open>Screen\<close>, \<open>Inject\<close> (\<open>supervisor/draft.rs\<close>, \<open>screen.rs\<close>, \<open>inject.rs\<close>): the tracker of the
  operator's line, the screen reader, the loop that pastes. Lemmas: the tracker refines the line it
  watches, the input box is read back, what is submitted is whole messages, each once, and only
  when the line is clean and no dialog is up.

  \<open>Journal\<close> (\<open>journal.rs\<close>): entries, tags, flags, links, evidence, reminders, branches and closing.
  Lemmas: nothing closes without the evidence its kind asks for, closing stays in the branch.

  \<open>JournalRead\<close>, \<open>JournalFiles\<close> (\<open>journal.rs\<close>): filters, pages, the agenda, the view of a branch, search and
  its fusion, vectors; then the files, one per project, opened, adopted, merged, forked and retired.
  Lemmas: a hit passes the filter of its search, a branch shown as verified closes on evidence.

  \<open>JournalTools\<close>, \<open>MindmapTools\<close>, \<open>JournalCopies\<close> (\<open>daemon/journal_tools.rs\<close>,
  \<open>daemon/mindmap_tools.rs\<close>): who a call is for, every tool on journals and maps, journals shared
  between folders, imports, vectors. The state is the daemon's registry, its shares and every journal
  file. Lemmas: a session writes and sees its own journal only, a map that is not shared changes for
  its owner alone, importing an archive again writes nothing, every entry gets its vector, sharing and
  unsharing loses nothing.

  \<open>Strings\<close>: the string functions of the standard library the parsers share. \<open>Remote\<close>
  (\<open>daemon/remote.rs\<close>, \<open>remote_cli.rs\<close>): the tokens of clients, the line that connects another machine,
  profiles. Lemmas: a token opens for the client it was issued to until the next one or a revocation, an
  issued line is read back and let in, on the certificate it pins. \<open>ProjectId\<close> (\<open>project_id.rs\<close>,
  \<open>project_config.rs\<close>): what a project is called, a session's settings. Lemmas: every spelling of an
  origin names one project, settings are read back. \<open>Api\<close> (\<open>daemon/api.rs\<close>): journals and mind maps
  over HTTP. Lemma: a request stays in the project it names.

  \<open>Mindmap\<close>, \<open>MindmapTrees\<close> (\<open>mindmap.rs\<close>): maps, nodes, links, chains, export, import, merge and
  the outline; then what they keep: every map is a tree whatever the order of operations, stored
  kinds fit the layout, every node is listed.

  \<open>Chunker\<close>, \<open>IndexStore\<close>, \<open>IndexSearch\<close> (\<open>chunker.rs\<close>, \<open>ingest.rs\<close>, \<open>store.rs\<close>, \<open>text.rs\<close>,
  \<open>search.rs\<close>, the index commands of \<open>main.rs\<close>): chunks, tables and triggers, the walk of a
  directory, deletion, re-indexing, the three searches. Lemmas: the index stays consistent, what
  was ingested is read back, a second run writes nothing, no file outside the project is reached,
  fusion returns the best of what the rankers found.

  Correspondence. A row of a table is a record with the columns the code uses; a statement is its
  WHERE and SET clauses on the list of rows; an \<open>i64\<close> is an \<open>int\<close>, wrapped or saturated where the
  code's arithmetic can leave the width; an error is a value of a sum or an option; a loop is a
  recursive function. The clock, random tokens, the file system, Unicode tables above ASCII,
  SHA-256 and external models are arguments of the definitions that use them.

  Bounds and fuel. No definition runs on fuel. The branch walks of \<open>Journal\<close> stop at the code's own
  limit of 200 entries; the walk of a directory at its 32 levels, which is the number it recurses
  on. \<open>meets\<close> of \<open>Mindmap\<close>, whose loop ends only on trees, and \<open>embed_missing\<close> of
  \<open>JournalFiles\<close>, which ends only with an encoder that answers, are \<open>partial_function (option)\<close>;
  that they answer is a theorem.

  Not modelled: argument parsing and printing of the command line, the service installer, sockets
  and TLS, drawing (\<open>mindmap_svg.rs\<close>, \<open>mindmap_flow.rs\<close>), speech recognition, PDF and OCR
  bindings, schema migrations, and the copies of chats between machines: files, terminals and
  libraries whose behaviour is outside the code. Concurrency: every statement or transaction is one
  step, as SQLite's lock and the daemon's mutexes make it. Scores of a search are exact rationals
  where the code has floating point.
\<close>

end
